(* ===== verification/Prelude.thy ===== *)
theory Prelude
  imports Main "HOL-Library.Word"
begin

text \<open>
  Shared vocabulary of the tetOS development: the machine types of
  \<open>kernel/types/types.h\<close>, little-endian byte codecs for the packed structures, block
  copies between byte lists (\<open>memcpy\<close> at an offset), and the generic facts on words,
  lists and counting that several components use.
\<close>

unbundle bit_operations_syntax

section \<open>Machine types\<close>

type_synonym u8 = "8 word"
type_synonym u16 = "16 word"
type_synonym u32 = "32 word"
type_synonym bytes = "8 word list"

section \<open>Fact collections\<close>

named_theorems codec_simps \<open>round trips of the byte codecs\<close>
named_theorems frame_simps \<open>fields an operation leaves alone\<close>
named_theorems word_nat \<open>word comparisons and arithmetic read as natural numbers\<close>

section \<open>Words as natural numbers\<close>

lemma unat_plus_small: "unat a + unat b < 2 ^ LENGTH('n) \<Longrightarrow> unat (a + b) = unat a + unat b"
  for a b :: "'n::len word"
  by (simp add: unat_word_ariths)

lemma unat_minus_le: "b \<le> a \<Longrightarrow> unat (a - b) = unat a - unat b" for a b :: "'n::len word"
  by (simp add: unat_sub)

lemma unat_of_nat_small: "n < 2 ^ LENGTH('n) \<Longrightarrow> unat (of_nat n :: 'n::len word) = n"
  by (simp add: unsigned_of_nat take_bit_nat_eq_self)

lemma less_plus_one: "n + 1 \<noteq> 0 \<Longrightarrow> x < n + 1 \<longleftrightarrow> x < n \<or> x = n" for n :: "'n::len word"
  using unatSuc [of n] by (auto simp: word_less_nat_alt word_unat_eq_iff add.commute)

lemmas word_to_nat [word_nat] = word_less_nat_alt word_le_nat_alt unat_of_nat_small

lemma u8_lt: "unat (w :: u8) < 256"
  using unsigned_less [of w] by simp

lemma u16_lt: "unat (w :: u16) < 65536"
  using unsigned_less [of w] by simp

lemma u32_lt: "unat (w :: u32) < 4294967296"
  using unsigned_less [of w] by simp

lemma unat_drop_bit: "unat (drop_bit k w) = unat w div 2 ^ k" for w :: "'n::len word"
  by (simp only: unat_drop_bit_eq) (simp add: drop_bit_eq_div)

lemma sint_small: "unat (w :: u32) < 2147483648 \<Longrightarrow> sint w = int (unat w)"
proof -
  assume small: "unat w < 2147483648"
  have u: "uint w = int (unat w)" by (rule uint_nat)
  have "signed_take_bit 31 (int n) = int n" if "n < 2147483648" for n
    by (rule signed_take_bit_int_eq_self) (use that in simp_all)
  from this [OF small] show ?thesis unfolding sint_uint u by simp
qed

lemma unat_ucast_16_32 [simp]: "unat (ucast (x :: u16) :: u32) = unat x"
  using u16_lt [of x] by (simp add: unsigned_ucast_eq take_bit_nat_eq_self)

lemma unat_ucast_8_32 [simp]: "unat (ucast (x :: u8) :: u32) = unat x"
  using u8_lt [of x] by (simp add: unsigned_ucast_eq take_bit_nat_eq_self)

section \<open>Slices of byte lists\<close>

text \<open>The \<open>n\<close> bytes at offset \<open>off\<close>, and a \<open>memcpy\<close> of \<open>src\<close> to offset \<open>off\<close>.\<close>

definition slice :: "nat \<Rightarrow> nat \<Rightarrow> 'a list \<Rightarrow> 'a list" where
  "slice off n bs = take n (drop off bs)"

definition blit :: "'a list \<Rightarrow> nat \<Rightarrow> 'a list \<Rightarrow> 'a list" where
  "blit dst off src = take off dst @ src @ drop (off + length src) dst"

lemma length_slice [simp]: "off + n \<le> length bs \<Longrightarrow> length (slice off n bs) = n"
  by (simp add: slice_def)

lemma length_blit [simp]: "off + length src \<le> length dst \<Longrightarrow> length (blit dst off src) = length dst"
  by (simp add: blit_def)

lemma slice_blit_same [codec_simps]: "off + length src \<le> length dst \<Longrightarrow> slice off (length src) (blit dst off src) = src"
  by (simp add: slice_def blit_def)

lemma slice_blit_other [codec_simps]:
  assumes "off + length src \<le> length dst" "o' + n \<le> off \<or> off + length src \<le> o'"
  shows "slice o' n (blit dst off src) = slice o' n dst"
proof (cases "o' + n \<le> off")
  case True
  with assms(1) have "drop o' (take off dst) = take (off - o') (drop o' dst)" by (simp add: drop_take)
  with True assms(1) show ?thesis by (simp add: slice_def blit_def)
next
  case False
  with assms show ?thesis by (simp add: slice_def blit_def)
qed

lemma blit_replicate: "blit (replicate n x) 0 src = src @ replicate (n - length src) x"
  by (simp add: blit_def)

lemma slice_add: "slice a (m + n) bs = slice a m bs @ slice (a + m) n bs"
  by (simp add: slice_def take_add add.commute)

lemma slice_take: "a + n \<le> m \<Longrightarrow> slice a n (take m bs) = slice a n bs"
  by (simp add: slice_def drop_take)

lemma slice_concat:
  "\<forall>x \<in> set xs. length x = w \<Longrightarrow> b < length xs \<Longrightarrow> off + n \<le> w \<Longrightarrow>
     slice (w * b + off) n (concat xs) = slice off n (xs ! b)"
proof (induction xs arbitrary: b)
  case (Cons x xs)
  show ?case
  proof (cases b)
    case 0
    with Cons.prems show ?thesis by (simp add: slice_def)
  next
    case (Suc c)
    with Cons.prems have "slice (w * b + off) n (concat (x # xs)) = slice (w * c + off) n (concat xs)"
      by (simp add: slice_def add.assoc)
    with Cons Suc show ?thesis by simp
  qed
qed simp

section \<open>Pages\<close>

text \<open>Masking off the low twelve bits rounds an address down to its page.\<close>

lemma page_mask_shift: "x AND NOT 0xFFF = push_bit 12 (drop_bit 12 (x :: u32))"
proof -
  have "x AND NOT (mask 12) = push_bit 12 (drop_bit 12 x)"
  proof (rule bit_word_eqI)
    fix n assume "n < LENGTH(32)"
    then show "bit (x AND NOT (mask 12)) n = bit (push_bit 12 (drop_bit 12 x)) n"
      by (auto simp only: bit_and_iff bit_not_iff bit_push_bit_iff bit_drop_bit_eq bit_mask_iff
          possible_bit_word comp_apply le_add_diff_inverse not_less)
  qed
  then show ?thesis by (simp add: mask_eq_exp_minus_1)
qed

lemma unat_page_mask: "unat (x AND NOT 0xFFF :: u32) = unat x div 4096 * 4096"
proof -
  have "unat (drop_bit 12 x) = unat x div 4096"
    by (simp only: unat_drop_bit_eq) (simp add: drop_bit_eq_div)
  then have "unat (push_bit 12 (drop_bit 12 x)) = (unat x div 4096 * 4096) mod 2 ^ 32"
    by (simp add: push_bit_eq_mult unat_word_ariths)
  also have "\<dots> = unat x div 4096 * 4096"
  proof (rule mod_less)
    have "unat x div 4096 * 4096 \<le> unat x" by simp
    also have "\<dots> < 2 ^ 32" using u32_lt [of x] by simp
    finally show "unat x div 4096 * 4096 < 2 ^ 32" .
  qed
  finally show ?thesis by (simp only: page_mask_shift)
qed

section \<open>Little-endian codecs\<close>

definition le16 :: "u16 \<Rightarrow> bytes" where
  "le16 w = [ucast w, ucast (drop_bit 8 w)]"

definition le32 :: "u32 \<Rightarrow> bytes" where
  "le32 w = [ucast w, ucast (drop_bit 8 w), ucast (drop_bit 16 w), ucast (drop_bit 24 w)]"

text \<open>Reading a field at a byte offset of a structure.\<close>

definition rd16 :: "bytes \<Rightarrow> nat \<Rightarrow> u16" where
  "rd16 bs k = ucast (bs ! k) OR push_bit 8 (ucast (bs ! (k + 1)))"

definition rd32 :: "bytes \<Rightarrow> nat \<Rightarrow> u32" where
  "rd32 bs k = ucast (bs ! k) OR push_bit 8 (ucast (bs ! (k + 1)))
     OR push_bit 16 (ucast (bs ! (k + 2))) OR push_bit 24 (ucast (bs ! (k + 3)))"

lemma length_le16 [simp]: "length (le16 w) = 2"
  by (simp add: le16_def)

lemma length_le32 [simp]: "length (le32 w) = 4"
  by (simp add: le32_def)

lemma le16_join: "(ucast (ucast w :: u8) :: u16) OR push_bit 8 (ucast (ucast (drop_bit 8 w) :: u8)) = w"
  by (rule bit_word_eqI) (auto simp: bit_simps)

lemma le32_join:
  "(ucast (ucast w :: u8) :: u32) OR push_bit 8 (ucast (ucast (drop_bit 8 w) :: u8))
     OR push_bit 16 (ucast (ucast (drop_bit 16 w) :: u8))
     OR push_bit 24 (ucast (ucast (drop_bit 24 w) :: u8)) = w"
proof (rule bit_word_eqI)
  fix n :: nat
  assume "n < LENGTH(32)"
  then consider "n < 8" | "8 \<le> n" "n < 16" | "16 \<le> n" "n < 24" | "24 \<le> n" "n < 32"
    by fastforce
  then show "bit ((ucast (ucast w :: u8) :: u32) OR push_bit 8 (ucast (ucast (drop_bit 8 w) :: u8))
     OR push_bit 16 (ucast (ucast (drop_bit 16 w) :: u8))
     OR push_bit 24 (ucast (ucast (drop_bit 24 w) :: u8))) n = bit w n"
    by cases (auto simp: bit_simps)
qed

lemma rd16_le16 [codec_simps]: "rd16 (xs @ le16 w @ ys) (length xs) = w"
  by (simp add: rd16_def le16_def nth_append le16_join)

lemma rd32_le32 [codec_simps]: "rd32 (xs @ le32 w @ ys) (length xs) = w"
  by (simp add: rd32_def le32_def nth_append le32_join)

lemma rd16_at: "bs = xs @ le16 w @ ys \<Longrightarrow> length xs = k \<Longrightarrow> rd16 bs k = w"
  using rd16_le16 by blast

lemma rd32_at: "bs = xs @ le32 w @ ys \<Longrightarrow> length xs = k \<Longrightarrow> rd32 bs k = w"
  using rd32_le32 by blast

lemma le16_rd16 [codec_simps]: "le16 (rd16 bs k) = [bs ! k, bs ! (k + 1)]"
  unfolding le16_def rd16_def
  by (simp only: list.inject, intro conjI refl; rule bit_word_eqI)
    (auto simp: bit_simps dest: bit_imp_le_length)

lemma le32_rd32 [codec_simps]:
  "le32 (rd32 bs k) = [bs ! k, bs ! (k + 1), bs ! (k + 2), bs ! (k + 3)]"
  unfolding le32_def rd32_def
  by (simp only: list.inject, intro conjI refl; rule bit_word_eqI)
    (auto simp: bit_simps dest: bit_imp_le_length)

text \<open>The signed reading of a 32-bit word.\<close>

lemma sint_cases: "sint w = (if 2147483648 \<le> uint w then uint w - 4294967296 else uint w)" for w :: u32
proof -
  have "sint w = (uint w + 2147483648) mod 4294967296 - 2147483648"
    by (simp add: sint_uint signed_take_bit_eq_take_bit_shift take_bit_eq_mod)
  moreover have "0 \<le> uint w" "uint w < 4294967296" using uint_bounded [of w] by simp_all
  moreover have "(x + 2147483648) mod 4294967296 = (if 2147483648 \<le> x then x - 2147483648 else x + 2147483648)"
    if "0 \<le> x" "x < 4294967296" for x :: int
    using that minus_mod_self2 [of "x + 2147483648" 4294967296] mod_pos_pos_trivial [of "x - 2147483648" 4294967296] by simp
  ultimately show ?thesis by simp
qed

end
