(* ===== verification/CString.thy ===== *)
theory CString
  imports Prelude
begin

text \<open>
  The freestanding string library, \<open>kernel/string/string.c\<close>. A pointer is the list of
  the bytes from it to the end of the object it points into; a function that walks off the
  object (no NUL byte, destination too small) has no defined result and is \<open>None\<close>.
  Source and destination are separate objects, as at every call in the kernel.
\<close>

section \<open>The library functions\<close>

fun strlen :: "bytes \<Rightarrow> nat option" where
  "strlen [] = None"
| "strlen (c # cs) = (if c \<noteq> 0 then map_option Suc (strlen cs) else Some 0)"

fun strcpy :: "bytes \<Rightarrow> bytes \<Rightarrow> bytes option" where
  "strcpy (d # dest) (c # src) =
     (if c \<noteq> 0 then map_option (Cons c) (strcpy dest src) else Some (0 # dest))"
| "strcpy _ _ = None"

text \<open>The result of \<open>strcmp\<close> is the difference of the two bytes read as unsigned char.\<close>

fun strcmp :: "bytes \<Rightarrow> bytes \<Rightarrow> int option" where
  "strcmp (a # s) (b # t) =
     (if a \<noteq> 0 \<and> a = b then strcmp s t else Some (uint a - uint b))"
| "strcmp _ _ = None"

text \<open>In \<open>strncmp\<close> the bytes are plain char, which is signed on this target.\<close>

fun strncmp :: "bytes \<Rightarrow> bytes \<Rightarrow> nat \<Rightarrow> int option" where
  "strncmp s t 0 = Some 0"
| "strncmp (a # s) (b # t) (Suc n) =
     (if a \<noteq> b \<or> a = 0 then Some (sint a - sint b) else strncmp s t n)"
| "strncmp _ _ (Suc n) = None"

fun strcat :: "bytes \<Rightarrow> bytes \<Rightarrow> bytes option" where
  "strcat [] src = None"
| "strcat (d # dest) src =
     (if d \<noteq> 0 then map_option (Cons d) (strcat dest src) else strcpy (d # dest) src)"

fun memset :: "bytes \<Rightarrow> u8 \<Rightarrow> nat \<Rightarrow> bytes option" where
  "memset p v 0 = Some p"
| "memset (d # p) v (Suc n) = map_option (Cons v) (memset p v n)"
| "memset [] v (Suc n) = None"

fun memcpy :: "bytes \<Rightarrow> bytes \<Rightarrow> nat \<Rightarrow> bytes option" where
  "memcpy dest src 0 = Some dest"
| "memcpy (d # dest) (s # src) (Suc n) = map_option (Cons s) (memcpy dest src n)"
| "memcpy _ _ (Suc n) = None"

fun memcmp :: "bytes \<Rightarrow> bytes \<Rightarrow> nat \<Rightarrow> int option" where
  "memcmp p q 0 = Some 0"
| "memcmp (a # p) (b # q) (Suc n) = (if a \<noteq> b then Some (uint a - uint b) else memcmp p q n)"
| "memcmp _ _ (Suc n) = None"

section \<open>The abstract string\<close>

text \<open>The C string at a pointer: the bytes before the first NUL.\<close>

definition cstr :: "bytes \<Rightarrow> bytes" where
  "cstr bs = takeWhile (\<lambda>b. b \<noteq> 0) bs"

abbreviation terminated :: "bytes \<Rightarrow> bool" where
  "terminated bs \<equiv> 0 \<in> set bs"

lemma cstr_Cons [simp]: "cstr (b # bs) = (if b = 0 then [] else b # cstr bs)"
  by (simp add: cstr_def)

lemma cstr_Nil [simp]: "cstr [] = []"
  by (simp add: cstr_def)

lemma cstr_no_nul [simp]: "0 \<notin> set (cstr bs)"
  by (induction bs) auto

lemma cstr_append_nul [simp]: "0 \<notin> set xs \<Longrightarrow> cstr (xs @ 0 # ys) = xs"
  by (induction xs) auto

lemma length_cstr_less: "terminated bs \<Longrightarrow> length (cstr bs) < length bs"
  by (induction bs) auto

lemma strlen_eq: "strlen bs = (if terminated bs then Some (length (cstr bs)) else None)"
  by (induction bs) auto

section \<open>Copies\<close>

lemma strcpy_eq:
  "strcpy dest src =
     (if terminated src \<and> length (cstr src) < length dest
      then Some (cstr src @ 0 # drop (Suc (length (cstr src))) dest) else None)"
  by (induction dest src rule: strcpy.induct) auto

lemma strcat_eq:
  "strcat dest src =
     (if terminated dest
      then map_option ((@) (cstr dest)) (strcpy (drop (length (cstr dest)) dest) src) else None)"
  by (induction dest src rule: strcat.induct) (auto simp: map_option_case split: option.splits)

lemma memset_eq:
  "memset p v n = (if n \<le> length p then Some (replicate n v @ drop n p) else None)"
  by (induction p v n rule: memset.induct) auto

lemma memcpy_eq:
  "memcpy dest src n =
     (if n \<le> length dest \<and> n \<le> length src then Some (take n src @ drop n dest) else None)"
  by (induction dest src n rule: memcpy.induct) auto

text \<open>The bounded copy loops \<open>for (i = 0; i < n && src[i]; i++) dst[i] = src[i]\<close>: what they copy.\<close>

fun copy_chars :: "nat \<Rightarrow> bytes \<Rightarrow> bytes" where
  "copy_chars (Suc n) (c # cs) = (if c \<noteq> 0 then c # copy_chars n cs else [])"
| "copy_chars _ _ = []"

lemma copy_chars_eq: "copy_chars n src = take n (cstr src)"
  by (induction n src rule: copy_chars.induct) auto

section \<open>Comparisons\<close>

definition byte_less :: "(u8 \<times> u8) set" where
  "byte_less = {(a, b). a < b}"

lemma strcmp_defined: "terminated s \<Longrightarrow> terminated t \<Longrightarrow> \<exists>r. strcmp s t = Some r"
  by (induction s t rule: strcmp.induct) auto

lemma strcmp_zero: "strcmp s t = Some r \<Longrightarrow> r = 0 \<longleftrightarrow> cstr s = cstr t"
  by (induction s t rule: strcmp.induct) (auto simp: word_uint_eq_iff split: if_splits)

lemma strcmp_less: "strcmp s t = Some r \<Longrightarrow> r < 0 \<longleftrightarrow> (cstr s, cstr t) \<in> lexord byte_less"
  by (induction s t rule: strcmp.induct)
    (auto simp: byte_less_def word_less_def word_uint_eq_iff order_less_le split: if_splits)

lemma sint_inj: "sint a = sint b \<longleftrightarrow> a = b" for a b :: "'n::len word"
proof
  assume "sint a = sint b"
  then have "(word_of_int (sint a) :: 'n word) = word_of_int (sint b)" by simp
  then show "a = b" by simp
qed simp

lemma strncmp_zero: "strncmp s t n = Some r \<Longrightarrow> r = 0 \<longleftrightarrow> take n (cstr s) = take n (cstr t)"
  by (induction s t n rule: strncmp.induct) (auto simp: sint_inj sint_inj [where b = 0, simplified] split: if_splits)

lemma memcmp_zero: "memcmp p q n = Some r \<Longrightarrow> r = 0 \<longleftrightarrow> take n p = take n q"
  by (induction p q n rule: memcmp.induct) (auto simp: word_uint_eq_iff split: if_splits)

end
