(* ===== verification/Fifo.thy ===== *)
theory Fifo
  imports Prelude
begin

text \<open>
  The interface of the kernel's bounded queues (keyboard buffer, mouse event buffer, pipe)
  and the circular-array layout they share: a window of \<open>k\<close> cells that starts at index
  \<open>r\<close> of an array and wraps at its end.
\<close>

section \<open>Circular windows of an array\<close>

definition window :: "'a list \<Rightarrow> nat \<Rightarrow> nat \<Rightarrow> 'a list" where
  "window buf r k = map (\<lambda>i. buf ! ((r + i) mod length buf)) [0..<k]"

lemma length_window [simp]: "length (window buf r k) = k"
  by (simp add: window_def)

lemma window_0 [simp]: "window buf r 0 = []"
  by (simp add: window_def)

lemma window_Suc:
  "window buf r (Suc k) = buf ! (r mod length buf) # window buf (Suc r mod length buf) k"
proof -
  have "[0..<Suc k] = 0 # map Suc [0..<k]"
    by (simp add: map_Suc_upt upt_conv_Cons del: upt_Suc)
  then show ?thesis
    by (simp add: window_def comp_def mod_simps del: upt_Suc)
qed

lemma mod_window_inj:
  assumes "i < k" "k < (n::nat)"
  shows "(r + k) mod n \<noteq> (r + i) mod n"
proof
  assume "(r + k) mod n = (r + i) mod n"
  then have "n dvd (r + k) - (r + i)"
    using assms by (simp add: mod_eq_dvd_iff_nat)
  then have "n dvd k - i" by simp
  then show False
    using assms by (auto dest: dvd_imp_le)
qed

lemma window_snoc:
  assumes "k < length buf"
  shows "window (buf[(r + k) mod length buf := x]) r (Suc k) = window buf r k @ [x]"
proof -
  have "(r + k) mod length buf < length buf"
    using assms by (intro mod_less_divisor) linarith
  then show ?thesis
    using assms by (simp add: window_def mod_window_inj)
qed

section \<open>Read and write indices that leave one cell empty\<close>

text \<open>The number of elements between a read and a write index of an \<open>n\<close>-cell array.\<close>

definition ring_count :: "nat \<Rightarrow> nat \<Rightarrow> nat \<Rightarrow> nat" where
  "ring_count n r w = (w + n - r) mod n"

lemma ring_count_if: "r < n \<Longrightarrow> w < n \<Longrightarrow> ring_count n r w = (if r \<le> w then w - r else w + n - r)"
  by (auto simp: ring_count_def mod_if)

lemma Suc_mod_if: "w < n \<Longrightarrow> Suc w mod n = (if Suc w = n then 0 else Suc w)"
  by auto

lemma ring_count_less: "r < n \<Longrightarrow> w < n \<Longrightarrow> ring_count n r w < n"
  by (simp add: ring_count_def)

lemma ring_count_end: "r < n \<Longrightarrow> w < n \<Longrightarrow> (r + ring_count n r w) mod n = w"
  by (auto simp: ring_count_if mod_if)

lemma ring_count_empty: "r < n \<Longrightarrow> w < n \<Longrightarrow> ring_count n r w = 0 \<longleftrightarrow> r = w"
  by (auto simp: ring_count_if)

lemma ring_count_full: "r < n \<Longrightarrow> w < n \<Longrightarrow> Suc w mod n = r \<longleftrightarrow> Suc (ring_count n r w) = n"
  by (auto simp: ring_count_if Suc_mod_if)

lemma ring_count_push:
  "r < n \<Longrightarrow> w < n \<Longrightarrow> Suc w mod n \<noteq> r \<Longrightarrow> ring_count n r (Suc w mod n) = Suc (ring_count n r w)"
  by (auto simp: ring_count_if Suc_mod_if)

lemma ring_count_pop:
  "r < n \<Longrightarrow> w < n \<Longrightarrow> r \<noteq> w \<Longrightarrow> ring_count n r w = Suc (ring_count n (Suc r mod n) w)"
  by (auto simp: ring_count_if Suc_mod_if)

text \<open>The list of queued elements, and what the two index moves do to it.\<close>

definition ring_list :: "'a list \<Rightarrow> nat \<Rightarrow> nat \<Rightarrow> 'a list" where
  "ring_list buf r w = window buf r (ring_count (length buf) r w)"

lemma length_ring_list [simp]: "length (ring_list buf r w) = ring_count (length buf) r w"
  by (simp add: ring_list_def)

lemma ring_list_push:
  assumes "r < length buf" "w < length buf" "Suc w mod length buf \<noteq> r"
  shows "ring_list (buf[w := x]) r (Suc w mod length buf) = ring_list buf r w @ [x]"
  using window_snoc [of "ring_count (length buf) r w" buf r x] assms
  by (simp add: ring_list_def ring_count_push ring_count_end ring_count_less)

lemma ring_list_pop:
  assumes "r < length buf" "w < length buf" "r \<noteq> w"
  shows "ring_list buf r w = buf ! r # ring_list buf (Suc r mod length buf) w"
  using assms by (simp add: ring_list_def ring_count_pop [of r] window_Suc)

lemma ring_list_empty: "r < length buf \<Longrightarrow> w < length buf \<Longrightarrow> ring_list buf r w = [] \<longleftrightarrow> r = w"
  by (metis length_0_conv length_ring_list ring_count_empty)

section \<open>Runs of queue operations\<close>

datatype 'a qop = Enq 'a | Deq

text \<open>A run against an implementation, collecting what the dequeues return.\<close>

fun run_queue :: "('a \<Rightarrow> 'q \<Rightarrow> 'q) \<Rightarrow> ('q \<Rightarrow> ('a \<times> 'q) option) \<Rightarrow> 'a qop list \<Rightarrow> 'q \<Rightarrow> 'a option list \<times> 'q"
  where
  "run_queue enq deq [] q = ([], q)"
| "run_queue enq deq (Enq x # ops) q = run_queue enq deq ops (enq x q)"
| "run_queue enq deq (Deq # ops) q =
     (case deq q of
        None \<Rightarrow> (let (rs, q') = run_queue enq deq ops q in (None # rs, q'))
      | Some (x, q1) \<Rightarrow> (let (rs, q') = run_queue enq deq ops q1 in (Some x # rs, q')))"

text \<open>The same run against the specification: a list that holds at most \<open>cap\<close> elements.\<close>

fun run_spec :: "nat \<Rightarrow> 'a qop list \<Rightarrow> 'a list \<Rightarrow> 'a option list \<times> 'a list" where
  "run_spec cap [] l = ([], l)"
| "run_spec cap (Enq x # ops) l = run_spec cap ops (if length l < cap then l @ [x] else l)"
| "run_spec cap (Deq # ops) l =
     (case l of
        [] \<Rightarrow> (let (rs, l') = run_spec cap ops [] in (None # rs, l'))
      | x # l1 \<Rightarrow> (let (rs, l') = run_spec cap ops l1 in (Some x # rs, l')))"

section \<open>The interface\<close>

locale bounded_fifo =
  fixes enq :: "'a \<Rightarrow> 'q \<Rightarrow> 'q"
    and deq :: "'q \<Rightarrow> ('a \<times> 'q) option"
    and contents :: "'q \<Rightarrow> 'a list"
    and invar :: "'q \<Rightarrow> bool"
    and cap :: nat
  assumes invar_enq: "invar q \<Longrightarrow> invar (enq x q)"
    and contents_enq: "invar q \<Longrightarrow>
      contents (enq x q) = (if length (contents q) < cap then contents q @ [x] else contents q)"
    and deq_None: "invar q \<Longrightarrow> deq q = None \<longleftrightarrow> contents q = []"
    and deq_Some: "invar q \<Longrightarrow> deq q = Some (x, q') \<Longrightarrow> invar q' \<and> contents q = x # contents q'"
    and contents_bounded: "invar q \<Longrightarrow> length (contents q) \<le> cap"
begin

lemma invar_enq_all: "invar q \<Longrightarrow> invar (fold enq xs q)"
  by (induction xs arbitrary: q) (auto simp: invar_enq)

text \<open>Enqueuing a whole list keeps the oldest \<open>cap\<close> elements and drops the newest.\<close>

lemma contents_enq_all: "invar q \<Longrightarrow> contents (fold enq xs q) = take cap (contents q @ xs)"
proof (induction xs arbitrary: q)
  case Nil
  then show ?case by (simp add: contents_bounded)
next
  case (Cons x xs)
  then have "contents (fold enq (x # xs) q) = take cap (contents (enq x q) @ xs)"
    by (simp add: invar_enq)
  also have "\<dots> = take cap (contents q @ x # xs)"
    using Cons.prems contents_bounded [of q] by (auto simp: contents_enq take_Cons')
  finally show ?case .
qed

text \<open>Any interleaving of the two operations answers as the bounded list does.\<close>

lemma run_refines:
  "invar q \<Longrightarrow> run_queue enq deq ops q = (rs, q') \<Longrightarrow>
     invar q' \<and> run_spec cap ops (contents q) = (rs, contents q')"
proof (induction ops arbitrary: q rs q')
  case Nil
  then show ?case by simp
next
  case (Cons op ops)
  show ?case
  proof (cases op)
    case (Enq x)
    with Cons.prems have "invar q' \<and> run_spec cap ops (contents (enq x q)) = (rs, contents q')"
      by (intro Cons.IH) (auto simp: invar_enq)
    with Enq Cons.prems show ?thesis by (simp add: contents_enq)
  next
    case Deq
    show ?thesis
    proof (cases "deq q")
      case None
      obtain rs1 q1 where run: "run_queue enq deq ops q = (rs1, q1)" by force
      from Cons.IH [OF Cons.prems(1) run] run Cons.prems Deq None deq_None [of q] show ?thesis
        by auto
    next
      case (Some p)
      obtain x q1 where p: "p = (x, q1)" by force
      obtain rs1 q2 where run: "run_queue enq deq ops q1 = (rs1, q2)" by force
      have q1: "invar q1" "contents q = x # contents q1"
        using deq_Some [of q x q1] Cons.prems Some p by auto
      from Cons.IH [OF q1(1) run] run q1(2) Cons.prems Deq Some p show ?thesis
        by auto
    qed
  qed
qed

end

end
