(* ===== verification/Keyboard.thy ===== *)
theory Keyboard
  imports Fifo
begin

text \<open>
  The PS/2 keyboard driver, \<open>kernel/keyboard/keyboard.c\<close>: the scancode tables, the
  modifier state machine of the interrupt handler and the key buffer. The scancode that
  \<open>inb(0x60)\<close> returns is an argument of the handler. A call that has to wait for an
  interrupt (\<open>hlt\<close> in a loop) has no result in the present state and is \<open>None\<close>.
\<close>

section \<open>Key codes\<close>

abbreviation "KEY_BUFFER_SIZE \<equiv> (256 :: u32)"
abbreviation "KEY_ENTER \<equiv> (0x0A :: u16)"
abbreviation "KEY_BACKSPACE \<equiv> (0x08 :: u16)"

definition scancode_ascii :: bytes where
  "scancode_ascii =
     [0, 0, 0x31, 0x32, 0x33, 0x34, 0x35, 0x36, 0x37, 0x38, 0x39, 0x30, 0x2D, 0x3D, 0x08,
      0x09, 0x71, 0x77, 0x65, 0x72, 0x74, 0x79, 0x75, 0x69, 0x6F, 0x70, 0x5B, 0x5D, 0x0A,
      0, 0x61, 0x73, 0x64, 0x66, 0x67, 0x68, 0x6A, 0x6B, 0x6C, 0x3B, 0x27, 0x60, 0,
      0x5C, 0x7A, 0x78, 0x63, 0x76, 0x62, 0x6E, 0x6D, 0x2C, 0x2E, 0x2F, 0, 0x2A, 0, 0x20]"

definition scancode_shift_ascii :: bytes where
  "scancode_shift_ascii =
     [0, 0, 0x21, 0x40, 0x23, 0x24, 0x25, 0x5E, 0x26, 0x2A, 0x28, 0x29, 0x5F, 0x2B, 0x08,
      0x09, 0x51, 0x57, 0x45, 0x52, 0x54, 0x59, 0x55, 0x49, 0x4F, 0x50, 0x7B, 0x7D, 0x0A,
      0, 0x41, 0x53, 0x44, 0x46, 0x47, 0x48, 0x4A, 0x4B, 0x4C, 0x3A, 0x22, 0x7E, 0,
      0x7C, 0x5A, 0x58, 0x43, 0x56, 0x42, 0x4E, 0x4D, 0x3C, 0x3E, 0x3F, 0, 0x2A, 0, 0x20]"

section \<open>Driver state\<close>

record kbd =
  key_buffer :: "u16 list"
  buffer_read :: u32
  buffer_write :: u32
  shift_down :: bool
  ctrl_down :: bool
  alt_down :: bool
  caps_lock :: bool
  ext_prefix :: bool

text \<open>The static variables as the loader leaves them.\<close>

definition kbd_boot :: kbd where
  "kbd_boot = \<lparr>key_buffer = replicate 256 0, buffer_read = 0, buffer_write = 0,
     shift_down = False, ctrl_down = False, alt_down = False, caps_lock = False,
     ext_prefix = False\<rparr>"

section \<open>The key buffer\<close>

definition push_key :: "u16 \<Rightarrow> kbd \<Rightarrow> kbd" where
  "push_key key s =
     (let nxt = (buffer_write s + 1) mod KEY_BUFFER_SIZE in
      if nxt = buffer_read s then s
      else s\<lparr>key_buffer := (key_buffer s)[unat (buffer_write s) := key], buffer_write := nxt\<rparr>)"

definition keyboard_has_input :: "kbd \<Rightarrow> bool" where
  "keyboard_has_input s \<longleftrightarrow> buffer_read s \<noteq> buffer_write s"

definition keyboard_getkey :: "kbd \<Rightarrow> (u16 \<times> kbd) option" where
  "keyboard_getkey s =
     (if \<not> keyboard_has_input s then None
      else Some (key_buffer s ! unat (buffer_read s),
                 s\<lparr>buffer_read := (buffer_read s + 1) mod KEY_BUFFER_SIZE\<rparr>))"

partial_function (option) keyboard_getchar :: "kbd \<Rightarrow> (u8 \<times> kbd) option" where
  "keyboard_getchar s =
     (case keyboard_getkey s of
        None \<Rightarrow> None
      | Some (key, s') \<Rightarrow> if key < 0x100 then Some (ucast key, s') else keyboard_getchar s')"

definition keyboard_shift_down :: "kbd \<Rightarrow> bool" where
  "keyboard_shift_down s = shift_down s"

definition keyboard_ctrl_down :: "kbd \<Rightarrow> bool" where
  "keyboard_ctrl_down s = ctrl_down s"

definition keyboard_alt_down :: "kbd \<Rightarrow> bool" where
  "keyboard_alt_down s = alt_down s"

definition keyboard_caps_on :: "kbd \<Rightarrow> bool" where
  "keyboard_caps_on s = caps_lock s"

section \<open>Decoding\<close>

definition decode_extended :: "u8 \<Rightarrow> u16" where
  "decode_extended scancode =
     (if scancode = 0x48 then 0x100 else if scancode = 0x50 then 0x101
      else if scancode = 0x4B then 0x102 else if scancode = 0x4D then 0x103
      else if scancode = 0x47 then 0x104 else if scancode = 0x4F then 0x105
      else if scancode = 0x49 then 0x106 else if scancode = 0x51 then 0x107
      else if scancode = 0x52 then 0x108 else if scancode = 0x53 then 0x109
      else 0)"

definition decode_function :: "u8 \<Rightarrow> u16" where
  "decode_function scancode =
     (if scancode = 0x3B then 0x120 else if scancode = 0x3C then 0x121
      else if scancode = 0x3D then 0x122 else if scancode = 0x3E then 0x123
      else if scancode = 0x3F then 0x124 else if scancode = 0x40 then 0x125
      else if scancode = 0x41 then 0x126 else if scancode = 0x42 then 0x127
      else if scancode = 0x43 then 0x128 else if scancode = 0x44 then 0x129
      else if scancode = 0x57 then 0x12A else if scancode = 0x58 then 0x12B
      else 0)"

definition decode_ascii :: "kbd \<Rightarrow> u8 \<Rightarrow> u16" where
  "decode_ascii s scancode =
     (if 58 \<le> scancode then 0
      else let c = (if shift_down s then scancode_shift_ascii else scancode_ascii) ! unat scancode;
               upper = (caps_lock s \<noteq> shift_down s)
           in ucast (if 0x61 \<le> c \<and> c \<le> 0x7A \<and> upper then 0x41 + (c - 0x61)
                     else if 0x41 \<le> c \<and> c \<le> 0x5A \<and> \<not> upper then 0x61 + (c - 0x41)
                     else c))"

section \<open>The interrupt handler\<close>

definition keyboard_callback :: "u8 \<Rightarrow> kbd \<Rightarrow> kbd" where
  "keyboard_callback scancode s =
     (if scancode = 0xE0 then s\<lparr>ext_prefix := True\<rparr>
      else let released = (scancode AND 0x80 \<noteq> 0); code = scancode AND 0x7F in
      if ext_prefix s then
        let s = s\<lparr>ext_prefix := False\<rparr> in
        if code = 0x1D then s\<lparr>ctrl_down := \<not> released\<rparr>
        else if code = 0x38 then s\<lparr>alt_down := \<not> released\<rparr>
        else if \<not> released then
          let key = decode_extended code in if key \<noteq> 0 then push_key key s else s
        else s
      else if code = 0x2A \<or> code = 0x36 then s\<lparr>shift_down := \<not> released\<rparr>
      else if code = 0x1D then s\<lparr>ctrl_down := \<not> released\<rparr>
      else if code = 0x38 then s\<lparr>alt_down := \<not> released\<rparr>
      else if code = 0x3A \<and> \<not> released then s\<lparr>caps_lock := \<not> caps_lock s\<rparr>
      else if released then s
      else let fn = decode_function code in
        if fn \<noteq> 0 then push_key fn s
        else let key = decode_ascii s code in
          if key \<noteq> 0 then
            let key = (if key = 0x0A then KEY_ENTER else key);
                key = (if key = 0x08 then KEY_BACKSPACE else key)
            in push_key key s
          else s)"

section \<open>The buffer is a bounded FIFO\<close>

definition kbd_inv :: "kbd \<Rightarrow> bool" where
  "kbd_inv s \<longleftrightarrow> length (key_buffer s) = 256 \<and> buffer_read s < 256 \<and> buffer_write s < 256"

definition kbd_keys :: "kbd \<Rightarrow> u16 list" where
  "kbd_keys s = ring_list (key_buffer s) (unat (buffer_read s)) (unat (buffer_write s))"

lemma unat_next_256: "unat ((w + 1) mod 256 :: u32) = Suc (unat w) mod 256"
proof -
  have "unat ((w + 1) mod 256) = ((unat w + 1) mod 2 ^ 32) mod 256"
    by (simp add: unat_mod_distrib unat_word_ariths)
  also have "\<dots> = (unat w + 1) mod 256"
    by (rule mod_mod_cancel) simp
  finally show ?thesis by simp
qed

lemma next_256_eq: "r < 256 \<Longrightarrow> (w + 1) mod 256 = r \<longleftrightarrow> Suc (unat w) mod 256 = unat (r :: u32)"
  by (metis unat_next_256 word_unat_eq_iff)

lemma next_256_less: "(w + 1) mod 256 < (256 :: u32)"
  by (simp add: word_less_nat_alt unat_next_256)

lemma kbd_invD:
  assumes "kbd_inv s"
  shows "length (key_buffer s) = 256" "unat (buffer_read s) < 256" "unat (buffer_write s) < 256"
  using assms by (auto simp: kbd_inv_def word_less_nat_alt)

interpretation key_fifo: bounded_fifo push_key keyboard_getkey kbd_keys kbd_inv 255
proof (unfold_locales, goal_cases)
  case (1 q x)
  then show ?case by (auto simp: push_key_def kbd_inv_def Let_def next_256_less)
next
  case (2 q x)
  note inv = kbd_invD [OF 2]
  have "buffer_read q < 256" using 2 by (simp add: kbd_inv_def)
  then show ?case
    using inv ring_list_push [of "unat (buffer_read q)" "key_buffer q" "unat (buffer_write q)" x]
      ring_count_full [of "unat (buffer_read q)" 256 "unat (buffer_write q)"]
      ring_count_less [of "unat (buffer_read q)" 256 "unat (buffer_write q)"]
    by (auto simp: push_key_def kbd_keys_def Let_def next_256_eq unat_next_256)
next
  case (3 q)
  then show ?case
    using kbd_invD [OF 3] by (simp add: keyboard_getkey_def keyboard_has_input_def kbd_keys_def
      ring_list_empty word_unat_eq_iff)
next
  case (4 q x q')
  note inv = kbd_invD [OF 4(1)]
  from 4 inv show ?case
    using ring_list_pop [of "unat (buffer_read q)" "key_buffer q" "unat (buffer_write q)"]
    by (auto simp: keyboard_getkey_def keyboard_has_input_def kbd_keys_def kbd_inv_def
      unat_next_256 next_256_less word_unat_eq_iff split: if_splits)
next
  case (5 q)
  show ?case
    using kbd_invD [OF 5] ring_count_less [of "unat (buffer_read q)" 256 "unat (buffer_write q)"]
    by (simp add: kbd_keys_def)
qed

lemma kbd_shift_frame [simp]:
  "kbd_keys (s\<lparr>shift_down := b\<rparr>) = kbd_keys s" "kbd_inv (s\<lparr>shift_down := b\<rparr>) = kbd_inv s"
  by (simp_all add: kbd_keys_def kbd_inv_def)

section \<open>Typing\<close>

text \<open>The letter keys: scancode and lower-case character.\<close>

definition letter_keys :: "(u8 \<times> u8) list" where
  "letter_keys =
     [(0x10, 0x71), (0x11, 0x77), (0x12, 0x65), (0x13, 0x72), (0x14, 0x74), (0x15, 0x79),
      (0x16, 0x75), (0x17, 0x69), (0x18, 0x6F), (0x19, 0x70), (0x1E, 0x61), (0x1F, 0x73),
      (0x20, 0x64), (0x21, 0x66), (0x22, 0x67), (0x23, 0x68), (0x24, 0x6A), (0x25, 0x6B),
      (0x26, 0x6C), (0x2C, 0x7A), (0x2D, 0x78), (0x2E, 0x63), (0x2F, 0x76), (0x30, 0x62),
      (0x31, 0x6E), (0x32, 0x6D)]"

text \<open>The character a letter key gives: upper case under exactly one of Shift and Caps Lock.\<close>

definition letter_case :: "kbd \<Rightarrow> u8 \<Rightarrow> u16" where
  "letter_case s c = ucast (if caps_lock s \<noteq> shift_down s then c - 0x20 else c)"

text \<open>Pressing and releasing a key: its make code and its break code.\<close>

definition keystroke :: "u8 \<Rightarrow> u8 list" where
  "keystroke sc = [sc, sc OR 0x80]"

lemma letter_press:
  assumes "(sc, c) \<in> set letter_keys" "\<not> ext_prefix s"
  shows "keyboard_callback sc s = push_key (letter_case s c) s"
  using assms
  by (auto simp: letter_keys_def keyboard_callback_def decode_function_def decode_ascii_def
      letter_case_def scancode_ascii_def scancode_shift_ascii_def)

lemma letter_release:
  assumes "(sc, c) \<in> set letter_keys" "\<not> ext_prefix s"
  shows "keyboard_callback (sc OR 0x80) s = s"
  using assms by (auto simp: letter_keys_def keyboard_callback_def)

lemma push_key_flags [simp]:
  "ext_prefix (push_key k s) = ext_prefix s" "caps_lock (push_key k s) = caps_lock s"
  "shift_down (push_key k s) = shift_down s"
  by (simp_all add: push_key_def Let_def)

lemma letter_case_push [simp]: "letter_case (push_key k s) c = letter_case s c"
  by (simp add: letter_case_def)

lemma keystroke_letter:
  assumes "(sc, c) \<in> set letter_keys" "\<not> ext_prefix s"
  shows "fold keyboard_callback (keystroke sc) s = push_key (letter_case s c) s"
  using assms by (simp add: keystroke_def letter_press letter_release [where c = c])

lemma type_letters_fold:
  assumes "set kcs \<subseteq> set letter_keys" "\<not> ext_prefix s"
  shows "fold keyboard_callback (concat (map (keystroke \<circ> fst) kcs)) s =
    fold push_key (map (letter_case s \<circ> snd) kcs) s"
  using assms
proof (induction kcs arbitrary: s)
  case Nil
  then show ?case by simp
next
  case (Cons kc kcs)
  obtain sc c where kc: "kc = (sc, c)" by force
  with Cons.prems have "(sc, c) \<in> set letter_keys" by simp
  from keystroke_letter [OF this Cons.prems(2)] Cons.IH [of "push_key (letter_case s c) s"]
    Cons.prems kc
  show ?case by (simp add: comp_def)
qed

text \<open>
  Typing any sequence of letter keys (each pressed and released) appends to the key
  buffer the letters, in order, upper case under exactly one of Shift and Caps Lock, and the
  buffer keeps the oldest 255 keys when it fills up.
\<close>

theorem typing_letters:
  assumes "kbd_inv s" "\<not> ext_prefix s" "set kcs \<subseteq> set letter_keys"
  shows "kbd_keys (fold keyboard_callback (concat (map (keystroke \<circ> fst) kcs)) s) =
    take 255 (kbd_keys s @ map (letter_case s \<circ> snd) kcs)"
  using type_letters_fold [OF assms(3,2)] key_fifo.contents_enq_all [OF assms(1)] by simp

lemma kbd_inv_boot: "kbd_inv kbd_boot"
  by (simp add: kbd_inv_def kbd_boot_def)

lemma kbd_keys_boot: "kbd_keys kbd_boot = []"
  by (simp add: kbd_keys_def kbd_boot_def ring_list_def ring_count_def)

theorem typing_letters_witness:
  "kbd_keys (fold keyboard_callback [0x2A, 0x23, 0xA3, 0xAA, 0x17, 0x97] kbd_boot) = [0x48, 0x69]"
proof -
  define s where "s = keyboard_callback 0xAA (push_key 0x48 (kbd_boot\<lparr>shift_down := True\<rparr>))"
  have inv: "kbd_inv (kbd_boot\<lparr>shift_down := True\<rparr>)"
    by (simp add: kbd_inv_boot)
  have s: "s = (push_key 0x48 (kbd_boot\<lparr>shift_down := True\<rparr>))\<lparr>shift_down := False\<rparr>"
    by (simp add: s_def keyboard_callback_def kbd_boot_def)
  have inv_s: "kbd_inv s" "\<not> ext_prefix s"
    using key_fifo.invar_enq [OF inv, of "0x48"] by (simp_all add: s) (simp add: kbd_boot_def)
  have keys: "kbd_keys s = [0x48]"
    using key_fifo.contents_enq [OF inv, of "0x48"] by (simp add: s kbd_keys_boot)
  have "fold keyboard_callback [0x2A, 0x23, 0xA3, 0xAA, 0x17, 0x97] kbd_boot =
      fold keyboard_callback (concat (map (keystroke \<circ> fst) [(0x17, 0x69)])) s"
    by (simp add: s_def keystroke_def keyboard_callback_def kbd_boot_def decode_function_def
        decode_ascii_def scancode_shift_ascii_def)
  then show ?thesis
    using typing_letters [OF inv_s, where kcs = "[(0x17, 0x69)]"] keys
    by (simp add: letter_keys_def letter_case_def s)
     (simp add: kbd_boot_def)
qed

text \<open>
  No break code and no prefix byte ever queues a key: every scancode from 0x80 up leaves
  the queued keys alone, in every modifier state.
\<close>

theorem break_codes_queue_nothing:
  assumes "0x80 \<le> sc"
  shows "kbd_keys (keyboard_callback sc s) = kbd_keys s"
proof -
  have "uint sc div 128 = 1"
    using assms uint_lt2p [of sc] by (simp add: word_le_def)
  then have "bit (uint sc) 7"
    by (simp add: bit_iff_odd)
  then have "bit sc 7"
    by (simp add: bit_uint_iff)
  moreover have "bit (0x80 :: u8) 7"
    by simp
  ultimately have "bit (sc AND 0x80) 7"
    by (simp only: bit_and_iff)
  then have "sc AND 0x80 \<noteq> 0"
    by (metis bit_0_eq bot_apply bot_bool_def)
  then show ?thesis
    by (auto simp: keyboard_callback_def Let_def kbd_keys_def)
qed

theorem break_codes_queue_nothing_witness:
  "kbd_keys (keyboard_callback 0x9E (push_key 0x61 kbd_boot)) = [0x61]"
  using break_codes_queue_nothing [of "0x9E" "push_key 0x61 kbd_boot"] key_fifo.contents_enq [OF kbd_inv_boot, of "0x61"]
  by (simp add: kbd_keys_boot)

section \<open>Reading characters\<close>

text \<open>
  \<open>keyboard_getchar\<close> returns the first queued character key, throwing away the
  special keys (cursor and function keys) before it and leaving the rest of the queue; it
  waits for an interrupt exactly when only special keys, or none, are queued.
\<close>

theorem getchar_first_character:
  assumes "kbd_inv s"
  shows "map_option (\<lambda>(c, s'). (c, kbd_keys s')) (keyboard_getchar s) =
    (case dropWhile (\<lambda>k. 0x100 \<le> k) (kbd_keys s) of
       [] \<Rightarrow> None | k # ks \<Rightarrow> Some (ucast k, ks))"
  using assms
proof (induction "kbd_keys s" arbitrary: s)
  case Nil
  then have "keyboard_getkey s = None"
    using key_fifo.deq_None [of s] by simp
  with Nil show ?case
    by (simp add: keyboard_getchar.simps)
next
  case (Cons k ks)
  have keys: "kbd_keys s = k # ks"
    using Cons(2) by simp
  have "keyboard_getkey s \<noteq> None"
    using key_fifo.deq_None [OF Cons(3)] keys by simp
  then obtain k' s' where get: "keyboard_getkey s = Some (k', s')" by force
  then have s': "keyboard_getkey s = Some (k, s')" "kbd_inv s'" "kbd_keys s' = ks"
    using key_fifo.deq_Some [OF Cons(3) get] keys by simp_all
  show ?case
  proof (cases "k < 0x100")
    case True
    then have "\<not> 0x100 \<le> k" by simp
    with s' True show ?thesis
      by (simp add: keyboard_getchar.simps [of s] keys)
  next
    case False
    then have "0x100 \<le> k" by simp
    with s' False Cons(1) [of s'] show ?thesis
      by (simp add: keyboard_getchar.simps [of s] keys)
  qed
qed

theorem getchar_first_character_witness:
  "map_option fst (keyboard_getchar (push_key 0x61 (push_key 0x120 kbd_boot))) = Some 0x61"
proof -
  let ?s1 = "push_key 0x120 kbd_boot"
  let ?s = "push_key 0x61 ?s1"
  have inv1: "kbd_inv ?s1" and keys1: "kbd_keys ?s1 = [0x120]"
    using key_fifo.invar_enq [OF kbd_inv_boot] key_fifo.contents_enq [OF kbd_inv_boot] kbd_keys_boot
    by simp_all
  have keys: "kbd_keys ?s = [0x120, 0x61]"
    using key_fifo.contents_enq [OF inv1] keys1 by simp
  from getchar_first_character [OF key_fifo.invar_enq [OF inv1, of "0x61"]] keys show ?thesis
    by (auto simp: map_option_case split: option.splits)
qed

end
