(* ===== verification/Mouse.thy ===== *)
theory Mouse
  imports Fifo
begin

text \<open>
  The PS/2 mouse driver, \<open>kernel/mouse/mouse.c\<close>: the three-byte packet assembler of
  the interrupt handler, the pointer position clamped to the screen and the event buffer. The
  status and data bytes read from the controller are arguments of the handler, as are the
  screen dimensions of the graphics module. Positions are 32-bit words read as signed.
\<close>

abbreviation "MOUSE_EVENT_BUFFER_SIZE \<equiv> (64 :: u32)"

record mouse_event =
  ev_dx :: u8
  ev_dy :: u8
  ev_buttons :: u8
  ev_x :: u32
  ev_y :: u32

record mouse =
  event_read :: u32
  event_write :: u32
  event_buffer :: "mouse_event list"
  packet :: bytes
  packet_index :: nat
  mouse_x :: u32
  mouse_y :: u32
  mouse_buttons :: u8

section \<open>The event buffer\<close>

definition push_event :: "mouse_event \<Rightarrow> mouse \<Rightarrow> mouse" where
  "push_event event s =
     (let nxt = (event_write s + 1) mod MOUSE_EVENT_BUFFER_SIZE in
      if nxt = event_read s then s
      else s\<lparr>event_buffer := (event_buffer s)[unat (event_write s) := event], event_write := nxt\<rparr>)"

definition mouse_has_event :: "mouse \<Rightarrow> bool" where
  "mouse_has_event s \<longleftrightarrow> event_read s \<noteq> event_write s"

definition mouse_read_event :: "mouse \<Rightarrow> (mouse_event \<times> mouse) option" where
  "mouse_read_event s =
     (if event_read s = event_write s then None
      else Some (event_buffer s ! unat (event_read s),
                 s\<lparr>event_read := (event_read s + 1) mod MOUSE_EVENT_BUFFER_SIZE\<rparr>))"

definition mouse_get_position :: "mouse \<Rightarrow> u32 \<times> u32" where
  "mouse_get_position s = (mouse_x s, mouse_y s)"

definition mouse_get_buttons :: "mouse \<Rightarrow> u8" where
  "mouse_get_buttons s = mouse_buttons s"

section \<open>Packets\<close>

text \<open>The clamp of one coordinate: the first test is signed, the second unsigned.\<close>

definition clamp_axis :: "u32 \<Rightarrow> u32 \<Rightarrow> u32" where
  "clamp_axis limit v =
     (if limit = 0 then v
      else let v = (if sint v < 0 then 0 else v) in if limit \<le> v then limit - 1 else v)"

definition mouse_handle_packet :: "u32 \<Rightarrow> u32 \<Rightarrow> mouse \<Rightarrow> mouse" where
  "mouse_handle_packet screen_w screen_h s =
     (let status = packet s ! 0;
          dx = (if status AND 0x40 \<noteq> 0 then 0 else packet s ! 1);
          dy = (if status AND 0x80 \<noteq> 0 then 0 else packet s ! 2);
          s = s\<lparr>mouse_buttons := status AND 0x07,
                mouse_x := clamp_axis screen_w (mouse_x s + scast dx),
                mouse_y := clamp_axis screen_h (mouse_y s - scast dy)\<rparr>
      in push_event \<lparr>ev_dx = dx, ev_dy = - dy, ev_buttons = mouse_buttons s,
                     ev_x = mouse_x s, ev_y = mouse_y s\<rparr> s)"

definition mouse_irq :: "u32 \<Rightarrow> u32 \<Rightarrow> u8 \<Rightarrow> u8 \<Rightarrow> mouse \<Rightarrow> mouse" where
  "mouse_irq screen_w screen_h status data s =
     (if status AND 0x20 = 0 then s
      else if packet_index s = 0 \<and> data AND 0x08 = 0 then s
      else let s = s\<lparr>packet := (packet s)[packet_index s := data],
                     packet_index := packet_index s + 1\<rparr> in
        if packet_index s < 3 then s
        else mouse_handle_packet screen_w screen_h (s\<lparr>packet_index := 0\<rparr>))"

section \<open>The event buffer is a bounded FIFO\<close>

definition mouse_inv :: "mouse \<Rightarrow> bool" where
  "mouse_inv s \<longleftrightarrow> length (event_buffer s) = 64 \<and> event_read s < 64 \<and> event_write s < 64
     \<and> length (packet s) = 3 \<and> packet_index s < 3"

definition mouse_events :: "mouse \<Rightarrow> mouse_event list" where
  "mouse_events s = ring_list (event_buffer s) (unat (event_read s)) (unat (event_write s))"

lemma unat_next_64: "unat ((w + 1) mod 64 :: u32) = Suc (unat w) mod 64"
proof -
  have "unat ((w + 1) mod 64) = ((unat w + 1) mod 2 ^ 32) mod 64"
    by (simp add: unat_mod_distrib unat_word_ariths)
  also have "\<dots> = (unat w + 1) mod 64"
    by (rule mod_mod_cancel) simp
  finally show ?thesis by simp
qed

lemma next_64_eq: "r < 64 \<Longrightarrow> (w + 1) mod 64 = r \<longleftrightarrow> Suc (unat w) mod 64 = unat (r :: u32)"
  by (metis unat_next_64 word_unat_eq_iff)

lemma next_64_less: "(w + 1) mod 64 < (64 :: u32)"
  by (simp add: word_less_nat_alt unat_next_64)

lemma mouse_invD:
  assumes "mouse_inv s"
  shows "length (event_buffer s) = 64" "unat (event_read s) < 64" "unat (event_write s) < 64"
  using assms by (auto simp: mouse_inv_def word_less_nat_alt)

interpretation mouse_fifo: bounded_fifo push_event mouse_read_event mouse_events mouse_inv 63
proof (unfold_locales, goal_cases)
  case (1 q x)
  then show ?case by (auto simp: push_event_def mouse_inv_def Let_def next_64_less)
next
  case (2 q x)
  note inv = mouse_invD [OF 2]
  have "event_read q < 64" using 2 by (simp add: mouse_inv_def)
  then show ?case
    using inv ring_list_push [of "unat (event_read q)" "event_buffer q" "unat (event_write q)" x]
      ring_count_full [of "unat (event_read q)" 64 "unat (event_write q)"]
      ring_count_less [of "unat (event_read q)" 64 "unat (event_write q)"]
    by (auto simp: push_event_def mouse_events_def Let_def next_64_eq unat_next_64)
next
  case (3 q)
  then show ?case
    using mouse_invD [OF 3] by (simp add: mouse_read_event_def mouse_events_def
      ring_list_empty word_unat_eq_iff)
next
  case (4 q x q')
  note inv = mouse_invD [OF 4(1)]
  from 4 inv show ?case
    using ring_list_pop [of "unat (event_read q)" "event_buffer q" "unat (event_write q)"]
    by (auto simp: mouse_read_event_def mouse_events_def mouse_inv_def
      unat_next_64 next_64_less word_unat_eq_iff split: if_splits)
next
  case (5 q)
  show ?case
    using mouse_invD [OF 5] ring_count_less [of "unat (event_read q)" 64 "unat (event_write q)"]
    by (simp add: mouse_events_def)
qed

section \<open>The pointer stays on the screen\<close>

lemma clamp_axis_in_range:
  assumes "0 < limit"
  shows "clamp_axis limit v < limit"
proof -
  have "limit - 1 < limit"
    using assms by (simp add: word_less_nat_alt unat_sub_if' split: if_splits)
  then show ?thesis
    using assms by (auto simp: clamp_axis_def Let_def)
qed

definition pointer_on_screen :: "u32 \<Rightarrow> u32 \<Rightarrow> mouse \<Rightarrow> bool" where
  "pointer_on_screen w h s \<longleftrightarrow> mouse_x s < w \<and> mouse_y s < h"

lemma push_event_frame [simp]:
  "mouse_x (push_event e s) = mouse_x s" "mouse_y (push_event e s) = mouse_y s"
  "packet (push_event e s) = packet s" "packet_index (push_event e s) = packet_index s"
  by (simp_all add: push_event_def Let_def)

lemma handle_packet_on_screen:
  "0 < w \<Longrightarrow> 0 < h \<Longrightarrow> pointer_on_screen w h (mouse_handle_packet w h s)"
  by (simp add: mouse_handle_packet_def pointer_on_screen_def Let_def clamp_axis_in_range)

lemma mouse_inv_handle_packet: "mouse_inv s \<Longrightarrow> mouse_inv (mouse_handle_packet w h s)"
  by (auto simp: mouse_handle_packet_def Let_def intro!: mouse_fifo.invar_enq)
    (auto simp: mouse_inv_def)

lemma mouse_inv_irq: "mouse_inv s \<Longrightarrow> mouse_inv (mouse_irq w h st d s)"
  by (auto simp: mouse_irq_def Let_def intro!: mouse_inv_handle_packet) (auto simp: mouse_inv_def)

lemma mouse_irq_on_screen:
  "0 < w \<Longrightarrow> 0 < h \<Longrightarrow> pointer_on_screen w h s \<Longrightarrow> pointer_on_screen w h (mouse_irq w h st d s)"
  by (auto simp: mouse_irq_def Let_def handle_packet_on_screen) (auto simp: pointer_on_screen_def)

definition events_on_screen :: "u32 \<Rightarrow> u32 \<Rightarrow> mouse \<Rightarrow> bool" where
  "events_on_screen w h s \<longleftrightarrow> (\<forall>e \<in> set (mouse_events s). ev_x e < w \<and> ev_y e < h)"

lemma mouse_events_frame [simp]:
  "mouse_events (s\<lparr>packet := p\<rparr>) = mouse_events s"
  "mouse_events (s\<lparr>packet_index := i\<rparr>) = mouse_events s"
  "mouse_events (s\<lparr>mouse_buttons := b\<rparr>) = mouse_events s"
  "mouse_events (s\<lparr>mouse_x := x\<rparr>) = mouse_events s"
  "mouse_events (s\<lparr>mouse_y := x\<rparr>) = mouse_events s"
  by (simp_all add: mouse_events_def)

lemma mouse_inv_frame [simp]:
  "mouse_inv (s\<lparr>mouse_buttons := b\<rparr>) = mouse_inv s"
  "mouse_inv (s\<lparr>mouse_x := x\<rparr>) = mouse_inv s"
  "mouse_inv (s\<lparr>mouse_y := x\<rparr>) = mouse_inv s"
  by (simp_all add: mouse_inv_def)

text \<open>The event a packet gives in a state, and that the handler queues it.\<close>

definition packet_event :: "u32 \<Rightarrow> u32 \<Rightarrow> u8 \<Rightarrow> u8 \<Rightarrow> u8 \<Rightarrow> mouse \<Rightarrow> mouse_event" where
  "packet_event w h b0 b1 b2 s =
     (let dx = (if b0 AND 0x40 \<noteq> 0 then 0 else b1); dy = (if b0 AND 0x80 \<noteq> 0 then 0 else b2)
      in \<lparr>ev_dx = dx, ev_dy = - dy, ev_buttons = b0 AND 7,
          ev_x = clamp_axis w (mouse_x s + scast dx), ev_y = clamp_axis h (mouse_y s - scast dy)\<rparr>)"

lemma handle_packet_events:
  assumes "mouse_inv s"
  shows "mouse_events (mouse_handle_packet w h s) = take 63 (mouse_events s @
    [packet_event w h (packet s ! 0) (packet s ! 1) (packet s ! 2) s])"
  using assms mouse_fifo.contents_bounded [OF assms]
  by (simp add: mouse_handle_packet_def packet_event_def Let_def mouse_fifo.contents_enq)

lemma irq_events_on_screen:
  assumes "mouse_inv s" "0 < w" "0 < h" "events_on_screen w h s"
  shows "events_on_screen w h (mouse_irq w h st d s)"
proof -
  have handle: "events_on_screen w h (mouse_handle_packet w h t)"
    if "mouse_inv t" "mouse_events t = mouse_events s" for t
    using that assms
    by (auto simp: events_on_screen_def handle_packet_events packet_event_def Let_def
        clamp_axis_in_range dest!: in_set_takeD)
  show ?thesis
  proof (cases "mouse_irq w h st d s = s \<or> packet_index s < 2")
    case True
    with assms(4) show ?thesis
      by (auto simp: mouse_irq_def Let_def events_on_screen_def)
  next
    case False
    then have "packet_index s = 2"
      using assms(1) by (auto simp: mouse_inv_def)
    then have "mouse_irq w h st d s = s \<or>
        mouse_irq w h st d s = mouse_handle_packet w h (s\<lparr>packet := (packet s)[2 := d], packet_index := 0\<rparr>)"
      by (auto simp: mouse_irq_def)
    moreover have "mouse_inv (s\<lparr>packet := (packet s)[2 := d], packet_index := 0\<rparr>)"
      using assms(1) by (simp add: mouse_inv_def)
    ultimately show ?thesis
      using handle [of "s\<lparr>packet := (packet s)[2 := d], packet_index := 0\<rparr>"] False by auto
  qed
qed

text \<open>A stream of interrupts, each a status and a data byte.\<close>

definition mouse_irqs :: "u32 \<Rightarrow> u32 \<Rightarrow> (u8 \<times> u8) list \<Rightarrow> mouse \<Rightarrow> mouse" where
  "mouse_irqs w h ds s = fold (\<lambda>(st, d). mouse_irq w h st d) ds s"

text \<open>
  C40. On a screen of any non-zero size, no stream of mouse interrupts moves the pointer off
  the screen or queues an event with coordinates off the screen.
\<close>

theorem pointer_never_leaves_screen:
  assumes "0 < w" "0 < h" "mouse_inv s" "pointer_on_screen w h s" "events_on_screen w h s"
  shows "pointer_on_screen w h (mouse_irqs w h ds s) \<and> events_on_screen w h (mouse_irqs w h ds s)"
  using assms(3-5)
proof (induction ds arbitrary: s)
  case Nil
  then show ?case by (simp add: mouse_irqs_def)
next
  case (Cons p ds)
  obtain st d where p: "p = (st, d)" by force
  show ?case
    using Cons.IH [of "mouse_irq w h st d s"] Cons.prems assms(1,2) p
    by (simp add: mouse_irqs_def mouse_inv_irq mouse_irq_on_screen irq_events_on_screen)
qed

definition mouse_boot :: mouse where
  "mouse_boot = \<lparr>event_read = 0, event_write = 0,
     event_buffer = replicate 64 \<lparr>ev_dx = 0, ev_dy = 0, ev_buttons = 0, ev_x = 0, ev_y = 0\<rparr>,
     packet = [0, 0, 0], packet_index = 0, mouse_x = 0, mouse_y = 0, mouse_buttons = 0\<rparr>"

lemma mouse_boot_inv: "mouse_inv mouse_boot" and mouse_boot_events: "mouse_events mouse_boot = []"
  by (simp_all add: mouse_boot_def mouse_inv_def mouse_events_def ring_list_def ring_count_def)

theorem pointer_never_leaves_screen_witness:
  "pointer_on_screen 1280 720 (mouse_irqs 1280 720 [(0x20, 0x08), (0x20, 0xF0), (0x20, 0x05)] mouse_boot)"
  using pointer_never_leaves_screen [of 1280 720 mouse_boot] mouse_boot_inv mouse_boot_events
  by (simp add: pointer_on_screen_def events_on_screen_def mouse_boot_def)

text \<open>
  Packet framing: from an idle assembler, any run of bytes without the sync bit 3 is
  skipped, and the three bytes of the next packet queue exactly one event (dropped only if
  the buffer is full), with the deltas, buttons and clamped position of that packet.
\<close>

theorem packet_framing:
  assumes "mouse_inv s" "packet_index s = 0" "\<forall>b \<in> set noise. b AND 0x08 = 0" "b0 AND 0x08 \<noteq> 0"
  shows "mouse_events (mouse_irqs w h (map (Pair 0x20) (noise @ [b0, b1, b2])) s) =
    take 63 (mouse_events s @ [packet_event w h b0 b1 b2 s])"
proof -
  have skip: "mouse_irqs w h (map (Pair 0x20) noise) s = s"
    using assms(2,3) by (induction noise) (auto simp: mouse_irqs_def mouse_irq_def)
  obtain x y z where pk: "packet s = [x, y, z]"
    using assms(1) by (auto simp: mouse_inv_def numeral_3_eq_3 length_Suc_conv)
  have "mouse_irqs w h (map (Pair 0x20) [b0, b1, b2]) s =
      mouse_handle_packet w h (s\<lparr>packet := [b0, b1, b2], packet_index := 0\<rparr>)"
    using assms(2,4) by (simp add: mouse_irqs_def mouse_irq_def pk)
  moreover have "mouse_inv (s\<lparr>packet := [b0, b1, b2], packet_index := 0\<rparr>)"
    using assms(1) by (simp add: mouse_inv_def)
  ultimately show ?thesis
    using skip handle_packet_events [of "s\<lparr>packet := [b0, b1, b2], packet_index := 0\<rparr>" w h]
    by (simp add: mouse_irqs_def packet_event_def)
qed

theorem packet_framing_witness:
  "map ev_x (mouse_events (mouse_irqs 1280 720 (map (Pair 0x20) [0x00, 0x07, 0x09, 0x05, 0x00])
      mouse_boot)) = [5]"
  using packet_framing [OF mouse_boot_inv, of "[0x00, 0x07]" "0x09" 1280 720 "0x05" "0x00"]
  by (simp add: mouse_boot_events)
    (simp add: mouse_boot_def packet_event_def clamp_axis_def)

text \<open>
  The sign bits of the packet's first byte (bits 4 and 5) are not used: a motion of 200 counts
  to the right, sent as sign 0 and low byte 200, moves the pointer 56 pixels to the left.
\<close>

lemma motion_sign_bit_ignored:
  "clamp_axis 1280 (600 + scast (200 :: u8)) = 544"
  "ev_x (packet_event 1280 720 0x08 200 0 (mouse_boot\<lparr>mouse_x := 600\<rparr>)) = 544"
  by (simp_all add: packet_event_def clamp_axis_def mouse_boot_def)

end
