(* ===== verification/Allocator.thy ===== *)
theory Allocator
  imports Prelude
begin

text \<open>
  The contract of the kernel's two memory managers, the physical frame allocator
  (\<open>kernel/pmm\<close>) and the kernel heap (\<open>kernel/heap\<close>): what is handed out was
  not handed out already, and the memory of two live grants never overlaps.
\<close>

text \<open>A run of requests, stopping at the first one that is refused.\<close>

fun alloc_seq :: "('r \<Rightarrow> 's \<Rightarrow> ('a \<times> 's) option) \<Rightarrow> 'r list \<Rightarrow> 's \<Rightarrow> ('a list \<times> 's)" where
  "alloc_seq alloc [] s = ([], s)"
| "alloc_seq alloc (r # rs) s =
     (case alloc r s of
        None \<Rightarrow> ([], s)
      | Some (a, s1) \<Rightarrow> (let (as, s2) = alloc_seq alloc rs s1 in (a # as, s2)))"

locale allocator =
  fixes alloc :: "'r \<Rightarrow> 's \<Rightarrow> ('a \<times> 's) option"
    and release :: "'a \<Rightarrow> 's \<Rightarrow> 's"
    and live :: "'s \<Rightarrow> 'a set"
    and invar :: "'s \<Rightarrow> bool"
  assumes alloc_law: "invar s \<Longrightarrow> alloc r s = Some (a, s') \<Longrightarrow>
      invar s' \<and> a \<notin> live s \<and> live s' = insert a (live s)"
    and release_law: "invar s \<Longrightarrow> a \<in> live s \<Longrightarrow>
      invar (release a s) \<and> live (release a s) = live s - {a}"
begin

lemma alloc_release:
  "invar s \<Longrightarrow> alloc r s = Some (a, s') \<Longrightarrow> invar (release a s') \<and> live (release a s') = live s"
  using alloc_law release_law by force

text \<open>Grants of one run are new and pairwise different.\<close>

lemma alloc_seq_fresh:
  "invar s \<Longrightarrow> alloc_seq alloc rs s = (as, s') \<Longrightarrow>
     invar s' \<and> distinct as \<and> set as \<inter> live s = {} \<and> live s' = set as \<union> live s"
proof (induction rs arbitrary: s as s')
  case Nil
  then show ?case by simp
next
  case (Cons r rs)
  show ?case
  proof (cases "alloc r s")
    case None
    with Cons.prems show ?thesis by simp
  next
    case (Some p)
    obtain a s1 where p: "p = (a, s1)" by force
    obtain bs s2 where run: "alloc_seq alloc rs s1 = (bs, s2)" by force
    have step: "invar s1" "a \<notin> live s" "live s1 = insert a (live s)"
      using alloc_law [OF Cons.prems(1)] Some p by blast+
    from Cons.IH [OF step(1) run] step Cons.prems Some p run show ?thesis by auto
  qed
qed

end

locale region_allocator = allocator alloc release live invar
  for alloc :: "'r \<Rightarrow> 's \<Rightarrow> ('a \<times> 's) option"
    and release :: "'a \<Rightarrow> 's \<Rightarrow> 's"
    and live :: "'s \<Rightarrow> 'a set"
    and invar :: "'s \<Rightarrow> bool" +
  fixes region :: "'s \<Rightarrow> 'a \<Rightarrow> nat set"
  assumes disjoint_law: "invar s \<Longrightarrow> a \<in> live s \<Longrightarrow> b \<in> live s \<Longrightarrow> a \<noteq> b \<Longrightarrow>
      region s a \<inter> region s b = {}"
    and alloc_keeps: "invar s \<Longrightarrow> alloc r s = Some (a, s') \<Longrightarrow> b \<in> live s \<Longrightarrow>
      region s' b = region s b"
    and release_keeps: "invar s \<Longrightarrow> a \<in> live s \<Longrightarrow> b \<in> live s \<Longrightarrow> a \<noteq> b \<Longrightarrow>
      region (release a s) b = region s b"
begin

text \<open>A grant overlaps no memory that was in use before it, in the state before or after.\<close>

lemma alloc_disjoint:
  assumes "invar s" "alloc r s = Some (a, s')" "b \<in> live s"
  shows "region s' a \<inter> region s b = {}"
proof -
  have "invar s'" "a \<noteq> b" "a \<in> live s'" "b \<in> live s'"
    using alloc_law [OF assms(1,2)] assms(3) by auto
  then have "region s' a \<inter> region s' b = {}" by (intro disjoint_law)
  then show ?thesis using alloc_keeps [OF assms] by simp
qed

lemma alloc_seq_disjoint:
  assumes "invar s" "alloc_seq alloc rs s = (as, s')" "i < length as" "j < length as" "i \<noteq> j"
  shows "region s' (as ! i) \<inter> region s' (as ! j) = {}"
proof -
  have "invar s'" "distinct as" "set as \<subseteq> live s'"
    using alloc_seq_fresh [OF assms(1,2)] by auto
  with assms(3-5) show ?thesis
    by (intro disjoint_law) (auto simp: nth_eq_iff_index_eq)
qed

end

end
