(* ===== verification/Kheap.thy ===== *)
theory Kheap
  imports Allocator
begin

text \<open>
  The kernel heap, \<open>kernel/heap/heap.c\<close>: a first-fit free list whose headers lie in
  the managed memory itself. The store \<open>hdr\<close> gives the header that the 16 bytes at an
  address read as, so headers of merged blocks stay readable after they left the list, as in
  memory. Pointers are 32-bit words, 0 is NULL. The list walk of \<open>kmalloc\<close> is a partial
  function; the invariant makes it return.
\<close>

abbreviation "HEAP_START \<equiv> (0x400000 :: u32)"
abbreviation "HEAP_SIZE \<equiv> (4194304 :: u32)"
abbreviation "HEAP_MAGIC \<equiv> (0xC0FFEE00 :: u32)"
abbreviation "HDR_SIZE \<equiv> (16 :: u32)" \<comment> \<open>sizeof(block_header_t)\<close>

record block_header =
  bh_magic :: u32
  bh_size :: u32
  bh_used :: u8
  bh_next :: u32

record heap =
  heap_head :: u32
  hdr :: "u32 \<Rightarrow> block_header"

definition heap_init :: "heap \<Rightarrow> heap" where
  "heap_init h = h\<lparr>heap_head := HEAP_START,
     hdr := (hdr h)(HEAP_START := \<lparr>bh_magic = HEAP_MAGIC, bh_size = HEAP_SIZE - HDR_SIZE,
                                   bh_used = 0, bh_next = 0\<rparr>)\<rparr>"

text \<open>Taking a block: the split, when the rest holds a header and more than 16 bytes.\<close>

definition take_block :: "u32 \<Rightarrow> u32 \<Rightarrow> (u32 \<Rightarrow> block_header) \<Rightarrow> (u32 \<Rightarrow> block_header)" where
  "take_block sz current m =
     (let m = (if sz + HDR_SIZE + 16 < bh_size (m current) then
                 let split = current + HDR_SIZE + sz;
                     m = m(split := \<lparr>bh_magic = HEAP_MAGIC,
                                     bh_size = bh_size (m current) - sz - HDR_SIZE,
                                     bh_used = 0, bh_next = bh_next (m current)\<rparr>)
                 in m(current := (m current)\<lparr>bh_next := split, bh_size := sz\<rparr>)
               else m)
      in m(current := (m current)\<lparr>bh_used := 1\<rparr>))"

partial_function (option) kmalloc_walk :: "u32 \<Rightarrow> u32 \<Rightarrow> heap \<Rightarrow> (u32 \<times> heap) option" where
  "kmalloc_walk sz current h =
     (if current = 0 then Some (0, h)
      else if bh_used (hdr h current) = 0 \<and> sz \<le> bh_size (hdr h current)
      then Some (current + HDR_SIZE, h\<lparr>hdr := take_block sz current (hdr h)\<rparr>)
      else kmalloc_walk sz (bh_next (hdr h current)) h)"

definition kmalloc :: "u32 \<Rightarrow> heap \<Rightarrow> (u32 \<times> heap) option" where
  "kmalloc sz h = kmalloc_walk sz (heap_head h) h"

definition kfree :: "u32 \<Rightarrow> heap \<Rightarrow> heap" where
  "kfree ptr h =
     (if ptr = 0 then h
      else let header = ptr - HDR_SIZE; m = hdr h in
        if bh_magic (m header) \<noteq> HEAP_MAGIC then h
        else let m = m(header := (m header)\<lparr>bh_used := 0\<rparr>); nxt = bh_next (m header) in
          if nxt \<noteq> 0 \<and> bh_used (m nxt) = 0 then
            h\<lparr>hdr := m(header := (m header)\<lparr>bh_size := bh_size (m header) + (HDR_SIZE + bh_size (m nxt)),
                                            bh_next := bh_next (m nxt)\<rparr>)\<rparr>
          else h\<lparr>hdr := m\<rparr>)"

partial_function (option) used_walk :: "u32 \<Rightarrow> u32 \<Rightarrow> heap \<Rightarrow> u32 option" where
  "used_walk used current h =
     (if current = 0 then Some used
      else used_walk (if bh_used (hdr h current) \<noteq> 0 then used + bh_size (hdr h current) else used)
             (bh_next (hdr h current)) h)"

definition heap_used_bytes :: "heap \<Rightarrow> u32 option" where
  "heap_used_bytes h = used_walk 0 (heap_head h) h"

section \<open>The block list\<close>

text \<open>
  \<open>tiled m p pos bs q e\<close>: following the next pointers from \<open>p\<close> gives the
  blocks \<open>bs\<close> and then \<open>q\<close>, and the blocks tile the addresses from
  \<open>pos\<close> to \<open>e\<close> without a gap.
\<close>

fun tiled :: "(u32 \<Rightarrow> block_header) \<Rightarrow> u32 \<Rightarrow> nat \<Rightarrow> u32 list \<Rightarrow> u32 \<Rightarrow> nat \<Rightarrow> bool" where
  "tiled m p pos [] q e \<longleftrightarrow> p = q \<and> pos = e"
| "tiled m p pos (b # bs) q e \<longleftrightarrow> p = b \<and> unat b = pos \<and> bh_magic (m b) = HEAP_MAGIC \<and>
     tiled m (bh_next (m b)) (pos + 16 + unat (bh_size (m b))) bs q e"

abbreviation "heap_lo \<equiv> (4194304 :: nat)"
abbreviation "heap_hi \<equiv> (8388608 :: nat)"

definition heap_blocks :: "heap \<Rightarrow> u32 list \<Rightarrow> bool" where
  "heap_blocks h bs \<longleftrightarrow> heap_head h = HEAP_START \<and> tiled (hdr h) HEAP_START heap_lo bs 0 heap_hi"

definition heap_inv :: "heap \<Rightarrow> bool" where
  "heap_inv h \<longleftrightarrow> (\<exists>bs. heap_blocks h bs)"

lemma tiled_append:
  "tiled m p pos (xs @ ys) q e \<longleftrightarrow> (\<exists>r k. tiled m p pos xs r k \<and> tiled m r k ys q e)"
  by (induction xs arbitrary: p pos) auto

lemma tiled_le: "tiled m p pos bs q e \<Longrightarrow> pos \<le> e"
  by (induction bs arbitrary: p pos) force+

lemma tiled_bounds:
  "tiled m p pos bs q e \<Longrightarrow> b \<in> set bs \<Longrightarrow>
     pos \<le> unat b \<and> unat b + 16 + unat (bh_size (m b)) \<le> e \<and> bh_magic (m b) = HEAP_MAGIC"
  by (induction bs arbitrary: p pos) (fastforce dest: tiled_le)+

lemma tiled_cong: "(\<And>b. b \<in> set bs \<Longrightarrow> m' b = m b) \<Longrightarrow> tiled m' p pos bs q e = tiled m p pos bs q e"
  by (induction bs arbitrary: p pos) auto

lemma tiled_unique:
  "tiled m p pos bs 0 e \<Longrightarrow> tiled m p pos cs 0 e \<Longrightarrow> 0 < pos \<Longrightarrow> bs = cs"
  by (induction bs arbitrary: p pos cs; case_tac cs) auto

lemma heap_blocks_unique: "heap_blocks h bs \<Longrightarrow> heap_blocks h cs \<Longrightarrow> bs = cs"
  unfolding heap_blocks_def by (auto intro: tiled_unique)

text \<open>A block between its neighbours: everything before it ends where it starts.\<close>

lemma tiled_split:
  assumes "tiled m p pos (xs @ b # ys) q e"
  shows "tiled m p pos xs b (unat b)"
    and "tiled m (bh_next (m b)) (unat b + 16 + unat (bh_size (m b))) ys q e"
    and "pos \<le> unat b" "unat b + 16 + unat (bh_size (m b)) \<le> e"
    and "\<And>x. x \<in> set xs \<Longrightarrow> unat x + 16 + unat (bh_size (m x)) \<le> unat b"
    and "\<And>y. y \<in> set ys \<Longrightarrow> unat b + 16 + unat (bh_size (m b)) \<le> unat y"
    and "bh_magic (m b) = HEAP_MAGIC"
  using assms tiled_bounds [OF assms, of b]
  by (auto simp: tiled_append dest: tiled_bounds)

section \<open>The invariant holds\<close>

lemma heap_init_blocks: "heap_blocks (heap_init h) [HEAP_START]"
  by (simp add: heap_init_def heap_blocks_def)


text \<open>The blocks after a block was taken, and the header the split wrote.\<close>

definition splits :: "u32 \<Rightarrow> u32 \<Rightarrow> (u32 \<Rightarrow> block_header) \<Rightarrow> bool" where
  "splits sz b m \<longleftrightarrow> unat sz + 32 < unat (bh_size (m b))"

definition split_block :: "u32 \<Rightarrow> u32 \<Rightarrow> u32" where
  "split_block sz b = b + HDR_SIZE + sz"

definition taken :: "u32 \<Rightarrow> u32 \<Rightarrow> (u32 \<Rightarrow> block_header) \<Rightarrow> u32 list" where
  "taken sz b m = (if splits sz b m then [b, split_block sz b] else [b])"

text \<open>No address computation of \<open>kmalloc\<close> wraps: the sizes stay below the heap's end.\<close>

lemma take_block_arith:
  assumes "unat b + 16 + unat (bh_size (m b)) \<le> heap_hi" "sz \<le> bh_size (m b)"
  shows "sz + HDR_SIZE + 16 < bh_size (m b) \<longleftrightarrow> splits sz b m"
    and "unat (split_block sz b) = unat b + 16 + unat sz"
    and "splits sz b m \<Longrightarrow> unat (bh_size (m b) - sz - HDR_SIZE) = unat (bh_size (m b)) - unat sz - 16"
proof -
  have sz: "unat sz \<le> unat (bh_size (m b))" using assms(2) by (simp add: word_le_nat_alt)
  have 1: "unat (sz + HDR_SIZE) = unat sz + 16" using assms(1) sz by (subst unat_plus_small) auto
  have 2: "unat (sz + HDR_SIZE + 16) = unat sz + 32"
    using assms(1) sz 1 by (subst unat_plus_small) auto
  show "sz + HDR_SIZE + 16 < bh_size (m b) \<longleftrightarrow> splits sz b m"
    by (simp only: word_less_nat_alt 2 splits_def)
  have 3: "unat (b + HDR_SIZE) = unat b + 16" using assms(1) by (subst unat_plus_small) auto
  show "unat (split_block sz b) = unat b + 16 + unat sz"
    unfolding split_block_def using assms(1) sz 3 by (subst unat_plus_small) auto
  assume "splits sz b m"
  then have 4: "unat sz + 16 \<le> unat (bh_size (m b))" by (simp add: splits_def)
  have 5: "unat (bh_size (m b) - sz) = unat (bh_size (m b)) - unat sz"
    using assms(2) by (rule unat_minus_le)
  show "unat (bh_size (m b) - sz - HDR_SIZE) = unat (bh_size (m b)) - unat sz - 16"
    using 4 5 by (subst unat_minus_le) (auto simp: word_le_nat_alt)
qed

lemma take_block_eq:
  assumes "unat b + 16 + unat (bh_size (m b)) \<le> heap_hi" "sz \<le> bh_size (m b)"
  shows "take_block sz b m =
    (if splits sz b m
     then m(split_block sz b := \<lparr>bh_magic = HEAP_MAGIC, bh_size = bh_size (m b) - sz - HDR_SIZE,
                                 bh_used = 0, bh_next = bh_next (m b)\<rparr>,
            b := (m b)\<lparr>bh_size := sz, bh_used := 1, bh_next := split_block sz b\<rparr>)
     else m(b := (m b)\<lparr>bh_used := 1\<rparr>))"
proof -
  have "split_block sz b \<noteq> b"
    using take_block_arith(2) [where b = b and m = m and sz = sz, OF assms] by (metis add.assoc less_add_same_cancel1 less_irrefl
        trans_less_add1 zero_less_numeral)
  then show ?thesis
    using take_block_arith(1) [where b = b and m = m and sz = sz, OF assms]
    by (simp add: take_block_def Let_def fun_eq_iff split_block_def)
qed

lemma take_block_others:
  assumes tile: "tiled m p pos (xs @ b # ys) q e" and e: "e \<le> heap_hi"
    and fits: "sz \<le> bh_size (m b)" and x: "x \<in> set xs \<union> set ys"
  shows "take_block sz b m x = m x" "x \<noteq> b" "splits sz b m \<Longrightarrow> x \<noteq> split_block sz b"
proof -
  note sp = tiled_split [OF tile]
  have bound: "unat b + 16 + unat (bh_size (m b)) \<le> heap_hi" using sp(4) e by simp
  note ar = take_block_arith [where b = b and m = m and sz = sz, OF bound fits]
  have "unat x + 16 + unat (bh_size (m x)) \<le> unat b \<or> unat b + 16 + unat (bh_size (m b)) \<le> unat x"
    using x sp(5,6) by auto
  then show ne: "x \<noteq> b" "splits sz b m \<Longrightarrow> x \<noteq> split_block sz b"
    using ar(2) by (auto simp: splits_def)
  then show "take_block sz b m x = m x"
    by (simp add: take_block_eq [where b = b and m = m and sz = sz, OF bound fits])
qed

lemma take_block_tiled:
  assumes tile: "tiled m p pos (xs @ b # ys) q e" and e: "e \<le> heap_hi"
    and fits: "sz \<le> bh_size (m b)"
  shows "tiled (take_block sz b m) p pos (xs @ taken sz b m @ ys) q e"
proof -
  note sp = tiled_split [OF tile]
  have bound: "unat b + 16 + unat (bh_size (m b)) \<le> heap_hi" using sp(4) e by simp
  note eq = take_block_eq [where b = b and m = m and sz = sz, OF bound fits] and ar = take_block_arith [where b = b and m = m and sz = sz, OF bound fits]
  let ?m = "take_block sz b m" and ?s = "split_block sz b"
  have xs: "?m x = m x" if "x \<in> set xs" for x
    using take_block_others(1) [OF tile e fits] that by blast
  have ys: "?m y = m y" if "y \<in> set ys" for y
    using take_block_others(1) [OF tile e fits] that by blast
  have s_ne: "?s \<noteq> b"
    using ar(2) by (auto simp: word_unat_eq_iff)
  have "tiled ?m p pos xs b (unat b)"
    using sp(1) tiled_cong [OF xs] by simp
  moreover have "tiled ?m (bh_next (m b)) (unat b + 16 + unat (bh_size (m b))) ys q e"
    using sp(2) tiled_cong [OF ys] by simp
  moreover have "tiled ?m b (unat b) (taken sz b m) (bh_next (m b)) (unat b + 16 + unat (bh_size (m b)))"
    using sp(7) ar(2,3) s_ne by (auto simp: eq taken_def splits_def)
  ultimately show ?thesis
    unfolding tiled_append by blast
qed

section \<open>The walk of \<open>kmalloc\<close> is a first-fit search\<close>

definition fits :: "u32 \<Rightarrow> heap \<Rightarrow> u32 \<Rightarrow> bool" where
  "fits sz h b \<longleftrightarrow> bh_used (hdr h b) = 0 \<and> sz \<le> bh_size (hdr h b)"

lemma kmalloc_walk_first_fit:
  "tiled (hdr h) p pos bs 0 e \<Longrightarrow> 0 < pos \<Longrightarrow>
     kmalloc_walk sz p h =
       (case dropWhile (\<lambda>b. \<not> fits sz h b) bs of
          [] \<Rightarrow> Some (0, h)
        | b # _ \<Rightarrow> Some (b + HDR_SIZE, h\<lparr>hdr := take_block sz b (hdr h)\<rparr>))"
proof (induction bs arbitrary: p pos)
  case Nil
  then show ?case by (subst kmalloc_walk.simps) simp
next
  case (Cons b bs)
  then have "b \<noteq> 0" by auto
  with Cons show ?case
    by (subst kmalloc_walk.simps) (auto simp: fits_def)
qed

lemma kmalloc_first_fit:
  assumes "heap_blocks h bs"
  shows "kmalloc sz h =
    (case dropWhile (\<lambda>b. \<not> fits sz h b) bs of
       [] \<Rightarrow> Some (0, h)
     | b # _ \<Rightarrow> Some (b + HDR_SIZE, h\<lparr>hdr := take_block sz b (hdr h)\<rparr>))"
  using assms kmalloc_walk_first_fit [of h HEAP_START heap_lo bs heap_hi sz]
  by (simp add: heap_blocks_def kmalloc_def)

text \<open>Either no block fits and nothing changes, or the first fitting block is taken.\<close>

lemma kmalloc_cases [consumes 2, case_names none some]:
  assumes "heap_blocks h bs" "kmalloc sz h = Some (r, h')"
  obtains "r = 0" "h' = h" "\<forall>b \<in> set bs. \<not> fits sz h b"
  | xs b ys where "bs = xs @ b # ys" "fits sz h b" "\<forall>x \<in> set xs. \<not> fits sz h x"
      "r = b + HDR_SIZE" "h' = h\<lparr>hdr := take_block sz b (hdr h)\<rparr>"
      "heap_blocks h' (xs @ taken sz b (hdr h) @ ys)"
proof (cases "dropWhile (\<lambda>b. \<not> fits sz h b) bs")
  case Nil
  with kmalloc_first_fit [OF assms(1), of sz] assms(2) that(1) show ?thesis
    by (auto simp: dropWhile_eq_Nil_conv)
next
  case (Cons b ys)
  define xs where "xs = takeWhile (\<lambda>b. \<not> fits sz h b) bs"
  have bs: "bs = xs @ b # ys"
    using Cons by (metis takeWhile_dropWhile_id xs_def)
  have fb: "fits sz h b"
    using Cons by (metis dropWhile_eq_Cons_conv)
  have "heap_head h = HEAP_START" "tiled (hdr h) HEAP_START heap_lo (xs @ b # ys) 0 heap_hi"
    using assms(1) bs by (auto simp: heap_blocks_def)
  moreover have h': "r = b + HDR_SIZE" "h' = h\<lparr>hdr := take_block sz b (hdr h)\<rparr>"
    using kmalloc_first_fit [OF assms(1), of sz] assms(2) Cons by auto
  ultimately have "heap_blocks h' (xs @ taken sz b (hdr h) @ ys)"
    using take_block_tiled [of "hdr h" HEAP_START heap_lo xs b ys 0 heap_hi sz] fb
    by (simp add: heap_blocks_def fits_def)
  with that(2) [OF bs fb _ h'] show ?thesis
    by (auto simp: xs_def dest: set_takeWhileD)
qed

lemma kmalloc_returns: "heap_inv h \<Longrightarrow> \<exists>r h'. kmalloc sz h = Some (r, h')"
  unfolding heap_inv_def by (auto simp: kmalloc_first_fit split: list.splits)

section \<open>Freeing\<close>

lemma heap_blocks_bounds:
  assumes "heap_blocks h bs" "b \<in> set bs"
  shows "heap_lo \<le> unat b" "unat b + 16 + unat (bh_size (hdr h b)) \<le> heap_hi"
    "bh_magic (hdr h b) = HEAP_MAGIC" "unat (b + HDR_SIZE) = unat b + 16" "b + HDR_SIZE \<noteq> 0"
proof -
  show bd: "heap_lo \<le> unat b" "unat b + 16 + unat (bh_size (hdr h b)) \<le> heap_hi"
    "bh_magic (hdr h b) = HEAP_MAGIC"
    using assms by (auto simp: heap_blocks_def dest: tiled_bounds)
  show "unat (b + HDR_SIZE) = unat b + 16"
    using bd by (subst unat_plus_small) auto
  then show "b + HDR_SIZE \<noteq> 0"
    by (metis add_is_0 unat_0 zero_neq_numeral)
qed

text \<open>The blocks after a free: the next block is merged in when it is free.\<close>

definition merges :: "(u32 \<Rightarrow> block_header) \<Rightarrow> u32 list \<Rightarrow> bool" where
  "merges m ys \<longleftrightarrow> ys \<noteq> [] \<and> bh_used (m (hd ys)) = 0"

lemma kfree_eq:
  assumes "heap_blocks h (xs @ b # ys)"
  shows "kfree (b + HDR_SIZE) h =
    (if merges (hdr h) ys
     then h\<lparr>hdr := (hdr h)(b := (hdr h b)\<lparr>bh_used := 0,
            bh_size := bh_size (hdr h b) + (HDR_SIZE + bh_size (hdr h (hd ys))),
            bh_next := bh_next (hdr h (hd ys))\<rparr>)\<rparr>
     else h\<lparr>hdr := (hdr h)(b := (hdr h b)\<lparr>bh_used := 0\<rparr>)\<rparr>)"
proof -
  have b: "b \<in> set (xs @ b # ys)" by simp
  note bd = heap_blocks_bounds [OF assms b]
  have tile: "tiled (hdr h) HEAP_START heap_lo (xs @ b # ys) 0 heap_hi"
    using assms by (simp add: heap_blocks_def)
  note sp = tiled_split [OF tile]
  show ?thesis
  proof (cases ys)
    case Nil
    with sp(2) bd show ?thesis by (simp add: kfree_def Let_def merges_def)
  next
    case (Cons y zs)
    have "unat b < unat y" using sp(6) [of y] Cons by simp
    then have "y \<noteq> b" "y \<noteq> 0" by auto
    with Cons sp(2) bd show ?thesis
      by (auto simp: kfree_def Let_def merges_def)
  qed
qed

lemma kfree_blocks:
  assumes "heap_blocks h (xs @ b # ys)"
  shows "heap_blocks (kfree (b + HDR_SIZE) h) (xs @ b # (if merges (hdr h) ys then tl ys else ys))"
proof -
  let ?h = "kfree (b + HDR_SIZE) h"
  have head: "heap_head h = HEAP_START"
    and tile: "tiled (hdr h) HEAP_START heap_lo (xs @ b # ys) 0 heap_hi"
    using assms by (auto simp: heap_blocks_def)
  note sp = tiled_split [OF tile] and eq = kfree_eq [OF assms]
  have same: "hdr ?h x = hdr h x" if "x \<noteq> b" for x
    using that by (simp add: eq)
  have xs: "hdr ?h x = hdr h x" if "x \<in> set xs" for x
    using sp(5) [OF that] by (intro same) auto
  have ys: "hdr ?h y = hdr h y" if "y \<in> set ys" for y
    using sp(6) [OF that] by (intro same) auto
  have left: "tiled (hdr ?h) HEAP_START heap_lo xs b (unat b)"
    using sp(1) tiled_cong [OF xs] by simp
  have right: "tiled (hdr ?h) (bh_next (hdr h b)) (unat b + 16 + unat (bh_size (hdr h b))) ys 0 heap_hi"
    using sp(2) tiled_cong [OF ys] by simp
  show ?thesis
  proof (cases "merges (hdr h) ys")
    case False
    with left right sp(7) head show ?thesis
      by (auto simp: heap_blocks_def tiled_append eq)
  next
    case True
    then obtain y zs where ys': "ys = y # zs" by (cases ys) (auto simp: merges_def)
    with right ys [of y] have y: "unat y = unat b + 16 + unat (bh_size (hdr h b))"
      "tiled (hdr ?h) (bh_next (hdr h y)) (unat y + 16 + unat (bh_size (hdr h y))) zs 0 heap_hi"
      by auto
    have "unat y + 16 + unat (bh_size (hdr h y)) \<le> heap_hi"
      using y(2) by (rule tiled_le)
    then have "unat (HDR_SIZE + bh_size (hdr h y)) = 16 + unat (bh_size (hdr h y))"
      by (subst unat_plus_small) auto
    then have "unat (bh_size (hdr h b) + (HDR_SIZE + bh_size (hdr h y))) =
        unat (bh_size (hdr h b)) + 16 + unat (bh_size (hdr h y))"
      using y(1) \<open>unat y + 16 + unat (bh_size (hdr h y)) \<le> heap_hi\<close> by (subst unat_plus_small) auto
    with left y sp(7) head True ys' show ?thesis
      by (auto simp: heap_blocks_def tiled_append eq add.assoc)
  qed
qed

section \<open>The heap as an allocator\<close>

definition heap_alloc :: "u32 \<Rightarrow> heap \<Rightarrow> (u32 \<times> heap) option" where
  "heap_alloc sz h =
     (case kmalloc sz h of None \<Rightarrow> None | Some (r, h') \<Rightarrow> if r = 0 then None else Some (r, h'))"

text \<open>The pointers handed out and not freed, and the bytes behind one.\<close>

definition heap_live :: "heap \<Rightarrow> u32 set" where
  "heap_live h = {b + HDR_SIZE | b. \<exists>bs. heap_blocks h bs \<and> b \<in> set bs \<and> bh_used (hdr h b) \<noteq> 0}"

definition heap_region :: "heap \<Rightarrow> u32 \<Rightarrow> nat set" where
  "heap_region h r = {unat r ..< unat r + unat (bh_size (hdr h (r - HDR_SIZE)))}"

lemma heap_live_blocks:
  "heap_blocks h bs \<Longrightarrow> heap_live h = (\<lambda>b. b + HDR_SIZE) ` {b \<in> set bs. bh_used (hdr h b) \<noteq> 0}"
  unfolding heap_live_def by (auto dest: heap_blocks_unique)

lemma heap_region_block: "heap_region h (b + HDR_SIZE) =
    {unat (b + HDR_SIZE) ..< unat (b + HDR_SIZE) + unat (bh_size (hdr h b))}"
  by (simp add: heap_region_def)

text \<open>What a successful allocation does to the headers.\<close>

lemma take_block_header:
  assumes "heap_blocks h (xs @ b # ys)" "fits sz h b"
  defines "m \<equiv> take_block sz b (hdr h)"
  shows "bh_used (m b) = 1" "sz \<le> bh_size (m b)"
    and "splits sz b (hdr h) \<Longrightarrow> bh_used (m (split_block sz b)) = 0"
    and "\<And>x. x \<in> set xs \<union> set ys \<Longrightarrow> m x = hdr h x \<and> x \<noteq> b"
proof -
  have tile: "tiled (hdr h) HEAP_START heap_lo (xs @ b # ys) 0 heap_hi"
    and fit: "sz \<le> bh_size (hdr h b)"
    using assms(1,2) by (auto simp: heap_blocks_def fits_def)
  note sp = tiled_split [OF tile]
  note ar = take_block_arith [where b = b and m = "hdr h" and sz = sz, OF sp(4) fit]
  note eq = take_block_eq [where b = b and m = "hdr h" and sz = sz, OF sp(4) fit]
  have "split_block sz b \<noteq> b" using ar(2) by auto
  then show "bh_used (m b) = 1" "sz \<le> bh_size (m b)"
    "splits sz b (hdr h) \<Longrightarrow> bh_used (m (split_block sz b)) = 0"
    using fit by (auto simp: m_def eq)
  show "m x = hdr h x \<and> x \<noteq> b" if "x \<in> set xs \<union> set ys" for x
    using take_block_others [OF tile _ fit that] by (simp add: m_def)
qed

lemma heap_alloc_cases:
  assumes "heap_blocks h bs" "heap_alloc sz h = Some (r, h')"
  obtains xs b ys where "bs = xs @ b # ys" "fits sz h b" "\<forall>x \<in> set xs. \<not> fits sz h x"
      "r = b + HDR_SIZE" "h' = h\<lparr>hdr := take_block sz b (hdr h)\<rparr>"
      "heap_blocks h' (xs @ taken sz b (hdr h) @ ys)"
proof -
  have "kmalloc sz h = Some (r, h')" "r \<noteq> 0"
    using assms(2) by (auto simp: heap_alloc_def split: option.splits if_splits)
  with assms(1) show ?thesis
    by (cases rule: kmalloc_cases) (auto intro: that)
qed

lemma heap_alloc_live:
  assumes "heap_inv h" "heap_alloc sz h = Some (r, h')"
  shows "heap_inv h'" "r \<notin> heap_live h" "heap_live h' = insert r (heap_live h)"
    and "unat sz \<le> card (heap_region h' r)"
    and "\<And>a. a \<in> heap_live h \<Longrightarrow> heap_region h' a = heap_region h a"
proof -
  obtain bs where bs: "heap_blocks h bs" using assms(1) by (auto simp: heap_inv_def)
  obtain xs b ys where c: "bs = xs @ b # ys" "fits sz h b" "r = b + HDR_SIZE"
      "h' = h\<lparr>hdr := take_block sz b (hdr h)\<rparr>" "heap_blocks h' (xs @ taken sz b (hdr h) @ ys)"
    using heap_alloc_cases [OF bs assms(2)] by metis
  note hd = take_block_header [OF bs [unfolded c(1)] c(2)]
  show "heap_inv h'" using c(5) by (auto simp: heap_inv_def)
  have live: "heap_live h = (\<lambda>b. b + HDR_SIZE) ` {x \<in> set xs \<union> set ys. bh_used (hdr h x) \<noteq> 0}"
    using heap_live_blocks [OF bs] c(1,2) by (auto simp: fits_def)
  have "{x \<in> set (xs @ taken sz b (hdr h) @ ys). bh_used (hdr h' x) \<noteq> 0} =
      insert b {x \<in> set xs \<union> set ys. bh_used (hdr h x) \<noteq> 0}"
    using hd by (auto simp: c(4) taken_def)
  then show "heap_live h' = insert r (heap_live h)"
    using heap_live_blocks [OF c(5)] live c(3) by simp
  have "b \<notin> set xs \<union> set ys" using hd(4) [of b] by blast
  then show "r \<notin> heap_live h"
    by (auto simp: live c(3))
  show "unat sz \<le> card (heap_region h' r)"
    using hd(2) by (simp add: c(3,4) heap_region_block word_le_nat_alt)
  show "heap_region h' a = heap_region h a" if "a \<in> heap_live h" for a
    using that hd(4) by (auto simp: live c(4) heap_region_block)
qed

lemma kfree_live:
  assumes "heap_inv h" "r \<in> heap_live h"
  shows "heap_inv (kfree r h)" "heap_live (kfree r h) = heap_live h - {r}"
    and "\<And>a. a \<in> heap_live h \<Longrightarrow> a \<noteq> r \<Longrightarrow> heap_region (kfree r h) a = heap_region h a"
proof -
  obtain bs where bs: "heap_blocks h bs" using assms(1) by (auto simp: heap_inv_def)
  obtain b where b: "b \<in> set bs" "bh_used (hdr h b) \<noteq> 0" "r = b + HDR_SIZE"
    using assms(2) heap_live_blocks [OF bs] by auto
  obtain xs ys where split: "bs = xs @ b # ys" using b(1) by (meson split_list)
  note eq = kfree_eq [OF bs [unfolded split]] and blk = kfree_blocks [OF bs [unfolded split]]
  have tile: "tiled (hdr h) HEAP_START heap_lo (xs @ b # ys) 0 heap_hi"
    using bs split by (auto simp: heap_blocks_def)
  note sp = tiled_split [OF tile]
  have ne: "x \<noteq> b" if "x \<in> set xs \<union> set ys" for x
    using that sp(5) [of x] sp(6) [of x] by auto
  have same: "hdr (kfree r h) x = hdr h x" if "x \<noteq> b" for x
    using that by (simp add: b(3) eq)
  have freed: "bh_used (hdr (kfree r h) b) = 0"
    by (simp add: b(3) eq)
  show "heap_inv (kfree r h)" using blk b(3) by (auto simp: heap_inv_def)
  have "{x \<in> set (xs @ b # (if merges (hdr h) ys then tl ys else ys)). bh_used (hdr (kfree r h) x) \<noteq> 0} =
      {x \<in> set bs. bh_used (hdr h x) \<noteq> 0} - {b}"
    using same ne freed by (cases ys) (auto simp: split merges_def)
  then have "heap_live (kfree r h) = (\<lambda>b. b + HDR_SIZE) ` ({x \<in> set bs. bh_used (hdr h x) \<noteq> 0} - {b})"
    using heap_live_blocks [OF blk] by (simp add: b(3))
  then show "heap_live (kfree r h) = heap_live h - {r}"
    using heap_live_blocks [OF bs] by (auto simp: b(3))
  show "heap_region (kfree r h) a = heap_region h a" if "a \<in> heap_live h" "a \<noteq> r" for a
    using that same by (auto simp: heap_live_blocks [OF bs] heap_region_block b(3))
qed

lemma heap_regions_disjoint:
  assumes "heap_inv h" "a \<in> heap_live h" "c \<in> heap_live h" "a \<noteq> c"
  shows "heap_region h a \<inter> heap_region h c = {}"
proof -
  obtain bs where bs: "heap_blocks h bs" using assms(1) by (auto simp: heap_inv_def)
  obtain x y where xy: "x \<in> set bs" "y \<in> set bs" "a = x + HDR_SIZE" "c = y + HDR_SIZE" "x \<noteq> y"
    using assms heap_live_blocks [OF bs] by auto
  obtain us vs where split: "bs = us @ x # vs" using xy(1) by (meson split_list)
  have tile: "tiled (hdr h) HEAP_START heap_lo (us @ x # vs) 0 heap_hi"
    using bs split by (simp add: heap_blocks_def)
  have "unat y + 16 + unat (bh_size (hdr h y)) \<le> unat x \<or> unat x + 16 + unat (bh_size (hdr h x)) \<le> unat y"
    using tiled_split(5,6) [OF tile] xy(2,5) split by auto
  then show ?thesis
    using heap_blocks_bounds(4) [OF bs xy(1)] heap_blocks_bounds(4) [OF bs xy(2)]
    by (auto simp: xy(3,4) heap_region_block)
qed

lemma heap_live_bounds:
  assumes "heap_inv h" "r \<in> heap_live h"
  shows "heap_lo + 16 \<le> unat r" "unat r + card (heap_region h r) \<le> heap_hi"
proof -
  obtain bs where bs: "heap_blocks h bs" using assms(1) by (auto simp: heap_inv_def)
  then obtain b where b: "b \<in> set bs" "r = b + HDR_SIZE" using assms(2) heap_live_blocks [OF bs] by auto
  note bd = heap_blocks_bounds [OF bs b(1)]
  show "heap_lo + 16 \<le> unat r" using bd by (simp add: b(2))
  show "unat r + card (heap_region h r) \<le> heap_hi" using bd by (simp add: b(2) heap_region_def)
qed

interpretation kheap: region_allocator heap_alloc kfree heap_live heap_inv heap_region
  by unfold_locales
    (auto simp: heap_alloc_live kfree_live heap_regions_disjoint
      dest: heap_alloc_live(1) heap_alloc_live(2) heap_alloc_live(3))

section \<open>Properties\<close>

lemma kmalloc_none_live:
  assumes "heap_blocks h bs" "kmalloc sz h = Some (0, h')"
  shows "h' = h \<and> (\<forall>b \<in> set bs. \<not> fits sz h b)"
  using assms
proof (cases rule: kmalloc_cases)
  case (some xs b ys)
  with heap_blocks_bounds(5) [OF assms(1), of b] show ?thesis by simp
qed simp

text \<open>
  C5. \<open>kmalloc\<close> is correct and complete. From a well-formed heap it returns; a result
  other than NULL is a new pointer whose block holds the requested size, lies inside the
  managed 4 MB and overlaps no live block, and no live block changes; NULL is returned only
  when no free block is large enough, and then the heap is unchanged.
\<close>

theorem kmalloc_correct:
  assumes "heap_inv h"
  shows "\<exists>r h'. kmalloc sz h = Some (r, h') \<and> heap_inv h' \<and>
    (if r = 0 then h' = h \<and> (\<forall>bs. heap_blocks h bs \<longrightarrow> (\<forall>b \<in> set bs. \<not> fits sz h b))
     else r \<notin> heap_live h \<and> heap_live h' = insert r (heap_live h) \<and>
       unat sz \<le> card (heap_region h' r) \<and> heap_region h' r \<subseteq> {heap_lo + 16 ..< heap_hi} \<and>
       (\<forall>a \<in> heap_live h. heap_region h' a = heap_region h a \<and> heap_region h' r \<inter> heap_region h a = {}))"
proof -
  obtain r h' where run: "kmalloc sz h = Some (r, h')"
    using kmalloc_returns [OF assms] by blast
  show ?thesis
  proof (cases "r = 0")
    case True
    with run kmalloc_none_live [of h _ sz h'] assms show ?thesis
      by (auto simp: heap_inv_def)
  next
    case False
    with run have alloc: "heap_alloc sz h = Some (r, h')" by (simp add: heap_alloc_def)
    note live = heap_alloc_live [OF assms alloc]
    obtain bs where bs: "heap_blocks h' bs" using live(1) by (auto simp: heap_inv_def)
    obtain b where b: "b \<in> set bs" "r = b + HDR_SIZE"
      using live(3) heap_live_blocks [OF bs] by auto
    have "heap_region h' r \<subseteq> {heap_lo + 16 ..< heap_hi}"
      using heap_blocks_bounds [OF bs b(1)] by (auto simp: b(2) heap_region_block)
    then show ?thesis
      using False run live kheap.alloc_disjoint [OF assms alloc] by auto
  qed
qed

definition heap_boot :: heap where
  "heap_boot = heap_init \<lparr>heap_head = 0, hdr = (\<lambda>_. \<lparr>bh_magic = 0, bh_size = 0, bh_used = 0, bh_next = 0\<rparr>)\<rparr>"

lemma heap_inv_boot: "heap_inv heap_boot"
  unfolding heap_boot_def heap_inv_def using heap_init_blocks by blast

lemma heap_live_boot: "heap_live heap_boot = {}"
  unfolding heap_boot_def
  by (subst heap_live_blocks [OF heap_init_blocks]) (auto simp: heap_init_def)

lemma heap_boot_alloc: "fst (the (kmalloc 100 heap_boot)) = 0x400010"
  by (simp add: kmalloc_def heap_boot_def heap_init_def kmalloc_walk.simps)

theorem kmalloc_correct_witness:
  "\<exists>h'. kmalloc 100 heap_boot = Some (0x400010, h') \<and> heap_live h' = {0x400010} \<and>
     100 \<le> card (heap_region h' 0x400010)"
  using kmalloc_correct [OF heap_inv_boot, of 100] heap_boot_alloc heap_live_boot by auto

text \<open>
  The blocks of any run of allocations are pairwise disjoint in memory, also after
  earlier allocations and frees, and none overlaps a block that was live before.
\<close>

theorem kmalloc_run_disjoint:
  assumes "heap_inv h" "alloc_seq heap_alloc rs h = (ps, h')" "i < length ps" "j < length ps" "i \<noteq> j"
  shows "heap_region h' (ps ! i) \<inter> heap_region h' (ps ! j) = {} \<and> ps ! i \<notin> heap_live h"
  using kheap.alloc_seq_disjoint [OF assms] kheap.alloc_seq_fresh [OF assms(1,2)] assms(3)
  by (auto dest: nth_mem)

theorem kmalloc_run_disjoint_witness:
  "\<exists>p q h'. alloc_seq heap_alloc [100, 200] heap_boot = ([p, q], h') \<and>
     heap_region h' p \<inter> heap_region h' q = {}"
proof -
  obtain p q h' where run: "alloc_seq heap_alloc [100, 200] heap_boot = ([p, q], h')"
    by (simp add: heap_alloc_def kmalloc_def heap_boot_def heap_init_def kmalloc_walk.simps
        take_block_def)
  have "heap_region h' ([p, q] ! 0) \<inter> heap_region h' ([p, q] ! 1) = {} \<and> [p, q] ! 0 \<notin> heap_live heap_boot"
    by (rule kmalloc_run_disjoint [OF heap_inv_boot run]) simp_all
  with run show ?thesis by auto
qed

text \<open>
  C29. \<open>kfree\<close> of a live block keeps the heap well formed, makes exactly this block
  available again and leaves every other block alone; a request no larger than the freed
  block then succeeds.
\<close>

theorem kfree_reclaims:
  assumes "heap_inv h" "r \<in> heap_live h"
  shows "heap_inv (kfree r h) \<and> heap_live (kfree r h) = heap_live h - {r} \<and>
    (\<forall>a \<in> heap_live h - {r}. heap_region (kfree r h) a = heap_region h a) \<and>
    (\<forall>sz. unat sz \<le> card (heap_region h r) \<longrightarrow> heap_alloc sz (kfree r h) \<noteq> None)"
proof -
  note live = kfree_live [OF assms]
  obtain bs where bs: "heap_blocks h bs" using assms(1) by (auto simp: heap_inv_def)
  obtain b where b: "b \<in> set bs" "r = b + HDR_SIZE"
    using assms(2) heap_live_blocks [OF bs] by auto
  obtain xs ys where split: "bs = xs @ b # ys" using b(1) by (meson split_list)
  note eq = kfree_eq [OF bs [unfolded split]] and blk = kfree_blocks [OF bs [unfolded split]]
  note bounds = heap_blocks_bounds [OF blk, of b, simplified]
  have grow: "unat (bh_size (hdr h b)) \<le> unat (bh_size (hdr (kfree r h) b))"
  proof (cases "merges (hdr h) ys")
    case True
    then obtain y zs where ys: "ys = y # zs" by (cases ys) (auto simp: merges_def)
    have "unat b + 16 + unat (bh_size (hdr h b)) \<le> unat y" "unat y + 16 + unat (bh_size (hdr h y)) \<le> heap_hi"
      using bs split ys tiled_split(6) [of "hdr h" HEAP_START heap_lo xs b ys 0 heap_hi y]
        heap_blocks_bounds(2) [OF bs, of y] by (auto simp: heap_blocks_def)
    moreover from this have "unat (HDR_SIZE + bh_size (hdr h y)) = 16 + unat (bh_size (hdr h y))"
      by (subst unat_plus_small) auto
    ultimately show ?thesis
      using True ys by (simp add: b(2) eq) (subst unat_plus_small, auto)
  qed (simp add: b(2) eq)
  have "heap_alloc sz (kfree r h) \<noteq> None" if "unat sz \<le> card (heap_region h r)" for sz
  proof -
    have "fits sz (kfree r h) b"
      using that grow by (simp add: fits_def b(2) heap_region_block word_le_nat_alt) (simp add: eq)
    moreover obtain q h' where run: "kmalloc sz (kfree r h) = Some (q, h')"
      using kmalloc_returns [OF live(1)] by blast
    ultimately have "q \<noteq> 0"
      using kmalloc_none_live [OF blk [folded b(2)], of sz h'] by auto
    with run show ?thesis by (simp add: heap_alloc_def)
  qed
  with live show ?thesis by auto
qed

theorem kfree_reclaims_witness:
  "\<exists>h'. kmalloc 100 heap_boot = Some (0x400010, h') \<and> heap_live (kfree 0x400010 h') = {} \<and>
     heap_alloc 100 (kfree 0x400010 h') \<noteq> None"
proof -
  obtain h' where run: "kmalloc 100 heap_boot = Some (0x400010, h')"
    using heap_boot_alloc kmalloc_returns [OF heap_inv_boot, of 100] by auto
  then have alloc: "heap_alloc 100 heap_boot = Some (0x400010, h')" by (simp add: heap_alloc_def)
  note live = heap_alloc_live [OF heap_inv_boot alloc]
  have "(100::nat) \<le> card (heap_region h' 0x400010)" using live(4) by simp
  with kfree_reclaims [OF live(1), of "0x400010"] live(3) heap_live_boot run show ?thesis by auto
qed

lemma used_walk_sum:
  "tiled (hdr h) p pos bs 0 e \<Longrightarrow> 0 < pos \<Longrightarrow>
     used_walk u p h = Some (u + (\<Sum>b \<leftarrow> bs. if bh_used (hdr h b) \<noteq> 0 then bh_size (hdr h b) else 0))"
proof (induction bs arbitrary: p pos u)
  case Nil
  then show ?case by (subst used_walk.simps) simp
next
  case (Cons b bs)
  then have "b \<noteq> 0" by auto
  with Cons show ?case
    by (subst used_walk.simps) (auto simp: add.assoc)
qed

lemma tiled_sum:
  "tiled m p pos bs q e \<Longrightarrow> pos + (\<Sum>b \<leftarrow> bs. if P b then unat (bh_size (m b)) else 0) \<le> e"
  by (induction bs arbitrary: p pos) (force dest: tiled_le)+

lemma unat_sum_list: "(\<Sum>x \<leftarrow> xs. unat (f x)) < 2 ^ LENGTH('n) \<Longrightarrow>
    unat (\<Sum>x \<leftarrow> xs. f x) = (\<Sum>x \<leftarrow> xs. unat (f x :: 'n::len word))"
  by (induction xs) (auto simp: unat_plus_small)

lemma tiled_distinct: "tiled m p pos bs q e \<Longrightarrow> distinct bs"
  by (induction bs arbitrary: p pos) (fastforce dest: tiled_bounds)+

text \<open>
  \<open>heap_used_bytes\<close> returns, and its value is the total size of the live blocks;
  the 32-bit sum does not wrap.
\<close>

theorem used_bytes_correct:
  assumes "heap_inv h"
  shows "map_option unat (heap_used_bytes h) = Some (\<Sum>r \<in> heap_live h. card (heap_region h r))"
proof -
  obtain bs where bs: "heap_blocks h bs" using assms by (auto simp: heap_inv_def)
  then have tile: "tiled (hdr h) HEAP_START heap_lo bs 0 heap_hi" and head: "heap_head h = HEAP_START"
    by (auto simp: heap_blocks_def)
  let ?f = "\<lambda>b. if bh_used (hdr h b) \<noteq> 0 then bh_size (hdr h b) else 0"
  have dist: "distinct bs" by (rule tiled_distinct [OF tile])
  have nat: "(\<lambda>b. unat (?f b)) = (\<lambda>b. if bh_used (hdr h b) \<noteq> 0 then unat (bh_size (hdr h b)) else 0)"
    by auto
  have "(\<Sum>b \<leftarrow> bs. unat (?f b)) < 2 ^ LENGTH(32)"
    using tiled_sum [OF tile, of "\<lambda>b. bh_used (hdr h b) \<noteq> 0"] by (simp add: nat)
  then have "unat (\<Sum>b \<leftarrow> bs. ?f b) = (\<Sum>b \<leftarrow> bs. unat (?f b))"
    by (rule unat_sum_list)
  also have "\<dots> = (\<Sum>b \<in> set bs. unat (?f b))"
    using dist by (rule sum_list_distinct_conv_sum_set)
  also have "\<dots> = (\<Sum>b \<in> {b \<in> set bs. bh_used (hdr h b) \<noteq> 0}. unat (bh_size (hdr h b)))"
    by (rule sum.mono_neutral_cong_right) auto
  also have "\<dots> = (\<Sum>r \<in> heap_live h. card (heap_region h r))"
    unfolding heap_live_blocks [OF bs]
    by (subst sum.reindex) (auto simp: inj_on_def heap_region_block)
  finally show ?thesis
    using used_walk_sum [OF tile, of 0] head by (simp add: heap_used_bytes_def)
qed

theorem used_bytes_correct_witness:
  "map_option unat (heap_used_bytes heap_boot) = Some 0"
  using used_bytes_correct [OF heap_inv_boot] heap_live_boot by simp

end
