(* ===== verification/Pmm.thy ===== *)
theory Pmm
  imports Allocator
begin

text \<open>
  The physical memory manager, \<open>kernel/pmm/pmm.c\<close>: one bit per 4 KB frame of the
  128 MB of memory, 1 for used. The bitmap words are a list, the counters 32-bit words.
\<close>

abbreviation "PMM_FRAME_SIZE \<equiv> (4096 :: u32)"
abbreviation "PMM_MEMORY_SIZE \<equiv> (134217728 :: u32)"
abbreviation "PMM_TOTAL_FRAMES \<equiv> (32768 :: u32)"
abbreviation "PMM_RESERVED_END \<equiv> (0xC00000 :: u32)"

record pmm =
  pmm_bitmap :: "u32 list"
  pmm_total :: u32
  pmm_used :: u32

definition pmm_set_used :: "u32 \<Rightarrow> pmm \<Rightarrow> pmm" where
  "pmm_set_used frame p = p\<lparr>pmm_bitmap := (pmm_bitmap p)[unat (frame div 32) :=
     pmm_bitmap p ! unat (frame div 32) OR push_bit (unat (frame mod 32)) 1]\<rparr>"

definition pmm_set_free :: "u32 \<Rightarrow> pmm \<Rightarrow> pmm" where
  "pmm_set_free frame p = p\<lparr>pmm_bitmap := (pmm_bitmap p)[unat (frame div 32) :=
     pmm_bitmap p ! unat (frame div 32) AND NOT (push_bit (unat (frame mod 32)) 1)]\<rparr>"

definition pmm_is_used :: "pmm \<Rightarrow> u32 \<Rightarrow> bool" where
  "pmm_is_used p frame \<longleftrightarrow>
     drop_bit (unat (frame mod 32)) (pmm_bitmap p ! unat (frame div 32)) AND 1 \<noteq> 0"

text \<open>The loop of \<open>pmm_init\<close> over the free frames.\<close>

function pmm_init_free :: "u32 \<Rightarrow> pmm \<Rightarrow> pmm" where
  "pmm_init_free addr p =
     (if addr < PMM_MEMORY_SIZE then
        let p = pmm_set_free (addr div PMM_FRAME_SIZE) p
        in pmm_init_free (addr + PMM_FRAME_SIZE) (p\<lparr>pmm_used := pmm_used p - 1\<rparr>)
      else p)"
  by pat_completeness auto
termination
proof (relation "measure (\<lambda>(addr, p). 4294967296 - unat addr)", simp, goal_cases)
  case (1 addr p x)
  then have "unat (addr + PMM_FRAME_SIZE) = unat addr + 4096"
    by (subst unat_plus_small) (auto simp: word_less_nat_alt)
  with 1 show ?case by (simp add: word_less_nat_alt)
qed

declare pmm_init_free.simps [simp del]

text \<open>The bitmap lies behind the kernel image: its words hold anything before.\<close>

definition pmm_init :: "u32 \<Rightarrow> pmm \<Rightarrow> pmm" where
  "pmm_init kernel_end_addr p =
     (let p = p\<lparr>pmm_total := PMM_TOTAL_FRAMES, pmm_used := PMM_TOTAL_FRAMES\<rparr>;
          p = p\<lparr>pmm_bitmap := fold (\<lambda>i b. b[i := 0xFFFFFFFF]) [0..<unat (pmm_total p div 32)] (pmm_bitmap p)\<rparr>;
          bitmap_size = pmm_total p div 8;
          free_start = (kernel_end_addr + bitmap_size + PMM_FRAME_SIZE - 1) AND NOT (PMM_FRAME_SIZE - 1);
          free_start = (if free_start < PMM_RESERVED_END then PMM_RESERVED_END else free_start)
      in pmm_init_free free_start p)"

definition pmm_alloc_frame :: "pmm \<Rightarrow> u32 \<times> pmm" where
  "pmm_alloc_frame p =
     (case find (\<lambda>i. \<not> pmm_is_used p (of_nat i)) [0..<unat (pmm_total p)] of
        None \<Rightarrow> (0, p)
      | Some i \<Rightarrow> let p = pmm_set_used (of_nat i) p
                  in (of_nat i * PMM_FRAME_SIZE, p\<lparr>pmm_used := pmm_used p + 1\<rparr>))"

definition pmm_free_frame :: "u32 \<Rightarrow> pmm \<Rightarrow> pmm" where
  "pmm_free_frame addr p =
     (let frame = addr div PMM_FRAME_SIZE in
      if pmm_total p \<le> frame then p
      else let p = pmm_set_free frame p in p\<lparr>pmm_used := pmm_used p - 1\<rparr>)"

definition alloc_frame :: "pmm \<Rightarrow> u32 \<times> pmm" where
  "alloc_frame p = pmm_alloc_frame p"

definition free_frame :: "u32 \<Rightarrow> pmm \<Rightarrow> pmm" where
  "free_frame addr p = pmm_free_frame addr p"

definition pmm_free_frames :: "pmm \<Rightarrow> u32" where
  "pmm_free_frames p = pmm_total p - pmm_used p"

definition pmm_total_frames :: "pmm \<Rightarrow> u32" where
  "pmm_total_frames p = pmm_total p"

section \<open>The bitmap as a set of frames\<close>

abbreviation "n_frames \<equiv> (32768 :: nat)"
abbreviation "n_reserved \<equiv> (3072 :: nat)" \<comment> \<open>\<open>PMM_RESERVED_END / PMM_FRAME_SIZE\<close>\<close>

definition frame_used :: "pmm \<Rightarrow> nat \<Rightarrow> bool" where
  "frame_used p n = bit (pmm_bitmap p ! (n div 32)) (n mod 32)"

definition used_frames :: "pmm \<Rightarrow> nat set" where
  "used_frames p = {n. n < n_frames \<and> frame_used p n}"

lemma finite_used_frames [simp]: "finite (used_frames p)"
  by (simp add: used_frames_def)

lemma drop_bit_and_1: "drop_bit k w AND 1 \<noteq> 0 \<longleftrightarrow> bit w k" for w :: "'n::len word"
  by (simp add: and_one_eq odd_iff_mod_2_eq_one [symmetric] bit_iff_odd_drop_bit)

lemma pmm_is_used_iff: "pmm_is_used p frame \<longleftrightarrow> frame_used p (unat frame)"
  by (simp add: pmm_is_used_def frame_used_def drop_bit_and_1 unat_div_distrib unat_mod_distrib)

lemma frame_used_set_used:
  assumes "length (pmm_bitmap p) = 1024" "unat frame < n_frames"
  shows "frame_used (pmm_set_used frame p) n \<longleftrightarrow> n = unat frame \<or> frame_used p n"
proof -
  have "unat frame div 32 < 1024" using assms(2) by simp
  moreover have "n = unat frame \<longleftrightarrow> n div 32 = unat frame div 32 \<and> n mod 32 = unat frame mod 32"
    by (metis div_mult_mod_eq)
  ultimately show ?thesis
    using assms by (auto simp: frame_used_def pmm_set_used_def nth_list_update unat_div_distrib
        unat_mod_distrib bit_simps)
qed

lemma frame_used_set_free:
  assumes "length (pmm_bitmap p) = 1024" "unat frame < n_frames"
  shows "frame_used (pmm_set_free frame p) n \<longleftrightarrow> n \<noteq> unat frame \<and> frame_used p n"
proof -
  have "unat frame div 32 < 1024" using assms(2) by simp
  moreover have "n = unat frame \<longleftrightarrow> n div 32 = unat frame div 32 \<and> n mod 32 = unat frame mod 32"
    by (metis div_mult_mod_eq)
  moreover have "n mod 32 < 32" by simp
  ultimately show ?thesis
    using assms by (auto simp: frame_used_def pmm_set_free_def nth_list_update unat_div_distrib
        unat_mod_distrib bit_simps)
qed

lemma pmm_set_frame [simp]:
  "length (pmm_bitmap (pmm_set_used f p)) = length (pmm_bitmap p)"
  "length (pmm_bitmap (pmm_set_free f p)) = length (pmm_bitmap p)"
  "pmm_total (pmm_set_used f p) = pmm_total p" "pmm_total (pmm_set_free f p) = pmm_total p"
  "pmm_used (pmm_set_used f p) = pmm_used p" "pmm_used (pmm_set_free f p) = pmm_used p"
  by (simp_all add: pmm_set_used_def pmm_set_free_def)

lemma frame_used_used_upd [simp]:
  "frame_used (p\<lparr>pmm_used := u\<rparr>) n = frame_used p n"
  "used_frames (p\<lparr>pmm_used := u\<rparr>) = used_frames p"
  by (simp_all add: frame_used_def used_frames_def)

section \<open>Invariant\<close>

definition pmm_inv :: "pmm \<Rightarrow> bool" where
  "pmm_inv p \<longleftrightarrow> length (pmm_bitmap p) = 1024 \<and> pmm_total p = PMM_TOTAL_FRAMES \<and>
     (\<forall>n < n_reserved. frame_used p n) \<and> unat (pmm_used p) = card (used_frames p)"

definition frame_addr :: "nat \<Rightarrow> u32" where
  "frame_addr n = of_nat n * PMM_FRAME_SIZE"

lemma unat_frame_addr: "n < n_frames \<Longrightarrow> unat (frame_addr n) = n * 4096"
  by (simp add: frame_addr_def unat_word_ariths unsigned_of_nat take_bit_nat_eq_self)

lemma frame_addr_div: "n < n_frames \<Longrightarrow> unat (frame_addr n div PMM_FRAME_SIZE) = n"
  by (simp add: unat_div_distrib unat_frame_addr)

lemma find_upt_Some: "find P [0..<n] = Some i \<longleftrightarrow> i < n \<and> P i \<and> (\<forall>j < i. \<not> P j)"
  by (auto simp: find_Some_iff)

lemma find_upt_None: "find P [0..<n] = None \<longleftrightarrow> (\<forall>i < n. \<not> P i)"
  by (auto simp: find_None_iff)

lemma pmm_alloc_frame_cases:
  assumes "pmm_inv p"
  obtains "\<forall>n < n_frames. frame_used p n" "pmm_alloc_frame p = (0, p)"
  | n p' where "n < n_frames" "\<not> frame_used p n" "\<forall>k < n. frame_used p k" "n_reserved \<le> n"
      "pmm_alloc_frame p = (frame_addr n, p')" "pmm_inv p'"
      "\<And>k. frame_used p' k \<longleftrightarrow> k = n \<or> frame_used p k"
proof (cases "find (\<lambda>i. \<not> pmm_is_used p (of_nat i)) [0..<unat (pmm_total p)]")
  case None
  have "frame_used p n" if "n < n_frames" for n
    using None that assms by (auto simp: find_upt_None pmm_inv_def pmm_is_used_iff
        unsigned_of_nat take_bit_nat_eq_self)
  with None that(1) show ?thesis by (simp add: pmm_alloc_frame_def)
next
  case (Some n)
  have tot: "unat (pmm_total p) = n_frames" using assms by (simp add: pmm_inv_def)
  have small: "unat (of_nat k :: u32) = k" if "k < n_frames" for k
    using that by (simp add: unsigned_of_nat take_bit_nat_eq_self)
  have n: "n < n_frames" "\<not> frame_used p n" "\<forall>k < n. frame_used p k"
    using Some tot small by (auto simp: find_upt_Some pmm_is_used_iff)
  define p' where "p' = (pmm_set_used (of_nat n) p)\<lparr>pmm_used := pmm_used p + 1\<rparr>"
  have res: "n_reserved \<le> n"
    using n(2) assms by (auto simp: pmm_inv_def not_less [symmetric])
  have bits: "frame_used p' k \<longleftrightarrow> k = n \<or> frame_used p k" for k
    using assms n(1) frame_used_set_used [of p "of_nat n" k] small
    by (simp add: p'_def pmm_inv_def)
  have "used_frames p' = insert n (used_frames p)"
    using bits n(1) by (auto simp: used_frames_def)
  moreover have "n \<notin> used_frames p" using n(2) by (simp add: used_frames_def)
  moreover have "card (used_frames p) \<le> n_frames"
    using card_mono [of "{..<n_frames}" "used_frames p"] by (auto simp: used_frames_def)
  ultimately have "pmm_inv p'"
    using assms bits by (auto simp: pmm_inv_def p'_def unat_plus_small)
  then show ?thesis
    using that(2) [OF n res _ _ bits] Some
    by (simp add: pmm_alloc_frame_def frame_addr_def p'_def Let_def)
qed

lemma pmm_free_frame_used:
  assumes "pmm_inv p" "n < n_frames" "frame_used p n" "n_reserved \<le> n"
  shows "pmm_inv (pmm_free_frame (frame_addr n) p)"
    and "\<And>k. frame_used (pmm_free_frame (frame_addr n) p) k \<longleftrightarrow> k \<noteq> n \<and> frame_used p k"
proof -
  let ?f = "frame_addr n div PMM_FRAME_SIZE"
  have f: "unat ?f = n" using assms(2) by (rule frame_addr_div)
  then have lt: "\<not> pmm_total p \<le> ?f"
    using assms(1,2) by (simp add: pmm_inv_def word_le_nat_alt)
  have eq: "pmm_free_frame (frame_addr n) p = (pmm_set_free ?f p)\<lparr>pmm_used := pmm_used p - 1\<rparr>"
    using lt by (simp add: pmm_free_frame_def Let_def)
  show bits: "frame_used (pmm_free_frame (frame_addr n) p) k \<longleftrightarrow> k \<noteq> n \<and> frame_used p k" for k
    using assms(1,2) frame_used_set_free [of p ?f k] f unfolding eq by (simp add: pmm_inv_def)
  then have "used_frames (pmm_free_frame (frame_addr n) p) = used_frames p - {n}"
    by (auto simp: used_frames_def)
  moreover have n: "n \<in> used_frames p" using assms(2,3) by (simp add: used_frames_def)
  moreover have "unat (pmm_used p - 1) = unat (pmm_used p) - 1"
    using n assms(1) by (subst unat_minus_le) (auto simp: pmm_inv_def word_le_nat_alt Suc_le_eq card_gt_0_iff)
  ultimately show "pmm_inv (pmm_free_frame (frame_addr n) p)"
    using assms(1,4) bits by (auto simp: pmm_inv_def eq)
qed

section \<open>Initialisation\<close>

lemma frame_addr_less: "k \<le> n_frames \<Longrightarrow> frame_addr k < PMM_MEMORY_SIZE \<longleftrightarrow> k < n_frames"
  by (simp add: frame_addr_def word_less_nat_alt unat_word_ariths unsigned_of_nat take_bit_nat_eq_self)

lemma frame_addr_Suc: "frame_addr k + PMM_FRAME_SIZE = frame_addr (Suc k)"
  by (simp add: frame_addr_def algebra_simps)

lemma pmm_init_free_frames:
  assumes "length (pmm_bitmap p) = 1024" "k \<le> n_frames"
  shows "length (pmm_bitmap (pmm_init_free (frame_addr k) p)) = 1024 \<and>
    pmm_total (pmm_init_free (frame_addr k) p) = pmm_total p \<and>
    pmm_used (pmm_init_free (frame_addr k) p) = pmm_used p - of_nat (n_frames - k) \<and>
    (\<forall>n. frame_used (pmm_init_free (frame_addr k) p) n \<longleftrightarrow>
       frame_used p n \<and> (n < k \<or> n_frames \<le> n))"
  using assms
proof (induction "n_frames - k" arbitrary: k p)
  case 0
  then show ?case by (subst (1 2 3 4) pmm_init_free.simps) (auto simp: frame_addr_less)
next
  case (Suc d)
  let ?f = "frame_addr k div PMM_FRAME_SIZE"
  define q where "q = (pmm_set_free ?f p)\<lparr>pmm_used := pmm_used p - 1\<rparr>"
  have k: "k < n_frames" "d = n_frames - Suc k" using Suc.hyps(2) by simp_all
  have run: "pmm_init_free (frame_addr k) p = pmm_init_free (frame_addr (Suc k)) q"
    using k(1) unfolding q_def by (subst pmm_init_free.simps) (simp add: frame_addr_less frame_addr_Suc Let_def)
  have q: "length (pmm_bitmap q) = 1024" "pmm_total q = pmm_total p" "pmm_used q = pmm_used p - 1"
    using Suc.prems(1) by (simp_all add: q_def)
  have bits: "frame_used q n \<longleftrightarrow> n \<noteq> k \<and> frame_used p n" for n
    using frame_used_set_free [of p ?f n] Suc.prems(1) k(1) frame_addr_div [OF k(1)] by (simp add: q_def)
  have num: "(of_nat (n_frames - k) :: u32) = 1 + of_nat (n_frames - Suc k)"
    using k(1) by (metis Suc_diff_Suc of_nat_Suc)
  have keep: "n \<noteq> k \<and> (n < Suc k \<or> n_frames \<le> n) \<longleftrightarrow> n < k \<or> n_frames \<le> n" for n
    using k(1) by linarith
  have "Suc k \<le> n_frames" using k(1) by simp
  note IH = Suc.hyps(1) [OF k(2) q(1) this]
  show ?case unfolding run num
    using IH by (simp only: q bits keep [symmetric]) (simp add: conj_ac)
qed

lemma fold_fill_prefix:
  "m \<le> length b \<Longrightarrow> fold (\<lambda>i b. b[i := v]) [0..<m] b = replicate m v @ drop m b"
proof (induction m)
  case (Suc m)
  then have "drop m b = b ! m # drop (Suc m) b" by (simp add: Cons_nth_drop_Suc)
  with Suc show ?case by (simp add: list_update_append replicate_app_Cons_same)
qed simp

lemma fold_fill: "length b = n \<Longrightarrow> fold (\<lambda>i b. b[i := v]) [0..<n] b = replicate n v"
  using fold_fill_prefix [of n b v] by simp

definition first_free :: "u32 \<Rightarrow> nat" where
  "first_free kernel_end_addr = max n_reserved ((unat kernel_end_addr + 8191) div 4096)"

lemma pmm_init_start:
  fixes e :: u32
  assumes "unat e + 8191 < 134217728"
  shows "(let f = (e + PMM_TOTAL_FRAMES div 8 + PMM_FRAME_SIZE - 1) AND NOT (PMM_FRAME_SIZE - 1)
          in if f < PMM_RESERVED_END then PMM_RESERVED_END else f) = frame_addr (first_free e)"
proof -
  let ?f = "(e + 8191) AND NOT 0xFFF"
  have u: "unat ?f = (unat e + 8191) div 4096 * 4096"
    using assms by (subst unat_page_mask) (simp add: unat_plus_small)
  have le: "first_free e < n_frames" using assms by (auto simp: first_free_def)
  have "unat (if ?f < PMM_RESERVED_END then PMM_RESERVED_END else ?f) = first_free e * 4096"
    unfolding word_less_nat_alt if_distrib [of unat] u by (auto simp: first_free_def max_def)
  then have eq: "(if ?f < PMM_RESERVED_END then PMM_RESERVED_END else ?f) = frame_addr (first_free e)"
    using unat_frame_addr [OF le] by (simp only: word_unat_eq_iff)
  have "e + PMM_TOTAL_FRAMES div 8 + PMM_FRAME_SIZE - 1 = e + 8191" "PMM_FRAME_SIZE - 1 = (0xFFF :: u32)"
    by simp_all
  then show ?thesis by (simp only: Let_def eq)
qed

definition pmm_filled :: "pmm \<Rightarrow> pmm" where
  "pmm_filled p = p\<lparr>pmm_total := PMM_TOTAL_FRAMES, pmm_used := PMM_TOTAL_FRAMES,
     pmm_bitmap := replicate 1024 0xFFFFFFFF\<rparr>"

lemma pmm_filled_simps:
  "length (pmm_bitmap (pmm_filled p)) = 1024" "pmm_total (pmm_filled p) = PMM_TOTAL_FRAMES"
  "pmm_used (pmm_filled p) = PMM_TOTAL_FRAMES"
  by (simp_all add: pmm_filled_def)

lemma pmm_filled_used: "n < n_frames \<Longrightarrow> frame_used (pmm_filled p) n"
proof -
  assume "n < n_frames"
  then have "pmm_bitmap (pmm_filled p) ! (n div 32) = 0xFFFFFFFF"
    by (simp add: pmm_filled_def)
  also have "\<dots> = mask 32" by (simp add: mask_eq_exp_minus_1)
  finally show ?thesis by (simp only: frame_used_def bit_mask_iff) simp
qed

lemma pmm_init_run:
  assumes "length (pmm_bitmap p) = 1024" "unat e + 8191 < 134217728"
  shows "pmm_init e p = pmm_init_free (frame_addr (first_free e)) (pmm_filled p)"
proof -
  have sel: "pmm_total (p\<lparr>pmm_total := t, pmm_used := u\<rparr>) = t" "pmm_bitmap (p\<lparr>pmm_total := t, pmm_used := u\<rparr>) = pmm_bitmap p"
      "pmm_total (p\<lparr>pmm_total := t, pmm_used := u, pmm_bitmap := b\<rparr>) = t" for t u b
    by simp_all
  have fill: "fold (\<lambda>i b. b[i := 0xFFFFFFFF]) [0..<unat (PMM_TOTAL_FRAMES div 32)] (pmm_bitmap p)
      = replicate 1024 0xFFFFFFFF"
    using assms(1) by (intro fold_fill [THEN trans]) simp_all
  show ?thesis
    unfolding pmm_init_def Let_def sel fill pmm_filled_def
    by (simp only: pmm_init_start [OF assms(2), unfolded Let_def])
qed

lemma pmm_init_frames:
  assumes "length (pmm_bitmap p) = 1024" "unat e + 8191 < 134217728"
  shows "pmm_inv (pmm_init e p) \<and> (\<forall>n < n_frames. frame_used (pmm_init e p) n \<longleftrightarrow> n < first_free e)"
proof -
  have le: "first_free e \<le> n_frames" "n_reserved \<le> first_free e" using assms(2) by (auto simp: first_free_def)
  note fin = pmm_init_free_frames [OF pmm_filled_simps(1) le(1), of p, folded pmm_init_run [OF assms]]
  have bits: "\<forall>n < n_frames. frame_used (pmm_init e p) n \<longleftrightarrow> n < first_free e"
    using fin pmm_filled_used by auto
  then have "used_frames (pmm_init e p) = {..<first_free e}"
    using le(1) by (auto simp: used_frames_def)
  moreover have "unat (pmm_used (pmm_init e p)) = first_free e"
  proof -
    have "pmm_used (pmm_init e p) = of_nat (first_free e)"
      using fin le(1) by (simp add: pmm_filled_simps of_nat_diff)
    with le(1) show ?thesis by (simp add: unat_of_nat_small)
  qed
  moreover have "\<forall>n < n_reserved. frame_used (pmm_init e p) n"
    using bits le by (meson less_le_trans order_trans)
  moreover have "length (pmm_bitmap (pmm_init e p)) = 1024" "pmm_total (pmm_init e p) = PMM_TOTAL_FRAMES"
    using fin by (simp_all only: pmm_filled_simps)
  ultimately show ?thesis
    using bits by (simp only: pmm_inv_def card_lessThan)
qed

section \<open>The frame allocator as a region allocator\<close>

definition frame_grant :: "unit \<Rightarrow> pmm \<Rightarrow> (u32 \<times> pmm) option" where
  "frame_grant _ p = (let (a, p') = alloc_frame p in if a = 0 then None else Some (a, p'))"

definition frames_live :: "pmm \<Rightarrow> u32 set" where
  "frames_live p = frame_addr ` {n. n_reserved \<le> n \<and> n < n_frames \<and> frame_used p n}"

definition frame_region :: "pmm \<Rightarrow> u32 \<Rightarrow> nat set" where
  "frame_region _ a = {unat a ..< unat a + 4096}"

lemma frame_addr_inj: "m < n_frames \<Longrightarrow> n < n_frames \<Longrightarrow> frame_addr m = frame_addr n \<longleftrightarrow> m = n"
  by (metis frame_addr_div)

lemma frame_addr_nonzero: "n_reserved \<le> n \<Longrightarrow> n < n_frames \<Longrightarrow> frame_addr n \<noteq> 0"
  by (metis frame_addr_div div_0 unat_0 not_numeral_le_zero)

lemma frame_addr_in_live:
  "n_reserved \<le> n \<Longrightarrow> n < n_frames \<Longrightarrow> frame_addr n \<in> frames_live p \<longleftrightarrow> frame_used p n"
  by (auto simp: frames_live_def frame_addr_inj)

lemma frame_grant_cases:
  assumes "pmm_inv p" "frame_grant u p = Some (a, p')"
  obtains n where "n < n_frames" "n_reserved \<le> n" "\<not> frame_used p n" "\<forall>k < n. frame_used p k"
    "a = frame_addr n" "pmm_inv p'" "\<And>k. frame_used p' k \<longleftrightarrow> k = n \<or> frame_used p k"
  using assms(1)
proof (cases rule: pmm_alloc_frame_cases)
  case 1
  with assms(2) show ?thesis by (simp add: frame_grant_def alloc_frame_def)
next
  case (2 n q)
  with assms(2) have "a = frame_addr n" "p' = q"
    by (auto simp: frame_grant_def alloc_frame_def frame_addr_nonzero split: if_splits)
  with 2 show ?thesis by (intro that [of n]) auto
qed

lemma frame_grant_live:
  assumes "pmm_inv p" "frame_grant u p = Some (a, p')"
  shows "pmm_inv p' \<and> a \<notin> frames_live p \<and> frames_live p' = insert a (frames_live p)"
  using assms
proof (cases rule: frame_grant_cases)
  case (1 n)
  have "{k. n_reserved \<le> k \<and> k < n_frames \<and> frame_used p' k}
      = insert n {k. n_reserved \<le> k \<and> k < n_frames \<and> frame_used p k}"
    using 1 by auto
  then show ?thesis using 1 by (simp add: frames_live_def image_insert)
      (auto simp: frame_addr_inj)
qed

lemma free_frame_live:
  assumes "pmm_inv p" "a \<in> frames_live p"
  shows "pmm_inv (free_frame a p) \<and> frames_live (free_frame a p) = frames_live p - {a}"
proof -
  obtain n where n: "n_reserved \<le> n" "n < n_frames" "frame_used p n" "a = frame_addr n"
    using assms(2) by (auto simp: frames_live_def)
  note f = pmm_free_frame_used [OF assms(1) n(2,3,1)]
  have "{k. n_reserved \<le> k \<and> k < n_frames \<and> frame_used (free_frame a p) k}
      = {k. n_reserved \<le> k \<and> k < n_frames \<and> frame_used p k} - {n}"
    by (auto simp: f(2) free_frame_def n(4))
  moreover have "inj_on frame_addr {k. n_reserved \<le> k \<and> k < n_frames \<and> frame_used p k}"
    by (auto simp: inj_on_def frame_addr_inj)
  ultimately have "frames_live (free_frame a p) = frames_live p - {a}"
    using n inj_on_image_set_diff [of frame_addr _ "{k. n_reserved \<le> k \<and> k < n_frames \<and> frame_used p k}" "{n}"]
    unfolding frames_live_def by simp
  with f(1) n(4) show ?thesis by (simp add: free_frame_def)
qed

lemma frame_regions_disjoint:
  "a \<in> frames_live p \<Longrightarrow> b \<in> frames_live p \<Longrightarrow> a \<noteq> b \<Longrightarrow> frame_region p a \<inter> frame_region p b = {}"
  by (auto simp: frames_live_def frame_region_def unat_frame_addr frame_addr_inj)

interpretation frames: region_allocator frame_grant free_frame frames_live pmm_inv frame_region
  by unfold_locales
    (use frame_grant_live free_frame_live frame_regions_disjoint in \<open>auto simp: frame_region_def\<close>)

section \<open>Properties\<close>

text \<open>The state of a boot with the kernel image ending at 2 MB.\<close>

definition pmm_boot :: pmm where
  "pmm_boot = pmm_init 0x200000 \<lparr>pmm_bitmap = replicate 1024 0, pmm_total = 0, pmm_used = 0\<rparr>"

lemma pmm_boot_frames: "pmm_inv pmm_boot" "n < n_frames \<Longrightarrow> frame_used pmm_boot n \<longleftrightarrow> n < n_reserved"
  using pmm_init_frames [of "\<lparr>pmm_bitmap = replicate 1024 0, pmm_total = 0, pmm_used = 0\<rparr>" "0x200000"]
  by (simp_all add: pmm_boot_def first_free_def max_def)

lemma pmm_free_frames_count:
  assumes "pmm_inv p"
  shows "unat (pmm_free_frames p) = card {n. n < n_frames \<and> \<not> frame_used p n}"
proof -
  have "{n. n < n_frames \<and> \<not> frame_used p n} = {..<n_frames} - used_frames p"
    by (auto simp: used_frames_def)
  moreover have "used_frames p \<subseteq> {..<n_frames}" by (auto simp: used_frames_def)
  ultimately have "card {n. n < n_frames \<and> \<not> frame_used p n} = n_frames - card (used_frames p)"
    by (simp add: card_Diff_subset)
  moreover have "card (used_frames p) \<le> n_frames"
    using card_mono [OF _ \<open>used_frames p \<subseteq> _\<close>] by simp
  ultimately show ?thesis
    using assms by (simp add: pmm_free_frames_def pmm_inv_def unat_sub word_le_nat_alt)
qed

lemma pmm_boot_free: "pmm_free_frames pmm_boot = 29696"
proof -
  have "{n. n < n_frames \<and> \<not> frame_used pmm_boot n} = {n_reserved..<n_frames}"
    by (auto simp: pmm_boot_frames(2))
  then have "unat (pmm_free_frames pmm_boot) = unat (29696 :: u32)"
    using pmm_free_frames_count [OF pmm_boot_frames(1)] by simp
  then show ?thesis by (simp only: word_unat_eq_iff)
qed

text \<open>
  After \<open>pmm_init\<close>, exactly the frames below the reserved boundary (12 MB, or the
  first page behind the kernel image and the bitmap when that is higher) are used, the
  counter agrees with the bitmap, and the number of free frames is what is left.
\<close>

theorem pmm_init_reserves:
  assumes "length (pmm_bitmap p) = 1024" "unat e + 8191 < 134217728"
  shows "pmm_inv (pmm_init e p) \<and>
    (\<forall>n < n_frames. frame_used (pmm_init e p) n \<longleftrightarrow> n < first_free e) \<and>
    unat (pmm_free_frames (pmm_init e p)) = n_frames - first_free e"
proof -
  note init = pmm_init_frames [OF assms]
  then have "{n. n < n_frames \<and> \<not> frame_used (pmm_init e p) n} = {first_free e..<n_frames}"
    by auto
  with init pmm_free_frames_count [of "pmm_init e p"] show ?thesis by simp
qed

theorem pmm_init_reserves_witness:
  "unat (pmm_free_frames pmm_boot) = 29696"
  using pmm_init_reserves [of "\<lparr>pmm_bitmap = replicate 1024 0, pmm_total = 0, pmm_used = 0\<rparr>" "0x200000"]
  by (simp add: pmm_boot_def first_free_def max_def)

text \<open>
  C30. \<open>alloc_frame\<close> hands out the lowest free frame, a page-aligned address at or above
  12 MB, marks exactly this frame and takes one off the free count; it answers 0 only when
  no frame is free, and then changes nothing.
\<close>

theorem alloc_frame_first_fit:
  assumes "pmm_inv p" "alloc_frame p = (a, p')"
  shows "if a = 0 then p' = p \<and> pmm_free_frames p = 0
    else \<exists>n. a = frame_addr n \<and> n_reserved \<le> n \<and> n < n_frames \<and> \<not> frame_used p n \<and>
      (\<forall>k < n. frame_used p k) \<and> (\<forall>k. frame_used p' k \<longleftrightarrow> k = n \<or> frame_used p k) \<and>
      pmm_inv p' \<and> pmm_free_frames p' = pmm_free_frames p - 1"
  using assms(1)
proof (cases rule: pmm_alloc_frame_cases)
  case 1
  then have "unat (pmm_free_frames p) = 0"
    using pmm_free_frames_count [OF assms(1)] by simp
  with 1 assms(2) show ?thesis by (simp add: alloc_frame_def unat_eq_0)
next
  case (2 n q)
  have "pmm_free_frames q = pmm_free_frames p - 1"
    using 2 by (auto simp: pmm_alloc_frame_def pmm_free_frames_def Let_def split: option.splits)
  with 2 assms(2) show ?thesis by (auto simp: alloc_frame_def frame_addr_nonzero)
qed

theorem alloc_frame_first_fit_witness:
  "\<exists>p'. alloc_frame pmm_boot = (0xC00000, p') \<and> pmm_free_frames p' = 29695"
proof -
  obtain a p' where run: "alloc_frame pmm_boot = (a, p')" by force
  note fit = alloc_frame_first_fit [OF pmm_boot_frames(1) run]
  have nz: "a \<noteq> 0" using fit pmm_boot_free by (auto split: if_splits)
  then obtain n where n: "a = frame_addr n" "n_reserved \<le> n" "n < n_frames" "\<forall>k < n. frame_used pmm_boot k"
      "pmm_free_frames p' = pmm_free_frames pmm_boot - 1"
    using fit by auto
  have "n = n_reserved"
    using n(2-4) pmm_boot_frames(2) [of n_reserved] by (metis le_neq_implies_less less_irrefl less_trans)
  then show ?thesis using n run by (simp add: frame_addr_def pmm_boot_free)
qed

text \<open>
  The pages of any run of frame allocations are pairwise disjoint and none overlaps a
  page that was in use before; a page given back is available again and no other is.
\<close>

theorem frames_run_disjoint:
  assumes "pmm_inv p" "alloc_seq frame_grant rs p = (as, p')" "i < length as" "j < length as" "i \<noteq> j"
  shows "frame_region p' (as ! i) \<inter> frame_region p' (as ! j) = {} \<and> as ! i \<notin> frames_live p \<and>
    frames_live (free_frame (as ! i) p') = frames_live p' - {as ! i}"
  using frames.alloc_seq_disjoint [OF assms] frames.alloc_seq_fresh [OF assms(1,2)] assms(3)
    frames.release_law [of p' "as ! i"]
  by (auto dest: nth_mem)

theorem frames_run_disjoint_witness:
  "\<exists>a b p'. alloc_seq frame_grant [(), ()] pmm_boot = ([a, b], p') \<and>
     frame_region p' a \<inter> frame_region p' b = {}"
proof -
  have some: "\<exists>a p'. frame_grant () p = Some (a, p')" if "pmm_inv p" "\<exists>n < n_frames. \<not> frame_used p n" for p
    using that(1)
  proof (cases rule: pmm_alloc_frame_cases)
    case (2 n q)
    then show ?thesis by (simp add: frame_grant_def alloc_frame_def frame_addr_nonzero)
  qed (use that in auto)
  have free: "\<exists>n < n_frames. \<not> frame_used pmm_boot n"
    by (rule exI [of _ n_reserved]) (simp add: pmm_boot_frames(2))
  obtain a p1 where a: "frame_grant () pmm_boot = Some (a, p1)"
    using some [OF pmm_boot_frames(1)] free by blast
  obtain n where n: "n < n_frames" "pmm_inv p1" "\<And>k. frame_used p1 k \<longleftrightarrow> k = n \<or> frame_used pmm_boot k"
    using frame_grant_cases [OF pmm_boot_frames(1) a] by metis
  define k where "k = (if n = n_reserved then Suc n_reserved else n_reserved)"
  have k: "k < n_frames" "k \<noteq> n" "\<not> k < n_reserved" by (auto simp: k_def)
  then have "\<not> frame_used p1 k" by (simp add: n(3) pmm_boot_frames(2))
  then obtain b p2 where b: "frame_grant () p1 = Some (b, p2)"
    using some [OF n(2)] k(1) by blast
  have run: "alloc_seq frame_grant [(), ()] pmm_boot = ([a, b], p2)" using a b by simp
  have "frame_region p2 ([a, b] ! 0) \<inter> frame_region p2 ([a, b] ! 1) = {}"
    using frames_run_disjoint [OF pmm_boot_frames(1) run, of 0 1] by simp
  with run show ?thesis by auto
qed

text \<open>
  \<open>pmm_free_frame\<close> does not look whether the frame is used: freeing a frame twice takes
  two off the counter but only one bit out of the bitmap, so the counter drifts.
\<close>

lemma double_free_drifts:
  assumes "pmm_inv p" "n_reserved \<le> n" "n < n_frames" "frame_used p n"
  shows "\<not> pmm_inv (pmm_free_frame (frame_addr n) (pmm_free_frame (frame_addr n) p))"
proof -
  let ?f = "frame_addr n div PMM_FRAME_SIZE" and ?q = "pmm_free_frame (frame_addr n) p"
  note one = pmm_free_frame_used [OF assms(1,3,4,2)]
  have f: "unat ?f = n" using assms(3) by (rule frame_addr_div)
  have lt: "\<not> pmm_total ?q \<le> ?f"
    using one(1) assms(3) f by (simp add: pmm_inv_def word_le_nat_alt)
  have eq: "pmm_free_frame (frame_addr n) ?q = (pmm_set_free ?f ?q)\<lparr>pmm_used := pmm_used ?q - 1\<rparr>"
    using lt by (subst pmm_free_frame_def) (simp add: Let_def)
  have "frame_used (pmm_free_frame (frame_addr n) ?q) k \<longleftrightarrow> frame_used ?q k" for k
    using one assms(3) frame_used_set_free [of ?q ?f k] f unfolding eq by (auto simp: pmm_inv_def)
  then have "used_frames (pmm_free_frame (frame_addr n) ?q) = used_frames ?q" by (simp add: used_frames_def)
  moreover have "pmm_used (pmm_free_frame (frame_addr n) ?q) = pmm_used ?q - 1" by (simp add: eq)
  moreover have "x - 1 \<noteq> x" for x :: u32 by (simp add: diff_eq_eq)
  ultimately show ?thesis using one(1) unfolding pmm_inv_def by (metis word_unat_eq_iff)
qed

end
