(* ===== verification/Vmm.thy ===== *)
theory Vmm
  imports Pmm
begin

text \<open>
  The virtual memory manager, \<open>kernel/vmm/vmm.c\<close>: two-level page tables in frames of
  the physical memory manager. Memory is a function from the byte address of an aligned
  32-bit word to its value, read and written at physical addresses: what the code's
  pointers denote before paging is on, and after it for the tables below 32 MB, which
  \<open>vmm_init\<close> maps to themselves. The registers CR0 and CR3 are fields of the state; the
  \<open>invlpg\<close> instruction only drops a cached translation, and a translation here is
  always the one of the tables in memory.
\<close>

abbreviation "PAGE_PRESENT \<equiv> (1 :: u32)"
abbreviation "PAGE_WRITE \<equiv> (2 :: u32)"
abbreviation "PAGE_USER \<equiv> (4 :: u32)"

record vm =
  vm_pmm :: pmm
  vm_mem :: "u32 \<Rightarrow> u32"
  page_directory :: u32
  vm_cr3 :: u32
  vm_cr0 :: u32

text \<open>Entry \<open>i\<close> of the table at \<open>base\<close>, and the page part \<open>x & ~0xFFF\<close> of a word.\<close>

definition ent :: "u32 \<Rightarrow> u32 \<Rightarrow> u32" where
  "ent base i = base + 4 * i"

definition page_base :: "u32 \<Rightarrow> u32" where
  "page_base x = x AND NOT 0xFFF"

definition dir_idx :: "u32 \<Rightarrow> u32" where
  "dir_idx virt = drop_bit 22 virt"

definition table_idx :: "u32 \<Rightarrow> u32" where
  "table_idx virt = drop_bit 12 virt AND 0x3FF"

definition rd :: "vm \<Rightarrow> u32 \<Rightarrow> u32" where
  "rd s a = vm_mem s a"

definition wr :: "u32 \<Rightarrow> u32 \<Rightarrow> vm \<Rightarrow> vm" where
  "wr a v s = s\<lparr>vm_mem := (vm_mem s)(a := v)\<rparr>"

text \<open>\<open>memset(p, 0, PMM_FRAME_SIZE)\<close>, by words.\<close>

definition clear_frame :: "u32 \<Rightarrow> vm \<Rightarrow> vm" where
  "clear_frame p s = fold (\<lambda>i. wr (ent p (of_nat i)) 0) [0..<1024] s"

definition vm_alloc :: "vm \<Rightarrow> u32 \<times> vm" where
  "vm_alloc s = (let (f, p) = pmm_alloc_frame (vm_pmm s) in (f, s\<lparr>vm_pmm := p\<rparr>))"

text \<open>The loop over the first eight directory entries; \<open>False\<close> is its early return.\<close>

function vmm_init_tables :: "u32 \<Rightarrow> vm \<Rightarrow> bool \<times> vm" where
  "vmm_init_tables mb s =
     (if mb < 8 then
        let (pt, s) = vm_alloc s in
        if pt = 0 then (False, s)
        else
          let s = fold (\<lambda>i. wr (ent pt (of_nat i))
                ((mb * 1024 + of_nat i) * PMM_FRAME_SIZE OR PAGE_PRESENT OR PAGE_WRITE OR PAGE_USER)) [0..<1024] s;
              s = wr (ent (page_directory s) mb) (pt OR PAGE_PRESENT OR PAGE_WRITE OR PAGE_USER) s
          in vmm_init_tables (mb + 1) s
      else (True, s))"
  by pat_completeness auto
termination
proof (relation "measure (\<lambda>(mb, s). 8 - unat mb)", simp, goal_cases)
  case (1 mb s)
  then have "unat (mb + 1) = unat mb + 1"
    by (subst unat_plus_small) (auto simp: word_less_nat_alt)
  with 1 show ?case by (simp add: word_less_nat_alt)
qed

declare vmm_init_tables.simps [simp del]

definition vmm_init :: "vm \<Rightarrow> vm" where
  "vmm_init s =
     (let (pd, s) = vm_alloc s; s = s\<lparr>page_directory := pd\<rparr> in
      if pd = 0 then s
      else
        let s = clear_frame pd s; (ok, s) = vmm_init_tables 0 s in
        if \<not> ok then s
        else
          let s = fold (\<lambda>i. wr (ent (page_directory s) (of_nat i)) 0x00000002) [8..<1024] s
          in s\<lparr>vm_cr3 := page_directory s, vm_cr0 := vm_cr0 s OR 0x80000000\<rparr>)"

definition vmm_map_page :: "u32 \<Rightarrow> u32 \<Rightarrow> u32 \<Rightarrow> vm \<Rightarrow> vm" where
  "vmm_map_page virt phys flags s =
     (let pde = ent (page_directory s) (dir_idx virt);
          (ok, s) =
            (if rd s pde AND PAGE_PRESENT = 0 then
               let (frame, s) = vm_alloc s in
               if frame = 0 then (False, s)
               else (True, wr pde (frame OR PAGE_PRESENT OR PAGE_WRITE) (clear_frame frame s))
             else (True, s))
      in if \<not> ok then s
         else wr (ent (page_base (rd s pde)) (table_idx virt))
                (page_base phys OR (flags AND 0xFFF) OR PAGE_PRESENT) s)"

definition map_page :: "u32 \<Rightarrow> u32 \<Rightarrow> u32 \<Rightarrow> vm \<Rightarrow> vm" where
  "map_page virt phys flags s = vmm_map_page virt phys flags s"

definition unmap_page :: "u32 \<Rightarrow> vm \<Rightarrow> vm" where
  "unmap_page virt s =
     (let pde = rd s (ent (page_directory s) (dir_idx virt)) in
      if pde AND PAGE_PRESENT = 0 then s
      else wr (ent (page_base pde) (table_idx virt)) 0 s)"

definition vmm_copy_kernel_space :: "u32 \<Rightarrow> vm \<Rightarrow> vm" where
  "vmm_copy_kernel_space new_dir s =
     fold (\<lambda>i s. wr (ent new_dir (of_nat i)) (rd s (ent (page_directory s) (of_nat i))) s) [0..<1024] s"

definition vmm_create_address_space :: "vm \<Rightarrow> u32 \<times> vm" where
  "vmm_create_address_space s =
     (let (new_dir, s) = vm_alloc s in
      if new_dir = 0 then (0, s)
      else (new_dir, vmm_copy_kernel_space new_dir (clear_frame new_dir s)))"

definition vmm_map_page_in_dir :: "u32 \<Rightarrow> u32 \<Rightarrow> u32 \<Rightarrow> u32 \<Rightarrow> vm \<Rightarrow> vm" where
  "vmm_map_page_in_dir dir virt phys flags s =
     (let pde = ent dir (dir_idx virt);
          (ok, s) =
            (if rd s pde AND PAGE_PRESENT = 0 then
               let (frame, s) = vm_alloc s in
               if frame = 0 then (False, s)
               else (True, wr pde (frame OR PAGE_PRESENT OR PAGE_WRITE OR (flags AND PAGE_USER)) (clear_frame frame s))
             else (True, s))
      in if \<not> ok then s
         else wr (ent (page_base (rd s pde)) (table_idx virt))
                (page_base phys OR (flags AND 0xFFF) OR PAGE_PRESENT) s)"

definition vmm_get_kernel_pd :: "vm \<Rightarrow> u32" where
  "vmm_get_kernel_pd s = page_directory s"

section \<open>Pages and entries as words\<close>

lemma page_base_or: "page_base (a OR b) = page_base a OR page_base b"
  unfolding page_base_def by (rule bit.conj_disj_distrib2)

lemma page_base_low: "page_base (x AND 0xFFF) = 0"
  unfolding page_base_def by (simp only: and.assoc bit.conj_cancel_right and_zero_eq)

lemma page_base_idem [simp]: "page_base (page_base x) = page_base x"
  unfolding page_base_def by (simp only: and.assoc and.idem)

lemma page_base_numerals [simp]: "page_base 0 = 0" "page_base 1 = 0" "page_base 2 = 0" "page_base 7 = 0"
  "page_base (x AND 4) = 0"
proof -
  have "page_base (x AND 4) = page_base ((x AND 4) AND 0xFFF)" by (simp add: and.assoc)
  then show "page_base (x AND 4) = 0" by (simp only: page_base_low)
qed (simp_all add: page_base_def)

lemma page_base_frame [simp]: "n < n_frames \<Longrightarrow> page_base (frame_addr n) = frame_addr n"
  unfolding page_base_def word_unat_eq_iff unat_page_mask by (simp add: unat_frame_addr)

lemma present_or [simp]: "(x OR 1) AND 1 \<noteq> (0 :: u32)"
  by (simp add: and_one_eq odd_iff_mod_2_eq_one [symmetric] flip: bit_0) (simp add: bit_simps)

lemma idx_less: "unat (dir_idx v) < 1024" "unat (table_idx v) < 1024"
proof -
  have "unat (dir_idx v) = unat v div 2 ^ 22"
    unfolding dir_idx_def by (rule unat_drop_bit)
  also have "\<dots> < 1024" using u32_lt [of v] by (simp add: less_mult_imp_div_less)
  finally show "unat (dir_idx v) < 1024" .
  have "table_idx v \<le> 0x3FF" unfolding table_idx_def by (rule word_and_le1)
  then show "unat (table_idx v) < 1024" by (simp add: word_le_nat_alt)
qed

text \<open>Two addresses are in one page when both indices agree.\<close>

lemma same_page: "drop_bit 12 v = drop_bit 12 w \<longleftrightarrow> dir_idx v = dir_idx w \<and> table_idx v = table_idx w"
proof
  assume eq: "drop_bit 12 v = drop_bit 12 w"
  have "dir_idx x = drop_bit 10 (drop_bit 12 x)" for x by (simp add: dir_idx_def drop_bit_drop_bit)
  with eq show "dir_idx v = dir_idx w \<and> table_idx v = table_idx w"
    by (simp only: table_idx_def)
next
  assume r: "dir_idx v = dir_idx w \<and> table_idx v = table_idx w"
  have m: "(0x3FF :: u32) = mask 10" by (simp add: mask_eq_exp_minus_1)
  have split: "x = push_bit 10 (drop_bit 10 x) + take_bit 10 x" for x :: u32
    by (rule bits_ident [symmetric])
  have "drop_bit 10 (drop_bit 12 x) = dir_idx x" "take_bit 10 (drop_bit 12 x) = table_idx x" for x :: u32
    by (simp add: dir_idx_def drop_bit_drop_bit) (simp only: table_idx_def m take_bit_eq_mask)
  then show "drop_bit 12 v = drop_bit 12 w"
    using r split [of "drop_bit 12 v"] split [of "drop_bit 12 w"] by metis
qed

definition is_frame :: "u32 \<Rightarrow> bool" where
  "is_frame a \<longleftrightarrow> (\<exists>n < n_frames. a = frame_addr n)"

lemma live_is_frame: "a \<in> frames_live p \<Longrightarrow> is_frame a"
  by (auto simp: frames_live_def is_frame_def)

lemma unat_ent:
  assumes "is_frame d" "unat i < 1024"
  shows "unat (ent d i) = unat d + 4 * unat i"
proof -
  have d: "unat d \<le> 134213632" using assms(1) by (auto simp: is_frame_def unat_frame_addr)
  have "unat (4 * i) = 4 * unat i" using assms(2) by (simp add: unat_word_ariths)
  with d assms(2) show ?thesis by (simp add: ent_def unat_plus_small)
qed

lemma ent_inj:
  assumes "is_frame d" "unat i < 1024" "is_frame e" "unat j < 1024"
  shows "ent d i = ent e j \<longleftrightarrow> d = e \<and> i = j"
proof
  assume "ent d i = ent e j"
  then have eq: "unat d + 4 * unat i = unat e + 4 * unat j"
    using unat_ent [OF assms(1,2)] unat_ent [OF assms(3,4)] by simp
  obtain m n where mn: "m < n_frames" "n < n_frames" "d = frame_addr m" "e = frame_addr n"
    using assms(1,3) by (auto simp: is_frame_def)
  then have "m * 4096 + 4 * unat i = n * 4096 + 4 * unat j" using eq by (simp add: unat_frame_addr)
  then have "m = n" using assms(2,4) by linarith
  with eq mn show "d = e \<and> i = j" by (simp add: word_unat_eq_iff)
qed simp

section \<open>Reads after writes\<close>

lemma rd_wr [simp]: "rd (wr a v s) b = (if b = a then v else rd s b)"
  by (simp add: rd_def wr_def)

lemma wr_fields [frame_simps, simp]:
  "vm_pmm (wr a v s) = vm_pmm s" "page_directory (wr a v s) = page_directory s"
  "vm_cr3 (wr a v s) = vm_cr3 s" "vm_cr0 (wr a v s) = vm_cr0 s"
  by (simp_all add: wr_def)

text \<open>A table filled entry by entry; the value may depend on the index only.\<close>

lemma fold_wr_fields [frame_simps, simp]:
  "vm_pmm (fold (\<lambda>i. wr (f i) (g i)) is s) = vm_pmm s"
  "page_directory (fold (\<lambda>i. wr (f i) (g i)) is s) = page_directory s"
  "vm_cr0 (fold (\<lambda>i. wr (f i) (g i)) is s) = vm_cr0 s"
  "vm_cr3 (fold (\<lambda>i. wr (f i) (g i)) is s) = vm_cr3 s"
  by (induction "is" arbitrary: s) simp_all

lemma fold_wr_other: "(\<forall>i \<in> set is. a \<noteq> f i) \<Longrightarrow> rd (fold (\<lambda>i. wr (f i) (g i)) is s) a = rd s a"
  by (induction "is" arbitrary: s) simp_all

lemma fold_wr_at:
  "k \<in> set is \<Longrightarrow> distinct is \<Longrightarrow> inj_on f (set is) \<Longrightarrow> rd (fold (\<lambda>i. wr (f i) (g i)) is s) (f k) = g k"
proof (induction "is" arbitrary: s)
  case (Cons i ks)
  show ?case
  proof (cases "k = i")
    case True
    have "\<forall>j \<in> set ks. f i \<noteq> f j"
      using Cons.prems(2,3) by (auto simp: inj_on_def)
    with True show ?thesis by (simp add: fold_wr_other)
  next
    case False
    with Cons show ?thesis by simp
  qed
qed simp

lemma ent_of_nat_inj: "is_frame d \<Longrightarrow> inj_on (\<lambda>i. ent d (of_nat i)) {..<1024}"
proof (rule inj_onI)
  fix i j :: nat
  assume "is_frame d" "i \<in> {..<1024}" "j \<in> {..<1024}" "ent d (of_nat i) = ent d (of_nat j)"
  moreover from this have "unat (of_nat i :: u32) = i" "unat (of_nat j :: u32) = j"
    by (simp_all add: unat_of_nat_small)
  ultimately show "i = j" using ent_inj [of d "of_nat i" d "of_nat j"] by (metis lessThan_iff)
qed

lemma table_fill:
  assumes "is_frame d" "set is \<subseteq> {..<1024}" "distinct is" "is_frame e" "unat j < 1024"
  shows "rd (fold (\<lambda>i. wr (ent d (of_nat i)) (g i)) is s) (ent e j) =
    (if e = d \<and> unat j \<in> set is then g (unat j) else rd s (ent e j))"
proof (cases "e = d \<and> unat j \<in> set is")
  case True
  have "inj_on (\<lambda>i. ent d (of_nat i)) (set is)"
    using ent_of_nat_inj [OF assms(1)] assms(2) by (rule inj_on_subset)
  from fold_wr_at [OF _ assms(3) this, of "unat j" g s] True show ?thesis by simp
next
  case False
  have "ent e j \<noteq> ent d (of_nat i)" if "i \<in> set is" for i
  proof -
    have "unat (of_nat i :: u32) = i" "i < 1024" using that assms(2) by (auto simp: unat_of_nat_small)
    then show ?thesis
      using ent_inj [OF assms(4,5,1), of "of_nat i"] False that by auto
  qed
  then have "rd (fold (\<lambda>i. wr (ent d (of_nat i)) (g i)) is s) (ent e j) = rd s (ent e j)"
    by (intro fold_wr_other) blast
  with False show ?thesis by auto
qed

lemma clear_frame_fields [frame_simps, simp]:
  "vm_pmm (clear_frame p s) = vm_pmm s" "page_directory (clear_frame p s) = page_directory s"
  "vm_cr0 (clear_frame p s) = vm_cr0 s" "vm_cr3 (clear_frame p s) = vm_cr3 s"
  by (simp_all only: clear_frame_def fold_wr_fields)

lemma clear_frame_rd:
  assumes "is_frame d" "is_frame e" "unat j < 1024"
  shows "rd (clear_frame d s) (ent e j) = (if e = d then 0 else rd s (ent e j))"
proof -
  have "set [0..<1024] \<subseteq> {..<1024 :: nat}" by (simp only: set_upt) auto
  from table_fill [OF assms(1) this distinct_upt assms(2,3), of "\<lambda>_. 0" s]
  show ?thesis using assms(3) by (simp only: clear_frame_def set_upt atLeastLessThan_iff) simp
qed

section \<open>Translation\<close>

definition present :: "vm \<Rightarrow> u32 \<Rightarrow> u32 \<Rightarrow> bool" where
  "present s d i \<longleftrightarrow> rd s (ent d i) AND PAGE_PRESENT \<noteq> 0"

definition tbl :: "vm \<Rightarrow> u32 \<Rightarrow> u32 \<Rightarrow> u32" where
  "tbl s d i = page_base (rd s (ent d i))"

text \<open>What the processor makes of a virtual address with CR3 = \<open>dir\<close>.\<close>

definition walk :: "vm \<Rightarrow> u32 \<Rightarrow> u32 \<Rightarrow> u32 option" where
  "walk s dir va =
     (if present s dir (dir_idx va) then
        let pte = rd s (ent (tbl s dir (dir_idx va)) (table_idx va)) in
        if pte AND PAGE_PRESENT \<noteq> 0 then Some (page_base pte OR (va AND 0xFFF)) else None
      else None)"

text \<open>
  The directories \<open>ds\<close> in use: they and their tables are allocated frames, no table is a
  directory, and a table shared by two directories sits at the same index of both.
\<close>

definition vm_ok :: "vm \<Rightarrow> u32 set \<Rightarrow> bool" where
  "vm_ok s ds \<longleftrightarrow> pmm_inv (vm_pmm s) \<and> ds \<subseteq> frames_live (vm_pmm s) \<and>
     (\<forall>d \<in> ds. \<forall>i. unat i < 1024 \<longrightarrow> present s d i \<longrightarrow>
        tbl s d i \<in> frames_live (vm_pmm s) - ds \<and>
        (\<forall>e \<in> ds. \<forall>j. unat j < 1024 \<longrightarrow> present s e j \<longrightarrow> tbl s d i = tbl s e j \<longrightarrow> i = j))"

definition shares :: "vm \<Rightarrow> u32 \<Rightarrow> u32 \<Rightarrow> u32 \<Rightarrow> bool" where
  "shares s e d i \<longleftrightarrow> present s e i \<and> present s d i \<and> tbl s e i = tbl s d i"

lemma vm_okD:
  assumes "vm_ok s ds"
  shows "pmm_inv (vm_pmm s)" "d \<in> ds \<Longrightarrow> d \<in> frames_live (vm_pmm s)" "d \<in> ds \<Longrightarrow> is_frame d"
    "d \<in> ds \<Longrightarrow> unat i < 1024 \<Longrightarrow> present s d i \<Longrightarrow> tbl s d i \<in> frames_live (vm_pmm s)"
    "d \<in> ds \<Longrightarrow> unat i < 1024 \<Longrightarrow> present s d i \<Longrightarrow> tbl s d i \<notin> ds"
    "d \<in> ds \<Longrightarrow> unat i < 1024 \<Longrightarrow> present s d i \<Longrightarrow> is_frame (tbl s d i)"
    "d \<in> ds \<Longrightarrow> unat i < 1024 \<Longrightarrow> present s d i \<Longrightarrow> e \<in> ds \<Longrightarrow> unat j < 1024 \<Longrightarrow>
       present s e j \<Longrightarrow> tbl s d i = tbl s e j \<Longrightarrow> i = j"
  using assms live_is_frame unfolding vm_ok_def by blast+

lemma vm_alloc_cases:
  assumes "pmm_inv (vm_pmm s)"
  obtains "vm_alloc s = (0, s)" "unat (pmm_free_frames (vm_pmm s)) = 0"
  | f p where "vm_alloc s = (f, s\<lparr>vm_pmm := p\<rparr>)" "f \<noteq> 0" "f \<notin> frames_live (vm_pmm s)" "pmm_inv p"
      "frames_live p = insert f (frames_live (vm_pmm s))"
      "unat (pmm_free_frames (vm_pmm s)) = Suc (unat (pmm_free_frames p))"
proof (cases rule: pmm_alloc_frame_cases [OF assms])
  case 1
  then have "unat (pmm_free_frames (vm_pmm s)) = 0"
    using pmm_free_frames_count [OF assms] by simp
  with 1 that(1) show ?thesis by (simp add: vm_alloc_def)
next
  case (2 n q)
  have grant: "frame_grant () (vm_pmm s) = Some (frame_addr n, q)"
    using 2 by (simp add: frame_grant_def alloc_frame_def frame_addr_nonzero)
  have "{k. k < n_frames \<and> \<not> frame_used (vm_pmm s) k} = insert n {k. k < n_frames \<and> \<not> frame_used q k}"
    using 2 by auto
  then have "unat (pmm_free_frames (vm_pmm s)) = Suc (unat (pmm_free_frames q))"
    unfolding pmm_free_frames_count [OF assms] pmm_free_frames_count [OF 2(6)] by (simp add: 2(7))
  with frame_grant_live [OF assms grant] 2 show ?thesis
    by (intro that(2)) (auto simp: vm_alloc_def frame_addr_nonzero)
qed

lemma vm_pmm_upd [simp]: "rd (s\<lparr>vm_pmm := p\<rparr>) a = rd s a" "present (s\<lparr>vm_pmm := p\<rparr>) d i = present s d i"
  "tbl (s\<lparr>vm_pmm := p\<rparr>) d i = tbl s d i" "walk (s\<lparr>vm_pmm := p\<rparr>) d va = walk s d va"
  by (simp_all add: rd_def present_def tbl_def walk_def)

lemma frame_not_numeral: "is_frame f \<Longrightarrow> page_base (f OR w) = f OR page_base w"
  by (auto simp: is_frame_def page_base_or)

section \<open>Entering a page into a directory\<close>

text \<open>The part the two mapping functions share; \<open>w\<close> are the flags of a new directory entry.\<close>

definition map_in :: "u32 \<Rightarrow> u32 \<Rightarrow> u32 \<Rightarrow> u32 \<Rightarrow> u32 \<Rightarrow> vm \<Rightarrow> vm" where
  "map_in dir w virt phys flags s =
     (let pde = ent dir (dir_idx virt);
          (ok, s) =
            (if rd s pde AND PAGE_PRESENT = 0 then
               let (frame, s) = vm_alloc s in
               if frame = 0 then (False, s)
               else (True, wr pde (frame OR w) (clear_frame frame s))
             else (True, s))
      in if \<not> ok then s
         else wr (ent (page_base (rd s pde)) (table_idx virt))
                (page_base phys OR (flags AND 0xFFF) OR PAGE_PRESENT) s)"

lemma map_in_code:
  "vmm_map_page virt phys flags s = map_in (page_directory s) (PAGE_PRESENT OR PAGE_WRITE) virt phys flags s"
  "vmm_map_page_in_dir dir virt phys flags s
     = map_in dir (PAGE_PRESENT OR PAGE_WRITE OR (flags AND PAGE_USER)) virt phys flags s"
  by (simp_all only: vmm_map_page_def vmm_map_page_in_dir_def map_in_def)

text \<open>Step one: a fresh, empty table for a directory entry that is not present.\<close>

lemma fresh_table:
  assumes ok: "vm_ok s ds" and d: "d \<in> ds" "unat i < 1024" "\<not> present s d i"
    and f: "f \<notin> frames_live (vm_pmm s)" "pmm_inv p" "frames_live p = insert f (frames_live (vm_pmm s))"
    and w: "page_base w = 0" "w AND 1 \<noteq> 0"
    and t: "vm_pmm t = p"
      "\<forall>e j. is_frame e \<longrightarrow> unat j < 1024 \<longrightarrow> e \<noteq> f \<longrightarrow> rd t (ent e j) = rd s (ent e j)"
    and s': "s' = wr (ent d i) (f OR w) t"
  shows "vm_ok s' ds" "present s' d i" "tbl s' d i = f"
    "\<And>e j. e \<in> ds \<Longrightarrow> unat j < 1024 \<Longrightarrow> present s' e j \<longleftrightarrow> present s e j \<or> e = d \<and> j = i"
    "\<And>e j. e \<in> ds \<Longrightarrow> unat j < 1024 \<Longrightarrow> tbl s' e j = (if e = d \<and> j = i then f else tbl s e j)"
    "\<And>e va. e \<in> ds \<Longrightarrow> rd t (ent f (table_idx va)) = 0 \<Longrightarrow> walk s' e va = walk s e va"
    "\<And>e j. e \<in> ds \<Longrightarrow> unat j < 1024 \<Longrightarrow> shares s' e d j \<longleftrightarrow> shares s e d j \<or> e = d \<and> j = i"
    "\<And>x j. x \<in> frames_live p \<Longrightarrow> x \<notin> ds \<Longrightarrow> unat j < 1024 \<Longrightarrow> rd s' (ent x j) = rd t (ent x j)"
proof -
  have fr: "is_frame f" using f(3) live_is_frame [of f p] by simp
  have fds: "f \<notin> ds" using f(1) vm_okD(2) [OF ok] by blast
  have ent_ds: "rd s' (ent e j) = (if e = d \<and> j = i then f OR w else rd s (ent e j))"
    if "e \<in> ds" "unat j < 1024" for e j
    using that d fds fr vm_okD(3) [OF ok] t(2) unfolding s' by (auto simp: ent_inj)
  show other: "rd s' (ent x j) = rd t (ent x j)"
    if "x \<in> frames_live p" "x \<notin> ds" "unat j < 1024" for x j
    using that d live_is_frame vm_okD(3) [OF ok] unfolding s' by (auto simp: ent_inj)
  have ent_tbl: "rd s' (ent x j) = rd s (ent x j)"
    if "x \<in> frames_live (vm_pmm s)" "x \<notin> ds" "unat j < 1024" for x j
    using other [of x j] that f(1,3) t(2) live_is_frame by auto
  have one: "(f OR w) AND 1 \<noteq> 0"
    using w(2) by (simp only: bit.conj_disj_distrib2 or_eq_0_iff) simp
  show pres: "present s' e j \<longleftrightarrow> present s e j \<or> e = d \<and> j = i" if "e \<in> ds" "unat j < 1024" for e j
    using ent_ds [OF that] one by (auto simp: present_def)
  show tb: "tbl s' e j = (if e = d \<and> j = i then f else tbl s e j)" if "e \<in> ds" "unat j < 1024" for e j
    using ent_ds [OF that] fr w(1) by (simp add: tbl_def frame_not_numeral)
  have new: "tbl s e j \<noteq> f" if "e \<in> ds" "unat j < 1024" "present s e j" for e j
    using vm_okD(4) [OF ok that] f(1) by blast
  show "present s' d i" "tbl s' d i = f" using pres tb d(1,2) by simp_all
  have pm: "vm_pmm s' = p" by (simp add: s' t(1))
  show "vm_ok s' ds"
    unfolding vm_ok_def pm
  proof (intro conjI ballI allI impI)
    show "pmm_inv p" by fact
    show "ds \<subseteq> frames_live p" using vm_okD(2) [OF ok] f(3) by blast
    fix a j assume a: "a \<in> ds" "unat j < 1024" "present s' a j"
    show "tbl s' a j \<in> frames_live p - ds"
      using a pres [OF a(1,2)] tb [OF a(1,2)] f(3) fds vm_okD(4,5) [OF ok a(1,2)] by auto
    fix e k assume e: "e \<in> ds" "unat k < 1024" "present s' e k" "tbl s' a j = tbl s' e k"
    then show "j = k"
      using a d(3) pres [OF a(1,2)] tb [OF a(1,2)] pres [OF e(1,2)] tb [OF e(1,2)]
        new [OF a(1,2)] new [OF e(1,2)] vm_okD(7) [OF ok a(1,2) _ e(1,2)]
      by (auto split: if_splits)
  qed
  show "walk s' e va = walk s e va" if e: "e \<in> ds" and z: "rd t (ent f (table_idx va)) = 0" for e va
  proof (cases "e = d \<and> dir_idx va = i")
    case True
    have "rd s' (ent f (table_idx va)) = 0"
      using other [of f "table_idx va"] f(3) fds idx_less(2) z by simp
    with True pres tb d idx_less(1) [of va] show ?thesis
      by (simp add: walk_def)
  next
    case False
    note i = idx_less(1) [of va]
    have "present s e (dir_idx va) \<Longrightarrow>
        rd s' (ent (tbl s e (dir_idx va)) (table_idx va)) = rd s (ent (tbl s e (dir_idx va)) (table_idx va))"
      by (intro ent_tbl vm_okD(4,5) [OF ok e i] idx_less)
    with False pres [OF e i] tb [OF e i] show ?thesis by (auto simp: walk_def)
  qed
  show "shares s' e d j \<longleftrightarrow> shares s e d j \<or> e = d \<and> j = i" if e: "e \<in> ds" "unat j < 1024" for e j
    using pres [OF e] pres [OF d(1) e(2)] tb [OF e] tb [OF d(1) e(2)] new [OF e] d(3)
    unfolding shares_def by auto
qed

text \<open>Step two: one entry of a table that is present.\<close>

lemma table_entry:
  assumes ok: "vm_ok s ds" and d: "d \<in> ds" "present s d (dir_idx virt)"
    and s': "s' = wr (ent (tbl s d (dir_idx virt)) (table_idx virt)) v s"
  shows "vm_ok s' ds"
    "\<And>e va. e \<in> ds \<Longrightarrow> walk s' e va =
      (if drop_bit 12 va = drop_bit 12 virt \<and> shares s e d (dir_idx virt)
       then if v AND PAGE_PRESENT \<noteq> 0 then Some (page_base v OR (va AND 0xFFF)) else None
       else walk s e va)"
proof -
  let ?t = "tbl s d (dir_idx virt)"
  note t = vm_okD(5,6) [OF ok d(1) idx_less(1) d(2)]
  have ent_ds: "rd s' (ent e j) = rd s (ent e j)" if "e \<in> ds" "unat j < 1024" for e j
    using that t idx_less vm_okD(3) [OF ok] unfolding s' by (auto simp: ent_inj)
  then have same: "present s' e j \<longleftrightarrow> present s e j" "tbl s' e j = tbl s e j" if "e \<in> ds" "unat j < 1024" for e j
    using that by (simp_all add: present_def tbl_def)
  have pm: "vm_pmm s' = vm_pmm s" by (simp add: s')
  show "vm_ok s' ds" using ok same unfolding vm_ok_def pm by simp
  show "walk s' e va =
      (if drop_bit 12 va = drop_bit 12 virt \<and> shares s e d (dir_idx virt)
       then if v AND PAGE_PRESENT \<noteq> 0 then Some (page_base v OR (va AND 0xFFF)) else None
       else walk s e va)" if e: "e \<in> ds" for e va
  proof (cases "present s e (dir_idx va)")
    case False
    with same e idx_less(1) show ?thesis by (auto simp: walk_def shares_def same_page)
  next
    case True
    let ?e = "tbl s e (dir_idx va)"
    have "rd s' (ent ?e (table_idx va)) = (if ?e = ?t \<and> table_idx va = table_idx virt then v else rd s (ent ?e (table_idx va)))"
      using t(2) vm_okD(6) [OF ok e idx_less(1) True] idx_less unfolding s' by (auto simp: ent_inj)
    moreover have "?e = ?t \<Longrightarrow> dir_idx va = dir_idx virt"
      by (rule vm_okD(7) [OF ok e idx_less(1) True d(1) idx_less(1) d(2)])
    ultimately show ?thesis
      using same [OF e idx_less(1)] True d(2) by (auto simp: walk_def shares_def same_page Let_def)
  qed
qed

lemma pte_bits:
  "page_base (page_base phys OR (flags AND 0xFFF) OR PAGE_PRESENT) = page_base phys"
  "(page_base phys OR (flags AND 0xFFF) OR PAGE_PRESENT) AND PAGE_PRESENT \<noteq> 0"
  by (simp only: page_base_or page_base_low page_base_idem page_base_numerals or.right_neutral)
    (simp only: or.assoc [symmetric] present_or not_False_eq_True)

lemma map_in_correct:
  assumes ok: "vm_ok s ds" and d: "dir \<in> ds" and w: "page_base w = 0" "w AND 1 \<noteq> 0"
  shows "(if \<not> present s dir (dir_idx virt) \<and> unat (pmm_free_frames (vm_pmm s)) = 0
      then map_in dir w virt phys flags s = s
      else vm_ok (map_in dir w virt phys flags s) ds \<and>
        (\<forall>e va. e \<in> ds \<longrightarrow> walk (map_in dir w virt phys flags s) e va =
          (if drop_bit 12 va = drop_bit 12 virt \<and> (e = dir \<or> shares s e dir (dir_idx virt))
           then Some (page_base phys OR (va AND 0xFFF)) else walk s e va)))"
proof (cases "present s dir (dir_idx virt)")
  case True
  then have run: "map_in dir w virt phys flags s
      = wr (ent (tbl s dir (dir_idx virt)) (table_idx virt)) (page_base phys OR (flags AND 0xFFF) OR PAGE_PRESENT) s"
    by (simp add: map_in_def present_def tbl_def)
  note e = table_entry [OF ok d True run]
  have "e = dir \<or> shares s e dir (dir_idx virt) \<longleftrightarrow> shares s e dir (dir_idx virt)" for e
    using True by (auto simp: shares_def)
  then show ?thesis using e True by (simp add: pte_bits)
next
  case False
  show ?thesis
  proof (cases rule: vm_alloc_cases [OF vm_okD(1) [OF ok]])
    case 1
    with False show ?thesis by (simp add: map_in_def present_def)
  next
    case (2 f p)
    define s1 where "s1 = wr (ent dir (dir_idx virt)) (f OR w) (clear_frame f (s\<lparr>vm_pmm := p\<rparr>))"
    have fr: "is_frame f" using 2(5) live_is_frame [of f p] by simp
    have pm: "vm_pmm (clear_frame f (s\<lparr>vm_pmm := p\<rparr>)) = p" by simp
    have cl: "\<forall>e j. is_frame e \<longrightarrow> unat j < 1024 \<longrightarrow> e \<noteq> f \<longrightarrow>
        rd (clear_frame f (s\<lparr>vm_pmm := p\<rparr>)) (ent e j) = rd s (ent e j)"
      using fr by (simp add: clear_frame_rd)
    have zero: "rd (clear_frame f (s\<lparr>vm_pmm := p\<rparr>)) (ent f (table_idx va)) = 0" for va
      using fr by (simp add: clear_frame_rd idx_less)
    note n = fresh_table [OF ok d idx_less(1) False 2(3,4,5) w pm cl s1_def]
    have run: "map_in dir w virt phys flags s
        = wr (ent (tbl s1 dir (dir_idx virt)) (table_idx virt)) (page_base phys OR (flags AND 0xFFF) OR PAGE_PRESENT) s1"
      using 2(1,2) False unfolding map_in_def s1_def by (simp add: present_def tbl_def)
    note e = table_entry [OF n(1) d n(2) run]
    have "shares s1 e dir (dir_idx virt) \<longleftrightarrow> e = dir \<or> shares s e dir (dir_idx virt)" if "e \<in> ds" for e
      using n(7) [OF that idx_less(1)] by auto
    then show ?thesis using e n(6) [OF _ zero] 2(6) by (auto simp: pte_bits)
  qed
qed

section \<open>A new address space\<close>

lemma copy_kernel_fill:
  assumes "is_frame nd" "is_frame (page_directory s)" "nd \<noteq> page_directory s"
  shows "vmm_copy_kernel_space nd s =
    fold (\<lambda>i. wr (ent nd (of_nat i)) (rd s (ent (page_directory s) (of_nat i)))) [0..<1024] s"
proof -
  have step: "fold (\<lambda>i t. wr (ent nd (of_nat i)) (rd t (ent (page_directory t) (of_nat i))) t) is t
      = fold (\<lambda>i. wr (ent nd (of_nat i)) (rd s (ent (page_directory s) (of_nat i)))) is t"
    if "set is \<subseteq> {..<1024}" "page_directory t = page_directory s"
      "\<forall>j. unat j < 1024 \<longrightarrow> rd t (ent (page_directory s) j) = rd s (ent (page_directory s) j)" for "is" t
    using that
  proof (induction "is" arbitrary: t)
    case (Cons i ks)
    have i: "unat (of_nat i :: u32) < 1024" using Cons.prems(1) by (simp add: unat_of_nat_small)
    then show ?case
      using Cons assms by (simp add: ent_inj)
  qed simp
  show ?thesis
    unfolding vmm_copy_kernel_space_def by (rule step [OF _ refl]) (simp_all only: set_upt, auto)
qed

lemma copy_kernel_rd:
  assumes "is_frame nd" "is_frame (page_directory s)" "nd \<noteq> page_directory s" "is_frame e" "unat j < 1024"
  shows "rd (vmm_copy_kernel_space nd s) (ent e j)
    = (if e = nd then rd s (ent (page_directory s) j) else rd s (ent e j))"
proof -
  have "set [0..<1024] \<subseteq> {..<1024 :: nat}" by (simp only: set_upt) auto
  from table_fill [OF assms(1) this distinct_upt assms(4,5), of "\<lambda>i. rd s (ent (page_directory s) (of_nat i))" s]
  show ?thesis
    using assms(5) by (simp only: copy_kernel_fill [OF assms(1-3)] set_upt atLeastLessThan_iff) simp
qed

lemma copy_kernel_fields:
  assumes "is_frame nd" "is_frame (page_directory s)" "nd \<noteq> page_directory s"
  shows "vm_pmm (vmm_copy_kernel_space nd s) = vm_pmm s"
    "page_directory (vmm_copy_kernel_space nd s) = page_directory s"
  by (simp_all only: copy_kernel_fill [OF assms] fold_wr_fields)

lemma create_space_correct:
  assumes ok: "vm_ok s ds" and pd: "page_directory s \<in> ds" and run: "vmm_create_address_space s = (nd, s')"
  shows "if nd = 0 then s' = s \<and> unat (pmm_free_frames (vm_pmm s)) = 0
    else nd \<notin> ds \<and> vm_ok s' (insert nd ds) \<and> (\<forall>va. walk s' nd va = walk s (page_directory s) va) \<and>
      (\<forall>e va. e \<in> ds \<longrightarrow> walk s' e va = walk s e va) \<and>
      (\<forall>e j. e \<in> insert nd ds \<longrightarrow> unat j < 1024 \<longrightarrow>
         (present s' e j \<longleftrightarrow> present s (if e = nd then page_directory s else e) j)) \<and>
      unat (pmm_free_frames (vm_pmm s)) = Suc (unat (pmm_free_frames (vm_pmm s')))"
proof (cases rule: vm_alloc_cases [OF vm_okD(1) [OF ok]])
  case 1
  with run show ?thesis by (simp add: vmm_create_address_space_def)
next
  case (2 f p)
  let ?k = "page_directory s"
  define t where "t = clear_frame f (s\<lparr>vm_pmm := p\<rparr>)"
  have s': "nd = f" "s' = vmm_copy_kernel_space f t"
    using run 2(1,2) by (auto simp: vmm_create_address_space_def t_def)
  have fr: "is_frame f" using 2(5) live_is_frame [of f p] by simp
  have fds: "f \<notin> ds" "f \<noteq> ?k" using 2(3) vm_okD(2) [OF ok] pd by blast+
  have k: "is_frame ?k" using vm_okD(3) [OF ok pd] .
  have t: "page_directory t = ?k" "vm_pmm t = p" by (simp_all add: t_def)
  have ents: "rd s' (ent e j) = (if e = f then rd s (ent ?k j) else rd s (ent e j))"
    if "is_frame e" "unat j < 1024" for e j
    using that copy_kernel_rd [of f t e j] fr fds(2) k t clear_frame_rd [OF fr, of _ _ "s\<lparr>vm_pmm := p\<rparr>", folded t_def]
    unfolding s' by auto
  have pm: "vm_pmm s' = p"
    using copy_kernel_fields(1) [of f t] fr fds k t unfolding s' by simp
  have old: "present s' e j \<longleftrightarrow> present s e j" "tbl s' e j = tbl s e j" if "e \<in> ds" "unat j < 1024" for e j
    using that ents vm_okD(3) [OF ok] fds(1) by (auto simp: present_def tbl_def)
  have new: "present s' f j \<longleftrightarrow> present s ?k j" "tbl s' f j = tbl s ?k j" if "unat j < 1024" for j
    using that ents fr by (simp_all add: present_def tbl_def)
  have via: "\<exists>d \<in> ds. present s d j \<and> tbl s' e j = tbl s d j \<and> (e \<noteq> f \<longrightarrow> d = e)"
    if "e \<in> insert f ds" "unat j < 1024" "present s' e j" for e j
    using that old new pd fds(1) by (cases "e = f") auto
  have keep: "rd s' (ent (tbl s e j) i) = rd s (ent (tbl s e j) i)"
    if "e \<in> ds" "unat j < 1024" "present s e j" "unat i < 1024" for e j i
    using ents [OF vm_okD(6) [OF ok that(1-3)] that(4)] vm_okD(4) [OF ok that(1-3)] 2(3) by auto
  have "vm_ok s' (insert f ds)"
    unfolding vm_ok_def pm
  proof (intro conjI ballI allI impI)
    show "pmm_inv p" by fact
    show "insert f ds \<subseteq> frames_live p" using 2(5) vm_okD(2) [OF ok] by blast
    fix a j assume a: "a \<in> insert f ds" "unat j < 1024" "present s' a j"
    obtain d where d: "d \<in> ds" "present s d j" "tbl s' a j = tbl s d j" using via [OF a] by blast
    show "tbl s' a j \<in> frames_live p - insert f ds"
      using vm_okD(4,5) [OF ok d(1) a(2) d(2)] 2(3,5) d(3) by auto
    fix e i assume e: "e \<in> insert f ds" "unat i < 1024" "present s' e i" "tbl s' a j = tbl s' e i"
    obtain d' where "d' \<in> ds" "present s d' i" "tbl s' e i = tbl s d' i" using via [OF e(1-3)] by blast
    then show "j = i" using vm_okD(7) [OF ok d(1) a(2) d(2), of d' i] d(3) e(2,4) by simp
  qed
  moreover have "walk s' f va = walk s ?k va" for va
    using new keep [OF pd idx_less(1) _ idx_less(2)] idx_less(1) by (auto simp: walk_def)
  moreover have "walk s' e va = walk s e va" if "e \<in> ds" for e va
    using old [OF that idx_less(1)] keep [OF that idx_less(1) _ idx_less(2)] by (auto simp: walk_def)
  moreover have "present s' e j \<longleftrightarrow> present s (if e = f then ?k else e) j" if "e \<in> insert f ds" "unat j < 1024" for e j
    using that old new by (cases "e = f") auto
  ultimately show ?thesis using 2(2,6) fds(1) s'(1) pm by simp
qed

lemma unmap_page_correct:
  assumes ok: "vm_ok s ds" and pd: "page_directory s \<in> ds"
  shows "vm_ok (unmap_page virt s) ds \<and>
    (\<forall>e va. e \<in> ds \<longrightarrow> walk (unmap_page virt s) e va =
      (if drop_bit 12 va = drop_bit 12 virt \<and> (e = page_directory s \<or> shares s e (page_directory s) (dir_idx virt))
       then None else walk s e va))"
proof (cases "present s (page_directory s) (dir_idx virt)")
  case True
  then have run: "unmap_page virt s = wr (ent (tbl s (page_directory s) (dir_idx virt)) (table_idx virt)) 0 s"
    by (simp add: unmap_page_def present_def tbl_def)
  have "e = page_directory s \<or> shares s e (page_directory s) (dir_idx virt)
      \<longleftrightarrow> shares s e (page_directory s) (dir_idx virt)" for e
    using True by (auto simp: shares_def)
  then show ?thesis using table_entry [OF ok pd True run] by simp
next
  case False
  then have "unmap_page virt s = s" by (simp add: unmap_page_def present_def)
  moreover have "walk s (page_directory s) va = None" if "drop_bit 12 va = drop_bit 12 virt" for va
    using that False by (simp add: walk_def same_page)
  ultimately show ?thesis using ok False by (auto simp: shares_def)
qed

section \<open>The identity map of \<open>vmm_init\<close>\<close>

lemma page_split: "page_base x OR (x AND 0xFFF) = x"
  unfolding page_base_def
  by (simp only: bit.conj_disj_distrib [symmetric] bit.disj_cancel_left bit.conj_one_right)

lemma indices_join: "(dir_idx va * 1024 + table_idx va) * PMM_FRAME_SIZE = page_base va"
proof -
  have m: "(0x3FF :: u32) = mask 10" by (simp add: mask_eq_exp_minus_1)
  have "dir_idx va * 1024 = push_bit 10 (drop_bit 10 (drop_bit 12 va))"
    by (simp add: dir_idx_def push_bit_eq_mult drop_bit_drop_bit)
  moreover have "table_idx va = take_bit 10 (drop_bit 12 va)"
    by (simp only: table_idx_def m take_bit_eq_mask)
  ultimately have "dir_idx va * 1024 + table_idx va = drop_bit 12 va" by (simp only: bits_ident)
  then show ?thesis
    unfolding page_base_def by (subst page_mask_shift) (simp add: push_bit_eq_mult)
qed

lemma low_dir_idx: "dir_idx va < 8 \<longleftrightarrow> va < 0x2000000"
  unfolding word_less_nat_alt dir_idx_def unat_drop_bit by (simp add: div_less_iff_less_mult)

lemma vm_ok_cong:
  assumes "vm_pmm s' = vm_pmm s"
    "\<And>d i. d \<in> ds \<Longrightarrow> unat i < 1024 \<Longrightarrow> present s' d i = present s d i"
    "\<And>d i. d \<in> ds \<Longrightarrow> unat i < 1024 \<Longrightarrow> present s d i \<Longrightarrow> tbl s' d i = tbl s d i"
  shows "vm_ok s ds \<Longrightarrow> vm_ok s' ds"
  using assms unfolding vm_ok_def by simp

definition identity_upto :: "u32 \<Rightarrow> u32 \<Rightarrow> vm \<Rightarrow> bool" where
  "identity_upto pd mb s \<longleftrightarrow> vm_ok s {pd} \<and> page_directory s = pd \<and>
     (\<forall>i. unat i < 1024 \<longrightarrow> (present s pd i \<longleftrightarrow> i < mb)) \<and>
     (\<forall>i j. i < mb \<longrightarrow> unat j < 1024 \<longrightarrow>
        rd s (ent (tbl s pd i) j) = (i * 1024 + j) * PMM_FRAME_SIZE OR 7)"

lemma vm_alloc_some:
  assumes "pmm_inv (vm_pmm s)" "unat (pmm_free_frames (vm_pmm s)) \<noteq> 0"
  obtains f p where "vm_alloc s = (f, s\<lparr>vm_pmm := p\<rparr>)" "f \<noteq> 0" "f \<notin> frames_live (vm_pmm s)" "pmm_inv p"
    "frames_live p = insert f (frames_live (vm_pmm s))"
    "unat (pmm_free_frames (vm_pmm s)) = Suc (unat (pmm_free_frames p))"
  using assms by (cases rule: vm_alloc_cases [OF assms(1)]) auto

lemma init_table_step:
  assumes inv: "identity_upto pd mb s" and mb: "mb < 8"
    and f: "f \<notin> frames_live (vm_pmm s)" "pmm_inv p" "frames_live p = insert f (frames_live (vm_pmm s))"
    and t: "t = fold (\<lambda>i. wr (ent f (of_nat i))
        ((mb * 1024 + of_nat i) * PMM_FRAME_SIZE OR PAGE_PRESENT OR PAGE_WRITE OR PAGE_USER)) [0..<1024] (s\<lparr>vm_pmm := p\<rparr>)"
    and s': "s' = wr (ent pd mb) (f OR PAGE_PRESENT OR PAGE_WRITE OR PAGE_USER) t"
  shows "identity_upto pd (mb + 1) s'"
proof -
  have ok: "vm_ok s {pd}" and pdr: "page_directory s = pd"
    and pres: "\<And>i. unat i < 1024 \<Longrightarrow> present s pd i \<longleftrightarrow> i < mb"
    and ids: "\<And>i j. i < mb \<Longrightarrow> unat j < 1024 \<Longrightarrow> rd s (ent (tbl s pd i) j) = (i * 1024 + j) * PMM_FRAME_SIZE OR 7"
    using inv by (simp_all add: identity_upto_def)
  have mb1: "unat mb < 1024" and mbS: "unat (mb + 1) = unat mb + 1"
    using mb by (simp_all add: word_less_nat_alt unat_plus_small)
  have fr: "is_frame f" using f(3) live_is_frame [of f p] by simp
  have "set [0..<1024] \<subseteq> {..<1024 :: nat}" by (simp only: set_upt) auto
  note tf = table_fill [OF fr this distinct_upt, of _ _ "\<lambda>i. (mb * 1024 + of_nat i) * PMM_FRAME_SIZE OR
      PAGE_PRESENT OR PAGE_WRITE OR PAGE_USER" "s\<lparr>vm_pmm := p\<rparr>", folded t]
  have fill: "rd t (ent f j) = (mb * 1024 + j) * PMM_FRAME_SIZE OR 7" if "unat j < 1024" for j
    using that tf [OF fr that] by (simp only: set_upt atLeastLessThan_iff) simp
  have keep: "\<forall>e j. is_frame e \<longrightarrow> unat j < 1024 \<longrightarrow> e \<noteq> f \<longrightarrow> rd t (ent e j) = rd s (ent e j)"
    using tf by auto
  have pm: "vm_pmm t = p" "page_directory t = pd" by (simp_all only: t fold_wr_fields) (simp_all add: pdr)
  have w: "page_base (PAGE_PRESENT OR PAGE_WRITE OR PAGE_USER) = 0" "(PAGE_PRESENT OR PAGE_WRITE OR PAGE_USER) AND 1 \<noteq> 0"
    by simp_all
  have np: "\<not> present s pd mb" using pres [OF mb1] by simp
  note n = fresh_table [OF ok insertI1 mb1 np f w pm(1) keep s']
  have pd': "page_directory s' = pd" using pm(2) by (simp add: s')
  have less: "i < mb + 1 \<longleftrightarrow> i < mb \<or> i = mb" for i
    using mbS by (simp add: word_less_nat_alt word_unat_eq_iff) linarith
  have pres': "present s' pd i \<longleftrightarrow> i < mb + 1" if "unat i < 1024" for i
    using n(4) [OF insertI1 that] pres [OF that] less by auto
  have "rd s' (ent (tbl s' pd i) j) = (i * 1024 + j) * PMM_FRAME_SIZE OR 7" if i: "i < mb + 1" "unat j < 1024" for i j
  proof (cases "i = mb")
    case True
    have "f \<notin> {pd}" using vm_okD(2) [OF ok, of pd] f(1) by auto
    then show ?thesis using n(8) [of f j] n(3) True i(2) fill f(3) by simp
  next
    case False
    have i1: "i < mb" "unat i < 1024" using i(1) less False mb1 by (auto simp: word_less_nat_alt)
    then have pi: "present s pd i" using pres by simp
    have x: "tbl s pd i \<in> frames_live (vm_pmm s)" "tbl s pd i \<notin> {pd}" "is_frame (tbl s pd i)"
      by (rule vm_okD(4,5,6) [OF ok insertI1 i1(2) pi])+
    have "rd s' (ent (tbl s pd i) j) = rd t (ent (tbl s pd i) j)" using n(8) x i(2) f(3) by blast
    also have "\<dots> = rd s (ent (tbl s pd i) j)" using keep x f(1) i(2) by blast
    finally show ?thesis using n(5) [OF insertI1 i1(2)] False ids [OF i1(1) i(2)] by simp
  qed
  with n(1) pd' pres' show ?thesis by (simp add: identity_upto_def)
qed

lemma init_tables_run:
  assumes "identity_upto pd mb s" "mb \<le> 8" "8 - unat mb \<le> unat (pmm_free_frames (vm_pmm s))"
  shows "\<exists>s'. vmm_init_tables mb s = (True, s') \<and> identity_upto pd 8 s' \<and> vm_cr0 s' = vm_cr0 s \<and>
    unat (pmm_free_frames (vm_pmm s)) = unat (pmm_free_frames (vm_pmm s')) + (8 - unat mb)"
  using assms
proof (induction "8 - unat mb" arbitrary: mb s)
  case 0
  then have "mb = 8" by (simp add: word_le_nat_alt word_unat_eq_iff)
  with 0 show ?case by (simp add: vmm_init_tables.simps)
next
  case (Suc k)
  then have mb: "mb < 8" by (simp add: word_less_nat_alt)
  have mbS: "unat (mb + 1) = unat mb + 1" using mb by (simp add: word_less_nat_alt unat_plus_small)
  have inv: "pmm_inv (vm_pmm s)" and pdr: "page_directory s = pd"
    using Suc.prems(1) vm_okD(1) by (auto simp: identity_upto_def)
  obtain f p where a: "vm_alloc s = (f, s\<lparr>vm_pmm := p\<rparr>)" "f \<noteq> 0" "f \<notin> frames_live (vm_pmm s)" "pmm_inv p"
      "frames_live p = insert f (frames_live (vm_pmm s))"
      "unat (pmm_free_frames (vm_pmm s)) = Suc (unat (pmm_free_frames p))"
    by (rule vm_alloc_some [OF inv]) (use Suc in auto)
  define t where "t = fold (\<lambda>i. wr (ent f (of_nat i))
      ((mb * 1024 + of_nat i) * PMM_FRAME_SIZE OR PAGE_PRESENT OR PAGE_WRITE OR PAGE_USER)) [0..<1024] (s\<lparr>vm_pmm := p\<rparr>)"
  define s1 where "s1 = wr (ent pd mb) (f OR PAGE_PRESENT OR PAGE_WRITE OR PAGE_USER) t"
  have tf: "vm_pmm t = p" "page_directory t = pd" "vm_cr0 t = vm_cr0 s"
    by (simp_all only: t_def fold_wr_fields) (simp_all add: pdr)
  have run: "vmm_init_tables mb s = vmm_init_tables (mb + 1) s1"
    by (subst vmm_init_tables.simps)
      (simp only: mb a(1,2) Let_def prod.case if_True if_False t_def [symmetric] tf s1_def)
  have step: "identity_upto pd (mb + 1) s1"
    by (rule init_table_step [OF Suc.prems(1) mb a(3,4,5) t_def s1_def])
  have "\<exists>s'. vmm_init_tables (mb + 1) s1 = (True, s') \<and> identity_upto pd 8 s' \<and> vm_cr0 s' = vm_cr0 s1 \<and>
    unat (pmm_free_frames (vm_pmm s1)) = unat (pmm_free_frames (vm_pmm s')) + (8 - unat (mb + 1))"
    using Suc.hyps(2) Suc.prems(3) a(6) mbS tf(1) mb
    by (intro Suc.hyps(1) step) (auto simp: s1_def word_le_nat_alt word_less_nat_alt)
  then show ?case unfolding run
    using a(6) tf mbS mb by (auto simp: s1_def word_less_nat_alt)
qed

lemma vmm_init_identity_upto:
  assumes "pmm_inv (vm_pmm s)" "9 \<le> unat (pmm_free_frames (vm_pmm s))"
  shows "\<exists>pd. pd \<noteq> 0 \<and> identity_upto pd 8 (vmm_init s) \<and> vm_cr3 (vmm_init s) = pd \<and>
    vm_cr0 (vmm_init s) = vm_cr0 s OR 0x80000000 \<and>
    unat (pmm_free_frames (vm_pmm s)) = unat (pmm_free_frames (vm_pmm (vmm_init s))) + 9"
proof -
  obtain pd p where a: "vm_alloc s = (pd, s\<lparr>vm_pmm := p\<rparr>)" "pd \<noteq> 0" "pd \<notin> frames_live (vm_pmm s)" "pmm_inv p"
      "frames_live p = insert pd (frames_live (vm_pmm s))"
      "unat (pmm_free_frames (vm_pmm s)) = Suc (unat (pmm_free_frames p))"
    by (rule vm_alloc_some [OF assms(1)]) (use assms(2) in auto)
  define s1 where "s1 = clear_frame pd (s\<lparr>vm_pmm := p\<rparr>\<lparr>page_directory := pd\<rparr>)"
  have fr: "is_frame pd" using a(5) live_is_frame [of pd p] by simp
  have s1: "vm_pmm s1 = p" "page_directory s1 = pd" "vm_cr0 s1 = vm_cr0 s" by (simp_all add: s1_def)
  have "rd s1 (ent pd j) = 0" if "unat j < 1024" for j
    using that fr by (simp add: s1_def clear_frame_rd)
  then have none: "\<not> present s1 pd j" if "unat j < 1024" for j using that by (simp add: present_def)
  then have start: "identity_upto pd 0 s1" using a(4,5) s1 by (simp add: identity_upto_def vm_ok_def)
  obtain s2 where s2: "vmm_init_tables 0 s1 = (True, s2)" "identity_upto pd 8 s2" "vm_cr0 s2 = vm_cr0 s"
      "unat (pmm_free_frames p) = unat (pmm_free_frames (vm_pmm s2)) + 8"
    using init_tables_run [OF start] a(6) assms(2) s1 by auto
  have ok: "vm_ok s2 {pd}" and pd2: "page_directory s2 = pd" using s2(2) by (simp_all add: identity_upto_def)
  define s3 where "s3 = fold (\<lambda>i. wr (ent pd (of_nat i)) 2) [8..<1024] s2"
  have run: "vmm_init s = s3\<lparr>vm_cr3 := page_directory s3, vm_cr0 := vm_cr0 s3 OR 0x80000000\<rparr>"
    unfolding vmm_init_def
    by (simp only: a(1,2) Let_def prod.case if_True if_False s1_def [symmetric] s2(1) not_True_eq_False s3_def pd2)
  have "set [8..<1024] \<subseteq> {..<1024 :: nat}" by (simp only: set_upt) auto
  note tf = table_fill [OF fr this distinct_upt, of _ _ "\<lambda>_. 2" s2, folded s3_def, simplified set_upt atLeastLessThan_iff]
  have s3: "vm_pmm s3 = vm_pmm s2" "page_directory s3 = pd" "vm_cr0 s3 = vm_cr0 s"
    by (simp_all only: s3_def fold_wr_fields pd2 s2(3))
  have low: "rd s3 (ent pd i) = rd s2 (ent pd i)" if "i < 8" for i
    using tf [OF fr, of i] that by (simp add: word_less_nat_alt)
  have pres: "present s3 pd i \<longleftrightarrow> i < 8" if "unat i < 1024" for i
    using tf [OF fr that] that s2(2) low by (auto simp: present_def identity_upto_def word_less_nat_alt not_less)
  have tb: "tbl s3 pd i = tbl s2 pd i" if "i < 8" for i using low [OF that] by (simp add: tbl_def)
  have pres2: "present s2 pd i \<longleftrightarrow> i < 8" if "unat i < 1024" for i using s2(2) that by (simp add: identity_upto_def)
  have ok3: "vm_ok s3 {pd}"
    by (rule vm_ok_cong [OF s3(1) _ _ ok]) (auto simp: pres pres2 tb)
  have "rd s3 (ent (tbl s3 pd i) j) = (i * 1024 + j) * PMM_FRAME_SIZE OR 7" if i: "i < 8" "unat j < 1024" for i j
  proof -
    have iu: "unat i < 1024" using i(1) by (simp add: word_less_nat_alt)
    then have pi: "present s2 pd i" using i(1) pres2 by simp
    have "tbl s2 pd i \<noteq> pd" "is_frame (tbl s2 pd i)"
      using vm_okD(5,6) [OF ok insertI1 iu pi] by auto
    then have "rd s3 (ent (tbl s2 pd i) j) = rd s2 (ent (tbl s2 pd i) j)" using tf [OF _ i(2)] by simp
    then show ?thesis using s2(2) i tb by (simp add: identity_upto_def)
  qed
  then have id3: "identity_upto pd 8 s3" using ok3 s3(2) pres by (simp add: identity_upto_def)
  have regs: "vm_pmm (s3\<lparr>vm_cr3 := x, vm_cr0 := y\<rparr>) = vm_pmm s3" "rd (s3\<lparr>vm_cr3 := x, vm_cr0 := y\<rparr>) = rd s3"
    "page_directory (s3\<lparr>vm_cr3 := x, vm_cr0 := y\<rparr>) = page_directory s3" for x y
    by (simp_all add: rd_def fun_eq_iff)
  then have "identity_upto pd 8 (s3\<lparr>vm_cr3 := x, vm_cr0 := y\<rparr>)" for x y
    using id3 unfolding identity_upto_def vm_ok_def present_def tbl_def by simp
  then show ?thesis using a(2,6) s2(4) s3 unfolding run by auto
qed

lemma identity_walk:
  assumes "identity_upto pd 8 s"
  shows "walk s pd va = (if va < 0x2000000 then Some va else None)"
proof (cases "va < 0x2000000")
  case True
  then have d: "dir_idx va < 8" by (simp add: low_dir_idx)
  let ?pte = "rd s (ent (tbl s pd (dir_idx va)) (table_idx va))"
  have pte: "?pte = page_base va OR 7"
    using assms d idx_less(2) by (simp only: identity_upto_def indices_join [symmetric])
  have "?pte AND 1 \<noteq> 0"
    unfolding pte by (simp only: bit.conj_disj_distrib2 or_eq_0_iff) simp
  moreover have "page_base ?pte OR (va AND 0xFFF) = va"
    by (simp only: pte page_base_or page_base_idem page_base_numerals or.right_neutral page_split)
  ultimately show ?thesis
    using True d assms idx_less(1) [of va] by (simp add: walk_def identity_upto_def)
next
  case False
  then have "\<not> dir_idx va < 8" by (simp add: low_dir_idx)
  with False assms idx_less(1) [of va] show ?thesis by (simp add: walk_def identity_upto_def)
qed

section \<open>Properties\<close>

definition vm_boot :: vm where
  "vm_boot = vmm_init \<lparr>vm_pmm = pmm_boot, vm_mem = (\<lambda>_. 0), page_directory = 0, vm_cr3 = 0, vm_cr0 = 0x11\<rparr>"

lemma vm_boot_ok: "vm_ok vm_boot {page_directory vm_boot}" "identity_upto (page_directory vm_boot) 8 vm_boot"
  "unat (pmm_free_frames (vm_pmm vm_boot)) = 29687"
  using vmm_init_identity_upto [of "\<lparr>vm_pmm = pmm_boot, vm_mem = (\<lambda>_. 0), page_directory = 0, vm_cr3 = 0, vm_cr0 = 0x11\<rparr>"]
  by (auto simp: vm_boot_def [symmetric] pmm_boot_frames(1) pmm_boot_free identity_upto_def)

text \<open>
  With nine free frames, \<open>vmm_init\<close> succeeds: it turns paging on with a well-formed
  directory under which every address below 32 MB translates to itself and no other
  address translates.
\<close>

theorem vmm_init_identity:
  assumes "pmm_inv (vm_pmm s)" "9 \<le> unat (pmm_free_frames (vm_pmm s))"
  shows "vm_ok (vmm_init s) {page_directory (vmm_init s)} \<and> vm_cr3 (vmm_init s) = page_directory (vmm_init s) \<and>
    bit (vm_cr0 (vmm_init s)) 31 \<and>
    (\<forall>va. walk (vmm_init s) (page_directory (vmm_init s)) va = (if va < 0x2000000 then Some va else None))"
proof -
  obtain pd where pd: "identity_upto pd 8 (vmm_init s)" "vm_cr3 (vmm_init s) = pd"
      "vm_cr0 (vmm_init s) = vm_cr0 s OR 0x80000000"
    using vmm_init_identity_upto [OF assms] by blast
  have "bit (0x80000000 :: u32) 31" by (simp add: bit_iff_odd_drop_bit)
  then have "bit (vm_cr0 (vmm_init s)) 31" unfolding pd(3) bit_or_iff by blast
  then show ?thesis using identity_walk [OF pd(1)] pd(1,2) by (simp add: identity_upto_def)
qed

theorem vmm_init_identity_witness:
  "walk vm_boot (page_directory vm_boot) 0xB8000 = Some 0xB8000"
  using vmm_init_identity [of "\<lparr>vm_pmm = pmm_boot, vm_mem = (\<lambda>_. 0), page_directory = 0, vm_cr3 = 0, vm_cr0 = 0x11\<rparr>"]
  by (simp add: vm_boot_def [symmetric] pmm_boot_frames(1) pmm_boot_free)



text \<open>
  \<open>unmap_page\<close> ends exactly the translation of the page of \<open>virt\<close>.
\<close>

theorem unmap_page_exact:
  assumes "vm_ok s ds" "page_directory s \<in> ds"
  shows "vm_ok (unmap_page virt s) ds \<and>
    (\<forall>e \<in> ds. \<forall>va. walk (unmap_page virt s) e va =
      (if drop_bit 12 va = drop_bit 12 virt \<and> (e = page_directory s \<or> shares s e (page_directory s) (dir_idx virt))
       then None else walk s e va))"
  using unmap_page_correct [OF assms] by simp

theorem unmap_page_exact_witness:
  "walk (unmap_page 0xB8000 vm_boot) (page_directory vm_boot) 0xB8FFF = None \<and>
   walk (unmap_page 0xB8000 vm_boot) (page_directory vm_boot) 0xB9000 = Some 0xB9000"
  using unmap_page_exact [OF vm_boot_ok(1), of "0xB8000"] identity_walk [OF vm_boot_ok(2)] by simp

text \<open>
  \<open>vmm_create_address_space\<close> returns a fresh directory under which every address
  translates as in the kernel's, and changes no existing translation; it returns NULL,
  changing nothing, only when no frame is free.
\<close>

theorem create_address_space_copies:
  assumes "vm_ok s ds" "page_directory s \<in> ds" "vmm_create_address_space s = (nd, s')"
  shows "if nd = 0 then s' = s \<and> pmm_free_frames (vm_pmm s) = 0
    else nd \<notin> ds \<and> vm_ok s' (insert nd ds) \<and> (\<forall>va. walk s' nd va = walk s (page_directory s) va) \<and>
      (\<forall>e \<in> ds. \<forall>va. walk s' e va = walk s e va)"
  using create_space_correct [OF assms] by (auto simp: unat_eq_0 split: if_splits)

theorem create_address_space_copies_witness:
  "\<exists>nd s'. vmm_create_address_space vm_boot = (nd, s') \<and> nd \<noteq> page_directory vm_boot \<and>
     walk s' nd 0x123456 = Some 0x123456"
proof -
  obtain nd s' where run: "vmm_create_address_space vm_boot = (nd, s')" by force
  have "pmm_free_frames (vm_pmm vm_boot) \<noteq> 0" using vm_boot_ok(3) by auto
  then show ?thesis
    using create_address_space_copies [OF vm_boot_ok(1) _ run] run identity_walk [OF vm_boot_ok(2)]
    by (auto split: if_splits)
qed



end
