(* ===== verification/BlockDev.thy ===== *)
theory BlockDev
  imports Prelude
begin

text \<open>
  The interface between the file system and the disk driver: 512-byte sectors read and
  written one at a time (every call of \<open>ata_read\<close> and \<open>ata_write\<close> in
  \<open>kernel/fs/tetfs.c\<close> has count 1), and the contract the file system relies on. A
  \<open>block_dev\<close> may fail, but a failure never changes another sector; a
  \<open>reliable_dev\<close> does not fail.
\<close>

record 'd dev =
  dev_read :: "u32 \<Rightarrow> 'd \<Rightarrow> bytes option \<times> 'd"
  dev_write :: "u32 \<Rightarrow> bytes \<Rightarrow> 'd \<Rightarrow> bool \<times> 'd"

abbreviation "SECTOR_SIZE \<equiv> (512 :: nat)"
abbreviation "MAX_LBA \<equiv> (0x10000000 :: u32)" \<comment> \<open>28-bit addresses\<close>

locale block_dev =
  fixes D :: "'d dev" and sec :: "'d \<Rightarrow> u32 \<Rightarrow> bytes" and invar :: "'d \<Rightarrow> bool"
  assumes sec_len: "invar d \<Longrightarrow> l < MAX_LBA \<Longrightarrow> length (sec d l) = SECTOR_SIZE"
    and read_law: "invar d \<Longrightarrow> l < MAX_LBA \<Longrightarrow> dev_read D l d = (r, d') \<Longrightarrow>
      invar d' \<and> sec d' = sec d \<and> (r = None \<or> r = Some (sec d l))"
    and write_law: "invar d \<Longrightarrow> l < MAX_LBA \<Longrightarrow> length b = SECTOR_SIZE \<Longrightarrow> dev_write D l b d = (ok, d') \<Longrightarrow>
      invar d' \<and> (\<forall>k. k \<noteq> l \<longrightarrow> sec d' k = sec d k) \<and> (ok \<longrightarrow> sec d' l = b)"

locale reliable_dev = block_dev D sec invar
  for D :: "'d dev" and sec :: "'d \<Rightarrow> u32 \<Rightarrow> bytes" and invar :: "'d \<Rightarrow> bool" +
  assumes read_ok: "invar d \<Longrightarrow> l < MAX_LBA \<Longrightarrow> fst (dev_read D l d) \<noteq> None"
    and write_ok: "invar d \<Longrightarrow> l < MAX_LBA \<Longrightarrow> length b = SECTOR_SIZE \<Longrightarrow> fst (dev_write D l b d)"
begin

lemma read_sector:
  assumes "invar d" "l < MAX_LBA"
  obtains d' where "dev_read D l d = (Some (sec d l), d')" "invar d'" "sec d' = sec d"
proof -
  obtain r d' where r: "dev_read D l d = (r, d')" by force
  with read_law [OF assms r] read_ok [OF assms] that show ?thesis by auto
qed

lemma write_sector:
  assumes "invar d" "l < MAX_LBA" "length b = SECTOR_SIZE"
  obtains d' where "dev_write D l b d = (True, d')" "invar d'" "sec d' = (sec d)(l := b)"
proof -
  obtain ok d' where r: "dev_write D l b d = (ok, d')" by force
  with write_law [OF assms r] write_ok [OF assms] that show ?thesis by (auto simp: fun_eq_iff)
qed

end

end
