(* ===== verification/Ports.thy ===== *)
theory Ports
  imports Prelude
begin

text \<open>
  Port I/O, \<open>kernel/io/io.h\<close>. The instructions reach hardware, which is a parameter: a
  record of port operations on a machine state. \<open>log_ports\<close> is a machine that answers reads
  from a table and keeps the sequence of writes, for statements about what a driver sends.
\<close>

record 'm ports =
  inb :: "u16 \<Rightarrow> 'm \<Rightarrow> u8 \<times> 'm"
  inw :: "u16 \<Rightarrow> 'm \<Rightarrow> u16 \<times> 'm"
  outb :: "u16 \<Rightarrow> u8 \<Rightarrow> 'm \<Rightarrow> 'm"
  outw :: "u16 \<Rightarrow> u16 \<Rightarrow> 'm \<Rightarrow> 'm"

definition io_wait :: "'m ports \<Rightarrow> 'm \<Rightarrow> 'm" where
  "io_wait P m = outb P 0x80 0 m"

text \<open>A sequence of byte writes.\<close>

definition outs :: "'m ports \<Rightarrow> (u16 \<times> u8) list \<Rightarrow> 'm \<Rightarrow> 'm" where
  "outs P ws m = fold (\<lambda>(p, v). outb P p v) ws m"

lemma outs_simps [simp]: "outs P [] m = m" "outs P ((p, v) # ws) m = outs P ws (outb P p v m)"
  by (simp_all add: outs_def)

text \<open>Clearing bits of an interrupt mask register.\<close>

definition mask_clear :: "'m ports \<Rightarrow> u16 \<Rightarrow> u8 \<Rightarrow> 'm \<Rightarrow> 'm" where
  "mask_clear P p b m = (let (v, m) = inb P p m in outb P p (v AND NOT b) m)"

definition log_ports :: "(u16 \<Rightarrow> u8) \<Rightarrow> (u16 \<times> u8) list ports" where
  "log_ports rd = \<lparr>inb = (\<lambda>p m. (rd p, m)), inw = (\<lambda>p m. (ucast (rd p), m)),
     outb = (\<lambda>p v m. m @ [(p, v)]), outw = (\<lambda>p v m. m)\<rparr>"

lemma log_ports_simps [simp]:
  "inb (log_ports rd) p m = (rd p, m)" "outb (log_ports rd) p v m = m @ [(p, v)]"
  by (simp_all add: log_ports_def)

end
