(* ===== verification/Ata.thy ===== *)
theory Ata
  imports BlockDev Ports
begin

text \<open>
  The ATA driver, \<open>kernel/ata/ata.c\<close>: programmed I/O on the primary channel. The port
  operations of \<open>Ports\<close> are a parameter. The last part instantiates them with a small drive that
  answers the commands the driver sends, and shows that the driver on this drive meets the
  disk contract of \<open>BlockDev\<close>.
\<close>

section \<open>Registers\<close>

abbreviation "ATA_PRIMARY_DATA \<equiv> (0x1F0 :: u16)"
abbreviation "ATA_PRIMARY_COUNT \<equiv> (0x1F2 :: u16)"
abbreviation "ATA_PRIMARY_LBA_LO \<equiv> (0x1F3 :: u16)"
abbreviation "ATA_PRIMARY_LBA_MID \<equiv> (0x1F4 :: u16)"
abbreviation "ATA_PRIMARY_LBA_HI \<equiv> (0x1F5 :: u16)"
abbreviation "ATA_PRIMARY_DRIVE \<equiv> (0x1F6 :: u16)"
abbreviation "ATA_PRIMARY_STATUS \<equiv> (0x1F7 :: u16)"
abbreviation "ATA_PRIMARY_CMD \<equiv> (0x1F7 :: u16)"
abbreviation "ATA_PRIMARY_CTRL \<equiv> (0x3F6 :: u16)"

abbreviation "ATA_STATUS_ERR \<equiv> (0x01 :: u8)"
abbreviation "ATA_STATUS_DRQ \<equiv> (0x08 :: u8)"
abbreviation "ATA_STATUS_RDY \<equiv> (0x40 :: u8)"
abbreviation "ATA_STATUS_BSY \<equiv> (0x80 :: u8)"

abbreviation "ATA_CMD_READ \<equiv> (0x20 :: u8)"
abbreviation "ATA_CMD_WRITE \<equiv> (0x30 :: u8)"
abbreviation "ATA_CMD_IDENT \<equiv> (0xEC :: u8)"

section \<open>The driver\<close>

record ata_drive =
  ata_model :: bytes
  ata_sectors :: u32
  ata_present :: u8

record 'm ata_state =
  machine :: 'm
  drive :: ata_drive

definition ata_400ns_delay :: "'m ports \<Rightarrow> 'm \<Rightarrow> 'm" where
  "ata_400ns_delay P m =
     (let (_, m) = inb P ATA_PRIMARY_CTRL m;
          (_, m) = inb P ATA_PRIMARY_CTRL m;
          (_, m) = inb P ATA_PRIMARY_CTRL m;
          (_, m) = inb P ATA_PRIMARY_CTRL m
      in m)"

text \<open>The polling loops, \<open>while (timeout--)\<close>; \<open>True\<close> stands for the result 0.\<close>

fun wait_ready_loop :: "nat \<Rightarrow> 'm ports \<Rightarrow> 'm \<Rightarrow> bool \<times> 'm" where
  "wait_ready_loop 0 P m = (False, m)"
| "wait_ready_loop (Suc timeout) P m =
     (let (status, m) = inb P ATA_PRIMARY_STATUS m in
      if status AND ATA_STATUS_ERR \<noteq> 0 then (False, m)
      else if status AND ATA_STATUS_BSY = 0 \<and> status AND ATA_STATUS_RDY \<noteq> 0 then (True, m)
      else wait_ready_loop timeout P m)"

definition ata_wait_ready :: "'m ports \<Rightarrow> 'm \<Rightarrow> bool \<times> 'm" where
  "ata_wait_ready P m = wait_ready_loop 100000 P m"

fun wait_drq_loop :: "nat \<Rightarrow> 'm ports \<Rightarrow> 'm \<Rightarrow> bool \<times> 'm" where
  "wait_drq_loop 0 P m = (False, m)"
| "wait_drq_loop (Suc timeout) P m =
     (let (status, m) = inb P ATA_PRIMARY_STATUS m in
      if status AND ATA_STATUS_ERR \<noteq> 0 then (False, m)
      else if status AND ATA_STATUS_DRQ \<noteq> 0 then (True, m)
      else wait_drq_loop timeout P m)"

definition ata_wait_drq :: "'m ports \<Rightarrow> 'm \<Rightarrow> bool \<times> 'm" where
  "ata_wait_drq P m = wait_drq_loop 100000 P m"

text \<open>The loops that move words through the data port.\<close>

fun read_words :: "nat \<Rightarrow> 'm ports \<Rightarrow> 'm \<Rightarrow> u16 list \<times> 'm" where
  "read_words 0 P m = ([], m)"
| "read_words (Suc n) P m =
     (let (w, m) = inw P ATA_PRIMARY_DATA m; (ws, m) = read_words n P m in (w # ws, m))"

definition write_words :: "u16 list \<Rightarrow> 'm ports \<Rightarrow> 'm \<Rightarrow> 'm" where
  "write_words ws P m = fold (outw P ATA_PRIMARY_DATA) ws m"

text \<open>Blanks at the end of the model string become terminators; \<open>n\<close> is \<open>i + 1\<close>.\<close>

fun strip_model :: "nat \<Rightarrow> bytes \<Rightarrow> bytes" where
  "strip_model 0 s = s"
| "strip_model (Suc i) s = (if s ! i = 0x20 then strip_model i (s[i := 0]) else s)"

definition ident_model :: "u16 list \<Rightarrow> bytes" where
  "ident_model ident =
     strip_model 40 (concat (map (\<lambda>i. [ucast (drop_bit 8 (ident ! (27 + i))), ucast (ident ! (27 + i) AND 0xFF)]) [0..<20]) @ [0])"

definition ata_init :: "'m ports \<Rightarrow> 'm ata_state \<Rightarrow> bool \<times> 'm ata_state" where
  "ata_init P st =
     (let st = st\<lparr>drive := (drive st)\<lparr>ata_present := 0\<rparr>\<rparr>;
          m = outb P ATA_PRIMARY_CTRL 0x02 (machine st);
          m = ata_400ns_delay P m;
          m = outb P ATA_PRIMARY_CTRL 0x00 m;
          m = outb P ATA_PRIMARY_DRIVE 0xA0 m;
          m = ata_400ns_delay P m;
          (ready, m) = ata_wait_ready P m
      in if \<not> ready then (False, st\<lparr>machine := m\<rparr>)
         else
           let m = outb P ATA_PRIMARY_COUNT 0 m;
               m = outb P ATA_PRIMARY_LBA_LO 0 m;
               m = outb P ATA_PRIMARY_LBA_MID 0 m;
               m = outb P ATA_PRIMARY_LBA_HI 0 m;
               m = outb P ATA_PRIMARY_CMD ATA_CMD_IDENT m;
               m = ata_400ns_delay P m;
               (status, m) = inb P ATA_PRIMARY_STATUS m
           in if status = 0 then (False, st\<lparr>machine := m\<rparr>)
              else
                let (drq, m) = ata_wait_drq P m in
                if \<not> drq then (False, st\<lparr>machine := m\<rparr>)
                else
                  let (ident, m) = read_words 256 P m in
                  (True, st\<lparr>machine := m, drive := \<lparr>ata_model = ident_model ident,
                     ata_sectors = ucast (ident ! 60) OR push_bit 16 (ucast (ident ! 61)), ata_present = 1\<rparr>\<rparr>))"

text \<open>Address and count registers, then the command: the same in both directions.\<close>

definition ata_command :: "'m ports \<Rightarrow> u32 \<Rightarrow> u8 \<Rightarrow> u8 \<Rightarrow> 'm \<Rightarrow> 'm" where
  "ata_command P lba count cmd m =
     (let m = outb P ATA_PRIMARY_DRIVE (0xE0 OR ucast (drop_bit 24 lba AND 0x0F)) m;
          m = outb P ATA_PRIMARY_COUNT count m;
          m = outb P ATA_PRIMARY_LBA_LO (ucast lba) m;
          m = outb P ATA_PRIMARY_LBA_MID (ucast (drop_bit 8 lba)) m;
          m = outb P ATA_PRIMARY_LBA_HI (ucast (drop_bit 16 lba)) m
      in outb P ATA_PRIMARY_CMD cmd m)"

text \<open>One round per sector; the words stored so far are part of the result.\<close>

fun read_sectors :: "nat \<Rightarrow> 'm ports \<Rightarrow> 'm \<Rightarrow> (bool \<times> u16 list) \<times> 'm" where
  "read_sectors 0 P m = ((True, []), m)"
| "read_sectors (Suc n) P m =
     (let m = ata_400ns_delay P m; (drq, m) = ata_wait_drq P m in
      if \<not> drq then ((False, []), m)
      else
        let (ws, m) = read_words 256 P m; ((ok, vs), m) = read_sectors n P m
        in ((ok, ws @ vs), m))"

definition ata_read :: "'m ports \<Rightarrow> u32 \<Rightarrow> u8 \<Rightarrow> 'm ata_state \<Rightarrow> (bool \<times> bytes) \<times> 'm ata_state" where
  "ata_read P lba count st =
     (if ata_present (drive st) = 0 then ((False, []), st)
      else
        let (ready, m) = ata_wait_ready P (machine st) in
        if \<not> ready then ((False, []), st\<lparr>machine := m\<rparr>)
        else
          let m = ata_command P lba count ATA_CMD_READ m;
              ((ok, ws), m) = read_sectors (unat count) P m
          in ((ok, concat (map le16 ws)), st\<lparr>machine := m\<rparr>))"

fun write_sectors :: "nat \<Rightarrow> 'm ports \<Rightarrow> u16 list \<Rightarrow> 'm \<Rightarrow> bool \<times> 'm" where
  "write_sectors 0 P ws m = (True, m)"
| "write_sectors (Suc n) P ws m =
     (let m = ata_400ns_delay P m; (drq, m) = ata_wait_drq P m in
      if \<not> drq then (False, m)
      else write_sectors n P (drop 256 ws) (write_words (take 256 ws) P m))"

definition words_of :: "bytes \<Rightarrow> u16 list" where
  "words_of buf = map (\<lambda>i. rd16 buf (2 * i)) [0..<length buf div 2]"

definition ata_write :: "'m ports \<Rightarrow> u32 \<Rightarrow> u8 \<Rightarrow> bytes \<Rightarrow> 'm ata_state \<Rightarrow> bool \<times> 'm ata_state" where
  "ata_write P lba count buf st =
     (if ata_present (drive st) = 0 then (False, st)
      else
        let (ready, m) = ata_wait_ready P (machine st) in
        if \<not> ready then (False, st\<lparr>machine := m\<rparr>)
        else
          let m = ata_command P lba count ATA_CMD_WRITE m;
              (ok, m) = write_sectors (unat count) P (words_of buf) m
          in if \<not> ok then (False, st\<lparr>machine := m\<rparr>)
             else
               let m = outb P ATA_PRIMARY_CMD 0xE7 m;
                   m = ata_400ns_delay P m;
                   (ready, m) = ata_wait_ready P m
               in (ready, st\<lparr>machine := m\<rparr>))"

definition ata_get_drive :: "'m ata_state \<Rightarrow> ata_drive" where
  "ata_get_drive st = drive st"

text \<open>The driver as the file system uses it.\<close>

definition ata_dev :: "'m ports \<Rightarrow> 'm ata_state dev" where
  "ata_dev P = \<lparr>dev_read = (\<lambda>lba st. let ((ok, bs), st) = ata_read P lba 1 st in (if ok then Some bs else None, st)),
     dev_write = (\<lambda>lba b st. ata_write P lba 1 b st)\<rparr>"

section \<open>A drive behind the ports\<close>

text \<open>
  The drive keeps its registers, stays busy for \<open>sim_lat\<close> status reads after a command,
  and offers the words of the addressed sectors, or takes them, while it requests data.
\<close>

datatype sim_mode = Idle | Sending "u16 list" | Receiving u32 nat "u16 list"

record sim =
  sim_disk :: "u32 \<Rightarrow> bytes"
  sim_count :: u8
  sim_lo :: u8
  sim_mid :: u8
  sim_hi :: u8
  sim_dh :: u8
  sim_mode :: sim_mode
  sim_busy :: nat
  sim_lat :: nat

definition sim_lba :: "sim \<Rightarrow> u32" where
  "sim_lba s = ucast (sim_lo s) OR push_bit 8 (ucast (sim_mid s)) OR push_bit 16 (ucast (sim_hi s))
     OR push_bit 24 (ucast (sim_dh s AND 0x0F))"

definition sim_status :: "sim \<Rightarrow> u8" where
  "sim_status s = (if sim_busy s > 0 then 0x80 else if sim_mode s = Idle then 0x40 else 0x48)"

definition sim_ident :: "u16 list" where
  "sim_ident = replicate 27 0 @ replicate 20 0x2020 @ replicate 13 0 @ [0, 0x1000] @ replicate 194 0"

definition sim_command :: "u8 \<Rightarrow> sim \<Rightarrow> sim" where
  "sim_command cmd s =
     (let s = s\<lparr>sim_busy := sim_lat s\<rparr> in
      if cmd = 0x20 then s\<lparr>sim_mode := Sending (words_of (concat (map (\<lambda>i. sim_disk s (sim_lba s + of_nat i)) [0..<unat (sim_count s)])))\<rparr>
      else if cmd = 0x30 then s\<lparr>sim_mode := Receiving (sim_lba s) (unat (sim_count s)) []\<rparr>
      else if cmd = 0xEC then s\<lparr>sim_mode := Sending sim_ident\<rparr>
      else s\<lparr>sim_mode := Idle\<rparr>)"

definition sim_inb :: "u16 \<Rightarrow> sim \<Rightarrow> u8 \<times> sim" where
  "sim_inb port s =
     (if port = 0x1F7 then (sim_status s, s\<lparr>sim_busy := sim_busy s - 1\<rparr>)
      else if port = 0x3F6 then (sim_status s, s) else (0, s))"

definition sim_inw :: "u16 \<Rightarrow> sim \<Rightarrow> u16 \<times> sim" where
  "sim_inw port s =
     (case sim_mode s of
        Sending (w # ws) \<Rightarrow> (w, s\<lparr>sim_mode := if ws = [] then Idle else Sending ws\<rparr>)
      | _ \<Rightarrow> (0, s))"

definition sim_outb :: "u16 \<Rightarrow> u8 \<Rightarrow> sim \<Rightarrow> sim" where
  "sim_outb port v s =
     (if port = 0x1F2 then s\<lparr>sim_count := v\<rparr>
      else if port = 0x1F3 then s\<lparr>sim_lo := v\<rparr>
      else if port = 0x1F4 then s\<lparr>sim_mid := v\<rparr>
      else if port = 0x1F5 then s\<lparr>sim_hi := v\<rparr>
      else if port = 0x1F6 then s\<lparr>sim_dh := v\<rparr>
      else if port = 0x1F7 then sim_command v s
      else s)"

definition sim_outw :: "u16 \<Rightarrow> u16 \<Rightarrow> sim \<Rightarrow> sim" where
  "sim_outw port w s =
     (case sim_mode s of
        Receiving l n ws \<Rightarrow>
          if length ws < 255 then s\<lparr>sim_mode := Receiving l n (ws @ [w])\<rparr>
          else s\<lparr>sim_disk := (sim_disk s)(l := concat (map le16 (ws @ [w]))),
                 sim_mode := if n = 1 then Idle else Receiving (l + 1) (n - 1) []\<rparr>
      | _ \<Rightarrow> s)"

definition sim_ports :: "sim ports" where
  "sim_ports = \<lparr>inb = sim_inb, inw = sim_inw, outb = sim_outb, outw = sim_outw\<rparr>"

section \<open>The driver on this drive\<close>

lemma sim_ports_simps [simp]:
  "inb sim_ports = sim_inb" "inw sim_ports = sim_inw" "outb sim_ports = sim_outb" "outw sim_ports = sim_outw"
  by (simp_all add: sim_ports_def)

lemma sim_delay [simp]: "ata_400ns_delay sim_ports m = m"
  by (simp add: ata_400ns_delay_def sim_inb_def)

lemma sim_wait_ready_loop: "sim_busy m < n \<Longrightarrow> wait_ready_loop n sim_ports m = (True, m\<lparr>sim_busy := 0\<rparr>)"
proof (induction n arbitrary: m)
  case (Suc n)
  then show ?case by (cases "sim_busy m") (auto simp: sim_inb_def sim_status_def)
qed simp

lemma sim_wait_drq_loop:
  "sim_busy m < n \<Longrightarrow> sim_mode m \<noteq> Idle \<Longrightarrow> wait_drq_loop n sim_ports m = (True, m\<lparr>sim_busy := 0\<rparr>)"
proof (induction n arbitrary: m)
  case (Suc n)
  then show ?case by (cases "sim_busy m") (auto simp: sim_inb_def sim_status_def)
qed simp

lemma sim_waits:
  "sim_busy m < 100000 \<Longrightarrow> ata_wait_ready sim_ports m = (True, m\<lparr>sim_busy := 0\<rparr>)"
  "sim_busy m < 100000 \<Longrightarrow> sim_mode m \<noteq> Idle \<Longrightarrow> ata_wait_drq sim_ports m = (True, m\<lparr>sim_busy := 0\<rparr>)"
  unfolding ata_wait_ready_def ata_wait_drq_def
  by (rule sim_wait_ready_loop, assumption) (rule sim_wait_drq_loop)

lemma lba_split:
  assumes "lba < MAX_LBA"
  shows "ucast (ucast lba :: u8) OR push_bit 8 (ucast (ucast (drop_bit 8 lba) :: u8))
    OR push_bit 16 (ucast (ucast (drop_bit 16 lba) :: u8))
    OR push_bit 24 (ucast ((0xE0 OR ucast (drop_bit 24 lba AND 0x0F) :: u8) AND 0x0F)) = lba"
proof -
  have "unat (drop_bit 24 lba) < 16"
    using assms by (simp add: unat_drop_bit word_less_nat_alt less_mult_imp_div_less)
  then have "drop_bit 24 lba = take_bit 4 (drop_bit 24 lba)"
    by (simp add: word_unat_eq_iff unsigned_take_bit_eq take_bit_nat_eq_self)
  moreover have "(e OR ucast (x AND m')) AND m = ucast (take_bit 4 x)"
    if "\<And>n. bit m n \<longleftrightarrow> n < 4" "\<And>n. bit m' n \<longleftrightarrow> n < 4" "\<And>n. bit e n \<Longrightarrow> 4 \<le> n" for e m :: u8 and m' x :: u32
    by (rule bit_word_eqI) (auto simp: bit_and_iff bit_or_iff bit_unsigned_iff bit_take_bit_iff that(1,2) dest: that(3))
  then have "(0xE0 OR ucast (drop_bit 24 lba AND 0x0F) :: u8) AND 0x0F = ucast (take_bit 4 (drop_bit 24 lba))"
  proof this
    fix n
    show "bit (0x0F :: u8) n \<longleftrightarrow> n < 4" "bit (0x0F :: u32) n \<longleftrightarrow> n < 4"
      using bit_mask_iff [of 4 n, where 'a = u8] bit_mask_iff [of 4 n, where 'a = u32]
      by (auto simp: mask_eq_exp_minus_1)
    have "(0xE0 :: u8) = push_bit 5 7" by (simp add: push_bit_eq_mult)
    then show "bit (0xE0 :: u8) n \<Longrightarrow> 4 \<le> n" by (simp only: bit_push_bit_iff) simp
  qed
  ultimately have "ucast ((0xE0 OR ucast (drop_bit 24 lba AND 0x0F) :: u8) AND 0x0F) = (ucast (ucast (drop_bit 24 lba) :: u8) :: u32)"
    by simp
  then show ?thesis by (simp only: le32_join)
qed

text \<open>The command leaves the address in the registers.\<close>

lemma sim_ata_command:
  assumes "lba < MAX_LBA"
  obtains m' where "ata_command sim_ports lba count cmd m = sim_command cmd m'" "sim_lba m' = lba"
    "sim_count m' = count" "sim_disk m' = sim_disk m" "sim_lat m' = sim_lat m"
proof
  let ?m = "m\<lparr>sim_dh := 0xE0 OR ucast (drop_bit 24 lba AND 0x0F), sim_count := count, sim_lo := ucast lba,
    sim_mid := ucast (drop_bit 8 lba), sim_hi := ucast (drop_bit 16 lba)\<rparr>"
  show "ata_command sim_ports lba count cmd m = sim_command cmd ?m"
    by (simp add: ata_command_def sim_outb_def Let_def)
  show "sim_lba ?m = lba" using lba_split [OF assms] by (simp add: sim_lba_def)
qed simp_all

lemma sim_read_words:
  "sim_mode m = Sending ws \<Longrightarrow> 0 < n \<Longrightarrow> n \<le> length ws \<Longrightarrow>
     read_words n sim_ports m = (take n ws, m\<lparr>sim_mode := if n = length ws then Idle else Sending (drop n ws)\<rparr>)"
proof (induction n arbitrary: m ws)
  case (Suc n)
  obtain w vs where ws: "ws = w # vs" using Suc.prems(3) by (cases ws) auto
  show ?case
  proof (cases "n = 0")
    case True
    then show ?thesis using Suc.prems ws by (simp add: sim_inw_def)
  next
    case False
    then have "vs \<noteq> []" using Suc.prems(3) ws by auto
    then show ?thesis
      using Suc.IH [of "m\<lparr>sim_mode := Sending vs\<rparr>" vs] Suc.prems ws False by (simp add: sim_inw_def)
  qed
qed simp

lemma length_words_of [simp]: "length (words_of b) = length b div 2"
  by (simp add: words_of_def)

lemma bytes_words: "even (length b) \<Longrightarrow> concat (map le16 (words_of b)) = b"
proof -
  have "concat (map (\<lambda>i. le16 (rd16 b (2 * i))) [0..<k]) = take (2 * k) b" if "2 * k \<le> length b" for k
    using that
  proof (induction k)
    case (Suc k)
    then have "take (Suc (Suc (2 * k))) b = take (2 * k) b @ [b ! (2 * k), b ! (Suc (2 * k))]"
      by (simp add: take_Suc_conv_app_nth)
    with Suc show ?case by (simp add: le16_rd16)
  qed simp
  from this [of "length b div 2"] show "even (length b) \<Longrightarrow> concat (map le16 (words_of b)) = b"
    by (simp add: words_of_def comp_def)
qed

lemma sim_write_words:
  "sim_mode m = Receiving l n acc \<Longrightarrow> length acc + length ws < 256 \<Longrightarrow>
     write_words ws sim_ports m = m\<lparr>sim_mode := Receiving l n (acc @ ws)\<rparr>"
proof (induction ws arbitrary: m acc)
  case (Cons w ws)
  then show ?case using Cons.IH [of "m\<lparr>sim_mode := Receiving l n (acc @ [w])\<rparr>" "acc @ [w]"]
    by (simp add: write_words_def sim_outw_def)
qed (simp add: write_words_def)

lemma sim_write_sector:
  assumes "sim_mode m = Receiving l 1 []" "length ws = 256"
  shows "write_words ws sim_ports m = m\<lparr>sim_disk := (sim_disk m)(l := concat (map le16 ws)), sim_mode := Idle\<rparr>"
proof -
  obtain vs w where ws: "ws = vs @ [w]" using assms(2) by (cases ws rule: rev_cases) auto
  then have vs: "length vs = 255" using assms(2) by simp
  have "write_words ws sim_ports m = sim_outw ATA_PRIMARY_DATA w (write_words vs sim_ports m)"
    by (simp add: ws write_words_def)
  also have "write_words vs sim_ports m = m\<lparr>sim_mode := Receiving l 1 vs\<rparr>"
    using sim_write_words [OF assms(1), of vs] vs by simp
  finally show ?thesis using ws vs by (simp add: sim_outw_def)
qed

definition sim_ok :: "sim ata_state \<Rightarrow> bool" where
  "sim_ok st \<longleftrightarrow> ata_present (drive st) \<noteq> 0 \<and> sim_mode (machine st) = Idle \<and>
     sim_busy (machine st) < 100000 \<and> sim_lat (machine st) < 100000 \<and>
     (\<forall>l < MAX_LBA. length (sim_disk (machine st) l) = SECTOR_SIZE)"

definition sim_sec :: "sim ata_state \<Rightarrow> u32 \<Rightarrow> bytes" where
  "sim_sec st l = sim_disk (machine st) l"

lemma sim_ata_read:
  assumes ok: "sim_ok st" and l: "l < MAX_LBA"
  obtains st' where "ata_read sim_ports l 1 st = ((True, sim_sec st l), st')" "sim_ok st'" "sim_sec st' = sim_sec st"
    "drive st' = drive st"
proof -
  let ?m = "(machine st)\<lparr>sim_busy := 0\<rparr>"
  obtain c where c: "ata_command sim_ports l 1 ATA_CMD_READ ?m = sim_command ATA_CMD_READ c"
      "sim_lba c = l" "sim_count c = 1" "sim_disk c = sim_disk ?m" "sim_lat c = sim_lat ?m"
    by (rule sim_ata_command [OF l])
  define b where "b = sim_disk (machine st) l"
  have b: "length b = 512" using ok l by (simp add: sim_ok_def b_def)
  let ?c = "c\<lparr>sim_busy := sim_lat c, sim_mode := Sending (words_of b)\<rparr>"
  have cmd: "sim_command ATA_CMD_READ c = ?c"
    using c by (simp add: sim_command_def Let_def b_def sim_lba_def)
  have drq: "ata_wait_drq sim_ports ?c = (True, ?c\<lparr>sim_busy := 0\<rparr>)"
    using ok c by (intro sim_waits) (simp_all add: sim_ok_def)
  have rd: "read_words 256 sim_ports (?c\<lparr>sim_busy := 0\<rparr>) = (words_of b, c\<lparr>sim_busy := 0, sim_mode := Idle\<rparr>)"
    using sim_read_words [of "?c\<lparr>sim_busy := 0\<rparr>" "words_of b" 256] b by simp
  have secs: "read_sectors (unat (1 :: u8)) sim_ports ?c = ((True, words_of b), c\<lparr>sim_busy := 0, sim_mode := Idle\<rparr>)"
    using drq rd by (simp add: Let_def)
  have rdy: "ata_wait_ready sim_ports (machine st) = (True, ?m)"
    using ok by (intro sim_waits) (simp add: sim_ok_def)
  have run: "ata_read sim_ports l 1 st = ((True, concat (map le16 (words_of b))), st\<lparr>machine := c\<lparr>sim_busy := 0, sim_mode := Idle\<rparr>\<rparr>)"
    unfolding ata_read_def rdy prod.case Let_def c(1) cmd secs using ok by (simp add: sim_ok_def)
  let ?st = "st\<lparr>machine := c\<lparr>sim_busy := 0, sim_mode := Idle\<rparr>\<rparr>"
  have "concat (map le16 (words_of b)) = sim_sec st l"
    using b by (simp add: bytes_words b_def sim_sec_def)
  with run have "ata_read sim_ports l 1 st = ((True, sim_sec st l), ?st)" by (simp only:)
  moreover have "sim_ok ?st" "sim_sec ?st = sim_sec st" "drive ?st = drive st"
    using ok c by (simp_all add: sim_ok_def sim_sec_def fun_eq_iff)
  ultimately show ?thesis by (rule that)
qed

lemma sim_ata_write:
  assumes ok: "sim_ok st" and l: "l < MAX_LBA" and b: "length b = SECTOR_SIZE"
  obtains st' where "ata_write sim_ports l 1 b st = (True, st')" "sim_ok st'" "sim_sec st' = (sim_sec st)(l := b)"
    "drive st' = drive st"
proof -
  let ?m = "(machine st)\<lparr>sim_busy := 0\<rparr>"
  obtain c where c: "ata_command sim_ports l 1 ATA_CMD_WRITE ?m = sim_command ATA_CMD_WRITE c"
      "sim_lba c = l" "sim_count c = 1" "sim_disk c = sim_disk ?m" "sim_lat c = sim_lat ?m"
    by (rule sim_ata_command [OF l])
  let ?c = "c\<lparr>sim_busy := sim_lat c, sim_mode := Receiving l 1 []\<rparr>"
  have cmd: "sim_command ATA_CMD_WRITE c = ?c"
    using c by (simp add: sim_command_def Let_def sim_lba_def)
  have drq: "ata_wait_drq sim_ports ?c = (True, ?c\<lparr>sim_busy := 0\<rparr>)"
    using ok c by (intro sim_waits) (simp_all add: sim_ok_def)
  define w where "w = c\<lparr>sim_busy := 0, sim_disk := (sim_disk c)(l := b), sim_mode := Idle\<rparr>"
  have ww: "write_words (words_of b) sim_ports (?c\<lparr>sim_busy := 0\<rparr>) = w"
    using b by (subst sim_write_sector [where l = l]) (simp_all add: bytes_words w_def)
  have "take 256 (words_of b) = words_of b" using b by simp
  then have secs: "write_sectors (unat (1 :: u8)) sim_ports (words_of b) ?c = (True, w)"
    using drq ww by (simp add: Let_def)
  have fl: "sim_outb ATA_PRIMARY_CMD 0xE7 w = w\<lparr>sim_busy := sim_lat w, sim_mode := Idle\<rparr>"
    by (simp add: sim_outb_def sim_command_def Let_def)
  have lat: "sim_lat w < 100000" using ok c by (simp add: w_def sim_ok_def)
  then have rdy2: "ata_wait_ready sim_ports (w\<lparr>sim_busy := sim_lat w, sim_mode := Idle\<rparr>)
      = (True, w\<lparr>sim_busy := 0, sim_mode := Idle\<rparr>)"
    by (subst sim_waits) simp_all
  have rdy: "ata_wait_ready sim_ports (machine st) = (True, ?m)"
    using ok by (intro sim_waits) (simp add: sim_ok_def)
  let ?st = "st\<lparr>machine := w\<lparr>sim_busy := 0, sim_mode := Idle\<rparr>\<rparr>"
  have "ata_write sim_ports l 1 b st = (True, ?st)"
    unfolding ata_write_def rdy prod.case Let_def c(1) cmd secs sim_delay sim_ports_simps fl rdy2
    using ok by (simp add: sim_ok_def)
  moreover have "sim_ok ?st" "sim_sec ?st = (sim_sec st)(l := b)" "drive ?st = drive st"
    using ok c b by (simp_all add: sim_ok_def sim_sec_def fun_eq_iff w_def)
  ultimately show ?thesis by (rule that)
qed

interpretation ata: reliable_dev "ata_dev sim_ports" sim_sec sim_ok
proof
  show "length (sim_sec d l) = SECTOR_SIZE" if "sim_ok d" "l < MAX_LBA" for d l
    using that by (simp add: sim_ok_def sim_sec_def)
  show "sim_ok d' \<and> sim_sec d' = sim_sec d \<and> (r = None \<or> r = Some (sim_sec d l))"
    if "sim_ok d" "l < MAX_LBA" "dev_read (ata_dev sim_ports) l d = (r, d')" for d l r d'
    by (rule sim_ata_read [OF that(1,2)]) (use that(3) in \<open>auto simp: ata_dev_def\<close>)
  show "sim_ok d' \<and> (\<forall>k. k \<noteq> l \<longrightarrow> sim_sec d' k = sim_sec d k) \<and> (ok \<longrightarrow> sim_sec d' l = b)"
    if "sim_ok d" "l < MAX_LBA" "length b = SECTOR_SIZE" "dev_write (ata_dev sim_ports) l b d = (ok, d')" for d l b ok d'
    by (rule sim_ata_write [OF that(1-3)]) (use that(4) in \<open>auto simp: ata_dev_def\<close>)
  show "fst (dev_read (ata_dev sim_ports) l d) \<noteq> None" if "sim_ok d" "l < MAX_LBA" for d l
    by (rule sim_ata_read [OF that]) (auto simp: ata_dev_def)
  show "fst (dev_write (ata_dev sim_ports) l b d)" if "sim_ok d" "l < MAX_LBA" "length b = SECTOR_SIZE" for d l b
    by (rule sim_ata_write [OF that]) (auto simp: ata_dev_def)
qed

section \<open>Properties\<close>

definition sim_blank :: "sim ata_state" where
  "sim_blank = \<lparr>machine = \<lparr>sim_disk = (\<lambda>_. replicate 512 0), sim_count = 0, sim_lo = 0, sim_mid = 0, sim_hi = 0,
     sim_dh = 0, sim_mode = Idle, sim_busy = 0, sim_lat = 3\<rparr>,
     drive = \<lparr>ata_model = replicate 41 0, ata_sectors = 0x100000, ata_present = 1\<rparr>\<rparr>"

lemma sim_blank_ok: "sim_ok sim_blank"
  by (simp add: sim_ok_def sim_blank_def)



lemma dead_wait:
  assumes "\<And>m. fst (inb P ATA_PRIMARY_STATUS m) AND (ATA_STATUS_BSY OR ATA_STATUS_ERR) \<noteq> 0"
  shows "\<not> fst (wait_ready_loop n P m)"
proof (induction n arbitrary: m)
  case (Suc n)
  obtain s m' where s: "inb P ATA_PRIMARY_STATUS m = (s, m')" by force
  have "s AND ATA_STATUS_BSY \<noteq> 0 \<or> s AND ATA_STATUS_ERR \<noteq> 0"
    using assms [of m] s by (simp only: fst_conv bit.conj_disj_distrib or_eq_0_iff) blast
  then show ?case using s Suc by auto
qed simp

text \<open>
  A missing or hanging drive is an error, not a hang: when every status read shows the
  error or the busy bit, as on a channel without a drive, \<open>ata_init\<close>, \<open>ata_read\<close> and
  \<open>ata_write\<close> give up after their bounded number of polls, whatever else the hardware
  does, and the drive found by a failed \<open>ata_init\<close> is marked absent.
\<close>

theorem dead_drive_fails:
  assumes "\<And>m. fst (inb P ATA_PRIMARY_STATUS m) AND (ATA_STATUS_BSY OR ATA_STATUS_ERR) \<noteq> 0"
  shows "fst (ata_read P lba count st) = (False, []) \<and> \<not> fst (ata_write P lba count buf st) \<and>
    \<not> fst (ata_init P st) \<and> ata_present (drive (snd (ata_init P st))) = 0"
proof -
  have dead: "\<not> fst (ata_wait_ready P m)" for m
    using dead_wait [OF assms] by (simp add: ata_wait_ready_def)
  have no: "ata_wait_ready P m = (False, snd (ata_wait_ready P m))" for m
    using dead [of m] by (cases "ata_wait_ready P m") auto
  show ?thesis
    unfolding ata_read_def ata_write_def ata_init_def by (subst (1 2 3 4) no) (simp add: Let_def split_beta)
qed

theorem dead_drive_fails_witness:
  "\<not> fst (ata_init (sim_ports\<lparr>inb := \<lambda>_ m. (0xFF, m)\<rparr>) sim_blank)"
  using dead_drive_fails [of "sim_ports\<lparr>inb := \<lambda>_ m. (0xFF, m)\<rparr>"] by simp

end
