(* ===== verification/TetfsDisk.thy ===== *)
theory TetfsDisk
  imports CString
begin

text \<open>
  The disk structures of tetFS, \<open>kernel/fs/tetfs.h\<close>, and the pure routines of
  \<open>kernel/fs/tetfs.c\<close> on them: the 64-byte inode as a byte codec, the block bitmap and
  its first-fit allocator.
\<close>

abbreviation "TETFS_MAGIC \<equiv> (0x74455453 :: u32)"
abbreviation "TETFS_VERSION \<equiv> (1 :: u32)"
abbreviation "TETFS_LBA_SUPER \<equiv> (256 :: u32)"
abbreviation "TETFS_LBA_INODES \<equiv> (257 :: u32)"
abbreviation "TETFS_LBA_BITMAP \<equiv> (261 :: u32)"
abbreviation "TETFS_LBA_DATA \<equiv> (263 :: u32)"
abbreviation "TETFS_INODE_SIZE \<equiv> (64 :: nat)"
abbreviation "TETFS_MAX_INODES \<equiv> (32 :: u16)"
abbreviation "TETFS_BLOCK_SIZE \<equiv> (512 :: u32)"
abbreviation "TETFS_MAX_BLOCKS \<equiv> (1024 :: nat)"
abbreviation "TETFS_MAX_FILE_BLOCKS \<equiv> (16 :: u16)"
abbreviation "TETFS_ROOT_INODE \<equiv> (0 :: u16)"
abbreviation "TETFS_TYPE_FREE \<equiv> (0 :: u8)"
abbreviation "TETFS_TYPE_FILE \<equiv> (1 :: u8)"
abbreviation "TETFS_TYPE_DIR \<equiv> (2 :: u8)"

section \<open>Superblock\<close>

record tetfs_super =
  s_magic :: u32
  s_version :: u32
  s_total_blocks :: u32
  s_free_blocks :: u32
  s_inode_count :: u32
  s_first_data_lba :: u32
  s_reserved :: bytes

definition enc_super :: "tetfs_super \<Rightarrow> bytes" where
  "enc_super s = le32 (s_magic s) @ le32 (s_version s) @ le32 (s_total_blocks s) @ le32 (s_free_blocks s)
     @ le32 (s_inode_count s) @ le32 (s_first_data_lba s) @ s_reserved s"

definition dec_super :: "bytes \<Rightarrow> tetfs_super" where
  "dec_super b = \<lparr>s_magic = rd32 b 0, s_version = rd32 b 4, s_total_blocks = rd32 b 8, s_free_blocks = rd32 b 12,
     s_inode_count = rd32 b 16, s_first_data_lba = rd32 b 20, s_reserved = drop 24 b\<rparr>"

lemma dec_enc_super [codec_simps]: "dec_super (enc_super s) = s"
proof -
  have "rd32 (enc_super s) 0 = s_magic s"
    by (rule rd32_at [where xs = "[]"]) (simp_all add: enc_super_def)
  moreover have "rd32 (enc_super s) 4 = s_version s"
    by (rule rd32_at [where xs = "le32 (s_magic s)"]) (simp_all add: enc_super_def)
  moreover have "rd32 (enc_super s) 8 = s_total_blocks s"
    by (rule rd32_at [where xs = "le32 (s_magic s) @ le32 (s_version s)"]) (simp_all add: enc_super_def)
  moreover have "rd32 (enc_super s) 12 = s_free_blocks s"
    by (rule rd32_at [where xs = "le32 (s_magic s) @ le32 (s_version s) @ le32 (s_total_blocks s)"])
      (simp_all add: enc_super_def)
  moreover have "rd32 (enc_super s) 16 = s_inode_count s"
    by (rule rd32_at [where xs = "le32 (s_magic s) @ le32 (s_version s) @ le32 (s_total_blocks s) @ le32 (s_free_blocks s)"])
      (simp_all add: enc_super_def)
  moreover have "rd32 (enc_super s) 20 = s_first_data_lba s"
    by (rule rd32_at [where xs = "le32 (s_magic s) @ le32 (s_version s) @ le32 (s_total_blocks s) @ le32 (s_free_blocks s)
        @ le32 (s_inode_count s)"]) (simp_all add: enc_super_def)
  moreover have "drop 24 (enc_super s) = s_reserved s"
    by (simp add: enc_super_def)
  ultimately show ?thesis by (simp add: dec_super_def)
qed

section \<open>Inodes\<close>

record tetfs_inode =
  i_type :: u8
  i_name :: bytes
  i_size :: u32
  i_start_block :: u16
  i_block_count :: u16
  i_parent :: u16
  i_reserved :: bytes

definition zero_inode :: tetfs_inode where
  "zero_inode = \<lparr>i_type = 0, i_name = replicate 51 0, i_size = 0, i_start_block = 0, i_block_count = 0,
     i_parent = 0, i_reserved = [0, 0]\<rparr>"

definition enc_inode :: "tetfs_inode \<Rightarrow> bytes" where
  "enc_inode n = [i_type n] @ i_name n @ le32 (i_size n) @ le16 (i_start_block n) @ le16 (i_block_count n)
     @ le16 (i_parent n) @ i_reserved n"

definition dec_inode :: "bytes \<Rightarrow> tetfs_inode" where
  "dec_inode b = \<lparr>i_type = b ! 0, i_name = slice 1 51 b, i_size = rd32 b 52, i_start_block = rd16 b 56,
     i_block_count = rd16 b 58, i_parent = rd16 b 60, i_reserved = slice 62 2 b\<rparr>"

definition inode_wf :: "tetfs_inode \<Rightarrow> bool" where
  "inode_wf n \<longleftrightarrow> length (i_name n) = 51 \<and> length (i_reserved n) = 2"

lemma zero_inode_wf [simp]: "inode_wf zero_inode"
  by (simp add: inode_wf_def zero_inode_def)

lemma zero_inode_fields [simp]: "i_type zero_inode = 0" "i_block_count zero_inode = 0" "i_size zero_inode = 0"
  "i_start_block zero_inode = 0" "i_parent zero_inode = 0" "i_name zero_inode = replicate 51 0"
  by (simp_all add: zero_inode_def)

lemma length_enc_inode [simp]: "inode_wf n \<Longrightarrow> length (enc_inode n) = 64"
  by (simp add: enc_inode_def inode_wf_def)

lemma dec_inode_wf [simp]: "length b = 64 \<Longrightarrow> inode_wf (dec_inode b)"
  by (simp add: dec_inode_def inode_wf_def)

lemma dec_enc_inode [codec_simps]: "inode_wf n \<Longrightarrow> dec_inode (enc_inode n) = n"
proof -
  assume wf: "inode_wf n"
  have "rd32 (enc_inode n) 52 = i_size n"
    by (rule rd32_at [where xs = "[i_type n] @ i_name n"]) (use wf in \<open>simp_all add: enc_inode_def inode_wf_def\<close>)
  moreover have "rd16 (enc_inode n) 56 = i_start_block n"
    by (rule rd16_at [where xs = "[i_type n] @ i_name n @ le32 (i_size n)"])
      (use wf in \<open>simp_all add: enc_inode_def inode_wf_def\<close>)
  moreover have "rd16 (enc_inode n) 58 = i_block_count n"
    by (rule rd16_at [where xs = "[i_type n] @ i_name n @ le32 (i_size n) @ le16 (i_start_block n)"])
      (use wf in \<open>simp_all add: enc_inode_def inode_wf_def\<close>)
  moreover have "rd16 (enc_inode n) 60 = i_parent n"
    by (rule rd16_at [where xs = "[i_type n] @ i_name n @ le32 (i_size n) @ le16 (i_start_block n) @ le16 (i_block_count n)"])
      (use wf in \<open>simp_all add: enc_inode_def inode_wf_def\<close>)
  moreover have "slice 1 51 (enc_inode n) = i_name n" "slice 62 2 (enc_inode n) = i_reserved n" "enc_inode n ! 0 = i_type n"
    using wf by (simp_all add: slice_def enc_inode_def inode_wf_def)
  ultimately show ?thesis by (simp add: dec_inode_def)
qed

section \<open>The block bitmap\<close>

definition bitmap_get :: "bytes \<Rightarrow> u16 \<Rightarrow> bool" where
  "bitmap_get bm bitno = (drop_bit (unat (bitno mod 8)) (bm ! unat (bitno div 8)) AND 1 \<noteq> 0)"

definition bitmap_set :: "bytes \<Rightarrow> u16 \<Rightarrow> bool \<Rightarrow> bytes" where
  "bitmap_set bm bitno val =
     (let k = unat (bitno div 8) in
      if val then bm[k := bm ! k OR push_bit (unat (bitno mod 8)) 1]
      else bm[k := bm ! k AND NOT (push_bit (unat (bitno mod 8)) 1)])"

text \<open>The loop of \<open>alloc_blocks\<close> over the indices that are left.\<close>

fun alloc_scan :: "bytes \<Rightarrow> u16 \<Rightarrow> u16 \<Rightarrow> u16 \<Rightarrow> nat list \<Rightarrow> u16 option" where
  "alloc_scan bm count start run [] = None"
| "alloc_scan bm count start run (i # is) =
     (if \<not> bitmap_get bm (of_nat i) then
        let start = (if run = 0 then of_nat i else start); run = run + 1 in
        if count \<le> run then Some start else alloc_scan bm count start run is
      else alloc_scan bm count start 0 is)"

definition set_range :: "bytes \<Rightarrow> u16 \<Rightarrow> nat \<Rightarrow> bool \<Rightarrow> bytes" where
  "set_range bm start n val = fold (\<lambda>j bm. bitmap_set bm (start + of_nat j) val) [0..<n] bm"

definition alloc_blocks :: "bytes \<Rightarrow> u16 \<Rightarrow> (u16 \<times> bytes) option" where
  "alloc_blocks bm count =
     (case alloc_scan bm count 0 0 [0..<TETFS_MAX_BLOCKS] of
        None \<Rightarrow> None
      | Some start \<Rightarrow> Some (start, set_range bm start (unat count) True))"

section \<open>The bitmap as a set of blocks\<close>

definition blk_used :: "bytes \<Rightarrow> nat \<Rightarrow> bool" where
  "blk_used bm n = bit (bm ! (n div 8)) (n mod 8)"

lemma and_1_bit: "drop_bit k w AND 1 \<noteq> 0 \<longleftrightarrow> bit w k" for w :: "'n::len word"
  by (simp add: and_one_eq odd_iff_mod_2_eq_one [symmetric] bit_iff_odd_drop_bit)

lemma bitmap_get_iff: "bitmap_get bm b \<longleftrightarrow> blk_used bm (unat b)"
  by (simp add: bitmap_get_def blk_used_def and_1_bit unat_div_distrib unat_mod_distrib)

lemma length_bitmap_set [simp]: "length (bitmap_set bm b v) = length bm"
  by (simp add: bitmap_set_def Let_def)

lemma blk_used_set:
  assumes "unat b < 8 * length bm"
  shows "blk_used (bitmap_set bm b v) n \<longleftrightarrow> (if n = unat b then v else blk_used bm n)"
proof -
  have "unat b div 8 < length bm" using assms by (simp add: less_mult_imp_div_less mult.commute)
  moreover have "n = unat b \<longleftrightarrow> n div 8 = unat b div 8 \<and> n mod 8 = unat b mod 8"
    by (metis div_mult_mod_eq)
  moreover have "n mod 8 < 8" by simp
  ultimately show ?thesis
    by (cases v) (auto simp: blk_used_def bitmap_set_def nth_list_update unat_div_distrib
        unat_mod_distrib bit_simps Let_def)
qed

lemma length_set_range [simp]: "length (set_range bm s n v) = length bm"
proof -
  have "length (fold (\<lambda>j bm. bitmap_set bm (f j) v) js b) = length b" for f :: "nat \<Rightarrow> u16" and js b
    by (induction js arbitrary: b) simp_all
  then show ?thesis by (simp add: set_range_def)
qed

lemma blk_used_set_range:
  assumes "unat s + n \<le> 8 * length bm" "length bm \<le> 1024"
  shows "blk_used (set_range bm s n v) k \<longleftrightarrow> (if unat s \<le> k \<and> k < unat s + n then v else blk_used bm k)"
  using assms
proof (induction n arbitrary: k)
  case 0
  then show ?case by (auto simp: set_range_def)
next
  case (Suc n)
  have u: "unat (s + of_nat n) = unat s + n"
    using Suc.prems by (subst unat_plus_small) (simp_all add: unat_of_nat_small)
  have "set_range bm s (Suc n) v = bitmap_set (set_range bm s n v) (s + of_nat n) v"
    by (simp add: set_range_def)
  moreover have "unat (s + of_nat n) < 8 * length (set_range bm s n v)" using Suc.prems u by simp
  ultimately show ?case using blk_used_set [of "s + of_nat n" "set_range bm s n v" v k] Suc u by auto
qed

section \<open>First fit\<close>

definition free_run :: "bytes \<Rightarrow> nat \<Rightarrow> nat \<Rightarrow> bool" where
  "free_run bm s c \<longleftrightarrow> s + c \<le> TETFS_MAX_BLOCKS \<and> (\<forall>k. s \<le> k \<and> k < s + c \<longrightarrow> \<not> blk_used bm k)"

lemma alloc_scan_correct:
  assumes "i \<le> TETFS_MAX_BLOCKS" "r \<le> i" "r < unat c" "run = of_nat r" "r > 0 \<longrightarrow> start = of_nat (i - r)"
    and "\<forall>k. i - r \<le> k \<and> k < i \<longrightarrow> \<not> blk_used bm k" "\<forall>s < i - r. \<not> free_run bm s (unat c)"
  shows "case alloc_scan bm c start run [i..<TETFS_MAX_BLOCKS] of
      None \<Rightarrow> \<forall>s. \<not> free_run bm s (unat c)
    | Some s \<Rightarrow> free_run bm (unat s) (unat c) \<and> (\<forall>t < unat s. \<not> free_run bm t (unat c))"
  using assms
proof (induction "TETFS_MAX_BLOCKS - i" arbitrary: i r run start)
  case 0
  then have "i = TETFS_MAX_BLOCKS" by simp
  then have "\<not> free_run bm s (unat c)" for s
    using 0 by (cases "s < i - r") (auto simp: free_run_def)
  with \<open>i = _\<close> show ?case by (simp only: upt_conv_Nil alloc_scan.simps) simp
next
  case (Suc d)
  then have i: "i < TETFS_MAX_BLOCKS" "d = TETFS_MAX_BLOCKS - Suc i" by auto
  have upt: "[i..<TETFS_MAX_BLOCKS] = i # [Suc i..<TETFS_MAX_BLOCKS]" using i(1) by (rule upt_conv_Cons)
  have get: "bitmap_get bm (of_nat i) \<longleftrightarrow> blk_used bm i"
    using i(1) by (simp add: bitmap_get_iff unat_of_nat_small)
  show ?case
  proof (cases "blk_used bm i")
    case True
    have "\<not> free_run bm s (unat c)" if "s < Suc i" for s
    proof (cases "s < i - r")
      case False
      then have "s \<le> i" "i < s + unat c" using that Suc.prems(2,3) by linarith+
      then show ?thesis using True by (auto simp: free_run_def)
    qed (use Suc.prems in blast)
    then show ?thesis
      unfolding upt using True get Suc.prems i Suc.hyps(1) [OF i(2), of 0 0 start] by simp
  next
    case False
    have r: "(run = 0) \<longleftrightarrow> r = 0" using Suc.prems i(1)
      by (simp add: word_unat_eq_iff unat_of_nat_small)
    define st where "st = (if run = 0 then of_nat i else start)"
    have st: "st = of_nat (i - r)" using Suc.prems(5) r by (auto simp: st_def)
    have "unat run = r" using Suc.prems(2,4) i(1) by (simp add: unat_of_nat_small)
    then have run1: "unat (run + 1) = Suc r"
      using Suc.prems(2) i(1) by (subst unat_plus_small) simp_all
    have run2: "run + 1 = of_nat (Suc r)" using Suc.prems(4) by (simp add: add.commute)
    have free: "\<forall>k. i - r \<le> k \<and> k < Suc i \<longrightarrow> \<not> blk_used bm k"
      using False Suc.prems(6) less_Suc_eq by auto
    show ?thesis
    proof (cases "c \<le> run + 1")
      case True
      then have c: "unat c = Suc r" using run1 Suc.prems(3) by (simp add: word_le_nat_alt)
      have u: "unat st = i - r" using st i(1) by (simp add: unat_of_nat_small)
      have "i - r + Suc r = Suc i" using Suc.prems(2) by simp
      then have "free_run bm (i - r) (unat c)" using free c i(1) by (simp add: free_run_def)
      then show ?thesis unfolding upt using False get True Suc.prems(7) u
        by (simp add: Let_def st_def [symmetric])
    next
      case c: False
      then have "Suc r < unat c" using run1 by (simp add: word_le_nat_alt)
      then have "case alloc_scan bm c st (run + 1) [Suc i..<TETFS_MAX_BLOCKS] of
          None \<Rightarrow> \<forall>s. \<not> free_run bm s (unat c)
        | Some s \<Rightarrow> free_run bm (unat s) (unat c) \<and> (\<forall>t < unat s. \<not> free_run bm t (unat c))"
        using Suc.prems free i run2 st by (intro Suc.hyps(1) [OF i(2), of "Suc r"]) auto
      then show ?thesis unfolding upt using False get c by (simp add: Let_def st_def [symmetric])
    qed
  qed
qed

lemma alloc_blocks_correct:
  assumes "length bm = 1024" "0 < count"
  shows "case alloc_blocks bm count of
      None \<Rightarrow> \<forall>s. \<not> free_run bm s (unat count)
    | Some (s, bm') \<Rightarrow> free_run bm (unat s) (unat count) \<and> (\<forall>t < unat s. \<not> free_run bm t (unat count)) \<and>
        length bm' = 1024 \<and>
        (\<forall>k. blk_used bm' k \<longleftrightarrow> unat s \<le> k \<and> k < unat s + unat count \<or> blk_used bm k)"
proof -
  have "case alloc_scan bm count 0 0 [0..<TETFS_MAX_BLOCKS] of
      None \<Rightarrow> \<forall>s. \<not> free_run bm s (unat count)
    | Some s \<Rightarrow> free_run bm (unat s) (unat count) \<and> (\<forall>t < unat s. \<not> free_run bm t (unat count))"
    using assms(2) by (intro alloc_scan_correct [where r = 0]) (simp_all add: word_less_nat_alt)
  moreover have "blk_used (set_range bm s (unat count) True) k
      \<longleftrightarrow> unat s \<le> k \<and> k < unat s + unat count \<or> blk_used bm k"
    if "free_run bm (unat s) (unat count)" for s k
    using that assms(1) by (subst blk_used_set_range) (auto simp: free_run_def)
  ultimately show ?thesis
    using assms(1) by (auto simp: alloc_blocks_def split: option.splits)
qed

section \<open>Properties\<close>

text \<open>
  \<open>alloc_blocks\<close> is first fit: it fails exactly when the bitmap has no \<open>count\<close> free
  blocks in a row, and otherwise takes the lowest such run, marking these blocks and no
  others.
\<close>

theorem alloc_blocks_first_fit:
  assumes "length bm = 1024" "0 < count"
  shows "case alloc_blocks bm count of
      None \<Rightarrow> \<forall>s. \<not> free_run bm s (unat count)
    | Some (s, bm') \<Rightarrow> free_run bm (unat s) (unat count) \<and> (\<forall>t < unat s. \<not> free_run bm t (unat count)) \<and>
        length bm' = 1024 \<and>
        (\<forall>k. blk_used bm' k \<longleftrightarrow> unat s \<le> k \<and> k < unat s + unat count \<or> blk_used bm k)"
  using assms by (rule alloc_blocks_correct)

theorem alloc_blocks_first_fit_witness:
  "\<exists>s bm. alloc_blocks (0x0D # replicate 1023 0) 3 = Some (s, bm) \<and> \<not> free_run (0x0D # replicate 1023 0) 1 3 \<and>
     blk_used bm 4"
proof -
  let ?b = "0x0D # replicate 1023 (0 :: u8)"
  have used: "blk_used ?b k \<longleftrightarrow> k = 0 \<or> k = 2 \<or> k = 3" if "k < 8" for k
  proof -
    have "k \<in> {0, 1, 2, 3, 4, 5, 6, 7}" using that by auto
    then show ?thesis by (auto simp: blk_used_def bit_iff_odd_drop_bit drop_bit_eq_div)
  qed
  have zero: "\<not> blk_used ?b k" if "8 \<le> k" "k < 8192" for k
  proof -
    have "k div 8 \<noteq> 0" "k div 8 < 1024" using that by auto
    then show ?thesis by (simp add: blk_used_def nth_Cons')
  qed
  have run: "free_run ?b 4 3" using used by (auto simp: free_run_def)
  have not: "\<not> free_run ?b t 3" if "t < 4" for t
  proof -
    have "blk_used ?b 2" "blk_used ?b 3" using used by simp_all
    moreover have "t \<le> 2 \<and> 2 < t + 3 \<or> t \<le> 3 \<and> 3 < t + 3" using that by linarith
    ultimately show ?thesis unfolding free_run_def by blast
  qed
  note fit = alloc_blocks_first_fit [of ?b 3]
  then obtain s bm where s: "alloc_blocks ?b 3 = Some (s, bm)" "free_run ?b (unat s) 3"
      "\<forall>t < unat s. \<not> free_run ?b t 3" "\<forall>k. blk_used bm k \<longleftrightarrow> unat s \<le> k \<and> k < unat s + 3 \<or> blk_used ?b k"
    using run by (auto split: option.splits)
  have "unat s = 4" using s(2,3) run not by (metis linorder_neqE_nat)
  with s not [of 1] show ?thesis by auto
qed

end
