(* ===== verification/Tetfs.thy ===== *)
theory Tetfs
  imports TetfsDisk BlockDev Ata
begin

text \<open>
  The flat file system, \<open>kernel/fs/tetfs.c\<close>: its operations on the disk, over any block
  device with the interface of \<open>BlockDev\<close>. The result codes are the code's, with -1 for
  an error. A buffer filled by the code is part of the result; a C string argument is the
  byte list at the pointer.
\<close>

section \<open>Sectors and inodes\<close>

definition read_super :: "'d dev \<Rightarrow> 'd \<Rightarrow> tetfs_super option \<times> 'd" where
  "read_super D d =
     (let (r, d) = dev_read D TETFS_LBA_SUPER d in (map_option dec_super r, d))"

definition write_super :: "'d dev \<Rightarrow> tetfs_super \<Rightarrow> 'd \<Rightarrow> bool \<times> 'd" where
  "write_super D s d = dev_write D TETFS_LBA_SUPER (blit (replicate 512 0) 0 (enc_super s)) d"

definition read_inode_sector :: "'d dev \<Rightarrow> u32 \<Rightarrow> 'd \<Rightarrow> bytes option \<times> 'd" where
  "read_inode_sector D lba d = dev_read D lba d"

definition write_inode_sector :: "'d dev \<Rightarrow> u32 \<Rightarrow> bytes \<Rightarrow> 'd \<Rightarrow> bool \<times> 'd" where
  "write_inode_sector D lba buf d = dev_write D lba buf d"

definition inode_lba :: "u16 \<Rightarrow> u32" where
  "inode_lba idx = TETFS_LBA_INODES + ucast (idx div 8)"

definition inode_off :: "u16 \<Rightarrow> nat" where
  "inode_off idx = unat (idx mod 8) * TETFS_INODE_SIZE"

definition tetfs_read_inode :: "'d dev \<Rightarrow> u16 \<Rightarrow> 'd \<Rightarrow> tetfs_inode option \<times> 'd" where
  "tetfs_read_inode D idx d =
     (if TETFS_MAX_INODES \<le> idx then (None, d)
      else
        let (r, d) = read_inode_sector D (inode_lba idx) d in
        case r of
          None \<Rightarrow> (None, d)
        | Some buf \<Rightarrow> (Some (dec_inode (slice (inode_off idx) TETFS_INODE_SIZE buf)), d))"

definition write_inode :: "'d dev \<Rightarrow> u16 \<Rightarrow> tetfs_inode \<Rightarrow> 'd \<Rightarrow> bool \<times> 'd" where
  "write_inode D idx n d =
     (if TETFS_MAX_INODES \<le> idx then (False, d)
      else
        let (r, d) = read_inode_sector D (inode_lba idx) d in
        case r of
          None \<Rightarrow> (False, d)
        | Some buf \<Rightarrow> write_inode_sector D (inode_lba idx) (blit buf (inode_off idx) (enc_inode n)) d)"

definition read_bitmap :: "'d dev \<Rightarrow> 'd \<Rightarrow> bytes option \<times> 'd" where
  "read_bitmap D d =
     (let (r1, d) = dev_read D TETFS_LBA_BITMAP d in
      case r1 of
        None \<Rightarrow> (None, d)
      | Some b1 \<Rightarrow>
          let (r2, d) = dev_read D (TETFS_LBA_BITMAP + 1) d in (map_option (\<lambda>b2. b1 @ b2) r2, d))"

definition write_bitmap :: "'d dev \<Rightarrow> bytes \<Rightarrow> 'd \<Rightarrow> bool \<times> 'd" where
  "write_bitmap D bm d =
     (let (ok, d) = dev_write D TETFS_LBA_BITMAP (take 512 bm) d in
      if \<not> ok then (False, d) else dev_write D (TETFS_LBA_BITMAP + 1) (drop 512 bm) d)"

section \<open>Formatting\<close>

text \<open>A loop that writes a zero sector to each of the addresses.\<close>

fun zero_sectors :: "'d dev \<Rightarrow> u32 list \<Rightarrow> 'd \<Rightarrow> bool \<times> 'd" where
  "zero_sectors D [] d = (True, d)"
| "zero_sectors D (l # ls) d =
     (let (ok, d) = dev_write D l (replicate 512 0) d in
      if \<not> ok then (False, d) else zero_sectors D ls d)"

definition fresh_super :: tetfs_super where
  "fresh_super = \<lparr>s_magic = TETFS_MAGIC, s_version = TETFS_VERSION, s_total_blocks = 1024, s_free_blocks = 1024,
     s_inode_count = 32, s_first_data_lba = TETFS_LBA_DATA, s_reserved = replicate 488 0\<rparr>"

definition root_inode :: tetfs_inode where
  "root_inode = zero_inode\<lparr>i_type := TETFS_TYPE_DIR, i_name := 0x2F # 0 # replicate 49 0, i_parent := 0xFFFF\<rparr>"

text \<open>The state of \<open>tetfs.c\<close>: the mount flag, the descriptors, and the disk.\<close>

record tetfs_fd =
  fd_used :: u8
  fd_inode :: u16
  fd_offset :: u32

record 'd tetfs =
  fs_mounted :: bool
  fd_table :: "tetfs_fd list"
  disk :: 'd

definition tetfs_format :: "'d dev \<Rightarrow> 'd tetfs \<Rightarrow> int \<times> 'd tetfs" where
  "tetfs_format D fs =
     (let (ok, d) = write_super D fresh_super (disk fs) in
      if \<not> ok then (-1, fs\<lparr>disk := d\<rparr>)
      else
        let (ok, d) = zero_sectors D (map (\<lambda>i. TETFS_LBA_INODES + of_nat i) [0..<4]) d in
        if \<not> ok then (-1, fs\<lparr>disk := d\<rparr>)
        else
          let (ok, d) = zero_sectors D (map (\<lambda>i. TETFS_LBA_BITMAP + of_nat i) [0..<2]) d in
          if \<not> ok then (-1, fs\<lparr>disk := d\<rparr>)
          else
            let (ok, d) = write_inode D 0 root_inode d in
            if \<not> ok then (-1, fs\<lparr>disk := d\<rparr>)
            else (0, fs\<lparr>disk := d, fs_mounted := True\<rparr>))"

definition tetfs_mount :: "'d dev \<Rightarrow> 'd tetfs \<Rightarrow> int \<times> 'd tetfs" where
  "tetfs_mount D fs =
     (let (r, d) = read_super D (disk fs) in
      case r of
        None \<Rightarrow> (-1, fs\<lparr>disk := d\<rparr>)
      | Some s \<Rightarrow>
          if s_magic s \<noteq> TETFS_MAGIC then (-1, fs\<lparr>disk := d\<rparr>)
          else if s_version s \<noteq> TETFS_VERSION then (-1, fs\<lparr>disk := d\<rparr>)
          else (0, fs\<lparr>disk := d, fs_mounted := True\<rparr>))"

definition tetfs_is_mounted :: "'d tetfs \<Rightarrow> bool" where
  "tetfs_is_mounted fs = fs_mounted fs"

section \<open>Files\<close>

fun find_loop :: "'d dev \<Rightarrow> bytes \<Rightarrow> u16 \<Rightarrow> nat list \<Rightarrow> 'd \<Rightarrow> int \<times> 'd" where
  "find_loop D name parent [] d = (-1, d)"
| "find_loop D name parent (i # is) d =
     (let (r, d) = tetfs_read_inode D (of_nat i) d in
      case r of
        None \<Rightarrow> find_loop D name parent is d
      | Some node \<Rightarrow>
          if i_type node = TETFS_TYPE_FREE then find_loop D name parent is d
          else if i_parent node = parent \<and> strcmp (i_name node) name = Some 0 then (int i, d)
          else find_loop D name parent is d)"

definition tetfs_find :: "'d dev \<Rightarrow> bytes \<Rightarrow> u16 \<Rightarrow> 'd \<Rightarrow> int \<times> 'd" where
  "tetfs_find D name parent d = find_loop D name parent [1..<unat TETFS_MAX_INODES] d"

definition new_inode :: "bytes \<Rightarrow> u16 \<Rightarrow> u8 \<Rightarrow> tetfs_inode" where
  "new_inode name parent type =
     zero_inode\<lparr>i_type := type, i_parent := parent, i_name := blit (replicate 51 0) 0 (copy_chars 50 name @ [0])\<rparr>"

fun create_loop :: "'d dev \<Rightarrow> bytes \<Rightarrow> u16 \<Rightarrow> u8 \<Rightarrow> nat list \<Rightarrow> 'd \<Rightarrow> int \<times> 'd" where
  "create_loop D name parent type [] d = (-1, d)"
| "create_loop D name parent type (i # is) d =
     (let (r, d) = tetfs_read_inode D (of_nat i) d in
      case r of
        None \<Rightarrow> create_loop D name parent type is d
      | Some node \<Rightarrow>
          if i_type node \<noteq> TETFS_TYPE_FREE then create_loop D name parent type is d
          else
            let (ok, d) = write_inode D (of_nat i) (new_inode name parent type) d
            in (if ok then int i else -1, d))"

definition tetfs_create :: "'d dev \<Rightarrow> bytes \<Rightarrow> u16 \<Rightarrow> u8 \<Rightarrow> 'd \<Rightarrow> int \<times> 'd" where
  "tetfs_create D name parent type d =
     (let (i, d) = tetfs_find D name parent d in
      if i \<ge> 0 then (-1, d) else create_loop D name parent type [1..<unat TETFS_MAX_INODES] d)"

definition status :: "bool \<times> 'd \<Rightarrow> int \<times> 'd" where
  "status r = (if fst r then 0 else -1, snd r)"

definition free_blocks_of :: "tetfs_inode \<Rightarrow> bytes \<Rightarrow> bytes" where
  "free_blocks_of node bm = set_range bm (i_start_block node) (unat (i_block_count node)) False"

definition tetfs_delete :: "'d dev \<Rightarrow> u16 \<Rightarrow> 'd \<Rightarrow> int \<times> 'd" where
  "tetfs_delete D idx d =
     (if idx = TETFS_ROOT_INODE then (-1, d)
      else
        let (r, d) = tetfs_read_inode D idx d in
        case r of
          None \<Rightarrow> (-1, d)
        | Some node \<Rightarrow>
            if i_type node = TETFS_TYPE_FREE then (-1, d)
            else
              let (ok, d) =
                (if i_block_count node > 0 then
                   let (rb, d) = read_bitmap D d in
                   case rb of
                     None \<Rightarrow> (False, d)
                   | Some bm \<Rightarrow> write_bitmap D (free_blocks_of node bm) d
                 else (True, d))
              in if \<not> ok then (-1, d)
                 else status (write_inode D idx (zero_inode\<lparr>i_type := TETFS_TYPE_FREE\<rparr>) d))"

text \<open>The loop that writes the data blocks; the last one is padded with zeros.\<close>

definition data_sector :: "bytes \<Rightarrow> u32 \<Rightarrow> nat \<Rightarrow> bytes" where
  "data_sector buf len i =
     (let off = of_nat i * TETFS_BLOCK_SIZE; chunk = len - off;
          chunk = (if TETFS_BLOCK_SIZE < chunk then TETFS_BLOCK_SIZE else chunk)
      in blit (replicate 512 0) 0 (slice (unat off) (unat chunk) buf))"

fun write_blocks :: "'d dev \<Rightarrow> u16 \<Rightarrow> bytes \<Rightarrow> u32 \<Rightarrow> nat list \<Rightarrow> 'd \<Rightarrow> bool \<times> 'd" where
  "write_blocks D start buf len [] d = (True, d)"
| "write_blocks D start buf len (i # is) d =
     (let (ok, d) = dev_write D (TETFS_LBA_DATA + ucast start + of_nat i) (data_sector buf len i) d in
      if \<not> ok then (False, d) else write_blocks D start buf len is d)"

definition blocks_for :: "u32 \<Rightarrow> u16" where
  "blocks_for len = ucast ((len + TETFS_BLOCK_SIZE - 1) div TETFS_BLOCK_SIZE)"

definition tetfs_write :: "'d dev \<Rightarrow> u16 \<Rightarrow> bytes \<Rightarrow> u32 \<Rightarrow> 'd \<Rightarrow> int \<times> 'd" where
  "tetfs_write D idx buf len d =
     (let (r, d) = tetfs_read_inode D idx d in
      case r of
        None \<Rightarrow> (-1, d)
      | Some node \<Rightarrow>
          if i_type node \<noteq> TETFS_TYPE_FILE then (-1, d)
          else if len = 0 then status (write_inode D idx (node\<lparr>i_size := 0\<rparr>) d)
          else
            let blocks_needed = blocks_for len in
            if TETFS_MAX_FILE_BLOCKS < blocks_needed then (-1, d)
            else
              let (rb, d) = read_bitmap D d in
              case rb of
                None \<Rightarrow> (-1, d)
              | Some bm \<Rightarrow>
                  let bm = (if i_block_count node > 0 then free_blocks_of node bm else bm) in
                  case alloc_blocks bm blocks_needed of
                    None \<Rightarrow> (-1, d)
                  | Some (start, bm) \<Rightarrow>
                      let (ok, d) = write_bitmap D bm d in
                      if \<not> ok then (-1, d)
                      else
                        let (ok, d) = write_blocks D start buf len [0..<unat blocks_needed] d in
                        if \<not> ok then (-1, d)
                        else status (write_inode D idx
                          (node\<lparr>i_start_block := start, i_block_count := blocks_needed, i_size := len\<rparr>) d))"

text \<open>The loop of \<open>tetfs_read\<close>; the bytes stored in the buffer come with the result.\<close>

function read_loop :: "'d dev \<Rightarrow> tetfs_inode \<Rightarrow> u32 \<Rightarrow> u32 \<Rightarrow> u32 \<Rightarrow> bytes \<Rightarrow> 'd \<Rightarrow> (int \<times> bytes) \<times> 'd" where
  "read_loop D node len done pos out d =
     (if done < len then
        let blk = ucast (pos div TETFS_BLOCK_SIZE) :: u16;
            blk_off = pos mod TETFS_BLOCK_SIZE;
            chunk = TETFS_BLOCK_SIZE - blk_off;
            chunk = (if len - done < chunk then len - done else chunk)
        in if i_block_count node \<le> blk then ((sint done, out), d)
           else
             let (r, d) = dev_read D (TETFS_LBA_DATA + ucast (i_start_block node) + ucast blk) d in
             case r of
               None \<Rightarrow> ((-1, out), d)
             | Some sector \<Rightarrow>
                 read_loop D node len (done + chunk) (pos + chunk) (out @ slice (unat blk_off) (unat chunk) sector) d
      else ((sint done, out), d))"
  by pat_completeness auto

lemma read_chunk:
  fixes got len pos :: u32
  assumes "got < len"
  defines "chunk \<equiv> (let c = TETFS_BLOCK_SIZE - pos mod TETFS_BLOCK_SIZE in if len - got < c then len - got else c)"
  shows "unat (got + chunk) = unat got + unat chunk" "0 < unat chunk" "unat got + unat chunk \<le> unat len"
    "unat chunk = min (unat len - unat got) (512 - unat pos mod 512)"
proof -
  have m: "unat (pos mod TETFS_BLOCK_SIZE) = unat pos mod 512" by (simp add: unat_mod_distrib)
  then have le: "unat (TETFS_BLOCK_SIZE - pos mod TETFS_BLOCK_SIZE) = 512 - unat pos mod 512"
    by (subst unat_minus_le) (simp_all add: word_le_nat_alt)
  have d: "unat (len - got) = unat len - unat got" using assms(1) by (subst unat_minus_le) auto
  show c: "unat chunk = min (unat len - unat got) (512 - unat pos mod 512)"
    unfolding chunk_def Let_def word_less_nat_alt le d if_distrib [of unat] by (auto simp: min_def)
  moreover have "unat got < unat len" using assms(1) by (simp add: word_less_nat_alt)
  ultimately show "0 < unat chunk" "unat got + unat chunk \<le> unat len" by auto
  then show "unat (got + chunk) = unat got + unat chunk"
    using u32_lt [of len] by (intro unat_plus_small) simp
qed

termination read_loop
proof (relation "measure (\<lambda>(D, node, len, done, pos, out, d). unat len - unat done)", simp, goal_cases)
  case (1 D node len don pos out d)
  then show ?case using read_chunk(1-3) [of don len pos] by (auto simp: Let_def)
qed

declare read_loop.simps [simp del]

definition tetfs_read :: "'d dev \<Rightarrow> u16 \<Rightarrow> u32 \<Rightarrow> u32 \<Rightarrow> 'd \<Rightarrow> (int \<times> bytes) \<times> 'd" where
  "tetfs_read D idx offset len d =
     (let (r, d) = tetfs_read_inode D idx d in
      case r of
        None \<Rightarrow> ((-1, []), d)
      | Some node \<Rightarrow>
          if i_type node \<noteq> TETFS_TYPE_FILE then ((-1, []), d)
          else if i_size node \<le> offset then ((0, []), d)
          else
            let len = (if i_size node < offset + len then i_size node - offset else len)
            in read_loop D node len 0 offset [] d)"

fun list_loop :: "'d dev \<Rightarrow> u16 \<Rightarrow> int \<Rightarrow> nat list \<Rightarrow> tetfs_inode list \<Rightarrow> 'd \<Rightarrow> tetfs_inode list \<times> 'd" where
  "list_loop D parent maxn [] out d = (out, d)"
| "list_loop D parent maxn (i # is) out d =
     (if \<not> int (length out) < maxn then (out, d)
      else
        let (r, d) = tetfs_read_inode D (of_nat i) d in
        case r of
          None \<Rightarrow> list_loop D parent maxn is out d
        | Some node \<Rightarrow>
            if i_type node = TETFS_TYPE_FREE then list_loop D parent maxn is out d
            else if i = 0 then list_loop D parent maxn is out d
            else if i_parent node = parent then list_loop D parent maxn is (out @ [node]) d
            else list_loop D parent maxn is out d)"

definition tetfs_list :: "'d dev \<Rightarrow> u16 \<Rightarrow> int \<Rightarrow> 'd \<Rightarrow> (int \<times> tetfs_inode list) \<times> 'd" where
  "tetfs_list D parent maxn d =
     (let (out, d) = list_loop D parent maxn [0..<unat TETFS_MAX_INODES] [] d in ((int (length out), out), d))"

fun count_loop :: "'d dev \<Rightarrow> u16 \<Rightarrow> nat list \<Rightarrow> int \<Rightarrow> 'd \<Rightarrow> int \<times> 'd" where
  "count_loop D parent [] n d = (n, d)"
| "count_loop D parent (i # is) n d =
     (let (r, d) = tetfs_read_inode D (of_nat i) d in
      case r of
        None \<Rightarrow> count_loop D parent is n d
      | Some node \<Rightarrow>
          if i_type node = TETFS_TYPE_FREE then count_loop D parent is n d
          else if i = 0 then count_loop D parent is n d
          else if i_parent node = parent then count_loop D parent is (n + 1) d
          else count_loop D parent is n d)"

definition tetfs_count_children :: "'d dev \<Rightarrow> u16 \<Rightarrow> 'd \<Rightarrow> int \<times> 'd" where
  "tetfs_count_children D parent d = count_loop D parent [0..<unat TETFS_MAX_INODES] 0 d"

end
