(* ===== verification/TetfsProps.thy ===== *)
theory TetfsProps
  imports Tetfs
begin

text \<open>
  Correctness of tetFS on a disk that meets the contract of \<open>BlockDev\<close>. The disk is read
  as a function from sector addresses to sectors; a well-formed file system and the
  contents of its files are defined on it, every operation is refined to a function of the
  sectors, and the properties follow from the frame laws of these functions.
\<close>

type_synonym sectors = "u32 \<Rightarrow> bytes"

section \<open>The disk as a file system\<close>

definition secs_wf :: "sectors \<Rightarrow> bool" where
  "secs_wf s \<longleftrightarrow> (\<forall>l < MAX_LBA. length (s l) = SECTOR_SIZE)"

definition inode_at :: "sectors \<Rightarrow> u16 \<Rightarrow> tetfs_inode" where
  "inode_at s idx = dec_inode (slice (inode_off idx) TETFS_INODE_SIZE (s (inode_lba idx)))"

definition put_inode :: "u16 \<Rightarrow> tetfs_inode \<Rightarrow> sectors \<Rightarrow> sectors" where
  "put_inode idx n s = s(inode_lba idx := blit (s (inode_lba idx)) (inode_off idx) (enc_inode n))"

definition bitmap_at :: "sectors \<Rightarrow> bytes" where
  "bitmap_at s = s TETFS_LBA_BITMAP @ s (TETFS_LBA_BITMAP + 1)"

definition put_bitmap :: "bytes \<Rightarrow> sectors \<Rightarrow> sectors" where
  "put_bitmap bm s = s(TETFS_LBA_BITMAP := take 512 bm, TETFS_LBA_BITMAP + 1 := drop 512 bm)"

definition data_lba :: "nat \<Rightarrow> u32" where
  "data_lba k = TETFS_LBA_DATA + of_nat k"

definition extent :: "tetfs_inode \<Rightarrow> nat set" where
  "extent n = {unat (i_start_block n) ..< unat (i_start_block n) + unat (i_block_count n)}"

definition contents :: "sectors \<Rightarrow> tetfs_inode \<Rightarrow> bytes" where
  "contents s n = take (unat (i_size n))
     (concat (map (\<lambda>k. s (data_lba k)) [unat (i_start_block n) ..< unat (i_start_block n) + unat (i_block_count n)]))"

abbreviation in_use :: "sectors \<Rightarrow> u16 \<Rightarrow> bool" where
  "in_use s i \<equiv> i_type (inode_at s i) \<noteq> TETFS_TYPE_FREE"

definition fs_wf :: "sectors \<Rightarrow> bool" where
  "fs_wf s \<longleftrightarrow> secs_wf s \<and>
     (\<forall>i < TETFS_MAX_INODES. in_use s i \<longrightarrow>
        terminated (i_name (inode_at s i)) \<and>
        unat (i_start_block (inode_at s i)) + unat (i_block_count (inode_at s i)) \<le> TETFS_MAX_BLOCKS \<and>
        (\<forall>k \<in> extent (inode_at s i). blk_used (bitmap_at s) k) \<and>
        unat (i_size (inode_at s i)) \<le> 512 * unat (i_block_count (inode_at s i))) \<and>
     (\<forall>i < TETFS_MAX_INODES. \<forall>j < TETFS_MAX_INODES. i \<noteq> j \<longrightarrow> in_use s i \<longrightarrow> in_use s j \<longrightarrow>
        extent (inode_at s i) \<inter> extent (inode_at s j) = {})"

lemma fs_wfD:
  assumes "fs_wf s"
  shows "secs_wf s" "i < TETFS_MAX_INODES \<Longrightarrow> in_use s i \<Longrightarrow> terminated (i_name (inode_at s i))"
    "i < TETFS_MAX_INODES \<Longrightarrow> in_use s i \<Longrightarrow>
       unat (i_start_block (inode_at s i)) + unat (i_block_count (inode_at s i)) \<le> TETFS_MAX_BLOCKS"
    "i < TETFS_MAX_INODES \<Longrightarrow> in_use s i \<Longrightarrow> k \<in> extent (inode_at s i) \<Longrightarrow> blk_used (bitmap_at s) k"
    "i < TETFS_MAX_INODES \<Longrightarrow> in_use s i \<Longrightarrow> unat (i_size (inode_at s i)) \<le> 512 * unat (i_block_count (inode_at s i))"
    "i < TETFS_MAX_INODES \<Longrightarrow> j < TETFS_MAX_INODES \<Longrightarrow> i \<noteq> j \<Longrightarrow> in_use s i \<Longrightarrow> in_use s j \<Longrightarrow>
       extent (inode_at s i) \<inter> extent (inode_at s j) = {}"
  using assms unfolding fs_wf_def by blast+

section \<open>Frame laws\<close>

lemma secs_wf_upd: "secs_wf s \<Longrightarrow> length b = SECTOR_SIZE \<Longrightarrow> secs_wf (s(l := b))"
  by (simp add: secs_wf_def)

lemma secs_wf_len: "secs_wf s \<Longrightarrow> l < MAX_LBA \<Longrightarrow> length (s l) = SECTOR_SIZE"
  by (simp add: secs_wf_def)

lemma inode_lba_nat: "idx < TETFS_MAX_INODES \<Longrightarrow> unat (inode_lba idx) = 257 + unat idx div 8"
proof -
  assume "idx < TETFS_MAX_INODES"
  then have "unat (idx div 8) < 4" by (simp add: unat_div_distrib word_less_nat_alt)
  then have "unat (ucast (idx div 8) :: u32) = unat idx div 8"
    by (simp add: unat_div_distrib)
  then show ?thesis using \<open>unat (idx div 8) < 4\<close>
    by (simp add: inode_lba_def unat_plus_small unat_div_distrib)
qed

lemma inode_off_nat: "inode_off idx = unat idx mod 8 * 64"
  by (simp add: inode_off_def unat_mod_distrib)

lemma inode_lba_bounds:
  assumes "idx < TETFS_MAX_INODES"
  shows "inode_lba idx < MAX_LBA" "inode_lba idx \<noteq> TETFS_LBA_BITMAP" "inode_lba idx \<noteq> TETFS_LBA_BITMAP + 1"
    "inode_lba idx \<noteq> TETFS_LBA_SUPER"
    "TETFS_LBA_DATA \<le> l \<Longrightarrow> inode_lba idx \<noteq> l"
  using inode_lba_nat [OF assms] assms by (auto simp: word_less_nat_alt word_le_nat_alt)

lemma inode_off_bound: "inode_off idx + 64 \<le> 512"
  by (simp add: inode_off_nat)

lemma data_lba_nat: "k < 65536 \<Longrightarrow> unat (data_lba k) = 263 + k"
  by (simp add: data_lba_def unat_plus_small unat_of_nat_small)

lemma data_lba_bounds:
  assumes "k < 65536"
  shows "data_lba k < MAX_LBA" "TETFS_LBA_DATA \<le> data_lba k" "data_lba k \<noteq> TETFS_LBA_BITMAP"
    "data_lba k \<noteq> TETFS_LBA_BITMAP + 1"
  using data_lba_nat [OF assms] assms by (auto simp: word_less_nat_alt word_le_nat_alt)

lemma data_lba_inj: "j < 65536 \<Longrightarrow> k < 65536 \<Longrightarrow> data_lba j = data_lba k \<longleftrightarrow> j = k"
  by (metis data_lba_nat add_left_cancel)

lemma inode_at_put [frame_simps]:
  assumes "secs_wf s" "idx < TETFS_MAX_INODES" "j < TETFS_MAX_INODES" "inode_wf n"
  shows "inode_at (put_inode idx n s) j = (if j = idx then n else inode_at s j)"
proof (cases "inode_lba j = inode_lba idx")
  case True
  have len: "inode_off idx + length (enc_inode n) \<le> length (s (inode_lba idx))"
    using assms inode_off_bound [of idx] inode_lba_bounds(1) by (simp add: secs_wf_len)
  show ?thesis
  proof (cases "j = idx")
    case True
    then show ?thesis using slice_blit_same [OF len] assms(4)
      by (simp add: inode_at_def put_inode_def dec_enc_inode)
  next
    case False
    have "unat j div 8 = unat idx div 8" using True inode_lba_nat assms(2,3) by (metis add_left_cancel)
    moreover have "unat j \<noteq> unat idx" using False by (simp add: word_unat_eq_iff)
    ultimately have "unat j mod 8 \<noteq> unat idx mod 8" by (metis div_mult_mod_eq)
    then have "inode_off j + 64 \<le> inode_off idx \<or> inode_off idx + length (enc_inode n) \<le> inode_off j"
      using assms(4) by (simp add: inode_off_nat) linarith
    from slice_blit_other [OF len this] False True show ?thesis
      by (simp add: inode_at_def put_inode_def)
  qed
qed (auto simp: inode_at_def put_inode_def)

lemma secs_wf_put_inode: "secs_wf s \<Longrightarrow> idx < TETFS_MAX_INODES \<Longrightarrow> inode_wf n \<Longrightarrow> secs_wf (put_inode idx n s)"
  unfolding put_inode_def
  by (intro secs_wf_upd) (use inode_off_bound [of idx] inode_lba_bounds(1) in \<open>simp_all add: secs_wf_len\<close>)

lemma inode_at_wf [simp]: "secs_wf s \<Longrightarrow> idx < TETFS_MAX_INODES \<Longrightarrow> inode_wf (inode_at s idx)"
  unfolding inode_at_def
  by (rule dec_inode_wf) (use inode_off_bound [of idx] inode_lba_bounds(1) in \<open>simp add: secs_wf_len\<close>)

lemma put_inode_other [frame_simps]:
  "idx < TETFS_MAX_INODES \<Longrightarrow> bitmap_at (put_inode idx n s) = bitmap_at s"
  "idx < TETFS_MAX_INODES \<Longrightarrow> k < 65536 \<Longrightarrow> put_inode idx n s (data_lba k) = s (data_lba k)"
  "idx < TETFS_MAX_INODES \<Longrightarrow> put_inode idx n s TETFS_LBA_SUPER = s TETFS_LBA_SUPER"
  using inode_lba_bounds(2-4) [of idx] inode_lba_bounds(5) [OF _ data_lba_bounds(2), of idx k, symmetric]
  by (simp_all add: bitmap_at_def put_inode_def)

lemma bitmap_at_put [frame_simps]: "length bm = 1024 \<Longrightarrow> bitmap_at (put_bitmap bm s) = bm"
  by (simp add: bitmap_at_def put_bitmap_def)

lemma put_bitmap_other [frame_simps]:
  "idx < TETFS_MAX_INODES \<Longrightarrow> inode_at (put_bitmap bm s) idx = inode_at s idx"
  "k < 65536 \<Longrightarrow> put_bitmap bm s (data_lba k) = s (data_lba k)"
  using inode_lba_bounds(2,3) [of idx] data_lba_bounds(3,4) [of k]
  by (simp_all add: inode_at_def put_bitmap_def)

lemma secs_wf_put_bitmap: "secs_wf s \<Longrightarrow> length bm = 1024 \<Longrightarrow> secs_wf (put_bitmap bm s)"
  unfolding put_bitmap_def by (intro secs_wf_upd) simp_all

lemma length_bitmap_at: "secs_wf s \<Longrightarrow> length (bitmap_at s) = 1024"
  by (simp add: bitmap_at_def secs_wf_len)

lemma contents_cong:
  assumes "\<And>k. k \<in> extent n \<Longrightarrow> s' (data_lba k) = s (data_lba k)"
  shows "contents s' n = contents s n"
  using assms by (auto simp: contents_def extent_def intro!: arg_cong [where f = "take _"] arg_cong [where f = concat])

text \<open>Data sectors, and what a file reads as once they are written.\<close>

lemma length_slice_le: "length (slice off n b) \<le> n"
  by (simp add: slice_def)

lemma data_sector_chunk:
  assumes "512 * i < unat len" "unat len \<le> 8192" "unat len \<le> length buf"
  shows "data_sector buf len i = blit (replicate 512 0) 0 (slice (512 * i) (min 512 (unat len - 512 * i)) buf)"
proof -
  have i: "i < 16" using assms(1,2) by simp
  then have off: "unat (of_nat i * TETFS_BLOCK_SIZE :: u32) = 512 * i"
    by (simp add: unat_word_ariths unat_of_nat_small)
  moreover have "unat (len - of_nat i * TETFS_BLOCK_SIZE) = unat len - 512 * i"
    using off assms(1) by (subst unat_minus_le) (simp_all add: word_le_nat_alt)
  ultimately show ?thesis
    by (auto simp: data_sector_def Let_def word_less_nat_alt min_def)
qed

lemma length_data_sector: "length (data_sector buf len i) = SECTOR_SIZE"
proof -
  define c where "c = (if TETFS_BLOCK_SIZE < len - of_nat i * TETFS_BLOCK_SIZE then TETFS_BLOCK_SIZE
    else len - of_nat i * TETFS_BLOCK_SIZE)"
  have "unat c \<le> 512" by (auto simp: c_def word_less_nat_alt)
  then have "length (slice (unat (of_nat i * TETFS_BLOCK_SIZE :: u32)) (unat c) buf) \<le> 512"
    using length_slice_le le_trans by blast
  then show ?thesis by (simp add: data_sector_def Let_def c_def [symmetric])
qed

lemma data_sectors_concat:
  assumes "unat len \<le> 8192" "unat len \<le> length buf" "512 * m < unat len + 512"
  shows "take (min (unat len) (512 * m)) (concat (map (data_sector buf len) [0..<m])) = take (min (unat len) (512 * m)) buf"
  using assms(3)
proof (induction m)
  case (Suc m)
  have m: "512 * m < unat len" using Suc.prems by simp
  have len: "length (concat (map (data_sector buf len) [0..<m])) = 512 * m"
    by (simp add: length_concat comp_def length_data_sector sum_list_triv)
  have IH: "concat (map (data_sector buf len) [0..<m]) = take (512 * m) buf"
    using Suc.IH m len by simp
  let ?c = "min 512 (unat len - 512 * m)"
  have c: "min (unat len) (512 * Suc m) = 512 * m + ?c" using m by (auto simp: min_def)
  have "take ?c (data_sector buf len m) = slice (512 * m) ?c buf"
    using m assms(1,2) by (subst data_sector_chunk) (simp_all add: blit_def slice_def)
  then have "take (512 * m + ?c) (concat (map (data_sector buf len) [0..<m]) @ data_sector buf len m)
      = take (512 * m) buf @ slice (512 * m) ?c buf"
    using len IH by (simp add: take_add)
  also have "\<dots> = take (512 * m + ?c) buf" by (simp add: take_add slice_def)
  finally show ?case unfolding c by simp
qed simp

definition put_blocks :: "u16 \<Rightarrow> bytes \<Rightarrow> u32 \<Rightarrow> nat \<Rightarrow> sectors \<Rightarrow> sectors" where
  "put_blocks start buf len n s =
     fold (\<lambda>i s. s(data_lba (unat start + i) := data_sector buf len i)) [0..<n] s"

lemma put_blocks_at:
  assumes "unat start + n \<le> 65536" "k < 65536"
  shows "put_blocks start buf len n s (data_lba k) =
    (if unat start \<le> k \<and> k < unat start + n then data_sector buf len (k - unat start) else s (data_lba k))"
  using assms(1)
proof (induction n)
  case (Suc n)
  then have "data_lba (unat start + n) = data_lba k \<longleftrightarrow> unat start + n = k"
    by (intro data_lba_inj) (use assms(2) in simp_all)
  with Suc show ?case by (auto simp: put_blocks_def)
qed (auto simp: put_blocks_def)

lemma put_blocks_low:
  assumes "unat start + n \<le> 65536" "l < TETFS_LBA_DATA"
  shows "put_blocks start buf len n s l = s l"
  using assms(1)
proof (induction n)
  case (Suc n)
  then have "TETFS_LBA_DATA \<le> data_lba (unat start + n)" by (intro data_lba_bounds) simp
  with assms(2) have "data_lba (unat start + n) \<noteq> l" by auto
  with Suc show ?case by (simp add: put_blocks_def)
qed (simp add: put_blocks_def)

lemma put_blocks_other [frame_simps]:
  assumes "unat start + n \<le> 65536"
  shows "idx < TETFS_MAX_INODES \<Longrightarrow> inode_at (put_blocks start buf len n s) idx = inode_at s idx"
    "bitmap_at (put_blocks start buf len n s) = bitmap_at s"
proof -
  assume "idx < TETFS_MAX_INODES"
  then have "inode_lba idx < TETFS_LBA_DATA" using inode_lba_bounds(5) [of idx "inode_lba idx"] by force
  then show "inode_at (put_blocks start buf len n s) idx = inode_at s idx"
    using assms by (simp add: inode_at_def put_blocks_low)
qed (use assms in \<open>simp add: bitmap_at_def put_blocks_low\<close>)

lemma secs_wf_put_blocks: "secs_wf s \<Longrightarrow> secs_wf (put_blocks start buf len n s)"
proof (induction n)
  case (Suc n)
  have "put_blocks start buf len (Suc n) s = (put_blocks start buf len n s)(data_lba (unat start + n) := data_sector buf len n)"
    by (simp add: put_blocks_def)
  then show ?case using secs_wf_upd [OF Suc.IH [OF Suc.prems] length_data_sector] by (simp only:)
qed (simp add: put_blocks_def)

text \<open>Changing one inode keeps the file system well formed when its blocks are its own.\<close>

lemma fs_wf_update:
  assumes wf: "fs_wf s" and idx: "idx < TETFS_MAX_INODES" and s': "secs_wf s'"
    and others: "\<And>j. j < TETFS_MAX_INODES \<Longrightarrow> j \<noteq> idx \<Longrightarrow> inode_at s' j = inode_at s j"
    and keep: "\<And>j k. j < TETFS_MAX_INODES \<Longrightarrow> j \<noteq> idx \<Longrightarrow> in_use s j \<Longrightarrow> k \<in> extent (inode_at s j) \<Longrightarrow>
      blk_used (bitmap_at s') k \<and> k \<notin> extent (inode_at s' idx)"
    and new: "in_use s' idx \<Longrightarrow> terminated (i_name (inode_at s' idx)) \<and>
      unat (i_start_block (inode_at s' idx)) + unat (i_block_count (inode_at s' idx)) \<le> TETFS_MAX_BLOCKS \<and>
      (\<forall>k \<in> extent (inode_at s' idx). blk_used (bitmap_at s') k) \<and>
      unat (i_size (inode_at s' idx)) \<le> 512 * unat (i_block_count (inode_at s' idx))"
  shows "fs_wf s'"
  unfolding fs_wf_def
proof (intro conjI allI impI)
  show "secs_wf s'" by fact
next
  fix i assume i: "i < TETFS_MAX_INODES" "in_use s' i"
  then show "terminated (i_name (inode_at s' i))"
    "unat (i_start_block (inode_at s' i)) + unat (i_block_count (inode_at s' i)) \<le> TETFS_MAX_BLOCKS"
    "\<forall>k \<in> extent (inode_at s' i). blk_used (bitmap_at s') k"
    "unat (i_size (inode_at s' i)) \<le> 512 * unat (i_block_count (inode_at s' i))"
    using new others [of i] keep [of i] fs_wfD(2,3,5) [OF wf, of i] by (cases "i = idx"; force)+
next
  fix i j assume ij: "i < TETFS_MAX_INODES" "j < TETFS_MAX_INODES" "i \<noteq> j" "in_use s' i" "in_use s' j"
  consider "i = idx" "j \<noteq> idx" | "j = idx" "i \<noteq> idx" | "i \<noteq> idx" "j \<noteq> idx" using ij(3) by blast
  then show "extent (inode_at s' i) \<inter> extent (inode_at s' j) = {}"
  proof cases
    case 1
    then have "inode_at s' j = inode_at s j" using others ij(2) by simp
    with 1 keep [of j] ij show ?thesis by auto
  next
    case 2
    then have "inode_at s' i = inode_at s i" using others ij(1) by simp
    with 2 keep [of i] ij show ?thesis by auto
  next
    case 3
    then show ?thesis using others fs_wfD(6) [OF wf] ij by simp
  qed
qed

text \<open>What the kept files of an operation on inode \<open>idx\<close> are.\<close>

definition others_kept :: "u16 \<Rightarrow> sectors \<Rightarrow> sectors \<Rightarrow> bool" where
  "others_kept idx s s' \<longleftrightarrow> (\<forall>j < TETFS_MAX_INODES. j \<noteq> idx \<longrightarrow> inode_at s' j = inode_at s j \<and>
     (in_use s j \<longrightarrow> contents s' (inode_at s j) = contents s (inode_at s j)))"

lemma extent_bound: "fs_wf s \<Longrightarrow> j < TETFS_MAX_INODES \<Longrightarrow> in_use s j \<Longrightarrow> k \<in> extent (inode_at s j) \<Longrightarrow> k < 1024"
  using fs_wfD(3) by (fastforce simp: extent_def)

lemma free_blocks_used:
  assumes "fs_wf s" "idx < TETFS_MAX_INODES" "in_use s idx"
  shows "blk_used (free_blocks_of (inode_at s idx) (bitmap_at s)) k
    \<longleftrightarrow> k \<notin> extent (inode_at s idx) \<and> blk_used (bitmap_at s) k"
    "length (free_blocks_of (inode_at s idx) (bitmap_at s)) = 1024"
proof -
  have len: "length (bitmap_at s) = 1024" using fs_wfD(1) [OF assms(1)] by (rule length_bitmap_at)
  have "unat (i_start_block (inode_at s idx)) + unat (i_block_count (inode_at s idx)) \<le> 8 * length (bitmap_at s)"
    using fs_wfD(3) [OF assms] len by simp
  from blk_used_set_range [OF this, of False k] len
  show "blk_used (free_blocks_of (inode_at s idx) (bitmap_at s)) k
    \<longleftrightarrow> k \<notin> extent (inode_at s idx) \<and> blk_used (bitmap_at s) k"
    by (auto simp: free_blocks_of_def extent_def)
  show "length (free_blocks_of (inode_at s idx) (bitmap_at s)) = 1024"
    using len by (simp add: free_blocks_of_def)
qed

lemma free_blocks_none:
  "i_block_count n = 0 \<Longrightarrow> free_blocks_of n bm = bm"
  by (simp add: free_blocks_of_def set_range_def)

text \<open>The sectors after a successful write of \<open>len\<close> bytes in blocks from \<open>start\<close>.\<close>

definition written :: "u16 \<Rightarrow> u16 \<Rightarrow> bytes \<Rightarrow> bytes \<Rightarrow> u32 \<Rightarrow> sectors \<Rightarrow> sectors" where
  "written idx start bm buf len s =
     put_inode idx ((inode_at s idx)\<lparr>i_start_block := start, i_block_count := blocks_for len, i_size := len\<rparr>)
       (put_blocks start buf len (unat (blocks_for len)) (put_bitmap bm s))"

lemma blocks_for_nat:
  assumes "unat len \<le> 8192"
  shows "unat (blocks_for len) = (unat len + 511) div 512" "\<not> TETFS_MAX_FILE_BLOCKS < blocks_for len"
    "unat len \<le> 512 * unat (blocks_for len)" "512 * unat (blocks_for len) < unat len + 512"
proof -
  have "unat (len + TETFS_BLOCK_SIZE - 1) = unat len + 511"
    using assms by (simp add: unat_plus_small)
  then have q: "unat ((len + TETFS_BLOCK_SIZE - 1) div TETFS_BLOCK_SIZE) = (unat len + 511) div 512"
    by (simp add: unat_div_distrib)
  have small: "(unat len + 511) div 512 \<le> 16" using assms by simp
  show u: "unat (blocks_for len) = (unat len + 511) div 512"
    unfolding blocks_for_def unsigned_ucast_eq q using small by (simp add: take_bit_nat_eq_self)
  show "\<not> TETFS_MAX_FILE_BLOCKS < blocks_for len" using u small by (simp add: word_less_nat_alt)
  show "unat len \<le> 512 * unat (blocks_for len)" "512 * unat (blocks_for len) < unat len + 512"
    using div_mult_mod_eq [of "unat len + 511" 512] mod_less_divisor [of 512 "unat len + 511"] unfolding u by linarith+
qed

lemma written_correct:
  assumes wf: "fs_wf s" and idx: "idx < TETFS_MAX_INODES" and use: "in_use s idx"
    and len: "unat len \<le> 8192" "unat len \<le> length buf"
    and bm0: "bm0 = free_blocks_of (inode_at s idx) (bitmap_at s)"
    and run: "free_run bm0 (unat start) (unat (blocks_for len))"
    and bm: "length bm = 1024" "\<And>k. blk_used bm k \<longleftrightarrow>
      unat start \<le> k \<and> k < unat start + unat (blocks_for len) \<or> blk_used bm0 k"
  defines "s' \<equiv> written idx start bm buf len s"
  shows "fs_wf s'" "others_kept idx s s'"
    "inode_at s' idx = (inode_at s idx)\<lparr>i_start_block := start, i_block_count := blocks_for len, i_size := len\<rparr>"
    "contents s' (inode_at s' idx) = take (unat len) buf"
proof -
  let ?n = "(inode_at s idx)\<lparr>i_start_block := start, i_block_count := blocks_for len, i_size := len\<rparr>"
  let ?c = "unat (blocks_for len)"
  have fit: "unat start + ?c \<le> 1024" using run by (simp add: free_run_def)
  have s1: "secs_wf (put_bitmap bm s)" using fs_wfD(1) [OF wf] bm(1) by (rule secs_wf_put_bitmap)
  have s2: "secs_wf (put_blocks start buf len ?c (put_bitmap bm s))" using s1 by (rule secs_wf_put_blocks)
  have nwf: "inode_wf ?n" using inode_at_wf [OF fs_wfD(1) [OF wf] idx] by (simp add: inode_wf_def)
  have s3: "secs_wf s'" unfolding s'_def written_def using s2 idx nwf by (rule secs_wf_put_inode)
  have ino: "inode_at s' j = (if j = idx then ?n else inode_at s j)" if "j < TETFS_MAX_INODES" for j
    unfolding s'_def written_def using fit that inode_at_put [OF s2 idx that nwf]
    by (simp add: put_blocks_other put_bitmap_other)
  have bms: "bitmap_at s' = bm"
    unfolding s'_def written_def using fit idx bm(1) by (simp add: frame_simps)
  have dat: "s' (data_lba k) = (if unat start \<le> k \<and> k < unat start + ?c
      then data_sector buf len (k - unat start) else s (data_lba k))" if "k < 65536" for k
    unfolding s'_def written_def using idx fit that by (simp add: put_inode_other put_blocks_at put_bitmap_other)
  note bm0' = free_blocks_used [OF wf idx use, folded bm0]
  have free: "\<not> blk_used bm0 k" if "unat start \<le> k" "k < unat start + ?c" for k
    using run that by (simp add: free_run_def)
  have other: "blk_used bm k \<and> \<not> (unat start \<le> k \<and> k < unat start + ?c)"
    if "j < TETFS_MAX_INODES" "j \<noteq> idx" "in_use s j" "k \<in> extent (inode_at s j)" for j k
  proof -
    have "k \<notin> extent (inode_at s idx)" using fs_wfD(6) [OF wf that(1) idx that(2,3) use] that(4) by blast
    then have "blk_used bm0 k" using bm0'(1) fs_wfD(4) [OF wf that(1,3,4)] by blast
    with free bm(2) show ?thesis by blast
  qed
  show "inode_at s' idx = ?n" using ino idx by simp
  show "fs_wf s'"
  proof (rule fs_wf_update [OF wf idx s3])
    show "inode_at s' j = inode_at s j" if "j < TETFS_MAX_INODES" "j \<noteq> idx" for j using ino that by simp
    show "blk_used (bitmap_at s') k \<and> k \<notin> extent (inode_at s' idx)"
      if "j < TETFS_MAX_INODES" "j \<noteq> idx" "in_use s j" "k \<in> extent (inode_at s j)" for j k
      using other [OF that] ino [OF idx] bms by (simp add: extent_def)
    show "terminated (i_name (inode_at s' idx)) \<and>
      unat (i_start_block (inode_at s' idx)) + unat (i_block_count (inode_at s' idx)) \<le> TETFS_MAX_BLOCKS \<and>
      (\<forall>k \<in> extent (inode_at s' idx). blk_used (bitmap_at s') k) \<and>
      unat (i_size (inode_at s' idx)) \<le> 512 * unat (i_block_count (inode_at s' idx))"
      using fs_wfD(2) [OF wf idx use] fit ino [OF idx] bms bm(2) blocks_for_nat(3) [OF len(1)] by (simp add: extent_def)
  qed
  have "contents s' (inode_at s j) = contents s (inode_at s j)" if "j < TETFS_MAX_INODES" "j \<noteq> idx" "in_use s j" for j
  proof (rule contents_cong)
    fix k assume k: "k \<in> extent (inode_at s j)"
    then have "k < 65536" using extent_bound [OF wf that(1,3)] by fastforce
    then show "s' (data_lba k) = s (data_lba k)" using dat other [OF that k] by auto
  qed
  then show "others_kept idx s s'" using ino by (simp add: others_kept_def)
  have "map (\<lambda>k. s' (data_lba k)) [unat start ..< unat start + ?c] = map (data_sector buf len) [0..<?c]"
    by (rule nth_equalityI) (use dat fit in auto)
  then have "contents s' ?n = take (min (unat len) (512 * ?c)) (concat (map (data_sector buf len) [0..<?c]))"
    using blocks_for_nat(3) [OF len(1)] by (simp add: contents_def)
  also have "\<dots> = take (unat len) buf"
    using data_sectors_concat [OF len blocks_for_nat(4) [OF len(1)]] blocks_for_nat(3) [OF len(1)] by simp
  finally show "contents s' (inode_at s' idx) = take (unat len) buf" using ino idx by simp
qed

section \<open>Names\<close>

lemma new_inode_name:
  "i_name (new_inode name parent type) = take 50 (cstr name) @ 0 # replicate (50 - length (take 50 (cstr name))) 0"
proof -
  define c where "c = take 50 (cstr name)"
  have "i_name (new_inode name parent type) = blit (replicate 51 0) 0 (c @ [0])"
    by (simp add: new_inode_def copy_chars_eq c_def)
  also have "\<dots> = c @ 0 # replicate (50 - length c) 0" by (simp add: blit_replicate)
  finally show ?thesis by (simp only: c_def)
qed

lemma new_inode_fields [simp]: "i_type (new_inode name parent type) = type" "i_parent (new_inode name parent type) = parent"
  "i_size (new_inode name parent type) = 0" "i_block_count (new_inode name parent type) = 0"
  "i_start_block (new_inode name parent type) = 0"
  by (simp_all add: new_inode_def)

lemma new_inode_wf [simp]: "inode_wf (new_inode name parent type)"
  by (simp add: inode_wf_def new_inode_name) (simp add: new_inode_def zero_inode_def)

lemma new_inode_cstr: "cstr (i_name (new_inode name parent type)) = take 50 (cstr name)"
  "terminated (i_name (new_inode name parent type))"
proof -
  have "0 \<notin> set (take 50 (cstr name))" by (meson in_set_takeD cstr_no_nul)
  then show "cstr (i_name (new_inode name parent type)) = take 50 (cstr name)"
    unfolding new_inode_name by (rule cstr_append_nul)
  show "terminated (i_name (new_inode name parent type))" unfolding new_inode_name by simp
qed

lemma extent_empty [simp]: "extent (new_inode name parent type) = {}" "extent zero_inode = {}"
  by (simp_all add: extent_def)

definition named :: "sectors \<Rightarrow> bytes \<Rightarrow> u16 \<Rightarrow> u16 \<Rightarrow> bool" where
  "named s name parent i \<longleftrightarrow> in_use s i \<and> i_parent (inode_at s i) = parent \<and> cstr (i_name (inode_at s i)) = name"

text \<open>A formatted disk: only the root directory, and no block in use.\<close>

definition fresh_fs :: "sectors \<Rightarrow> bool" where
  "fresh_fs s \<longleftrightarrow> fs_wf s \<and> inode_at s 0 = root_inode \<and> (\<forall>i < TETFS_MAX_INODES. i \<noteq> 0 \<longrightarrow> \<not> in_use s i) \<and>
     (\<forall>k < TETFS_MAX_BLOCKS. \<not> blk_used (bitmap_at s) k) \<and> dec_super (s TETFS_LBA_SUPER) = fresh_super"

lemma enc_super_length: "length (enc_super fresh_super) = 512"
  by (simp add: enc_super_def fresh_super_def)

lemma root_inode_props: "inode_wf root_inode" "extent root_inode = {}" "terminated (i_name root_inode)"
  "i_size root_inode = 0" "i_start_block root_inode = 0" "i_block_count root_inode = 0"
  by (simp_all add: root_inode_def inode_wf_def zero_inode_def extent_def)

lemma format_sectors:
  assumes "secs_wf s" "s TETFS_LBA_SUPER = enc_super fresh_super"
    "\<And>i. i < TETFS_MAX_INODES \<Longrightarrow> s (inode_lba i) = replicate 512 0" "bitmap_at s = replicate 1024 0"
  shows "fresh_fs (put_inode 0 root_inode s)"
proof -
  let ?s = "put_inode 0 root_inode s"
  have z: "(0 :: u16) < TETFS_MAX_INODES" by simp
  have "inode_at s i = dec_inode (replicate 64 0)" if "i < TETFS_MAX_INODES" for i
  proof -
    have "slice (inode_off i) 64 (replicate 512 (0 :: u8)) = replicate 64 0"
      using inode_off_bound [of i] unfolding slice_def drop_replicate take_replicate by (simp add: min_def)
    then show ?thesis using assms(3) [OF that] by (simp only: inode_at_def)
  qed
  then have ino: "inode_at ?s i = (if i = 0 then root_inode else dec_inode (replicate 64 0))" if "i < TETFS_MAX_INODES" for i
    using inode_at_put [OF assms(1) z that root_inode_props(1)] that by simp
  have "i_type (dec_inode (replicate 64 0)) = TETFS_TYPE_FREE" by (simp add: dec_inode_def)
  then have free: "\<not> in_use ?s i" if "i < TETFS_MAX_INODES" "i \<noteq> 0" for i using ino that by simp
  have bm: "bitmap_at ?s = replicate 1024 0" using assms(4) put_inode_other(1) [OF z] by simp
  have "\<not> blk_used (bitmap_at ?s) k" if "k < TETFS_MAX_BLOCKS" for k
    using that unfolding bm blk_used_def by (subst nth_replicate) simp_all
  moreover have "fs_wf ?s"
    unfolding fs_wf_def
  proof (intro conjI allI impI)
    show "secs_wf ?s" using assms(1) z root_inode_props(1) by (rule secs_wf_put_inode)
  next
    fix i assume i: "i < TETFS_MAX_INODES" "in_use ?s i"
    then have "inode_at ?s i = root_inode" using free ino by metis
    then show "terminated (i_name (inode_at ?s i))"
      "unat (i_start_block (inode_at ?s i)) + unat (i_block_count (inode_at ?s i)) \<le> TETFS_MAX_BLOCKS"
      "\<forall>k \<in> extent (inode_at ?s i). blk_used (bitmap_at ?s) k"
      "unat (i_size (inode_at ?s i)) \<le> 512 * unat (i_block_count (inode_at ?s i))"
      by (simp_all add: root_inode_props)
  next
    fix i j assume "i < TETFS_MAX_INODES" "j < TETFS_MAX_INODES" "i \<noteq> j" "in_use ?s i" "in_use ?s j"
    then show "extent (inode_at ?s i) \<inter> extent (inode_at ?s j) = {}" using free by metis
  qed
  moreover have "dec_super (?s TETFS_LBA_SUPER) = fresh_super"
    using assms(2) put_inode_other(3) [OF z] by (simp add: dec_enc_super)
  ultimately show ?thesis using ino [OF z] free by (simp add: fresh_fs_def)
qed

section \<open>The operations as functions of the sectors\<close>

definition matches :: "sectors \<Rightarrow> bytes \<Rightarrow> u16 \<Rightarrow> u16 \<Rightarrow> bool" where
  "matches s name parent i \<longleftrightarrow> in_use s i \<and> i_parent (inode_at s i) = parent \<and>
     strcmp (i_name (inode_at s i)) name = Some 0"

definition find_in :: "sectors \<Rightarrow> (nat \<Rightarrow> bool) \<Rightarrow> int" where
  "find_in s P = (case find P [1..<32] of None \<Rightarrow> -1 | Some i \<Rightarrow> int i)"

lemma matches_named:
  assumes "fs_wf s" "terminated name" "i < TETFS_MAX_INODES"
  shows "matches s name parent i \<longleftrightarrow> named s (cstr name) parent i"
proof (cases "in_use s i")
  case True
  obtain r where r: "strcmp (i_name (inode_at s i)) name = Some r"
    using strcmp_defined fs_wfD(2) [OF assms(1,3) True] assms(2) by blast
  then show ?thesis using strcmp_zero [OF r] by (auto simp: matches_def named_def)
qed (simp add: matches_def named_def)

lemma find_in_cases:
  obtains "find_in s P = -1" "\<forall>i. 1 \<le> i \<and> i < 32 \<longrightarrow> \<not> P i"
  | i where "find_in s P = int i" "1 \<le> i" "i < 32" "P i" "\<forall>j. 1 \<le> j \<and> j < i \<longrightarrow> \<not> P j"
proof (cases "find P [1..<32]")
  case None
  then have "\<forall>i \<in> set [1..<32]. \<not> P i" by (simp only: find_None_iff) blast
  then have "\<forall>i. 1 \<le> i \<and> i < 32 \<longrightarrow> \<not> P i" by (simp only: set_upt) auto
  with None that(1) show ?thesis by (simp add: find_in_def del: upt_rec_numeral)
next
  case (Some i)
  then obtain k where k: "k < length [1..<32]" "P ([1..<32] ! k)" "i = [1..<32] ! k" "\<forall>j < k. \<not> P ([1..<32] ! j)"
    by (simp only: find_Some_iff) blast
  have k31: "k < 31" using k(1) unfolding length_upt by simp
  then have "[1..<32] ! k = 1 + k" by (intro nth_upt) simp
  with k(3) k31 have ik: "i = Suc k" "k < 31" by simp_all
  have "\<forall>j. 1 \<le> j \<and> j < i \<longrightarrow> \<not> P j"
  proof (intro allI impI)
    fix j assume j: "1 \<le> j \<and> j < i"
    then have "[1..<32] ! (j - 1) = j" using ik by (subst nth_upt) simp_all
    with k(4) j ik show "\<not> P j" by (metis Suc_diff_1 Suc_less_eq less_eq_Suc_le One_nat_def)
  qed
  moreover have "find_in s P = int i" using Some by (simp only: find_in_def option.case)
  moreover have "P i" using k(2,3) by (simp only:)
  ultimately show ?thesis using ik by (intro that(2) [of i]) simp_all
qed

lemma length_contents:
  assumes wf: "fs_wf s" and idx: "idx < TETFS_MAX_INODES" and use: "in_use s idx"
  shows "length (contents s (inode_at s idx)) = unat (i_size (inode_at s idx))"
proof -
  let ?n = "inode_at s idx"
  have all: "length (s (data_lba k)) = 512" if "k \<in> extent ?n" for k
    using extent_bound [OF wf idx use that] fs_wfD(1) [OF wf] by (intro secs_wf_len data_lba_bounds(1)) auto
  have "length (concat (map (\<lambda>k. s (data_lba k)) [unat (i_start_block ?n) ..< unat (i_start_block ?n) + unat (i_block_count ?n)]))
      = (\<Sum>k \<leftarrow> [unat (i_start_block ?n) ..< unat (i_start_block ?n) + unat (i_block_count ?n)]. 512)"
    unfolding length_concat map_map comp_def
    by (intro arg_cong [where f = sum_list] map_cong refl all) (simp add: extent_def)
  then show ?thesis using fs_wfD(5) [OF wf idx use] by (simp add: contents_def sum_list_triv)
qed

context reliable_dev
begin

lemma secs: "invar d \<Longrightarrow> secs_wf (sec d)"
  using sec_len by (simp add: secs_wf_def)

lemma read_inode_ok:
  assumes "invar d" "idx < TETFS_MAX_INODES"
  obtains d' where "tetfs_read_inode D idx d = (Some (inode_at (sec d) idx), d')" "invar d'" "sec d' = sec d"
proof -
  obtain d' where "dev_read D (inode_lba idx) d = (Some (sec d (inode_lba idx)), d')" "invar d'" "sec d' = sec d"
    by (rule read_sector [OF assms(1) inode_lba_bounds(1) [OF assms(2)]])
  with assms(2) that show ?thesis
    by (simp add: tetfs_read_inode_def read_inode_sector_def inode_at_def not_le)
qed

lemma write_inode_ok:
  assumes "invar d" "idx < TETFS_MAX_INODES" "inode_wf n"
  obtains d' where "write_inode D idx n d = (True, d')" "invar d'" "sec d' = put_inode idx n (sec d)"
proof -
  let ?b = "blit (sec d (inode_lba idx)) (inode_off idx) (enc_inode n)"
  obtain d1 where d1: "dev_read D (inode_lba idx) d = (Some (sec d (inode_lba idx)), d1)" "invar d1" "sec d1 = sec d"
    by (rule read_sector [OF assms(1) inode_lba_bounds(1) [OF assms(2)]])
  have "length ?b = SECTOR_SIZE"
    using assms inode_off_bound [of idx] inode_lba_bounds(1) [OF assms(2)] secs by (simp add: secs_wf_len)
  then obtain d2 where "dev_write D (inode_lba idx) ?b d1 = (True, d2)" "invar d2" "sec d2 = (sec d1)(inode_lba idx := ?b)"
    by (rule write_sector [OF d1(2) inode_lba_bounds(1) [OF assms(2)]])
  with d1 assms(2) that show ?thesis
    by (simp add: write_inode_def read_inode_sector_def write_inode_sector_def put_inode_def not_le)
qed

lemma read_bitmap_ok:
  assumes "invar d"
  obtains d' where "read_bitmap D d = (Some (bitmap_at (sec d)), d')" "invar d'" "sec d' = sec d"
proof -
  obtain d1 where d1: "dev_read D TETFS_LBA_BITMAP d = (Some (sec d TETFS_LBA_BITMAP), d1)" "invar d1" "sec d1 = sec d"
    by (rule read_sector [OF assms, of TETFS_LBA_BITMAP]) simp_all
  obtain d2 where "dev_read D (TETFS_LBA_BITMAP + 1) d1 = (Some (sec d1 (TETFS_LBA_BITMAP + 1)), d2)" "invar d2" "sec d2 = sec d1"
    by (rule read_sector [OF d1(2), of "TETFS_LBA_BITMAP + 1"]) simp_all
  with d1 that show ?thesis by (simp add: read_bitmap_def bitmap_at_def)
qed

lemma write_bitmap_ok:
  assumes "invar d" "length bm = 1024"
  obtains d' where "write_bitmap D bm d = (True, d')" "invar d'" "sec d' = put_bitmap bm (sec d)"
proof -
  obtain d1 where d1: "dev_write D TETFS_LBA_BITMAP (take 512 bm) d = (True, d1)" "invar d1"
      "sec d1 = (sec d)(TETFS_LBA_BITMAP := take 512 bm)"
    by (rule write_sector [OF assms(1), of TETFS_LBA_BITMAP "take 512 bm"]) (use assms(2) in simp_all)
  obtain d2 where "dev_write D (TETFS_LBA_BITMAP + 1) (drop 512 bm) d1 = (True, d2)" "invar d2"
      "sec d2 = (sec d1)(TETFS_LBA_BITMAP + 1 := drop 512 bm)"
    by (rule write_sector [OF d1(2), of "TETFS_LBA_BITMAP + 1" "drop 512 bm"]) (use assms(2) in simp_all)
  with d1 that show ?thesis by (simp add: write_bitmap_def put_bitmap_def)
qed

lemma find_loop_ok:
  assumes "invar d" "\<forall>i \<in> set is. i < 32"
  shows "\<exists>d'. find_loop D name parent is d =
      (case find (\<lambda>i. matches (sec d) name parent (of_nat i)) is of None \<Rightarrow> -1 | Some i \<Rightarrow> int i, d') \<and>
    invar d' \<and> sec d' = sec d"
  using assms
proof (induction "is" arbitrary: d)
  case (Cons i ks)
  have i: "(of_nat i :: u16) < TETFS_MAX_INODES"
    using Cons.prems(2) by (simp add: word_less_nat_alt unat_of_nat_small)
  obtain d1 where d1: "tetfs_read_inode D (of_nat i) d = (Some (inode_at (sec d) (of_nat i)), d1)" "invar d1" "sec d1 = sec d"
    by (rule read_inode_ok [OF Cons.prems(1) i])
  have "\<exists>d'. find_loop D name parent ks d1 =
      (case find (\<lambda>i. matches (sec d1) name parent (of_nat i)) ks of None \<Rightarrow> -1 | Some i \<Rightarrow> int i, d') \<and>
    invar d' \<and> sec d' = sec d1"
    using Cons.prems(2) by (intro Cons.IH d1(2)) simp
  with d1 show ?case by (auto simp: matches_def)
qed simp

lemma tetfs_find_ok:
  assumes "invar d"
  obtains d' where "tetfs_find D name parent d = (find_in (sec d) (\<lambda>i. matches (sec d) name parent (of_nat i)), d')"
    "invar d'" "sec d' = sec d"
proof -
  have "\<forall>i \<in> set [1..<32]. i < (32 :: nat)" by (simp only: set_upt) simp
  from find_loop_ok [OF assms this, of name parent] that show ?thesis
    by (auto simp: tetfs_find_def find_in_def simp del: upt_rec_numeral)
qed

lemma create_loop_ok:
  assumes "invar d" "\<forall>i \<in> set is. i < 32" "inode_wf (new_inode name parent type)"
  shows "\<exists>d'. invar d' \<and>
    (case find (\<lambda>i. \<not> in_use (sec d) (of_nat i)) is of
       None \<Rightarrow> create_loop D name parent type is d = (-1, d') \<and> sec d' = sec d
     | Some i \<Rightarrow> create_loop D name parent type is d = (int i, d') \<and>
         sec d' = put_inode (of_nat i) (new_inode name parent type) (sec d))"
  using assms(1,2)
proof (induction "is" arbitrary: d)
  case (Cons i ks)
  have i: "(of_nat i :: u16) < TETFS_MAX_INODES"
    using Cons.prems(2) by (simp add: word_less_nat_alt unat_of_nat_small)
  obtain d1 where d1: "tetfs_read_inode D (of_nat i) d = (Some (inode_at (sec d) (of_nat i)), d1)" "invar d1" "sec d1 = sec d"
    by (rule read_inode_ok [OF Cons.prems(1) i])
  show ?case
  proof (cases "in_use (sec d) (of_nat i)")
    case True
    have "\<forall>i \<in> set ks. i < 32" using Cons.prems(2) by simp
    note IH = Cons.IH [OF d1(2) this, unfolded d1(3)]
    have step: "create_loop D name parent type (i # ks) d = create_loop D name parent type ks d1"
      using True d1(1) by simp
    show ?thesis unfolding step using IH True by simp
  next
    case False
    obtain d2 where "write_inode D (of_nat i) (new_inode name parent type) d1 = (True, d2)" "invar d2"
        "sec d2 = put_inode (of_nat i) (new_inode name parent type) (sec d1)"
      by (rule write_inode_ok [OF d1(2) i assms(3)])
    with False d1 show ?thesis by simp
  qed
qed auto

lemma write_blocks_ok:
  assumes "invar d" "\<forall>i \<in> set is. unat start + i < 65536"
  shows "\<exists>d'. write_blocks D start buf len is d = (True, d') \<and> invar d' \<and>
    sec d' = fold (\<lambda>i s. s(data_lba (unat start + i) := data_sector buf len i)) is (sec d)"
  using assms
proof (induction "is" arbitrary: d)
  case (Cons i ks)
  have lba: "TETFS_LBA_DATA + ucast start + of_nat i = data_lba (unat start + i)"
    by (simp add: data_lba_def add.assoc)
  have "data_lba (unat start + i) < MAX_LBA" using Cons.prems(2) by (intro data_lba_bounds) simp
  from write_sector [OF Cons.prems(1) this length_data_sector] obtain d1 where
    d1: "dev_write D (data_lba (unat start + i)) (data_sector buf len i) d = (True, d1)" "invar d1"
      "sec d1 = (sec d)(data_lba (unat start + i) := data_sector buf len i)" by metis
  have "\<forall>i \<in> set ks. unat start + i < 65536" using Cons.prems(2) by simp
  from Cons.IH [OF d1(2) this] show ?case by (simp add: lba d1(1,3))
qed simp

lemma tetfs_write_ok:
  assumes inv: "invar d" and wf: "fs_wf (sec d)" and idx: "idx < TETFS_MAX_INODES"
    and isf: "i_type (inode_at (sec d) idx) = TETFS_TYPE_FILE"
    and len: "unat len \<le> 8192" "unat len \<le> length buf"
    and run: "tetfs_write D idx buf len d = (r, d')"
  shows "invar d' \<and> fs_wf (sec d') \<and>
    (if r = 0 then others_kept idx (sec d) (sec d') \<and>
       (\<exists>st c. inode_at (sec d') idx = (inode_at (sec d) idx)\<lparr>i_start_block := st, i_block_count := c, i_size := len\<rparr>) \<and>
       contents (sec d') (inode_at (sec d') idx) = take (unat len) buf
     else r = -1 \<and> sec d' = sec d \<and>
       (\<forall>k. \<not> free_run (free_blocks_of (inode_at (sec d) idx) (bitmap_at (sec d))) k ((unat len + 511) div 512)))"
proof -
  let ?s = "sec d" and ?n = "inode_at (sec d) idx"
  have use: "in_use ?s idx" using isf by simp
  obtain d1 where d1: "tetfs_read_inode D idx d = (Some ?n, d1)" "invar d1" "sec d1 = ?s"
    by (rule read_inode_ok [OF inv idx])
  have nwf: "inode_wf ?n" using inode_at_wf [OF fs_wfD(1) [OF wf] idx] .
  show ?thesis
  proof (cases "len = 0")
    case True
    have w0: "inode_wf (?n\<lparr>i_size := 0\<rparr>)" using nwf by (simp add: inode_wf_def)
    obtain d2 where d2: "write_inode D idx (?n\<lparr>i_size := 0\<rparr>) d1 = (True, d2)" "invar d2"
        "sec d2 = put_inode idx (?n\<lparr>i_size := 0\<rparr>) (sec d1)"
      by (rule write_inode_ok [OF d1(2) idx w0])
    have rd: "r = 0" "d' = d2" using run d1(1) d2(1) True isf by (auto simp: tetfs_write_def status_def)
    have s2: "sec d2 = put_inode idx (?n\<lparr>i_size := 0\<rparr>) ?s" using d2(3) d1(3) by simp
    have ino: "inode_at (sec d2) j = (if j = idx then ?n\<lparr>i_size := 0\<rparr> else inode_at ?s j)"
      if "j < TETFS_MAX_INODES" for j
      unfolding s2 using inode_at_put [OF fs_wfD(1) [OF wf] idx that w0] .
    have ext: "extent (?n\<lparr>i_size := 0\<rparr>) = extent ?n" by (simp add: extent_def)
    have "fs_wf (sec d2)"
    proof (rule fs_wf_update [OF wf idx])
      show "secs_wf (sec d2)" using secs d2(2) by blast
      show "inode_at (sec d2) j = inode_at ?s j" if "j < TETFS_MAX_INODES" "j \<noteq> idx" for j using ino that by simp
      show "blk_used (bitmap_at (sec d2)) k \<and> k \<notin> extent (inode_at (sec d2) idx)"
        if "j < TETFS_MAX_INODES" "j \<noteq> idx" "in_use ?s j" "k \<in> extent (inode_at ?s j)" for j k
        using that fs_wfD(4) [OF wf that(1,3,4)] fs_wfD(6) [OF wf that(1) idx that(2,3) use] ino [OF idx] ext idx
        by (auto simp: s2 put_inode_other)
    qed (use ino idx fs_wfD(2,3,4,5) [OF wf idx use] ext in \<open>auto simp: s2 put_inode_other\<close>)
    moreover have same: "contents (sec d2) (inode_at ?s j) = contents ?s (inode_at ?s j)"
      if "j < TETFS_MAX_INODES" "in_use ?s j" for j
    proof (rule contents_cong)
      fix k assume "k \<in> extent (inode_at ?s j)"
      then have "k < 65536" using extent_bound [OF wf that] by fastforce
      then show "sec d2 (data_lba k) = ?s (data_lba k)" using idx by (simp add: s2 put_inode_other)
    qed
    then have "others_kept idx ?s (sec d2)" using ino by (simp add: others_kept_def)
    moreover have "inode_at (sec d2) idx = ?n\<lparr>i_start_block := i_start_block ?n, i_block_count := i_block_count ?n, i_size := len\<rparr>"
      using ino idx True by simp
    then have "\<exists>st c. inode_at (sec d2) idx = ?n\<lparr>i_start_block := st, i_block_count := c, i_size := len\<rparr>" by blast
    moreover have "contents (sec d2) (inode_at (sec d2) idx) = take (unat len) buf"
      using ino idx True by (simp add: contents_def)
    ultimately show ?thesis using rd d2(2) by (simp only: if_True simp_thms)
  next
    case False
    let ?bm0 = "free_blocks_of ?n (bitmap_at ?s)"
    obtain d2 where d2: "read_bitmap D d1 = (Some (bitmap_at (sec d1)), d2)" "invar d2" "sec d2 = sec d1"
      by (rule read_bitmap_ok [OF d1(2)])
    have bm0: "(if i_block_count ?n > 0 then ?bm0 else bitmap_at ?s) = ?bm0"
      using free_blocks_none [of ?n] by (simp add: word_gt_0)
    have pos: "0 < blocks_for len"
      using False blocks_for_nat(3) [OF len(1)] by (auto simp: word_gt_0 unat_eq_0)
    note bm0' = free_blocks_used [OF wf idx use]
    note nat = blocks_for_nat(1) [OF len(1)]
    note fit = alloc_blocks_correct [OF bm0'(2) pos]
    have eq: "tetfs_write D idx buf len d = (case alloc_blocks ?bm0 (blocks_for len) of
          None \<Rightarrow> (-1, d2)
        | Some (start, bm) \<Rightarrow>
            let (ok, d) = write_bitmap D bm d2 in
            if \<not> ok then (-1, d)
            else
              let (ok, d) = write_blocks D start buf len [0..<unat (blocks_for len)] d in
              if \<not> ok then (-1, d)
              else status (write_inode D idx
                (?n\<lparr>i_start_block := start, i_block_count := blocks_for len, i_size := len\<rparr>) d))"
      using d1 d2(1) isf False blocks_for_nat(2) [OF len(1)] bm0 by (simp add: tetfs_write_def Let_def)
    show ?thesis
    proof (cases "alloc_blocks ?bm0 (blocks_for len)")
      case None
      then have "r = -1" "d' = d2" using run eq by simp_all
      with None fit d2 d1(3) wf nat show ?thesis by simp
    next
      case (Some p)
      obtain start bm where p: "p = (start, bm)" by force
      have bm: "free_run ?bm0 (unat start) (unat (blocks_for len))" "length bm = 1024"
          "\<And>k. blk_used bm k \<longleftrightarrow> unat start \<le> k \<and> k < unat start + unat (blocks_for len) \<or> blk_used ?bm0 k"
        using fit Some p by auto
      obtain d3 where d3: "write_bitmap D bm d2 = (True, d3)" "invar d3" "sec d3 = put_bitmap bm (sec d2)"
        by (rule write_bitmap_ok [OF d2(2) bm(2)])
      have "\<forall>i \<in> set [0..<unat (blocks_for len)]. unat start + i < 65536"
        using bm(1) by (auto simp: free_run_def)
      from write_blocks_ok [OF d3(2) this] obtain d4 where d4:
          "write_blocks D start buf len [0..<unat (blocks_for len)] d3 = (True, d4)" "invar d4"
          "sec d4 = put_blocks start buf len (unat (blocks_for len)) (sec d3)"
        unfolding put_blocks_def by blast
      let ?m = "?n\<lparr>i_start_block := start, i_block_count := blocks_for len, i_size := len\<rparr>"
      have "inode_wf ?m" using nwf by (simp add: inode_wf_def)
      then obtain d5 where d5: "write_inode D idx ?m d4 = (True, d5)" "invar d5" "sec d5 = put_inode idx ?m (sec d4)"
        by (rule write_inode_ok [OF d4(2) idx])
      have rd: "r = 0" "d' = d5" using run eq Some p d3(1) d4(1) d5(1) by (simp_all add: status_def)
      have "sec d5 = written idx start bm buf len ?s"
        using d5(3) d4(3) d3(3) d2(3) d1(3) by (simp add: written_def)
      with written_correct [OF wf idx use len refl bm(1,2,3)] rd d5(2) show ?thesis by auto
    qed
  qed
qed

lemma read_loop_ok:
  assumes "invar d" "secs_wf (sec d)" "unat (i_start_block n) + unat (i_block_count n) \<le> TETFS_MAX_BLOCKS"
    "unat (i_size n) \<le> 512 * unat (i_block_count n)" "unat offset + unat len \<le> unat (i_size n)"
    "unat got \<le> unat len" "unat pos = unat offset + unat got" "out = slice (unat offset) (unat got) (contents (sec d) n)"
  shows "\<exists>d'. read_loop D n len got pos out d
      = ((int (unat len), slice (unat offset) (unat len) (contents (sec d) n)), d') \<and> invar d' \<and> sec d' = sec d"
  using assms
proof (induction "unat len - unat got" arbitrary: got pos out d rule: less_induct)
  case less
  let ?s = "sec d" and ?c = "unat (i_block_count n)" and ?b = "unat (i_start_block n)"
  have small: "unat len \<le> 524288" using less.prems(3-5) by linarith
  show ?case
  proof (cases "got < len")
    case False
    then have "unat got = unat len" using less.prems(6) by (simp add: word_less_nat_alt)
    moreover from this have "sint got = int (unat len)"
      using small by (simp add: sint_small)
    ultimately show ?thesis using less.prems False by (subst read_loop.simps) simp
  next
    case True
    define blk where "blk = (ucast (pos div TETFS_BLOCK_SIZE) :: u16)"
    define off where "off = pos mod TETFS_BLOCK_SIZE"
    define chunk where "chunk = (let c = TETFS_BLOCK_SIZE - off in if len - got < c then len - got else c)"
    note ch = read_chunk [OF True, of pos, folded off_def, folded chunk_def]
    have off: "unat off = unat pos mod 512" by (simp add: off_def unat_mod_distrib)
    have pos: "unat pos < unat (i_size n)" using less.prems(5,7) True by (simp add: word_less_nat_alt)
    then have q: "unat pos div 512 < ?c" using less.prems(4) by (simp add: less_mult_imp_div_less mult.commute)
    have blk: "unat blk = unat pos div 512"
      unfolding blk_def unsigned_ucast_eq using q less.prems(3) by (simp add: unat_div_distrib take_bit_nat_eq_self)
    then have inr: "\<not> i_block_count n \<le> blk" using q by (simp add: word_le_nat_alt)
    have lba: "TETFS_LBA_DATA + ucast (i_start_block n) + ucast blk = data_lba (?b + unat pos div 512)"
      by (simp add: data_lba_def add.assoc flip: blk)
    have k: "?b + unat pos div 512 < 65536" using q less.prems(3) by linarith
    obtain d1 where d1: "dev_read D (data_lba (?b + unat pos div 512)) d = (Some (?s (data_lba (?b + unat pos div 512))), d1)"
        "invar d1" "sec d1 = ?s"
      by (rule read_sector [OF less.prems(1) data_lba_bounds(1) [OF k]])
    let ?out = "out @ slice (unat off) (unat chunk) (?s (data_lba (?b + unat pos div 512)))"
    have step: "read_loop D n len got pos out d = read_loop D n len (got + chunk) (pos + chunk) ?out d1"
      using True inr d1(1) unfolding blk_def off_def
      by (subst read_loop.simps) (simp add: Let_def lba [unfolded blk_def] chunk_def off_def)
    let ?secs = "map (\<lambda>k. ?s (data_lba k)) [?b ..< ?b + ?c]"
    have all: "\<forall>x \<in> set ?secs. length x = 512"
      using less.prems(2,3) by (auto intro!: secs_wf_len data_lba_bounds(1))
    have fit: "unat off + unat chunk \<le> 512" using ch(4) off by (simp add: min_def split: if_splits)
    have "slice (unat pos) (unat chunk) (contents ?s n) = slice (unat pos) (unat chunk) (concat ?secs)"
      unfolding contents_def using ch(3) less.prems(5,7) by (intro slice_take) linarith
    also have "\<dots> = slice (512 * (unat pos div 512) + unat off) (unat chunk) (concat ?secs)"
      by (simp add: off)
    also have "slice (512 * (unat pos div 512) + unat off) (unat chunk) (concat ?secs)
        = slice (unat off) (unat chunk) (?secs ! (unat pos div 512))"
      using q by (intro slice_concat all fit) simp
    also have "?secs ! (unat pos div 512) = ?s (data_lba (?b + unat pos div 512))" using q by simp
    finally have part: "slice (unat pos) (unat chunk) (contents ?s n)
        = slice (unat off) (unat chunk) (?s (data_lba (?b + unat pos div 512)))" .
    have "unat (pos + chunk) = unat pos + unat chunk"
      using ch(3) less.prems(5,7) u32_lt [of "i_size n"] by (intro unat_plus_small) simp
    then have "\<exists>d'. read_loop D n len (got + chunk) (pos + chunk) ?out d1
        = ((int (unat len), slice (unat offset) (unat len) (contents (sec d1) n)), d') \<and> invar d' \<and> sec d' = sec d1"
      using less.prems d1(2,3) ch(1-3) part
      by (intro less.hyps) (simp_all add: slice_add)
    then show ?thesis unfolding step d1(3) .
  qed
qed

lemma tetfs_read_ok:
  assumes inv: "invar d" and wf: "fs_wf (sec d)" and idx: "idx < TETFS_MAX_INODES"
    and isf: "i_type (inode_at (sec d) idx) = TETFS_TYPE_FILE"
    and nowrap: "unat offset + unat len < 4294967296"
  shows "\<exists>d'. tetfs_read D idx offset len d =
    (let out = slice (unat offset) (unat len) (contents (sec d) (inode_at (sec d) idx)) in ((int (length out), out), d')) \<and>
    invar d' \<and> sec d' = sec d"
proof -
  let ?n = "inode_at (sec d) idx"
  have use: "in_use (sec d) idx" using isf by simp
  obtain d1 where d1: "tetfs_read_inode D idx d = (Some ?n, d1)" "invar d1" "sec d1 = sec d"
    by (rule read_inode_ok [OF inv idx])
  have len: "length (contents (sec d) ?n) = unat (i_size ?n)" by (rule length_contents [OF wf idx use])
  show ?thesis
  proof (cases "i_size ?n \<le> offset")
    case True
    then have "slice (unat offset) (unat len) (contents (sec d) ?n) = []"
      using len by (simp add: slice_def word_le_nat_alt)
    with True d1 isf show ?thesis by (simp add: tetfs_read_def)
  next
    case False
    define m where "m = (if i_size ?n < offset + len then i_size ?n - offset else len)"
    have lt: "unat offset < unat (i_size ?n)" using False by (simp add: word_le_nat_alt)
    have sum: "unat (offset + len) = unat offset + unat len" using nowrap by (intro unat_plus_small) simp
    have "unat (i_size ?n - offset) = unat (i_size ?n) - unat offset"
      using lt by (intro unat_minus_le) (simp add: word_le_nat_alt)
    then have m: "unat m = min (unat len) (unat (i_size ?n) - unat offset)"
      using sum by (auto simp: m_def word_less_nat_alt)
    have run: "tetfs_read D idx offset len d = read_loop D ?n m 0 offset [] d1"
      using d1(1) isf False by (simp add: tetfs_read_def m_def Let_def)
    have "\<exists>d'. read_loop D ?n m 0 offset [] d1
      = ((int (unat m), slice (unat offset) (unat m) (contents (sec d1) ?n)), d') \<and> invar d' \<and> sec d' = sec d1"
      using d1(2,3) fs_wfD(1) [OF wf] fs_wfD(3,5) [OF wf idx use] m lt
      by (intro read_loop_ok) (simp_all add: slice_def)
    moreover have "slice (unat offset) (unat m) (contents (sec d) ?n) = slice (unat offset) (unat len) (contents (sec d) ?n)"
      unfolding slice_def m using len by (simp add: min_def)
    moreover have "length (slice (unat offset) (unat len) (contents (sec d) ?n)) = unat m"
      using len m by (simp add: slice_def)
    ultimately show ?thesis unfolding run using d1(3) by (auto simp: Let_def)
  qed
qed

lemma tetfs_create_ok:
  assumes inv: "invar d" and wf: "fs_wf (sec d)" and name: "terminated name" and type: "type \<noteq> TETFS_TYPE_FREE"
    and run: "tetfs_create D name parent type d = (r, d')"
  shows "invar d' \<and> fs_wf (sec d') \<and>
    (if r = -1 then sec d' = sec d \<and>
       ((\<exists>i < TETFS_MAX_INODES. i \<noteq> 0 \<and> named (sec d) (cstr name) parent i) \<or>
        (\<forall>i < TETFS_MAX_INODES. i \<noteq> 0 \<longrightarrow> in_use (sec d) i))
     else \<exists>i. r = int (unat i) \<and> 0 < i \<and> i < TETFS_MAX_INODES \<and> \<not> in_use (sec d) i \<and>
       (\<forall>j < TETFS_MAX_INODES. j \<noteq> 0 \<longrightarrow> \<not> named (sec d) (cstr name) parent j) \<and>
       inode_at (sec d') i = new_inode name parent type \<and> others_kept i (sec d) (sec d') \<and>
       bitmap_at (sec d') = bitmap_at (sec d))"
proof -
  have small: "(of_nat i :: u16) < TETFS_MAX_INODES" "unat (of_nat i :: u16) = i" if "i < 32" for i
    using that by (simp_all add: word_less_nat_alt unat_of_nat_small)
  obtain d1 where d1: "tetfs_find D name parent d = (find_in (sec d) (\<lambda>i. matches (sec d) name parent (of_nat i)), d1)"
      "invar d1" "sec d1 = sec d"
    by (rule tetfs_find_ok [OF inv])
  show ?thesis
  proof (cases rule: find_in_cases [of "sec d" "\<lambda>i. matches (sec d) name parent (of_nat i)"])
    case (2 i)
    then have rd: "r = -1" "d' = d1" using run d1(1) by (auto simp: tetfs_create_def)
    have "named (sec d) (cstr name) parent (of_nat i)" using 2 matches_named [OF wf name] small by blast
    moreover have "(of_nat i :: u16) \<noteq> 0" using small(2) [OF 2(3)] 2(2) by auto
    ultimately show ?thesis using rd d1 wf small(1) [OF 2(3)] by auto
  next
    case 1
    have none: "\<not> named (sec d) (cstr name) parent j" if "j < TETFS_MAX_INODES" "j \<noteq> 0" for j
    proof -
      have "unat j < 32" "1 \<le> unat j" using that by (simp_all add: word_less_nat_alt Suc_le_eq unat_gt_0)
      then have "\<not> matches (sec d) name parent (of_nat (unat j))" using 1(2) by blast
      then show ?thesis using matches_named [OF wf name that(1)] by simp
    qed
    have eq: "tetfs_create D name parent type d = create_loop D name parent type [1..<32] d1"
      using d1(1) 1(1) by (simp add: tetfs_create_def del: upt_rec_numeral)
    have all: "\<forall>i \<in> set [1..<32]. i < (32 :: nat)" by (simp only: set_upt) simp
    obtain d2 where d2: "invar d2" "case find (\<lambda>i. \<not> in_use (sec d1) (of_nat i)) [1..<32] of
       None \<Rightarrow> create_loop D name parent type [1..<32] d1 = (-1, d2) \<and> sec d2 = sec d1
     | Some i \<Rightarrow> create_loop D name parent type [1..<32] d1 = (int i, d2) \<and>
         sec d2 = put_inode (of_nat i) (new_inode name parent type) (sec d1)"
      using create_loop_ok [OF d1(2) all new_inode_wf] by blast
    show ?thesis
    proof (cases "find (\<lambda>i. \<not> in_use (sec d1) (of_nat i)) [1..<32]")
      case None
      then have "\<forall>i \<in> set [1..<32]. in_use (sec d) (of_nat i)" using d1(3) by (simp only: find_None_iff) blast
      then have "in_use (sec d) j" if "j < TETFS_MAX_INODES" "j \<noteq> 0" for j
      proof -
        have "0 < unat j" "unat j < 32" using that by (simp_all add: word_less_nat_alt unat_gt_0)
        then have "unat j \<in> set [1..<32]" by (simp only: set_upt) simp
        with \<open>\<forall>i \<in> set [1..<32]. in_use (sec d) (of_nat i)\<close> show ?thesis by force
      qed
      moreover have "r = -1" "d' = d2" "sec d2 = sec d" using None d2(2) run eq d1(3) by auto
      ultimately show ?thesis using d2(1) wf by simp
    next
      case (Some i)
      then have i: "\<not> in_use (sec d) (of_nat i)" "i \<in> set [1..<32]"
        using d1(3) by (auto simp only: find_Some_iff) (metis nth_mem)+
      then have ib: "1 \<le> i" "i < 32" by (simp_all only: set_upt) simp_all
      let ?i = "of_nat i :: u16" and ?n = "new_inode name parent type"
      have s2: "sec d2 = put_inode ?i ?n (sec d)" and rd: "r = int i" "d' = d2"
        using Some d2(2) run eq d1(3) by auto
      have ino: "inode_at (sec d2) j = (if j = ?i then ?n else inode_at (sec d) j)" if "j < TETFS_MAX_INODES" for j
        unfolding s2 using fs_wfD(1) [OF wf] small(1) [OF ib(2)] that by (intro inode_at_put) simp_all
      have "fs_wf (sec d2)"
      proof (rule fs_wf_update [OF wf small(1) [OF ib(2)]])
        show "secs_wf (sec d2)" using secs d2(1) by blast
        show "inode_at (sec d2) j = inode_at (sec d) j" if "j < TETFS_MAX_INODES" "j \<noteq> ?i" for j using ino that by simp
        show "blk_used (bitmap_at (sec d2)) k \<and> k \<notin> extent (inode_at (sec d2) ?i)"
          if "j < TETFS_MAX_INODES" "j \<noteq> ?i" "in_use (sec d) j" "k \<in> extent (inode_at (sec d) j)" for j k
          using fs_wfD(4) [OF wf that(1,3,4)] ino small(1) [OF ib(2)] by (simp add: s2 put_inode_other)
      qed (use ino small(1) [OF ib(2)] new_inode_cstr(2) in simp)
      moreover have "contents (sec d2) (inode_at (sec d) j) = contents (sec d) (inode_at (sec d) j)"
        if "j < TETFS_MAX_INODES" "in_use (sec d) j" for j
      proof (rule contents_cong)
        fix k assume "k \<in> extent (inode_at (sec d) j)"
        then have "k < 65536" using extent_bound [OF wf that] by fastforce
        then show "sec d2 (data_lba k) = sec d (data_lba k)" using small(1) [OF ib(2)] by (simp add: s2 put_inode_other)
      qed
      then have "others_kept ?i (sec d) (sec d2)" using ino by (simp add: others_kept_def)
      moreover have "0 < ?i" using small(2) [OF ib(2)] ib(1) by (simp add: word_less_nat_alt)
      ultimately have "fs_wf (sec d2)" "r = int (unat ?i)" "0 < ?i" "?i < TETFS_MAX_INODES"
          "inode_at (sec d2) ?i = ?n" "others_kept ?i (sec d) (sec d2)" "bitmap_at (sec d2) = bitmap_at (sec d)"
        using rd small [OF ib(2)] ino by (simp_all add: s2 put_inode_other)
      moreover have "r \<noteq> -1" using rd by simp
      ultimately show ?thesis using rd(2) d2(1) i(1) none by (simp only: if_False) blast
    qed
  qed
qed

lemma tetfs_delete_ok:
  assumes inv: "invar d" and wf: "fs_wf (sec d)" and run: "tetfs_delete D idx d = (r, d')"
  shows "invar d' \<and> fs_wf (sec d') \<and>
    (if idx \<noteq> 0 \<and> idx < TETFS_MAX_INODES \<and> in_use (sec d) idx
     then r = 0 \<and> \<not> in_use (sec d') idx \<and> others_kept idx (sec d) (sec d') \<and>
       (\<forall>k. blk_used (bitmap_at (sec d')) k \<longleftrightarrow> k \<notin> extent (inode_at (sec d) idx) \<and> blk_used (bitmap_at (sec d)) k)
     else r = -1 \<and> sec d' = sec d)"
proof -
  let ?s = "sec d" and ?n = "inode_at (sec d) idx"
  show ?thesis
  proof (cases "idx \<noteq> 0 \<and> idx < TETFS_MAX_INODES")
    case False
    then have "tetfs_delete D idx d = (-1, d)"
      by (cases "idx = 0") (simp_all add: tetfs_delete_def tetfs_read_inode_def not_less)
    with False run inv wf show ?thesis by auto
  next
    case True
    then have idx: "idx < TETFS_MAX_INODES" "idx \<noteq> 0" by auto
    obtain d1 where d1: "tetfs_read_inode D idx d = (Some ?n, d1)" "invar d1" "sec d1 = ?s"
      by (rule read_inode_ok [OF inv idx(1)])
    show ?thesis
    proof (cases "in_use ?s idx")
      case False
      then have "r = -1" "d' = d1" using run d1(1) idx by (auto simp: tetfs_delete_def)
      with False d1 wf show ?thesis by simp
    next
      case use: True
      note freed = free_blocks_used [OF wf idx(1) use]
      let ?bm = "free_blocks_of ?n (bitmap_at ?s)" and ?z = "zero_inode\<lparr>i_type := TETFS_TYPE_FREE\<rparr>"
      have zwf: "inode_wf ?z" by (simp add: inode_wf_def zero_inode_def)
      have "\<exists>d2. (if i_block_count ?n > 0 then
           let (rb, d) = read_bitmap D d1 in
           case rb of None \<Rightarrow> (False, d) | Some bm \<Rightarrow> write_bitmap D (free_blocks_of ?n bm) d
         else (True, d1)) = (True, d2) \<and> invar d2 \<and> secs_wf (sec d2) \<and> bitmap_at (sec d2) = ?bm \<and>
         (\<forall>i < TETFS_MAX_INODES. inode_at (sec d2) i = inode_at ?s i) \<and>
         (\<forall>k < 65536. sec d2 (data_lba k) = ?s (data_lba k))"
      proof (cases "i_block_count ?n > 0")
        case True
        obtain d2 where d2: "read_bitmap D d1 = (Some (bitmap_at (sec d1)), d2)" "invar d2" "sec d2 = sec d1"
          by (rule read_bitmap_ok [OF d1(2)])
        obtain d3 where "write_bitmap D ?bm d2 = (True, d3)" "invar d3" "sec d3 = put_bitmap ?bm (sec d2)"
          by (rule write_bitmap_ok [OF d2(2) freed(2)])
        with True d1(3) d2 secs [of d3] freed(2) show ?thesis by (simp add: frame_simps)
      next
        case False
        then have "?bm = bitmap_at ?s" by (simp add: free_blocks_none word_gt_0)
        with False d1 secs [of d1] show ?thesis by simp
      qed
      then obtain d2 where d2: "(if i_block_count ?n > 0 then
           let (rb, d) = read_bitmap D d1 in
           case rb of None \<Rightarrow> (False, d) | Some bm \<Rightarrow> write_bitmap D (free_blocks_of ?n bm) d
         else (True, d1)) = (True, d2)" "invar d2" "secs_wf (sec d2)" "bitmap_at (sec d2) = ?bm"
         "\<And>i. i < TETFS_MAX_INODES \<Longrightarrow> inode_at (sec d2) i = inode_at ?s i"
         "\<And>k. k < 65536 \<Longrightarrow> sec d2 (data_lba k) = ?s (data_lba k)" by blast
      obtain d3 where d3: "write_inode D idx ?z d2 = (True, d3)" "invar d3" "sec d3 = put_inode idx ?z (sec d2)"
        by (rule write_inode_ok [OF d2(2) idx(1) zwf])
      have rd: "r = 0" "d' = d3" using run d1(1) d2(1) d3(1) use idx by (simp_all add: tetfs_delete_def status_def)
      have ino: "inode_at (sec d3) j = (if j = idx then ?z else inode_at ?s j)" if "j < TETFS_MAX_INODES" for j
        unfolding d3(3) using inode_at_put [OF d2(3) idx(1) that zwf] d2(5) [OF that] by simp
      have bm: "bitmap_at (sec d3) = ?bm" using d3(3) d2(4) idx(1) by (simp add: put_inode_other)
      have dat: "sec d3 (data_lba k) = ?s (data_lba k)" if "k < 65536" for k
        using d3(3) d2(6) [OF that] idx(1) that by (simp add: put_inode_other)
      have "fs_wf (sec d3)"
      proof (rule fs_wf_update [OF wf idx(1)])
        show "secs_wf (sec d3)" using secs d3(2) by blast
        show "inode_at (sec d3) j = inode_at ?s j" if "j < TETFS_MAX_INODES" "j \<noteq> idx" for j using ino that by simp
        show "blk_used (bitmap_at (sec d3)) k \<and> k \<notin> extent (inode_at (sec d3) idx)"
          if "j < TETFS_MAX_INODES" "j \<noteq> idx" "in_use ?s j" "k \<in> extent (inode_at ?s j)" for j k
        proof -
          have "k \<notin> extent ?n" using fs_wfD(6) [OF wf that(1) idx(1) that(2,3) use] that(4) by blast
          then have "blk_used ?bm k" using fs_wfD(4) [OF wf that(1,3,4)] freed(1) by blast
          moreover have "extent (inode_at (sec d3) idx) = {}" using ino [OF idx(1)] by (simp add: extent_def)
          ultimately show ?thesis unfolding bm by simp
        qed
      qed (use ino idx in simp)
      moreover have "contents (sec d3) (inode_at ?s j) = contents ?s (inode_at ?s j)"
        if "j < TETFS_MAX_INODES" "in_use ?s j" for j
      proof (rule contents_cong)
        fix k assume "k \<in> extent (inode_at ?s j)"
        then have "k < 65536" using extent_bound [OF wf that] by fastforce
        then show "sec d3 (data_lba k) = ?s (data_lba k)" by (rule dat)
      qed
      then have "others_kept idx ?s (sec d3)" using ino by (simp add: others_kept_def)
      ultimately show ?thesis using rd d3(2) use idx ino freed(1) bm by simp
    qed
  qed
qed

lemma zero_sectors_ok:
  assumes "invar d" "\<forall>l \<in> set ls. l < MAX_LBA"
  shows "\<exists>d'. zero_sectors D ls d = (True, d') \<and> invar d' \<and>
    (\<forall>l. sec d' l = (if l \<in> set ls then replicate 512 0 else sec d l))"
  using assms
proof (induction ls arbitrary: d)
  case (Cons l ls)
  have len: "length (replicate 512 (0 :: u8)) = SECTOR_SIZE" by (rule length_replicate)
  have l: "l < MAX_LBA" "\<forall>l \<in> set ls. l < MAX_LBA" using Cons.prems(2) by simp_all
  obtain d1 where d1: "dev_write D l (replicate 512 0) d = (True, d1)" "invar d1" "sec d1 = (sec d)(l := replicate 512 0)"
    by (rule write_sector [OF Cons.prems(1) l(1) len])
  from Cons.IH [OF d1(2) l(2)] d1(1,3) show ?case by auto
qed simp

lemma tetfs_format_ok:
  assumes inv: "invar (disk fs)"
  shows "\<exists>d'. tetfs_format D fs = (0, fs\<lparr>disk := d', fs_mounted := True\<rparr>) \<and> invar d' \<and> fresh_fs (sec d')"
proof -
  have sb: "blit (replicate 512 0) 0 (enc_super fresh_super) = enc_super fresh_super"
    using enc_super_length by (simp add: blit_replicate)
  have "(TETFS_LBA_SUPER :: u32) < MAX_LBA" by simp
  from write_sector [OF inv this enc_super_length]
  obtain d1 where d1: "write_super D fresh_super (disk fs) = (True, d1)" "invar d1"
      "sec d1 = (sec (disk fs))(TETFS_LBA_SUPER := enc_super fresh_super)"
    unfolding write_super_def sb by metis
  let ?li = "map (\<lambda>i. TETFS_LBA_INODES + of_nat i) [0..<4]" and ?lb = "map (\<lambda>i. TETFS_LBA_BITMAP + of_nat i) [0..<2]"
  have li: "set ?li = {257, 258, 259, 260 :: u32}" and lb: "set ?lb = {261, 262 :: u32}"
  proof -
    have "{0..<4 :: nat} = {0, 1, 2, 3}" "{0..<2 :: nat} = {0, 1}" by auto
    then show "set ?li = {257, 258, 259, 260 :: u32}" "set ?lb = {261, 262 :: u32}"
      by (simp_all only: set_map set_upt image_insert image_empty) simp_all
  qed
  obtain d2 where d2: "zero_sectors D ?li d1 = (True, d2)" "invar d2"
      "\<And>l. sec d2 l = (if l \<in> set ?li then replicate 512 0 else sec d1 l)"
    using zero_sectors_ok [OF d1(2), of ?li] unfolding li by auto
  obtain d3 where d3: "zero_sectors D ?lb d2 = (True, d3)" "invar d3"
      "\<And>l. sec d3 l = (if l \<in> set ?lb then replicate 512 0 else sec d2 l)"
    using zero_sectors_ok [OF d2(2), of ?lb] unfolding lb by auto
  have z: "(0 :: u16) < TETFS_MAX_INODES" by simp
  obtain d4 where d4: "write_inode D 0 root_inode d3 = (True, d4)" "invar d4" "sec d4 = put_inode 0 root_inode (sec d3)"
    by (rule write_inode_ok [OF d3(2) z root_inode_props(1)])
  have "fresh_fs (put_inode 0 root_inode (sec d3))"
  proof (rule format_sectors)
    show "secs_wf (sec d3)" using secs d3(2) by blast
    show "sec d3 TETFS_LBA_SUPER = enc_super fresh_super" unfolding d3(3) d2(3) d1(3) li lb by simp
    show "sec d3 (inode_lba i) = replicate 512 0" if "i < TETFS_MAX_INODES" for i
    proof -
      have "257 \<le> unat (inode_lba i)" "unat (inode_lba i) \<le> 260"
        using inode_lba_nat [OF that] that by (simp_all add: word_less_nat_alt) 
      then have "unat (inode_lba i) \<in> {257, 258, 259, 260}" by auto
      then have "inode_lba i \<in> {257, 258, 259, 260}" by (auto simp: word_unat_eq_iff)
      then show ?thesis unfolding d3(3) d2(3) li lb by auto
    qed
    show "bitmap_at (sec d3) = replicate 1024 0"
      unfolding bitmap_at_def d3(3) lb by (simp flip: replicate_add)
  qed
  moreover have "tetfs_format D fs = (0, fs\<lparr>disk := d4, fs_mounted := True\<rparr>)"
    using d1(1) d2(1) d3(1) d4(1) unfolding tetfs_format_def by (simp only: Let_def prod.case not_True_eq_False if_False)
  ultimately show ?thesis using d4(2,3) by (intro exI [of _ d4]) simp
qed

lemma tetfs_mount_ok:
  assumes inv: "invar (disk fs)"
  shows "\<exists>d'. invar d' \<and> sec d' = sec (disk fs) \<and>
    tetfs_mount D fs =
      (if s_magic (dec_super (sec (disk fs) TETFS_LBA_SUPER)) = TETFS_MAGIC \<and>
          s_version (dec_super (sec (disk fs) TETFS_LBA_SUPER)) = TETFS_VERSION
       then (0, fs\<lparr>disk := d', fs_mounted := True\<rparr>) else (-1, fs\<lparr>disk := d'\<rparr>))"
proof -
  obtain d1 where "dev_read D TETFS_LBA_SUPER (disk fs) = (Some (sec (disk fs) TETFS_LBA_SUPER), d1)" "invar d1"
      "sec d1 = sec (disk fs)"
    by (rule read_sector [OF inv, of TETFS_LBA_SUPER]) simp_all
  then show ?thesis by (auto simp: tetfs_mount_def read_super_def)
qed

lemma tetfs_find_named:
  assumes inv: "invar d" and wf: "fs_wf (sec d)" and name: "terminated name"
    and run: "tetfs_find D name parent d = (r, d')"
  shows "invar d' \<and> sec d' = sec d \<and>
    (if r = -1 then \<forall>i < TETFS_MAX_INODES. i \<noteq> 0 \<longrightarrow> \<not> named (sec d) (cstr name) parent i
     else \<exists>i. r = int (unat i) \<and> 0 < i \<and> i < TETFS_MAX_INODES \<and> named (sec d) (cstr name) parent i \<and>
       (\<forall>j. 0 < j \<and> j < i \<longrightarrow> \<not> named (sec d) (cstr name) parent j))"
proof -
  let ?P = "\<lambda>i. matches (sec d) name parent (of_nat i)"
  have P: "?P (unat i) \<longleftrightarrow> named (sec d) (cstr name) parent i" if "i < TETFS_MAX_INODES" for i
    using matches_named [OF wf name that] by simp
  have fin: "r = find_in (sec d) ?P" "invar d'" "sec d' = sec d"
    using run by (rule_tac tetfs_find_ok [OF inv, of name parent], simp)+
  show ?thesis
  proof (cases rule: find_in_cases [of "sec d" ?P])
    case 1
    have "\<not> named (sec d) (cstr name) parent i" if "i < TETFS_MAX_INODES" "i \<noteq> 0" for i
    proof -
      have "1 \<le> unat i" "unat i < 32" using that by (simp_all add: word_less_nat_alt Suc_le_eq unat_gt_0)
      then show ?thesis using 1(2) P [OF that(1)] by blast
    qed
    with 1 fin show ?thesis by simp
  next
    case (2 k)
    let ?i = "of_nat k :: u16"
    have i: "unat ?i = k" "?i < TETFS_MAX_INODES" "0 < ?i"
      using 2(2,3) by (simp_all add: word_less_nat_alt unat_of_nat_small)
    have "\<not> named (sec d) (cstr name) parent j" if "0 < j" "j < ?i" for j
    proof -
      have j: "1 \<le> unat j" "unat j < k" "j < TETFS_MAX_INODES"
        using that i 2(3) by (simp_all add: word_less_nat_alt)
      then show ?thesis using 2(5) P [OF j(3)] by blast
    qed
    moreover have "named (sec d) (cstr name) parent ?i" using P [OF i(2)] 2(4) i(1) by simp
    moreover have "r = int (unat ?i)" "r \<noteq> -1" using fin(1) 2(1) i(1) by simp_all
    ultimately show ?thesis using fin(2,3) i(2,3) by (simp only: if_False) blast
  qed
qed

lemma create_then_find:
  assumes inv: "invar d" and wf: "fs_wf (sec d)" and name: "terminated name" "length (cstr name) \<le> 50"
    and type: "type \<noteq> TETFS_TYPE_FREE" and run: "tetfs_create D name parent type d = (r, d')"
  shows "invar d' \<and> fs_wf (sec d') \<and>
    (if r = -1 then sec d' = sec d \<and>
       (fst (tetfs_find D name parent d) \<noteq> -1 \<or> (\<forall>i < TETFS_MAX_INODES. i \<noteq> 0 \<longrightarrow> in_use (sec d) i))
     else fst (tetfs_find D name parent d) = -1 \<and> fst (tetfs_find D name parent d') = r \<and>
       (\<exists>i. r = int (unat i) \<and> contents (sec d') (inode_at (sec d') i) = [] \<and>
          i_type (inode_at (sec d') i) = type \<and> others_kept i (sec d) (sec d')))"
proof -
  obtain f d1 where f: "tetfs_find D name parent d = (f, d1)" by force
  note find = tetfs_find_named [OF inv wf name(1) f]
  note cr = tetfs_create_ok [OF inv wf name(1) type run]
  show ?thesis
  proof (cases "r = -1")
    case True
    then show ?thesis using cr find f by (auto split: if_splits)
  next
    case False
    then obtain i where i: "r = int (unat i)" "0 < i" "i < TETFS_MAX_INODES"
        "\<forall>j < TETFS_MAX_INODES. j \<noteq> 0 \<longrightarrow> \<not> named (sec d) (cstr name) parent j"
        "inode_at (sec d') i = new_inode name parent type" "others_kept i (sec d) (sec d')"
      using cr by auto
    have "f = -1" using find i(4) by (auto split: if_splits)
    obtain g d2 where g: "tetfs_find D name parent d' = (g, d2)" by force
    have cr': "invar d'" "fs_wf (sec d')" using cr by auto
    have "named (sec d') (cstr name) parent i"
      using i(5) type name(2) new_inode_cstr(1) [of name parent type] by (simp add: named_def)
    then have "g \<noteq> -1" using tetfs_find_named [OF cr' name(1) g] i(2,3) by (auto split: if_splits)
    then obtain k where k: "g = int (unat k)" "0 < k" "k < TETFS_MAX_INODES" "named (sec d') (cstr name) parent k"
      using tetfs_find_named [OF cr' name(1) g] by auto
    have "k = i"
    proof (rule ccontr)
      assume "k \<noteq> i"
      then have "named (sec d) (cstr name) parent k"
        using i(6) k(3,4) by (simp add: others_kept_def named_def)
      with i(4) k(2,3) show False by blast
    qed
    then have "g = r" using k(1) i(1) by simp
    moreover have "contents (sec d') (inode_at (sec d') i) = []" using i(5) by (simp add: contents_def)
    moreover have "i_type (inode_at (sec d') i) = type" using i(5) by simp
    ultimately show ?thesis using False cr' f g \<open>f = -1\<close> i(1,6) by auto
  qed
qed

end

section \<open>Properties\<close>

text \<open>A formatted disk behind the ATA driver, and the disk with one file on it.\<close>

abbreviation "adev \<equiv> ata_dev sim_ports"

definition fs_blank :: "sim ata_state tetfs" where
  "fs_blank = \<lparr>fs_mounted = False, fd_table = [], disk = sim_blank\<rparr>"

definition fs_boot :: "sim ata_state" where
  "fs_boot = disk (snd (tetfs_format adev fs_blank))"

definition name_a :: bytes where
  "name_a = [0x61, 0]"

definition fs_file :: "sim ata_state" where
  "fs_file = snd (tetfs_create adev name_a 0 TETFS_TYPE_FILE fs_boot)"

lemma reliable_adev: "reliable_dev adev sim_sec sim_ok"
  by (rule ata.reliable_dev_axioms)

lemma fs_boot_ok: "sim_ok fs_boot" "fresh_fs (sim_sec fs_boot)"
  using ata.tetfs_format_ok [of fs_blank] sim_blank_ok by (auto simp: fs_boot_def fs_blank_def)

lemma fs_boot_wf: "fs_wf (sim_sec fs_boot)"
  using fs_boot_ok(2) by (simp add: fresh_fs_def)

lemma fs_file_ok:
  obtains i where "sim_ok fs_file" "fs_wf (sim_sec fs_file)" "i < TETFS_MAX_INODES" "0 < i"
    "inode_at (sim_sec fs_file) i = new_inode name_a 0 TETFS_TYPE_FILE"
    "tetfs_create adev name_a 0 TETFS_TYPE_FILE fs_boot = (int (unat i), fs_file)"
    "\<forall>k < TETFS_MAX_BLOCKS. \<not> blk_used (bitmap_at (sim_sec fs_file)) k"
proof -
  obtain r where run: "tetfs_create adev name_a 0 TETFS_TYPE_FILE fs_boot = (r, fs_file)"
    by (metis fs_file_def prod.collapse)
  have one: "(1 :: u16) < TETFS_MAX_INODES" "(1 :: u16) \<noteq> 0" by simp_all
  have "\<not> (\<forall>i < TETFS_MAX_INODES. i \<noteq> 0 \<longrightarrow> in_use (sim_sec fs_boot) i)"
    using fs_boot_ok(2) one unfolding fresh_fs_def by blast
  moreover have "\<not> named (sim_sec fs_boot) n 0 i" if "i < TETFS_MAX_INODES" for i n
    using fs_boot_ok(2) that by (cases "i = 0") (auto simp: fresh_fs_def named_def root_inode_def)
  moreover have "terminated name_a" by (simp add: name_a_def)
  ultimately show ?thesis
    using ata.tetfs_create_ok [OF fs_boot_ok(1) fs_boot_wf _ _ run] fs_boot_ok(2) that run
    by (auto simp: fresh_fs_def split: if_splits)
qed





text \<open>
  \<open>tetfs_create\<close> and \<open>tetfs_find\<close> agree: creating a name of at most 50 characters that
  is not in the directory returns the index of a new, empty file under which the name is
  found from then on; every other name is found as before, and every other file is kept.
  Creation fails, changing nothing, only when the name exists or all inodes are in use.
\<close>

theorem tetfs_create_then_find:
  assumes "reliable_dev D sec invar" "invar d" "fs_wf (sec d)" "terminated name" "length (cstr name) \<le> 50"
    "type \<noteq> TETFS_TYPE_FREE" "tetfs_create D name parent type d = (r, d')"
  shows "invar d' \<and> fs_wf (sec d') \<and>
    (if r = -1 then sec d' = sec d \<and>
       (fst (tetfs_find D name parent d) \<noteq> -1 \<or> (\<forall>i < TETFS_MAX_INODES. i \<noteq> 0 \<longrightarrow> in_use (sec d) i))
     else fst (tetfs_find D name parent d) = -1 \<and> fst (tetfs_find D name parent d') = r \<and>
       (\<exists>i. r = int (unat i) \<and> contents (sec d') (inode_at (sec d') i) = [] \<and>
          i_type (inode_at (sec d') i) = type \<and> others_kept i (sec d) (sec d')))"
  by (rule reliable_dev.create_then_find [OF assms])

theorem tetfs_create_then_find_witness:
  "\<exists>r. 0 < r \<and> fst (tetfs_create adev name_a 0 TETFS_TYPE_FILE fs_boot) = r \<and> fst (tetfs_find adev name_a 0 fs_file) = r"
proof -
  obtain i :: u16 where f: "0 < i" "tetfs_create adev name_a 0 TETFS_TYPE_FILE fs_boot = (int (unat i), fs_file)"
    using fs_file_ok by metis
  have n: "terminated name_a" "length (cstr name_a) \<le> 50" "TETFS_TYPE_FILE \<noteq> TETFS_TYPE_FREE"
    by (simp_all add: name_a_def)
  have "int (unat i) \<noteq> -1" by linarith
  then have "fst (tetfs_find adev name_a 0 fs_file) = int (unat i)"
    using tetfs_create_then_find [OF reliable_adev fs_boot_ok(1) fs_boot_wf n f(2)] by (simp only: if_False)
  moreover have "0 < int (unat i)" using f(1) by (simp only: word_less_nat_alt of_nat_0_less_iff unat_0)
  ultimately show ?thesis using f(2) by (intro exI [of _ "int (unat i)"]) (simp only: fst_conv)
qed

text \<open>
  \<open>tetfs_find\<close> is a lookup by name: it returns the lowest index of a file with this
  name and parent, and -1 exactly when there is none; it changes no sector.
\<close>

theorem tetfs_find_lookup:
  assumes "reliable_dev D sec invar" "invar d" "fs_wf (sec d)" "terminated name" "tetfs_find D name parent d = (r, d')"
  shows "invar d' \<and> sec d' = sec d \<and>
    (if r = -1 then \<forall>i < TETFS_MAX_INODES. i \<noteq> 0 \<longrightarrow> \<not> named (sec d) (cstr name) parent i
     else \<exists>i. r = int (unat i) \<and> 0 < i \<and> i < TETFS_MAX_INODES \<and> named (sec d) (cstr name) parent i \<and>
       (\<forall>j. 0 < j \<and> j < i \<longrightarrow> \<not> named (sec d) (cstr name) parent j))"
  by (rule reliable_dev.tetfs_find_named [OF assms])

theorem tetfs_find_lookup_witness: "fst (tetfs_find adev name_a 0 fs_boot) = -1"
proof -
  obtain r d where run: "tetfs_find adev name_a 0 fs_boot = (r, d)" by force
  have "\<not> named (sim_sec fs_boot) n 0 i" if "i < TETFS_MAX_INODES" for i n
    using fs_boot_ok(2) that by (cases "i = 0") (auto simp: fresh_fs_def named_def root_inode_def)
  moreover have "terminated name_a" by (simp add: name_a_def)
  ultimately show ?thesis
    using tetfs_find_lookup [OF reliable_adev fs_boot_ok(1) fs_boot_wf _ run] run by (auto split: if_splits)
qed

text \<open>
  \<open>tetfs_delete\<close> of a file in use removes its inode, returns exactly its blocks to the
  bitmap and keeps every other file; on the root, a free inode or an index out of range it
  fails and changes nothing.
\<close>

theorem tetfs_delete_frees:
  assumes "reliable_dev D sec invar" "invar d" "fs_wf (sec d)" "tetfs_delete D idx d = (r, d')"
  shows "invar d' \<and> fs_wf (sec d') \<and>
    (if idx \<noteq> 0 \<and> idx < TETFS_MAX_INODES \<and> in_use (sec d) idx
     then r = 0 \<and> \<not> in_use (sec d') idx \<and> others_kept idx (sec d) (sec d') \<and>
       (\<forall>k. blk_used (bitmap_at (sec d')) k \<longleftrightarrow> k \<notin> extent (inode_at (sec d) idx) \<and> blk_used (bitmap_at (sec d)) k)
     else r = -1 \<and> sec d' = sec d)"
  by (rule reliable_dev.tetfs_delete_ok [OF assms])

theorem tetfs_delete_frees_witness:
  "\<exists>i. 0 < i \<and> fst (tetfs_delete adev i fs_file) = 0 \<and> fst (tetfs_delete adev 0 fs_file) = -1"
proof -
  obtain i where f: "sim_ok fs_file" "fs_wf (sim_sec fs_file)" "i < TETFS_MAX_INODES" "0 < i"
      "inode_at (sim_sec fs_file) i = new_inode name_a 0 TETFS_TYPE_FILE" using fs_file_ok by metis
  obtain r d where run: "tetfs_delete adev i fs_file = (r, d)" by force
  obtain q e where root: "tetfs_delete adev 0 fs_file = (q, e)" by force
  show ?thesis
    using tetfs_delete_frees [OF reliable_adev f(1,2) run] tetfs_delete_frees [OF reliable_adev f(1,2) root] run root f(3-5)
    by (intro exI [of _ i]) auto
qed

text \<open>
  \<open>tetfs_format\<close> makes a well-formed, empty file system of any disk: only the root
  directory is in use and every block is free; \<open>tetfs_mount\<close> then accepts the disk.
\<close>

theorem tetfs_format_then_mount:
  assumes "reliable_dev D sec invar" "invar (disk fs)"
  shows "\<exists>d' d''. tetfs_format D fs = (0, fs\<lparr>disk := d', fs_mounted := True\<rparr>) \<and> invar d' \<and> fresh_fs (sec d') \<and>
    tetfs_mount D (fs\<lparr>disk := d', fs_mounted := False\<rparr>) = (0, fs\<lparr>disk := d'', fs_mounted := True\<rparr>)"
proof -
  obtain d' where d': "tetfs_format D fs = (0, fs\<lparr>disk := d', fs_mounted := True\<rparr>)" "invar d'" "fresh_fs (sec d')"
    using reliable_dev.tetfs_format_ok [OF assms] by blast
  have "dec_super (sec d' TETFS_LBA_SUPER) = fresh_super" using d'(3) by (simp add: fresh_fs_def)
  then show ?thesis
    using reliable_dev.tetfs_mount_ok [OF assms(1), of "fs\<lparr>disk := d', fs_mounted := False\<rparr>"] d'
    by (auto simp: fresh_super_def)
qed

theorem tetfs_format_then_mount_witness: "fst (tetfs_format adev fs_blank) = 0"
proof -
  have "sim_ok (disk fs_blank)" using sim_blank_ok by (simp add: fs_blank_def)
  from tetfs_format_then_mount [OF reliable_adev this] show ?thesis by auto
qed

section \<open>Limits the code does not check\<close>

text \<open>The block count is cut to 16 bits, so a length of 32 MB passes as zero blocks.\<close>

lemma block_count_wraps: "blocks_for 0x2000000 = 0"
  by (simp add: blocks_for_def)

text \<open>A name of more than 50 characters is stored cut: looking it up again never finds it.\<close>

lemma long_name_lost:
  assumes "terminated name" "50 < length (cstr name)"
  shows "strcmp (i_name (new_inode name parent type)) name \<noteq> Some 0"
proof
  assume "strcmp (i_name (new_inode name parent type)) name = Some 0"
  then have "cstr (i_name (new_inode name parent type)) = cstr name" using strcmp_zero by blast
  then have "length (take 50 (cstr name)) = length (cstr name)" by (simp only: new_inode_cstr)
  with assms(2) show False by simp
qed

end
