(* ===== verification/Process.thy ===== *)
theory Process
  imports CString Kheap
begin

text \<open>
  Processes and the scheduler, \<open>kernel/process/process.c\<close>. The table has 16 slots; a
  \<open>process_t *\<close> is a slot number, NULL is \<open>None\<close>. The run queue is the circular list
  through the \<open>next\<close> pointers. An operation that would follow a NULL pointer or walk
  forever has no result (\<open>None\<close>). Kernel stacks come from the heap of \<open>Kheap\<close>; the
  words stored in them are a map from addresses.
\<close>

abbreviation "PROC_READY \<equiv> (0 :: u8)"
abbreviation "PROC_RUNNING \<equiv> (1 :: u8)"
abbreviation "PROC_BLOCKED \<equiv> (2 :: u8)"
abbreviation "PROC_ZOMBIE \<equiv> (3 :: u8)"
abbreviation "PROC_UNUSED \<equiv> (0xFF :: u8)"
abbreviation "PROC_DEAD \<equiv> PROC_ZOMBIE"
abbreviation "MAX_PROCS \<equiv> (16 :: nat)"
abbreviation "PROC_STACK \<equiv> (4096 :: u32)"
abbreviation "SCHED_QUANTUM \<equiv> (5 :: u32)"
abbreviation "MAX_FD \<equiv> (16 :: nat)"

record fd_entry =
  ufd_inode :: u16
  ufd_offset :: u32

record process =
  p_pid :: u32
  p_state :: u8
  p_esp :: u32
  p_stack :: u32
  p_name :: bytes
  p_next :: "nat option"
  p_user_page_dir :: u32
  p_user_fd :: "fd_entry list"
  p_user_fd_used :: "u8 list"

record sched =
  process_table :: "process list"
  run_queue :: "nat option"
  current_process :: "nat option"
  next_pid :: u32
  sched_switch_esp :: u32
  sched_switch_cr3 :: u32
  quantum_count :: u32
  kheap :: heap
  words :: "u32 \<Rightarrow> u32"
  kernel_pd :: u32 \<comment> \<open>the value of \<open>vmm_get_kernel_pd\<close>\<close>

definition upd :: "nat \<Rightarrow> (process \<Rightarrow> process) \<Rightarrow> process list \<Rightarrow> process list" where
  "upd i f tab = tab[i := f (tab ! i)]"

definition clear_fds :: "process \<Rightarrow> process" where
  "clear_fds p = p\<lparr>p_user_fd := replicate MAX_FD \<lparr>ufd_inode = 0, ufd_offset = 0\<rparr>, p_user_fd_used := replicate MAX_FD 0\<rparr>"

definition copy_pname :: "bytes \<Rightarrow> process \<Rightarrow> process" where
  "copy_pname name p = p\<lparr>p_name := blit (p_name p) 0 (copy_chars 31 name @ [0])\<rparr>"

definition reset_slot :: "process \<Rightarrow> process" where
  "reset_slot p = clear_fds (p\<lparr>p_stack := 0, p_pid := 0, p_state := PROC_UNUSED, p_esp := 0,
     p_name := (p_name p)[0 := 0], p_next := None, p_user_page_dir := 0\<rparr>)"

definition reset_process_slot :: "nat \<Rightarrow> sched \<Rightarrow> sched" where
  "reset_process_slot i s =
     (let stack = p_stack (process_table s ! i);
          s = (if stack \<noteq> 0 then s\<lparr>kheap := kfree stack (kheap s)\<rparr> else s)
      in s\<lparr>process_table := upd i reset_slot (process_table s)\<rparr>)"

definition process_init :: "sched \<Rightarrow> sched" where
  "process_init s =
     (let tab = map (\<lambda>p. p\<lparr>p_state := PROC_UNUSED, p_stack := 0, p_next := None\<rparr>) (process_table s);
          tab = upd 0 (\<lambda>p. clear_fds ((copy_pname [0x73, 0x68, 0x65, 0x6C, 0x6C, 0]
            (p\<lparr>p_pid := next_pid s, p_state := PROC_RUNNING, p_esp := 0, p_stack := 0, p_next := Some 0\<rparr>))
            \<lparr>p_user_page_dir := 0\<rparr>)) tab
      in s\<lparr>process_table := tab, next_pid := next_pid s + 1, run_queue := Some 0, current_process := Some 0\<rparr>)"

section \<open>Creation\<close>

text \<open>\<open>*(--sp) = v\<close>.\<close>

definition push :: "u32 \<Rightarrow> u32 \<times> (u32 \<Rightarrow> u32) \<Rightarrow> u32 \<times> (u32 \<Rightarrow> u32)" where
  "push v = (\<lambda>(sp, m). (sp - 4, m(sp - 4 := v)))"

definition find_unused :: "process list \<Rightarrow> nat option" where
  "find_unused tab = find (\<lambda>i. p_state (tab ! i) = PROC_UNUSED) [1..<MAX_PROCS]"

text \<open>
  The two creation functions differ in the frame they push and in the fields they clear;
  \<open>process_create\<close> clears neither the page directory nor the descriptors.
\<close>

definition kernel_frame :: "u32 \<Rightarrow> u32 list" where
  "kernel_frame entry = [0x202, 0x08, entry, 0, 32, 0, 0, 0, 0, 0, 0, 0, 0, 0x10]"

definition user_frame :: "u32 \<Rightarrow> u32 \<Rightarrow> u32 list" where
  "user_frame entry user_stack_top =
     [0x23, user_stack_top, 0x202, 0x1B, entry, 0, 32, 0, 0, 0, 0, 0, 0, 0, 0, 0x23]"

text \<open>From the search for a slot to the insertion behind the current process.\<close>

definition create_with :: "u32 list \<Rightarrow> (process \<Rightarrow> process) \<Rightarrow> bytes \<Rightarrow> sched \<Rightarrow> (nat option \<times> sched) option" where
  "create_with frame clear name s =
     (case find_unused (process_table s) of
        None \<Rightarrow> Some (None, s)
      | Some i \<Rightarrow>
          case kmalloc PROC_STACK (kheap s) of
            None \<Rightarrow> None
          | Some (stack, h) \<Rightarrow>
              if stack = 0 then Some (None, s\<lparr>kheap := h\<rparr>)
              else
                let (sp, m) = fold push frame (stack + PROC_STACK, words s);
                    tab = upd i (\<lambda>p. clear (copy_pname name
                      (p\<lparr>p_pid := next_pid s, p_state := PROC_READY, p_stack := stack\<rparr>))\<lparr>p_esp := sp\<rparr>) (process_table s)
                in case current_process s of
                     None \<Rightarrow> None
                   | Some c \<Rightarrow>
                       let tab = upd i (\<lambda>p. p\<lparr>p_next := p_next (tab ! c)\<rparr>) tab;
                           tab = upd c (\<lambda>p. p\<lparr>p_next := Some i\<rparr>) tab
                       in Some (Some i, s\<lparr>process_table := tab, next_pid := next_pid s + 1, kheap := h, words := m\<rparr>))"

definition process_create :: "u32 \<Rightarrow> bytes \<Rightarrow> sched \<Rightarrow> (nat option \<times> sched) option" where
  "process_create entry name s = create_with (kernel_frame entry) id name s"

definition process_create_user :: "u32 \<Rightarrow> u32 \<Rightarrow> bytes \<Rightarrow> sched \<Rightarrow> (nat option \<times> sched) option" where
  "process_create_user entry user_stack_top name s =
     create_with (user_frame entry user_stack_top) (\<lambda>p. clear_fds (p\<lparr>p_user_page_dir := 0\<rparr>)) name s"

section \<open>Exit and kill\<close>

text \<open>\<open>process_exit\<close> up to its waiting loop, which only \<open>schedule\<close> ends.\<close>

definition process_exit :: "sched \<Rightarrow> sched option" where
  "process_exit s =
     (case current_process s of
        None \<Rightarrow> None
      | Some c \<Rightarrow> Some (s\<lparr>process_table := upd c (\<lambda>p. p\<lparr>p_state := PROC_DEAD\<rparr>) (process_table s)\<rparr>))"

text \<open>The search loop of \<open>process_kill\<close>: the pair \<open>(prev, p)\<close> it ends with.\<close>

partial_function (option) kill_search :: "process list \<Rightarrow> nat \<Rightarrow> u32 \<Rightarrow> nat \<Rightarrow> nat \<Rightarrow> (nat \<times> nat) option" where
  "kill_search tab rq pid prev p =
     (if p_pid (tab ! p) = pid then Some (prev, p)
      else case p_next (tab ! p) of
             None \<Rightarrow> None
           | Some q \<Rightarrow> if q \<noteq> rq then kill_search tab rq pid p q else Some (p, q))"

definition process_kill :: "u32 \<Rightarrow> sched \<Rightarrow> (int \<times> sched) option" where
  "process_kill pid s =
     (case (run_queue s, current_process s) of
        (Some rq, Some c) \<Rightarrow>
          if pid = p_pid (process_table s ! c) then Some (-2, s)
          else (case kill_search (process_table s) rq pid rq rq of
                  None \<Rightarrow> None
                | Some (prev, p) \<Rightarrow>
                    if p_pid (process_table s ! p) \<noteq> pid then Some (-1, s)
                    else if p = c then Some (-2, s)
                    else
                      let nxt = p_next (process_table s ! p);
                          s = s\<lparr>process_table := upd prev (\<lambda>q. q\<lparr>p_next := nxt\<rparr>) (process_table s)\<rparr>;
                          s = (if rq = p then s\<lparr>run_queue := p_next (process_table s ! p)\<rparr> else s)
                      in Some (0, reset_process_slot p s))
      | _ \<Rightarrow> Some (-1, s))"

section \<open>The scheduler\<close>

partial_function (option) find_prev :: "process list \<Rightarrow> nat \<Rightarrow> nat \<Rightarrow> nat option" where
  "find_prev tab dead prev =
     (if p_next (tab ! prev) = Some dead then Some prev
      else case p_next (tab ! prev) of None \<Rightarrow> None | Some q \<Rightarrow> find_prev tab dead q)"

partial_function (option) find_candidate :: "process list \<Rightarrow> nat \<Rightarrow> nat \<Rightarrow> nat option" where
  "find_candidate tab stop c =
     (if c \<noteq> stop \<and> p_state (tab ! c) \<noteq> PROC_READY
      then case p_next (tab ! c) of None \<Rightarrow> None | Some q \<Rightarrow> find_candidate tab stop q
      else Some c)"

definition set_state :: "nat \<Rightarrow> u8 \<Rightarrow> sched \<Rightarrow> sched" where
  "set_state i st s = s\<lparr>process_table := upd i (\<lambda>p. p\<lparr>p_state := st\<rparr>) (process_table s)\<rparr>"

definition switch_to :: "nat \<Rightarrow> sched \<Rightarrow> sched" where
  "switch_to i s =
     (let s = set_state i PROC_RUNNING s; p = process_table s ! i
      in s\<lparr>current_process := Some i, sched_switch_esp := p_esp p,
           sched_switch_cr3 := (if p_user_page_dir p \<noteq> 0 then p_user_page_dir p else kernel_pd s)\<rparr>)"

text \<open>The branch for a current process that has exited.\<close>

definition schedule_dead :: "nat \<Rightarrow> sched \<Rightarrow> sched option" where
  "schedule_dead dead s =
     (case p_next (process_table s ! dead) of
        None \<Rightarrow> None
      | Some first \<Rightarrow>
          case find_prev (process_table s) dead dead of
            None \<Rightarrow> None
          | Some prev \<Rightarrow>
              case find_candidate (process_table s) dead first of
                None \<Rightarrow> None
              | Some candidate \<Rightarrow>
                  if candidate = dead then Some (set_state dead PROC_RUNNING s)
                  else
                    let s = s\<lparr>process_table := upd prev (\<lambda>p. p\<lparr>p_next := Some first\<rparr>) (process_table s)\<rparr>;
                        s = (if run_queue s = Some dead then s\<lparr>run_queue := p_next (process_table s ! dead)\<rparr> else s);
                        s = reset_process_slot dead s
                    in Some ((switch_to candidate s)\<lparr>quantum_count := 0\<rparr>))"

definition schedule :: "u32 \<Rightarrow> sched \<Rightarrow> sched option" where
  "schedule regs s =
     (case current_process s of
        None \<Rightarrow> Some s
      | Some c \<Rightarrow>
          if p_state (process_table s ! c) = PROC_DEAD then schedule_dead c s
          else
            let s = s\<lparr>quantum_count := quantum_count s + 1\<rparr> in
            if quantum_count s < SCHED_QUANTUM then Some s
            else
              let s = s\<lparr>quantum_count := 0\<rparr>;
                  s = s\<lparr>process_table := upd c (\<lambda>p. p\<lparr>p_esp := regs\<rparr>) (process_table s)\<rparr>;
                  s = (if p_state (process_table s ! c) = PROC_RUNNING then set_state c PROC_READY s else s)
              in case p_next (process_table s ! c) of
                   None \<Rightarrow> None
                 | Some first \<Rightarrow>
                     case find_candidate (process_table s) c first of
                       None \<Rightarrow> None
                     | Some candidate \<Rightarrow>
                         if candidate = c
                         then Some (if p_state (process_table s ! c) = PROC_READY then set_state c PROC_RUNNING s else s)
                         else Some (switch_to candidate s))"

section \<open>Queries and stubs\<close>

definition process_current :: "sched \<Rightarrow> nat option" where
  "process_current s = current_process s"

partial_function (option) list_walk :: "process list \<Rightarrow> nat \<Rightarrow> int \<Rightarrow> nat \<Rightarrow> nat list \<Rightarrow> nat list option" where
  "list_walk tab rq maxn p out =
     (let out = (if int (length out) < maxn then out @ [p] else out) in
      case p_next (tab ! p) of
        None \<Rightarrow> None
      | Some q \<Rightarrow> if q \<noteq> rq then list_walk tab rq maxn q out else Some out)"

text \<open>The array \<open>out\<close> is part of the result.\<close>

definition process_list :: "sched \<Rightarrow> int \<Rightarrow> (int \<times> nat list) option" where
  "process_list s maxn =
     (case run_queue s of
        None \<Rightarrow> Some (0, [])
      | Some rq \<Rightarrow> map_option (\<lambda>out. (int (length out), out)) (list_walk (process_table s) rq maxn rq []))"

definition process_fork_stub :: "sched \<Rightarrow> (int \<times> sched) option" where
  "process_fork_stub s =
     (case process_current s of
        None \<Rightarrow> Some (-1, s)
      | Some cur \<Rightarrow>
          case process_create 0 [0x66, 0x6F, 0x72, 0x6B, 0x2D, 0x63, 0x68, 0x69, 0x6C, 0x64, 0] s of
            None \<Rightarrow> None
          | Some (None, s) \<Rightarrow> Some (-1, s)
          | Some (Some child, s) \<Rightarrow>
              let s = set_state child PROC_ZOMBIE s in Some (sint (p_pid (process_table s ! child)), s))"

definition process_exec_stub :: "bytes \<Rightarrow> int" where
  "process_exec_stub path = 0"

section \<open>The ring\<close>

text \<open>\<open>path tab x ys z\<close>: following \<open>next\<close> from \<open>x\<close> passes through \<open>ys\<close> and then reaches \<open>z\<close>.\<close>

fun path :: "process list \<Rightarrow> nat \<Rightarrow> nat list \<Rightarrow> nat \<Rightarrow> bool" where
  "path tab x [] z \<longleftrightarrow> p_next (tab ! x) = Some z"
| "path tab x (y # ys) z \<longleftrightarrow> p_next (tab ! x) = Some y \<and> path tab y ys z"

definition ring :: "process list \<Rightarrow> nat \<Rightarrow> nat list \<Rightarrow> bool" where
  "ring tab x xs \<longleftrightarrow> distinct (x # xs) \<and> set (x # xs) \<subseteq> {..<length tab} \<and> path tab x xs x"

lemma path_append: "path tab x (ys @ y # zs) z \<longleftrightarrow> path tab x ys y \<and> path tab y zs z"
  by (induction ys arbitrary: x) auto

lemma path_next: "path tab x ys z \<Longrightarrow> p_next (tab ! x) = Some (hd (ys @ [z]))"
  by (cases ys) auto

lemma path_cong:
  "(\<And>i. i = x \<or> i \<in> set ys \<Longrightarrow> p_next (tab' ! i) = p_next (tab ! i)) \<Longrightarrow> path tab' x ys z = path tab x ys z"
  by (induction ys arbitrary: x) auto

lemma ring_rotate: "ring tab x (ys @ y # zs) \<longleftrightarrow> ring tab y (zs @ x # ys)"
  by (auto simp: ring_def path_append)

lemma ring_unique: "path tab x ys x \<Longrightarrow> path tab x zs x \<Longrightarrow> x \<notin> set ys \<Longrightarrow> x \<notin> set zs \<Longrightarrow> ys = zs"
proof -
  have "path tab a ys x \<Longrightarrow> path tab a zs x \<Longrightarrow> x \<notin> set ys \<Longrightarrow> x \<notin> set zs \<Longrightarrow> ys = zs" for a
  proof (induction ys arbitrary: a zs)
    case Nil
    then show ?case by (cases zs) auto
  next
    case (Cons y ys)
    then show ?case by (cases zs) auto
  qed
  then show "path tab x ys x \<Longrightarrow> path tab x zs x \<Longrightarrow> x \<notin> set ys \<Longrightarrow> x \<notin> set zs \<Longrightarrow> ys = zs" by blast
qed

text \<open>Every member of the ring can be taken as its start.\<close>

lemma ring_from:
  assumes "ring tab x xs" "y \<in> set (x # xs)"
  obtains ys where "ring tab y ys" "set (y # ys) = set (x # xs)" "length ys = length xs"
proof (cases "y = x")
  case True
  with assms(1) that [of xs] show ?thesis by simp
next
  case False
  then obtain as bs where "xs = as @ y # bs" using assms(2) by (auto dest: split_list)
  with assms(1) that [of "bs @ x # as"] show ?thesis by (auto simp: ring_rotate)
qed

section \<open>Invariant\<close>

text \<open>
  \<open>sched_ok s c xs\<close>: process \<open>c\<close> is current and the others in the order they follow it
  are \<open>xs\<close>. The run queue holds exactly the slots in use, process identifiers are distinct,
  only the current process is running or has just exited, and the stacks are live blocks of
  the heap that no two processes share.
\<close>

definition stacks_ok :: "sched \<Rightarrow> nat set \<Rightarrow> bool" where
  "stacks_ok s is \<longleftrightarrow> heap_inv (kheap s) \<and>
     (\<forall>i \<in> is. p_stack (process_table s ! i) \<noteq> 0 \<longrightarrow> p_stack (process_table s ! i) \<in> heap_live (kheap s)) \<and>
     (\<forall>i \<in> is. \<forall>j \<in> is. i \<noteq> j \<longrightarrow> p_stack (process_table s ! i) \<noteq> 0 \<longrightarrow>
        p_stack (process_table s ! i) \<noteq> p_stack (process_table s ! j))"

lemma stacks_okD:
  assumes "stacks_ok s is"
  shows "heap_inv (kheap s)"
    "i \<in> is \<Longrightarrow> p_stack (process_table s ! i) \<noteq> 0 \<Longrightarrow> p_stack (process_table s ! i) \<in> heap_live (kheap s)"
    "i \<in> is \<Longrightarrow> j \<in> is \<Longrightarrow> i \<noteq> j \<Longrightarrow> p_stack (process_table s ! i) \<noteq> 0 \<Longrightarrow>
       p_stack (process_table s ! i) \<noteq> p_stack (process_table s ! j)"
  using assms unfolding stacks_ok_def by blast+

definition pids_ok :: "sched \<Rightarrow> nat set \<Rightarrow> bool" where
  "pids_ok s is \<longleftrightarrow> inj_on (\<lambda>i. p_pid (process_table s ! i)) is \<and>
     (\<forall>i \<in> is. p_pid (process_table s ! i) < next_pid s)"

definition sched_ok :: "sched \<Rightarrow> nat \<Rightarrow> nat list \<Rightarrow> bool" where
  "sched_ok s c xs \<longleftrightarrow> current_process s = Some c \<and> ring (process_table s) c xs \<and>
     length (process_table s) = MAX_PROCS \<and>
     (\<forall>i < MAX_PROCS. i \<in> set (c # xs) \<longleftrightarrow> p_state (process_table s ! i) \<noteq> PROC_UNUSED) \<and>
     (\<exists>q \<in> set (c # xs). run_queue s = Some q) \<and>
     p_state (process_table s ! c) \<in> {PROC_RUNNING, PROC_DEAD} \<and>
     (\<forall>i \<in> set xs. p_state (process_table s ! i) \<noteq> PROC_RUNNING) \<and>
     pids_ok s (set (c # xs)) \<and> stacks_ok s (set (c # xs))"

lemma upd_nth: "i < length tab \<Longrightarrow> upd i f tab ! j = (if j = i then f (tab ! i) else tab ! j)"
  by (simp add: upd_def nth_list_update)

lemma length_upd [simp]: "length (upd i f tab) = length tab"
  by (simp add: upd_def)

lemma sched_okD:
  assumes "sched_ok s c xs"
  shows "current_process s = Some c" "ring (process_table s) c xs" "length (process_table s) = MAX_PROCS"
    "distinct (c # xs)" "path (process_table s) c xs c" "\<And>i. i \<in> set (c # xs) \<Longrightarrow> i < MAX_PROCS"
    "\<And>i. i < MAX_PROCS \<Longrightarrow> i \<in> set (c # xs) \<longleftrightarrow> p_state (process_table s ! i) \<noteq> PROC_UNUSED"
    "\<exists>q \<in> set (c # xs). run_queue s = Some q"
    "p_state (process_table s ! c) \<in> {PROC_RUNNING, PROC_DEAD}"
    "\<And>i. i \<in> set xs \<Longrightarrow> p_state (process_table s ! i) \<noteq> PROC_RUNNING"
    "pids_ok s (set (c # xs))" "stacks_ok s (set (c # xs))"
  using assms unfolding sched_ok_def ring_def by (auto simp: subset_iff)

section \<open>The walks on the ring\<close>

text \<open>The candidate is the first ready process behind the start, or the start itself.\<close>

definition first_ready :: "process list \<Rightarrow> nat list \<Rightarrow> nat option" where
  "first_ready tab xs = find (\<lambda>i. p_state (tab ! i) = PROC_READY) xs"

lemma find_candidate_path:
  "path tab x xs c \<Longrightarrow> c \<notin> set xs \<Longrightarrow> p_next (tab ! x) = Some first \<Longrightarrow>
     find_candidate tab c first = Some (case first_ready tab xs of None \<Rightarrow> c | Some i \<Rightarrow> i)"
proof (induction xs arbitrary: x first)
  case Nil
  then show ?case by (subst find_candidate.simps) (simp add: first_ready_def)
next
  case (Cons y ys)
  then have y: "first = y" "y \<noteq> c" "path tab y ys c" by auto
  show ?case
  proof (cases "p_state (tab ! y) = PROC_READY")
    case True
    then show ?thesis using y by (subst find_candidate.simps) (simp add: first_ready_def)
  next
    case False
    obtain n where n: "p_next (tab ! y) = Some n" using path_next [OF y(3)] by blast
    have "find_candidate tab c first = find_candidate tab c n"
      using y False n by (subst find_candidate.simps) simp
    then show ?thesis using Cons.IH [OF y(3) _ n] Cons.prems(2) False by (simp add: first_ready_def)
  qed
qed

lemma find_prev_path:
  "path tab x xs c \<Longrightarrow> c \<notin> set xs \<Longrightarrow> find_prev tab c x = Some (last (x # xs))"
proof (induction xs arbitrary: x)
  case Nil
  then show ?case by (subst find_prev.simps) simp
next
  case (Cons y ys)
  then show ?case by (subst find_prev.simps) auto
qed

lemma list_walk_path:
  "path tab x xs rq \<Longrightarrow> rq \<notin> set xs \<Longrightarrow>
     list_walk tab rq maxn x out = Some (out @ take (nat (maxn - int (length out))) (x # xs))"
proof (induction xs arbitrary: x out)
  case Nil
  then show ?case by (subst list_walk.simps) (auto simp: take_Cons' Let_def)
next
  case (Cons y ys)
  then have y: "p_next (tab ! x) = Some y" "y \<noteq> rq" "path tab y ys rq" "rq \<notin> set ys" by auto
  show ?case
  proof (cases "int (length out) < maxn")
    case True
    then have "nat (maxn - int (length out)) = Suc (nat (maxn - int (length (out @ [x]))))" by simp
    then show ?thesis
      using True y Cons.IH [OF y(3,4), of "out @ [x]"] by (subst list_walk.simps) simp
  next
    case False
    then show ?thesis
      using y Cons.IH [OF y(3,4), of out] by (subst list_walk.simps) simp
  qed
qed

lemma kill_search_found:
  "path tab x (as @ bs) rq \<Longrightarrow> rq \<notin> set (as @ bs) \<Longrightarrow> \<forall>i \<in> set (butlast (x # as)). p_pid (tab ! i) \<noteq> pid \<Longrightarrow>
     p_pid (tab ! last (x # as)) = pid \<Longrightarrow>
     kill_search tab rq pid prev x = Some (last (prev # butlast (x # as)), last (x # as))"
proof (induction as arbitrary: prev x)
  case Nil
  then show ?case by (subst kill_search.simps) simp
next
  case (Cons y ys)
  then have y: "p_next (tab ! x) = Some y" "y \<noteq> rq" "path tab y (ys @ bs) rq" "rq \<notin> set (ys @ bs)" "p_pid (tab ! x) \<noteq> pid"
    by auto
  have "kill_search tab rq pid prev x = kill_search tab rq pid x y"
    using y by (subst kill_search.simps) simp
  also have "\<dots> = Some (last (x # butlast (y # ys)), last (y # ys))"
    using Cons.prems by (intro Cons.IH [OF y(3,4)]) auto
  finally show ?case by simp
qed

lemma kill_search_none:
  "path tab x xs rq \<Longrightarrow> rq \<notin> set xs \<Longrightarrow> \<forall>i \<in> set (x # xs). p_pid (tab ! i) \<noteq> pid \<Longrightarrow>
     kill_search tab rq pid prev x = Some (last (x # xs), rq)"
proof (induction xs arbitrary: prev x)
  case Nil
  then show ?case by (subst kill_search.simps) simp
next
  case (Cons y ys)
  then show ?case by (subst kill_search.simps) simp
qed

section \<open>The new stack\<close>

lemma fold_push:
  assumes "fold push vs (sp, m) = (sp', m')" "4 * length vs \<le> unat sp"
  shows "sp' = sp - of_nat (4 * length vs) \<and>
    (\<forall>k < length vs. m' (sp' + of_nat (4 * k)) = rev vs ! k) \<and>
    (\<forall>a. unat a < unat sp' \<or> unat sp \<le> unat a \<longrightarrow> m' a = m a)"
  using assms
proof (induction vs arbitrary: sp' m' rule: rev_induct)
  case (snoc v vs)
  obtain q n where q: "fold push vs (sp, m) = (q, n)" by force
  then have IH: "q = sp - of_nat (4 * length vs)" "\<forall>k < length vs. n (q + of_nat (4 * k)) = rev vs ! k"
      "\<forall>a. unat a < unat q \<or> unat sp \<le> unat a \<longrightarrow> n a = m a"
    using snoc.IH [OF q] snoc.prems(2) by auto
  have "push v (q, n) = (sp', m')" using snoc.prems(1) q by simp
  then have s: "sp' = q - 4" "m' = n(q - 4 := v)" by (auto simp: push_def)
  have small: "4 * length vs < 2 ^ LENGTH(32)" using snoc.prems(2) u32_lt [of sp] by simp
  have o: "unat (of_nat (4 * length vs) :: u32) = 4 * length vs" using small by (rule unat_of_nat_small)
  then have "of_nat (4 * length vs) \<le> sp" using snoc.prems(2) unfolding word_le_nat_alt by simp
  from unat_minus_le [OF this] o have uq: "unat q = unat sp - 4 * length vs" by (simp only: IH(1))
  have us: "unat sp' = unat sp - 4 * length (vs @ [v])"
    unfolding s(1) using uq snoc.prems(2) by (subst unat_minus_le) (simp_all add: word_le_nat_alt)
  have at: "m' (sp' + of_nat (4 * k)) = rev (vs @ [v]) ! k" if k: "k < length (vs @ [v])" for k
  proof (cases k)
    case 0
    then show ?thesis by (simp add: s)
  next
    case (Suc j)
    have e: "sp' + of_nat (4 * k) = q + of_nat (4 * j)" by (simp add: Suc s(1))
    have "4 * k < 2 ^ LENGTH(32)" using k small snoc.prems(2) u32_lt [of sp] by simp
    then have "unat (of_nat (4 * k) :: u32) = 4 * k" by (rule unat_of_nat_small)
    then have "unat (sp' + of_nat (4 * k)) = unat sp' + 4 * k"
      using us k snoc.prems(2) u32_lt [of sp] by (subst unat_plus_small) simp_all
    then have "sp' + of_nat (4 * k) \<noteq> sp'" using Suc by (metis add_cancel_left_right mult_eq_0_iff zero_neq_numeral nat.distinct(1))
    then show ?thesis using IH(2) k Suc by (simp add: s e)
  qed
  have "m' a = m a" if "unat a < unat sp' \<or> unat sp \<le> unat a" for a
  proof -
    have "a \<noteq> sp'" using that us snoc.prems(2) by auto
    moreover have "unat a < unat q \<or> unat sp \<le> unat a" using that us uq by auto
    ultimately have "a \<noteq> sp'" "n a = m a" using IH(3) by blast+
    then show ?thesis by (simp add: s)
  qed
  moreover have "sp' = sp - of_nat (4 * length (vs @ [v]))" by (simp add: s IH(1) algebra_simps)
  ultimately show ?case using at by blast
qed auto

section \<open>Creation keeps the invariant\<close>

lemma find_unused_cases:
  assumes "sched_ok s c xs"
  obtains "find_unused (process_table s) = None" "\<forall>i. 1 \<le> i \<and> i < MAX_PROCS \<longrightarrow> i \<in> set (c # xs)"
  | i where "find_unused (process_table s) = Some i" "1 \<le> i" "i < MAX_PROCS" "i \<notin> set (c # xs)"
      "p_state (process_table s ! i) = PROC_UNUSED"
proof (cases "find_unused (process_table s)")
  case None
  then have "\<forall>i \<in> set [1..<MAX_PROCS]. p_state (process_table s ! i) \<noteq> PROC_UNUSED"
    unfolding find_unused_def by (simp only: find_None_iff) blast
  then have "\<forall>i. 1 \<le> i \<and> i < MAX_PROCS \<longrightarrow> i \<in> set (c # xs)"
    using sched_okD(7) [OF assms] by (simp only: set_upt) auto
  with None that(1) show ?thesis by simp
next
  case (Some i)
  then have i: "p_state (process_table s ! i) = PROC_UNUSED" "i \<in> set [1..<MAX_PROCS]"
    unfolding find_unused_def by (auto simp only: find_Some_iff) (metis nth_mem)+
  then have "1 \<le> i" "i < MAX_PROCS" by (simp_all only: set_upt) simp_all
  with i(1) Some sched_okD(7) [OF assms] that(2) show ?thesis by blast
qed

text \<open>What creation does to the table: a new slot \<open>i\<close>, linked in behind \<open>c\<close>.\<close>

definition insert_proc :: "nat \<Rightarrow> nat \<Rightarrow> (process \<Rightarrow> process) \<Rightarrow> process list \<Rightarrow> process list" where
  "insert_proc c i f tab =
     upd c (\<lambda>p. p\<lparr>p_next := Some i\<rparr>) (upd i (\<lambda>p. p\<lparr>p_next := p_next (tab ! c)\<rparr>) (upd i f tab))"

lemma insert_proc_nth:
  assumes "c < length tab" "i < length tab" "i \<noteq> c"
  shows "insert_proc c i f tab ! j =
    (if j = c then (tab ! c)\<lparr>p_next := Some i\<rparr>
     else if j = i then (f (tab ! i))\<lparr>p_next := p_next (tab ! c)\<rparr> else tab ! j)"
  using assms by (simp add: insert_proc_def upd_nth)

lemma ring_insert:
  assumes "ring tab c xs" "i < length tab" "i \<notin> set (c # xs)"
  shows "ring (insert_proc c i f tab) c (i # xs)"
proof -
  have c: "c < length tab" "i \<noteq> c" using assms by (auto simp: ring_def)
  note nth = insert_proc_nth [OF c(1) assms(2) c(2)]
  have "path (insert_proc c i f tab) i xs c"
  proof (cases xs)
    case Nil
    then show ?thesis using assms(1) nth c(2) by (simp add: ring_def)
  next
    case (Cons y ys)
    then have "path tab y ys c" "p_next (tab ! c) = Some y" "c \<notin> set xs" using assms(1) by (auto simp: ring_def)
    moreover have "path (insert_proc c i f tab) y ys c = path tab y ys c"
      by (rule path_cong) (use nth assms(3) Cons \<open>c \<notin> set xs\<close> in auto)
    ultimately show ?thesis using nth c(2) Cons by simp
  qed
  then show ?thesis
    using assms nth c by (auto simp: ring_def insert_proc_def)
qed

lemma create_with_ok:
  assumes ok: "sched_ok s c xs" and pid: "next_pid s + 1 \<noteq> 0"
    and clear: "\<And>p. p_pid (clear p) = p_pid p \<and> p_state (clear p) = p_state p \<and> p_stack (clear p) = p_stack p \<and>
      p_name (clear p) = p_name p"
    and frame: "length frame \<le> 16"
  shows "\<exists>r s'. create_with frame clear name s = Some (r, s') \<and>
    (case r of
       None \<Rightarrow> s' = s \<and> ((\<forall>i. 1 \<le> i \<and> i < MAX_PROCS \<longrightarrow> i \<in> set (c # xs)) \<or> heap_alloc PROC_STACK (kheap s) = None)
     | Some i \<Rightarrow> i \<notin> set (c # xs) \<and> sched_ok s' c (i # xs) \<and>
         p_pid (process_table s' ! i) = next_pid s \<and> p_state (process_table s' ! i) = PROC_READY \<and>
         (\<forall>k < length frame. words s' (p_esp (process_table s' ! i) + of_nat (4 * k)) = rev frame ! k) \<and>
         p_esp (process_table s' ! i) = p_stack (process_table s' ! i) + PROC_STACK - of_nat (4 * length frame) \<and>
         (\<forall>j. j \<noteq> i \<longrightarrow> j \<noteq> c \<longrightarrow> process_table s' ! j = process_table s ! j))"
  using ok
proof (cases rule: find_unused_cases)
  case 1
  then show ?thesis by (simp add: create_with_def)
next
  case (2 i)
  have inv: "heap_inv (kheap s)" using sched_okD(12) [OF ok] by (simp add: stacks_ok_def)
  obtain stack h where km: "kmalloc PROC_STACK (kheap s) = Some (stack, h)" using kmalloc_returns [OF inv] by blast
  show ?thesis
  proof (cases "stack = 0")
    case True
    then have "h = kheap s" "heap_alloc PROC_STACK (kheap s) = None"
      using inv km kmalloc_none_live [of "kheap s" _ PROC_STACK h] by (auto simp: heap_inv_def heap_alloc_def)
    then show ?thesis using True 2(1) km by (simp add: create_with_def)
  next
    case False
    have al: "heap_alloc PROC_STACK (kheap s) = Some (stack, h)" using km False by (simp add: heap_alloc_def)
    note live = heap_alloc_live [OF inv al]
    obtain sp m where push: "fold push frame (stack + PROC_STACK, words s) = (sp, m)" by force
    let ?f = "\<lambda>p. (clear (copy_pname name (p\<lparr>p_pid := next_pid s, p_state := PROC_READY, p_stack := stack\<rparr>)))\<lparr>p_esp := sp\<rparr>"
    define tab where "tab = insert_proc c i ?f (process_table s)"
    define s' where "s' = s\<lparr>process_table := tab, next_pid := next_pid s + 1, kheap := h, words := m\<rparr>"
    have c: "c < length (process_table s)" "i < length (process_table s)" "i \<noteq> c"
      using sched_okD(3,6) [OF ok] 2(3,4) by auto
    have nxt: "p_next (upd i ?f (process_table s) ! c) = p_next (process_table s ! c)"
      using c by (simp add: upd_nth)
    have run: "create_with frame clear name s = Some (Some i, s')"
      using 2(1) km False push sched_okD(1) [OF ok]
      by (simp add: create_with_def s'_def tab_def insert_proc_def nxt Let_def)
    note nth = insert_proc_nth [OF c, of ?f, folded tab_def]
    have fi: "p_pid (tab ! i) = next_pid s" "p_state (tab ! i) = PROC_READY" "p_stack (tab ! i) = stack" "p_esp (tab ! i) = sp"
      using nth [of i] c(3) clear by (simp_all add: copy_pname_def)
    have fo: "p_pid (tab ! j) = p_pid (process_table s ! j)" "p_state (tab ! j) = p_state (process_table s ! j)"
      "p_stack (tab ! j) = p_stack (process_table s ! j)" if "j \<noteq> i" for j
      using nth [of j] that by auto
    have new: "i \<notin> set (c # xs)" by fact
    have len: "length tab = MAX_PROCS" using sched_okD(3) [OF ok] by (simp add: tab_def insert_proc_def)
    have "sched_ok s' c (i # xs)"
      unfolding sched_ok_def
    proof (intro conjI allI impI ballI)
      show "current_process s' = Some c" using sched_okD(1) [OF ok] by (simp add: s'_def)
      show "ring (process_table s') c (i # xs)"
        using ring_insert [OF sched_okD(2) [OF ok] c(2) new] by (simp add: s'_def tab_def)
      show "length (process_table s') = MAX_PROCS" using len by (simp add: s'_def)
      show "j \<in> set (c # i # xs) \<longleftrightarrow> p_state (process_table s' ! j) \<noteq> PROC_UNUSED" if "j < MAX_PROCS" for j
        using sched_okD(7) [OF ok that] fi(2) fo(2) [of j] by (cases "j = i") (auto simp: s'_def)
      show "\<exists>q \<in> set (c # i # xs). run_queue s' = Some q" using sched_okD(8) [OF ok] by (auto simp: s'_def)
      show "p_state (process_table s' ! c) \<in> {PROC_RUNNING, PROC_DEAD}"
        using sched_okD(9) [OF ok] fo(2) [of c] c(3) by (simp add: s'_def)
      show "p_state (process_table s' ! j) \<noteq> PROC_RUNNING" if "j \<in> set (i # xs)" for j
        using that sched_okD(10) [OF ok] fi(2) fo(2) [of j] by (cases "j = i") (auto simp: s'_def)
      have pids: "pids_ok s (set (c # xs))" using sched_okD(11) [OF ok] .
      have grow: "x < next_pid s + 1 \<longleftrightarrow> x < next_pid s \<or> x = next_pid s" for x
        using pid by (rule less_plus_one)
      have old: "p_pid (tab ! j) = p_pid (process_table s ! j)" "p_stack (tab ! j) = p_stack (process_table s ! j)"
        if "j \<in> set (c # xs)" for j using fo(1,3) [of j] that new by auto
      have set': "set (c # i # xs) = insert i (set (c # xs))" by auto
      have "inj_on (\<lambda>j. p_pid (tab ! j)) (set (c # xs))"
        using pids old(1) unfolding pids_ok_def inj_on_def by metis
      moreover have "next_pid s \<notin> (\<lambda>j. p_pid (tab ! j)) ` set (c # xs)"
        using pids old(1) unfolding pids_ok_def by (metis (mono_tags, lifting) imageE less_irrefl)
      ultimately have "inj_on (\<lambda>j. p_pid (tab ! j)) (insert i (set (c # xs)))"
        using fi(1) new by (simp only: inj_on_insert Diff_insert_absorb) simp
      moreover have "\<forall>j \<in> insert i (set (c # xs)). p_pid (tab ! j) < next_pid s + 1"
        using pids old(1) fi(1) unfolding pids_ok_def grow by (metis insertE)
      ultimately show "pids_ok s' (set (c # i # xs))"
        unfolding set' by (simp add: pids_ok_def s'_def)
      have st: "stacks_ok s (set (c # xs))" using sched_okD(12) [OF ok] .
      have diff: "p_stack (process_table s ! j) \<noteq> stack" if "j \<in> set (c # xs)" for j
        using st that live(2) False unfolding stacks_ok_def by metis
      show "stacks_ok s' (set (c # i # xs))"
        unfolding set' stacks_ok_def
      proof (intro conjI ballI impI)
        show "heap_inv (kheap s')" using live(1) by (simp add: s'_def)
        show "p_stack (process_table s' ! j) \<in> heap_live (kheap s')"
          if "j \<in> insert i (set (c # xs))" "p_stack (process_table s' ! j) \<noteq> 0" for j
          using that st old(2) [of j] fi(3) live(3) unfolding stacks_ok_def by (cases "j = i") (auto simp: s'_def)
        show "p_stack (process_table s' ! j) \<noteq> p_stack (process_table s' ! k)"
          if "j \<in> insert i (set (c # xs))" "k \<in> insert i (set (c # xs))" "j \<noteq> k" "p_stack (process_table s' ! j) \<noteq> 0" for j k
        proof -
          note jk = that(1-3)
          consider "j = i" "k \<in> set (c # xs)" | "k = i" "j \<in> set (c # xs)" | "j \<in> set (c # xs)" "k \<in> set (c # xs)"
            using jk by blast
          then show ?thesis
          proof cases
            case 1
            then show ?thesis using diff [of k] old(2) [of k] fi(3) by (simp add: s'_def)
          next
            case 2
            then show ?thesis using diff [of j] old(2) [of j] fi(3) by (simp add: s'_def)
          next
            case 3
            have "p_stack (process_table s ! j) \<noteq> 0" using that(4) old(2) [OF 3(1)] by (simp add: s'_def)
            then have "p_stack (process_table s ! j) \<noteq> p_stack (process_table s ! k)"
              by (rule stacks_okD(3) [OF st 3 that(3)])
            then show ?thesis using old(2) [OF 3(1)] old(2) [OF 3(2)] by (simp add: s'_def)
          qed
        qed
      qed
    qed
    moreover have "stack \<in> heap_live h" using live(3) by simp
    then have "unat stack + 4096 \<le> heap_hi"
      using heap_live_bounds(2) [OF live(1)] live(4) by fastforce
    then have "unat (stack + PROC_STACK) = unat stack + 4096" by (subst unat_plus_small) simp_all
    then have "4 * length frame \<le> unat (stack + PROC_STACK)" using frame by simp
    note fp = fold_push [OF push this]
    have "process_table s' ! j = process_table s ! j" if "j \<noteq> i" "j \<noteq> c" for j
      using nth [of j] that by (simp add: s'_def)
    moreover have "\<forall>k < length frame. words s' (p_esp (process_table s' ! i) + of_nat (4 * k)) = rev frame ! k"
      using conjunct1 [OF conjunct2 [OF fp]] fi(4) by (simp add: s'_def)
    moreover have "p_esp (process_table s' ! i) = p_stack (process_table s' ! i) + PROC_STACK - of_nat (4 * length frame)"
      using conjunct1 [OF fp] fi(3,4) by (simp add: s'_def)
    moreover have "p_pid (process_table s' ! i) = next_pid s" "p_state (process_table s' ! i) = PROC_READY"
      using fi(1,2) by (simp_all add: s'_def)
    ultimately show ?thesis using run new by (intro exI [of _ "Some i"] exI [of _ s']) simp
  qed
qed

section \<open>Switching and removing keep the invariant\<close>

lemma sched_ok_change:
  assumes ok: "sched_ok s c xs" and len: "length (process_table s') = length (process_table s)"
    and same: "\<And>i. p_next (process_table s' ! i) = p_next (process_table s ! i) \<and>
      p_pid (process_table s' ! i) = p_pid (process_table s ! i) \<and> p_stack (process_table s' ! i) = p_stack (process_table s ! i)"
    and fields: "kheap s' = kheap s" "next_pid s' = next_pid s" "run_queue s' = run_queue s" "current_process s' = Some c'"
    and ring: "ring (process_table s) c' xs'" "set (c' # xs') = set (c # xs)"
    and used: "\<And>i. i < MAX_PROCS \<Longrightarrow> p_state (process_table s' ! i) = PROC_UNUSED \<longleftrightarrow> p_state (process_table s ! i) = PROC_UNUSED"
    and states: "p_state (process_table s' ! c') \<in> {PROC_RUNNING, PROC_DEAD}"
      "\<And>i. i \<in> set xs' \<Longrightarrow> p_state (process_table s' ! i) \<noteq> PROC_RUNNING"
  shows "sched_ok s' c' xs'"
proof -
  have "path (process_table s') c' xs' c' = path (process_table s) c' xs' c'"
    by (rule path_cong) (simp add: same)
  then have "ring (process_table s') c' xs'" using ring(1) len by (simp add: ring_def)
  moreover have "pids_ok s' (set (c' # xs'))" "stacks_ok s' (set (c' # xs'))"
    using sched_okD(11,12) [OF ok] same fields unfolding ring(2) by (simp_all add: pids_ok_def stacks_ok_def)
  moreover have "i \<in> set (c' # xs') \<longleftrightarrow> p_state (process_table s' ! i) \<noteq> PROC_UNUSED" if "i < MAX_PROCS" for i
    using sched_okD(7) [OF ok that] used [OF that] ring(2) by simp
  ultimately show ?thesis
    using sched_okD(3,8) [OF ok] fields states len ring(2) unfolding sched_ok_def by auto
qed

lemma sched_ok_remove:
  assumes ok: "sched_ok s c xs" and p: "p \<in> set (c # xs)" and len: "length (process_table s') = MAX_PROCS"
    and fields: "next_pid s' = next_pid s" "current_process s' = Some c'" "run_queue s' = Some q" "q \<in> set (c' # xs')"
      "kheap s' = (if p_stack (process_table s ! p) \<noteq> 0 then kfree (p_stack (process_table s ! p)) (kheap s) else kheap s)"
    and ring: "ring (process_table s') c' xs'" "set (c' # xs') = set (c # xs) - {p}"
    and keep: "\<And>i. i \<in> set (c' # xs') \<Longrightarrow> p_pid (process_table s' ! i) = p_pid (process_table s ! i) \<and>
      p_stack (process_table s' ! i) = p_stack (process_table s ! i) \<and> p_state (process_table s' ! i) \<noteq> PROC_UNUSED"
    and gone: "\<And>i. i < MAX_PROCS \<Longrightarrow> i \<notin> set (c' # xs') \<Longrightarrow> p_state (process_table s' ! i) = PROC_UNUSED"
    and states: "p_state (process_table s' ! c') \<in> {PROC_RUNNING, PROC_DEAD}"
      "\<And>i. i \<in> set xs' \<Longrightarrow> p_state (process_table s' ! i) \<noteq> PROC_RUNNING"
  shows "sched_ok s' c' xs'"
proof -
  let ?A = "set (c' # xs')"
  have sub: "?A \<subseteq> set (c # xs)" using ring(2) by blast
  note st = sched_okD(12) [OF ok]
  have "inj_on (\<lambda>i. p_pid (process_table s ! i)) ?A"
    using sched_okD(11) [OF ok] sub unfolding pids_ok_def by (meson inj_on_subset)
  then have "inj_on (\<lambda>i. p_pid (process_table s' ! i)) ?A" using keep by (simp add: inj_on_def)
  moreover have "p_pid (process_table s' ! i) < next_pid s'" if "i \<in> ?A" for i
    using sched_okD(11) [OF ok] sub that keep [OF that] fields(1) unfolding pids_ok_def by auto
  ultimately have pids: "pids_ok s' ?A" by (simp add: pids_ok_def)
  have heap: "heap_inv (kheap s') \<and> heap_live (kheap s') = heap_live (kheap s) - (if p_stack (process_table s ! p) \<noteq> 0 then {p_stack (process_table s ! p)} else {})"
    using stacks_okD(1) [OF st] kfree_live(1,2) [OF stacks_okD(1) [OF st] stacks_okD(2) [OF st p]] fields(5) by simp
  have stacks: "stacks_ok s' ?A"
    unfolding stacks_ok_def
  proof (intro conjI ballI impI)
    show "heap_inv (kheap s')" using heap by blast
    show "p_stack (process_table s' ! i) \<in> heap_live (kheap s')" if "i \<in> ?A" "p_stack (process_table s' ! i) \<noteq> 0" for i
    proof -
      have i: "i \<in> set (c # xs)" "i \<noteq> p" "p_stack (process_table s ! i) \<noteq> 0"
        using that ring(2) keep [OF that(1)] by auto
      have "p_stack (process_table s ! i) \<noteq> p_stack (process_table s ! p)"
        by (rule stacks_okD(3) [OF st i(1) p i(2,3)])
      then show ?thesis using stacks_okD(2) [OF st i(1,3)] heap keep [OF that(1)] by auto
    qed
    show "p_stack (process_table s' ! i) \<noteq> p_stack (process_table s' ! j)"
      if "i \<in> ?A" "j \<in> ?A" "i \<noteq> j" "p_stack (process_table s' ! i) \<noteq> 0" for i j
      using stacks_okD(3) [OF st, of i j] that keep [OF that(1)] keep [OF that(2)] sub by auto
  qed
  show ?thesis
    unfolding sched_ok_def
  proof (intro conjI allI impI ballI)
    show "i \<in> set (c' # xs') \<longleftrightarrow> p_state (process_table s' ! i) \<noteq> PROC_UNUSED" if "i < MAX_PROCS" for i
      using keep gone [OF that] by blast
  qed (use fields len ring(1) states pids stacks in auto)
qed

text \<open>Unlinking \<open>p\<close>: the process before it gets its \<open>next\<close>.\<close>

lemma path_last:
  "path tab x ys z \<Longrightarrow> distinct (x # ys) \<Longrightarrow> p_next (tab' ! last (x # ys)) = Some w \<Longrightarrow>
     (\<And>i. i \<in> set (butlast (x # ys)) \<Longrightarrow> p_next (tab' ! i) = p_next (tab ! i)) \<Longrightarrow> path tab' x ys w"
proof (induction ys arbitrary: x)
  case (Cons y ys)
  have "path tab' y ys w" by (rule Cons.IH) (use Cons.prems in auto)
  with Cons.prems(1) Cons.prems(4) [of x] show ?case by auto
qed simp

lemma ring_remove:
  assumes "ring tab p (y # ys)" "length tab' = length tab"
    "p_next (tab' ! last (y # ys)) = p_next (tab ! p)"
    "\<And>i. i \<noteq> p \<Longrightarrow> i \<noteq> last (y # ys) \<Longrightarrow> p_next (tab' ! i) = p_next (tab ! i)"
  shows "ring tab' y ys"
proof -
  have r: "p_next (tab ! p) = Some y" "path tab y ys p" "distinct (y # ys)" "p \<notin> set (y # ys)" "set (y # ys) \<subseteq> {..<length tab}"
    using assms(1) by (auto simp: ring_def)
  have "last (y # ys) \<notin> set (butlast (y # ys))"
    using r(3) by (metis append_butlast_last_id distinct_append disjoint_iff list.distinct(1) list.set_intros(1))
  moreover have "p \<notin> set (butlast (y # ys))" using r(4) in_set_butlastD by metis
  ultimately have "p_next (tab' ! i) = p_next (tab ! i)" if "i \<in> set (butlast (y # ys))" for i
    using that by (intro assms(4)) blast+
  then have "path tab' y ys y"
    using assms(3) r(1) by (intro path_last [OF r(2,3)]) simp_all
  then show ?thesis using r(3,5) assms(2) by (simp add: ring_def)
qed

lemma reset_slot_fields [simp]: "p_state (reset_slot p) = PROC_UNUSED" "p_next (reset_slot p) = None"
  by (simp_all add: reset_slot_def clear_fds_def)

lemma reset_process_slot_fields [simp]:
  "process_table (reset_process_slot i s) = upd i reset_slot (process_table s)"
  "kheap (reset_process_slot i s) = (if p_stack (process_table s ! i) \<noteq> 0 then kfree (p_stack (process_table s ! i)) (kheap s) else kheap s)"
  "run_queue (reset_process_slot i s) = run_queue s" "current_process (reset_process_slot i s) = current_process s"
  "next_pid (reset_process_slot i s) = next_pid s"
  by (simp_all add: reset_process_slot_def Let_def)

section \<open>The scheduler keeps the invariant\<close>

lemma first_ready_Some:
  assumes "first_ready tab xs = Some k"
  obtains as bs where "xs = as @ k # bs" "p_state (tab ! k) = PROC_READY" "\<forall>i \<in> set as. p_state (tab ! i) \<noteq> PROC_READY"
proof -
  obtain i where i: "i < length xs" "p_state (tab ! (xs ! i)) = PROC_READY" "k = xs ! i"
      "\<forall>j < i. p_state (tab ! (xs ! j)) \<noteq> PROC_READY"
    using assms by (auto simp: first_ready_def find_Some_iff)
  have "xs = take i xs @ k # drop (Suc i) xs" using i(1,3) by (simp add: id_take_nth_drop)
  moreover have "\<forall>j \<in> set (take i xs). p_state (tab ! j) \<noteq> PROC_READY" using i by (auto simp: in_set_conv_nth)
  ultimately show ?thesis using i(2,3) that by blast
qed

lemma first_ready_None: "first_ready tab xs = None \<longleftrightarrow> (\<forall>i \<in> set xs. p_state (tab ! i) \<noteq> PROC_READY)"
  by (auto simp: first_ready_def find_None_iff)

lemma set_state_fields [simp]:
  "process_table (set_state i st s) = upd i (\<lambda>p. p\<lparr>p_state := st\<rparr>) (process_table s)"
  "kheap (set_state i st s) = kheap s" "run_queue (set_state i st s) = run_queue s"
  "current_process (set_state i st s) = current_process s" "next_pid (set_state i st s) = next_pid s"
  "quantum_count (set_state i st s) = quantum_count s" "kernel_pd (set_state i st s) = kernel_pd s"
  by (simp_all add: set_state_def)

lemma schedule_running_ok:
  assumes ok: "sched_ok s c xs" and running: "p_state (process_table s ! c) = PROC_RUNNING"
    and q: "\<not> quantum_count s + 1 < SCHED_QUANTUM"
  shows "\<exists>s'. schedule regs s = Some s' \<and> quantum_count s' = 0 \<and>
    (\<forall>j. j \<noteq> c \<longrightarrow> (\<forall>k. first_ready (process_table s) xs \<noteq> Some k \<or> j \<noteq> k) \<longrightarrow> process_table s' ! j = process_table s ! j) \<and>
    p_esp (process_table s' ! c) = regs \<and>
    (case first_ready (process_table s) xs of
       None \<Rightarrow> sched_ok s' c xs \<and> p_state (process_table s' ! c) = PROC_RUNNING
     | Some k \<Rightarrow> (\<exists>as bs. xs = as @ k # bs \<and> (\<forall>i \<in> set as. p_state (process_table s ! i) \<noteq> PROC_READY) \<and>
           sched_ok s' k (bs @ c # as)) \<and>
         p_state (process_table s' ! c) = PROC_READY \<and> p_state (process_table s' ! k) = PROC_RUNNING \<and>
         sched_switch_esp s' = p_esp (process_table s ! k))"
proof -
  have c: "c < length (process_table s)" "c \<notin> set xs" "path (process_table s) c xs c"
    using sched_okD(2) [OF ok] by (auto simp: ring_def)
  obtain first where first: "p_next (process_table s ! c) = Some first" using path_next [OF c(3)] by blast
  define tab where "tab = upd c (\<lambda>p. p\<lparr>p_state := PROC_READY\<rparr>) (upd c (\<lambda>p. p\<lparr>p_esp := regs\<rparr>) (process_table s))"
  have tab: "tab ! j = (if j = c then (process_table s ! c)\<lparr>p_esp := regs, p_state := PROC_READY\<rparr> else process_table s ! j)" for j
    using c(1) by (simp add: tab_def upd_nth)
  have len: "length tab = length (process_table s)" by (simp add: tab_def)
  define t where "t = s\<lparr>quantum_count := 0, process_table := tab\<rparr>"
  have "path tab c xs c = path (process_table s) c xs c" by (rule path_cong) (simp add: tab)
  then have ptab: "path tab c xs c" using c(3) by simp
  have nxt: "p_next (tab ! c) = Some first" using first tab by simp
  have fr: "first_ready tab xs = first_ready (process_table s) xs"
    unfolding first_ready_def using c(2) by (intro find_cong refl) (auto simp: tab)
  have run: "schedule regs s = (case first_ready (process_table s) xs of
      None \<Rightarrow> Some (set_state c PROC_RUNNING t) | Some k \<Rightarrow> Some (switch_to k t))"
  proof -
    have "schedule regs s = (case find_candidate tab c first of None \<Rightarrow> None
        | Some candidate \<Rightarrow> if candidate = c then Some (set_state c PROC_RUNNING t) else Some (switch_to candidate t))"
      using sched_okD(1) [OF ok] running q c(1) nxt tab
      by (simp add: schedule_def Let_def upd_nth set_state_def t_def tab_def cong: option.case_cong if_cong)
    also have "find_candidate tab c first = Some (case first_ready (process_table s) xs of None \<Rightarrow> c | Some i \<Rightarrow> i)"
      using find_candidate_path [OF ptab c(2) nxt] fr by simp
    finally show ?thesis
      using c(2) by (auto split: option.splits elim!: first_ready_Some)
  qed
  show ?thesis
  proof (cases "first_ready (process_table s) xs")
    case None
    let ?s' = "set_state c PROC_RUNNING t"
    have st: "process_table ?s' ! j = (if j = c then (process_table s ! c)\<lparr>p_esp := regs, p_state := PROC_RUNNING\<rparr> else process_table s ! j)" for j
      using c(1) len tab by (simp add: t_def upd_nth)
    have "sched_ok ?s' c xs"
      by (rule sched_ok_change [OF ok])
        (use st running sched_okD(1,2,10) [OF ok] c(2) len in \<open>auto simp: t_def upd_nth\<close>)
    then show ?thesis unfolding run None using st by (simp add: t_def)
  next
    case (Some k)
    then obtain as bs where k: "xs = as @ k # bs" "p_state (process_table s ! k) = PROC_READY"
        "\<forall>i \<in> set as. p_state (process_table s ! i) \<noteq> PROC_READY" by (rule first_ready_Some)
    have kc: "k \<noteq> c" "k < length (process_table s)" using k(1) c(2) sched_okD(2) [OF ok] by (auto simp: ring_def)
    let ?s' = "switch_to k t"
    have st: "process_table ?s' ! j = (if j = c then (process_table s ! c)\<lparr>p_esp := regs, p_state := PROC_READY\<rparr>
        else if j = k then (process_table s ! k)\<lparr>p_state := PROC_RUNNING\<rparr> else process_table s ! j)" for j
      using kc len tab by (simp add: switch_to_def Let_def t_def upd_nth)
    have rot: "ring (process_table s) k (bs @ c # as)" using sched_okD(2) [OF ok] k(1) ring_rotate by metis
    have "k \<notin> set (bs @ c # as)" using rot by (simp add: ring_def)
    then have "sched_ok ?s' k (bs @ c # as)"
      using st running sched_okD(10) [OF ok] k kc len rot
      by (intro sched_ok_change [OF ok]) (auto simp: switch_to_def Let_def t_def)
    moreover have "sched_switch_esp ?s' = p_esp (process_table s ! k)"
      using kc len tab by (simp add: switch_to_def Let_def t_def upd_nth)
    moreover have "quantum_count ?s' = 0" by (simp add: switch_to_def Let_def t_def)
    ultimately show ?thesis unfolding run Some using st kc k by auto
  qed
qed

lemma schedule_dead_ok:
  assumes ok: "sched_ok s c xs" and dead: "p_state (process_table s ! c) = PROC_DEAD"
  shows "\<exists>s'. schedule regs s = Some s' \<and>
    (case first_ready (process_table s) xs of
       None \<Rightarrow> s' = set_state c PROC_RUNNING s \<and> sched_ok s' c xs
     | Some k \<Rightarrow> (\<exists>as bs. xs = as @ k # bs \<and> (\<forall>i \<in> set as. p_state (process_table s ! i) \<noteq> PROC_READY) \<and>
           sched_ok s' k (bs @ as)) \<and>
         p_state (process_table s' ! c) = PROC_UNUSED \<and>
         kheap s' = (if p_stack (process_table s ! c) \<noteq> 0 then kfree (p_stack (process_table s ! c)) (kheap s) else kheap s))"
proof -
  have c: "c < length (process_table s)" "c \<notin> set xs" "path (process_table s) c xs c" "distinct xs"
    using sched_okD(2) [OF ok] by (auto simp: ring_def)
  obtain first where first: "p_next (process_table s ! c) = Some first" using path_next [OF c(3)] by blast
  have prev: "find_prev (process_table s) c c = Some (last (c # xs))" by (rule find_prev_path [OF c(3,2)])
  have cand: "find_candidate (process_table s) c first
      = Some (case first_ready (process_table s) xs of None \<Rightarrow> c | Some i \<Rightarrow> i)"
    by (rule find_candidate_path [OF c(3,2) first])
  have run: "schedule regs s = schedule_dead c s" using sched_okD(1) [OF ok] dead by (simp add: schedule_def)
  show ?thesis
  proof (cases "first_ready (process_table s) xs")
    case None
    have "schedule_dead c s = Some (set_state c PROC_RUNNING s)"
      using first prev cand None by (simp add: schedule_dead_def)
    moreover have "sched_ok (set_state c PROC_RUNNING s) c xs"
      by (rule sched_ok_change [OF ok])
        (use c dead sched_okD(1,2,10) [OF ok] in \<open>auto simp: upd_nth\<close>)
    ultimately show ?thesis unfolding run None by simp
  next
    case (Some k)
    then obtain as bs where k: "xs = as @ k # bs" "p_state (process_table s ! k) = PROC_READY"
        "\<forall>i \<in> set as. p_state (process_table s ! i) \<noteq> PROC_READY" by (rule first_ready_Some)
    have "xs \<noteq> []" using k(1) by simp
    then obtain y ys where xs: "xs = y # ys" by (auto simp: neq_Nil_conv)
    have y: "first = y" using first c(3) xs by simp
    have l: "last (c # xs) = last (y # ys)" using xs by simp
    have lin: "last (y # ys) \<in> set xs" using xs by simp
    then have ll: "last (y # ys) < length (process_table s)" "last (y # ys) \<noteq> c"
      using sched_okD(2) [OF ok] c(2) by (auto simp: ring_def)
    have kc: "k \<noteq> c" "k < length (process_table s)" using k(1) c(2) sched_okD(2) [OF ok] by (auto simp: ring_def)
    define tab where "tab = upd k (\<lambda>p. p\<lparr>p_state := PROC_RUNNING\<rparr>) (upd c reset_slot
      (upd (last (y # ys)) (\<lambda>p. p\<lparr>p_next := Some first\<rparr>) (process_table s)))"
    define s1 where "s1 = s\<lparr>process_table := upd (last (y # ys)) (\<lambda>p. p\<lparr>p_next := Some first\<rparr>) (process_table s)\<rparr>"
    define s2 where "s2 = (if run_queue s1 = Some c then s1\<lparr>run_queue := p_next (process_table s1 ! c)\<rparr> else s1)"
    define s' where "s' = (switch_to k (reset_process_slot c s2))\<lparr>quantum_count := 0\<rparr>"
    have eq: "schedule_dead c s = Some s'"
      using first prev cand Some kc(1) l by (simp add: schedule_dead_def Let_def s'_def s2_def s1_def cong: if_cong)
    have sc: "process_table s1 ! c = process_table s ! c" using ll by (simp add: s1_def upd_nth)
    have f2: "process_table s2 = process_table s1" "kheap s2 = kheap s" "next_pid s2 = next_pid s"
      "run_queue s2 = (if run_queue s = Some c then Some y else run_queue s)"
      using sc first y by (simp_all add: s2_def s1_def)
    have tab': "process_table s' = tab" "kheap s' = (if p_stack (process_table s ! c) \<noteq> 0 then kfree (p_stack (process_table s ! c)) (kheap s) else kheap s)"
      "next_pid s' = next_pid s" "run_queue s' = run_queue s2" "current_process s' = Some k"
      using f2 sc by (simp_all add: s'_def switch_to_def Let_def tab_def s1_def)
    have nth: "tab ! j = (if j = k then (if j = last (y # ys) then (process_table s ! j)\<lparr>p_next := Some first\<rparr> else process_table s ! j)\<lparr>p_state := PROC_RUNNING\<rparr>
       else if j = c then reset_slot (process_table s ! c)
       else if j = last (y # ys) then (process_table s ! j)\<lparr>p_next := Some first\<rparr> else process_table s ! j)" for j
      using ll kc c(1) by (simp add: tab_def upd_nth)
    have len: "length tab = length (process_table s)" by (simp add: tab_def)
    have "ring tab y ys"
      by (rule ring_remove [OF sched_okD(2) [OF ok, unfolded xs] len]) (use nth first y ll(2) in auto)
    then have rt: "ring tab k (bs @ as)"
    proof (cases as)
      case Nil
      then show ?thesis using \<open>ring tab y ys\<close> k(1) xs by simp
    next
      case (Cons a as')
      then have "y = a" "ys = as' @ k # bs" using k(1) xs by auto
      then show ?thesis using \<open>ring tab y ys\<close> Cons ring_rotate [of tab a as' k bs] by simp
    qed
    have set': "set (k # bs @ as) = set (c # xs) - {c}" using k(1) c(2) by auto
    obtain q where q: "run_queue s = Some q" "q \<in> set (c # xs)" using sched_okD(8) [OF ok] by blast
    have "sched_ok s' k (bs @ as)"
    proof (rule sched_ok_remove [OF ok, of c s' k "if q = c then y else q"])
      show "ring (process_table s') k (bs @ as)" using rt tab' by simp
      show "set (k # bs @ as) = set (c # xs) - {c}" by (rule set')
      show "(if q = c then y else q) \<in> set (k # bs @ as)" unfolding set' using q(2) xs c(2) by auto
      show "run_queue s' = Some (if q = c then y else q)" using tab'(4) f2(4) q(1) by simp
      show "p_pid (process_table s' ! i) = p_pid (process_table s ! i) \<and>
        p_stack (process_table s' ! i) = p_stack (process_table s ! i) \<and> p_state (process_table s' ! i) \<noteq> PROC_UNUSED"
        if "i \<in> set (k # bs @ as)" for i
      proof -
        have "i \<in> set (c # xs)" "i \<noteq> c" using that set' by blast+
        then show ?thesis using nth [of i] tab'(1) sched_okD(6,7) [OF ok, of i] by auto
      qed
      show "p_state (process_table s' ! i) = PROC_UNUSED" if "i < MAX_PROCS" "i \<notin> set (k # bs @ as)" for i
      proof -
        have "i = c \<or> i \<notin> set (c # xs)" using that(2) set' by blast
        moreover have "k \<in> set (c # xs)" "last (y # ys) \<in> set (c # xs)" using k(1) lin by auto
        ultimately show ?thesis using nth [of i] tab'(1) sched_okD(7) [OF ok that(1)] kc(1) by auto
      qed
      show "p_state (process_table s' ! i) \<noteq> PROC_RUNNING" if "i \<in> set (bs @ as)" for i
      proof -
        have "i \<in> set xs" "i \<noteq> k" using that k(1) c(4) by auto
        then show ?thesis using nth [of i] tab'(1) sched_okD(10) [OF ok, of i] by auto
      qed
    qed (use tab' nth len sched_okD(3) [OF ok] in auto)
    then show ?thesis unfolding run eq Some using k nth [of c] tab' kc by auto
  qed
qed

section \<open>Killing keeps the invariant\<close>

lemma process_kill_ok:
  assumes ok: "sched_ok s c xs" and p: "p \<in> set xs" "run_queue s \<noteq> Some p"
  shows "\<exists>as bs s'. xs = as @ p # bs \<and> process_kill (p_pid (process_table s ! p)) s = Some (0, s') \<and>
    sched_ok s' c (as @ bs) \<and> p_state (process_table s' ! p) = PROC_UNUSED"
proof -
  let ?tab = "process_table s" and ?pid = "p_pid (process_table s ! p)"
  have c: "c < length ?tab" "c \<notin> set xs" "distinct (c # xs)"
    using sched_okD(2) [OF ok] by (auto simp: ring_def)
  have pc: "p \<noteq> c" "p < length ?tab" using p(1) c(2) sched_okD(2) [OF ok] by (auto simp: ring_def)
  obtain q where q: "run_queue s = Some q" "q \<in> set (c # xs)" using sched_okD(8) [OF ok] by blast
  have inj: "i = p" if "i \<in> set (c # xs)" "p_pid (?tab ! i) = ?pid" for i
    using sched_okD(11) [OF ok] that p(1) by (auto simp: pids_ok_def inj_on_def)
  obtain zs where zs: "ring ?tab q zs" "set (q # zs) = set (c # xs)"
    by (rule ring_from [OF sched_okD(2) [OF ok] q(2)])
  have "p \<in> set zs" using zs(2) p q(1) by auto
  then obtain us vs where uv: "zs = us @ p # vs" by (meson split_list)
  define l where "l = last (q # us)"
  have path: "path ?tab q ((us @ [p]) @ vs) q" "q \<notin> set ((us @ [p]) @ vs)" "distinct (q # us @ p # vs)"
    using zs(1) uv by (simp_all add: ring_def)
  have bl: "butlast (q # us @ [p]) = q # us" by (metis append_Cons butlast_snoc)
  have "p_pid (?tab ! i) \<noteq> ?pid" if "i \<in> set (butlast (q # us @ [p]))" for i
    using that inj [of i] path(3) zs(2) uv unfolding bl by auto
  then have search: "kill_search ?tab q ?pid q q = Some (l, p)"
    using kill_search_found [OF path(1,2), of ?pid q] bl by (simp add: l_def)
  have lmem: "l \<in> set (c # xs)" "l \<noteq> p" using zs(2) uv path(3) unfolding l_def by auto
  have ll: "l < length ?tab" using lmem(1) sched_okD(2) [OF ok] by (auto simp: ring_def)
  define tab where "tab = upd p reset_slot (upd l (\<lambda>x. x\<lparr>p_next := p_next (?tab ! p)\<rparr>) ?tab)"
  define s' where "s' = reset_process_slot p (s\<lparr>process_table := upd l (\<lambda>x. x\<lparr>p_next := p_next (?tab ! p)\<rparr>) ?tab\<rparr>)"
  have cpid: "?pid \<noteq> p_pid (?tab ! c)" using inj [of c] pc(1) by auto
  have run: "process_kill ?pid s = Some (0, s')"
    using q(1) sched_okD(1) [OF ok] cpid search pc(1) p(2) by (simp add: process_kill_def s'_def)
  have sp: "upd l (\<lambda>x. x\<lparr>p_next := p_next (?tab ! p)\<rparr>) ?tab ! p = ?tab ! p" using ll lmem(2) by (simp add: upd_nth)
  have tab': "process_table s' = tab" "kheap s' = (if p_stack (?tab ! p) \<noteq> 0 then kfree (p_stack (?tab ! p)) (kheap s) else kheap s)"
    "next_pid s' = next_pid s" "run_queue s' = Some q" "current_process s' = Some c"
    using sp q(1) sched_okD(1) [OF ok] by (simp_all add: s'_def tab_def)
  have nth: "tab ! j = (if j = p then reset_slot (?tab ! p)
      else if j = l then (?tab ! j)\<lparr>p_next := p_next (?tab ! p)\<rparr> else ?tab ! j)" for j
    using ll pc lmem(2) by (simp add: tab_def upd_nth)
  have len: "length tab = length ?tab" by (simp add: tab_def)
  have rp: "ring ?tab p (vs @ q # us)" using zs(1) uv ring_rotate by metis
  obtain y ys where yy: "vs @ q # us = y # ys" by (cases vs) auto
  have last: "last (y # ys) = l" using yy [symmetric] by (simp add: l_def)
  have "ring tab y ys"
    by (rule ring_remove [OF rp [unfolded yy] len]) (use nth last lmem(2) in auto)
  moreover have cin: "c \<in> set (y # ys)" using zs(2) uv pc(1) yy by (metis Un_iff insert_iff list.set(2) set_append)
  ultimately obtain ws where ws: "ring tab c ws" "set (c # ws) = set (y # ys)" by (rule ring_from)
  obtain as bs where ab: "xs = as @ p # bs" using p(1) by (meson split_list)
  have rc: "ring ?tab p (bs @ c # as)" using sched_okD(2) [OF ok] ab ring_rotate by metis
  have "bs @ c # as = vs @ q # us"
    using rc rp by (intro ring_unique [of ?tab p]) (auto simp: ring_def)
  then have e: "bs @ c # as = y # ys" using yy by simp
  have ring': "ring tab c (as @ bs)"
  proof (cases bs)
    case Nil
    then show ?thesis using \<open>ring tab y ys\<close> e by simp
  next
    case (Cons b bs')
    then have "y = b" "ys = bs' @ c # as" using e by auto
    then show ?thesis using \<open>ring tab y ys\<close> Cons ring_rotate [of tab b bs' c as] by simp
  qed
  have set': "set (c # as @ bs) = set (c # xs) - {p}" using ab c(3) pc(1) by auto
  have "sched_ok s' c (as @ bs)"
  proof (rule sched_ok_remove [OF ok, of p s' c q])
    show "ring (process_table s') c (as @ bs)" using ring' tab' by simp
    show "set (c # as @ bs) = set (c # xs) - {p}" by (rule set')
    show "q \<in> set (c # as @ bs)" unfolding set' using q p(2) by auto
    show "p_pid (process_table s' ! i) = p_pid (?tab ! i) \<and>
      p_stack (process_table s' ! i) = p_stack (?tab ! i) \<and> p_state (process_table s' ! i) \<noteq> PROC_UNUSED"
      if "i \<in> set (c # as @ bs)" for i
    proof -
      have "i \<in> set (c # xs)" "i \<noteq> p" using that set' by blast+
      then show ?thesis using nth [of i] tab'(1) sched_okD(6,7) [OF ok, of i] by auto
    qed
    show "p_state (process_table s' ! i) = PROC_UNUSED" if "i < MAX_PROCS" "i \<notin> set (c # as @ bs)" for i
    proof -
      have "i = p \<or> i \<notin> set (c # xs)" using that(2) set' by blast
      then show ?thesis using nth [of i] tab'(1) sched_okD(7) [OF ok that(1)] lmem(1) by auto
    qed
    show "p_state (process_table s' ! i) \<noteq> PROC_RUNNING" if "i \<in> set (as @ bs)" for i
    proof -
      have "i \<in> set xs" "i \<noteq> p" using that ab c(3) by auto
      then show ?thesis using nth [of i] tab'(1) sched_okD(10) [OF ok, of i] by auto
    qed
    show "p_state (process_table s' ! c) \<in> {PROC_RUNNING, PROC_DEAD}"
      using nth [of c] tab'(1) sched_okD(9) [OF ok] pc(1) by auto
  qed (use tab' p len sched_okD(3) [OF ok] in auto)
  then show ?thesis using ab run nth [of p] tab'(1) by auto
qed

section \<open>Boot\<close>

lemma process_init_ok:
  assumes "length (process_table s) = MAX_PROCS" "next_pid s = 0" "heap_inv (kheap s)"
  shows "sched_ok (process_init s) 0 [] \<and> p_state (process_table (process_init s) ! 0) = PROC_RUNNING \<and>
    quantum_count (process_init s) = quantum_count s"
proof -
  define tab where "tab = process_table (process_init s)"
  have len: "length tab = MAX_PROCS" using assms(1) by (simp add: tab_def process_init_def Let_def)
  have z: "p_pid (tab ! 0) = 0" "p_state (tab ! 0) = PROC_RUNNING" "p_stack (tab ! 0) = 0" "p_next (tab ! 0) = Some 0"
    using assms(1,2) by (simp_all add: tab_def process_init_def Let_def upd_nth clear_fds_def copy_pname_def)
  have o: "p_state (tab ! i) = PROC_UNUSED" if "i < MAX_PROCS" "i \<noteq> 0" for i
    using assms(1) that by (simp add: tab_def process_init_def Let_def upd_nth)
  have f: "run_queue (process_init s) = Some 0" "current_process (process_init s) = Some 0" "next_pid (process_init s) = 1"
    "kheap (process_init s) = kheap s" "quantum_count (process_init s) = quantum_count s"
    using assms(2) by (simp_all add: process_init_def Let_def)
  have "i \<in> set [0] \<longleftrightarrow> p_state (tab ! i) \<noteq> PROC_UNUSED" if "i < MAX_PROCS" for i
    using o [OF that] z(2) by (cases "i = 0") auto
  then have "sched_ok (process_init s) 0 []"
    using len z f assms(3) unfolding sched_ok_def ring_def pids_ok_def stacks_ok_def tab_def [symmetric] by simp
  then show ?thesis using z(2) f(5) by (simp add: tab_def)
qed

definition empty_slot :: process where
  "empty_slot = \<lparr>p_pid = 0, p_state = 0, p_esp = 0, p_stack = 0, p_name = replicate 32 0, p_next = None,
     p_user_page_dir = 0, p_user_fd = replicate MAX_FD \<lparr>ufd_inode = 0, ufd_offset = 0\<rparr>, p_user_fd_used = replicate MAX_FD 0\<rparr>"

definition sched_boot :: sched where
  "sched_boot = process_init \<lparr>process_table = replicate 16 empty_slot, run_queue = None, current_process = None,
     next_pid = 0, sched_switch_esp = 0, sched_switch_cr3 = 0, quantum_count = 0, kheap = heap_boot,
     words = (\<lambda>_. 0), kernel_pd = 0xC00000\<rparr>"

lemma sched_boot_ok: "sched_ok sched_boot 0 []" "p_state (process_table sched_boot ! 0) = PROC_RUNNING"
  "quantum_count sched_boot = 0" "next_pid sched_boot = 1" "kheap sched_boot = heap_boot" "run_queue sched_boot = Some 0"
proof -
  let ?s = "\<lparr>process_table = replicate 16 empty_slot, run_queue = None, current_process = None,
     next_pid = 0, sched_switch_esp = 0, sched_switch_cr3 = 0, quantum_count = 0, kheap = heap_boot,
     words = (\<lambda>_. 0), kernel_pd = 0xC00000\<rparr> :: sched"
  have "sched_ok (process_init ?s) 0 [] \<and> p_state (process_table (process_init ?s) ! 0) = PROC_RUNNING \<and>
      quantum_count (process_init ?s) = quantum_count ?s"
    by (rule process_init_ok) (simp_all add: heap_inv_boot)
  then show "sched_ok sched_boot 0 []" "p_state (process_table sched_boot ! 0) = PROC_RUNNING" "quantum_count sched_boot = 0"
    by (simp_all add: sched_boot_def)
qed (simp_all add: sched_boot_def process_init_def Let_def)

text \<open>A second process, ready.\<close>

lemma boot_create:
  obtains i s where "process_create 0x100000 [0x61, 0] sched_boot = Some (Some i, s)" "sched_ok s 0 [i]"
    "p_state (process_table s ! i) = PROC_READY" "p_state (process_table s ! 0) = PROC_RUNNING"
    "quantum_count s = 0" "run_queue s = Some 0" "p_pid (process_table s ! i) = 1"
proof -
  have pid: "next_pid sched_boot + 1 \<noteq> 0" by (simp add: sched_boot_ok)
  have alloc: "heap_alloc PROC_STACK (kheap sched_boot) \<noteq> None"
    by (simp add: sched_boot_ok heap_alloc_def kmalloc_def heap_boot_def heap_init_def kmalloc_walk.simps take_block_def)
  have "\<not> (\<forall>i. 1 \<le> i \<and> i < MAX_PROCS \<longrightarrow> i \<in> set (0 # []))" by (auto intro!: exI [of _ 1])
  then obtain i s where i: "process_create 0x100000 [0x61, 0] sched_boot = Some (Some i, s)" "i \<notin> set (0 # [])" "sched_ok s 0 [i]"
      "p_pid (process_table s ! i) = next_pid sched_boot" "p_state (process_table s ! i) = PROC_READY"
    using create_with_ok [OF sched_boot_ok(1) pid, of id "kernel_frame 0x100000" "[0x61, 0]"] alloc
    by (auto simp: process_create_def kernel_frame_def split: option.splits)
  have "quantum_count s = quantum_count sched_boot" "run_queue s = run_queue sched_boot"
    using i(1) by (auto simp: process_create_def create_with_def Let_def split: option.splits prod.splits if_splits)
  moreover have "p_state (process_table s ! 0) = PROC_RUNNING"
  proof -
    have "p_state (process_table s ! 0) = p_state (process_table sched_boot ! 0)"
      using i(1,2) sched_okD(1,3) [OF sched_boot_ok(1)]
      by (auto simp: process_create_def create_with_def Let_def upd_nth find_unused_def find_Some_iff
          split: option.splits prod.splits if_splits)
    then show ?thesis by (simp add: sched_boot_ok)
  qed
  ultimately show ?thesis using that i sched_boot_ok by simp
qed

end
