(* ===== verification/ProcessProps.thy ===== *)
theory ProcessProps
  imports Process
begin

text \<open>
  What the process table and the scheduler promise, over the invariant \<open>sched_ok\<close> of
  \<open>Process\<close>: creation and its stack frames, the round robin, reclaiming of exited and
  killed processes, and that no sequence of calls breaks the run queue. The ring is read from
  the current process: \<open>sched_ok s c xs\<close> lists behind \<open>c\<close> the others in
  scheduling order.
\<close>

section \<open>Creation\<close>

text \<open>The words of the saved frame, lowest address first, and what creation does, per frame.\<close>

definition frame_at :: "(u32 \<Rightarrow> u32) \<Rightarrow> u32 \<Rightarrow> nat \<Rightarrow> u32 list" where
  "frame_at m esp n = map (\<lambda>k. m (esp + of_nat (4 * k))) [0..<n]"

lemma frame_atI: "n = length ys \<Longrightarrow> \<forall>k < n. m (esp + of_nat (4 * k)) = rev ys ! k \<Longrightarrow> frame_at m esp n = rev ys"
  unfolding frame_at_def by (rule nth_equalityI) auto

text \<open>The outcome of a creation with a given frame, lowest word first.\<close>

definition created :: "sched \<Rightarrow> nat \<Rightarrow> nat list \<Rightarrow> u32 list \<Rightarrow> nat option \<Rightarrow> sched \<Rightarrow> bool" where
  "created s c xs frame r s' =
    (case r of
       None \<Rightarrow> s' = s \<and> ((\<forall>i. 1 \<le> i \<and> i < MAX_PROCS \<longrightarrow> i \<in> set (c # xs)) \<or> heap_alloc PROC_STACK (kheap s) = None)
     | Some i \<Rightarrow> i \<notin> set (c # xs) \<and> sched_ok s' c (i # xs) \<and>
         p_pid (process_table s' ! i) = next_pid s \<and> p_state (process_table s' ! i) = PROC_READY \<and>
         p_esp (process_table s' ! i) = p_stack (process_table s' ! i) + PROC_STACK - of_nat (4 * length frame) \<and>
         frame_at (words s') (p_esp (process_table s' ! i)) (length frame) = frame \<and>
         (\<forall>j. j \<noteq> i \<longrightarrow> j \<noteq> c \<longrightarrow> process_table s' ! j = process_table s ! j))"

lemma create_with_created:
  assumes "sched_ok s c xs" "next_pid s + 1 \<noteq> 0"
    "\<And>p. p_pid (clear p) = p_pid p \<and> p_state (clear p) = p_state p \<and> p_stack (clear p) = p_stack p \<and> p_name (clear p) = p_name p"
    "length frame \<le> 16"
  shows "\<exists>r s'. create_with frame clear name s = Some (r, s') \<and> created s c xs (rev frame) r s'"
proof -
  obtain r s' where r: "create_with frame clear name s = Some (r, s')" and
    R: "case r of
       None \<Rightarrow> s' = s \<and> ((\<forall>i. 1 \<le> i \<and> i < MAX_PROCS \<longrightarrow> i \<in> set (c # xs)) \<or> heap_alloc PROC_STACK (kheap s) = None)
     | Some i \<Rightarrow> i \<notin> set (c # xs) \<and> sched_ok s' c (i # xs) \<and>
         p_pid (process_table s' ! i) = next_pid s \<and> p_state (process_table s' ! i) = PROC_READY \<and>
         (\<forall>k < length frame. words s' (p_esp (process_table s' ! i) + of_nat (4 * k)) = rev frame ! k) \<and>
         p_esp (process_table s' ! i) = p_stack (process_table s' ! i) + PROC_STACK - of_nat (4 * length frame) \<and>
         (\<forall>j. j \<noteq> i \<longrightarrow> j \<noteq> c \<longrightarrow> process_table s' ! j = process_table s ! j)"
    using create_with_ok [OF assms, of name] by blast
  have "frame_at (words s') (p_esp (process_table s' ! i)) (length frame) = rev frame" if "r = Some i" for i
    using R [unfolded that option.case] by (intro frame_atI) (simp, blast)
  then have "created s c xs (rev frame) r s'" unfolding created_def length_rev using R by (cases r) simp_all
  with r show ?thesis by blast
qed

text \<open>
  \<open>process_create\<close> gives up without any effect exactly when all slots are taken or the
  heap has no room for a stack; otherwise it returns a fresh slot, READY, with the next
  process identifier, inserted right behind the current process, and a stack whose saved
  frame makes the first \<open>iret\<close> enter \<open>entry\<close> in kernel mode with interrupts on. No
  other process changes.
\<close>

theorem process_create_correct:
  assumes "sched_ok s c xs" "next_pid s + 1 \<noteq> 0"
  shows "\<exists>r s'. process_create entry name s = Some (r, s') \<and>
    created s c xs [0x10, 0, 0, 0, 0, 0, 0, 0, 0, 32, 0, entry, 0x08, 0x202] r s'"
  using create_with_created [OF assms, of id "kernel_frame entry" name] unfolding process_create_def
  by (simp add: kernel_frame_def)

text \<open>A second process, ready.\<close>

theorem process_create_correct_witness:
  "\<exists>i s'. process_create 0x100000 [0x61, 0] sched_boot = Some (Some i, s') \<and>
    frame_at (words s') (p_esp (process_table s' ! i)) 14 = [0x10, 0, 0, 0, 0, 0, 0, 0, 0, 32, 0, 0x100000, 0x08, 0x202]"
proof -
  obtain i s where "process_create 0x100000 [0x61, 0] sched_boot = Some (Some i, s)" by (rule boot_create)
  moreover have "next_pid sched_boot + 1 \<noteq> 0" by (simp add: sched_boot_ok)
  note process_create_correct [OF sched_boot_ok(1) this, of "0x100000" "[0x61, 0]"]
  ultimately show ?thesis by (auto simp: created_def eval_nat_numeral)
qed

lemma create_user_created:
  assumes "sched_ok s c xs" "next_pid s + 1 \<noteq> 0"
  shows "\<exists>r s'. process_create_user entry user_stack_top name s = Some (r, s') \<and>
    created s c xs [0x23, 0, 0, 0, 0, 0, 0, 0, 0, 32, 0, entry, 0x1B, 0x202, user_stack_top, 0x23] r s'"
  using create_with_created [OF assms, of "\<lambda>p. clear_fds (p\<lparr>p_user_page_dir := 0\<rparr>)" "user_frame entry user_stack_top" name]
  unfolding process_create_user_def
  by (simp add: user_frame_def clear_fds_def)

text \<open>
  \<open>process_create_user\<close> does the same with a frame that drops to ring 3: user code and
  data selectors with requested privilege 3 and the user's own stack pointer.
\<close>

theorem process_create_user_correct:
  assumes "sched_ok s c xs" "next_pid s + 1 \<noteq> 0"
  shows "\<exists>r s'. process_create_user entry user_stack_top name s = Some (r, s') \<and>
    created s c xs [0x23, 0, 0, 0, 0, 0, 0, 0, 0, 32, 0, entry, 0x1B, 0x202, user_stack_top, 0x23] r s'"
  using assms by (rule create_user_created)

theorem process_create_user_correct_witness:
  "\<exists>r s'. process_create_user 0x1000000 0x8001000 [0x61, 0] sched_boot = Some (r, s')"
proof -
  have "next_pid sched_boot + 1 \<noteq> 0" by (simp add: sched_boot_ok)
  from process_create_user_correct [OF sched_boot_ok(1) this, of "0x1000000" "0x8001000" "[0x61, 0]"]
  show ?thesis by blast
qed

section \<open>The round robin\<close>

text \<open>
  C9. A timer tick while a process runs: within the quantum of five ticks only the counter
  moves. At its end the interrupted context is saved, and the first READY process in ring
  order becomes current, with its saved stack pointer handed to the interrupt stub and the
  old one READY; if there is none the process goes on running. Skipped processes keep their
  place in the ring and no other process changes.
\<close>

theorem schedule_round_robin:
  assumes "sched_ok s c xs" "p_state (process_table s ! c) = PROC_RUNNING"
  shows "if quantum_count s + 1 < SCHED_QUANTUM
    then schedule regs s = Some (s\<lparr>quantum_count := quantum_count s + 1\<rparr>)
    else \<exists>s'. schedule regs s = Some s' \<and> quantum_count s' = 0 \<and> p_esp (process_table s' ! c) = regs \<and>
      (\<forall>j. j \<noteq> c \<longrightarrow> current_process s' \<noteq> Some j \<longrightarrow> process_table s' ! j = process_table s ! j) \<and>
      (if \<forall>i \<in> set xs. p_state (process_table s ! i) \<noteq> PROC_READY
       then sched_ok s' c xs \<and> p_state (process_table s' ! c) = PROC_RUNNING
       else \<exists>as k bs. xs = as @ k # bs \<and> p_state (process_table s ! k) = PROC_READY \<and>
         (\<forall>i \<in> set as. p_state (process_table s ! i) \<noteq> PROC_READY) \<and> sched_ok s' k (bs @ c # as) \<and>
         p_state (process_table s' ! c) = PROC_READY \<and> p_state (process_table s' ! k) = PROC_RUNNING \<and>
         sched_switch_esp s' = p_esp (process_table s ! k))"
proof (cases "quantum_count s + 1 < SCHED_QUANTUM")
  case True
  then show ?thesis using assms sched_okD(1) [OF assms(1)] by (simp add: schedule_def)
next
  case False
  note R = schedule_running_ok [OF assms False, of regs]
  show ?thesis
  proof (cases "first_ready (process_table s) xs")
    case None
    then have "\<forall>i \<in> set xs. p_state (process_table s ! i) \<noteq> PROC_READY" by (simp add: first_ready_None)
    then show ?thesis using R False None by auto
  next
    case (Some k)
    then have "\<not> (\<forall>i \<in> set xs. p_state (process_table s ! i) \<noteq> PROC_READY)"
      by (simp add: first_ready_None [symmetric])
    moreover have "p_state (process_table s ! k) = PROC_READY" using Some by (rule first_ready_Some)
    moreover obtain s' as bs where s': "schedule regs s = Some s'" "quantum_count s' = 0" "p_esp (process_table s' ! c) = regs"
        "\<forall>j. j \<noteq> c \<longrightarrow> j \<noteq> k \<longrightarrow> process_table s' ! j = process_table s ! j"
        "xs = as @ k # bs" "\<forall>i \<in> set as. p_state (process_table s ! i) \<noteq> PROC_READY" "sched_ok s' k (bs @ c # as)"
        "p_state (process_table s' ! c) = PROC_READY" "p_state (process_table s' ! k) = PROC_RUNNING"
        "sched_switch_esp s' = p_esp (process_table s ! k)"
      using R Some by auto
    moreover have "current_process s' = Some k" by (rule sched_okD(1) [OF s'(7)])
    ultimately show ?thesis using False by (simp only: if_False option.inject) blast
  qed
qed

theorem schedule_round_robin_witness:
  "\<exists>i s s'. process_create 0x100000 [0x61, 0] sched_boot = Some (Some i, s) \<and>
    schedule 0x9000 (s\<lparr>quantum_count := 4\<rparr>) = Some s' \<and> current_process s' = Some i"
proof -
  obtain i s where i: "process_create 0x100000 [0x61, 0] sched_boot = Some (Some i, s)" "sched_ok s 0 [i]"
    "p_state (process_table s ! i) = PROC_READY" "p_state (process_table s ! 0) = PROC_RUNNING"
    by (rule boot_create)
  have "sched_ok (s\<lparr>quantum_count := 4\<rparr>) 0 [i]"
    using i(2) by (simp add: sched_ok_def pids_ok_def stacks_ok_def)
  from schedule_round_robin [OF this, of "0x9000"] i(3,4)
  obtain s' k as bs where "schedule 0x9000 (s\<lparr>quantum_count := 4\<rparr>) = Some s'" "[i] = as @ k # bs" "sched_ok s' k (bs @ 0 # as)"
    by auto
  moreover from this have "k = i" by (cases as) auto
  ultimately show ?thesis using i(1) sched_okD(1) by blast
qed

section \<open>Exit\<close>

text \<open>
  The tick after a process has exited switches to the first READY process, unlinks the
  dead one, frees its kernel stack and empties its slot; the survivors stay linked.
\<close>

theorem schedule_reclaims_dead:
  assumes "sched_ok s c xs" "p_state (process_table s ! c) = PROC_DEAD"
    "\<exists>i \<in> set xs. p_state (process_table s ! i) = PROC_READY"
  shows "\<exists>s' as k bs. schedule regs s = Some s' \<and> xs = as @ k # bs \<and> p_state (process_table s ! k) = PROC_READY \<and>
    (\<forall>i \<in> set as. p_state (process_table s ! i) \<noteq> PROC_READY) \<and> sched_ok s' k (bs @ as) \<and>
    p_state (process_table s' ! c) = PROC_UNUSED \<and>
    (p_stack (process_table s ! c) \<noteq> 0 \<longrightarrow> p_stack (process_table s ! c) \<notin> heap_live (kheap s'))"
proof -
  obtain k where k: "first_ready (process_table s) xs = Some k"
    using assms(3) first_ready_None [of "process_table s" xs] by auto
  obtain s' as bs where s': "schedule regs s = Some s'" "xs = as @ k # bs" "\<forall>i \<in> set as. p_state (process_table s ! i) \<noteq> PROC_READY"
      "sched_ok s' k (bs @ as)" "p_state (process_table s' ! c) = PROC_UNUSED"
      "kheap s' = (if p_stack (process_table s ! c) \<noteq> 0 then kfree (p_stack (process_table s ! c)) (kheap s) else kheap s)"
    using schedule_dead_ok [OF assms(1,2), of regs] k by auto
  have st: "stacks_ok s (set (c # xs))" using sched_okD(12) [OF assms(1)] .
  have "p_stack (process_table s ! c) \<notin> heap_live (kheap s')" if "p_stack (process_table s ! c) \<noteq> 0"
    using s'(6) that kheap.release_law [OF stacks_okD(1) [OF st] stacks_okD(2) [OF st _ that]] by auto
  moreover have "p_state (process_table s ! k) = PROC_READY" using k by (rule first_ready_Some)
  ultimately show ?thesis using s' by blast
qed

theorem schedule_reclaims_dead_witness:
  "\<exists>i s s' t. process_create 0x100000 [0x61, 0] sched_boot = Some (Some i, s) \<and> process_exit s = Some s' \<and>
    schedule 0x9000 s' = Some t \<and> current_process t = Some i"
proof -
  obtain i s where i: "process_create 0x100000 [0x61, 0] sched_boot = Some (Some i, s)" "sched_ok s 0 [i]"
    "p_state (process_table s ! i) = PROC_READY" "p_state (process_table s ! 0) = PROC_RUNNING"
    by (rule boot_create)
  let ?s' = "set_state 0 PROC_DEAD s"
  note D = sched_okD [OF i(2)]
  have ne: "i \<noteq> 0" "i < 16" using D(4) D(6) [of i] by auto
  have exit: "process_exit s = Some ?s'" using D(1) by (simp add: process_exit_def set_state_def)
  have "sched_ok ?s' 0 [i]"
    by (rule sched_ok_change [OF i(2)]) (use D ne in \<open>auto simp: upd_nth\<close>)
  from schedule_reclaims_dead [OF this, of "0x9000"] i(3) D(3) ne
  obtain s' k as bs where "schedule 0x9000 ?s' = Some s'" "[i] = as @ k # bs" "sched_ok s' k (bs @ as)"
    by (auto simp: upd_nth)
  moreover from this have "k = i" by (cases as) auto
  ultimately show ?thesis using i(1) exit sched_okD(1) by blast
qed

section \<open>Kill\<close>

lemma kill_unknown:
  assumes "sched_ok s c xs" "run_queue s = Some q" "p_pid (process_table s ! q) \<noteq> pid"
    "\<forall>p \<in> set xs. p_pid (process_table s ! p) \<noteq> pid"
  shows "process_kill pid s = Some (if pid = p_pid (process_table s ! c) then -2 else -1, s)"
proof (cases "pid = p_pid (process_table s ! c)")
  case True
  then show ?thesis using assms sched_okD(1) [OF assms(1)] by (simp add: process_kill_def)
next
  case False
  have "q \<in> set (c # xs)" using sched_okD(8) [OF assms(1)] assms(2) by auto
  from ring_from [OF sched_okD(2) [OF assms(1)] this] obtain zs where
    zs: "ring (process_table s) q zs" "set (q # zs) = set (c # xs)" by blast
  have no: "\<forall>i \<in> set (q # zs). p_pid (process_table s ! i) \<noteq> pid" unfolding zs(2) using assms(4) False by auto
  have "kill_search (process_table s) q pid q q = Some (last (q # zs), q)"
    by (rule kill_search_none) (use zs(1) no in \<open>simp_all add: ring_def\<close>)
  then show ?thesis using assms(2,3) sched_okD(1) [OF assms(1)] False by (simp add: process_kill_def)
qed

text \<open>
  \<open>process_kill\<close> for a process other than the head of the run queue: killing the current
  process is refused with -2 and an unknown identifier with -1, both without effect; any
  other process leaves the ring, its slot becomes free and its stack returns to the heap,
  and the remaining processes keep their order.
\<close>

theorem process_kill_correct:
  assumes "sched_ok s c xs" "run_queue s = Some q" "p_pid (process_table s ! q) \<noteq> pid"
  shows "if pid = p_pid (process_table s ! c) then process_kill pid s = Some (-2, s)
    else if \<forall>p \<in> set xs. p_pid (process_table s ! p) \<noteq> pid then process_kill pid s = Some (-1, s)
    else \<exists>as p bs s'. xs = as @ p # bs \<and> p_pid (process_table s ! p) = pid \<and> process_kill pid s = Some (0, s') \<and>
      sched_ok s' c (as @ bs) \<and> p_state (process_table s' ! p) = PROC_UNUSED"
proof (cases "\<exists>p \<in> set xs. p_pid (process_table s ! p) = pid")
  case True
  then obtain p where p: "p \<in> set xs" "p_pid (process_table s ! p) = pid" by blast
  have "run_queue s \<noteq> Some p" using assms(2,3) p(2) by auto
  from process_kill_ok [OF assms(1) p(1) this]
  obtain as bs s' where "xs = as @ p # bs" "process_kill pid s = Some (0, s')" "sched_ok s' c (as @ bs)"
    "p_state (process_table s' ! p) = PROC_UNUSED" unfolding p(2) by blast
  moreover have "p \<noteq> c" using p(1) sched_okD(4) [OF assms(1)] by auto
  then have "pid \<noteq> p_pid (process_table s ! c)"
    using sched_okD(11) [OF assms(1)] p unfolding pids_ok_def inj_on_def by (metis list.set_intros)
  ultimately show ?thesis using p by auto
next
  case False
  then show ?thesis using kill_unknown [OF assms] by auto
qed

theorem process_kill_correct_witness:
  "\<exists>i s s'. process_create 0x100000 [0x61, 0] sched_boot = Some (Some i, s) \<and>
    process_kill 1 s = Some (0, s') \<and> process_kill 0 s = Some (-2, s) \<and> sched_ok s' 0 []"
proof -
  obtain i s where i: "process_create 0x100000 [0x61, 0] sched_boot = Some (Some i, s)" "sched_ok s 0 [i]"
    "run_queue s = Some 0" "p_pid (process_table s ! i) = 1"
    by (rule boot_create)
  have "p_pid (process_table s ! 0) < next_pid s" "p_pid (process_table s ! 0) \<noteq> 1"
    using sched_okD(4,11) [OF i(2)] i(4) by (auto simp: pids_ok_def inj_on_def)
  moreover have "next_pid s = 2"
    using i(1) sched_boot_ok(4) by (auto simp: process_create_def create_with_def Let_def split: option.splits prod.splits if_splits)
  ultimately have z: "p_pid (process_table s ! 0) = 0"
    by (auto simp: word_less_nat_alt word_unat_eq_iff)
  from process_kill_correct [OF i(2,3), of 1] z i(4)
  obtain s' as p bs where "[i] = as @ p # bs" "process_kill 1 s = Some (0, s')" "sched_ok s' 0 (as @ bs)" by auto
  moreover have "process_kill 0 s = Some (-2, s)" using i(3) sched_okD(1) [OF i(2)] z by (simp add: process_kill_def)
  moreover have "as @ bs = []" using \<open>[i] = as @ p # bs\<close> by (cases as) auto
  ultimately show ?thesis using i(1) by metis
qed

section \<open>No sequence of calls breaks the run queue\<close>

definition sched_wf :: "sched \<Rightarrow> bool" where
  "sched_wf s \<longleftrightarrow> (\<exists>c xs. sched_ok s c xs)"

lemma sched_wfI [intro]: "sched_ok s c xs \<Longrightarrow> sched_wf s"
  by (auto simp: sched_wf_def)

lemma sched_wfE: "sched_wf s \<Longrightarrow> (\<And>c xs. sched_ok s c xs \<Longrightarrow> P) \<Longrightarrow> P"
  by (auto simp: sched_wf_def)

lemma process_exit_ok:
  assumes "sched_ok s c xs"
  shows "process_exit s = Some (set_state c PROC_DEAD s) \<and> sched_ok (set_state c PROC_DEAD s) c xs"
proof -
  note D = sched_okD [OF assms]
  have c: "c < length (process_table s)" "c \<notin> set xs" using D(2) by (simp_all add: ring_def)
  have "sched_ok (set_state c PROC_DEAD s) c xs"
    by (rule sched_ok_change [OF assms]) (use D(1,2,9,10) c in \<open>auto simp: upd_nth\<close>)
  then show ?thesis using D(1) by (simp add: process_exit_def set_state_def)
qed

lemma schedule_ok:
  assumes "sched_ok s c xs"
  shows "\<exists>s'. schedule regs s = Some s' \<and> sched_wf s'"
proof (cases "p_state (process_table s ! c) = PROC_RUNNING")
  case True
  show ?thesis
  proof (cases "quantum_count s + 1 < SCHED_QUANTUM")
    case q: True
    have "sched_ok (s\<lparr>quantum_count := quantum_count s + 1\<rparr>) c xs"
      using assms by (simp add: sched_ok_def pids_ok_def stacks_ok_def)
    then show ?thesis using True q sched_okD(1) [OF assms] by (auto simp: schedule_def)
  next
    case False
    from schedule_running_ok [OF assms True False, of regs] show ?thesis by (auto split: option.splits)
  qed
next
  case False
  then have "p_state (process_table s ! c) = PROC_DEAD" using sched_okD(9) [OF assms] by simp
  from schedule_dead_ok [OF assms this, of regs] show ?thesis by (auto split: option.splits)
qed

lemma process_fork_ok:
  assumes "sched_ok s c xs" "next_pid s + 1 \<noteq> 0" "process_fork_stub s = Some (r, s')"
  shows "sched_ok s' c xs \<or> (\<exists>i. sched_ok s' c (i # xs) \<and> p_state (process_table s' ! i) = PROC_ZOMBIE)"
proof -
  let ?n = "[0x66, 0x6F, 0x72, 0x6B, 0x2D, 0x63, 0x68, 0x69, 0x6C, 0x64, 0] :: bytes"
  obtain q t where t: "process_create 0 ?n s = Some (q, t)" "created s c xs (rev (kernel_frame 0)) q t"
    using create_with_created [OF assms(1,2), of id "kernel_frame 0" ?n] by (auto simp: process_create_def kernel_frame_def)
  show ?thesis
  proof (cases q)
    case None
    then show ?thesis using t assms sched_okD(1) [OF assms(1)]
      by (auto simp: process_fork_stub_def process_current_def created_def)
  next
    case (Some i)
    then have i: "sched_ok t c (i # xs)" "p_state (process_table t ! i) = PROC_READY" using t(2) by (auto simp: created_def)
    note D = sched_okD [OF i(1)]
    have ib: "i < length (process_table t)" "i \<noteq> c" "c \<notin> set xs" using D(3,4) D(6) [of i] by auto
    have "sched_ok (set_state i PROC_ZOMBIE t) c (i # xs)"
      by (rule sched_ok_change [OF i(1)]) (use D(1,2,9,10) ib i(2) in \<open>auto simp: upd_nth\<close>)
    moreover have "s' = set_state i PROC_ZOMBIE t"
      using t(1) Some assms sched_okD(1) [OF assms(1)] by (simp add: process_fork_stub_def process_current_def)
    ultimately show ?thesis using ib by (auto simp: upd_nth)
  qed
qed

text \<open>
  One call into the process module. Identifiers are 32 bits wide and never reused before
  they wrap; the relation stops there. A kill of the head of the run queue is left out (see
  \<open>kill_of_head_breaks_ring\<close>).
\<close>

inductive sched_step :: "sched \<Rightarrow> sched \<Rightarrow> bool" where
  tick: "schedule regs s = Some s' \<Longrightarrow> sched_step s s'"
| create: "next_pid s + 1 \<noteq> 0 \<Longrightarrow> process_create entry name s = Some (r, s') \<Longrightarrow> sched_step s s'"
| create_user: "next_pid s + 1 \<noteq> 0 \<Longrightarrow> process_create_user entry sp name s = Some (r, s') \<Longrightarrow> sched_step s s'"
| exit: "process_exit s = Some s' \<Longrightarrow> sched_step s s'"
| fork: "next_pid s + 1 \<noteq> 0 \<Longrightarrow> process_fork_stub s = Some (r, s') \<Longrightarrow> sched_step s s'"
| kill: "run_queue s = Some q \<Longrightarrow> p_pid (process_table s ! q) \<noteq> pid \<Longrightarrow> process_kill pid s = Some (r, s') \<Longrightarrow> sched_step s s'"

lemma sched_step_ok:
  assumes "sched_step s s'" "sched_ok s c xs"
  shows "sched_wf s'"
  using assms
proof (induction rule: sched_step.induct)
  case (tick regs s s')
  then show ?case using schedule_ok [of s c xs regs] by auto
next
  case (create s entry name r s')
  then show ?case using create_with_created [OF create(3,1), of id "kernel_frame entry" name]
    by (auto simp: process_create_def kernel_frame_def created_def split: option.splits)
next
  case (create_user s entry sp name r s')
  then show ?case
    using create_with_created [OF create_user(3,1), of "\<lambda>p. clear_fds (p\<lparr>p_user_page_dir := 0\<rparr>)" "user_frame entry sp" name]
    by (auto simp: process_create_user_def user_frame_def clear_fds_def created_def split: option.splits)
next
  case (exit s s')
  then show ?case using process_exit_ok [OF exit(2)] by auto
next
  case (fork s r s')
  then show ?case using process_fork_ok by blast
next
  case (kill s q pid r s')
  have "process_kill pid s = Some (-2, s) \<or> process_kill pid s = Some (-1, s) \<or>
      (\<exists>as p bs t. process_kill pid s = Some (0, t) \<and> sched_ok t c (as @ bs))"
  proof (cases "\<exists>p \<in> set xs. p_pid (process_table s ! p) = pid")
    case True
    then obtain p where p: "p \<in> set xs" "p_pid (process_table s ! p) = pid" by blast
    have "run_queue s \<noteq> Some p" using kill(1,2) p(2) by auto
    from process_kill_ok [OF kill(4) p(1) this] p(2) show ?thesis by blast
  next
    case False
    then show ?thesis using kill_unknown [OF kill(4,1,2)] by auto
  qed
  then show ?case using kill(3,4) by auto
qed



section \<open>Every ready process gets the processor\<close>

fun run_ticks :: "u32 list \<Rightarrow> sched \<Rightarrow> sched option" where
  "run_ticks [] s = Some s"
| "run_ticks (regs # rs) s = (case schedule regs s of None \<Rightarrow> None | Some s' \<Rightarrow> run_ticks rs s')"

lemma run_ticks_append: "run_ticks (as @ bs) s = (case run_ticks as s of None \<Rightarrow> None | Some s' \<Rightarrow> run_ticks bs s')"
  by (induction as arbitrary: s) (auto split: option.splits)

lemma sched_ok_quantum [simp]: "sched_ok (s\<lparr>quantum_count := n\<rparr>) c xs = sched_ok s c xs"
  by (simp add: sched_ok_def pids_ok_def stacks_ok_def)

text \<open>Within a quantum nothing but the counter moves.\<close>

lemma run_ticks_quantum:
  assumes "sched_ok s c xs" "p_state (process_table s ! c) = PROC_RUNNING" "unat (quantum_count s) + length rs < 5"
  shows "run_ticks rs s = Some (s\<lparr>quantum_count := quantum_count s + of_nat (length rs)\<rparr>)"
  using assms
proof (induction rs arbitrary: s)
  case (Cons r rs)
  have u: "unat (quantum_count s + 1) = unat (quantum_count s) + 1"
    using Cons.prems(3) by (subst unat_plus_small) auto
  then have "quantum_count s + 1 < SCHED_QUANTUM" using Cons.prems(3) by (simp add: word_less_nat_alt)
  then have "schedule r s = Some (s\<lparr>quantum_count := quantum_count s + 1\<rparr>)"
    using Cons.prems(2) sched_okD(1) [OF Cons.prems(1)] by (simp add: schedule_def)
  then show ?case using Cons.IH [of "s\<lparr>quantum_count := quantum_count s + 1\<rparr>"] Cons.prems u
    by (simp add: add.assoc)
qed simp

text \<open>So five ticks at most take the processor from a process when another is ready.\<close>

lemma one_round:
  assumes ok: "sched_ok s c xs" and run: "p_state (process_table s ! c) = PROC_RUNNING" and len: "5 \<le> length rs"
    and q: "quantum_count s < SCHED_QUANTUM" and ready: "\<exists>i \<in> set xs. p_state (process_table s ! i) = PROC_READY"
  shows "\<exists>n s' as k bs. n \<le> 5 \<and> run_ticks (take n rs) s = Some s' \<and> xs = as @ k # bs \<and>
    (\<forall>i \<in> set as. p_state (process_table s ! i) \<noteq> PROC_READY) \<and> sched_ok s' k (bs @ c # as) \<and>
    p_state (process_table s' ! k) = PROC_RUNNING \<and> quantum_count s' = 0 \<and>
    (\<forall>j. j \<noteq> c \<longrightarrow> j \<noteq> k \<longrightarrow> process_table s' ! j = process_table s ! j)"
proof -
  define m where "m = 4 - unat (quantum_count s)"
  define t where "t = s\<lparr>quantum_count := quantum_count s + of_nat m\<rparr>"
  have q': "unat (quantum_count s) < 5" using q by (simp add: word_less_nat_alt)
  have ticks: "run_ticks (take m rs) s = Some t"
    using run_ticks_quantum [OF ok run, of "take m rs"] len q' by (simp add: t_def m_def)
  have "quantum_count s + of_nat m = 4"
  proof (rule word_unat_eq_iff [THEN iffD2])
    have o: "unat (of_nat m :: u32) = m" by (rule unat_of_nat_small) (simp add: m_def)
    show "unat (quantum_count s + of_nat m) = unat (4 :: u32)"
      using q' by (subst unat_plus_small) (simp_all only: o, simp_all add: m_def)
  qed
  then have tq: "\<not> quantum_count t + 1 < SCHED_QUANTUM" by (simp add: t_def)
  have t: "sched_ok t c xs" "p_state (process_table t ! c) = PROC_RUNNING" "process_table t = process_table s"
    using ok run by (simp_all add: t_def)
  obtain k where k: "first_ready (process_table s) xs = Some k"
    using ready first_ready_None [of "process_table s" xs] by auto
  obtain s' as bs where s': "schedule (rs ! m) t = Some s'" "quantum_count s' = 0"
    "\<forall>j. j \<noteq> c \<longrightarrow> j \<noteq> k \<longrightarrow> process_table s' ! j = process_table s ! j"
    "xs = as @ k # bs" "\<forall>i \<in> set as. p_state (process_table s ! i) \<noteq> PROC_READY" "sched_ok s' k (bs @ c # as)"
    "p_state (process_table s' ! k) = PROC_RUNNING"
    using schedule_running_ok [OF t(1,2) tq, of "rs ! m"] k by (auto simp: t(3))
  have "take (Suc m) rs = take m rs @ [rs ! m]" using len by (intro take_Suc_conv_app_nth) (simp add: m_def)
  then have "run_ticks (take (Suc m) rs) s = Some s'" using ticks s'(1) by (simp add: run_ticks_append)
  moreover have "Suc m \<le> 5" by (simp add: m_def)
  ultimately show ?thesis using s' by blast
qed

lemma ready_gets_cpu:
  assumes "sched_ok s c (as @ p # bs)" "p_state (process_table s ! c) = PROC_RUNNING" "quantum_count s < SCHED_QUANTUM"
    "p_state (process_table s ! p) = PROC_READY" "5 * (length as + 1) \<le> length rs"
  shows "\<exists>n s'. n \<le> 5 * (length as + 1) \<and> run_ticks (take n rs) s = Some s' \<and> current_process s' = Some p"
  using assms
proof (induction "length as" arbitrary: s c as bs rs rule: less_induct)
  case less
  note D = sched_okD [OF less.prems(1)]
  have p: "p \<notin> set as" "p \<noteq> c" "p \<notin> set bs" using D(4) by auto
  obtain n s' as0 k bs0 where r: "n \<le> 5" "run_ticks (take n rs) s = Some s'" "as @ p # bs = as0 @ k # bs0"
    "\<forall>i \<in> set as0. p_state (process_table s ! i) \<noteq> PROC_READY" "sched_ok s' k (bs0 @ c # as0)"
    "p_state (process_table s' ! k) = PROC_RUNNING" "quantum_count s' = 0"
    "\<forall>j. j \<noteq> c \<longrightarrow> j \<noteq> k \<longrightarrow> process_table s' ! j = process_table s ! j"
    using one_round [OF less.prems(1,2) _ less.prems(3), of rs] less.prems(4,5) by auto
  show ?case
  proof (cases "k = p")
    case True
    then show ?thesis using r(1,2) sched_okD(1) [OF r(5)] by (intro exI [of _ n] exI [of _ s']) simp
  next
    case False
    have "p \<in> set (as0 @ k # bs0)" using r(3) by (metis in_set_conv_decomp)
    then have "p \<in> set bs0" using r(4) less.prems(4) False by auto
    then obtain mid bs1 where mid: "bs0 = mid @ p # bs1" "p \<notin> set mid" by (meson split_list_first)
    have "as @ p # bs = (as0 @ k # mid) @ p # bs1" using r(3) mid by simp
    moreover have "p \<notin> set (as0 @ k # mid)" using r(4) less.prems(4) False mid by auto
    ultimately have as: "as = as0 @ k # mid" using append_Cons_eq_iff [OF p(1,3), of "as0 @ k # mid" bs1] by simp
    have "5 * (length mid + 1) \<le> length (drop n rs)" using less.prems(5) r(1) as by simp
    moreover have "sched_ok s' k (mid @ p # (bs1 @ c # as0))" using r(5) mid by simp
    moreover have "p_state (process_table s' ! p) = PROC_READY" using r(8) p(2) False less.prems(4) by simp
    ultimately obtain n' s'' where n': "n' \<le> 5 * (length mid + 1)" "run_ticks (take n' (drop n rs)) s' = Some s''"
      "current_process s'' = Some p"
      using less.hyps [of mid s' k "bs1 @ c # as0" "drop n rs"] as r(6,7) by auto
    have "run_ticks (take (n + n') rs) s = Some s''" using r(2) n'(2) by (simp add: take_add run_ticks_append)
    moreover have "n + n' \<le> 5 * (length as + 1)" using r(1) n'(1) as by simp
    ultimately show ?thesis using n'(3) by blast
  qed
qed

text \<open>
  C8. Liveness: under a steady stream of timer ticks a READY process that is at position
  \<open>j\<close> behind the current one gets the processor within \<open>5 * (j + 1)\<close> ticks, so at most
  75 for the 16 slots of the table.
\<close>

theorem ready_process_scheduled:
  assumes "sched_ok s c xs" "p_state (process_table s ! c) = PROC_RUNNING" "quantum_count s < SCHED_QUANTUM"
    "j < length xs" "p_state (process_table s ! (xs ! j)) = PROC_READY" "75 \<le> length rs"
  shows "\<exists>n s'. n \<le> 5 * (j + 1) \<and> n \<le> 75 \<and> run_ticks (take n rs) s = Some s' \<and> current_process s' = Some (xs ! j)"
proof -
  have xs: "xs = take j xs @ xs ! j # drop (Suc j) xs" by (rule id_take_nth_drop [OF assms(4)])
  have "set (c # xs) \<subseteq> {..<16}" using sched_okD(6) [OF assms(1)] by auto
  then have "card (set (c # xs)) \<le> card {..<16 :: nat}" by (intro card_mono) auto
  then have "length xs \<le> 15" using distinct_card [OF sched_okD(4) [OF assms(1)]] by simp
  then have j: "5 * (length (take j xs) + 1) \<le> 75" "length (take j xs) = j" using assms(4) by auto
  have ok: "sched_ok s c (take j xs @ xs ! j # drop (Suc j) xs)" using assms(1) xs by simp
  have "5 * (length (take j xs) + 1) \<le> length rs" using j(1) assms(6) by linarith
  from ready_gets_cpu [OF ok assms(2,3,5) this] j show ?thesis by (metis le_trans)
qed

theorem ready_process_scheduled_witness:
  "\<exists>i s n s'. process_create 0x100000 [0x61, 0] sched_boot = Some (Some i, s) \<and> n \<le> 5 \<and>
    run_ticks (take n (replicate 75 0x9000)) s = Some s' \<and> current_process s' = Some i"
proof -
  obtain i s where i: "process_create 0x100000 [0x61, 0] sched_boot = Some (Some i, s)" "sched_ok s 0 [i]"
    "p_state (process_table s ! i) = PROC_READY" "p_state (process_table s ! 0) = PROC_RUNNING" "quantum_count s = 0"
    by (rule boot_create)
  have "p_state (process_table s ! ([i] ! 0)) = PROC_READY" "quantum_count s < SCHED_QUANTUM" "0 < length [i]" using i by simp_all
  from ready_process_scheduled [OF i(2,4) this(2,3,1), of "replicate 75 0x9000"]
  obtain n s' where "n \<le> 5" "run_ticks (take n (replicate 75 0x9000)) s = Some s'" "current_process s' = Some i" by auto
  then show ?thesis using i(1) by blast
qed

section \<open>The process list\<close>

text \<open>
  \<open>process_list\<close> returns, up to the caller's limit, every slot in use exactly once, the
  head of the run queue first.
\<close>

theorem process_list_complete:
  assumes "sched_ok s c xs" "run_queue s = Some q"
  shows "\<exists>ps. process_list s maxn = Some (int (min (nat maxn) (length ps)), take (nat maxn) ps) \<and> hd ps = q \<and>
    distinct ps \<and> set ps = {i. i < MAX_PROCS \<and> p_state (process_table s ! i) \<noteq> PROC_UNUSED}"
proof -
  have "q \<in> set (c # xs)" using sched_okD(8) [OF assms(1)] assms(2) by auto
  from ring_from [OF sched_okD(2) [OF assms(1)] this] obtain zs where
    zs: "ring (process_table s) q zs" "set (q # zs) = set (c # xs)" by blast
  have "list_walk (process_table s) q maxn q [] = Some (take (nat maxn) (q # zs))"
    using list_walk_path [of "process_table s" q zs q maxn "[]"] zs(1) by (simp add: ring_def)
  then have "process_list s maxn = Some (int (min (nat maxn) (length (q # zs))), take (nat maxn) (q # zs))"
    using assms(2) by (simp add: process_list_def min.commute)
  moreover have "set (q # zs) = {i. i < MAX_PROCS \<and> p_state (process_table s ! i) \<noteq> PROC_UNUSED}"
    unfolding zs(2) using sched_okD(6,7) [OF assms(1)] by blast
  moreover have "distinct (q # zs)" using zs(1) by (simp add: ring_def)
  ultimately show ?thesis by (intro exI [of _ "q # zs"]) simp
qed

theorem process_list_complete_witness:
  "process_list sched_boot 64 = Some (1, [0])"
proof -
  obtain ps where ps: "process_list sched_boot 64 = Some (int (min (nat 64) (length ps)), take (nat 64) ps)" "hd ps = 0"
      "distinct ps" "set ps = {i. i < MAX_PROCS \<and> p_state (process_table sched_boot ! i) \<noteq> PROC_UNUSED}"
    using process_list_complete [OF sched_boot_ok(1,6), of 64] by blast
  have "set ps = {0}" unfolding ps(4) using sched_okD(6,7) [OF sched_boot_ok(1)] sched_boot_ok(2) by auto
  then have "ps = [0]" using ps(3) by (metis distinct_singleton empty_set list.set(2) set_eq_iff distinct.simps(2) list.exhaust list.set_intros(1) singletonD insert_iff set_empty)
  then show ?thesis using ps(1) by simp
qed

section \<open>Where the run queue does break\<close>

text \<open>
  Killing the head of the run queue while another process runs: \<open>prev\<close> starts at the victim
  itself, so the victim's predecessor goes on pointing at the emptied slot, whose own
  \<open>next\<close> is now NULL, and the next expiry of a quantum follows that pointer.
\<close>

lemma kill_of_head_breaks_ring:
  assumes "sched_ok s c [p]" "run_queue s = Some p" "p_state (process_table s ! c) = PROC_RUNNING"
  shows "\<exists>s'. process_kill (p_pid (process_table s ! p)) s = Some (0, s') \<and>
    p_next (process_table s' ! c) = Some p \<and> p_next (process_table s' ! p) = None \<and>
    schedule regs (s'\<lparr>quantum_count := 4\<rparr>) = None"
proof -
  note D = sched_okD [OF assms(1)]
  have p: "p \<noteq> c" "p < 16" "c < 16" "p_next (process_table s ! c) = Some p" using D(4-6) by auto
  have pid: "p_pid (process_table s ! p) \<noteq> p_pid (process_table s ! c)"
    using D(11) p(1) unfolding pids_ok_def inj_on_def by (metis list.set_intros)
  define t where "t = s\<lparr>process_table := upd p (\<lambda>q. q\<lparr>p_next := p_next (process_table s ! p)\<rparr>) (process_table s), run_queue := p_next (process_table s ! p)\<rparr>"
  define s' where "s' = reset_process_slot p t"
  have kill: "process_kill (p_pid (process_table s ! p)) s = Some (0, s')"
    using assms(2) D(1,3) pid p(1,2) by (simp add: process_kill_def Let_def kill_search.simps s'_def t_def upd_nth)
  have tab: "process_table s' ! j = (if j = p then reset_slot (process_table t ! p) else process_table s ! j)" for j
    using p D(3) by (simp add: s'_def t_def upd_nth)
  have len: "length (process_table s') = 16" using D(3) by (simp add: s'_def t_def)
  have cur: "current_process s' = Some c" using D(1) by (simp add: s'_def t_def)
  have "find_candidate tb c p = None" if "p_state (tb ! p) = PROC_UNUSED" "p_next (tb ! p) = None" for tb
    using that p(1) by (simp add: find_candidate.simps)
  then have "schedule regs (s'\<lparr>quantum_count := 4\<rparr>) = None"
    using cur len p assms(3) tab by (simp add: schedule_def Let_def upd_nth)
  then show ?thesis using kill tab p by auto
qed

text \<open>
  A process that has called \<open>process_exit\<close> while no other process is READY is put back to
  RUNNING by the next tick: the exit is forgotten and its slot never reclaimed.
\<close>

lemma exited_process_revived:
  assumes "sched_ok s c xs" "p_state (process_table s ! c) = PROC_DEAD"
    "\<forall>i \<in> set xs. p_state (process_table s ! i) \<noteq> PROC_READY"
  shows "schedule regs s = Some (set_state c PROC_RUNNING s)"
  using schedule_dead_ok [OF assms(1,2), of regs] assms(3) by (simp add: first_ready_None [THEN iffD2])

end
