(* ===== verification/Ipc.thy ===== *)
theory Ipc
  imports Fifo Process
begin

text \<open>
  Inter-process communication, \<open>kernel/ipc/ipc.c\<close>: spin locks, mutexes, pipes and
  signals. A call made with the spin lock taken waits for another process to release it; run
  to its end alone it has no result (\<open>None\<close>). The interleaving of several processes in
  the mutex code is a step relation, one shared access per step.
\<close>

section \<open>Spin locks\<close>

record spinlock =
  sl_locked :: u32

definition spin_lock_init :: "spinlock \<Rightarrow> spinlock" where
  "spin_lock_init lock = lock\<lparr>sl_locked := 0\<rparr>"

text \<open>One round of the loop: the atomic exchange, and whether the lock was free.\<close>

definition test_and_set :: "spinlock \<Rightarrow> bool \<times> spinlock" where
  "test_and_set lock = (sl_locked lock = 0, lock\<lparr>sl_locked := 1\<rparr>)"

definition spin_lock :: "spinlock \<Rightarrow> spinlock option" where
  "spin_lock lock = (case test_and_set lock of (free, lock) \<Rightarrow> if free then Some lock else None)"

definition spin_unlock :: "spinlock \<Rightarrow> spinlock" where
  "spin_unlock lock = lock\<lparr>sl_locked := 0\<rparr>"

section \<open>Pipes\<close>

abbreviation "PIPE_SIZE \<equiv> (256 :: u32)"

record pipe =
  p_buffer :: bytes
  p_read_idx :: u32
  p_write_idx :: u32
  p_size :: u32
  p_lock :: spinlock

definition pipe_create :: "pipe \<Rightarrow> pipe" where
  "pipe_create p = p\<lparr>p_buffer := replicate (unat PIPE_SIZE) 0, p_read_idx := 0, p_write_idx := 0, p_size := 0,
     p_lock := spin_lock_init (p_lock p)\<rparr>"

text \<open>One round of the read loop and of the write loop.\<close>

definition pipe_get :: "pipe \<Rightarrow> (u8 \<times> pipe) option" where
  "pipe_get p =
     (if 0 < p_size p
      then Some (p_buffer p ! unat (p_read_idx p),
                 p\<lparr>p_read_idx := (p_read_idx p + 1) mod PIPE_SIZE, p_size := p_size p - 1\<rparr>)
      else None)"

definition pipe_put :: "u8 \<Rightarrow> pipe \<Rightarrow> pipe" where
  "pipe_put c p =
     (if p_size p < PIPE_SIZE
      then p\<lparr>p_buffer := (p_buffer p)[unat (p_write_idx p) := c],
             p_write_idx := (p_write_idx p + 1) mod PIPE_SIZE, p_size := p_size p + 1\<rparr>
      else p)"

text \<open>The loops; the first argument is \<open>len - n\<close>. The read loop returns the bytes it stored.\<close>

fun pipe_read_loop :: "nat \<Rightarrow> pipe \<Rightarrow> bytes \<times> pipe" where
  "pipe_read_loop 0 p = ([], p)"
| "pipe_read_loop (Suc k) p =
     (case pipe_get p of
        None \<Rightarrow> ([], p)
      | Some (c, p) \<Rightarrow> (let (cs, p) = pipe_read_loop k p in (c # cs, p)))"

fun pipe_write_loop :: "nat \<Rightarrow> bytes \<Rightarrow> pipe \<Rightarrow> (nat \<times> pipe) option" where
  "pipe_write_loop 0 buf p = Some (0, p)"
| "pipe_write_loop (Suc k) buf p =
     (if p_size p < PIPE_SIZE
      then (case buf of
              [] \<Rightarrow> None
            | c # cs \<Rightarrow> map_option (\<lambda>(n, p). (Suc n, p)) (pipe_write_loop k cs (pipe_put c p)))
      else Some (0, p))"

text \<open>
  The calls, for pointers that are not NULL: the result code, for the read the bytes stored in
  the buffer, and the pipe. The buffer of the write is the bytes from the pointer to the end of
  its object; reading past them has no result.
\<close>

definition pipe_read :: "pipe \<Rightarrow> u32 \<Rightarrow> ((int \<times> bytes) \<times> pipe) option" where
  "pipe_read p len =
     (case spin_lock (p_lock p) of
        None \<Rightarrow> None
      | Some l \<Rightarrow>
          let (cs, p) = pipe_read_loop (unat len) (p\<lparr>p_lock := l\<rparr>)
          in Some ((int (length cs), cs), p\<lparr>p_lock := spin_unlock (p_lock p)\<rparr>))"

definition pipe_write :: "pipe \<Rightarrow> bytes \<Rightarrow> u32 \<Rightarrow> (int \<times> pipe) option" where
  "pipe_write p buf len =
     (case spin_lock (p_lock p) of
        None \<Rightarrow> None
      | Some l \<Rightarrow>
          map_option (\<lambda>(n, p). (int n, p\<lparr>p_lock := spin_unlock (p_lock p)\<rparr>))
            (pipe_write_loop (unat len) buf (p\<lparr>p_lock := l\<rparr>)))"

section \<open>A pipe is a bounded FIFO of 256 bytes\<close>

definition pipe_inv :: "pipe \<Rightarrow> bool" where
  "pipe_inv p \<longleftrightarrow> length (p_buffer p) = 256 \<and> p_read_idx p < 256 \<and> p_size p \<le> 256 \<and>
     unat (p_write_idx p) = (unat (p_read_idx p) + unat (p_size p)) mod 256"

definition pipe_bytes :: "pipe \<Rightarrow> bytes" where
  "pipe_bytes p = window (p_buffer p) (unat (p_read_idx p)) (unat (p_size p))"

lemma length_pipe_bytes [simp]: "length (pipe_bytes p) = unat (p_size p)"
  by (simp add: pipe_bytes_def)

lemma unat_next_pipe: "unat ((w + 1) mod PIPE_SIZE :: u32) = Suc (unat w) mod 256"
proof -
  have "unat ((w + 1) mod PIPE_SIZE) = ((unat w + 1) mod 2 ^ 32) mod 256"
    by (simp add: unat_mod_distrib unat_word_ariths)
  also have "\<dots> = (unat w + 1) mod 256" by (rule mod_mod_cancel) simp
  finally show ?thesis by simp
qed

lemma pipe_put_inv: "pipe_inv p \<Longrightarrow> pipe_inv (pipe_put c p)"
  and pipe_put_bytes: "pipe_inv p \<Longrightarrow> pipe_bytes (pipe_put c p) = (if p_size p < 256 then pipe_bytes p @ [c] else pipe_bytes p)"
proof -
  assume inv: "pipe_inv p"
  have u: "unat (p_size p + 1) = Suc (unat (p_size p))" if "p_size p < 256"
    using that by (subst unat_plus_small) (auto simp: word_less_nat_alt)
  show "pipe_inv (pipe_put c p)"
    using inv u by (auto simp: pipe_inv_def pipe_put_def unat_next_pipe word_less_nat_alt word_le_nat_alt mod_Suc_eq)
  show "pipe_bytes (pipe_put c p) = (if p_size p < 256 then pipe_bytes p @ [c] else pipe_bytes p)"
    using inv u window_snoc [of "unat (p_size p)" "p_buffer p" "unat (p_read_idx p)" c]
    by (auto simp: pipe_inv_def pipe_put_def pipe_bytes_def word_less_nat_alt)
qed

lemma pipe_get_None: "pipe_get p = None \<longleftrightarrow> pipe_bytes p = []"
proof -
  have "pipe_bytes p = [] \<longleftrightarrow> p_size p = 0"
    by (metis length_0_conv length_pipe_bytes unat_eq_zero)
  then show ?thesis by (simp add: pipe_get_def word_neq_0_conv [symmetric])
qed

lemma pipe_get_Some:
  assumes "pipe_inv p" "pipe_get p = Some (c, p')"
  shows "pipe_inv p' \<and> pipe_bytes p = c # pipe_bytes p'"
proof -
  have s: "0 < p_size p" and p': "c = p_buffer p ! unat (p_read_idx p)"
    "p' = p\<lparr>p_read_idx := (p_read_idx p + 1) mod PIPE_SIZE, p_size := p_size p - 1\<rparr>"
    using assms(2) by (auto simp: pipe_get_def split: if_splits)
  have u: "unat (p_size p) = Suc (unat (p_size p - 1))"
    using s by (subst unat_minus_le) (auto simp: word_less_nat_alt word_le_nat_alt)
  have "p_size p - 1 \<le> 256" using assms(1) u by (simp add: pipe_inv_def word_le_nat_alt)
  moreover have "(Suc (unat (p_read_idx p)) mod 256 + unat (p_size p - 1)) mod 256 = (unat (p_read_idx p) + unat (p_size p)) mod 256"
    unfolding u by (simp add: mod_simps)
  ultimately have "pipe_inv p'"
    using assms(1) unfolding p'(2) by (simp add: pipe_inv_def unat_next_pipe word_less_nat_alt)
  moreover have "pipe_bytes p = c # pipe_bytes p'"
    using assms(1) window_Suc [of "p_buffer p" "unat (p_read_idx p)" "unat (p_size p - 1)"]
    unfolding p' pipe_bytes_def u by (simp add: pipe_inv_def unat_next_pipe word_less_nat_alt)
  ultimately show ?thesis ..
qed

interpretation pipe_fifo: bounded_fifo pipe_put pipe_get pipe_bytes pipe_inv 256
proof (unfold_locales, goal_cases)
  case (1 q x)
  then show ?case by (rule pipe_put_inv)
next
  case (2 q x)
  then show ?case by (simp add: pipe_put_bytes word_less_nat_alt)
next
  case (3 q)
  then show ?case by (simp add: pipe_get_None)
next
  case (4 q x q')
  then show ?case by (rule pipe_get_Some)
next
  case (5 q)
  then show ?case by (simp add: pipe_inv_def word_le_nat_alt)
qed

lemma pipe_write_loop_ok:
  "pipe_inv p \<Longrightarrow> k \<le> length buf \<Longrightarrow>
     \<exists>n p'. pipe_write_loop k buf p = Some (n, p') \<and> n = min k (256 - length (pipe_bytes p)) \<and> pipe_inv p' \<and>
       pipe_bytes p' = pipe_bytes p @ take n buf \<and> p_lock p' = p_lock p"
proof (induction k arbitrary: buf p)
  case (Suc k)
  show ?case
  proof (cases "p_size p < PIPE_SIZE")
    case True
    obtain c cs where b: "buf = c # cs" using Suc.prems(2) by (cases buf) auto
    have l: "unat (p_size p) < 256" using True by (simp add: word_less_nat_alt)
    have q: "pipe_inv (pipe_put c p)" "pipe_bytes (pipe_put c p) = pipe_bytes p @ [c]" "p_lock (pipe_put c p) = p_lock p"
      using Suc.prems(1) True by (simp_all add: pipe_put_inv pipe_put_bytes) (simp add: pipe_put_def)
    from Suc.IH [OF q(1), of cs] Suc.prems(2) b obtain n p' where
      "pipe_write_loop k cs (pipe_put c p) = Some (n, p')" "n = min k (256 - length (pipe_bytes (pipe_put c p)))"
      "pipe_inv p'" "pipe_bytes p' = pipe_bytes (pipe_put c p) @ take n cs" "p_lock p' = p_lock (pipe_put c p)" by auto
    then show ?thesis using True l b q(2,3) by (auto simp del: length_pipe_bytes) (auto simp: min_def)
  next
    case False
    then have "unat (p_size p) = 256" using Suc.prems(1) by (simp add: pipe_inv_def word_less_nat_alt word_le_nat_alt)
    then show ?thesis using False Suc.prems(1) by simp
  qed
qed simp

lemma pipe_read_loop_ok:
  "pipe_inv p \<Longrightarrow> pipe_read_loop k p = (cs, p') \<Longrightarrow>
     cs = take k (pipe_bytes p) \<and> pipe_inv p' \<and> pipe_bytes p' = drop k (pipe_bytes p) \<and> p_lock p' = p_lock p"
proof (induction k arbitrary: p cs p')
  case (Suc k)
  show ?case
  proof (cases "pipe_get p")
    case None
    then show ?thesis using Suc.prems pipe_get_None [of p] by simp
  next
    case (Some r)
    obtain c q where r: "r = (c, q)" by force
    note q = pipe_get_Some [OF Suc.prems(1) Some [unfolded r]]
    have l: "p_lock q = p_lock p" using Some r by (auto simp: pipe_get_def split: if_splits)
    obtain ds q' where ds: "pipe_read_loop k q = (ds, q')" by force
    show ?thesis using Suc.IH [OF _ ds] q l Suc.prems(2) ds Some r by simp
  qed
qed simp

lemma pipe_lock_frame [simp]:
  "pipe_inv (p\<lparr>p_lock := l\<rparr>) = pipe_inv p" "pipe_bytes (p\<lparr>p_lock := l\<rparr>) = pipe_bytes p"
  by (simp_all add: pipe_inv_def pipe_bytes_def)

text \<open>A pipe no process is inside of: the invariant holds and the lock is free.\<close>

definition pipe_ok :: "pipe \<Rightarrow> bool" where
  "pipe_ok p \<longleftrightarrow> pipe_inv p \<and> sl_locked (p_lock p) = 0"

lemma spin_lock_free: "sl_locked l = 0 \<Longrightarrow> spin_lock l = Some (l\<lparr>sl_locked := 1\<rparr>)"
  by (simp add: spin_lock_def test_and_set_def)

lemma pipe_write_ok:
  assumes "pipe_ok p" "unat len \<le> length buf"
  shows "\<exists>p'. pipe_write p buf len = Some (int (min (unat len) (256 - length (pipe_bytes p))), p') \<and> pipe_ok p' \<and>
    pipe_bytes p' = pipe_bytes p @ take (min (unat len) (256 - length (pipe_bytes p))) buf"
proof -
  let ?l = "(p_lock p)\<lparr>sl_locked := 1\<rparr>"
  have "pipe_inv (p\<lparr>p_lock := ?l\<rparr>)" using assms(1) by (simp add: pipe_ok_def)
  from pipe_write_loop_ok [OF this assms(2)] assms(1) show ?thesis
    by (auto simp: pipe_write_def pipe_ok_def spin_lock_free spin_unlock_def simp del: length_pipe_bytes)
qed

lemma pipe_read_ok:
  assumes "pipe_ok p"
  shows "\<exists>p'. pipe_read p len = Some ((int (min (unat len) (length (pipe_bytes p))), take (unat len) (pipe_bytes p)), p') \<and>
    pipe_ok p' \<and> pipe_bytes p' = drop (unat len) (pipe_bytes p)"
proof -
  obtain cs q where r: "pipe_read_loop (unat len) (p\<lparr>p_lock := (p_lock p)\<lparr>sl_locked := 1\<rparr>\<rparr>) = (cs, q)" by force
  have "pipe_inv (p\<lparr>p_lock := (p_lock p)\<lparr>sl_locked := 1\<rparr>\<rparr>)" using assms by (simp add: pipe_ok_def)
  from pipe_read_loop_ok [OF this r] r assms show ?thesis
    by (auto simp: pipe_read_def pipe_ok_def spin_lock_free spin_unlock_def min.commute)
qed

lemma pipe_create_ok: "pipe_ok (pipe_create p)" and pipe_create_bytes: "pipe_bytes (pipe_create p) = []"
  by (simp_all add: pipe_ok_def pipe_create_def pipe_inv_def pipe_bytes_def spin_lock_init_def)

section \<open>Any use of a pipe is a byte stream\<close>

datatype pipe_op = PWrite bytes | PRead u32

text \<open>A run of calls: all bytes the writes accepted, and all bytes the reads returned.\<close>

fun pipe_run :: "pipe_op list \<Rightarrow> pipe \<Rightarrow> ((bytes \<times> bytes) \<times> pipe) option" where
  "pipe_run [] p = Some (([], []), p)"
| "pipe_run (PWrite bs # ops) p =
     (case pipe_write p bs (of_nat (length bs)) of
        None \<Rightarrow> None
      | Some (n, p) \<Rightarrow> map_option (\<lambda>((i, out), p). ((take (nat n) bs @ i, out), p)) (pipe_run ops p))"
| "pipe_run (PRead len # ops) p =
     (case pipe_read p len of
        None \<Rightarrow> None
      | Some ((_, bs), p) \<Rightarrow> map_option (\<lambda>((i, out), p). ((i, bs @ out), p)) (pipe_run ops p))"

text \<open>
  C12. A pipe is a lossless byte stream: in any sequence of reads and writes of any lengths every
  call returns, and the bytes queued before followed by those the writes accepted are, in order, the
  bytes the reads returned followed by those still queued; the pipe never holds more than 256.
\<close>

theorem pipe_is_stream:
  assumes "pipe_ok p" "\<forall>bs. PWrite bs \<in> set ops \<longrightarrow> length bs < 2 ^ 32"
  shows "\<exists>i out p'. pipe_run ops p = Some ((i, out), p') \<and> pipe_ok p' \<and>
    pipe_bytes p @ i = out @ pipe_bytes p' \<and> length (pipe_bytes p') \<le> 256"
  using assms
proof (induction ops arbitrary: p)
  case Nil
  then show ?case by (simp add: pipe_ok_def pipe_inv_def word_le_nat_alt)
next
  case (Cons op ops)
  have rest: "\<forall>bs. PWrite bs \<in> set ops \<longrightarrow> length bs < 2 ^ 32" using Cons.prems(2) by simp
  show ?case
  proof (cases op)
    case (PWrite bs)
    let ?n = "min (length bs) (256 - length (pipe_bytes p))"
    have "unat (of_nat (length bs) :: u32) = length bs"
      using Cons.prems(2) PWrite by (intro unat_of_nat_small) simp
    with pipe_write_ok [OF Cons.prems(1), of "of_nat (length bs)" bs] obtain q where
      q: "pipe_write p bs (of_nat (length bs)) = Some (int ?n, q)" "pipe_ok q" "pipe_bytes q = pipe_bytes p @ take ?n bs"
      by (metis le_refl)
    from Cons.IH [OF q(2) rest] obtain i out p' where
      ih: "pipe_run ops q = Some ((i, out), p')" "pipe_ok p'" "pipe_bytes q @ i = out @ pipe_bytes p'" "length (pipe_bytes p') \<le> 256"
      by blast
    have "pipe_run (op # ops) p = Some ((take ?n bs @ i, out), p')" using PWrite q(1) ih(1) by simp
    moreover have "pipe_bytes p @ (take ?n bs @ i) = out @ pipe_bytes p'" using ih(3) unfolding q(3) by simp
    ultimately show ?thesis using ih(2,4) by blast
  next
    case (PRead len)
    from pipe_read_ok [OF Cons.prems(1), of len] obtain r q where
      q: "pipe_read p len = Some ((r, take (unat len) (pipe_bytes p)), q)" "pipe_ok q" "pipe_bytes q = drop (unat len) (pipe_bytes p)"
      by blast
    from Cons.IH [OF q(2) rest] obtain i out p' where
      ih: "pipe_run ops q = Some ((i, out), p')" "pipe_ok p'" "pipe_bytes q @ i = out @ pipe_bytes p'" "length (pipe_bytes p') \<le> 256"
      by blast
    have "pipe_run (op # ops) p = Some ((i, take (unat len) (pipe_bytes p) @ out), p')" using PRead q(1) ih(1) by simp
    moreover have "pipe_bytes p @ i = (take (unat len) (pipe_bytes p) @ out) @ pipe_bytes p'"
      using ih(3) unfolding q(3) by (metis append.assoc append_take_drop_id)
    ultimately show ?thesis using ih(2,4) by blast
  qed
qed

definition pipe_boot :: pipe where
  "pipe_boot = pipe_create \<lparr>p_buffer = [], p_read_idx = 0, p_write_idx = 0, p_size = 0, p_lock = \<lparr>sl_locked = 0\<rparr>\<rparr>"

theorem pipe_is_stream_witness:
  "\<exists>i out p'. pipe_run [PWrite [1, 2, 3], PRead 2, PWrite [4], PRead 9] pipe_boot = Some ((i, out), p') \<and>
    i = out @ pipe_bytes p'"
proof -
  have "\<forall>bs. PWrite bs \<in> set [PWrite [1, 2, 3], PRead 2, PWrite [4], PRead 9] \<longrightarrow> length bs < 2 ^ 32" by auto
  from pipe_is_stream [OF pipe_create_ok this, of "\<lparr>p_buffer = [], p_read_idx = 0, p_write_idx = 0, p_size = 0, p_lock = \<lparr>sl_locked = 0\<rparr>\<rparr>"]
  show ?thesis by (auto simp: pipe_boot_def pipe_create_bytes)
qed

section \<open>Signals\<close>

abbreviation "SIGKILL \<equiv> (9 :: u32)"

definition send_signal :: "u32 \<Rightarrow> u32 \<Rightarrow> sched \<Rightarrow> (int \<times> sched) option" where
  "send_signal pid sig s = (if sig = SIGKILL then process_kill pid s else Some (0, s))"

definition handle_signal :: "u32 \<Rightarrow> sched \<Rightarrow> sched option" where
  "handle_signal sig s = (if sig = SIGKILL then process_exit s else Some s)"

end
