(* ===== verification/Mutex.thy ===== *)
theory Mutex
  imports Ipc
begin

text \<open>
  The mutex of \<open>kernel/ipc/ipc.c\<close>. First the two calls as they run undisturbed, then the
  same code cut into steps with one access to shared memory each, and the interleavings of any
  number of processes that take such steps. The invariant shows mutual exclusion; the two
  views are related by the lemmas on solo runs.
\<close>

record mutex =
  m_guard :: spinlock
  m_locked :: u32
  m_owner_pid :: u32
  m_waiters :: "u32 list"
  m_waiter_count :: u32

definition mutex_init :: "mutex \<Rightarrow> mutex" where
  "mutex_init m = m\<lparr>m_guard := spin_lock_init (m_guard m), m_locked := 0, m_owner_pid := 0, m_waiter_count := 0,
     m_waiters := replicate 16 0\<rparr>"

section \<open>The calls, undisturbed\<close>

definition add_waiter :: "u32 \<Rightarrow> mutex \<Rightarrow> mutex" where
  "add_waiter pid m =
     (if m_waiter_count m < 16
      then m\<lparr>m_waiters := (m_waiters m)[unat (m_waiter_count m) := pid], m_waiter_count := m_waiter_count m + 1\<rparr>
      else m)"

text \<open>One round of the loop of \<open>mutex_lock\<close>; \<open>False\<close> when it goes on to \<open>hlt\<close>.\<close>

definition mutex_lock_round :: "u32 \<Rightarrow> mutex \<Rightarrow> (bool \<times> mutex) option" where
  "mutex_lock_round pid m =
     (case spin_lock (m_guard m) of
        None \<Rightarrow> None
      | Some g \<Rightarrow>
          let m = m\<lparr>m_guard := g\<rparr> in
          if m_locked m = 0 then
            let m = m\<lparr>m_locked := 1, m_owner_pid := pid\<rparr>
            in Some (True, m\<lparr>m_guard := spin_unlock (m_guard m)\<rparr>)
          else
            let m = add_waiter pid m
            in Some (False, m\<lparr>m_guard := spin_unlock (m_guard m)\<rparr>))"

text \<open>A caller that has to wait returns only when another process unlocks.\<close>

definition mutex_lock :: "sched \<Rightarrow> mutex \<Rightarrow> mutex option" where
  "mutex_lock s m =
     (let pid = (case process_current s of None \<Rightarrow> 0 | Some c \<Rightarrow> p_pid (process_table s ! c)) in
      case mutex_lock_round pid m of
        None \<Rightarrow> None
      | Some (got, m) \<Rightarrow> if got then Some m else None)"

definition drop_waiter :: "mutex \<Rightarrow> mutex" where
  "drop_waiter m =
     (if 0 < m_waiter_count m
      then m\<lparr>m_waiters := fold (\<lambda>i ws. ws[i - 1 := ws ! i]) [1..<unat (m_waiter_count m)] (m_waiters m),
             m_waiter_count := m_waiter_count m - 1\<rparr>
      else m)"

definition mutex_unlock :: "mutex \<Rightarrow> mutex option" where
  "mutex_unlock m =
     (case spin_lock (m_guard m) of
        None \<Rightarrow> None
      | Some g \<Rightarrow>
          let m = drop_waiter (m\<lparr>m_guard := g, m_locked := 0, m_owner_pid := 0\<rparr>)
          in Some (m\<lparr>m_guard := spin_unlock (m_guard m)\<rparr>))"

section \<open>One shared access at a time\<close>

text \<open>
  Where a process is: outside, at the loops of the two spin locks, at each access of the
  guarded parts, halted in \<open>mutex_lock\<close>, or inside the critical section. The waiter list
  is only touched under the guard; its update is one step.
\<close>

datatype mpc =
    Outside | LGuard | LTest | LSetLocked | LSetOwner | LReturn | LWait | LRelease | LHalt
  | Inside | UGuard | UClear | UOwner | UShift | URelease

fun mutex_step :: "u32 \<Rightarrow> mpc \<Rightarrow> mutex \<Rightarrow> mpc \<times> mutex" where
  "mutex_step pid Outside m = (LGuard, m)"
| "mutex_step pid LGuard m = (case test_and_set (m_guard m) of (free, g) \<Rightarrow> (if free then LTest else LGuard, m\<lparr>m_guard := g\<rparr>))"
| "mutex_step pid LTest m = (if m_locked m = 0 then LSetLocked else LWait, m)"
| "mutex_step pid LSetLocked m = (LSetOwner, m\<lparr>m_locked := 1\<rparr>)"
| "mutex_step pid LSetOwner m = (LReturn, m\<lparr>m_owner_pid := pid\<rparr>)"
| "mutex_step pid LReturn m = (Inside, m\<lparr>m_guard := spin_unlock (m_guard m)\<rparr>)"
| "mutex_step pid LWait m = (LRelease, add_waiter pid m)"
| "mutex_step pid LRelease m = (LHalt, m\<lparr>m_guard := spin_unlock (m_guard m)\<rparr>)"
| "mutex_step pid LHalt m = (LGuard, m)"
| "mutex_step pid Inside m = (UGuard, m)"
| "mutex_step pid UGuard m = (case test_and_set (m_guard m) of (free, g) \<Rightarrow> (if free then UClear else UGuard, m\<lparr>m_guard := g\<rparr>))"
| "mutex_step pid UClear m = (UOwner, m\<lparr>m_locked := 0\<rparr>)"
| "mutex_step pid UOwner m = (UShift, m\<lparr>m_owner_pid := 0\<rparr>)"
| "mutex_step pid UShift m = (URelease, drop_waiter m)"
| "mutex_step pid URelease m = (Outside, m\<lparr>m_guard := spin_unlock (m_guard m)\<rparr>)"

text \<open>The interleavings: any process \<open>i\<close>, with identifier \<open>pid i\<close>, takes its next step.\<close>

inductive msys_step :: "(nat \<Rightarrow> u32) \<Rightarrow> mutex \<times> (nat \<Rightarrow> mpc) \<Rightarrow> mutex \<times> (nat \<Rightarrow> mpc) \<Rightarrow> bool" for pid where
  move: "mutex_step (pid i) (pcs i) m = (c, m') \<Longrightarrow> msys_step pid (m, pcs) (m', pcs(i := c))"

inductive_cases msys_stepE: "msys_step pid (m, pcs) t"

definition mutex_boot :: mutex where
  "mutex_boot = mutex_init \<lparr>m_guard = \<lparr>sl_locked = 0\<rparr>, m_locked = 0, m_owner_pid = 0, m_waiters = [], m_waiter_count = 0\<rparr>"

definition mutex_reachable :: "(nat \<Rightarrow> u32) \<Rightarrow> mutex \<times> (nat \<Rightarrow> mpc) \<Rightarrow> bool" where
  "mutex_reachable pid st \<longleftrightarrow> (msys_step pid)\<^sup>*\<^sup>* (mutex_boot, \<lambda>_. Outside) st"

section \<open>The invariant\<close>

definition in_guard :: "mpc \<Rightarrow> bool" where
  "in_guard c \<longleftrightarrow> c \<in> {LTest, LSetLocked, LSetOwner, LReturn, LWait, LRelease, UClear, UOwner, UShift, URelease}"

definition holds :: "mpc \<Rightarrow> bool" where
  "holds c \<longleftrightarrow> c \<in> {LSetOwner, LReturn, Inside, UGuard, UClear}"

definition owns :: "mpc \<Rightarrow> bool" where
  "owns c \<longleftrightarrow> c \<in> {LReturn, Inside, UGuard, UClear}"

definition sees_free :: "mpc \<Rightarrow> bool" where
  "sees_free c \<longleftrightarrow> c \<in> {LSetLocked, UOwner, UShift, URelease}"

text \<open>At most one process satisfies \<open>P\<close>, and \<open>w\<close> is non-zero exactly when one does.\<close>

definition flag_of :: "(mpc \<Rightarrow> bool) \<Rightarrow> (nat \<Rightarrow> mpc) \<Rightarrow> u32 \<Rightarrow> bool" where
  "flag_of P pcs w \<longleftrightarrow> (if w = 0 then \<forall>i. \<not> P (pcs i) else \<exists>i. \<forall>j. P (pcs j) \<longleftrightarrow> j = i)"

definition mutex_inv :: "(nat \<Rightarrow> u32) \<Rightarrow> mutex \<times> (nat \<Rightarrow> mpc) \<Rightarrow> bool" where
  "mutex_inv pid st = (case st of (m, pcs) \<Rightarrow>
     flag_of in_guard pcs (sl_locked (m_guard m)) \<and> flag_of holds pcs (m_locked m) \<and>
     (\<forall>i. sees_free (pcs i) \<longrightarrow> m_locked m = 0) \<and> (\<forall>i. owns (pcs i) \<longrightarrow> m_owner_pid m = pid i))"

lemma flag_same: "flag_of P pcs w \<Longrightarrow> P c = P (pcs i) \<Longrightarrow> flag_of P (pcs(i := c)) w"
  unfolding flag_of_def by (auto split: if_splits)

lemma flag_raise: "flag_of P pcs 0 \<Longrightarrow> P c \<Longrightarrow> w \<noteq> 0 \<Longrightarrow> flag_of P (pcs(i := c)) w"
  unfolding flag_of_def by (auto split: if_splits)

lemma flag_lower: "flag_of P pcs w \<Longrightarrow> P (pcs i) \<Longrightarrow> \<not> P c \<Longrightarrow> flag_of P (pcs(i := c)) 0"
  unfolding flag_of_def by (auto split: if_splits)

lemma flag_pos: "flag_of P pcs w \<Longrightarrow> P (pcs i) \<Longrightarrow> w \<noteq> 0"
  unfolding flag_of_def by (auto split: if_splits)

lemma flag_unique: "flag_of P pcs w \<Longrightarrow> P (pcs i) \<Longrightarrow> P (pcs j) \<Longrightarrow> i = j"
  unfolding flag_of_def by (auto split: if_splits)

lemma flag_any: "flag_of P pcs w \<Longrightarrow> w \<noteq> 0 \<Longrightarrow> w' \<noteq> 0 \<Longrightarrow> flag_of P pcs w'"
  unfolding flag_of_def by simp

lemma flag_none: "flag_of P pcs 0 \<Longrightarrow> \<not> P (pcs i)"
  unfolding flag_of_def by simp

lemmas pc_defs = in_guard_def holds_def owns_def sees_free_def

lemma add_waiter_fields [simp]:
  "m_guard (add_waiter pid m) = m_guard m" "m_locked (add_waiter pid m) = m_locked m" "m_owner_pid (add_waiter pid m) = m_owner_pid m"
  by (simp_all add: add_waiter_def)

lemma drop_waiter_fields [simp]:
  "m_guard (drop_waiter m) = m_guard m" "m_locked (drop_waiter m) = m_locked m" "m_owner_pid (drop_waiter m) = m_owner_pid m"
  by (simp_all add: drop_waiter_def)

lemma mutex_inv_boot: "mutex_inv pid (mutex_boot, \<lambda>_. Outside)"
  by (simp add: mutex_inv_def mutex_boot_def mutex_init_def spin_lock_init_def flag_of_def pc_defs)

text \<open>A step that keeps the flags' meaning and neither ownership nor the free lock appears.\<close>

lemma mutex_inv_step:
  assumes inv: "mutex_inv pid (m, pcs)" and st: "mutex_step (pid i) (pcs i) m = (c, m')"
  shows "mutex_inv pid (m', pcs(i := c))"
proof -
  have G: "flag_of in_guard pcs (sl_locked (m_guard m))" and H: "flag_of holds pcs (m_locked m)"
    and F: "\<And>j. sees_free (pcs j) \<Longrightarrow> m_locked m = 0" and O: "\<And>j. owns (pcs j) \<Longrightarrow> m_owner_pid m = pid j"
    using inv by (auto simp: mutex_inv_def)
  have "flag_of in_guard (pcs(i := c)) (sl_locked (m_guard m'))"
    using st G flag_same [OF G, of c i] flag_lower [OF G, of i c] flag_raise [of in_guard pcs c "1" i]
      flag_any [of in_guard "pcs(i := c)" "sl_locked (m_guard m)" 1]
    by (cases "pcs i") (auto simp: pc_defs test_and_set_def spin_unlock_def split: if_splits)
  moreover have "flag_of holds (pcs(i := c)) (m_locked m')"
    using st H F [of i] flag_same [OF H, of c i] flag_lower [OF H, of i c] flag_raise [of holds pcs c "1" i]
    by (cases "pcs i") (auto simp: pc_defs test_and_set_def split: if_splits)
  moreover have "m_locked m' = 0" if "sees_free ((pcs(i := c)) j)" for j
  proof (cases "j = i")
    case True
    then show ?thesis using that st F [of i]
      by (cases "pcs i") (auto simp: pc_defs test_and_set_def split: if_splits)
  next
    case False
    then have j: "sees_free (pcs j)" using that by simp
    then have "in_guard (pcs j)" by (auto simp: pc_defs)
    then have "\<not> in_guard (pcs i)" using flag_unique [OF G] False by blast
    then show ?thesis using st F [OF j] by (cases "pcs i") (auto simp: pc_defs test_and_set_def split: if_splits)
  qed
  moreover have "m_owner_pid m' = pid j" if "owns ((pcs(i := c)) j)" for j
  proof (cases "j = i")
    case True
    then show ?thesis using that st O [of i]
      by (cases "pcs i") (auto simp: pc_defs test_and_set_def split: if_splits)
  next
    case False
    then have j: "owns (pcs j)" using that by simp
    then have h: "holds (pcs j)" by (auto simp: pc_defs)
    then have "\<not> holds (pcs i)" "\<not> sees_free (pcs i)" using flag_unique [OF H] False flag_pos [OF H h] F by blast+
    then show ?thesis using st O [OF j] by (cases "pcs i") (auto simp: pc_defs test_and_set_def split: if_splits)
  qed
  ultimately show ?thesis unfolding mutex_inv_def by (simp del: fun_upd_apply) blast
qed

lemma mutex_inv_reachable: "mutex_reachable pid st \<Longrightarrow> mutex_inv pid st"
  unfolding mutex_reachable_def
proof (induction rule: rtranclp_induct)
  case base
  show ?case by (rule mutex_inv_boot)
next
  case (step s t)
  obtain m pcs where "s = (m, pcs)" by force
  with step show ?case by (auto elim!: msys_stepE intro: mutex_inv_step)
qed

text \<open>
  C13. Mutual exclusion: in every interleaving of any number of processes that lock, leave and unlock
  the mutex, at most one is inside the critical section; while it is, the mutex is marked
  locked and owned by its identifier.
\<close>

theorem mutex_mutual_exclusion:
  assumes "mutex_reachable pid (m, pcs)" "pcs i = Inside"
  shows "(pcs j = Inside \<longrightarrow> j = i) \<and> m_locked m \<noteq> 0 \<and> m_owner_pid m = pid i"
proof -
  have inv: "flag_of holds pcs (m_locked m)" "\<And>i. owns (pcs i) \<Longrightarrow> m_owner_pid m = pid i"
    using mutex_inv_reachable [OF assms(1)] by (auto simp: mutex_inv_def)
  have "holds Inside" "owns Inside" by (simp_all add: pc_defs)
  then show ?thesis
    using flag_unique [OF inv(1), of i j] flag_pos [OF inv(1), of i] inv(2) [of i] assms(2) by auto
qed

section \<open>Progress\<close>

text \<open>A solo run: process \<open>i\<close> takes \<open>n\<close> steps and nobody else moves.\<close>

fun mutex_solo :: "nat \<Rightarrow> u32 \<Rightarrow> mpc \<times> mutex \<Rightarrow> mpc \<times> mutex" where
  "mutex_solo 0 pid st = st"
| "mutex_solo (Suc n) pid (c, m) = mutex_solo n pid (mutex_step pid c m)"

text \<open>The steps of a solo run are those of the undisturbed calls.\<close>

lemma solo_lock:
  "mutex_lock_round pid m = Some (got, m') \<Longrightarrow> mutex_solo (if got then 5 else 4) pid (LGuard, m) = (if got then Inside else LHalt, m')"
  by (auto simp: mutex_lock_round_def spin_lock_def test_and_set_def eval_nat_numeral Let_def spin_unlock_def
      add_waiter_def split: if_splits option.splits)

lemma solo_unlock: "mutex_unlock m = Some m' \<Longrightarrow> mutex_solo 5 pid (UGuard, m) = (Outside, m')"
  by (auto simp: mutex_unlock_def spin_lock_def test_and_set_def eval_nat_numeral Let_def split: if_splits option.splits)

text \<open>
  The mutex is never lost: in every reachable state in which no process is inside or in the
  guarded code, the mutex is free, and a process waiting at the guard or halted gets in within
  six steps of its own.
\<close>

theorem mutex_never_lost:
  assumes "mutex_reachable pid (m, pcs)" "\<forall>j. pcs j \<in> {Outside, LGuard, LHalt}"
  shows "m_locked m = 0 \<and> sl_locked (m_guard m) = 0 \<and>
    fst (mutex_solo 5 (pid i) (LGuard, m)) = Inside \<and> fst (mutex_solo 6 (pid i) (LHalt, m)) = Inside"
proof -
  have inv: "flag_of in_guard pcs (sl_locked (m_guard m))" "flag_of holds pcs (m_locked m)"
    using mutex_inv_reachable [OF assms(1)] by (auto simp: mutex_inv_def)
  have "\<not> in_guard (pcs j)" "\<not> holds (pcs j)" for j using assms(2) [rule_format, of j] by (auto simp: pc_defs)
  then have z: "m_locked m = 0" "sl_locked (m_guard m) = 0"
    using inv unfolding flag_of_def by (auto split: if_splits)
  then have "mutex_lock_round (pid i) m = Some (True, m\<lparr>m_guard := (m_guard m)\<lparr>sl_locked := 0\<rparr>, m_locked := 1, m_owner_pid := pid i\<rparr>)"
    by (simp add: mutex_lock_round_def spin_lock_def test_and_set_def Let_def spin_unlock_def)
  from solo_lock [OF this] have five: "fst (mutex_solo 5 (pid i) (LGuard, m)) = Inside" by simp
  moreover have "mutex_solo 6 (pid i) (LHalt, m) = mutex_solo 5 (pid i) (LGuard, m)"
    by (simp add: eval_nat_numeral)
  ultimately show ?thesis using z by simp
qed

lemma reachable_step: "mutex_reachable pid (m, pcs) \<Longrightarrow> mutex_step (pid i) (pcs i) m = (c, m') \<Longrightarrow>
    mutex_reachable pid (m', pcs(i := c))"
  unfolding mutex_reachable_def using move [of pid i pcs m c m'] by (meson rtranclp.rtrancl_into_rtrancl)

lemma reachable_boot: "mutex_reachable pid (mutex_boot, \<lambda>_. Outside)"
  by (simp add: mutex_reachable_def)

lemma reachable_solo:
  "mutex_reachable pid (m, pcs) \<Longrightarrow> mutex_reachable pid (snd (mutex_solo n (pid i) (pcs i, m)), pcs(i := fst (mutex_solo n (pid i) (pcs i, m))))"
proof (induction n arbitrary: m pcs)
  case (Suc n)
  obtain c m' where st: "mutex_step (pid i) (pcs i) m = (c, m')" by force
  from Suc.IH [OF reachable_step [OF Suc.prems st]] st show ?case by (simp del: fun_upd_apply) (simp del: fun_upd_apply add: fun_upd_same)
qed simp

theorem mutex_mutual_exclusion_witness:
  "\<exists>m pcs. mutex_reachable (\<lambda>i. of_nat i) (m, pcs) \<and> pcs (3 :: nat) = Inside \<and> m_owner_pid m = 3 \<and> pcs 4 \<noteq> Inside"
proof -
  let ?r = "mutex_solo 6 3 (Outside, mutex_boot)"
  have r: "fst ?r = Inside"
    by (simp add: eval_nat_numeral mutex_boot_def mutex_init_def test_and_set_def spin_lock_init_def)
  have reach: "mutex_reachable (\<lambda>i. of_nat i) (snd ?r, (\<lambda>_. Outside)(3 := fst ?r))"
    using reachable_solo [OF reachable_boot, of "\<lambda>i. of_nat i" 6 3] by simp
  have "((\<lambda>_. Outside)(3 := fst ?r)) (3 :: nat) = Inside" using r by simp
  from mutex_mutual_exclusion [OF reach this, of 4] reach r show ?thesis
    by (intro exI [of _ "snd ?r"] exI [of _ "(\<lambda>_. Outside)(3 := fst ?r)"]) simp
qed

theorem mutex_never_lost_witness:
  "fst (mutex_solo 5 7 (LGuard, mutex_boot)) = Inside"
  using mutex_never_lost [OF reachable_boot, of "\<lambda>i. of_nat i" 7] by simp

section \<open>What the mutex does not do\<close>

text \<open>
  Anyone can unlock: \<open>mutex_unlock\<close> does not look at the owner. And a process that is woken
  while the mutex is still taken enters the list of waiters once more.
\<close>

lemma unlock_by_anyone: "sl_locked (m_guard m) = 0 \<Longrightarrow> \<exists>m'. mutex_unlock m = Some m' \<and> m_locked m' = 0 \<and> m_owner_pid m' = 0"
  by (simp add: mutex_unlock_def spin_lock_def test_and_set_def Let_def)

lemma waiter_listed_twice:
  "\<exists>m' m''. mutex_lock_round 5 (mutex_boot\<lparr>m_locked := 1, m_owner_pid := 4\<rparr>) = Some (False, m') \<and>
     mutex_lock_round 5 m' = Some (False, m'') \<and> take (unat (m_waiter_count m'')) (m_waiters m'') = [5, 5]"
proof -
  have "replicate 16 (0 :: u32) = 0 # 0 # replicate 14 0" by (simp add: eval_nat_numeral)
  then show ?thesis
    by (simp add: mutex_lock_round_def spin_lock_def test_and_set_def spin_unlock_def add_waiter_def mutex_boot_def
      mutex_init_def spin_lock_init_def Let_def)
qed

end
