(* ===== verification/Vfs.thy ===== *)
theory Vfs
  imports TetfsProps
begin

text \<open>
  The two descriptor layers over tetFS: \<open>fs_*\<close> at the end of \<open>kernel/fs/tetfs.c\<close>,
  with eight descriptors, and \<open>kernel/fs/vfs.c\<close> with 32 open files that carry flags. A
  descriptor is an \<open>int\<close>; a NULL argument is \<open>None\<close>, and the bytes a read stores in
  the caller's buffer come with its result code.
\<close>

section \<open>State\<close>

abbreviation "VFS_MAX_OPEN_FILES \<equiv> (32 :: int)"
abbreviation "TETFS_MAX_FD \<equiv> (8 :: int)"
abbreviation "VFS_O_RDONLY \<equiv> (0x1 :: u32)"
abbreviation "VFS_O_WRONLY \<equiv> (0x2 :: u32)"
abbreviation "VFS_O_RDWR \<equiv> (0x3 :: u32)" \<comment> \<open>\<open>VFS_O_RDONLY | VFS_O_WRONLY\<close>\<close>
abbreviation "VFS_O_CREAT \<equiv> (0x4 :: u32)"

record vfs_superblock =
  vs_name :: bytes
  vs_block_size :: u32
  vs_total_blocks :: u32

record vnode =
  vn_inode :: u32
  vn_size :: u32
  vn_type :: u8
  vn_sb :: bool \<comment> \<open>whether the pointer is \<open>&root_sb\<close>; NULL otherwise\<close>

record vfile =
  vf_vnode :: vnode
  vf_offset :: u32
  vf_flags :: u32
  vf_in_use :: u8

record 'd vfs =
  vfs_fs :: "'d tetfs"
  vfs_files :: "vfile list"
  vfs_root_sb :: vfs_superblock

definition zero_vfile :: vfile where
  "zero_vfile = \<lparr>vf_vnode = \<lparr>vn_inode = 0, vn_size = 0, vn_type = 0, vn_sb = False\<rparr>, vf_offset = 0, vf_flags = 0, vf_in_use = 0\<rparr>"

definition zero_fd :: tetfs_fd where
  "zero_fd = \<lparr>fd_used = 0, fd_inode = 0, fd_offset = 0\<rparr>"

text \<open>A disk operation of tetFS run on the whole state.\<close>

definition on_disk :: "('d \<Rightarrow> 'r \<times> 'd) \<Rightarrow> 'd vfs \<Rightarrow> 'r \<times> 'd vfs" where
  "on_disk f s = (let (r, d) = f (disk (vfs_fs s)) in (r, s\<lparr>vfs_fs := (vfs_fs s)\<lparr>disk := d\<rparr>\<rparr>))"

text \<open>The first part of both open calls: find the file, or create it when \<open>cr\<close> allows that.\<close>

definition find_or_create :: "'d dev \<Rightarrow> bytes \<Rightarrow> bool \<Rightarrow> 'd vfs \<Rightarrow> int \<times> 'd vfs" where
  "find_or_create D name cr s =
     (let (inode, s) = on_disk (tetfs_find D name TETFS_ROOT_INODE) s in
      if inode < 0 \<and> cr then on_disk (tetfs_create D name TETFS_ROOT_INODE TETFS_TYPE_FILE) s else (inode, s))"

section \<open>The VFS calls\<close>

definition vfs_init :: "'d vfs \<Rightarrow> 'd vfs" where
  "vfs_init s = s\<lparr>vfs_files := replicate 32 zero_vfile,
     vfs_root_sb := \<lparr>vs_name = [0x74, 0x65, 0x74, 0x66, 0x73, 0], vs_block_size = TETFS_BLOCK_SIZE, vs_total_blocks = 1024\<rparr>\<rparr>"

definition alloc_file_slot :: "'d vfs \<Rightarrow> int" where
  "alloc_file_slot s =
     (case find (\<lambda>i. vf_in_use (vfs_files s ! i) = 0) [0..<nat VFS_MAX_OPEN_FILES] of None \<Rightarrow> -1 | Some i \<Rightarrow> int i)"

definition vfs_open :: "'d dev \<Rightarrow> bytes option \<Rightarrow> u32 \<Rightarrow> 'd vfs \<Rightarrow> int \<times> 'd vfs" where
  "vfs_open D path flags s =
     (case path of
        None \<Rightarrow> (-1, s)
      | Some path \<Rightarrow>
          if path ! 0 = 0 then (-1, s)
          else
            let (inode, s) = find_or_create D path (flags AND VFS_O_CREAT \<noteq> 0) s
            in if inode < 0 then (-1, s)
               else
                 let (node, s) = on_disk (tetfs_read_inode D (of_int inode)) s in
                 case node of
                   None \<Rightarrow> (-1, s)
                 | Some node \<Rightarrow>
                     let fd = alloc_file_slot s in
                     if fd < 0 then (-1, s)
                     else
                       let f = (vfs_files s ! nat fd)\<lparr>vf_in_use := 1, vf_flags := flags, vf_offset := 0,
                                  vf_vnode := \<lparr>vn_inode = of_int inode, vn_size = i_size node, vn_type = i_type node, vn_sb = True\<rparr>\<rparr>
                       in (fd, s\<lparr>vfs_files := (vfs_files s)[nat fd := f]\<rparr>))"

definition vfs_bad_fd :: "int \<Rightarrow> 'd vfs \<Rightarrow> bool" where
  "vfs_bad_fd fd s \<longleftrightarrow> fd < 0 \<or> fd \<ge> VFS_MAX_OPEN_FILES \<or> vf_in_use (vfs_files s ! nat fd) = 0"

text \<open>\<open>buf\<close> tells whether the buffer pointer is not NULL.\<close>

definition vfs_read :: "'d dev \<Rightarrow> int \<Rightarrow> bool \<Rightarrow> u32 \<Rightarrow> 'd vfs \<Rightarrow> (int \<times> bytes) \<times> 'd vfs" where
  "vfs_read D fd buf len s =
     (if vfs_bad_fd fd s then ((-1, []), s)
      else if \<not> buf \<or> len = 0 then ((0, []), s)
      else
        let f = vfs_files s ! nat fd;
            ((n, out), s) = on_disk (tetfs_read D (ucast (vn_inode (vf_vnode f))) (vf_offset f) len) s;
            f = (if n > 0 then f\<lparr>vf_offset := vf_offset f + of_int n\<rparr> else f)
        in ((n, out), s\<lparr>vfs_files := (vfs_files s)[nat fd := f]\<rparr>))"

definition vfs_write :: "'d dev \<Rightarrow> int \<Rightarrow> bytes option \<Rightarrow> u32 \<Rightarrow> 'd vfs \<Rightarrow> int \<times> 'd vfs" where
  "vfs_write D fd buf len s =
     (if vfs_bad_fd fd s then (-1, s)
      else case buf of
             None \<Rightarrow> (-1, s)
           | Some buf \<Rightarrow>
               let f = vfs_files s ! nat fd in
               if vf_flags f AND VFS_O_WRONLY = 0 \<and> vf_flags f AND VFS_O_RDWR = 0 then (-1, s)
               else
                 let (n, s) = on_disk (tetfs_write D (ucast (vn_inode (vf_vnode f))) buf len) s;
                     f = (if n \<ge> 0 then f\<lparr>vf_vnode := (vf_vnode f)\<lparr>vn_size := len\<rparr>, vf_offset := len\<rparr> else f)
                 in (n, s\<lparr>vfs_files := (vfs_files s)[nat fd := f]\<rparr>))"

definition vfs_close :: "int \<Rightarrow> 'd vfs \<Rightarrow> int \<times> 'd vfs" where
  "vfs_close fd s =
     (if vfs_bad_fd fd s then (-1, s) else (0, s\<lparr>vfs_files := (vfs_files s)[nat fd := zero_vfile]\<rparr>))"

section \<open>The descriptors of tetFS\<close>

definition set_fd_table :: "tetfs_fd list \<Rightarrow> 'd vfs \<Rightarrow> 'd vfs" where
  "set_fd_table t s = s\<lparr>vfs_fs := (vfs_fs s)\<lparr>fd_table := t\<rparr>\<rparr>"

definition fs_init :: "'d dev \<Rightarrow> 'd vfs \<Rightarrow> 'd vfs" where
  "fs_init D s =
     (let s = set_fd_table (replicate 8 zero_fd) s;
          s = vfs_init s
      in s\<lparr>vfs_fs := snd (tetfs_mount D (vfs_fs s))\<rparr>)"

definition fs_free_slot :: "'d vfs \<Rightarrow> nat option" where
  "fs_free_slot s = find (\<lambda>fd. fd_used (fd_table (vfs_fs s) ! fd) = 0) [0..<nat TETFS_MAX_FD]"

definition fs_open :: "'d dev \<Rightarrow> bytes \<Rightarrow> bool \<Rightarrow> 'd vfs \<Rightarrow> int \<times> 'd vfs" where
  "fs_open D name wr s =
     (if \<not> fs_mounted (vfs_fs s) then (-1, s)
      else
        let (idx, s) = find_or_create D name wr s
        in if idx < 0 then (-1, s)
           else
             case fs_free_slot s of
               None \<Rightarrow> (-1, s)
             | Some fd \<Rightarrow>
                 (int fd, set_fd_table ((fd_table (vfs_fs s))[fd := \<lparr>fd_used = 1, fd_inode = of_int idx, fd_offset = 0\<rparr>]) s))"

definition fs_bad_fd :: "int \<Rightarrow> 'd vfs \<Rightarrow> bool" where
  "fs_bad_fd fd s \<longleftrightarrow> fd < 0 \<or> fd \<ge> TETFS_MAX_FD \<or> fd_used (fd_table (vfs_fs s) ! nat fd) = 0"

definition fs_read :: "'d dev \<Rightarrow> int \<Rightarrow> u32 \<Rightarrow> 'd vfs \<Rightarrow> (int \<times> bytes) \<times> 'd vfs" where
  "fs_read D fd len s =
     (if fs_bad_fd fd s then ((-1, []), s)
      else
        let f = fd_table (vfs_fs s) ! nat fd;
            ((n, out), s) = on_disk (tetfs_read D (fd_inode f) (fd_offset f) len) s;
            f = (if n > 0 then f\<lparr>fd_offset := fd_offset f + of_int n\<rparr> else f)
        in ((n, out), set_fd_table ((fd_table (vfs_fs s))[nat fd := f]) s))"

definition fs_write :: "'d dev \<Rightarrow> int \<Rightarrow> bytes \<Rightarrow> u32 \<Rightarrow> 'd vfs \<Rightarrow> int \<times> 'd vfs" where
  "fs_write D fd buf len s =
     (if fs_bad_fd fd s then (-1, s)
      else on_disk (tetfs_write D (fd_inode (fd_table (vfs_fs s) ! nat fd)) buf len) s)"

definition fs_close :: "int \<Rightarrow> 'd vfs \<Rightarrow> 'd vfs" where
  "fs_close fd s =
     (if 0 \<le> fd \<and> fd < TETFS_MAX_FD
      then set_fd_table ((fd_table (vfs_fs s))[nat fd := (fd_table (vfs_fs s) ! nat fd)\<lparr>fd_used := 0\<rparr>]) s
      else s)"

section \<open>Sequential reads\<close>

text \<open>The bytes of a sequence of reads through one descriptor.\<close>

fun vfs_reads :: "'d dev \<Rightarrow> int \<Rightarrow> u32 list \<Rightarrow> 'd vfs \<Rightarrow> bytes \<times> 'd vfs" where
  "vfs_reads D fd [] s = ([], s)"
| "vfs_reads D fd (len # lens) s =
     (let ((_, out), s) = vfs_read D fd True len s; (rest, s) = vfs_reads D fd lens s in (out @ rest, s))"

lemma slice_slice: "slice a m bs @ slice (a + length (slice a m bs)) n bs = slice a (m + n) bs"
  by (auto simp: slice_def take_add min_def add.commute)

context reliable_dev
begin

lemma vfs_read_ok:
  assumes "invar (disk (vfs_fs s))" "fs_wf (sec (disk (vfs_fs s)))" "\<not> vfs_bad_fd fd s" "length (vfs_files s) = 32"
    "idx = ucast (vn_inode (vf_vnode (vfs_files s ! nat fd)))" "idx < TETFS_MAX_INODES"
    "i_type (inode_at (sec (disk (vfs_fs s))) idx) = TETFS_TYPE_FILE"
    "unat (vf_offset (vfs_files s ! nat fd)) + unat len < 2147483648"
  shows "\<exists>s'. vfs_read D fd True len s =
      (let out = slice (unat (vf_offset (vfs_files s ! nat fd))) (unat len) (contents (sec (disk (vfs_fs s))) (inode_at (sec (disk (vfs_fs s))) idx))
       in ((int (length out), out), s')) \<and>
    invar (disk (vfs_fs s')) \<and> sec (disk (vfs_fs s')) = sec (disk (vfs_fs s)) \<and> \<not> vfs_bad_fd fd s' \<and> length (vfs_files s') = 32 \<and>
    vf_vnode (vfs_files s' ! nat fd) = vf_vnode (vfs_files s ! nat fd) \<and>
    unat (vf_offset (vfs_files s' ! nat fd)) = unat (vf_offset (vfs_files s ! nat fd)) +
      length (slice (unat (vf_offset (vfs_files s ! nat fd))) (unat len) (contents (sec (disk (vfs_fs s))) (inode_at (sec (disk (vfs_fs s))) idx)))"
proof -
  let ?d = "disk (vfs_fs s)" and ?f = "vfs_files s ! nat fd"
  let ?out = "slice (unat (vf_offset ?f)) (unat len) (contents (sec ?d) (inode_at (sec ?d) idx))"
  have fd: "nat fd < 32" using assms(3) by (auto simp: vfs_bad_fd_def)
  have lo: "length ?out \<le> unat len" by (simp add: slice_def)
  show ?thesis
  proof (cases "len = 0")
    case True
    then show ?thesis using assms by (intro exI [of _ s]) (simp add: vfs_read_def slice_def)
  next
    case False
    have "unat (vf_offset ?f) + unat len < 4294967296" using assms(8) by simp
    from tetfs_read_ok [OF assms(1,2,6,7) this] obtain d' where
      d': "tetfs_read D idx (vf_offset ?f) len ?d = ((int (length ?out), ?out), d')" "invar d'" "sec d' = sec ?d"
      by (auto simp: Let_def)
    define f' where "f' = (if ?out = [] then ?f else ?f\<lparr>vf_offset := vf_offset ?f + of_nat (length ?out)\<rparr>)"
    have o: "unat (of_nat (length ?out) :: u32) = length ?out"
      using lo assms(8) by (intro unat_of_nat_small) simp
    have off: "unat (vf_offset f') = unat (vf_offset ?f) + length ?out"
      unfolding f'_def using lo o assms(8) by (auto simp: unat_plus_small)
    have "vfs_read D fd True len s = ((int (length ?out), ?out), s\<lparr>vfs_fs := (vfs_fs s)\<lparr>disk := d'\<rparr>, vfs_files := (vfs_files s)[nat fd := f']\<rparr>)"
      using assms(3) False d'(1) by (simp add: vfs_read_def on_disk_def assms(5) [symmetric] f'_def Let_def)
    then show ?thesis
      using d' off fd assms(3,4) by (auto simp: Let_def vfs_bad_fd_def f'_def)
  qed
qed

lemma vfs_reads_ok:
  assumes "invar (disk (vfs_fs s))" "fs_wf (sec (disk (vfs_fs s)))" "\<not> vfs_bad_fd fd s" "length (vfs_files s) = 32"
    "idx = ucast (vn_inode (vf_vnode (vfs_files s ! nat fd)))" "idx < TETFS_MAX_INODES"
    "i_type (inode_at (sec (disk (vfs_fs s))) idx) = TETFS_TYPE_FILE"
    "unat (vf_offset (vfs_files s ! nat fd)) + sum_list (map unat lens) < 2147483648"
  shows "fst (vfs_reads D fd lens s) = slice (unat (vf_offset (vfs_files s ! nat fd))) (sum_list (map unat lens))
    (contents (sec (disk (vfs_fs s))) (inode_at (sec (disk (vfs_fs s))) idx))"
  using assms
proof (induction lens arbitrary: s)
  case Nil
  then show ?case by (simp add: slice_def)
next
  case (Cons len lens)
  let ?c = "contents (sec (disk (vfs_fs s))) (inode_at (sec (disk (vfs_fs s))) idx)"
  let ?o = "unat (vf_offset (vfs_files s ! nat fd))"
  have "?o + unat len < 2147483648" using Cons.prems(8) by simp
  from vfs_read_ok [OF Cons.prems(1-7) this] obtain s' where
    s': "vfs_read D fd True len s = ((int (length (slice ?o (unat len) ?c)), slice ?o (unat len) ?c), s')"
    "invar (disk (vfs_fs s'))" "sec (disk (vfs_fs s')) = sec (disk (vfs_fs s))" "\<not> vfs_bad_fd fd s'" "length (vfs_files s') = 32"
    "vf_vnode (vfs_files s' ! nat fd) = vf_vnode (vfs_files s ! nat fd)"
    "unat (vf_offset (vfs_files s' ! nat fd)) = ?o + length (slice ?o (unat len) ?c)" by (auto simp: Let_def)
  have "length (slice ?o (unat len) ?c) \<le> unat len" by (simp add: slice_def)
  then have "unat (vf_offset (vfs_files s' ! nat fd)) + sum_list (map unat lens) < 2147483648"
    using Cons.prems(8) s'(7) by simp
  from Cons.IH [OF s'(2) _ s'(4,5) _ Cons.prems(6) _ this] Cons.prems s'(3,6)
  have "fst (vfs_reads D fd lens s') = slice (?o + length (slice ?o (unat len) ?c)) (sum_list (map unat lens)) ?c"
    by (simp add: s'(7))
  then show ?case using s'(1) slice_slice [of ?o "unat len" ?c "sum_list (map unat lens)"]
    by (simp add: split_beta)
qed

end

text \<open>Opening finds or creates the file; the lookup is by name and is stable under writes.\<close>

definition looks_up_in :: "sectors \<Rightarrow> u16 \<Rightarrow> bytes \<Rightarrow> u16 \<Rightarrow> bool" where
  "looks_up_in s parent name i \<longleftrightarrow> 0 < i \<and> i < TETFS_MAX_INODES \<and> named s name parent i \<and>
     (\<forall>j. 0 < j \<and> j < i \<longrightarrow> \<not> named s name parent j)"

abbreviation looks_up :: "sectors \<Rightarrow> bytes \<Rightarrow> u16 \<Rightarrow> bool" where
  "looks_up s \<equiv> looks_up_in s TETFS_ROOT_INODE"

lemma looks_up_unique: "looks_up_in s parent name i \<Longrightarrow> looks_up_in s parent name j \<Longrightarrow> i = j"
  unfolding looks_up_in_def by (meson linorder_neqE)

lemma looks_up_kept:
  assumes "looks_up_in s parent name i" "k < TETFS_MAX_INODES" "others_kept k s s'" "i_type (inode_at s' k) = i_type (inode_at s k)"
    "i_name (inode_at s' k) = i_name (inode_at s k)" "i_parent (inode_at s' k) = i_parent (inode_at s k)"
  shows "looks_up_in s' parent name i"
proof -
  have "named s' name parent j = named s name parent j" if "j < TETFS_MAX_INODES" for j
    using assms that by (cases "j = k") (auto simp: named_def others_kept_def)
  moreover have "j < TETFS_MAX_INODES" if "j < i" for j using that assms(1) unfolding looks_up_in_def by (meson less_trans)
  ultimately show ?thesis using assms(1) unfolding looks_up_in_def by blast
qed

lemma ucast_twice: "ucast (ucast (i :: u16) :: u32) = i"
  by (rule bit_word_eqI) (simp add: bit_simps)

lemma word_index [simp]:
  "word_of_int (int (unat (i :: u16))) = i" "ucast (word_of_nat (unat (i :: u16)) :: u32) = i"
proof -
  show "word_of_int (int (unat i)) = i" by simp
  have "(word_of_nat (unat i) :: u32) = ucast i" by (simp add: word_unat_eq_iff unat_of_nat_small [of "unat i"] less_trans [OF u16_lt])
  then show "ucast (word_of_nat (unat i) :: u32) = i" by (simp add: ucast_twice)
qed

context reliable_dev
begin

lemma looks_up_find:
  assumes "invar d" "fs_wf (sec d)" "terminated name" "looks_up_in (sec d) parent (cstr name) i"
  shows "\<exists>d'. tetfs_find D name parent d = (int (unat i), d') \<and> invar d' \<and> sec d' = sec d"
proof -
  obtain r d' where r: "tetfs_find D name parent d = (r, d')" by force
  note F = tetfs_find_named [OF assms(1-3) r]
  have "r \<noteq> -1" using F assms(4) by (auto simp: looks_up_in_def split: if_splits)
  then obtain j where j: "r = int (unat j)" "looks_up_in (sec d) parent (cstr name) j" using F by (auto simp: looks_up_in_def)
  then have "j = i" using looks_up_unique assms(4) by blast
  then show ?thesis using r j(1) F by blast
qed

lemma find_looks_up:
  assumes "invar d" "fs_wf (sec d)" "terminated name" "tetfs_find D name parent d = (r, d')"
  shows "invar d' \<and> sec d' = sec d \<and> (0 \<le> r \<longrightarrow> (\<exists>i. r = int (unat i) \<and> looks_up_in (sec d) parent (cstr name) i)) \<and> (r < 0 \<longrightarrow> r = -1)"
  using tetfs_find_named [OF assms] by (auto simp: looks_up_in_def split: if_splits)

lemma find_or_create_ok:
  assumes "invar (disk (vfs_fs s))" "fs_wf (sec (disk (vfs_fs s)))" "terminated name" "length (cstr name) \<le> 50"
    "find_or_create D name cr s = (r, s')"
  shows "\<exists>d'. s' = s\<lparr>vfs_fs := (vfs_fs s)\<lparr>disk := d'\<rparr>\<rparr> \<and> invar d' \<and> fs_wf (sec d') \<and>
    (0 \<le> r \<longrightarrow> (\<exists>i. r = int (unat i) \<and> looks_up (sec d') (cstr name) i))"
proof -
  let ?d = "disk (vfs_fs s)"
  obtain r1 d1 where r1: "tetfs_find D name TETFS_ROOT_INODE ?d = (r1, d1)" by force
  note F = find_looks_up [OF assms(1-3) r1]
  show ?thesis
  proof (cases "r1 < 0 \<and> cr")
    case True
    obtain d2 where c: "tetfs_create D name 0 TETFS_TYPE_FILE d1 = (r, d2)" and s': "s' = s\<lparr>vfs_fs := (vfs_fs s)\<lparr>disk := d2\<rparr>\<rparr>"
      using assms(5) r1 True by (auto simp: find_or_create_def on_disk_def split: prod.splits)
    have d1: "invar d1" "fs_wf (sec d1)" using F assms(2) by simp_all
    have C: "invar d2 \<and> fs_wf (sec d2) \<and> (if r = -1 then sec d2 = sec d1 \<and>
         (fst (tetfs_find D name 0 d1) \<noteq> -1 \<or> (\<forall>i < TETFS_MAX_INODES. i \<noteq> 0 \<longrightarrow> in_use (sec d1) i))
       else fst (tetfs_find D name 0 d1) = -1 \<and> fst (tetfs_find D name 0 d2) = r \<and>
         (\<exists>i. r = int (unat i) \<and> contents (sec d2) (inode_at (sec d2) i) = [] \<and>
            i_type (inode_at (sec d2) i) = TETFS_TYPE_FILE \<and> others_kept i (sec d1) (sec d2)))"
      by (rule create_then_find [OF d1 assms(3,4) _ c]) simp
    have "\<exists>i. r = int (unat i) \<and> looks_up (sec d2) (cstr name) i" if "0 \<le> r"
    proof -
      have "r \<noteq> -1" using that by simp
      then have "fst (tetfs_find D name 0 d2) = r" using C by simp
      then obtain d3 where "tetfs_find D name 0 d2 = (r, d3)" by (cases "tetfs_find D name 0 d2") simp
      from find_looks_up [OF _ _ assms(3) this] C that show ?thesis by blast
    qed
    then show ?thesis using C s' by blast
  next
    case False
    then have "r = r1" "s' = s\<lparr>vfs_fs := (vfs_fs s)\<lparr>disk := d1\<rparr>\<rparr>"
      using assms(5) r1 by (auto simp: find_or_create_def on_disk_def)
    then show ?thesis using F assms(2) by (intro exI [of _ d1]) auto
  qed
qed

lemma fs_open_ok:
  assumes "invar (disk (vfs_fs s))" "fs_wf (sec (disk (vfs_fs s)))" "terminated name" "length (cstr name) \<le> 50"
    "fs_open D name wr s = (fd, s')" "0 \<le> fd"
  shows "invar (disk (vfs_fs s')) \<and> fs_wf (sec (disk (vfs_fs s'))) \<and> fs_mounted (vfs_fs s') \<and> fd < 8 \<and>
    fd_used (fd_table (vfs_fs s) ! nat fd) = 0 \<and>
    (\<exists>i. looks_up (sec (disk (vfs_fs s'))) (cstr name) i \<and>
       fd_table (vfs_fs s') = (fd_table (vfs_fs s))[nat fd := \<lparr>fd_used = 1, fd_inode = i, fd_offset = 0\<rparr>])"
proof -
  have m: "fs_mounted (vfs_fs s)" using assms(5,6) by (auto simp: fs_open_def split: if_splits)
  obtain r t where r: "find_or_create D name wr s = (r, t)" by force
  from find_or_create_ok [OF assms(1-4) r] obtain d' where t: "t = s\<lparr>vfs_fs := (vfs_fs s)\<lparr>disk := d'\<rparr>\<rparr>"
    "invar d'" "fs_wf (sec d')" "0 \<le> r \<longrightarrow> (\<exists>i. r = int (unat i) \<and> looks_up (sec d') (cstr name) i)" by blast
  obtain k where k: "0 \<le> r" "fs_free_slot t = Some k" "fd = int k"
      "s' = set_fd_table ((fd_table (vfs_fs t))[k := \<lparr>fd_used = 1, fd_inode = of_int r, fd_offset = 0\<rparr>]) t"
    using assms(5,6) m r by (auto simp: fs_open_def split: if_splits option.splits)
  have "k < 8" "fd_used (fd_table (vfs_fs s) ! k) = 0"
    using k(2) t(1) by (auto simp: fs_free_slot_def find_Some_iff)
  then show ?thesis using k t m by (auto simp: set_fd_table_def)
qed

lemma alloc_file_slot_free: "0 \<le> alloc_file_slot s \<Longrightarrow> nat (alloc_file_slot s) < 32 \<and> vf_in_use (vfs_files s ! nat (alloc_file_slot s)) = 0"
proof -
  assume nn: "0 \<le> alloc_file_slot s"
  then obtain i where i: "find (\<lambda>i. vf_in_use (vfs_files s ! i) = 0) [0..<nat VFS_MAX_OPEN_FILES] = Some i"
    unfolding alloc_file_slot_def by (metis option.case(1) option.exhaust neg_0_le_iff_le not_one_le_zero)
  then have "i < 32 \<and> vf_in_use (vfs_files s ! i) = 0" by (auto simp: find_Some_iff)
  then show ?thesis unfolding alloc_file_slot_def i option.case by simp
qed

lemma vfs_open_ok:
  assumes "invar (disk (vfs_fs s))" "fs_wf (sec (disk (vfs_fs s)))" "terminated path" "length (cstr path) \<le> 50"
    "vfs_open D (Some path) flags s = (fd, s')" "0 \<le> fd"
  shows "invar (disk (vfs_fs s')) \<and> fs_wf (sec (disk (vfs_fs s'))) \<and> fd < 32 \<and> vf_in_use (vfs_files s ! nat fd) = 0 \<and>
    (\<exists>i f. looks_up (sec (disk (vfs_fs s'))) (cstr path) i \<and> vfs_files s' = (vfs_files s)[nat fd := f] \<and>
       vf_in_use f = 1 \<and> vf_offset f = 0 \<and> vf_flags f = flags \<and> ucast (vn_inode (vf_vnode f)) = i)"
proof -
  have p: "path ! 0 \<noteq> 0" using assms(5,6) by (auto simp: vfs_open_def)
  obtain r t where r: "find_or_create D path (flags AND VFS_O_CREAT \<noteq> 0) s = (r, t)" by force
  from find_or_create_ok [OF assms(1-4) r] obtain d' where t: "t = s\<lparr>vfs_fs := (vfs_fs s)\<lparr>disk := d'\<rparr>\<rparr>"
    "invar d'" "fs_wf (sec d')" "0 \<le> r \<longrightarrow> (\<exists>i. r = int (unat i) \<and> looks_up (sec d') (cstr path) i)" by blast
  have "0 \<le> r" using assms(5,6) p r by (auto simp: vfs_open_def split: if_splits)
  then obtain i where i: "r = int (unat i)" "looks_up (sec d') (cstr path) i" using t(4) by blast
  then have i32: "i < TETFS_MAX_INODES" by (simp add: looks_up_in_def)
  obtain d3 where d3: "tetfs_read_inode D i d' = (Some (inode_at (sec d') i), d3)" "invar d3" "sec d3 = sec d'"
    by (rule read_inode_ok [OF t(2) i32])
  have s: "0 \<le> alloc_file_slot s" "fd = alloc_file_slot s" "s' = s\<lparr>vfs_fs := (vfs_fs s)\<lparr>disk := d3\<rparr>,
      vfs_files := (vfs_files s)[nat fd := (vfs_files s ! nat fd)\<lparr>vf_in_use := 1, vf_flags := flags, vf_offset := 0,
        vf_vnode := \<lparr>vn_inode = of_nat (unat i), vn_size = i_size (inode_at (sec d') i), vn_type = i_type (inode_at (sec d') i), vn_sb = True\<rparr>\<rparr>]\<rparr>"
    using assms(5,6) p r t(1) i(1) d3(1)
    by (auto simp: vfs_open_def on_disk_def alloc_file_slot_def Let_def split: if_splits)
  have "nat fd < 32" "vf_in_use (vfs_files s ! nat fd) = 0"
    using alloc_file_slot_free [OF s(1)] unfolding s(2) by simp_all
  moreover obtain f where "vfs_files s' = (vfs_files s)[nat fd := f]" "vf_in_use f = 1" "vf_offset f = 0" "vf_flags f = flags"
      "ucast (vn_inode (vf_vnode f)) = i"
    using s(3) that [of "(vfs_files s ! nat fd)\<lparr>vf_in_use := 1, vf_flags := flags, vf_offset := 0,
        vf_vnode := \<lparr>vn_inode = of_nat (unat i), vn_size = i_size (inode_at (sec d') i), vn_type = i_type (inode_at (sec d') i), vn_sb = True\<rparr>\<rparr>"]
    by (simp add: ucast_twice)
  moreover have "disk (vfs_fs s') = d3" using s(3) by simp
  ultimately show ?thesis using i(2) d3(2,3) t(3) by auto
qed

end

context reliable_dev
begin

lemma find_existing:
  assumes "invar (disk (vfs_fs s))" "fs_wf (sec (disk (vfs_fs s)))" "terminated name" "looks_up (sec (disk (vfs_fs s))) (cstr name) i"
  shows "\<exists>d'. find_or_create D name cr s = (int (unat i), s\<lparr>vfs_fs := (vfs_fs s)\<lparr>disk := d'\<rparr>\<rparr>) \<and> invar d' \<and>
    sec d' = sec (disk (vfs_fs s))"
  using looks_up_find [OF assms] by (auto simp: find_or_create_def on_disk_def)

lemma fs_open_existing:
  assumes "invar (disk (vfs_fs s))" "fs_wf (sec (disk (vfs_fs s)))" "terminated name" "looks_up (sec (disk (vfs_fs s))) (cstr name) i"
    "fs_mounted (vfs_fs s)" "fs_free_slot s = Some k"
  shows "\<exists>d'. fs_open D name cr s = (int k, s\<lparr>vfs_fs := (vfs_fs s)\<lparr>disk := d',
      fd_table := (fd_table (vfs_fs s))[k := \<lparr>fd_used = 1, fd_inode = i, fd_offset = 0\<rparr>]\<rparr>\<rparr>) \<and>
    invar d' \<and> sec d' = sec (disk (vfs_fs s))"
  using find_existing [OF assms(1-4), of cr] assms(5,6)
  by (auto simp: fs_open_def set_fd_table_def fs_free_slot_def)

lemma write_needs_file:
  assumes "invar d" "idx < TETFS_MAX_INODES" "tetfs_write D idx buf len d = (0, d')"
  shows "i_type (inode_at (sec d) idx) = TETFS_TYPE_FILE"
proof (rule ccontr)
  assume n: "i_type (inode_at (sec d) idx) \<noteq> TETFS_TYPE_FILE"
  obtain d1 where "tetfs_read_inode D idx d = (Some (inode_at (sec d) idx), d1)" by (rule read_inode_ok [OF assms(1,2)])
  then show False using assms(3) n by (simp add: tetfs_write_def)
qed

end

lemma fs_free_slotI: "fd_used (fd_table (vfs_fs s) ! k) = 0 \<Longrightarrow> k < 8 \<Longrightarrow> \<exists>j. fs_free_slot s = Some j \<and> j < 8 \<and> fd_used (fd_table (vfs_fs s) ! j) = 0"
proof -
  assume k: "fd_used (fd_table (vfs_fs s) ! k) = 0" "k < 8"
  then have "fs_free_slot s \<noteq> None" unfolding fs_free_slot_def find_None_iff by (simp del: upt_rec_numeral) blast
  then obtain j where "fs_free_slot s = Some j" by blast
  then show ?thesis by (auto simp: fs_free_slot_def find_Some_iff)
qed

text \<open>
  Reading a file in pieces: a file opened by \<open>vfs_open\<close> starts at offset 0, and the bytes
  of any sequence of reads through its descriptor, put together, are the beginning of the
  file, cut at its end.
\<close>

theorem vfs_reads_sequential:
  assumes "reliable_dev D sec invar" "invar (disk (vfs_fs s))" "fs_wf (sec (disk (vfs_fs s)))" "length (vfs_files s) = 32"
    "terminated path" "length (cstr path) \<le> 50" "vfs_open D (Some path) flags s = (fd, s')" "0 \<le> fd"
    "sum_list (map unat lens) < 2147483648"
  shows "\<exists>i. looks_up (sec (disk (vfs_fs s'))) (cstr path) i \<and>
    (i_type (inode_at (sec (disk (vfs_fs s'))) i) = TETFS_TYPE_FILE \<longrightarrow>
       fst (vfs_reads D fd lens s') = take (sum_list (map unat lens)) (contents (sec (disk (vfs_fs s'))) (inode_at (sec (disk (vfs_fs s'))) i)))"
proof -
  note O = reliable_dev.vfs_open_ok [OF assms(1-3,5-8)]
  then obtain i f where i: "looks_up (sec (disk (vfs_fs s'))) (cstr path) i" "vfs_files s' = (vfs_files s)[nat fd := f]"
    "vf_in_use f = 1" "vf_offset f = 0" "ucast (vn_inode (vf_vnode f)) = i" by blast
  have "nat fd < 32" using O assms(8) by auto
  then have f: "vfs_files s' ! nat fd = f" "length (vfs_files s') = 32" by (simp_all add: i(2) assms(4))
  have bad: "\<not> vfs_bad_fd fd s'" using O f(1) i(3) assms(8) by (simp add: vfs_bad_fd_def)
  have "i < TETFS_MAX_INODES" using i(1) by (simp add: looks_up_in_def)
  from reliable_dev.vfs_reads_ok [OF assms(1) _ _ bad f(2) _ this, of lens] O i f(1) assms(9) show ?thesis
    by (intro exI [of _ i]) (simp add: slice_def)
qed


section \<open>Witnesses on a formatted disk\<close>

text \<open>The disk with the empty file \<open>a\<close>, mounted, with free tables.\<close>

definition vfs_boot :: "sim ata_state vfs" where
  "vfs_boot = \<lparr>vfs_fs = \<lparr>fs_mounted = True, fd_table = replicate 8 zero_fd, disk = fs_file\<rparr>, vfs_files = replicate 32 zero_vfile,
     vfs_root_sb = \<lparr>vs_name = [], vs_block_size = 0, vs_total_blocks = 0\<rparr>\<rparr>"

lemma name_a_ok: "terminated name_a" "length (cstr name_a) \<le> 50" "name_a ! 0 \<noteq> 0"
  by (simp_all add: name_a_def)

lemma vfs_boot_ok:
  obtains i where "sim_ok (disk (vfs_fs vfs_boot))" "fs_wf (sim_sec (disk (vfs_fs vfs_boot)))"
    "looks_up (sim_sec (disk (vfs_fs vfs_boot))) (cstr name_a) i" "i < TETFS_MAX_INODES"
    "inode_at (sim_sec (disk (vfs_fs vfs_boot))) i = new_inode name_a 0 TETFS_TYPE_FILE"
    "\<forall>k < TETFS_MAX_BLOCKS. \<not> blk_used (bitmap_at (sim_sec (disk (vfs_fs vfs_boot)))) k"
proof -
  have b: "disk (vfs_fs vfs_boot) = fs_file" by (simp add: vfs_boot_def)
  obtain i where i: "sim_ok fs_file" "fs_wf (sim_sec fs_file)" "i < TETFS_MAX_INODES" "0 < i"
    "inode_at (sim_sec fs_file) i = new_inode name_a 0 TETFS_TYPE_FILE"
    "tetfs_create adev name_a 0 TETFS_TYPE_FILE fs_boot = (int (unat i), fs_file)"
    "\<forall>k < TETFS_MAX_BLOCKS. \<not> blk_used (bitmap_at (sim_sec fs_file)) k" by (rule fs_file_ok)
  obtain r d where r: "tetfs_find adev name_a 0 fs_file = (r, d)" by force
  note C = ata.create_then_find [OF fs_boot_ok(1) fs_boot_wf name_a_ok(1,2) _ i(6)]
  have "int (unat i) \<noteq> -1" by linarith
  then have "fst (tetfs_find adev name_a 0 fs_file) = int (unat i)" using C by (simp only: if_False) simp
  then have "r = int (unat i)" using r by simp
  moreover obtain j where "int (unat i) = int (unat j)" "looks_up (sim_sec fs_file) (cstr name_a) j"
    using ata.find_looks_up [OF i(1,2) name_a_ok(1) r] unfolding \<open>r = int (unat i)\<close> by (meson of_nat_0_le_iff)
  then have "looks_up (sim_sec fs_file) (cstr name_a) i" by (metis of_nat_eq_iff word_unat_eq_iff)
  then show ?thesis using that i unfolding b by blast
qed

text \<open>A disk with a file of given contents, for the concrete runs.\<close>

lemma file_on_disk:
  assumes "length bs \<le> 8192"
  obtains i d where "sim_ok d" "fs_wf (sim_sec d)" "looks_up (sim_sec d) (cstr name_a) i"
    "i_type (inode_at (sim_sec d) i) = TETFS_TYPE_FILE" "contents (sim_sec d) (inode_at (sim_sec d) i) = bs"
proof -
  let ?d = "disk (vfs_fs vfs_boot)"
  obtain i where i: "sim_ok ?d" "fs_wf (sim_sec ?d)" "looks_up (sim_sec ?d) (cstr name_a) i" "i < TETFS_MAX_INODES"
    "inode_at (sim_sec ?d) i = new_inode name_a 0 TETFS_TYPE_FILE"
    "\<forall>k < TETFS_MAX_BLOCKS. \<not> blk_used (bitmap_at (sim_sec ?d)) k" by (rule vfs_boot_ok)
  obtain r d where w: "tetfs_write adev i bs (of_nat (length bs)) ?d = (r, d)" by force
  have t: "i_type (inode_at (sim_sec ?d) i) = TETFS_TYPE_FILE" using i(5) by simp
  have l: "unat (of_nat (length bs) :: u32) = length bs" using assms by (intro unat_of_nat_small) simp
  have "free_run (free_blocks_of (new_inode name_a 0 TETFS_TYPE_FILE) (bitmap_at (sim_sec ?d))) 0 ((length bs + 511) div 512)"
    using i(6) assms by (auto simp: free_run_def free_blocks_none)
  then have d: "sim_ok d" "fs_wf (sim_sec d)" "others_kept i (sim_sec ?d) (sim_sec d)"
    "\<exists>st c. inode_at (sim_sec d) i = (inode_at (sim_sec ?d) i)\<lparr>i_start_block := st, i_block_count := c, i_size := of_nat (length bs)\<rparr>"
    "contents (sim_sec d) (inode_at (sim_sec d) i) = bs"
    using ata.tetfs_write_ok [OF i(1,2,4) t _ _ w] i(5) assms l by (auto split: if_splits)
  have "looks_up (sim_sec d) (cstr name_a) i"
    using d(4) by (auto intro: looks_up_kept [OF i(3,4) d(3)])
  moreover have "i_type (inode_at (sim_sec d) i) = TETFS_TYPE_FILE" using d(4) t by auto
  ultimately show ?thesis using that d(1,2,5) by blast
qed

theorem vfs_reads_sequential_witness:
  "\<exists>fd s'. vfs_open adev (Some name_a) 1 vfs_boot = (fd, s') \<and> fst (vfs_reads adev fd [2, 3] s') = []"
proof -
  obtain i where i: "sim_ok (disk (vfs_fs vfs_boot))" "fs_wf (sim_sec (disk (vfs_fs vfs_boot)))"
    "looks_up (sim_sec (disk (vfs_fs vfs_boot))) (cstr name_a) i" "i < TETFS_MAX_INODES"
    "inode_at (sim_sec (disk (vfs_fs vfs_boot))) i = new_inode name_a 0 TETFS_TYPE_FILE" by (rule vfs_boot_ok)
  from ata.find_existing [OF i(1,2) name_a_ok(1) i(3), of False] obtain d where
    d: "find_or_create adev name_a False vfs_boot = (int (unat i), vfs_boot\<lparr>vfs_fs := (vfs_fs vfs_boot)\<lparr>disk := d\<rparr>\<rparr>)"
      "sim_ok d" "sim_sec d = sim_sec (disk (vfs_fs vfs_boot))" by blast
  obtain d3 where d3: "tetfs_read_inode adev i d = (Some (inode_at (sim_sec d) i), d3)" "sim_ok d3" "sim_sec d3 = sim_sec d"
    by (rule ata.read_inode_ok [OF d(2) i(4)])
  have slot: "find (\<lambda>j. vf_in_use (replicate 32 zero_vfile ! j) = 0) [0..<32] = Some 0"
    by (simp add: upt_rec zero_vfile_def)
  obtain s' where s': "vfs_open adev (Some name_a) 1 vfs_boot = (0, s')" "sim_sec (disk (vfs_fs s')) = sim_sec (disk (vfs_fs vfs_boot))"
    using d d3 name_a_ok(3) slot
    by (simp add: vfs_open_def on_disk_def alloc_file_slot_def vfs_boot_def Let_def)
  have len: "length (vfs_files vfs_boot) = 32" "sum_list (map unat [2, 3 :: u32]) < 2147483648" by (simp_all add: vfs_boot_def)
  from vfs_reads_sequential [OF reliable_adev i(1,2) len(1) name_a_ok(1,2) s'(1) _ len(2)] obtain j where
    j: "looks_up (sim_sec (disk (vfs_fs s'))) (cstr name_a) j"
      "i_type (inode_at (sim_sec (disk (vfs_fs s'))) j) = TETFS_TYPE_FILE \<longrightarrow>
       fst (vfs_reads adev 0 [2, 3] s') = take (sum_list (map unat [2, 3 :: u32])) (contents (sim_sec (disk (vfs_fs s'))) (inode_at (sim_sec (disk (vfs_fs s'))) j))"
    by auto
  have "j = i" using j(1) i(3) looks_up_unique unfolding s'(2) by blast
  then have "fst (vfs_reads adev 0 [2, 3] s') = []" using j(2) i(5) unfolding s'(2) by (simp add: contents_def new_inode_def)
  then show ?thesis using s'(1) by blast
qed


section \<open>The read-only flag\<close>

text \<open>
  \<open>VFS_O_RDWR\<close> shares a bit with \<open>VFS_O_RDONLY\<close>, so the check of \<open>vfs_write\<close> lets a file
  opened read-only through: the write is carried out.
\<close>

lemma rdonly_is_writable:
  assumes "\<not> vfs_bad_fd fd s" "vf_flags (vfs_files s ! nat fd) = VFS_O_RDONLY"
  shows "fst (vfs_write D fd (Some buf) len s) = fst (tetfs_write D (ucast (vn_inode (vf_vnode (vfs_files s ! nat fd)))) buf len (disk (vfs_fs s)))"
  using assms by (simp add: vfs_write_def on_disk_def Let_def split_beta)

end
