(* ===== verification/Interrupts.thy ===== *)
theory Interrupts
  imports Ports
begin

text \<open>
  Interrupt descriptors and dispatch: \<open>kernel/idt/idt.c\<close> and \<open>kernel/isr/isr.c\<close>. The
  entry points of the assembly stubs are parameters. A handler is a function of the saved
  registers, which it may change, and the machine and kernel state; one that never returns
  (it panics) is \<open>None\<close>.
\<close>

section \<open>The descriptor table\<close>

record idt_entry =
  idt_base_low :: u16
  idt_selector :: u16
  idt_zero :: u8
  idt_flags :: u8
  idt_base_high :: u16

record idt_ptr =
  idtp_limit :: u16
  idtp_base :: u32

definition idt_set_gate :: "u8 \<Rightarrow> u32 \<Rightarrow> u16 \<Rightarrow> u8 \<Rightarrow> idt_entry list \<Rightarrow> idt_entry list" where
  "idt_set_gate num base selector flags idt =
     idt[unat num := \<lparr>idt_base_low = ucast (base AND 0xFFFF), idt_selector = selector, idt_zero = 0, idt_flags = flags,
                      idt_base_high = ucast (drop_bit 16 base AND 0xFFFF)\<rparr>]"

text \<open>The argument is the address of the table.\<close>

definition idt_init :: "u32 \<Rightarrow> idt_entry list \<Rightarrow> idt_ptr \<times> idt_entry list" where
  "idt_init addr idt =
     (\<lparr>idtp_limit = 8 * 256 - 1, idtp_base = addr\<rparr>, fold (\<lambda>i. idt_set_gate (of_nat i) 0 0 0) [0..<256] idt)"

section \<open>Handlers\<close>

record registers =
  r_ds :: u32
  r_edi :: u32
  r_esi :: u32
  r_ebp :: u32
  r_esp :: u32
  r_ebx :: u32
  r_edx :: u32
  r_ecx :: u32
  r_eax :: u32
  r_int_no :: u32
  r_err_code :: u32
  r_eip :: u32
  r_cs :: u32
  r_eflags :: u32
  r_useresp :: u32
  r_ss :: u32

type_synonym ('m, 'k) handler = "registers \<Rightarrow> 'm \<times> 'k \<Rightarrow> (registers \<times> 'm \<times> 'k) option"

type_synonym ('m, 'k) handlers = "('m, 'k) handler option list" \<comment> \<open>\<open>interrupt_handlers\<close>, 256 entries\<close>

text \<open>It prints the exception and panics.\<close>

definition fatal_exception :: "('m, 'k) handler" where
  "fatal_exception regs st = None"

definition isr_register_handler :: "u8 \<Rightarrow> ('m, 'k) handler \<Rightarrow> ('m, 'k) handlers \<Rightarrow> ('m, 'k) handlers" where
  "isr_register_handler n h tbl = tbl[unat n := Some h]"

definition register_irq_handler :: "u8 \<Rightarrow> ('m, 'k) handler \<Rightarrow> ('m, 'k) handlers \<Rightarrow> ('m, 'k) handlers" where
  "register_irq_handler irq h tbl = (if 15 < irq then tbl else tbl[32 + unat irq := Some h])"

definition unregister_irq_handler :: "u8 \<Rightarrow> ('m, 'k) handlers \<Rightarrow> ('m, 'k) handlers" where
  "unregister_irq_handler irq tbl = (if 15 < irq then tbl else tbl[32 + unat irq := None])"

definition pic_remap :: "'m ports \<Rightarrow> 'm \<Rightarrow> 'm" where
  "pic_remap P m =
     (let m = io_wait P (outb P 0x20 0x11 m);
          m = io_wait P (outb P 0xA0 0x11 m);
          m = io_wait P (outb P 0x21 0x20 m);
          m = io_wait P (outb P 0xA1 0x28 m);
          m = io_wait P (outb P 0x21 0x04 m);
          m = io_wait P (outb P 0xA1 0x02 m);
          m = io_wait P (outb P 0x21 0x01 m);
          m = io_wait P (outb P 0xA1 0x01 m);
          m = outb P 0x21 0xFF m;
          m = outb P 0xA1 0xFF m;
          m = outb P 0x20 0x20 m
      in outb P 0xA0 0x20 m)"

text \<open>\<open>isr n\<close> and \<open>irq n\<close> are the addresses of the assembly stubs.\<close>

definition isr_gates :: "(nat \<Rightarrow> u32) \<Rightarrow> (nat \<Rightarrow> u32) \<Rightarrow> idt_entry list \<Rightarrow> idt_entry list" where
  "isr_gates isr irq idt =
     (let idt = fold (\<lambda>n. idt_set_gate (of_nat n) (isr n) 0x08 0x8E) [0..<32] idt;
          idt = idt_set_gate 128 (isr 128) 0x08 0xEF idt
      in fold (\<lambda>n. idt_set_gate (of_nat (32 + n)) (irq n) 0x08 0x8E) [0..<16] idt)"

definition isr_init :: "'m ports \<Rightarrow> (nat \<Rightarrow> u32) \<Rightarrow> (nat \<Rightarrow> u32) \<Rightarrow> 'm \<times> idt_entry list \<times> ('m, 'k) handlers \<Rightarrow> 'm \<times> idt_entry list \<times> ('m, 'k) handlers" where
  "isr_init P isr irq st =
     (case st of (m, idt, tbl) \<Rightarrow>
        let m = pic_remap P m;
            idt = isr_gates isr irq idt;
            tbl = isr_register_handler 6 fatal_exception tbl;
            tbl = isr_register_handler 13 fatal_exception tbl;
            tbl = isr_register_handler 14 fatal_exception tbl
        in (m, idt, tbl))"

section \<open>Dispatch\<close>

definition isr_handler :: "('m, 'k) handlers \<Rightarrow> ('m, 'k) handler" where
  "isr_handler tbl regs st =
     (case (if r_int_no regs < 256 then tbl ! unat (r_int_no regs) else None) of
        Some h \<Rightarrow> h regs st
      | None \<Rightarrow> if r_int_no regs < 32 then None else Some (regs, st))"

definition irq_handler :: "'m ports \<Rightarrow> ('m, 'k) handlers \<Rightarrow> ('m, 'k) handler" where
  "irq_handler P tbl regs st =
     (case st of (m, k) \<Rightarrow>
        let m = (if 40 \<le> r_int_no regs then outb P 0xA0 0x20 m else m);
            m = outb P 0x20 0x20 m
        in case (if r_int_no regs < 256 then tbl ! unat (r_int_no regs) else None) of
             Some h \<Rightarrow> h regs (m, k)
           | None \<Rightarrow> Some (regs, m, k))"

section \<open>What the processor reads from a gate\<close>

definition gate_offset :: "idt_entry \<Rightarrow> u32" where
  "gate_offset e = ucast (idt_base_low e) OR push_bit 16 (ucast (idt_base_high e))"

definition gate_present :: "idt_entry \<Rightarrow> bool" where
  "gate_present e \<longleftrightarrow> bit (idt_flags e) 7"

definition gate_dpl :: "idt_entry \<Rightarrow> nat" where
  "gate_dpl e = unat (drop_bit 5 (idt_flags e) AND 3)"

lemma gate_offset_set [simp]:
  "unat n < length idt \<Longrightarrow> gate_offset (idt_set_gate n base sel fl idt ! unat n) = base"
proof -
  assume n: "unat n < length idt"
  have "(ucast (ucast (base AND 0xFFFF) :: u16) :: u32) OR push_bit 16 (ucast (ucast (drop_bit 16 base AND 0xFFFF) :: u16)) = base"
  proof (rule bit_word_eqI)
    fix i :: nat assume "i < LENGTH(32)"
    moreover have "bit (0xFFFF :: u32) i \<longleftrightarrow> i < 16"
      using bit_mask_iff [where ?'a = "32 word", of 16 i] by (auto simp: mask_eq_exp_minus_1)
    moreover have "bit (0xFFFF :: u32) (i - 16) \<longleftrightarrow> i - 16 < 16"
      using bit_mask_iff [where ?'a = "32 word", of 16 "i - 16"] by (auto simp: mask_eq_exp_minus_1)
    ultimately show "bit ((ucast (ucast (base AND 0xFFFF) :: u16) :: u32) OR push_bit 16 (ucast (ucast (drop_bit 16 base AND 0xFFFF) :: u16))) i = bit base i"
      by (cases "i < 16") (auto simp: bit_simps)
  qed
  then show ?thesis using n by (simp add: idt_set_gate_def gate_offset_def)
qed

lemma length_set_gate [simp]: "length (idt_set_gate n base sel fl idt) = length idt"
  by (simp add: idt_set_gate_def)

lemma set_gate_nth:
  "v < length idt \<Longrightarrow> idt_set_gate n base sel fl idt ! v = (if v = unat n then idt_set_gate n base sel fl idt ! unat n else idt ! v)"
  by (simp add: idt_set_gate_def nth_list_update)

lemma set_gate_flags [simp]: "unat n < length idt \<Longrightarrow> idt_flags (idt_set_gate n base sel fl idt ! unat n) = fl"
  "unat n < length idt \<Longrightarrow> idt_selector (idt_set_gate n base sel fl idt ! unat n) = sel"
  by (simp_all add: idt_set_gate_def)

text \<open>Gates set for the vectors \<open>a + k\<close> of a range.\<close>

lemma fold_gates:
  assumes "length idt = 256" "a + n \<le> 256"
  shows "length (fold (\<lambda>k. idt_set_gate (of_nat (a + k)) (b k) sel fl) [0..<n] idt) = 256 \<and>
    (\<forall>v < 256. let e = fold (\<lambda>k. idt_set_gate (of_nat (a + k)) (b k) sel fl) [0..<n] idt ! v in
       if a \<le> v \<and> v < a + n then gate_offset e = b (v - a) \<and> idt_flags e = fl \<and> idt_selector e = sel else e = idt ! v)"
  using assms
proof (induction n)
  case (Suc n)
  let ?t = "fold (\<lambda>k. idt_set_gate (of_nat (a + k)) (b k) sel fl) [0..<n] idt"
  have ih: "length ?t = 256" "\<And>v. v < 256 \<Longrightarrow> if a \<le> v \<and> v < a + n then gate_offset (?t ! v) = b (v - a) \<and> idt_flags (?t ! v) = fl \<and> idt_selector (?t ! v) = sel
      else ?t ! v = idt ! v"
    using Suc by (auto simp: Let_def)
  have u: "unat (of_nat (a + n) :: u8) = a + n" using Suc.prems(2) by (intro unat_of_nat_small) simp
  have f: "fold (\<lambda>k. idt_set_gate (of_nat (a + k)) (b k) sel fl) [0..<Suc n] idt = idt_set_gate (of_nat (a + n)) (b n) sel fl ?t" by simp
  have at: "gate_offset (idt_set_gate (of_nat (a + n)) (b n) sel fl ?t ! (a + n)) = b n"
    "idt_flags (idt_set_gate (of_nat (a + n)) (b n) sel fl ?t ! (a + n)) = fl"
    "idt_selector (idt_set_gate (of_nat (a + n)) (b n) sel fl ?t ! (a + n)) = sel"
    using gate_offset_set [of "of_nat (a + n)" ?t "b n" sel fl] set_gate_flags [of "of_nat (a + n)" ?t "b n" sel fl] u ih(1) Suc.prems(2) by (simp_all del: of_nat_add)
  have "let e = idt_set_gate (of_nat (a + n)) (b n) sel fl ?t ! v in
       if a \<le> v \<and> v < a + Suc n then gate_offset e = b (v - a) \<and> idt_flags e = fl \<and> idt_selector e = sel else e = idt ! v" if v: "v < 256" for v
  proof (cases "v = a + n")
    case True
    then show ?thesis using at by (simp add: Let_def)
  next
    case False
    then have "idt_set_gate (of_nat (a + n)) (b n) sel fl ?t ! v = ?t ! v"
      using set_gate_nth [of v ?t "of_nat (a + n)"] ih(1) v u by (simp del: of_nat_add)
    moreover have "a \<le> v \<and> v < a + Suc n \<longleftrightarrow> a \<le> v \<and> v < a + n" using False by auto
    ultimately show ?thesis using ih(2) [OF v] by (simp add: Let_def del: of_nat_add)
  qed
  then show ?case unfolding f using ih(1) by (simp del: of_nat_add)
qed (auto simp: Let_def)

lemma fold_gates_nth:
  assumes "length idt = 256" "a + n \<le> 256" "v < 256"
  shows "a \<le> v \<Longrightarrow> v < a + n \<Longrightarrow> gate_offset (fold (\<lambda>k. idt_set_gate (of_nat (a + k)) (b k) sel fl) [0..<n] idt ! v) = b (v - a)"
    "a \<le> v \<Longrightarrow> v < a + n \<Longrightarrow> idt_flags (fold (\<lambda>k. idt_set_gate (of_nat (a + k)) (b k) sel fl) [0..<n] idt ! v) = fl"
    "a \<le> v \<Longrightarrow> v < a + n \<Longrightarrow> idt_selector (fold (\<lambda>k. idt_set_gate (of_nat (a + k)) (b k) sel fl) [0..<n] idt ! v) = sel"
    "v < a \<or> a + n \<le> v \<Longrightarrow> fold (\<lambda>k. idt_set_gate (of_nat (a + k)) (b k) sel fl) [0..<n] idt ! v = idt ! v"
  using fold_gates [OF assms(1,2), of b sel fl] assms(3) by (auto simp: Let_def simp del: of_nat_add)

lemmas fold_gates_at = fold_gates_nth [where a = 0, simplified]

lemma length_fold_gates: "length (fold (\<lambda>k. idt_set_gate (g k) (b k) sel fl) ks idt) = length idt"
  by (induction ks arbitrary: idt) simp_all

section \<open>The table the kernel installs\<close>

text \<open>
  C37. After idt_init and isr_init the interrupt table is exactly as intended: vectors 0-31 and 128 lead to their
  exception stubs and 32-47 to the stubs of the sixteen hardware lines, all in the kernel code segment; every other
  vector is not present; and of the present gates only 128, the system call, may be raised from ring 3.
\<close>
theorem interrupt_table_correct:
  assumes "length idt = 256" and "v < 256"
    and "isr_init P isr irq (m, snd (idt_init addr idt), tbl) = (m', idt', tbl')"
  shows "(gate_present (idt' ! v) \<longleftrightarrow> v < 48 \<or> v = 128) \<and>
     (v < 48 \<or> v = 128 \<longrightarrow> gate_offset (idt' ! v) = (if 32 \<le> v \<and> v < 48 then irq (v - 32) else isr v) \<and> idt_selector (idt' ! v) = 0x08) \<and>
     (v < 48 \<or> v = 128 \<longrightarrow> (gate_dpl (idt' ! v) = 3 \<longleftrightarrow> v = 128)) \<and> length idt' = 256"
proof -
  define t0 where "t0 = snd (idt_init addr idt)"
  define t1 where "t1 = fold (\<lambda>n. idt_set_gate (of_nat n) (isr n) 0x08 0x8E) [0..<32] t0"
  define t2 where "t2 = idt_set_gate 128 (isr 128) 0x08 0xEF t1"
  have idt': "idt' = fold (\<lambda>n. idt_set_gate (of_nat (32 + n)) (irq n) 0x08 0x8E) [0..<16] t2"
    using assms(3) unfolding isr_init_def isr_gates_def Let_def t0_def t1_def t2_def
    by (simp del: upt_rec_numeral of_nat_add)
  have l: "length t0 = 256" "length t1 = 256" "length t2 = 256"
    using assms(1) by (simp_all add: t0_def t1_def t2_def idt_init_def length_fold_gates del: upt_rec_numeral)
  have z: "idt_flags (t0 ! v) = 0"
    using fold_gates_at(2) [of idt 256 v "\<lambda>k. 0" 0 0] assms(1,2) by (simp add: t0_def idt_init_def del: upt_rec_numeral)
  have t1v: "v < 32 \<Longrightarrow> gate_offset (t1 ! v) = isr v" "v < 32 \<Longrightarrow> idt_flags (t1 ! v) = 0x8E"
    "v < 32 \<Longrightarrow> idt_selector (t1 ! v) = 0x08" "32 \<le> v \<Longrightarrow> t1 ! v = t0 ! v"
    using fold_gates_at [of t0 32 v isr "0x08" "0x8E"] l(1) assms(2) by (simp_all add: t1_def del: upt_rec_numeral)
  have t2v: "v = 128 \<Longrightarrow> gate_offset (t2 ! v) = isr v \<and> idt_flags (t2 ! v) = 0xEF \<and> idt_selector (t2 ! v) = 0x08" "v \<noteq> 128 \<Longrightarrow> t2 ! v = t1 ! v"
    using gate_offset_set [of 128 t1 "isr 128" "0x08" "0xEF"] set_gate_flags [of 128 t1 "isr 128" "0x08" "0xEF"] set_gate_nth [of v t1 128] l(2) assms(2)
    by (simp_all add: t2_def)
  have t3v: "32 \<le> v \<Longrightarrow> v < 48 \<Longrightarrow> gate_offset (idt' ! v) = irq (v - 32)" "32 \<le> v \<Longrightarrow> v < 48 \<Longrightarrow> idt_flags (idt' ! v) = 0x8E"
    "32 \<le> v \<Longrightarrow> v < 48 \<Longrightarrow> idt_selector (idt' ! v) = 0x08" "v < 32 \<or> 48 \<le> v \<Longrightarrow> idt' ! v = t2 ! v"
    using fold_gates_nth [of t2 32 16 v irq "0x08" "0x8E"] l(3) assms(2) by (simp_all add: idt' del: upt_rec_numeral of_nat_add)
  consider "v < 32" | "32 \<le> v" "v < 48" | "v = 128" | "48 \<le> v" "v \<noteq> 128" by linarith
  then have *: "(gate_present (idt' ! v) \<longleftrightarrow> v < 48 \<or> v = 128) \<and>
     (v < 48 \<or> v = 128 \<longrightarrow> gate_offset (idt' ! v) = (if 32 \<le> v \<and> v < 48 then irq (v - 32) else isr v) \<and> idt_selector (idt' ! v) = 0x08) \<and>
     (v < 48 \<or> v = 128 \<longrightarrow> (gate_dpl (idt' ! v) = 3 \<longleftrightarrow> v = 128))"
  proof cases
    case 1
    then show ?thesis using t1v t2v t3v by (simp add: gate_present_def gate_dpl_def)
  next
    case 2
    then show ?thesis using t3v by (simp add: gate_present_def gate_dpl_def)
  next
    case 3
    then show ?thesis using t2v t3v by (simp add: gate_present_def gate_dpl_def)
  next
    case 4
    then show ?thesis using t1v t2v t3v z by (simp add: gate_present_def gate_dpl_def)
  qed
  have "length idt' = 256" using l(3) by (simp add: idt' length_fold_gates del: upt_rec_numeral)
  with * show ?thesis by blast
qed

lemma interrupt_table_correct_witness:
  "\<exists>m' idt' tbl'. isr_init (log_ports (\<lambda>_. 0)) (\<lambda>n. 0x100000 + of_nat n) (\<lambda>n. 0x200000 + of_nat n)
       ([], snd (idt_init 0x5000 (replicate 256 \<lparr>idt_base_low = 0, idt_selector = 0, idt_zero = 0, idt_flags = 0, idt_base_high = 0\<rparr>)), replicate 256 (None :: (_, unit) handler option))
     = (m', idt', tbl') \<and> gate_present (idt' ! 33) \<and> gate_offset (idt' ! 33) = 0x200001 \<and> \<not> gate_present (idt' ! 200)"
proof -
  let ?idt = "replicate 256 \<lparr>idt_base_low = 0, idt_selector = 0, idt_zero = 0, idt_flags = 0, idt_base_high = 0\<rparr>"
  obtain m' idt' tbl' where *: "isr_init (log_ports (\<lambda>_. 0)) (\<lambda>n. 0x100000 + of_nat n) (\<lambda>n. 0x200000 + of_nat n)
       ([], snd (idt_init 0x5000 ?idt), replicate 256 (None :: (_, unit) handler option)) = (m', idt', tbl')"
    by (metis prod_cases3)
  show ?thesis
    using * interrupt_table_correct [of ?idt 33, OF _ _ *] interrupt_table_correct [of ?idt 200, OF _ _ *] by auto
qed

text \<open>A registered line is acknowledged at its controllers, then its handler runs.\<close>

lemma irq_dispatch:
  assumes "length tbl = 256" "irq \<le> 15" "r_int_no regs = 32 + ucast irq"
  shows "irq_handler P (register_irq_handler irq h tbl) regs (m, k) =
     h regs (outs P ((if 8 \<le> irq then [(0xA0, 0x20)] else []) @ [(0x20, 0x20)]) m, k)"
proof -
  have i: "unat irq \<le> 15" using assms(2) by (simp add: word_le_nat_alt)
  then have r: "unat (r_int_no regs) = 32 + unat irq"
    by (simp add: assms(3) unat_plus_small)
  have "r_int_no regs < 256" "40 \<le> r_int_no regs \<longleftrightarrow> 8 \<le> irq"
    using r i by (auto simp: word_less_nat_alt word_le_nat_alt)
  then show ?thesis
    using assms(1,2) i r by (simp add: irq_handler_def register_irq_handler_def not_less [symmetric] Let_def)
qed

end
