(* ===== verification/Gdt.thy ===== *)
theory Gdt
  imports Prelude
begin

text \<open>
  The segment table and the task state segment, \<open>kernel/gdt/gdt.c\<close>. The addresses of the
  kernel's static objects are arguments. \<open>seg_base\<close> and \<open>seg_limit\<close> read a descriptor as
  the processor does.
\<close>

record gdt_entry =
  limit_low :: u16
  base_low :: u16
  base_middle :: u8
  access :: u8
  granularity :: u8
  base_high :: u8

record gdt_ptr =
  gp_limit :: u16
  gp_base :: u32

record tss_entry =
  prev_tss :: u32
  esp0 :: u32
  ss0 :: u32
  esp1 :: u32
  ss1 :: u32
  esp2 :: u32
  ss2 :: u32
  tss_cr3 :: u32
  tss_eip :: u32
  tss_eflags :: u32
  tss_eax :: u32
  tss_ecx :: u32
  tss_edx :: u32
  tss_ebx :: u32
  tss_esp :: u32
  tss_ebp :: u32
  tss_esi :: u32
  tss_edi :: u32
  tss_es :: u32
  tss_cs :: u32
  tss_ss :: u32
  tss_ds :: u32
  tss_fs :: u32
  tss_gs :: u32
  tss_ldt :: u32
  tss_trap :: u16
  iomap_base :: u16

text \<open>The structure is packed: 25 words and two half words.\<close>

abbreviation sizeof_tss :: u32 where "sizeof_tss \<equiv> 25 * 4 + 2 * 2"

definition tss_zero :: tss_entry where
  "tss_zero = \<lparr>prev_tss = 0, esp0 = 0, ss0 = 0, esp1 = 0, ss1 = 0, esp2 = 0, ss2 = 0, tss_cr3 = 0, tss_eip = 0, tss_eflags = 0,
     tss_eax = 0, tss_ecx = 0, tss_edx = 0, tss_ebx = 0, tss_esp = 0, tss_ebp = 0, tss_esi = 0, tss_edi = 0, tss_es = 0, tss_cs = 0,
     tss_ss = 0, tss_ds = 0, tss_fs = 0, tss_gs = 0, tss_ldt = 0, tss_trap = 0, iomap_base = 0\<rparr>"

definition gdt_set_gate :: "nat \<Rightarrow> u32 \<Rightarrow> u32 \<Rightarrow> u8 \<Rightarrow> u8 \<Rightarrow> gdt_entry list \<Rightarrow> gdt_entry list" where
  "gdt_set_gate num base limit acc gran gdt =
     gdt[num := \<lparr>limit_low = ucast (limit AND 0xFFFF), base_low = ucast (base AND 0xFFFF),
                 base_middle = ucast (drop_bit 16 base AND 0xFF), access = acc,
                 granularity = ucast (drop_bit 16 limit AND 0x0F) OR (gran AND 0xF0),
                 base_high = ucast (drop_bit 24 base AND 0xFF)\<rparr>]"

definition tss_set_kernel_stack :: "u32 \<Rightarrow> tss_entry \<Rightarrow> tss_entry" where
  "tss_set_kernel_stack sp tss = tss\<lparr>esp0 := sp\<rparr>"

text \<open>\<open>tss_addr\<close> and \<open>stack_addr\<close> are \<open>&tss\<close> and \<open>kernel_stack\<close>.\<close>

definition tss_init :: "u32 \<Rightarrow> u32 \<Rightarrow> gdt_entry list \<Rightarrow> gdt_entry list \<times> tss_entry" where
  "tss_init tss_addr stack_addr gdt =
     (gdt_set_gate 5 tss_addr (sizeof_tss - 1) 0x89 0x00 gdt,
      tss_zero\<lparr>ss0 := 0x10, esp0 := stack_addr + 4096, tss_cs := 0x0B, tss_ss := 0x13, tss_ds := 0x13, tss_es := 0x13,
               tss_fs := 0x13, tss_gs := 0x13, iomap_base := ucast sizeof_tss\<rparr>)"

definition gdt_init :: "u32 \<Rightarrow> u32 \<Rightarrow> u32 \<Rightarrow> gdt_entry list \<Rightarrow> gdt_ptr \<times> gdt_entry list \<times> tss_entry" where
  "gdt_init gdt_addr tss_addr stack_addr gdt =
     (let gdt = gdt_set_gate 0 0 0 0 0 gdt;
          gdt = gdt_set_gate 1 0 0xFFFFFFFF 0x9A 0xCF gdt;
          gdt = gdt_set_gate 2 0 0xFFFFFFFF 0x92 0xCF gdt;
          gdt = gdt_set_gate 3 0 0xFFFFFFFF 0xFA 0xCF gdt;
          gdt = gdt_set_gate 4 0 0xFFFFFFFF 0xF2 0xCF gdt
      in (\<lparr>gp_limit = 8 * 6 - 1, gp_base = gdt_addr\<rparr>, tss_init tss_addr stack_addr gdt))"

section \<open>Descriptors as the processor reads them\<close>

definition seg_base :: "gdt_entry \<Rightarrow> u32" where
  "seg_base e = ucast (base_low e) OR push_bit 16 (ucast (base_middle e)) OR push_bit 24 (ucast (base_high e))"

definition seg_limit20 :: "gdt_entry \<Rightarrow> u32" where
  "seg_limit20 e = ucast (limit_low e) OR push_bit 16 (ucast (granularity e AND 0x0F))"

text \<open>The highest offset: with the granularity bit set the limit counts 4 KB pages.\<close>

definition seg_limit :: "gdt_entry \<Rightarrow> u32" where
  "seg_limit e = (if bit (granularity e) 7 then push_bit 12 (seg_limit20 e) OR 0xFFF else seg_limit20 e)"

definition seg_dpl :: "gdt_entry \<Rightarrow> nat" where
  "seg_dpl e = unat (drop_bit 5 (access e) AND 3)"

definition seg_code :: "gdt_entry \<Rightarrow> bool" where
  "seg_code e \<longleftrightarrow> bit (access e) 4 \<and> bit (access e) 3"

lemma mask_bits:
  "bit (0xFFFF :: int) i \<longleftrightarrow> i < 16" "bit (0xFF :: int) i \<longleftrightarrow> i < 8"
  using bit_mask_iff [where ?'a = int, of 16 i] bit_mask_iff [where ?'a = int, of 8 i]
  by (simp_all add: mask_eq_exp_minus_1)

lemma seg_base_set:
  assumes "n < length gdt" shows "seg_base (gdt_set_gate n base limit acc gran gdt ! n) = base"
proof -
  have "(ucast (ucast (base AND 0xFFFF) :: u16) :: u32) OR push_bit 16 (ucast (ucast (drop_bit 16 base AND 0xFF) :: u8))
      OR push_bit 24 (ucast (ucast (drop_bit 24 base AND 0xFF) :: u8)) = base"
  proof (rule bit_word_eqI)
    fix i :: nat assume i: "i < LENGTH(32)"
    then consider "i < 16" | "16 \<le> i" "i < 24" | "24 \<le> i" "i < 32" by fastforce
    then show "bit ((ucast (ucast (base AND 0xFFFF) :: u16) :: u32) OR push_bit 16 (ucast (ucast (drop_bit 16 base AND 0xFF) :: u8))
        OR push_bit 24 (ucast (ucast (drop_bit 24 base AND 0xFF) :: u8))) i = bit base i"
      by cases (auto simp: bit_simps mask_bits)
  qed
  then show ?thesis using assms by (simp add: gdt_set_gate_def seg_base_def)
qed

text \<open>The flat model: four segments of 4 GB, two for the kernel and two for user programs, and the task segment.\<close>

lemma gdt_init_segments:
  assumes "length gdt = 6" "gdt_init ga ta sa gdt = (gp, gdt', tss)"
  shows "\<forall>n \<in> {1, 2, 3, 4}. seg_base (gdt' ! n) = 0 \<and> seg_limit (gdt' ! n) = 0xFFFFFFFF"
    "map (\<lambda>n. seg_dpl (gdt' ! n)) [1, 2, 3, 4] = [0, 0, 3, 3]"
    "map (\<lambda>n. seg_code (gdt' ! n)) [1, 2, 3, 4] = [True, False, True, False]"
    "seg_base (gdt' ! 5) = ta \<and> seg_limit (gdt' ! 5) = 103"
    "esp0 tss = sa + 4096 \<and> ss0 tss = 0x10"
proof -
  have 5: "gdt' ! 5 = gdt_set_gate 5 ta (sizeof_tss - 1) 0x89 0x00 gdt ! 5"
    using assms by (auto simp: gdt_init_def Let_def tss_init_def gdt_set_gate_def)
  show "seg_base (gdt' ! 5) = ta \<and> seg_limit (gdt' ! 5) = 103"
    using seg_base_set [of 5 gdt ta] assms(1) unfolding 5
    by (simp add: seg_limit_def seg_limit20_def) (simp add: gdt_set_gate_def)
qed (use assms in \<open>auto simp: gdt_init_def Let_def tss_init_def gdt_set_gate_def seg_base_def seg_limit_def seg_limit20_def seg_dpl_def seg_code_def\<close>)

end
