(* ===== verification/Timer.thy ===== *)
theory Timer
  imports Interrupts
begin

text \<open>
  The timer, \<open>kernel/timer/timer.c\<close>: its tick counter, the scheduler hook called on every
  tick, and the programming of the interval timer. A hook that does not return has no result.
\<close>

record 'k timer =
  tick_count :: u32
  sched_hook :: "(registers \<Rightarrow> 'k \<Rightarrow> 'k option) option"
  sched_hook_enabled :: u8

definition timer_set_scheduler :: "(registers \<Rightarrow> 'k \<Rightarrow> 'k option) option \<Rightarrow> 'k timer \<Rightarrow> 'k timer" where
  "timer_set_scheduler cb t = t\<lparr>sched_hook := cb, sched_hook_enabled := (if cb \<noteq> None then 1 else 0)\<rparr>"

definition timer_callback :: "registers \<Rightarrow> 'k timer \<times> 'k \<Rightarrow> ('k timer \<times> 'k) option" where
  "timer_callback regs st =
     (case st of (t, k) \<Rightarrow>
        let t = t\<lparr>tick_count := tick_count t + 1\<rparr>
        in case sched_hook t of
             Some hook \<Rightarrow> if sched_hook_enabled t \<noteq> 0 then map_option (Pair t) (hook regs k) else Some (t, k)
           | None \<Rightarrow> Some (t, k))"

text \<open>The callback as the interrupt handler of line 0.\<close>

definition timer_irq :: "('m, 'k timer \<times> 'k) handler" where
  "timer_irq regs st = map_option (\<lambda>tk. (regs, fst st, tk)) (timer_callback regs (snd st))"

text \<open>A frequency of 0 divides by zero and has no result.\<close>

definition timer_init :: "'m ports \<Rightarrow> u32 \<Rightarrow> 'm \<times> ('m, 'k timer \<times> 'k) handlers \<times> 'k timer \<Rightarrow> ('m \<times> ('m, 'k timer \<times> 'k) handlers \<times> 'k timer) option" where
  "timer_init P frequency st =
     (case st of (m, tbl, t) \<Rightarrow>
        let t = t\<lparr>tick_count := 0, sched_hook := None, sched_hook_enabled := 0\<rparr>;
            tbl = register_irq_handler 0 timer_irq tbl
        in if frequency = 0 then None
           else let divisor = 1193180 div frequency;
                    m = outb P 0x43 0x36 m;
                    low = ucast (divisor AND 0xFF);
                    high = ucast (drop_bit 8 divisor AND 0xFF);
                    m = outb P 0x40 low m;
                    m = outb P 0x40 high m;
                    m = mask_clear P 0x21 0x01 m
                in Some (m, tbl, t))"

definition timer_ticks :: "'k timer \<Rightarrow> u32" where
  "timer_ticks t = tick_count t"

text \<open>\<open>hlt\<close> waits for the next interrupt; here the interrupts that come are a list of saved registers.\<close>

fun timer_wait_loop :: "u32 \<Rightarrow> registers list \<Rightarrow> 'k timer \<times> 'k \<Rightarrow> ('k timer \<times> 'k) option" where
  "timer_wait_loop end_tick rs st =
     (if tick_count (fst st) < end_tick
      then case rs of [] \<Rightarrow> None | r # rs' \<Rightarrow> Option.bind (timer_callback r st) (timer_wait_loop end_tick rs')
      else Some st)"

declare timer_wait_loop.simps [simp del]

definition timer_wait :: "u32 \<Rightarrow> registers list \<Rightarrow> 'k timer \<times> 'k \<Rightarrow> ('k timer \<times> 'k) option" where
  "timer_wait ticks rs st = timer_wait_loop (tick_count (fst st) + ticks) rs st"

lemma callback_tick: "timer_callback r st = Some st' \<Longrightarrow> tick_count (fst st') = tick_count (fst st) + 1"
  by (cases st) (auto simp: timer_callback_def Let_def split: option.splits if_splits)

text \<open>The interrupts \<open>rs\<close> one after the other.\<close>

definition run_ticks_of :: "registers list \<Rightarrow> 'k timer \<times> 'k \<Rightarrow> ('k timer \<times> 'k) option" where
  "run_ticks_of rs st = fold (\<lambda>r acc. Option.bind acc (timer_callback r)) rs (Some st)"

lemma run_ticks_of_simps [simp]: "run_ticks_of [] st = Some st"
  "run_ticks_of (r # rs) st = Option.bind (timer_callback r st) (run_ticks_of rs)"
proof -
  have "fold (\<lambda>r acc. Option.bind acc (timer_callback r)) rs None = None" for rs :: "registers list"
    by (induction rs) simp_all
  then show "run_ticks_of (r # rs) st = Option.bind (timer_callback r st) (run_ticks_of rs)"
    by (cases "timer_callback r st") (simp_all add: run_ticks_of_def)
qed (simp add: run_ticks_of_def)

text \<open>\<open>timer_wait\<close> returns after exactly the ticks asked for, when the counter does not wrap meanwhile.\<close>

lemma timer_wait_loop_returns:
  "tick_count (fst st) \<le> e \<Longrightarrow> length rs = unat (e - tick_count (fst st)) \<Longrightarrow>
     timer_wait_loop e (rs @ rest) st = run_ticks_of rs st"
proof (induction rs arbitrary: st)
  case Nil
  then show ?case by (subst timer_wait_loop.simps) (simp add: unat_eq_0)
next
  case (Cons r rs)
  from Cons.prems have lt: "tick_count (fst st) < e"
    by (metis eq_iff_diff_eq_0 length_Cons nat.simps(3) order_le_less unsigned_0)
  then have "tick_count (fst st) + 1 \<le> e" by (rule inc_le)
  moreover have "length rs = unat (e - (tick_count (fst st) + 1))"
    using Cons.prems(2) lt unat_minus_one [of "e - tick_count (fst st)"] by (simp add: diff_diff_add)
  ultimately have "timer_wait_loop e (rs @ rest) st' = run_ticks_of rs st'" if "timer_callback r st = Some st'" for st'
    using Cons.IH [of st'] callback_tick [OF that] by simp
  then show ?case using lt by (subst timer_wait_loop.simps) (cases "timer_callback r st", simp_all)
qed

lemma timer_wait_returns:
  assumes "unat (tick_count t) + unat n < 2 ^ 32" "length rs = unat n"
  shows "timer_wait n (rs @ rest) (t, k) = run_ticks_of rs (t, k)"
proof -
  have "tick_count t \<le> tick_count t + n" using assms(1) by (simp add: word_le_nat_alt unat_plus_small)
  then show ?thesis
    unfolding timer_wait_def using assms by (intro timer_wait_loop_returns) simp_all
qed

text \<open>When the sum wraps it does not wait at all.\<close>

lemma timer_wait_wraps: "timer_wait 0x10 rs (t\<lparr>tick_count := 0xFFFFFFF8\<rparr>, k) = Some (t\<lparr>tick_count := 0xFFFFFFF8\<rparr>, k)"
  unfolding timer_wait_def by (subst timer_wait_loop.simps) simp

text \<open>At the kernel's 100 ticks a second the divisor fits its two bytes.\<close>

lemma timer_init_100:
  "timer_init (log_ports (\<lambda>p. 0xFF)) 100 ([], tbl, t) =
     Some ([(0x43, 0x36), (0x40, 0x9B), (0x40, 0x2E), (0x21, 0xFE)], register_irq_handler 0 timer_irq tbl,
           t\<lparr>tick_count := 0, sched_hook := None, sched_hook_enabled := 0\<rparr>)"
  by (simp add: timer_init_def mask_clear_def Let_def)

end
