(* ===== verification/Vga.thy ===== *)
theory Vga
  imports Ports
begin

text \<open>
  The text console, \<open>kernel/vga/vga.c\<close>: the cells of video memory, the cursor and the
  current colour. \<open>vga_update_cursor\<close> reaches the display controller, so an operation
  maps the machine and the console state. A string is the list of its characters, without
  the terminating NUL.
\<close>

abbreviation VGA_WIDTH :: u32 where "VGA_WIDTH \<equiv> 80"
abbreviation VGA_HEIGHT :: u32 where "VGA_HEIGHT \<equiv> 50"
abbreviation VGA_COLOR_BLACK :: u8 where "VGA_COLOR_BLACK \<equiv> 0"
abbreviation VGA_COLOR_WHITE :: u8 where "VGA_COLOR_WHITE \<equiv> 15"

record vga =
  vga_buffer :: "u16 list"
  vga_index :: u32
  vga_current_color :: u8

definition vga_update_cursor :: "'m ports \<Rightarrow> 'm \<times> vga \<Rightarrow> 'm \<times> vga" where
  "vga_update_cursor P s =
     (case s of (m, v) \<Rightarrow>
        let m = outb P 0x3D4 0x0F m;
            m = outb P 0x3D5 (ucast (vga_index v AND 0xFF)) m;
            m = outb P 0x3D4 0x0E m;
            m = outb P 0x3D5 (ucast (drop_bit 8 (vga_index v) AND 0xFF)) m
        in (m, v))"

text \<open>\<open>char\<close> is signed on this target, so the conversion to 16 bits extends the sign.\<close>

definition vga_entry :: "u8 \<Rightarrow> u8 \<Rightarrow> u16" where
  "vga_entry c color = scast c OR push_bit 8 (ucast color)"

definition vga_color_byte :: "u8 \<Rightarrow> u8 \<Rightarrow> u8" where
  "vga_color_byte fg bg = fg OR push_bit 4 bg"

definition vga_clear :: "'m ports \<Rightarrow> 'm \<times> vga \<Rightarrow> 'm \<times> vga" where
  "vga_clear P s =
     (case s of (m, v) \<Rightarrow>
        let buf = fold (\<lambda>i b. b[i := vga_entry 0x20 (vga_current_color v)]) [0..<80 * 50] (vga_buffer v)
        in vga_update_cursor P (m, v\<lparr>vga_buffer := buf, vga_index := 0\<rparr>))"

definition vga_set_color :: "u8 \<Rightarrow> u8 \<Rightarrow> vga \<Rightarrow> vga" where
  "vga_set_color fg bg v = v\<lparr>vga_current_color := vga_color_byte fg bg\<rparr>"

definition vga_init :: "'m ports \<Rightarrow> 'm \<times> vga \<Rightarrow> 'm \<times> vga" where
  "vga_init P s = (case s of (m, v) \<Rightarrow> vga_clear P (m, v\<lparr>vga_current_color := vga_color_byte VGA_COLOR_WHITE VGA_COLOR_BLACK\<rparr>))"

definition vga_newline :: "vga \<Rightarrow> vga" where
  "vga_newline v =
     (let col = vga_index v mod VGA_WIDTH;
          idx = (if col \<noteq> 0 then vga_index v + (VGA_WIDTH - col) else vga_index v)
      in if VGA_WIDTH * VGA_HEIGHT \<le> idx
         then let buf = fold (\<lambda>i b. b[i := b ! (i + 80)]) [0..<80 * 49] (vga_buffer v);
                  buf = fold (\<lambda>i b. b[i := vga_entry 0x20 (vga_current_color v)]) [80 * 49..<80 * 50] buf
              in v\<lparr>vga_buffer := buf, vga_index := VGA_WIDTH * (VGA_HEIGHT - 1)\<rparr>
         else v\<lparr>vga_index := idx\<rparr>)"

definition vga_putchar :: "'m ports \<Rightarrow> u8 \<Rightarrow> 'm \<times> vga \<Rightarrow> 'm \<times> vga" where
  "vga_putchar P c s =
     (case s of (m, v) \<Rightarrow>
        if c = 0x0A then (m, vga_newline v)
        else if c = 0x0D then (m, v\<lparr>vga_index := vga_index v div VGA_WIDTH * VGA_WIDTH\<rparr>)
        else if c = 0x08 then
          if 0 < vga_index v
          then (m, v\<lparr>vga_index := vga_index v - 1,
                     vga_buffer := (vga_buffer v)[unat (vga_index v - 1) := vga_entry 0x20 (vga_current_color v)]\<rparr>)
          else (m, v)
        else
          let v = v\<lparr>vga_buffer := (vga_buffer v)[unat (vga_index v) := vga_entry c (vga_current_color v)],
                    vga_index := vga_index v + 1\<rparr>;
              v = (if VGA_WIDTH * VGA_HEIGHT \<le> vga_index v then vga_newline v else v)
          in vga_update_cursor P (m, v))"

definition vga_write :: "'m ports \<Rightarrow> bytes \<Rightarrow> 'm \<times> vga \<Rightarrow> 'm \<times> vga" where
  "vga_write P str s = fold (vga_putchar P) str s"

definition vga_write_color :: "'m ports \<Rightarrow> bytes \<Rightarrow> u8 \<Rightarrow> u8 \<Rightarrow> 'm \<times> vga \<Rightarrow> 'm \<times> vga" where
  "vga_write_color P str fg bg s =
     (case s of (m, v) \<Rightarrow>
        let old_color = vga_current_color v;
            (m, v) = vga_write P str (m, vga_set_color fg bg v)
        in (m, v\<lparr>vga_current_color := old_color\<rparr>))"

definition vga_set_cursor :: "'m ports \<Rightarrow> u32 \<Rightarrow> u32 \<Rightarrow> 'm \<times> vga \<Rightarrow> 'm \<times> vga" where
  "vga_set_cursor P x y s =
     (case s of (m, v) \<Rightarrow>
        let x = (if VGA_WIDTH \<le> x then VGA_WIDTH - 1 else x);
            y = (if VGA_HEIGHT \<le> y then VGA_HEIGHT - 1 else y)
        in vga_update_cursor P (m, v\<lparr>vga_index := y * VGA_WIDTH + x\<rparr>))"

definition vga_get_cursor :: "vga \<Rightarrow> u32 \<times> u32" where
  "vga_get_cursor v = (vga_index v mod VGA_WIDTH, vga_index v div VGA_WIDTH)"

section \<open>The loops as list operations\<close>

lemma fold_set_cells:
  "a \<le> b \<Longrightarrow> b \<le> length xs \<Longrightarrow> fold (\<lambda>i ys. ys[i := e]) [a..<b] xs = take a xs @ replicate (b - a) e @ drop b xs"
proof (induction b)
  case (Suc b)
  show ?case
  proof (cases "a = Suc b")
    case False
    then have ab: "a \<le> b" using Suc.prems by simp
    then have "fold (\<lambda>i ys. ys[i := e]) [a..<Suc b] xs = (take a xs @ replicate (b - a) e @ drop b xs)[b := e]"
      using Suc by simp
    also have "\<dots> = take a xs @ replicate (b - a) e @ e # drop (Suc b) xs"
      using ab Suc.prems by (simp add: list_update_append Cons_nth_drop_Suc [symmetric])
    also have "\<dots> = take a xs @ replicate (Suc b - a) e @ drop (Suc b) xs"
      using ab by (simp add: Suc_diff_le replicate_append_same flip: append_Cons)
    finally show ?thesis .
  qed simp
qed simp

text \<open>Copying each cell from the one a line below moves the lines up.\<close>

lemma fold_shift:
  "n + w \<le> length xs \<Longrightarrow> 0 < w \<Longrightarrow> fold (\<lambda>i ys. ys[i := ys ! (i + w)]) [0..<n] xs = take n (drop w xs) @ drop n xs"
proof (induction n)
  case (Suc n)
  have at: "(take n (drop w xs) @ drop n xs) ! (n + w) = xs ! (n + w)"
    using Suc.prems by (simp add: nth_append)
  from Suc have "fold (\<lambda>i ys. ys[i := ys ! (i + w)]) [0..<Suc n] xs
      = (take n (drop w xs) @ drop n xs)[n := (take n (drop w xs) @ drop n xs) ! (n + w)]" by simp
  also have "\<dots> = take n (drop w xs) @ xs ! (n + w) # drop (Suc n) xs"
    using Suc.prems unfolding at by (simp add: list_update_append Cons_nth_drop_Suc [symmetric])
  also have "\<dots> = take (Suc n) (drop w xs) @ drop (Suc n) xs"
    using Suc.prems by (simp add: take_Suc_conv_app_nth add.commute)
  finally show ?case .
qed simp

lemma scroll_buffer:
  assumes "length xs = 4000"
  shows "fold (\<lambda>i b. b[i := e]) [80 * 49..<80 * 50] (fold (\<lambda>i b. b[i := b ! (i + 80)]) [0..<80 * 49] xs)
    = drop 80 xs @ replicate 80 e"
  using fold_shift [of 3920 80 xs] fold_set_cells [of 3920 4000 "take 3920 (drop 80 xs) @ drop 3920 xs" e] assms
  by (simp del: upt_rec_numeral)

lemma clear_buffer: "length xs = 4000 \<Longrightarrow> fold (\<lambda>i b. b[i := e]) [0..<80 * 50] xs = replicate 4000 e"
  using fold_set_cells [of 0 4000 xs e] by (simp del: upt_rec_numeral)

section \<open>What the screen shows\<close>

text \<open>
  The text as an unbounded tape of cells, a newline filling the line it ends; nothing is
  added for a newline at the start of a line. \<open>screen_of\<close> says that the console shows the
  tape from its line \<open>k\<close> on, with the cursor at its end.
\<close>

abbreviation blank :: "u8 \<Rightarrow> u16" where "blank color \<equiv> vga_entry 0x20 color"

definition type_cell :: "u8 \<Rightarrow> u8 \<Rightarrow> u16 list \<Rightarrow> u16 list" where
  "type_cell color c cells =
     (if c = 0x0A then cells @ replicate ((80 - length cells mod 80) mod 80) (blank color) else cells @ [vga_entry c color])"

definition layout_text :: "u8 \<Rightarrow> bytes \<Rightarrow> u16 list" where
  "layout_text color str = fold (type_cell color) str []"

definition screen_of :: "u8 \<Rightarrow> nat \<Rightarrow> u16 list \<Rightarrow> vga \<Rightarrow> bool" where
  "screen_of color k cells v \<longleftrightarrow>
     80 * k \<le> length cells \<and> length cells \<le> 80 * k + 4000 \<and> vga_current_color v = color \<and>
     vga_buffer v = drop (80 * k) cells @ replicate (80 * k + 4000 - length cells) (blank color) \<and>
     unat (vga_index v) = length cells - 80 * k"

text \<open>The lines scrolled off: enough for the cursor to be on the last of fifty lines.\<close>

definition scrolled :: "u16 list \<Rightarrow> nat" where
  "scrolled cells = length cells div 80 - 49"

lemma cursor_step [simp]: "snd (vga_update_cursor P s) = snd s"
  by (auto simp: vga_update_cursor_def Let_def split: prod.splits)

lemma vga_newline_nat:
  assumes "unat (vga_index v) = i" "i \<le> 4000" "length (vga_buffer v) = 4000"
    and "i' = i + (80 - i mod 80) mod 80"
  shows "4000 \<le> i' \<Longrightarrow> vga_newline v = v\<lparr>vga_buffer := drop 80 (vga_buffer v) @ replicate 80 (blank (vga_current_color v)), vga_index := 3920\<rparr>"
    and "i' < 4000 \<Longrightarrow> \<exists>w. unat w = i' \<and> vga_newline v = v\<lparr>vga_index := w\<rparr>"
proof -
  let ?col = "vga_index v mod VGA_WIDTH"
  define idx where "idx = (if ?col \<noteq> 0 then vga_index v + (VGA_WIDTH - ?col) else vga_index v)"
  have col: "unat ?col = i mod 80" using assms(1) by (simp add: unat_mod)
  have idx: "unat idx = i'"
  proof (cases "?col = 0")
    case True
    then have "i mod 80 = 0" using col by simp
    then show ?thesis using True assms(1,4) by (simp add: idx_def)
  next
    case False
    then have "0 < i mod 80" using col by (metis gr0I unsigned_0 word_unat_eq_iff)
    moreover have "unat (VGA_WIDTH - ?col) = 80 - i mod 80"
      using unat_minus_le [of ?col VGA_WIDTH] col by (simp add: word_le_nat_alt)
    moreover have "80 - i mod 80 < 81" by simp
    ultimately show ?thesis using False assms(1,2,4)
      by (simp add: idx_def unat_plus_small)
  qed
  have cmp: "VGA_WIDTH * VGA_HEIGHT \<le> idx \<longleftrightarrow> 4000 \<le> i'" by (simp add: word_le_nat_alt idx)
  have nl: "vga_newline v = (if 4000 \<le> i'
     then v\<lparr>vga_buffer := drop 80 (vga_buffer v) @ replicate 80 (blank (vga_current_color v)), vga_index := VGA_WIDTH * (VGA_HEIGHT - 1)\<rparr>
     else v\<lparr>vga_index := idx\<rparr>)"
    unfolding vga_newline_def Let_def idx_def [symmetric] cmp scroll_buffer [OF assms(3)] by (rule refl)
  from nl show "4000 \<le> i' \<Longrightarrow> vga_newline v = v\<lparr>vga_buffer := drop 80 (vga_buffer v) @ replicate 80 (blank (vga_current_color v)), vga_index := 3920\<rparr>"
    and "i' < 4000 \<Longrightarrow> \<exists>w. unat w = i' \<and> vga_newline v = v\<lparr>vga_index := w\<rparr>" using idx by auto
qed

lemma screen_length: "screen_of color k cells v \<Longrightarrow> length (vga_buffer v) = 4000"
  by (simp add: screen_of_def)

text \<open>A full screen scrolls by one line.\<close>

lemma newline_scrolls:
  assumes "screen_of color k cells v" "length cells = 80 * k + 4000"
  shows "screen_of color (Suc k) cells (vga_newline v)"
proof -
  have "unat (vga_index v) = 4000" using assms by (simp add: screen_of_def)
  from vga_newline_nat(1) [OF this _ screen_length [OF assms(1)] refl] assms show ?thesis
    by (simp add: screen_of_def)
qed

text \<open>A newline pads the line with blanks, which are already on the screen.\<close>

lemma pad_screen:
  assumes "screen_of color k cells v" "length cells + p \<le> 80 * k + 4000" "unat w = length cells - 80 * k + p"
  shows "screen_of color k (cells @ replicate p (blank color)) (v\<lparr>vga_index := w\<rparr>)"
  using assms by (simp add: screen_of_def replicate_add [symmetric])

lemma line_pad_fits: "(80 - r mod 80) mod 80 \<le> 4000 - r" if "r < 4000" for r :: nat
proof (cases "r mod 80 = 0")
  case False
  have "r div 80 < 50" "80 * (r div 80) + r mod 80 = r" using that by (auto simp: less_mult_imp_div_less)
  then have "80 - r mod 80 \<le> 4000 - r" by linarith
  then show ?thesis using False by simp
qed simp

lemma newline_pads:
  assumes "screen_of color k cells v" "length cells < 80 * k + 4000" "p = (80 - length cells mod 80) mod 80"
  shows "screen_of color (if length cells + p = 80 * k + 4000 then Suc k else k) (cells @ replicate p (blank color)) (vga_newline v)"
proof -
  let ?i = "length cells - 80 * k"
  have i: "unat (vga_index v) = ?i" "?i \<le> 4000" "80 * k \<le> length cells" using assms(1,2) by (auto simp: screen_of_def)
  then have im: "?i mod 80 = length cells mod 80" by (metis le_add_diff_inverse mod_mult_self4)
  have pm: "length cells + p \<le> 80 * k + 4000"
  proof -
    have "p \<le> 4000 - ?i" using line_pad_fits [of ?i] i(3) assms(2,3) im by simp
    then show ?thesis using i(3) assms(2) by linarith
  qed
  note nl = vga_newline_nat [OF i(1,2) screen_length [OF assms(1)], of "?i + p", unfolded im, folded assms(3), OF refl]
  show ?thesis
  proof (cases "length cells + p = 80 * k + 4000")
    case True
    have l: "length (vga_buffer v) = 4000" using screen_length [OF assms(1)] .
    let ?w = "v\<lparr>vga_index := 4000\<rparr>"
    have u: "unat (vga_index ?w) = 4000" by simp
    have "screen_of color k (cells @ replicate p (blank color)) ?w"
      by (rule pad_screen [OF assms(1) pm]) (use True i(3) in simp)
    then have "screen_of color (Suc k) (cells @ replicate p (blank color)) (vga_newline ?w)"
      using newline_scrolls True by simp
    moreover have "vga_newline ?w = vga_newline v"
      using nl(1) vga_newline_nat(1) [OF u, of 4000] True i(3) l by simp
    ultimately show ?thesis using True by simp
  next
    case False
    then have "?i + p < 4000" using pm i(3) by linarith
    then obtain w where "unat w = ?i + p" "vga_newline v = v\<lparr>vga_index := w\<rparr>" using nl(2) by auto
    then show ?thesis using False pad_screen [OF assms(1) pm] by simp
  qed
qed

text \<open>The amount scrolled is what the length of the tape says.\<close>

lemma scrolled_next:
  assumes "80 * k \<le> n" "n < 80 * k + 4000" "k = n div 80 - 49" "n \<le> n'" "n' \<le> n div 80 * 80 + 80"
  shows "(if n' = 80 * k + 4000 then Suc k else k) = n' div 80 - 49"
proof -
  obtain q r where q: "n = 80 * q + r" "r < 80" "n div 80 = q"
    by (metis div_mult_mod_eq mod_less_divisor mult.commute zero_less_numeral)
  show ?thesis
  proof (cases "n' = 80 * q + 80")
    case True
    then have "n' div 80 = Suc q" by simp
    then show ?thesis using assms q True by auto
  next
    case False
    then have "n' div 80 = q" using assms(4,5) q by (intro div_nat_eqI) auto
    then show ?thesis using assms q False by auto
  qed
qed

lemma putchar_types:
  assumes "screen_of color (scrolled cells) cells v" "length cells < 80 * scrolled cells + 4000" "c \<notin> {0x0D, 0x08}"
  shows "screen_of color (scrolled (type_cell color c cells)) (type_cell color c cells) (snd (vga_putchar P c (m, v)))"
proof (cases "c = 0x0A")
  case True
  define p where "p = (80 - length cells mod 80) mod 80"
  have "length cells + p \<le> length cells div 80 * 80 + 80" 
  proof -
    have "p \<le> 80 - length cells mod 80" unfolding p_def by (rule mod_less_eq_dividend)
    moreover have "length cells mod 80 < 80" "length cells div 80 * 80 + length cells mod 80 = length cells" by simp_all
    ultimately show ?thesis by linarith
  qed
  then have "(if length cells + p = 80 * scrolled cells + 4000 then Suc (scrolled cells) else scrolled cells) = scrolled (cells @ replicate p (blank color))"
    using scrolled_next [of "scrolled cells" "length cells" "length cells + p"] assms(1,2) by (simp add: scrolled_def screen_of_def)
  with newline_pads [OF assms(1,2) p_def] True show ?thesis by (simp add: vga_putchar_def type_cell_def p_def)
next
  case False
  let ?cells = "cells @ [vga_entry c color]"
  let ?k = "scrolled cells"
  let ?v = "v\<lparr>vga_buffer := (vga_buffer v)[unat (vga_index v) := vga_entry c (vga_current_color v)], vga_index := vga_index v + 1\<rparr>"
  have i: "unat (vga_index v) = length cells - 80 * ?k" "80 * ?k \<le> length cells" using assms(1) by (auto simp: screen_of_def)
  then have i1: "unat (vga_index v + 1) = length ?cells - 80 * ?k" using assms(2) by (simp add: unat_plus_small)
  have w: "screen_of color ?k ?cells ?v"
  proof -
    have "replicate (80 * ?k + 4000 - length cells) (blank color) = blank color # replicate (80 * ?k + 4000 - length ?cells) (blank color)"
      using assms(2) by (simp add: Suc_diff_Suc flip: replicate_Suc)
    then show ?thesis using assms(1,2) i i1 by (simp add: screen_of_def list_update_append)
  qed
  have k: "(if length ?cells = 80 * ?k + 4000 then Suc ?k else ?k) = scrolled ?cells"
    using scrolled_next [of ?k "length cells" "length ?cells"] i(2) assms(2) unfolding scrolled_def by simp
  have "VGA_WIDTH * VGA_HEIGHT \<le> vga_index ?v \<longleftrightarrow> length ?cells = 80 * ?k + 4000"
    using i1 assms(2) i(2) by (auto simp: word_le_nat_alt)
  then have "snd (vga_putchar P c (m, v)) = (if length ?cells = 80 * ?k + 4000 then vga_newline ?v else ?v)"
    using False assms(3) by (simp add: vga_putchar_def Let_def)
  with w k newline_scrolls [OF w] False show ?thesis by (auto simp: type_cell_def split: if_splits)
qed

lemma screen_room:
  assumes "screen_of color (scrolled cells) cells v" shows "length cells < 80 * scrolled cells + 4000"
proof -
  have "length cells div 80 * 80 + length cells mod 80 = length cells" "length cells mod 80 < 80" by simp_all
  then show ?thesis unfolding scrolled_def by linarith
qed

lemma write_types:
  assumes "screen_of color (scrolled cells) cells v" "set str \<inter> {0x0D, 0x08} = {}"
  shows "screen_of color (scrolled (fold (type_cell color) str cells)) (fold (type_cell color) str cells) (snd (vga_write P str (m, v)))"
  using assms
proof (induction str arbitrary: cells m v)
  case (Cons c str)
  have "screen_of color (scrolled (type_cell color c cells)) (type_cell color c cells) (snd (vga_putchar P c (m, v)))"
    using Cons.prems screen_room by (intro putchar_types) auto
  from Cons.IH [OF this, of "fst (vga_putchar P c (m, v))"] Cons.prems(2) show ?case by (simp add: vga_write_def)
qed (simp add: vga_write_def)

lemma clear_shows_nothing:
  assumes "length (vga_buffer v) = 4000"
  shows "screen_of (vga_current_color v) (scrolled []) [] (snd (vga_clear P (m, v)))"
  unfolding vga_clear_def screen_of_def
  by (simp add: scrolled_def Let_def clear_buffer [OF assms, simplified] del: upt_rec_numeral)

text \<open>
  C17. What the text console shows. After vga_clear and a vga_write of a text with no carriage return or backspace,
  the cells on the screen up to the cursor are the laid-out text less the lines that scrolled off, the rest is blank, and
  exactly as many lines have scrolled off as put the cursor on the last of the fifty lines; the cursor is inside the
  screen at every moment.
\<close>
theorem console_shows_text:
  assumes "length (vga_buffer v) = 4000" and "set str \<inter> {0x0D, 0x08} = {}"
    and "vga_write P str (vga_clear P (m, v)) = (m', v')"
  shows "vga_buffer v' = drop (80 * scrolled (layout_text (vga_current_color v) str)) (layout_text (vga_current_color v) str)
           @ replicate (4000 - unat (vga_index v')) (blank (vga_current_color v)) \<and>
    unat (vga_index v') = length (layout_text (vga_current_color v) str) - 80 * scrolled (layout_text (vga_current_color v) str) \<and>
    unat (vga_index v') < 4000"
proof -
  obtain m1 v1 where c: "vga_clear P (m, v) = (m1, v1)" by fastforce
  have "screen_of (vga_current_color v) (scrolled []) [] v1" using clear_shows_nothing [OF assms(1), of P m] c by simp
  from write_types [OF this assms(2), of P m1] assms(3) c
  have s: "screen_of (vga_current_color v) (scrolled (layout_text (vga_current_color v) str)) (layout_text (vga_current_color v) str) v'"
    by (simp add: layout_text_def)
  have "4000 - (l - k) = k + 4000 - l" if "k \<le> l" "l \<le> k + 4000" for k l :: nat using that by simp
  with s have "vga_buffer v' = drop (80 * scrolled (layout_text (vga_current_color v) str)) (layout_text (vga_current_color v) str)
           @ replicate (4000 - unat (vga_index v')) (blank (vga_current_color v))"
    and "unat (vga_index v') = length (layout_text (vga_current_color v) str) - 80 * scrolled (layout_text (vga_current_color v) str)"
    by (simp_all add: screen_of_def)
  moreover have "unat (vga_index v') < 4000" using s screen_room [OF s] by (auto simp: screen_of_def)
  ultimately show ?thesis by blast
qed

lemma console_shows_text_witness:
  "\<exists>m' v'. vga_write (log_ports (\<lambda>_. 0)) [0x68, 0x69, 0x0A, 0x21] (vga_clear (log_ports (\<lambda>_. 0)) ([], \<lparr>vga_buffer = replicate 4000 0, vga_index = 7, vga_current_color = 0x0F\<rparr>))
     = (m', v') \<and> unat (vga_index v') = 81 \<and> take 2 (vga_buffer v') = [0x0F68, 0x0F69]"
proof -
  let ?v = "\<lparr>vga_buffer = replicate 4000 0, vga_index = 7, vga_current_color = 0x0F\<rparr>"
  obtain m' v' where r: "vga_write (log_ports (\<lambda>_. 0)) [0x68, 0x69, 0x0A, 0x21] (vga_clear (log_ports (\<lambda>_. 0)) ([], ?v)) = (m', v')"
    by fastforce
  have l: "layout_text 0x0F [0x68, 0x69, 0x0A, 0x21] = [0x0F68, 0x0F69] @ replicate 78 (blank 0x0F) @ [0x0F21]"
    by (simp add: layout_text_def type_cell_def vga_entry_def)
  have "length (vga_buffer ?v) = 4000" "set [0x68, 0x69, 0x0A, 0x21] \<inter> {0x0D, 0x08 :: u8} = {}" by simp_all
  from console_shows_text [OF this r] r show ?thesis
    by (simp add: l scrolled_def)
qed

text \<open>A newline at the start of a line does nothing, so an empty line is never shown.\<close>

lemma newline_at_line_start: "vga_index v mod VGA_WIDTH = 0 \<Longrightarrow> unat (vga_index v) < 4000 \<Longrightarrow> vga_newline v = v"
  by (simp add: vga_newline_def Let_def word_le_nat_alt)

text \<open>A character from 0x80 on is shown with the attribute 0xFF whatever the colour.\<close>

lemma high_char_attribute: "bit c 7 \<Longrightarrow> drop_bit 8 (vga_entry c color) = 0xFF"
proof (rule bit_word_eqI)
  fix i :: nat assume "bit c 7" "i < LENGTH(16)"
  moreover have "bit (0xFF :: int) i \<longleftrightarrow> i < 8" using bit_mask_iff [where ?'a = int, of 8 i] by (simp add: mask_eq_exp_minus_1)
  ultimately show "bit (drop_bit 8 (vga_entry c color)) i = bit (0xFF :: u16) i"
    by (auto simp: vga_entry_def bit_simps)
qed

end
