(* ===== verification/Stdio.thy ===== *)
theory Stdio
  imports Vga
begin

text \<open>
  The serial line, \<open>kernel/io/serial.c\<close>, and kernel printing, \<open>kernel/stdio/stdio.c\<close>,
  which copies every character to the console and the line. The line polls its status
  without a bound: \<open>None\<close> is a line that never becomes ready, or a format string that asks
  for an argument that is not there.
\<close>

section \<open>The serial line\<close>

abbreviation SERIAL_PORT :: u16 where "SERIAL_PORT \<equiv> 0x3F8"

definition serial_init :: "'m ports \<Rightarrow> 'm \<Rightarrow> 'm" where
  "serial_init P m =
     (let m = outb P (SERIAL_PORT + 1) 0x00 m;
          m = outb P (SERIAL_PORT + 3) 0x80 m;
          m = outb P (SERIAL_PORT + 0) 0x01 m;
          m = outb P (SERIAL_PORT + 1) 0x00 m;
          m = outb P (SERIAL_PORT + 3) 0x03 m;
          m = outb P (SERIAL_PORT + 2) 0xC7 m
      in outb P (SERIAL_PORT + 4) 0x0B m)"

partial_function (option) serial_wait :: "'m ports \<Rightarrow> 'm \<Rightarrow> 'm option" where
  "serial_wait P m =
     (case inb P (SERIAL_PORT + 5) m of (v, m') \<Rightarrow> if v AND 0x20 = 0 then serial_wait P m' else Some m')"

definition serial_putchar :: "'m ports \<Rightarrow> u8 \<Rightarrow> 'm \<Rightarrow> 'm option" where
  "serial_putchar P c m = map_option (outb P (SERIAL_PORT + 0) c) (serial_wait P m)"

fun serial_puts :: "'m ports \<Rightarrow> bytes \<Rightarrow> 'm \<Rightarrow> 'm option" where
  "serial_puts P [] m = Some m"
| "serial_puts P (c # str) m = (case serial_putchar P c m of None \<Rightarrow> None | Some m \<Rightarrow> serial_puts P str m)"

section \<open>Printing\<close>

text \<open>Both devices; the state is the machine and the console.\<close>

definition put_both :: "'m ports \<Rightarrow> u8 \<Rightarrow> 'm \<times> vga \<Rightarrow> ('m \<times> vga) option" where
  "put_both P c s = (case vga_putchar P c s of (m, v) \<Rightarrow> map_option (\<lambda>m. (m, v)) (serial_putchar P c m))"

fun put_all :: "'m ports \<Rightarrow> bytes \<Rightarrow> 'm \<times> vga \<Rightarrow> ('m \<times> vga) option" where
  "put_all P [] s = Some s"
| "put_all P (c # cs) s = (case put_both P c s of None \<Rightarrow> None | Some s \<Rightarrow> put_all P cs s)"

definition puts_both :: "'m ports \<Rightarrow> bytes \<Rightarrow> 'm \<times> vga \<Rightarrow> ('m \<times> vga) option" where
  "puts_both P str s = (case vga_write P str s of (m, v) \<Rightarrow> map_option (\<lambda>m. (m, v)) (serial_puts P str m))"

definition digit_char :: "u32 \<Rightarrow> u8" where
  "digit_char digit = (if digit < 10 then 0x30 + ucast digit else 0x61 + ucast digit - 10)"

text \<open>
  The loop that fills \<open>buf\<close>, lowest digit first; \<open>buf\<close> is what has been filled. The base
  is 10 or 16 at every call; the loop does not end for a base of 1.
\<close>

function uint_loop :: "u32 \<Rightarrow> u32 \<Rightarrow> bytes \<Rightarrow> bytes" where
  "uint_loop base num buf =
     (if 0 < num \<and> 1 < base then uint_loop base (num div base) (buf @ [digit_char (num mod base)]) else buf)"
  by pat_completeness auto

termination
  by (relation "measure (\<lambda>(b, v, _). unat v)") (auto simp: unat_div word_less_nat_alt intro: div_less_dividend)

declare uint_loop.simps [simp del]

definition kprintf_uint :: "'m ports \<Rightarrow> u32 \<Rightarrow> u32 \<Rightarrow> 'm \<times> vga \<Rightarrow> ('m \<times> vga) option" where
  "kprintf_uint P num base s =
     (if num = 0 then put_both P 0x30 s else put_all P (rev (uint_loop base num [])) s)"

definition kprintf_int :: "'m ports \<Rightarrow> u32 \<Rightarrow> 'm \<times> vga \<Rightarrow> ('m \<times> vga) option" where
  "kprintf_int P num s =
     (if num <s 0 then (case put_both P 0x2D s of None \<Rightarrow> None | Some s \<Rightarrow> kprintf_uint P (- num) 10 s)
      else kprintf_uint P num 10 s)"

text \<open>The arguments a caller passes: words, or strings.\<close>

datatype va_arg = Word u32 | Str bytes

text \<open>One conversion; the first argument is consumed by those that take one.\<close>

fun print_conversion :: "'m ports \<Rightarrow> u8 \<Rightarrow> va_arg list \<Rightarrow> 'm \<times> vga \<Rightarrow> (va_arg list \<times> 'm \<times> vga) option" where
  "print_conversion P d args s =
     (if d = 0x64 \<or> d = 0x69 then
        (case args of Word w # args \<Rightarrow> map_option (Pair args) (kprintf_int P w s) | _ \<Rightarrow> None)
      else if d = 0x75 then
        (case args of Word w # args \<Rightarrow> map_option (Pair args) (kprintf_uint P w 10 s) | _ \<Rightarrow> None)
      else if d = 0x78 then
        (case args of Word w # args \<Rightarrow> map_option (Pair args) (kprintf_uint P w 16 s) | _ \<Rightarrow> None)
      else if d = 0x73 then
        (case args of Str t # args \<Rightarrow> map_option (Pair args) (puts_both P t s) | _ \<Rightarrow> None)
      else if d = 0x63 then
        (case args of Word w # args \<Rightarrow> map_option (Pair args) (put_both P (ucast w) s) | _ \<Rightarrow> None)
      else if d = 0x25 then map_option (Pair args) (put_both P 0x25 s)
      else (case vga_putchar P d (vga_putchar P 0x25 s) of
              (m, v) \<Rightarrow> map_option (\<lambda>m. (args, m, v)) (serial_puts P [0x25, d] m)))"

fun vprintk :: "'m ports \<Rightarrow> bytes \<Rightarrow> va_arg list \<Rightarrow> 'm \<times> vga \<Rightarrow> ('m \<times> vga) option" where
  "vprintk P [] args s = Some s"
| "vprintk P [c] args s = put_both P c s"
| "vprintk P (c # d # fmt) args s =
     (if c = 0x25
      then (case print_conversion P d args s of None \<Rightarrow> None | Some (args, s) \<Rightarrow> vprintk P fmt args s)
      else (case put_both P c s of None \<Rightarrow> None | Some s \<Rightarrow> vprintk P (d # fmt) args s))"

definition kprintf :: "'m ports \<Rightarrow> bytes \<Rightarrow> va_arg list \<Rightarrow> 'm \<times> vga \<Rightarrow> ('m \<times> vga) option" where
  "kprintf P fmt args s = vprintk P fmt args s"

definition printk :: "'m ports \<Rightarrow> bytes \<Rightarrow> va_arg list \<Rightarrow> 'm \<times> vga \<Rightarrow> ('m \<times> vga) option" where
  "printk P fmt args s = vprintk P fmt args s"

section \<open>The numerals printed\<close>

text \<open>The value of a numeral, highest digit first, and of one digit.\<close>

definition digit_val :: "u8 \<Rightarrow> nat" where
  "digit_val c = (if c < 0x3A then unat c - 0x30 else unat c - 0x61 + 10)"

definition numeral_val :: "nat \<Rightarrow> bytes \<Rightarrow> nat" where
  "numeral_val b cs = fold (\<lambda>c n. n * b + digit_val c) cs 0"

lemma digit_char_val:
  assumes "d < 16"
  shows "digit_val (digit_char d) = unat d" "digit_char d \<noteq> 0x2D" "digit_char d = 0x30 \<Longrightarrow> d = 0"
proof -
  have "\<forall>d \<in> {0, 1, 2, 3, 4, 5, 6, 7, 8, 9, 10, 11, 12, 13, 14, 15 :: u32}.
      digit_val (digit_char d) = unat d \<and> digit_char d \<noteq> 0x2D \<and> (digit_char d = 0x30 \<longrightarrow> d = 0)"
    by (simp add: digit_val_def digit_char_def)
  moreover have "d \<in> {0, 1, 2, 3, 4, 5, 6, 7, 8, 9, 10, 11, 12, 13, 14, 15 :: u32}"
  proof -
    have "unat d < 16" using assms by (simp add: word_less_nat_alt)
    then have "unat d \<in> {0, 1, 2, 3, 4, 5, 6, 7, 8, 9, 10, 11, 12, 13, 14, 15}" by (simp add: eval_nat_numeral less_Suc_eq)
    then show ?thesis by (simp add: word_unat_eq_iff)
  qed
  ultimately show "digit_val (digit_char d) = unat d" "digit_char d \<noteq> 0x2D" "digit_char d = 0x30 \<Longrightarrow> d = 0" by blast+
qed

text \<open>The number a filled buffer stands for: the lowest digit is first.\<close>

fun low_first_val :: "nat \<Rightarrow> bytes \<Rightarrow> nat" where
  "low_first_val b [] = 0"
| "low_first_val b (c # cs) = digit_val c + b * low_first_val b cs"

lemma numeral_val_append: "numeral_val b (xs @ [c]) = numeral_val b xs * b + digit_val c"
  by (simp add: numeral_val_def)

lemma numeral_val_rev: "numeral_val b (rev cs) = low_first_val b cs"
  by (induction cs) (simp_all add: numeral_val_append numeral_val_def [of _ "[]"] mult.commute)

lemma low_first_append: "low_first_val b (xs @ [c]) = low_first_val b xs + b ^ length xs * digit_val c"
  by (induction xs) (simp_all add: algebra_simps)

lemma digit_below: "1 < base \<Longrightarrow> base \<le> 16 \<Longrightarrow> num mod base < 16" for base num :: u32
  by (meson order_less_le_trans order_less_trans word_mod_less_divisor word_less_1 word_neq_0_conv)

lemma uint_loop_val:
  assumes "1 < base" "base \<le> 16"
  shows "low_first_val (unat base) (uint_loop base num buf) = low_first_val (unat base) buf + unat base ^ length buf * unat num"
  using assms
proof (induction base num buf rule: uint_loop.induct)
  case (1 base num buf)
  show ?case
  proof (cases "0 < num")
    case True
    have "num mod base < 16" using 1(2,3) by (rule digit_below)
    then have d: "digit_val (digit_char (num mod base)) = unat num mod unat base" by (simp add: digit_char_val(1) unat_mod)
    define q r where "q = unat num div unat base" and "r = unat num mod unat base"
    have "unat num = r + unat base * q" by (simp add: q_def r_def)
    then have "unat base ^ length buf * unat num = unat base ^ length buf * r + unat base ^ Suc (length buf) * q"
      by (simp add: algebra_simps)
    then have e: "unat base ^ length buf * unat num = unat base ^ length buf * (unat num mod unat base) + unat base ^ Suc (length buf) * (unat num div unat base)"
      unfolding q_def r_def .
    have "0 < num \<and> 1 < base" using True 1(2) by simp
    note ih = 1(1) [OF this 1(2,3)]
    have "uint_loop base num buf = uint_loop base (num div base) (buf @ [digit_char (num mod base)])"
      using True 1(2) by (subst uint_loop.simps) simp
    then show ?thesis using ih e by (simp add: low_first_append d unat_div)
  next
    case False
    then have "num = 0" using word_neq_0_conv by blast
    then show ?thesis by (subst uint_loop.simps) simp
  qed
qed

text \<open>Each step at least halves the value, so 32 characters are enough.\<close>

lemma uint_loop_length: "1 < base \<Longrightarrow> unat num < 2 ^ k \<Longrightarrow> length (uint_loop base num buf) \<le> length buf + k"
proof (induction base num buf arbitrary: k rule: uint_loop.induct)
  case (1 base num buf)
  show ?case
  proof (cases "0 < num")
    case True
    with 1(3) obtain j where k: "k = Suc j" by (cases k) (auto simp: word_less_nat_alt)
    have "2 \<le> unat base" using 1(2) by (simp add: word_less_nat_alt)
    then have "unat num div unat base \<le> unat num div 2" by (intro div_le_mono2) auto
    then have "unat (num div base) < 2 ^ j" using 1(3) k by (simp add: unat_div less_mult_imp_div_less)
    from 1(1) [OF _ 1(2) this] True 1(2) k show ?thesis by (subst uint_loop.simps) simp
  next
    case False
    then show ?thesis by (subst uint_loop.simps) simp
  qed
qed

text \<open>The highest digit is not 0, and every character is a digit.\<close>

lemma uint_loop_digits:
  assumes "1 < base" "base \<le> 16" "0 < num"
  shows "uint_loop base num buf \<noteq> [] \<and> last (uint_loop base num buf) \<notin> {0x30, 0x2D}"
  using assms
proof (induction base num buf rule: uint_loop.induct)
  case (1 base num buf)
  note d = digit_char_val [OF digit_below [OF 1(2,3), of num]]
  show ?case
  proof (cases "0 < num div base")
    case True
    from 1(1) [OF _ 1(2,3) True] 1(2,4) show ?thesis by (subst (1 2) uint_loop.simps) simp
  next
    case False
    then have "unat num div unat base = 0" by (metis unat_div unsigned_0 word_neq_0_conv)
    then have "unat num mod unat base = unat num" using 1(2) by (auto simp: div_eq_0_iff)
    then have "num mod base = num" by (metis unat_mod word_unat_eq_iff)
    then have "uint_loop base num buf = buf @ [digit_char num]"
      using False 1(2,4) by (subst uint_loop.simps, subst uint_loop.simps) simp
    then show ?thesis using d 1(4) \<open>num mod base = num\<close> by auto
  qed
qed

definition uint_text :: "u32 \<Rightarrow> u32 \<Rightarrow> bytes" where
  "uint_text base num = (if num = 0 then [0x30] else rev (uint_loop base num []))"

lemma kprintf_uint_text: "kprintf_uint P num base s = put_all P (uint_text base num) s"
  by (simp add: kprintf_uint_def uint_text_def split: option.split)

lemma uint_text_zero: "uint_text base 0 = [0x30]"
  by (simp add: uint_text_def)

lemma uint_text_val:
  assumes "1 < base" "base \<le> 16"
  shows "numeral_val (unat base) (uint_text base num) = unat num" "uint_text base num \<noteq> []"
    "hd (uint_text base num) \<noteq> 0x2D" "num \<noteq> 0 \<longrightarrow> hd (uint_text base num) \<noteq> 0x30" "length (uint_text base num) \<le> 32"
proof -
  show "numeral_val (unat base) (uint_text base num) = unat num"
    using uint_loop_val [OF assms, of num "[]"]
    by (simp add: uint_text_def numeral_val_rev) (simp add: numeral_val_def digit_val_def)
  have z: "num \<noteq> 0 \<Longrightarrow> uint_loop base num [] \<noteq> [] \<and> last (uint_loop base num []) \<notin> {0x30, 0x2D}"
    using uint_loop_digits [OF assms] word_neq_0_conv by blast
  then show "uint_text base num \<noteq> []" "hd (uint_text base num) \<noteq> 0x2D" "num \<noteq> 0 \<longrightarrow> hd (uint_text base num) \<noteq> 0x30"
    by (auto simp: uint_text_def hd_rev)
  show "length (uint_text base num) \<le> 32"
    using uint_loop_length [OF assms(1), of num 32 "[]"] u32_lt [of num] by (simp add: uint_text_def)
qed

text \<open>The absolute value of a signed word.\<close>

lemma nonneg_sint: "\<not> w <s 0 \<Longrightarrow> int (unat w) = sint w" for w :: u32
  using uint_bounded [of w] by (simp add: word_sless_alt sint_cases split: if_splits)

lemma neg_sint: "w <s 0 \<Longrightarrow> int (unat (- w)) = - sint w" for w :: u32
proof -
  assume "w <s 0"
  then have "2147483648 \<le> uint w" "sint w = uint w - 4294967296" using uint_ge_0 [of w]
    by (auto simp: word_sless_alt sint_cases split: if_splits)
  moreover have "uint (- w) = (- uint w) mod 4294967296" by (simp add: uint_word_ariths)
  moreover have "uint w < 4294967296" using uint_bounded [of w] by simp
  ultimately show ?thesis by (simp add: zmod_zminus1_eq_if)
qed

text \<open>The integer a decimal numeral with an optional minus sign stands for.\<close>

definition signed_val :: "bytes \<Rightarrow> int" where
  "signed_val cs = (case cs of [] \<Rightarrow> 0 | c # ds \<Rightarrow> if c = 0x2D then - int (numeral_val 10 ds) else int (numeral_val 10 cs))"



end
