(* ===== verification/Ps2.thy ===== *)
theory Ps2
  imports Interrupts Keyboard Mouse
begin

text \<open>
  Setting up the two devices behind the PS/2 controller, from \<open>kernel/keyboard/keyboard.c\<close>
  and \<open>kernel/mouse/mouse.c\<close>, and their callbacks as interrupt handlers on the state of
  the two drivers. Waiting for the controller is bounded by 100000 polls; flushing its output
  is not, and \<open>None\<close> stands for a controller whose output never runs dry.
\<close>

section \<open>Waiting for the controller\<close>

fun ps2_poll :: "nat \<Rightarrow> (u8 \<Rightarrow> bool) \<Rightarrow> 'm ports \<Rightarrow> 'm \<Rightarrow> bool \<times> 'm" where
  "ps2_poll 0 ready P m = (False, m)"
| "ps2_poll (Suc n) ready P m = (case inb P 0x64 m of (v, m) \<Rightarrow> if ready v then (True, m) else ps2_poll n ready P m)"

definition ps2_wait_read :: "'m ports \<Rightarrow> 'm \<Rightarrow> bool \<times> 'm" where
  "ps2_wait_read P m = ps2_poll 100000 (\<lambda>v. v AND 0x01 \<noteq> 0) P m"

definition ps2_wait_write :: "'m ports \<Rightarrow> 'm \<Rightarrow> bool \<times> 'm" where
  "ps2_wait_write P m = ps2_poll 100000 (\<lambda>v. v AND 0x02 = 0) P m"

partial_function (option) ps2_flush_output :: "'m ports \<Rightarrow> 'm \<Rightarrow> 'm option" where
  "ps2_flush_output P m =
     (case inb P 0x64 m of (v, m) \<Rightarrow> if v AND 0x01 \<noteq> 0 then ps2_flush_output P (snd (inb P 0x60 m)) else Some m)"

definition mouse_write :: "'m ports \<Rightarrow> u8 \<Rightarrow> 'm \<Rightarrow> 'm" where
  "mouse_write P data m =
     (case ps2_wait_write P m of (False, m) \<Rightarrow> m
      | (True, m) \<Rightarrow> (case ps2_wait_write P (outb P 0x64 0xD4 m) of (False, m) \<Rightarrow> m | (True, m) \<Rightarrow> outb P 0x60 data m))"

definition mouse_read :: "'m ports \<Rightarrow> 'm \<Rightarrow> u8 \<times> 'm" where
  "mouse_read P m = (case ps2_wait_read P m of (False, m) \<Rightarrow> (0, m) | (True, m) \<Rightarrow> inb P 0x60 m)"

text \<open>A write skipped when the controller does not get ready.\<close>

definition ps2_send :: "'m ports \<Rightarrow> u16 \<Rightarrow> u8 \<Rightarrow> 'm \<Rightarrow> 'm" where
  "ps2_send P port v m = (case ps2_wait_write P m of (ok, m) \<Rightarrow> if ok then outb P port v m else m)"

section \<open>The handlers and the set-up\<close>

definition keyboard_irq :: "'m ports \<Rightarrow> ('m, kbd \<times> mouse \<times> 'k) handler" where
  "keyboard_irq P regs st =
     (case st of (m, kb, r) \<Rightarrow> case inb P 0x60 m of (scancode, m) \<Rightarrow> Some (regs, m, keyboard_callback scancode kb, r))"

text \<open>The data port is read only when the status byte says the byte is from the mouse.\<close>

definition mouse_handler :: "'m ports \<Rightarrow> u32 \<Rightarrow> u32 \<Rightarrow> ('m, kbd \<times> mouse \<times> 'k) handler" where
  "mouse_handler P width height regs st =
     (case st of (m, kb, ms, k) \<Rightarrow>
        case inb P 0x64 m of (status, m) \<Rightarrow>
          if status AND 0x20 = 0 then Some (regs, m, kb, ms, k)
          else case inb P 0x60 m of (data, m) \<Rightarrow> Some (regs, m, kb, mouse_irq width height status data ms, k))"

definition keyboard_init :: "'m ports \<Rightarrow> 'm \<times> ('m, kbd \<times> mouse \<times> 'k) handlers \<Rightarrow> ('m \<times> ('m, kbd \<times> mouse \<times> 'k) handlers) option" where
  "keyboard_init P st =
     (case st of (m, tbl) \<Rightarrow>
        let tbl = register_irq_handler 1 (keyboard_irq P) tbl
        in map_option (\<lambda>m. (mask_clear P 0x21 0x02 m, tbl)) (ps2_flush_output P m))"

text \<open>The pointer starts in the middle of a screen of \<open>width\<close> by \<open>height\<close>.\<close>

definition mouse_init :: "'m ports \<Rightarrow> u32 \<Rightarrow> u32 \<Rightarrow> 'm \<times> ('m, kbd \<times> mouse \<times> 'k) handlers \<times> mouse \<Rightarrow> ('m \<times> ('m, kbd \<times> mouse \<times> 'k) handlers \<times> mouse) option" where
  "mouse_init P width height st =
     (case st of (m, tbl, ms) \<Rightarrow>
        case ps2_flush_output P m of None \<Rightarrow> None
        | Some m \<Rightarrow>
          let m = ps2_send P 0x64 0xA8 m;
              m = ps2_send P 0x64 0x20 m;
              (cmd, m) = mouse_read P m;
              cmd = (cmd OR 0x02) AND NOT 0x20;
              m = ps2_send P 0x64 0x60 m;
              m = ps2_send P 0x60 cmd m;
              m = mouse_write P 0xF6 m;
              m = snd (mouse_read P m);
              m = mouse_write P 0xF4 m;
              m = snd (mouse_read P m);
              tbl = register_irq_handler 12 (mouse_handler P width height) tbl;
              m = mask_clear P 0xA1 0x10 m;
              m = mask_clear P 0x21 0x04 m;
              ms = (if width \<noteq> 0 then ms\<lparr>mouse_x := width div 2\<rparr> else ms);
              ms = (if height \<noteq> 0 then ms\<lparr>mouse_y := height div 2\<rparr> else ms)
          in Some (m, tbl, ms))"

text \<open>
  With the devices quiet the keyboard set-up registers line 1 and clears its bit of the mask,
  and a key press then reaches the driver.
\<close>

lemma keyboard_init_ready:
  assumes "rd 0x64 AND 0x01 = 0" "length tbl = 256"
  shows "keyboard_init (log_ports rd) (m, tbl) =
    Some (m @ [(0x21, rd 0x21 AND NOT 0x02)], register_irq_handler 1 (keyboard_irq (log_ports rd)) tbl)"
  using assms by (subst keyboard_init_def) (simp add: ps2_flush_output.simps mask_clear_def Let_def)

lemma key_press_reaches_driver:
  assumes "length tbl = 256" "r_int_no regs = 33"
  shows "irq_handler (log_ports rd) (register_irq_handler 1 (keyboard_irq (log_ports rd)) tbl) regs (m, kb, r)
    = Some (regs, m @ [(0x20, 0x20)], keyboard_callback (rd 0x60) kb, r)"
  using irq_dispatch [of tbl 1 regs "log_ports rd" "keyboard_irq (log_ports rd)" m "(kb, r)"] assms
  by (simp add: keyboard_irq_def word_le_nat_alt)

end
