(* ===== verification/Graphics.thy ===== *)
theory Graphics
  imports Vmm Font
begin

text \<open>
  The drawing layer, \<open>kernel/graphics/graphics.c\<close>, and the boot mode it starts from,
  \<open>kernel/graphics/vesa.c\<close>. The back buffer is a map from the cell index to the pixel, the
  display a map from physical byte addresses; both are the memory behind the code's pointers.
\<close>

section \<open>The boot mode\<close>

record vbe_mode_info =
  vbe_attributes :: u16
  vbe_bytes_per_scanline :: u16
  vbe_xresolution :: u16
  vbe_yresolution :: u16
  vbe_bpp :: u8
  vbe_phys_base_ptr :: u32

text \<open>The fields read, at their offsets in the packed structure the boot loader leaves at 0x500.\<close>

definition dec_vbe :: "bytes \<Rightarrow> vbe_mode_info" where
  "dec_vbe b = \<lparr>vbe_attributes = rd16 b 0, vbe_bytes_per_scanline = rd16 b 16, vbe_xresolution = rd16 b 18,
     vbe_yresolution = rd16 b 20, vbe_bpp = b ! 25, vbe_phys_base_ptr = rd32 b 40\<rparr>"

record vesa_mode_info =
  vm_mode :: u16
  vm_width :: u16
  vm_height :: u16
  vm_bpp :: u16
  vm_pitch :: u32
  vm_framebuffer :: u32

text \<open>\<open>None\<close> is \<open>VESA_FAILED\<close>; the argument is the structure at \<open>VBE_MODE_INFO_ADDR\<close>.\<close>

definition vesa_get_boot_mode :: "vbe_mode_info \<Rightarrow> vesa_mode_info option" where
  "vesa_get_boot_mode b =
     (if vbe_attributes b AND 0x01 = 0 then None
      else if vbe_attributes b AND 0x80 = 0 then None
      else if vbe_xresolution b = 0 \<or> vbe_yresolution b = 0 then None
      else if vbe_bpp b \<noteq> 24 \<and> vbe_bpp b \<noteq> 32 then None
      else if vbe_phys_base_ptr b = 0 then None
      else if vbe_bytes_per_scanline b = 0 then None
      else Some \<lparr>vm_mode = 0, vm_width = vbe_xresolution b, vm_height = vbe_yresolution b, vm_bpp = ucast (vbe_bpp b),
                 vm_pitch = ucast (vbe_bytes_per_scanline b), vm_framebuffer = vbe_phys_base_ptr b\<rparr>)"

section \<open>State and pixels\<close>

abbreviation GRAPHICS_MAX_WIDTH :: u16 where "GRAPHICS_MAX_WIDTH \<equiv> 1280"
abbreviation GRAPHICS_MAX_HEIGHT :: u16 where "GRAPHICS_MAX_HEIGHT \<equiv> 720"

type_synonym color = u32

record gfx =
  graphics_width :: u32
  graphics_height :: u32
  graphics_pitch :: u32
  graphics_bpp :: u8
  graphics_framebuffer :: u32
  backbuffer :: "u32 \<Rightarrow> color"
  video :: "u32 \<Rightarrow> u8"

definition graphics_rgb :: "u8 \<Rightarrow> u8 \<Rightarrow> u8 \<Rightarrow> color" where
  "graphics_rgb r g b = push_bit 16 (ucast r) OR push_bit 8 (ucast g) OR ucast b"

definition graphics_get_width :: "gfx \<Rightarrow> u32" where
  "graphics_get_width g = graphics_width g"

definition graphics_get_height :: "gfx \<Rightarrow> u32" where
  "graphics_get_height g = graphics_height g"

definition graphics_get_pitch :: "gfx \<Rightarrow> u32" where
  "graphics_get_pitch g = graphics_pitch g"

definition graphics_get_bpp :: "gfx \<Rightarrow> u8" where
  "graphics_get_bpp g = graphics_bpp g"

definition graphics_clear :: "color \<Rightarrow> gfx \<Rightarrow> gfx" where
  "graphics_clear color g =
     (if graphics_width g = 0 \<or> graphics_height g = 0 then g
      else let pixels = graphics_width g * graphics_height g
           in g\<lparr>backbuffer := (\<lambda>i. if i < pixels then color else backbuffer g i)\<rparr>)"

definition graphics_set_pixel :: "u32 \<Rightarrow> u32 \<Rightarrow> color \<Rightarrow> gfx \<Rightarrow> gfx" where
  "graphics_set_pixel x y color g =
     (if graphics_width g = 0 \<or> graphics_height g = 0 then g
      else if graphics_width g \<le> x \<or> graphics_height g \<le> y then g
      else g\<lparr>backbuffer := (backbuffer g)(y * graphics_width g + x := color)\<rparr>)"

definition graphics_get_pixel :: "u32 \<Rightarrow> u32 \<Rightarrow> gfx \<Rightarrow> color" where
  "graphics_get_pixel x y g =
     (if graphics_width g = 0 \<or> graphics_height g = 0 then 0
      else if graphics_width g \<le> x \<or> graphics_height g \<le> y then 0
      else backbuffer g (y * graphics_width g + x))"

section \<open>Showing the back buffer\<close>

text \<open>A copy of bytes to an address.\<close>

definition put_bytes :: "u32 \<Rightarrow> bytes \<Rightarrow> (u32 \<Rightarrow> u8) \<Rightarrow> u32 \<Rightarrow> u8" where
  "put_bytes a bs mem = (\<lambda>p. if unat (p - a) < length bs then bs ! unat (p - a) else mem p)"

text \<open>The cells of row \<open>y\<close>, and the bytes of a pixel in the two formats.\<close>

definition back_row :: "gfx \<Rightarrow> u32 \<Rightarrow> color list" where
  "back_row g y = map (\<lambda>x. backbuffer g (y * graphics_width g + of_nat x)) [0..<unat (graphics_width g)]"

definition rgb24 :: "color \<Rightarrow> bytes" where
  "rgb24 c = [ucast (c AND 0xFF), ucast (drop_bit 8 c AND 0xFF), ucast (drop_bit 16 c AND 0xFF)]"

definition graphics_present :: "gfx \<Rightarrow> gfx" where
  "graphics_present g =
     (if graphics_framebuffer g = 0 then g
      else if graphics_bpp g = 32 then
        g\<lparr>video := fold (\<lambda>y. put_bytes (graphics_framebuffer g + of_nat y * graphics_pitch g) (concat (map le32 (back_row g (of_nat y)))))
                       [0..<unat (graphics_height g)] (video g)\<rparr>
      else if graphics_bpp g = 24 then
        g\<lparr>video := fold (\<lambda>y. put_bytes (graphics_framebuffer g + of_nat y * graphics_pitch g) (concat (map rgb24 (back_row g (of_nat y)))))
                       [0..<unat (graphics_height g)] (video g)\<rparr>
      else g)"

section \<open>Initialisation\<close>

definition graphics_map_framebuffer :: "u32 \<Rightarrow> u32 \<Rightarrow> vm \<Rightarrow> vm" where
  "graphics_map_framebuffer phys sz s =
     (let start = phys AND NOT 0xFFF;
          end = (phys + sz + 0xFFF) AND NOT 0xFFF
      in if start < end
         then fold (\<lambda>k. let addr = start + 0x1000 * of_nat k in vmm_map_page addr addr PAGE_WRITE) [0..<unat ((end - start) div 0x1000)] s
         else s)"

definition graphics_off :: "gfx \<Rightarrow> gfx" where
  "graphics_off g = g\<lparr>graphics_width := 0, graphics_height := 0, graphics_pitch := 0, graphics_bpp := 0, graphics_framebuffer := 0\<rparr>"

definition graphics_init :: "vbe_mode_info \<Rightarrow> gfx \<times> vm \<Rightarrow> gfx \<times> vm" where
  "graphics_init b st =
     (case st of (g, s) \<Rightarrow>
        case vesa_get_boot_mode b of
          None \<Rightarrow> (graphics_off g, s)
        | Some info \<Rightarrow>
            if GRAPHICS_MAX_WIDTH < vm_width info \<or> GRAPHICS_MAX_HEIGHT < vm_height info then (graphics_off g, s)
            else
              let g = g\<lparr>graphics_width := ucast (vm_width info), graphics_height := ucast (vm_height info), graphics_pitch := vm_pitch info,
                        graphics_bpp := ucast (vm_bpp info), graphics_framebuffer := vm_framebuffer info\<rparr>
              in if (graphics_bpp g \<noteq> 24 \<and> graphics_bpp g \<noteq> 32) \<or> graphics_framebuffer g = 0 then (graphics_off g, s)
                 else
                   let s = graphics_map_framebuffer (vm_framebuffer info) (graphics_pitch g * graphics_height g) s;
                       g = graphics_clear (graphics_rgb 0 0 0) g
                   in (graphics_present g, s))"

section \<open>Shapes and text\<close>

definition graphics_fill_rect :: "u32 \<Rightarrow> u32 \<Rightarrow> u32 \<Rightarrow> u32 \<Rightarrow> color \<Rightarrow> gfx \<Rightarrow> gfx" where
  "graphics_fill_rect x y w h color g =
     fold (\<lambda>j g. fold (\<lambda>i. graphics_set_pixel (x + of_nat i) (y + of_nat j) color) [0..<unat w] g) [0..<unat h] g"

text \<open>The glyph bit \<open>0x80 >> i\<close> of row \<open>j\<close>.\<close>

definition glyph_bit :: "u8 \<Rightarrow> nat \<Rightarrow> nat \<Rightarrow> bool" where
  "glyph_bit c i j = (let idx = (if 128 \<le> c then 0 else c) in (font_8x8 ! unat idx) ! j AND drop_bit i 0x80 \<noteq> 0)"

definition graphics_draw_char :: "u32 \<Rightarrow> u32 \<Rightarrow> u8 \<Rightarrow> color \<Rightarrow> color \<Rightarrow> gfx \<Rightarrow> gfx" where
  "graphics_draw_char x y c fg bg g =
     fold (\<lambda>j g. fold (\<lambda>i. graphics_set_pixel (x + of_nat i) (y + of_nat j) (if glyph_bit c i j then fg else bg)) [0..<8] g) [0..<8] g"

text \<open>\<open>str\<close> is the list of characters before the NUL; \<open>i\<close> is the loop counter.\<close>

fun draw_chars :: "nat \<Rightarrow> u32 \<Rightarrow> u32 \<Rightarrow> bytes \<Rightarrow> color \<Rightarrow> color \<Rightarrow> gfx \<Rightarrow> gfx" where
  "draw_chars i x y [] fg bg g = g"
| "draw_chars i x y (c # str) fg bg g = draw_chars (Suc i) x y str fg bg (graphics_draw_char (x + of_nat i * 8) y c fg bg g)"

definition graphics_draw_string :: "u32 \<Rightarrow> u32 \<Rightarrow> bytes \<Rightarrow> color \<Rightarrow> color \<Rightarrow> gfx \<Rightarrow> gfx" where
  "graphics_draw_string x y str fg bg g = draw_chars 0 x y str fg bg g"

text \<open>
  The loop of \<open>graphics_draw_line\<close>. Its \<open>int\<close> variables are integers: signed overflow has no
  meaning in C, and there is none for lines shorter than 2^28 along each axis
  (\<open>line_err_small\<close>).
\<close>

partial_function (option) line_loop :: "int \<Rightarrow> int \<Rightarrow> int \<Rightarrow> int \<Rightarrow> u32 \<Rightarrow> u32 \<Rightarrow> color \<Rightarrow> int \<Rightarrow> u32 \<Rightarrow> u32 \<Rightarrow> gfx \<Rightarrow> gfx option" where
  "line_loop dx dy sx sy x1 y1 color err x0 y0 g =
     (let g = graphics_set_pixel x0 y0 color g
      in if x0 = x1 \<and> y0 = y1 then Some g
         else
           let e2 = 2 * err;
               (err, x0) = (if - dy < e2 then (err - dy, x0 + of_int sx) else (err, x0));
               (err, y0) = (if e2 < dx then (err + dx, y0 + of_int sy) else (err, y0))
           in line_loop dx dy sx sy x1 y1 color err x0 y0 g)"

definition graphics_draw_line :: "u32 \<Rightarrow> u32 \<Rightarrow> u32 \<Rightarrow> u32 \<Rightarrow> color \<Rightarrow> gfx \<Rightarrow> gfx option" where
  "graphics_draw_line x0 y0 x1 y1 color g =
     (let dx = sint (if x0 < x1 then x1 - x0 else x0 - x1);
          dy = sint (if y0 < y1 then y1 - y0 else y0 - y1);
          sx = (if x0 < x1 then 1 else - 1);
          sy = (if y0 < y1 then 1 else - 1)
      in line_loop dx dy sx sy x1 y1 color (dx - dy) x0 y0 g)"

end
