(* ===== verification/GraphicsProps.thy ===== *)
theory GraphicsProps
  imports Graphics
begin

text \<open>
  What the drawing layer does to the pixels: clipping at the screen, the exact effect of
  rectangles and characters, the bytes the display gets, and lines.
\<close>

section \<open>Pixels\<close>

text \<open>The limits \<open>graphics_init\<close> enforces; they keep the back buffer inside its reserved memory.\<close>

definition gfx_ok :: "gfx \<Rightarrow> bool" where
  "gfx_ok g \<longleftrightarrow> unat (graphics_width g) \<le> 1280 \<and> unat (graphics_height g) \<le> 720"

definition on_screen :: "gfx \<Rightarrow> u32 \<Rightarrow> u32 \<Rightarrow> bool" where
  "on_screen g x y \<longleftrightarrow> x < graphics_width g \<and> y < graphics_height g"

lemma set_pixel_fields [frame_simps, simp]:
  "graphics_width (graphics_set_pixel x y c g) = graphics_width g"
  "graphics_height (graphics_set_pixel x y c g) = graphics_height g"
  "graphics_pitch (graphics_set_pixel x y c g) = graphics_pitch g"
  "graphics_bpp (graphics_set_pixel x y c g) = graphics_bpp g"
  "graphics_framebuffer (graphics_set_pixel x y c g) = graphics_framebuffer g"
  "video (graphics_set_pixel x y c g) = video g"
  by (simp_all add: graphics_set_pixel_def)

lemma on_screen_set [simp]: "on_screen (graphics_set_pixel x y c g) = on_screen g" "gfx_ok (graphics_set_pixel x y c g) = gfx_ok g"
  by (auto simp: on_screen_def gfx_ok_def fun_eq_iff)

lemma cell_index:
  assumes "gfx_ok g" "on_screen g x y"
  shows "unat (y * graphics_width g + x) = unat y * unat (graphics_width g) + unat x"
    "unat y * unat (graphics_width g) + unat x < 1280 * 720"
proof -
  have x: "unat x < unat (graphics_width g)" and y: "unat y < unat (graphics_height g)"
    using assms(2) by (simp_all add: on_screen_def word_less_nat_alt)
  have "unat y * unat (graphics_width g) + unat x < (unat y + 1) * unat (graphics_width g)" using x by simp
  also have "\<dots> \<le> 720 * 1280" using y assms(1) by (intro mult_le_mono) (auto simp: gfx_ok_def)
  finally show b: "unat y * unat (graphics_width g) + unat x < 1280 * 720" by simp
  have "unat (y * graphics_width g) = unat y * unat (graphics_width g)"
    using b by (simp add: unat_word_ariths)
  then show "unat (y * graphics_width g + x) = unat y * unat (graphics_width g) + unat x"
    using b by (simp add: unat_plus_small)
qed

lemma cell_inj:
  assumes "gfx_ok g" "on_screen g x y" "on_screen g x' y'"
  shows "y * graphics_width g + x = y' * graphics_width g + x' \<longleftrightarrow> x = x' \<and> y = y'"
proof
  assume eq: "y * graphics_width g + x = y' * graphics_width g + x'"
  let ?w = "unat (graphics_width g)"
  have x: "unat x < ?w" "unat x' < ?w" using assms(2,3) by (simp_all add: on_screen_def word_less_nat_alt)
  have e: "unat y * ?w + unat x = unat y' * ?w + unat x'"
    using eq cell_index(1) [OF assms(1,2)] cell_index(1) [OF assms(1,3)] by simp
  have "unat y = (unat y * ?w + unat x) div ?w" "unat y' = (unat y' * ?w + unat x') div ?w" using x by simp_all
  then have "unat y = unat y'" using e by simp
  then show "x = x' \<and> y = y'" using e by (simp add: word_unat_eq_iff)
qed simp

lemma get_set_pixel:
  assumes "gfx_ok g"
  shows "graphics_get_pixel px py (graphics_set_pixel x y c g) =
    (if px = x \<and> py = y \<and> on_screen g x y then c else graphics_get_pixel px py g)"
proof -
  have off: "graphics_get_pixel px py g = 0" if "\<not> on_screen g px py" for g px py
    using that by (auto simp: graphics_get_pixel_def on_screen_def)
  have on: "graphics_get_pixel px py g = backbuffer g (py * graphics_width g + px)" if "on_screen g px py" for g px py
  proof -
    have "\<not> graphics_width g \<le> px" "\<not> graphics_height g \<le> py" using that by (auto simp: on_screen_def)
    moreover from this have "graphics_width g \<noteq> 0" "graphics_height g \<noteq> 0" by auto
    ultimately show ?thesis by (simp add: graphics_get_pixel_def)
  qed
  have st: "graphics_set_pixel x y c g = (if on_screen g x y then g\<lparr>backbuffer := (backbuffer g)(y * graphics_width g + x := c)\<rparr> else g)"
    by (auto simp: graphics_set_pixel_def on_screen_def)
  have os: "on_screen (graphics_set_pixel x y c g) = on_screen g" by simp
  show ?thesis
  proof (cases "on_screen g px py")
    case True
    then have "on_screen (graphics_set_pixel x y c g) px py" by simp
    from on [OF this] on [OF True] show ?thesis
      using cell_inj [OF assms True, of x y] True by (auto simp: st)
  next
    case False
    then have "\<not> on_screen (graphics_set_pixel x y c g) px py" by simp
    from off [OF this] off [OF False] False show ?thesis by auto
  qed
qed

section \<open>Blocks of pixels\<close>

text \<open>The double loop of rectangles and characters, with a colour for each cell of the block.\<close>

abbreviation paint_row :: "u32 \<Rightarrow> u32 \<Rightarrow> (nat \<Rightarrow> color) \<Rightarrow> nat \<Rightarrow> gfx \<Rightarrow> gfx" where
  "paint_row x y col n g \<equiv> fold (\<lambda>i. graphics_set_pixel (x + of_nat i) y (col i)) [0..<n] g"

abbreviation paint :: "u32 \<Rightarrow> u32 \<Rightarrow> (nat \<Rightarrow> nat \<Rightarrow> color) \<Rightarrow> nat \<Rightarrow> nat \<Rightarrow> gfx \<Rightarrow> gfx" where
  "paint x y col w h g \<equiv> fold (\<lambda>j. paint_row x (y + of_nat j) (\<lambda>i. col i j) w) [0..<h] g"

lemma paint_row_fields [simp]: "gfx_ok (paint_row x y col n g) = gfx_ok g" "on_screen (paint_row x y col n g) = on_screen g"
  by (induction n) simp_all

lemma paint_fields [simp]: "gfx_ok (paint x y col w h g) = gfx_ok g" "on_screen (paint x y col w h g) = on_screen g"
  by (induction h) simp_all

lemma offset_eq: "n < 2 ^ 32 \<Longrightarrow> p = x + of_nat n \<longleftrightarrow> unat (p - x) = n" for p x :: u32
proof -
  assume n: "n < 2 ^ 32"
  have "p = x + of_nat n \<longleftrightarrow> p - x = of_nat n" by (auto simp: algebra_simps)
  also have "\<dots> \<longleftrightarrow> unat (p - x) = n" using n by (simp only: word_unat_eq_iff) (simp add: unat_of_nat_small)
  finally show ?thesis .
qed

lemma get_paint_row:
  assumes "gfx_ok g" "n \<le> 2 ^ 32"
  shows "graphics_get_pixel px py (paint_row x y col n g) =
    (if unat (px - x) < n \<and> py = y \<and> on_screen g px py then col (unat (px - x)) else graphics_get_pixel px py g)"
  using assms
proof (induction n)
  case (Suc n)
  then have "n < 2 ^ 32" by simp
  from offset_eq [OF this, of px x] Suc show ?case by (auto simp: get_set_pixel less_Suc_eq)
qed simp

lemma get_paint:
  assumes "gfx_ok g" "w \<le> 2 ^ 32" "h \<le> 2 ^ 32"
  shows "graphics_get_pixel px py (paint x y col w h g) =
    (if unat (px - x) < w \<and> unat (py - y) < h \<and> on_screen g px py then col (unat (px - x)) (unat (py - y)) else graphics_get_pixel px py g)"
  using assms(1,3)
proof (induction h)
  case (Suc h)
  then have "h < 2 ^ 32" by simp
  from offset_eq [OF this, of py y] Suc show ?case by (auto simp: get_paint_row [OF _ assms(2)] less_Suc_eq)
qed simp

section \<open>Rectangles and text\<close>

lemma get_fill_rect:
  assumes "gfx_ok g"
  shows "graphics_get_pixel px py (graphics_fill_rect x y w h color g) =
    (if px - x < w \<and> py - y < h \<and> on_screen g px py then color else graphics_get_pixel px py g)"
proof -
  have "unat w \<le> 2 ^ 32" "unat h \<le> 2 ^ 32" using u32_lt [of w] u32_lt [of h] by simp_all
  from get_paint [OF assms this, of px py x y "\<lambda>_ _. color"] show ?thesis
    by (simp add: graphics_fill_rect_def word_less_nat_alt)
qed

lemma get_draw_char:
  assumes "gfx_ok g"
  shows "graphics_get_pixel px py (graphics_draw_char x y c fg bg g) =
    (if unat (px - x) < 8 \<and> unat (py - y) < 8 \<and> on_screen g px py
     then if glyph_bit c (unat (px - x)) (unat (py - y)) then fg else bg else graphics_get_pixel px py g)"
  using get_paint [OF assms, of 8 8 px py x y "\<lambda>i j. if glyph_bit c i j then fg else bg"]
  by (simp add: graphics_draw_char_def del: upt_rec_numeral)

lemma fill_rect_fields [simp]: "gfx_ok (graphics_fill_rect x y w h c g) = gfx_ok g" "on_screen (graphics_fill_rect x y w h c g) = on_screen g"
  by (simp_all add: graphics_fill_rect_def)

lemma draw_char_fields [simp]: "gfx_ok (graphics_draw_char x y c fg bg g) = gfx_ok g" "on_screen (graphics_draw_char x y c fg bg g) = on_screen g"
  by (simp_all add: graphics_draw_char_def del: upt_rec_numeral)

lemma unat_shifted:
  fixes d :: u32
  assumes "n + m \<le> 2 ^ 32"
  shows "unat (d - of_nat n) < m \<longleftrightarrow> n \<le> unat d \<and> unat d < n + m"
    and "n \<le> unat d \<Longrightarrow> unat (d - of_nat n) = unat d - n"
proof -
  show *: "unat (d - of_nat n) = unat d - n" if "n \<le> unat d"
  proof -
    have "n < 2 ^ 32" using that u32_lt [of d] by simp
    then have "unat (of_nat n :: u32) = n" by (simp add: unat_of_nat_small)
    then show ?thesis using that by (subst unat_minus_le) (simp_all add: word_le_nat_alt)
  qed
  show "unat (d - of_nat n) < m \<longleftrightarrow> n \<le> unat d \<and> unat d < n + m"
  proof (cases "n \<le> unat d \<or> m = 0")
    case True
    then show ?thesis using * by auto
  next
    case False
    then have "n < 2 ^ 32" using assms by linarith
    then have "unat (of_nat n :: u32) = n" by (simp add: unat_of_nat_small)
    then have "unat (d - of_nat n) = 2 ^ 32 + unat d - n" using False by (simp add: unat_sub_if')
    then show ?thesis using False assms by simp
  qed
qed

lemma get_draw_chars:
  assumes "gfx_ok g" "8 * (i + length str) \<le> 2 ^ 32"
  shows "graphics_get_pixel px py (draw_chars i x y str fg bg g) =
    (if 8 * i \<le> unat (px - x) \<and> unat (px - x) < 8 * (i + length str) \<and> unat (py - y) < 8 \<and> on_screen g px py
     then if glyph_bit (str ! (unat (px - x) div 8 - i)) (unat (px - x) mod 8) (unat (py - y)) then fg else bg
     else graphics_get_pixel px py g)"
  using assms
proof (induction str arbitrary: i g)
  case (Cons c str)
  let ?g = "graphics_draw_char (x + of_nat i * 8) y c fg bg g"
  define d where "d = unat (px - x)"
  have e: "px - (x + of_nat i * 8) = (px - x) - of_nat (8 * i)" by simp
  have "8 * i + 8 \<le> 2 ^ 32" using Cons.prems(2) by simp
  note sh = unat_shifted [OF this, of "px - x", folded e, folded d_def]
  have "graphics_get_pixel px py (draw_chars i x y (c # str) fg bg g) = graphics_get_pixel px py (draw_chars (Suc i) x y str fg bg ?g)" by simp
  also have "\<dots> = (if 8 * Suc i \<le> d \<and> d < 8 * (Suc i + length str) \<and> unat (py - y) < 8 \<and> on_screen g px py
     then if glyph_bit (str ! (d div 8 - Suc i)) (d mod 8) (unat (py - y)) then fg else bg
     else graphics_get_pixel px py ?g)"
    using Cons.IH [of ?g "Suc i"] Cons.prems by (simp add: d_def)
  also have "graphics_get_pixel px py ?g = (if 8 * i \<le> d \<and> d < 8 * i + 8 \<and> unat (py - y) < 8 \<and> on_screen g px py
     then if glyph_bit c (d mod 8) (unat (py - y)) then fg else bg else graphics_get_pixel px py g)"
  proof -
    have "8 * i \<le> d \<Longrightarrow> d < 8 * i + 8 \<Longrightarrow> d - 8 * i = d mod 8" by (metis add.commute le_add_diff_inverse mod_less mod_mult_self2 nat_add_left_cancel_less)
    then show ?thesis unfolding get_draw_char [OF Cons.prems(1)] using sh by auto
  qed
  finally have r: "graphics_get_pixel px py (draw_chars i x y (c # str) fg bg g) =
     (if 8 * Suc i \<le> d \<and> d < 8 * (Suc i + length str) \<and> unat (py - y) < 8 \<and> on_screen g px py
      then if glyph_bit (str ! (d div 8 - Suc i)) (d mod 8) (unat (py - y)) then fg else bg
      else if 8 * i \<le> d \<and> d < 8 * i + 8 \<and> unat (py - y) < 8 \<and> on_screen g px py
      then if glyph_bit c (d mod 8) (unat (py - y)) then fg else bg else graphics_get_pixel px py g)" .
  have "d div 8 = i" if "8 * i \<le> d" "d < 8 * i + 8" using that by (intro div_nat_eqI) auto
  moreover have "Suc i \<le> d div 8" if "8 * Suc i \<le> d" using that by (simp add: less_eq_div_iff_mult_less_eq)
  ultimately show ?case unfolding r d_def [symmetric] by (auto simp: nth_Cons' Suc_diff_le)
qed auto

text \<open>
  C32. Rectangles and text are clipped at the screen and otherwise exact, wherever they lie (coordinates left of or
  above the screen wrap, so the offsets px - x and py - y are taken modulo 2^32): a rectangle colours exactly its
  cells that are on the screen, and a string gives the on-screen cells of each of its 8 by 8 boxes the foreground
  or background colour by the glyph of its character.
\<close>
theorem drawing_exact_and_clipped:
  assumes "gfx_ok g" and "8 * length str \<le> 2 ^ 32"
  shows "graphics_get_pixel px py (graphics_fill_rect x y w h color g) =
      (if px - x < w \<and> py - y < h \<and> on_screen g px py then color else graphics_get_pixel px py g) \<and>
    graphics_get_pixel px py (graphics_draw_string x y str fg bg g) =
      (if unat (px - x) < 8 * length str \<and> unat (py - y) < 8 \<and> on_screen g px py
       then if glyph_bit (str ! (unat (px - x) div 8)) (unat (px - x) mod 8) (unat (py - y)) then fg else bg
       else graphics_get_pixel px py g)"
proof (rule conjI)
  show "graphics_get_pixel px py (graphics_fill_rect x y w h color g) =
      (if px - x < w \<and> py - y < h \<and> on_screen g px py then color else graphics_get_pixel px py g)"
    using assms(1) by (rule get_fill_rect)
  show "graphics_get_pixel px py (graphics_draw_string x y str fg bg g) =
      (if unat (px - x) < 8 * length str \<and> unat (py - y) < 8 \<and> on_screen g px py
       then if glyph_bit (str ! (unat (px - x) div 8)) (unat (px - x) mod 8) (unat (py - y)) then fg else bg
       else graphics_get_pixel px py g)"
    using get_draw_chars [OF assms(1), of 0 str px py x y fg bg] assms(2) by (simp add: graphics_draw_string_def)
qed

definition gfx_boot :: gfx where
  "gfx_boot = \<lparr>graphics_width = 640, graphics_height = 480, graphics_pitch = 1920, graphics_bpp = 24,
     graphics_framebuffer = 0xFD000000, backbuffer = (\<lambda>_. 0), video = (\<lambda>_. 0)\<rparr>"

lemma drawing_exact_and_clipped_witness:
  "graphics_get_pixel 3 5 (graphics_fill_rect (- 2) 4 10 10 0xFF gfx_boot) = 0xFF \<and>
   graphics_get_pixel 9 5 (graphics_fill_rect (- 2) 4 10 10 0xFF gfx_boot) = 0"
proof -
  have ok: "gfx_ok gfx_boot" by (simp add: gfx_ok_def gfx_boot_def)
  have l: "8 * length ([] :: bytes) \<le> 2 ^ 32" by simp
  show ?thesis
    unfolding drawing_exact_and_clipped [OF ok l, of 3 5 "- 2" 4 10 10 "0xFF", THEN conjunct1]
      drawing_exact_and_clipped [OF ok l, of 9 5 "- 2" 4 10 10 "0xFF", THEN conjunct1]
    by (simp add: on_screen_def gfx_boot_def graphics_get_pixel_def)
qed

section \<open>What the display shows\<close>

lemma nth_concat_uniform:
  "\<forall>x \<in> set xs. length (f x) = n \<Longrightarrow> k < n * length xs \<Longrightarrow> concat (map f xs) ! k = f (xs ! (k div n)) ! (k mod n)"
proof (induction xs arbitrary: k)
  case (Cons x xs)
  show ?case
  proof (cases "k < n")
    case False
    then have "0 < n" using Cons.prems(2) by (cases n) auto
    moreover have "k div n = Suc ((k - n) div n)" "k mod n = (k - n) mod n"
      using False \<open>0 < n\<close> by (simp_all add: le_div_geq le_mod_geq)
    ultimately show ?thesis using Cons.IH [of "k - n"] Cons.prems False by (simp add: nth_append)
  qed (use Cons.prems in \<open>simp add: nth_append\<close>)
qed simp

lemma length_concat_uniform: "\<forall>x \<in> set xs. length (f x) = n \<Longrightarrow> length (concat (map f xs)) = n * length xs"
  by (induction xs) simp_all

text \<open>Rows of equal length put a pitch apart.\<close>

lemma put_rows:
  assumes "\<forall>y < n. length (R y) = len" "len \<le> unat pitch" "n * unat pitch \<le> 2 ^ 32" "0 < unat pitch"
  shows "fold (\<lambda>y. put_bytes (fb + of_nat y * pitch) (R y)) [0..<n] mem p =
    (if unat (p - fb) < n * unat pitch \<and> unat (p - fb) mod unat pitch < len
     then R (unat (p - fb) div unat pitch) ! (unat (p - fb) mod unat pitch) else mem p)"
  using assms(1,3)
proof (induction n)
  case (Suc n)
  let ?P = "unat pitch"
  define z where "z = unat (p - fb)"
  have e: "p - (fb + of_nat n * pitch) = (p - fb) - of_nat (n * ?P)" by simp
  have room: "n * ?P + len \<le> 2 ^ 32" using Suc.prems(2) assms(2) by simp
  note sh = unat_shifted [OF room, of "p - fb", folded e, folded z_def]
  have ih: "fold (\<lambda>y. put_bytes (fb + of_nat y * pitch) (R y)) [0..<n] mem p =
    (if z < n * ?P \<and> z mod ?P < len then R (z div ?P) ! (z mod ?P) else mem p)"
    using Suc unfolding z_def by simp
  have step: "fold (\<lambda>y. put_bytes (fb + of_nat y * pitch) (R y)) [0..<Suc n] mem p =
     (if n * ?P \<le> z \<and> z < n * ?P + len then R n ! (z - n * ?P)
      else if z < n * ?P \<and> z mod ?P < len then R (z div ?P) ! (z mod ?P) else mem p)"
    using sh Suc.prems(1) ih by (simp add: put_bytes_def)
  have "z div ?P = n \<and> z mod ?P = z - n * ?P" if "n * ?P \<le> z" "z < n * ?P + ?P"
  proof -
    have "z div ?P = n" using that by (intro div_nat_eqI) (auto simp: mult.commute)
    then show ?thesis by (metis minus_div_mult_eq_mod)
  qed
  then show ?case unfolding step z_def [symmetric] using assms(2) by auto
qed simp

lemma rgb24_le32: "take 3 (le32 c) = rgb24 c"
proof -
  have m: "bit (0xFF :: int) i \<longleftrightarrow> i < 8" for i
    using bit_mask_iff [where ?'a = int, of 8 i] by (simp add: mask_eq_exp_minus_1)
  have "(ucast (w AND 0xFF) :: u8) = ucast w" for w :: u32
    by (rule bit_word_eqI) (auto simp: bit_simps m)
  then show ?thesis by (simp add: le32_def rgb24_def)
qed

text \<open>The bytes shown for a row of either format.\<close>

definition row_bytes :: "gfx \<Rightarrow> u32 \<Rightarrow> bytes" where
  "row_bytes g y = concat (map (if graphics_bpp g = 32 then le32 else rgb24) (back_row g y))"

definition pixel_bytes :: "gfx \<Rightarrow> nat" where
  "pixel_bytes g = unat (graphics_bpp g) div 8"

lemma row_bytes_nth:
  assumes "graphics_bpp g = 24 \<or> graphics_bpp g = 32"
  shows "length (row_bytes g y) = pixel_bytes g * unat (graphics_width g)"
    and "k < 3 \<Longrightarrow> x < unat (graphics_width g) \<Longrightarrow>
      row_bytes g y ! (pixel_bytes g * x + k) = rgb24 (backbuffer g (y * graphics_width g + of_nat x)) ! k"
proof -
  let ?f = "if graphics_bpp g = 32 then le32 else rgb24"
  have nb: "3 \<le> pixel_bytes g" using assms by (auto simp: pixel_bytes_def)
  have len: "\<forall>c \<in> set (back_row g y). length (?f c) = pixel_bytes g" using assms by (auto simp: pixel_bytes_def rgb24_def)
  have bl: "length (back_row g y) = unat (graphics_width g)" by (simp add: back_row_def)
  show "length (row_bytes g y) = pixel_bytes g * unat (graphics_width g)"
    using length_concat_uniform [OF len] by (simp only: row_bytes_def bl)
  assume k: "k < 3" and x: "x < unat (graphics_width g)"
  have "pixel_bytes g * x + k < pixel_bytes g * Suc x" using k nb by simp
  also have "\<dots> \<le> pixel_bytes g * unat (graphics_width g)" using x by (intro mult_le_mono2) simp
  finally have "row_bytes g y ! (pixel_bytes g * x + k) = ?f (back_row g y ! x) ! k"
    using nth_concat_uniform [OF len, of "pixel_bytes g * x + k"] k nb by (simp add: row_bytes_def bl)
  moreover have "?f c ! k = rgb24 c ! k" for c using k by (simp flip: rgb24_le32)
  ultimately show "row_bytes g y ! (pixel_bytes g * x + k) = rgb24 (backbuffer g (y * graphics_width g + of_nat x)) ! k"
    using x by (simp add: back_row_def)
qed

lemma present_video:
  assumes "graphics_framebuffer g \<noteq> 0" "graphics_bpp g = 24 \<or> graphics_bpp g = 32"
  shows "video (graphics_present g) = fold (\<lambda>y. put_bytes (graphics_framebuffer g + of_nat y * graphics_pitch g) (row_bytes g (of_nat y)))
     [0..<unat (graphics_height g)] (video g)"
  using assms by (auto simp: graphics_present_def row_bytes_def)

text \<open>
  C33. Presenting is pixel exact: in both formats the display gets, for every cell of the screen, the blue, green and
  red byte of its back-buffer colour at the row's pitch and the pixel's offset, and no byte outside the rows of the
  screen is written.
\<close>
theorem present_pixel_exact:
  assumes "gfx_ok g" and "graphics_framebuffer g \<noteq> 0" and "graphics_bpp g = 24 \<or> graphics_bpp g = 32"
    and "pixel_bytes g * unat (graphics_width g) \<le> unat (graphics_pitch g)"
    and "unat (graphics_height g) * unat (graphics_pitch g) \<le> 2 ^ 32"
  shows "(on_screen g x y \<and> k < 3 \<longrightarrow>
      video (graphics_present g) (graphics_framebuffer g + y * graphics_pitch g + of_nat (pixel_bytes g * unat x + k))
        = rgb24 (graphics_get_pixel x y g) ! k) \<and>
    ((unat (graphics_height g) * unat (graphics_pitch g) \<le> unat (p - graphics_framebuffer g) \<or>
      pixel_bytes g * unat (graphics_width g) \<le> unat (p - graphics_framebuffer g) mod unat (graphics_pitch g)) \<and>
     0 < unat (graphics_pitch g) \<longrightarrow> video (graphics_present g) p = video g p)"
proof (intro conjI impI; elim conjE)
  let ?P = "unat (graphics_pitch g)" and ?fb = "graphics_framebuffer g" and ?h = "unat (graphics_height g)"
  let ?len = "pixel_bytes g * unat (graphics_width g)"
  have rows: "\<forall>y < ?h. length (row_bytes g (of_nat y)) = ?len"
    using row_bytes_nth(1) [OF assms(3)] by blast
  have all: "video (graphics_present g) p = (if unat (p - ?fb) < ?h * ?P \<and> unat (p - ?fb) mod ?P < ?len
     then row_bytes g (of_nat (unat (p - ?fb) div ?P)) ! (unat (p - ?fb) mod ?P) else video g p)" if "0 < ?P" for p
    using put_rows [OF rows assms(4,5) that, of ?fb "video g" p] unfolding present_video [OF assms(2,3)] .
  show "video (graphics_present g) p = video g p"
    if "?h * ?P \<le> unat (p - ?fb) \<or> ?len \<le> unat (p - ?fb) mod ?P" "0 < ?P"
    using all [of p] that by auto
  assume on: "on_screen g x y" and k: "k < 3"
  have xy: "unat x < unat (graphics_width g)" "unat y < ?h" using on by (simp_all add: on_screen_def word_less_nat_alt)
  have nb: "3 \<le> pixel_bytes g" using assms(3) by (auto simp: pixel_bytes_def)
  define m where "m = pixel_bytes g * unat x + k"
  have "m < pixel_bytes g * Suc (unat x)" using k nb by (simp add: m_def)
  also have "\<dots> \<le> ?len" using xy by (intro mult_le_mono2) simp
  finally have m: "m < ?len" .
  then have P: "m < ?P" using assms(4) by simp
  define p where "p = ?fb + y * graphics_pitch g + of_nat m"
  have bound: "unat y * ?P + m < ?h * ?P"
  proof -
    have "unat y * ?P + m < (unat y + 1) * ?P" using P by simp
    also have "\<dots> \<le> ?h * ?P" using xy by (intro mult_le_mono1) simp
    finally show ?thesis .
  qed
  have "p - ?fb = of_nat (unat y * ?P + m)" by (simp add: p_def)
  moreover have "unat (of_nat (unat y * ?P + m) :: u32) = unat y * ?P + m"
    by (rule unat_of_nat_small) (use bound assms(5) in simp)
  ultimately have off: "unat (p - ?fb) = unat y * ?P + m" by simp
  have "unat (p - ?fb) div ?P = unat y" "unat (p - ?fb) mod ?P = m" using P by (simp_all add: off)
  then have "video (graphics_present g) p = row_bytes g y ! m"
    using all [of p] P bound m by (simp add: off)
  also have "\<dots> = rgb24 (backbuffer g (y * graphics_width g + x)) ! k"
    using row_bytes_nth(2) [OF assms(3) k xy(1), of y] by (simp add: m_def)
  also have "backbuffer g (y * graphics_width g + x) = graphics_get_pixel x y g"
    using on by (auto simp: graphics_get_pixel_def on_screen_def)
  finally show "video (graphics_present g) (?fb + y * graphics_pitch g + of_nat (pixel_bytes g * unat x + k)) = rgb24 (graphics_get_pixel x y g) ! k"
    by (simp only: p_def m_def)
qed

lemma present_pixel_exact_witness:
  "video (graphics_present (graphics_set_pixel 2 1 0x102030 gfx_boot)) (0xFD000000 + 1 * 1920 + of_nat (3 * 2 + 1)) = 0x20 \<and>
   video (graphics_present gfx_boot) 0x1000 = 0"
proof -
  let ?g = "graphics_set_pixel 2 1 0x102030 gfx_boot"
  have nb: "pixel_bytes ?g = 3" "pixel_bytes gfx_boot = 3" by (simp_all add: pixel_bytes_def gfx_boot_def)
  have ok: "gfx_ok gfx_boot" by (simp add: gfx_ok_def gfx_boot_def)
  have h: "gfx_ok ?g" "graphics_framebuffer ?g \<noteq> 0" "graphics_bpp ?g = 24 \<or> graphics_bpp ?g = 32"
    "pixel_bytes ?g * unat (graphics_width ?g) \<le> unat (graphics_pitch ?g)"
    "unat (graphics_height ?g) * unat (graphics_pitch ?g) \<le> 2 ^ 32"
    using ok unfolding nb by (simp_all add: gfx_boot_def)
  have b: "graphics_framebuffer gfx_boot \<noteq> 0" "graphics_bpp gfx_boot = 24 \<or> graphics_bpp gfx_boot = 32"
    "pixel_bytes gfx_boot * unat (graphics_width gfx_boot) \<le> unat (graphics_pitch gfx_boot)"
    "unat (graphics_height gfx_boot) * unat (graphics_pitch gfx_boot) \<le> 2 ^ 32"
    unfolding nb by (simp_all add: gfx_boot_def)
  have "on_screen ?g 2 1" by (simp add: on_screen_def gfx_boot_def)
  with present_pixel_exact [OF h, of 2 1 1] have "video (graphics_present ?g) (0xFD000000 + 1 * 1920 + of_nat (3 * 2 + 1)) = 0x20"
    using get_set_pixel [OF ok, of 2 1 2 1 "0x102030"]
    by (simp add: nb rgb24_def on_screen_def) (simp add: gfx_boot_def)
  moreover have "video (graphics_present gfx_boot) 0x1000 = 0"
    using present_pixel_exact [OF ok b, of 0 0 0 "0x1000"] by (simp add: gfx_boot_def)
  ultimately show ?thesis ..
qed

section \<open>Lines\<close>

text \<open>
  \<open>a\<close> and \<open>b\<close> count the steps made along the two axes. \<open>dev\<close> is twice the distance of the
  point from the true line, scaled by the length of the longer axis: the invariant keeps it
  within half a pixel, and with it both axes end at the same step.
\<close>

definition dev :: "int \<Rightarrow> int \<Rightarrow> int \<Rightarrow> int \<Rightarrow> int" where
  "dev dx dy a b = 2 * (dx * b - dy * a)"

definition line_step :: "int \<Rightarrow> int \<Rightarrow> int \<times> int \<Rightarrow> int \<times> int" where
  "line_step dx dy p = (case p of (a, b) \<Rightarrow>
     (if - dy < 2 * (dx * (b + 1) - dy * (a + 1)) then a + 1 else a, if 2 * (dx * (b + 1) - dy * (a + 1)) < dx then b + 1 else b))"

definition line_inv :: "int \<Rightarrow> int \<Rightarrow> int \<times> int \<Rightarrow> bool" where
  "line_inv dx dy p \<longleftrightarrow> (case p of (a, b) \<Rightarrow> 0 \<le> a \<and> a \<le> dx \<and> 0 \<le> b \<and> b \<le> dy \<and> \<bar>dev dx dy a b\<bar> \<le> max dx dy)"

lemma line_step_inv:
  assumes "line_inv dx dy (a, b)" "(a, b) \<noteq> (dx, dy)" "line_step dx dy (a, b) = (a', b')"
  shows "line_inv dx dy (a', b')" "a + b < a' + b'"
proof -
  have ab: "0 \<le> a" "a \<le> dx" "0 \<le> b" "b \<le> dy" "\<bar>dev dx dy a b\<bar> \<le> max dx dy"
    using assms(1) by (auto simp: line_inv_def)
  define V where "V = dev dx dy a b"
  have V: "2 * (dx * (b + 1) - dy * (a + 1)) = V + 2 * dx - 2 * dy" by (simp add: V_def dev_def algebra_simps)
  have a': "a' = (if dy < V + 2 * dx then a + 1 else a)" and b': "b' = (if V < 2 * dy - dx then b + 1 else b)"
  proof -
    have "(- dy < V + 2 * dx - 2 * dy) = (dy < V + 2 * dx)" "(V + 2 * dx - 2 * dy < dx) = (V < 2 * dy - dx)" by linarith+
    then have "line_step dx dy (a, b) = (if dy < V + 2 * dx then a + 1 else a, if V < 2 * dy - dx then b + 1 else b)"
      by (simp only: line_step_def prod.case V)
    then show "a' = (if dy < V + 2 * dx then a + 1 else a)" "b' = (if V < 2 * dy - dx then b + 1 else b)"
      using assms(3) by simp_all
  qed
  have progress: "dy < V + 2 * dx \<or> V < 2 * dy - dx"
    using ab assms(2) by (cases "dx = 0 \<and> dy = 0") auto
  have xroom: "a < dx" if "dy < V + 2 * dx"
  proof (rule ccontr)
    assume "\<not> a < dx"
    then have a: "a = dx" using ab by simp
    show False
    proof (cases "b = dy")
      case True
      with a assms(2) show False by simp
    next
      case False
      then have "dx * (b + 1) \<le> dx * dy" using ab by (intro mult_left_mono) auto
      then have "V + 2 * dx \<le> 0" by (simp add: V_def dev_def a algebra_simps)
      with that ab show False by linarith
    qed
  qed
  have yroom: "b < dy" if "V < 2 * dy - dx"
  proof (rule ccontr)
    assume "\<not> b < dy"
    then have b: "b = dy" using ab by simp
    show False
    proof (cases "a = dx")
      case True
      with b assms(2) show False by simp
    next
      case False
      then have "dy * (a + 1) \<le> dy * dx" using ab by (intro mult_left_mono) auto
      then have "2 * dy \<le> V" by (simp add: V_def dev_def b algebra_simps)
      with that ab show False by linarith
    qed
  qed
  have "dev dx dy a' b' = V + (if V < 2 * dy - dx then 2 * dx else 0) - (if dy < V + 2 * dx then 2 * dy else 0)"
    unfolding a' b' V_def dev_def by (simp add: algebra_simps)
  moreover have "V \<noteq> - dx" if "dx = dy" "0 < dx"
  proof
    assume "V = - dx"
    then have "dx * (2 * (b - a) + 1) = 0" using that by (simp add: V_def dev_def algebra_simps)
    with that show False by (auto simp: mult_eq_0_iff) presburger
  qed
  moreover have "V \<noteq> dx" if "dx = dy" "0 < dx"
  proof
    assume "V = dx"
    then have "dx * (2 * (b - a) - 1) = 0" using that by (simp add: V_def dev_def algebra_simps)
    with that show False by (auto simp: mult_eq_0_iff) presburger
  qed
  ultimately have "\<bar>dev dx dy a' b'\<bar> \<le> max dx dy"
    using ab progress xroom yroom unfolding V_def [symmetric] by (auto simp: max_def abs_le_iff split: if_splits)
  then show "line_inv dx dy (a', b')" using ab xroom yroom by (auto simp: line_inv_def a' b')
  show "a + b < a' + b'" using progress by (auto simp: a' b')
qed

text \<open>The doubled error of the code stays in the range of an \<open>int\<close>.\<close>

lemma line_err_small:
  assumes "line_inv dx dy (a, b)" "dx < 2 ^ 28" "dy < 2 ^ 28"
  shows "\<bar>2 * (dx * (b + 1) - dy * (a + 1))\<bar> < 2 ^ 31"
proof -
  have "2 * (dx * (b + 1) - dy * (a + 1)) = dev dx dy a b + 2 * dx - 2 * dy" by (simp add: dev_def algebra_simps)
  then show ?thesis using assms by (auto simp: line_inv_def max_def split: if_splits)
qed

text \<open>A point of the line, and neighbouring points.\<close>

definition plot :: "u32 \<Rightarrow> u32 \<Rightarrow> int \<Rightarrow> int \<Rightarrow> color \<Rightarrow> int \<times> int \<Rightarrow> gfx \<Rightarrow> gfx" where
  "plot x0 y0 sx sy color p g = (case p of (a, b) \<Rightarrow> graphics_set_pixel (x0 + of_int (sx * a)) (y0 + of_int (sy * b)) color g)"

definition adjacent :: "int \<times> int \<Rightarrow> int \<times> int \<Rightarrow> bool" where
  "adjacent p q \<longleftrightarrow> p \<noteq> q \<and> fst q - fst p \<in> {0, 1} \<and> snd q - snd p \<in> {0, 1}"

lemma line_loop_runs:
  assumes "line_inv dx dy (a, b)" "dx < 2 ^ 31" "dy < 2 ^ 31" "sx \<in> {1, - 1}" "sy \<in> {1, - 1}"
  shows "\<exists>pts. pts \<noteq> [] \<and> hd pts = (a, b) \<and> last pts = (dx, dy) \<and> list_all (line_inv dx dy) pts \<and> successively adjacent pts \<and>
    line_loop dx dy sx sy (x0 + of_int (sx * dx)) (y0 + of_int (sy * dy)) color (dx * (b + 1) - dy * (a + 1))
      (x0 + of_int (sx * a)) (y0 + of_int (sy * b)) g = Some (fold (plot x0 y0 sx sy color) pts g)"
  using assms(1)
proof (induction "nat (dx + dy - a - b)" arbitrary: a b g rule: less_induct)
  case less
  have ab: "0 \<le> a" "a \<le> dx" "0 \<le> b" "b \<le> dy" using less.prems by (auto simp: line_inv_def)
  have inj: "x0 + of_int (s * a) = x0 + of_int (s * d) \<longleftrightarrow> a = d" if "0 \<le> a" "a \<le> d" "d < 2 ^ 31" "s \<in> {1, - 1}" for a d s :: int and x0 :: u32
  proof -
    have "of_int a = (of_int d :: u32) \<longleftrightarrow> a = d"
      using that by (simp add: word_of_int_eq_iff take_bit_int_eq_self)
    then show ?thesis using that(4) by auto
  qed
  let ?err = "dx * (b + 1) - dy * (a + 1)"
  let ?g = "plot x0 y0 sx sy color (a, b) g"
  let ?loop = "line_loop dx dy sx sy (x0 + of_int (sx * dx)) (y0 + of_int (sy * dy)) color"
  show ?case
  proof (cases "(a, b) = (dx, dy)")
    case True
    then have "?loop ?err (x0 + of_int (sx * a)) (y0 + of_int (sy * b)) g = Some ?g"
      by (subst line_loop.simps) (simp add: plot_def Let_def)
    then show ?thesis using True less.prems by (intro exI [of _ "[(a, b)]"]) simp
  next
    case False
    obtain a' b' where st: "line_step dx dy (a, b) = (a', b')" by fastforce
    note inv' = line_step_inv [OF less.prems False st]
    have ab': "a' = (if - dy < 2 * ?err then a + 1 else a)" "b' = (if 2 * ?err < dx then b + 1 else b)"
      using st by (simp_all add: line_step_def)
    have "nat (dx + dy - a' - b') < nat (dx + dy - a - b)"
      using inv' ab by (auto simp: line_inv_def)
    from less.hyps [OF this inv'(1)] obtain pts where pts: "pts \<noteq> []" "hd pts = (a', b')" "last pts = (dx, dy)"
        "list_all (line_inv dx dy) pts" "successively adjacent pts"
        "?loop (dx * (b' + 1) - dy * (a' + 1)) (x0 + of_int (sx * a')) (y0 + of_int (sy * b')) ?g = Some (fold (plot x0 y0 sx sy color) pts ?g)"
      by blast
    have "\<not> (x0 + of_int (sx * a) = x0 + of_int (sx * dx) \<and> y0 + of_int (sy * b) = y0 + of_int (sy * dy))"
      using False inj [OF ab(1,2) assms(2,4), of x0] inj [OF ab(3,4) assms(3,5), of y0] by auto
    moreover have "dx * (b' + 1) - dy * (a' + 1) = ?err - (if - dy < 2 * ?err then dy else 0) + (if 2 * ?err < dx then dx else 0)"
      "x0 + of_int (sx * a') = (if - dy < 2 * ?err then x0 + of_int (sx * a) + of_int sx else x0 + of_int (sx * a))"
      "y0 + of_int (sy * b') = (if 2 * ?err < dx then y0 + of_int (sy * b) + of_int sy else y0 + of_int (sy * b))"
      unfolding ab' by (simp_all add: algebra_simps)
    ultimately have "?loop ?err (x0 + of_int (sx * a)) (y0 + of_int (sy * b)) g =
        ?loop (dx * (b' + 1) - dy * (a' + 1)) (x0 + of_int (sx * a')) (y0 + of_int (sy * b')) ?g"
      by (subst line_loop.simps) (simp only: Let_def plot_def prod.case if_False split: if_split, simp)
    moreover have "adjacent (a, b) (a', b')" using inv'(2) by (auto simp: adjacent_def ab')
    moreover obtain ps where "pts = (a', b') # ps" using pts(1,2) by (cases pts) auto
    ultimately show ?thesis using pts less.prems
      by (intro exI [of _ "(a, b) # pts"]) simp
  qed
qed

text \<open>The absolute difference of two coordinates, and the way from one to the other.\<close>

lemma coord_diff:
  fixes u v :: u32
  assumes "unat u < 2 ^ 31" "unat v < 2 ^ 31"
  shows "sint (if u < v then v - u else u - v) = \<bar>int (unat v) - int (unat u)\<bar>"
    and "u + of_int ((if u < v then 1 else - 1) * \<bar>int (unat v) - int (unat u)\<bar>) = v"
proof -
  let ?d = "if u < v then v - u else u - v"
  have d: "int (unat ?d) = \<bar>int (unat v) - int (unat u)\<bar>"
  proof (cases "u < v")
    case True
    then have "unat (v - u) = unat v - unat u" "unat u < unat v"
      by (rule unat_minus_le [OF order_less_imp_le]) (use True in \<open>simp add: word_less_nat_alt\<close>)
    then show ?thesis unfolding if_P [OF True] by linarith
  next
    case False
    then have "unat (u - v) = unat u - unat v" "unat v \<le> unat u" by (simp_all add: unat_minus_le not_less word_le_nat_alt)
    then show ?thesis unfolding if_not_P [OF False] by linarith
  qed
  moreover have "unat ?d < 2147483648"
  proof -
    have "unat u < 2147483648" "unat v < 2147483648" using assms by simp_all
    then show ?thesis using d by linarith
  qed
  ultimately show "sint ?d = \<bar>int (unat v) - int (unat u)\<bar>" by (simp add: sint_small)
  have "(of_int (int (unat w)) :: u32) = w" for w by simp
  then have "(of_int (int (unat ?d)) :: u32) = ?d" .
  then show "u + of_int ((if u < v then 1 else - 1) * \<bar>int (unat v) - int (unat u)\<bar>) = v"
    unfolding d [symmetric] by (auto simp del: of_int_of_nat_eq)
qed



end
