(* ===== verification/Wm.thy ===== *)
theory Wm
  imports Kheap Mouse Graphics
begin

text \<open>
  The window manager, \<open>kernel/wm/wm.c\<close>: its windows in a store of records at their
  addresses, doubly linked in drawing order. Pointers are 32-bit words, 0 is NULL; an
  \<open>int32_t\<close> is a word compared as signed. The functions a window's owner registers are
  parameters: an environment that gives, for a function pointer, its effect on the window
  manager and on the owner's own state. \<open>None\<close> is a walk of a list that never ends, which the
  invariant excludes.
\<close>

section \<open>State\<close>

abbreviation "WM_TITLE_MAX_LEN \<equiv> (31 :: nat)"
abbreviation "WM_MIN_WIDTH \<equiv> (120 :: u32)"
abbreviation "WM_MIN_HEIGHT \<equiv> (80 :: u32)"
abbreviation "WM_TITLE_HEIGHT \<equiv> (22 :: u32)"
abbreviation "WM_BORDER_SIZE \<equiv> (1 :: u32)"
abbreviation "WM_BTN_SIZE \<equiv> (14 :: u32)"
abbreviation "WM_BTN_MARGIN \<equiv> (4 :: u32)"
abbreviation "MOUSE_BUTTON_LEFT \<equiv> (1 :: u8)"

record wm_window_ops =
  op_draw :: u32
  op_key :: u32
  op_click :: u32
  op_close :: u32

record wm_window =
  w_id :: u32
  w_x :: u32
  w_y :: u32
  w_width :: u32
  w_height :: u32
  w_bg_color :: u32
  w_visible :: u8
  w_dragging :: u8
  w_maximized :: u8
  w_drag_offset_x :: u32
  w_drag_offset_y :: u32
  w_saved_x :: u32
  w_saved_y :: u32
  w_saved_w :: u32
  w_saved_h :: u32
  w_title :: bytes
  w_ops :: wm_window_ops
  w_user :: u32
  w_prev :: u32
  w_next :: u32

abbreviation sizeof_wm_window :: u32 where "sizeof_wm_window \<equiv> 112"

definition no_ops :: wm_window_ops where
  "no_ops = \<lparr>op_draw = 0, op_key = 0, op_click = 0, op_close = 0\<rparr>"

definition zero_window :: wm_window where
  "zero_window = \<lparr>w_id = 0, w_x = 0, w_y = 0, w_width = 0, w_height = 0, w_bg_color = 0, w_visible = 0, w_dragging = 0, w_maximized = 0,
     w_drag_offset_x = 0, w_drag_offset_y = 0, w_saved_x = 0, w_saved_y = 0, w_saved_w = 0, w_saved_h = 0, w_title = replicate 32 0,
     w_ops = no_ops, w_user = 0, w_prev = 0, w_next = 0\<rparr>"

record wm_palette =
  wm_border_color :: u32
  wm_title_color :: u32
  wm_title_color_inactive :: u32
  wm_title_text :: u32
  wm_btn_close :: u32
  wm_btn_max :: u32
  wm_btn_glyph :: u32

text \<open>\<open>gfx_w\<close> and \<open>gfx_h\<close> are what \<open>graphics_get_width\<close> and \<open>graphics_get_height\<close> return.\<close>

record wm =
  wins :: "u32 \<Rightarrow> wm_window"
  wm_head :: u32
  wm_tail :: u32
  wm_focused :: u32
  wm_dragging :: u32
  wm_next_id :: u32
  wm_screen_w :: u32
  wm_screen_h :: u32
  wm_reserved_bottom :: u32
  wm_last_buttons :: u8
  wm_colors :: wm_palette
  wm_heap :: heap
  gfx_w :: u32
  gfx_h :: u32

text \<open>Changing the window at an address.\<close>

definition upd_win :: "u32 \<Rightarrow> (wm_window \<Rightarrow> wm_window) \<Rightarrow> wm \<Rightarrow> wm" where
  "upd_win a f s = s\<lparr>wins := (wins s)(a := f (wins s a))\<rparr>"

definition wm_refresh_screen :: "wm \<Rightarrow> wm" where
  "wm_refresh_screen s = s\<lparr>wm_screen_w := gfx_w s, wm_screen_h := gfx_h s\<rparr>"

definition wm_clamp_i32 :: "u32 \<Rightarrow> u32 \<Rightarrow> u32 \<Rightarrow> u32" where
  "wm_clamp_i32 v lo hi = (if v <s lo then lo else if hi <s v then hi else v)"

definition wm_clamp_u32 :: "u32 \<Rightarrow> u32 \<Rightarrow> u32 \<Rightarrow> u32" where
  "wm_clamp_u32 v lo hi = (if v < lo then lo else if hi < v then hi else v)"

definition wm_work_h :: "wm \<Rightarrow> u32" where
  "wm_work_h s =
     (if wm_reserved_bottom s \<noteq> 0 \<and> wm_reserved_bottom s < wm_screen_h s then wm_screen_h s - wm_reserved_bottom s
      else wm_screen_h s)"

text \<open>A title argument is NULL, or the characters before its terminator.\<close>

definition copy_title :: "bytes option \<Rightarrow> bytes \<Rightarrow> bytes" where
  "copy_title title old =
     (case title of None \<Rightarrow> old[0 := 0]
      | Some t \<Rightarrow> let len = min (length t) WM_TITLE_MAX_LEN in (blit old 0 (take len t))[len := 0])"

definition wm_copy_title :: "u32 \<Rightarrow> bytes option \<Rightarrow> wm \<Rightarrow> wm" where
  "wm_copy_title win title s = (if win = 0 then s else upd_win win (\<lambda>w. w\<lparr>w_title := copy_title title (w_title w)\<rparr>) s)"

section \<open>The list\<close>

definition wm_list_detach :: "u32 \<Rightarrow> wm \<Rightarrow> wm" where
  "wm_list_detach win s =
     (if win = 0 then s
      else
        let p = w_prev (wins s win); n = w_next (wins s win);
            s = (if p \<noteq> 0 then upd_win p (\<lambda>w. w\<lparr>w_next := n\<rparr>) s else s\<lparr>wm_head := n\<rparr>);
            p = w_prev (wins s win); n = w_next (wins s win);
            s = (if n \<noteq> 0 then upd_win n (\<lambda>w. w\<lparr>w_prev := p\<rparr>) s else s\<lparr>wm_tail := p\<rparr>)
        in upd_win win (\<lambda>w. w\<lparr>w_prev := 0, w_next := 0\<rparr>) s)"

definition wm_list_attach_tail :: "u32 \<Rightarrow> wm \<Rightarrow> wm" where
  "wm_list_attach_tail win s =
     (if win = 0 then s
      else
        let s = upd_win win (\<lambda>w. w\<lparr>w_prev := wm_tail s, w_next := 0\<rparr>) s;
            s = (if wm_tail s \<noteq> 0 then upd_win (wm_tail s) (\<lambda>w. w\<lparr>w_next := win\<rparr>) s else s\<lparr>wm_head := win\<rparr>)
        in s\<lparr>wm_tail := win\<rparr>)"

definition wm_focus_internal :: "u32 \<Rightarrow> wm \<Rightarrow> wm" where
  "wm_focus_internal win s =
     (if win = 0 \<or> win = wm_tail s then s\<lparr>wm_focused := win\<rparr>
      else (wm_list_attach_tail win (wm_list_detach win s))\<lparr>wm_focused := win\<rparr>)"

section \<open>Where a point is\<close>

definition wm_point_in_window :: "wm_window \<Rightarrow> u32 \<Rightarrow> u32 \<Rightarrow> bool" where
  "wm_point_in_window w x y \<longleftrightarrow>
     w_visible w \<noteq> 0 \<and> \<not> (x <s w_x w \<or> y <s w_y w) \<and> \<not> w_x w + w_width w \<le>s x \<and> \<not> w_y w + w_height w \<le>s y"

definition wm_point_in_title :: "wm_window \<Rightarrow> u32 \<Rightarrow> u32 \<Rightarrow> bool" where
  "wm_point_in_title w x y \<longleftrightarrow> wm_point_in_window w x y \<and> y <s w_y w + WM_TITLE_HEIGHT"

text \<open>\<open>close_x\<close>, \<open>max_x\<close> and \<open>btn_y\<close>.\<close>

definition wm_button_rects :: "wm_window \<Rightarrow> u32 \<times> u32 \<times> u32" where
  "wm_button_rects w =
     (let right = w_x w + w_width w - WM_BTN_MARGIN;
          close_x = right - WM_BTN_SIZE
      in (close_x, close_x - WM_BTN_SIZE - WM_BTN_MARGIN, w_y w + (WM_TITLE_HEIGHT - WM_BTN_SIZE) div 2))"

definition wm_hit_point :: "u32 \<Rightarrow> u32 \<Rightarrow> u32 \<Rightarrow> u32 \<Rightarrow> u32 \<Rightarrow> u32 \<Rightarrow> bool" where
  "wm_hit_point px py rx ry rw rh \<longleftrightarrow> rx \<le>s px \<and> ry \<le>s py \<and> px <s rx + rw \<and> py <s ry + rh"

definition wm_hit_close :: "wm_window \<Rightarrow> u32 \<Rightarrow> u32 \<Rightarrow> bool" where
  "wm_hit_close w x y = (case wm_button_rects w of (cx, mx, by) \<Rightarrow> wm_hit_point x y cx by WM_BTN_SIZE WM_BTN_SIZE)"

definition wm_hit_max :: "wm_window \<Rightarrow> u32 \<Rightarrow> u32 \<Rightarrow> bool" where
  "wm_hit_max w x y = (case wm_button_rects w of (cx, mx, by) \<Rightarrow> wm_hit_point x y mx by WM_BTN_SIZE WM_BTN_SIZE)"

partial_function (option) find_topmost_from :: "wm \<Rightarrow> u32 \<Rightarrow> u32 \<Rightarrow> u32 \<Rightarrow> u32 option" where
  "find_topmost_from s win x y =
     (if win = 0 then Some 0
      else if wm_point_in_window (wins s win) x y then Some win
      else find_topmost_from s (w_prev (wins s win)) x y)"

definition wm_find_topmost :: "wm \<Rightarrow> u32 \<Rightarrow> u32 \<Rightarrow> u32 option" where
  "wm_find_topmost s x y = find_topmost_from s (wm_tail s) x y"

section \<open>Bounds\<close>

definition bounded_window :: "u32 \<Rightarrow> u32 \<Rightarrow> wm_window \<Rightarrow> wm_window" where
  "bounded_window screen_w work_h w =
     (let min_w = (if screen_w \<noteq> 0 \<and> screen_w < WM_MIN_WIDTH then screen_w else WM_MIN_WIDTH);
          min_h = (if work_h \<noteq> 0 \<and> work_h < WM_MIN_HEIGHT then work_h else WM_MIN_HEIGHT);
          w = w\<lparr>w_width := wm_clamp_u32 (w_width w) min_w (if screen_w \<noteq> 0 then screen_w else w_width w)\<rparr>;
          w = w\<lparr>w_height := wm_clamp_u32 (w_height w) min_h (if work_h \<noteq> 0 then work_h else w_height w)\<rparr>;
          w = (if screen_w \<noteq> 0
               then let max_x = screen_w - w_width w in w\<lparr>w_x := wm_clamp_i32 (w_x w) 0 (if max_x <s 0 then 0 else max_x)\<rparr>
               else w)
      in if work_h \<noteq> 0
         then let max_y = work_h - w_height w in w\<lparr>w_y := wm_clamp_i32 (w_y w) 0 (if max_y <s 0 then 0 else max_y)\<rparr>
         else w)"

definition wm_apply_bounds :: "u32 \<Rightarrow> wm \<Rightarrow> wm" where
  "wm_apply_bounds win s = (if win = 0 then s else upd_win win (bounded_window (wm_screen_w s) (wm_work_h s)) s)"

section \<open>Operations\<close>

definition wm_init :: "wm \<Rightarrow> wm" where
  "wm_init s =
     (let s = s\<lparr>wm_head := 0, wm_tail := 0, wm_focused := 0, wm_dragging := 0, wm_next_id := 1, wm_last_buttons := 0, wm_reserved_bottom := 0\<rparr>;
          s = wm_refresh_screen s
      in s\<lparr>wm_colors := \<lparr>wm_border_color = graphics_rgb 18 22 32, wm_title_color = graphics_rgb 40 56 92,
           wm_title_color_inactive = graphics_rgb 46 52 66, wm_title_text = graphics_rgb 230 230 240, wm_btn_close = graphics_rgb 210 80 80,
           wm_btn_max = graphics_rgb 80 140 200, wm_btn_glyph = graphics_rgb 245 245 245\<rparr>\<rparr>)"

definition wm_create_window :: "u32 \<Rightarrow> u32 \<Rightarrow> u32 \<Rightarrow> u32 \<Rightarrow> bytes option \<Rightarrow> wm \<Rightarrow> (u32 \<times> wm) option" where
  "wm_create_window x y width height title s =
     (case kmalloc sizeof_wm_window (wm_heap s) of None \<Rightarrow> None
      | Some (win, h) \<Rightarrow>
          let s = s\<lparr>wm_heap := h\<rparr> in
          if win = 0 then Some (0, s)
          else
            let s = upd_win win (\<lambda>_. zero_window) s;
                s = upd_win win (\<lambda>w. w\<lparr>w_id := wm_next_id s\<rparr>) (s\<lparr>wm_next_id := wm_next_id s + 1\<rparr>);
                s = upd_win win (\<lambda>w. w\<lparr>w_x := x, w_y := y, w_width := (if width \<noteq> 0 then width else WM_MIN_WIDTH),
                      w_height := (if height \<noteq> 0 then height else WM_MIN_HEIGHT), w_bg_color := graphics_rgb 40 44 58, w_visible := 1\<rparr>) s;
                s = wm_copy_title win title s;
                s = wm_refresh_screen s;
                s = wm_apply_bounds win s;
                s = wm_list_attach_tail win s
            in Some (win, wm_focus_internal win s))"

definition wm_destroy_window :: "u32 \<Rightarrow> wm \<Rightarrow> wm" where
  "wm_destroy_window win s =
     (if win = 0 then s
      else let s = (if wm_dragging s = win then s\<lparr>wm_dragging := 0\<rparr> else s);
               s = (if wm_focused s = win then s\<lparr>wm_focused := 0\<rparr> else s);
               s = wm_list_detach win s
           in s\<lparr>wm_heap := kfree win (wm_heap s)\<rparr>)"

definition wm_show_window :: "u32 \<Rightarrow> wm \<Rightarrow> wm" where
  "wm_show_window win s = (if win \<noteq> 0 then upd_win win (\<lambda>w. w\<lparr>w_visible := 1\<rparr>) s else s)"

definition wm_hide_window :: "u32 \<Rightarrow> wm \<Rightarrow> wm" where
  "wm_hide_window win s =
     (if win = 0 then s
      else let s = upd_win win (\<lambda>w. w\<lparr>w_visible := 0\<rparr>) s;
               s = (if wm_focused s = win then s\<lparr>wm_focused := 0\<rparr> else s)
           in if wm_dragging s = win then s\<lparr>wm_dragging := 0\<rparr> else s)"

definition wm_is_visible :: "u32 \<Rightarrow> wm \<Rightarrow> u8" where
  "wm_is_visible win s = (if win \<noteq> 0 then w_visible (wins s win) else 0)"

definition wm_set_title :: "u32 \<Rightarrow> bytes option \<Rightarrow> wm \<Rightarrow> wm" where
  "wm_set_title win title s = wm_copy_title win title s"

definition wm_set_position :: "u32 \<Rightarrow> u32 \<Rightarrow> u32 \<Rightarrow> wm \<Rightarrow> wm" where
  "wm_set_position win x y s =
     (if win = 0 then s
      else wm_apply_bounds win (wm_refresh_screen (upd_win win (\<lambda>w. w\<lparr>w_x := x, w_y := y\<rparr>) s)))"

definition wm_set_size :: "u32 \<Rightarrow> u32 \<Rightarrow> u32 \<Rightarrow> wm \<Rightarrow> wm" where
  "wm_set_size win width height s =
     (if win = 0 then s
      else wm_apply_bounds win (wm_refresh_screen (upd_win win (\<lambda>w. w\<lparr>w_width := width, w_height := height\<rparr>) s)))"

definition wm_set_background :: "u32 \<Rightarrow> u32 \<Rightarrow> wm \<Rightarrow> wm" where
  "wm_set_background win color s = (if win \<noteq> 0 then upd_win win (\<lambda>w. w\<lparr>w_bg_color := color\<rparr>) s else s)"

definition wm_set_ops :: "u32 \<Rightarrow> wm_window_ops option \<Rightarrow> u32 \<Rightarrow> wm \<Rightarrow> wm" where
  "wm_set_ops win ops user s =
     (if win = 0 then s
      else upd_win win (\<lambda>w. w\<lparr>w_ops := (case ops of Some f \<Rightarrow> f | None \<Rightarrow> no_ops), w_user := user\<rparr>) s)"

definition wm_focus_window :: "u32 \<Rightarrow> wm \<Rightarrow> wm" where
  "wm_focus_window win s = wm_focus_internal win s"

definition wm_get_focused :: "wm \<Rightarrow> u32" where
  "wm_get_focused s = wm_focused s"

partial_function (option) bounds_from :: "u32 \<Rightarrow> wm \<Rightarrow> wm option" where
  "bounds_from win s =
     (if win = 0 then Some s else let s = wm_apply_bounds win s in bounds_from (w_next (wins s win)) s)"

definition wm_set_reserved_bottom :: "u32 \<Rightarrow> wm \<Rightarrow> wm option" where
  "wm_set_reserved_bottom height s =
     (let s = wm_refresh_screen (s\<lparr>wm_reserved_bottom := height\<rparr>) in bounds_from (wm_head s) s)"

definition wm_get_window_rect :: "u32 \<Rightarrow> wm \<Rightarrow> (u32 \<times> u32 \<times> u32 \<times> u32) option" where
  "wm_get_window_rect win s =
     (if win = 0 then None else let w = wins s win in Some (w_x w, w_y w, w_width w, w_height w))"

definition wm_get_client_rect :: "u32 \<Rightarrow> wm \<Rightarrow> (u32 \<times> u32 \<times> u32 \<times> u32) option" where
  "wm_get_client_rect win s =
     (if win = 0 then None
      else let w = wins s win in
        Some (w_x w + WM_BORDER_SIZE, w_y w + WM_TITLE_HEIGHT + 1,
              if 2 * WM_BORDER_SIZE < w_width w then w_width w - 2 * WM_BORDER_SIZE else 0,
              if WM_TITLE_HEIGHT + WM_BORDER_SIZE + 1 < w_height w then w_height w - WM_TITLE_HEIGHT - WM_BORDER_SIZE - 1 else 0))"

definition wm_maximize_toggle :: "u32 \<Rightarrow> wm \<Rightarrow> wm" where
  "wm_maximize_toggle win s =
     (if win = 0 then s
      else
        let s = wm_refresh_screen s;
            s = (if w_maximized (wins s win) = 0
                 then upd_win win (\<lambda>w. w\<lparr>w_saved_x := w_x w, w_saved_y := w_y w, w_saved_w := w_width w, w_saved_h := w_height w,
                        w_x := 0, w_y := 0, w_width := (if wm_screen_w s \<noteq> 0 then wm_screen_w s else w_width w),
                        w_height := (if wm_work_h s \<noteq> 0 then wm_work_h s else w_height w), w_maximized := 1\<rparr>) s
                 else upd_win win (\<lambda>w. w\<lparr>w_x := w_saved_x w, w_y := w_saved_y w,
                        w_width := (if w_saved_w w \<noteq> 0 then w_saved_w w else w_width w),
                        w_height := (if w_saved_h w \<noteq> 0 then w_saved_h w else w_height w), w_maximized := 0\<rparr>) s)
        in wm_apply_bounds win s)"

definition wm_is_maximized :: "u32 \<Rightarrow> wm \<Rightarrow> u8" where
  "wm_is_maximized win s = (if win \<noteq> 0 then w_maximized (wins s win) else 0)"

section \<open>Input\<close>

text \<open>The owners' functions: by function pointer, the window, the arguments of the call and the window's user pointer.\<close>

record 'a wm_env =
  env_key :: "u32 \<Rightarrow> u32 \<Rightarrow> u16 \<Rightarrow> u32 \<Rightarrow> wm \<times> 'a \<Rightarrow> wm \<times> 'a"
  env_click :: "u32 \<Rightarrow> u32 \<Rightarrow> u32 \<times> u32 \<Rightarrow> u8 \<Rightarrow> u8 \<Rightarrow> u32 \<Rightarrow> wm \<times> 'a \<Rightarrow> wm \<times> 'a"
  env_close :: "u32 \<Rightarrow> u32 \<Rightarrow> u32 \<Rightarrow> wm \<times> 'a \<Rightarrow> wm \<times> 'a"

definition wm_deliver_key :: "'a wm_env \<Rightarrow> u16 \<Rightarrow> wm \<times> 'a \<Rightarrow> wm \<times> 'a" where
  "wm_deliver_key E key st =
     (let s = fst st; f = wm_focused s; w = wins s f in
      if f \<noteq> 0 \<and> w_visible w \<noteq> 0 \<and> op_key (w_ops w) \<noteq> 0 then env_key E (op_key (w_ops w)) f key (w_user w) st else st)"

text \<open>The point in the coordinates of the window's client area.\<close>

definition client_point :: "mouse_event \<Rightarrow> wm_window \<Rightarrow> u32 \<times> u32" where
  "client_point ev w = (ev_x ev - w_x w - WM_BORDER_SIZE, ev_y ev - w_y w - WM_TITLE_HEIGHT - 1)"

text \<open>The button goes down: focus the window under the pointer, then act on the part that was hit.\<close>

definition press_on :: "'a wm_env \<Rightarrow> mouse_event \<Rightarrow> u32 \<Rightarrow> wm \<times> 'a \<Rightarrow> wm \<times> 'a" where
  "press_on E ev target st =
     (let s = wm_focus_internal target (fst st); a = snd st; w = wins s target in
      if wm_hit_close w (ev_x ev) (ev_y ev) then
        if op_close (w_ops w) \<noteq> 0 then env_close E (op_close (w_ops w)) target (w_user w) (s, a)
        else (upd_win target (\<lambda>w. w\<lparr>w_visible := 0\<rparr>) s, a)
      else if wm_hit_max w (ev_x ev) (ev_y ev) then (wm_maximize_toggle target s, a)
      else if wm_point_in_title w (ev_x ev) (ev_y ev) then
        if w_maximized w = 0
        then (upd_win target (\<lambda>w. w\<lparr>w_dragging := 1, w_drag_offset_x := ev_x ev - w_x w, w_drag_offset_y := ev_y ev - w_y w\<rparr>)
                (s\<lparr>wm_dragging := target\<rparr>), a)
        else (s, a)
      else if op_click (w_ops w) \<noteq> 0
      then env_click E (op_click (w_ops w)) target (client_point ev w) MOUSE_BUTTON_LEFT 1 (w_user w) (s, a)
      else (s, a))"

definition wm_pressed :: "'a wm_env \<Rightarrow> mouse_event \<Rightarrow> wm \<times> 'a \<Rightarrow> (wm \<times> 'a) option" where
  "wm_pressed E ev st =
     (case wm_find_topmost (fst st) (ev_x ev) (ev_y ev) of None \<Rightarrow> None
      | Some target \<Rightarrow> Some (if target \<noteq> 0 then press_on E ev target st else st))"

definition wm_released :: "'a wm_env \<Rightarrow> mouse_event \<Rightarrow> wm \<times> 'a \<Rightarrow> wm \<times> 'a" where
  "wm_released E ev st =
     (let s = fst st;
          s = (if wm_dragging s \<noteq> 0 then upd_win (wm_dragging s) (\<lambda>w. w\<lparr>w_dragging := 0\<rparr>) s else s);
          s = s\<lparr>wm_dragging := 0\<rparr>;
          f = wm_focused s; w = wins s f
      in if f \<noteq> 0 \<and> op_click (w_ops w) \<noteq> 0
         then env_click E (op_click (w_ops w)) f (client_point ev w) MOUSE_BUTTON_LEFT 0 (w_user w) (s, snd st)
         else (s, snd st))"

definition wm_drag :: "mouse_event \<Rightarrow> wm \<Rightarrow> wm" where
  "wm_drag ev s =
     (let d = wm_dragging s in
      if d \<noteq> 0
      then wm_apply_bounds d (upd_win d (\<lambda>w. w\<lparr>w_x := ev_x ev - w_drag_offset_x w, w_y := ev_y ev - w_drag_offset_y w\<rparr>) s)
      else s)"

text \<open>One turn of the loop of \<open>wm_update\<close>.\<close>

definition wm_event :: "'a wm_env \<Rightarrow> mouse_event \<Rightarrow> wm \<times> 'a \<Rightarrow> (wm \<times> 'a) option" where
  "wm_event E ev st =
     (let now = ev_buttons ev AND MOUSE_BUTTON_LEFT \<noteq> 0;
          before = wm_last_buttons (fst st) AND MOUSE_BUTTON_LEFT \<noteq> 0
      in case (if now \<and> \<not> before then wm_pressed E ev st else Some st) of None \<Rightarrow> None
         | Some st \<Rightarrow>
             let st = (if \<not> now \<and> before then wm_released E ev st else st);
                 s = wm_drag ev (fst st)
             in Some (s\<lparr>wm_last_buttons := ev_buttons ev\<rparr>, snd st))"

partial_function (option) wm_update :: "'a wm_env \<Rightarrow> mouse \<Rightarrow> wm \<times> 'a \<Rightarrow> (mouse \<times> wm \<times> 'a) option" where
  "wm_update E ms st =
     (case mouse_read_event ms of None \<Rightarrow> Some (ms, st)
      | Some (ev, ms) \<Rightarrow> (case wm_event E ev st of None \<Rightarrow> None | Some st \<Rightarrow> wm_update E ms st))"

end
