(* ===== verification/WmProps.thy ===== *)
theory WmProps
  imports Wm
begin

text \<open>
  The window manager's list and its invariants: the doubly linked windows represent a list in
  drawing order, the operations act on it as they should, and every window stays inside the
  work area of the screen.
\<close>

section \<open>Doubly linked segments\<close>

text \<open>
  From \<open>c\<close>, whose predecessor is \<open>p\<close>, the next pointers run through \<open>zs\<close> and
  reach \<open>n\<close>; \<open>l\<close> is the last window passed.
\<close>

fun dseg :: "(u32 \<Rightarrow> wm_window) \<Rightarrow> u32 \<Rightarrow> u32 \<Rightarrow> u32 list \<Rightarrow> u32 \<Rightarrow> u32 \<Rightarrow> bool" where
  "dseg m p c [] n l \<longleftrightarrow> c = n \<and> p = l"
| "dseg m p c (z # zs) n l \<longleftrightarrow> c = z \<and> w_prev (m z) = p \<and> dseg m z (w_next (m z)) zs n l"

lemma dseg_append: "dseg m p c (xs @ ys) n l \<longleftrightarrow> (\<exists>k q. dseg m p c xs k q \<and> dseg m q k ys n l)"
  by (induction xs arbitrary: p c) auto

lemma dseg_snoc: "dseg m p c (xs @ [z]) n l \<longleftrightarrow> (\<exists>q. dseg m p c xs z q \<and> w_prev (m z) = q \<and> w_next (m z) = n \<and> l = z)"
  by (auto simp: dseg_append)

lemma dseg_cong:
  "(\<And>z. z \<in> set zs \<Longrightarrow> w_prev (m' z) = w_prev (m z) \<and> w_next (m' z) = w_next (m z)) \<Longrightarrow> dseg m' p c zs n l = dseg m p c zs n l"
  by (induction zs arbitrary: p c) auto

lemma dseg_upd [simp]: "a \<notin> set zs \<Longrightarrow> dseg (m(a := w)) p c zs n l = dseg m p c zs n l"
  by (rule dseg_cong) auto

lemma dseg_ends:
  "dseg m p c zs 0 l \<Longrightarrow> c = (if zs = [] then 0 else hd zs) \<and> l = (if zs = [] then p else last zs)"
  by (induction zs arbitrary: p c) (auto split: if_splits)

definition zlist :: "wm \<Rightarrow> u32 list \<Rightarrow> bool" where
  "zlist s zs \<longleftrightarrow> distinct zs \<and> 0 \<notin> set zs \<and> dseg (wins s) 0 (wm_head s) zs 0 (wm_tail s)"

lemma zlist_unique: "zlist s xs \<Longrightarrow> zlist s ys \<Longrightarrow> xs = ys"
proof -
  have "dseg m p c xs 0 l \<Longrightarrow> dseg m p c ys 0 l' \<Longrightarrow> 0 \<notin> set xs \<Longrightarrow> 0 \<notin> set ys \<Longrightarrow> xs = ys" for m p c l l'
  proof (induction xs arbitrary: p c ys)
    case Nil
    then show ?case by (cases ys) auto
  next
    case (Cons x xs)
    then show ?case by (cases ys) auto
  qed
  then show "zlist s xs \<Longrightarrow> zlist s ys \<Longrightarrow> xs = ys" by (auto simp: zlist_def)
qed

lemma zlist_tail: "zlist s zs \<Longrightarrow> wm_tail s = (if zs = [] then 0 else last zs)"
  by (auto simp: zlist_def dest: dseg_ends)

text \<open>A window without its links.\<close>

definition content :: "wm_window \<Rightarrow> wm_window" where
  "content w = w\<lparr>w_prev := 0, w_next := 0\<rparr>"

lemma wins_upd_win [simp]: "wins (upd_win a f s) = (wins s)(a := f (wins s a))"
  by (simp add: upd_win_def)

lemma upd_win_fields [frame_simps, simp]:
  "wm_head (upd_win a f s) = wm_head s" "wm_tail (upd_win a f s) = wm_tail s" "wm_focused (upd_win a f s) = wm_focused s"
  "wm_dragging (upd_win a f s) = wm_dragging s" "wm_screen_w (upd_win a f s) = wm_screen_w s"
  "wm_screen_h (upd_win a f s) = wm_screen_h s" "wm_reserved_bottom (upd_win a f s) = wm_reserved_bottom s"
  "wm_heap (upd_win a f s) = wm_heap s" "gfx_w (upd_win a f s) = gfx_w s" "gfx_h (upd_win a f s) = gfx_h s"
  "wm_last_buttons (upd_win a f s) = wm_last_buttons s" "wm_next_id (upd_win a f s) = wm_next_id s"
  by (simp_all add: upd_win_def)

lemma attach_content [simp]: "content (wins (wm_list_attach_tail z s) a) = content (wins s a)"
  by (simp add: wm_list_attach_tail_def Let_def content_def)

lemma detach_content [simp]: "content (wins (wm_list_detach z s) a) = content (wins s a)"
  by (simp add: wm_list_detach_def Let_def content_def)

lemma attach_list:
  assumes "zlist s zs" "z \<noteq> 0" "z \<notin> set zs"
  shows "zlist (wm_list_attach_tail z s) (zs @ [z])"
  proof (cases zs rule: rev_cases)
    case Nil
    with assms show ?thesis by (simp add: zlist_def wm_list_attach_tail_def Let_def)
  next
    case (snoc xs a)
    have a: "a \<noteq> z" "a \<noteq> 0" "a \<notin> set xs" "z \<notin> set xs" using assms snoc by (auto simp: zlist_def)
    have t: "wm_tail s = a" using zlist_tail [OF assms(1)] snoc by simp
    have "dseg (wins s) 0 (wm_head s) xs a (w_prev (wins s a))" using assms(1) snoc by (simp add: zlist_def dseg_snoc)
    then show ?thesis using assms snoc a t
      by (simp add: zlist_def wm_list_attach_tail_def Let_def dseg_snoc dseg_append)
  qed

lemma detach_list:
  assumes "zlist s (xs @ z # ys)"
  shows "zlist (wm_list_detach z s) (xs @ ys)"
proof -
  have z: "z \<noteq> 0" and d: "distinct (xs @ z # ys)" "0 \<notin> set (xs @ ys)" using assms by (auto simp: zlist_def)
  obtain k where seg: "dseg (wins s) 0 (wm_head s) xs z k" "w_prev (wins s z) = k" "dseg (wins s) z (w_next (wins s z)) ys 0 (wm_tail s)"
    using assms by (auto simp: zlist_def dseg_append)
  show ?thesis
  proof (cases xs rule: rev_cases)
    case Nil
    then have "k = 0" "wm_head s = z" using seg by auto
    then show ?thesis using Nil seg z d by (cases ys) (auto simp: zlist_def wm_list_detach_def Let_def)
  next
    case (snoc us a)
    then have k: "k = a" "dseg (wins s) 0 (wm_head s) us a (w_prev (wins s a))" "a \<noteq> 0" "a \<noteq> z" "a \<notin> set us" "a \<notin> set ys" "z \<notin> set us" "z \<notin> set ys"
      using seg d by (auto simp: dseg_snoc)
    show ?thesis
    proof (cases ys)
      case Nil
      then show ?thesis using snoc seg z d k
        by (auto simp: zlist_def wm_list_detach_def Let_def dseg_snoc)
    next
      case (Cons b vs)
      then have b: "b \<noteq> 0" "b \<noteq> z" "b \<noteq> a" "b \<notin> set us" "b \<notin> set vs" "w_next (wins s z) = b" "a \<notin> set vs" "z \<notin> set vs"
        using d seg(3) snoc by auto
      then show ?thesis using snoc Cons seg z d k
        by (auto simp: zlist_def wm_list_detach_def Let_def dseg_append)
    qed
  qed
qed

lemma attach_fields [frame_simps, simp]:
  "wm_focused (wm_list_attach_tail z s) = wm_focused s" "wm_dragging (wm_list_attach_tail z s) = wm_dragging s"
  "wm_screen_w (wm_list_attach_tail z s) = wm_screen_w s" "wm_screen_h (wm_list_attach_tail z s) = wm_screen_h s"
  "wm_reserved_bottom (wm_list_attach_tail z s) = wm_reserved_bottom s" "wm_heap (wm_list_attach_tail z s) = wm_heap s"
  "gfx_w (wm_list_attach_tail z s) = gfx_w s" "gfx_h (wm_list_attach_tail z s) = gfx_h s"
  by (simp_all add: wm_list_attach_tail_def Let_def)

lemma detach_fields [frame_simps, simp]:
  "wm_focused (wm_list_detach z s) = wm_focused s" "wm_dragging (wm_list_detach z s) = wm_dragging s"
  "wm_screen_w (wm_list_detach z s) = wm_screen_w s" "wm_screen_h (wm_list_detach z s) = wm_screen_h s"
  "wm_reserved_bottom (wm_list_detach z s) = wm_reserved_bottom s" "wm_heap (wm_list_detach z s) = wm_heap s"
  "gfx_w (wm_list_detach z s) = gfx_w s" "gfx_h (wm_list_detach z s) = gfx_h s"
  by (simp_all add: wm_list_detach_def Let_def)

lemma focus_fields [frame_simps, simp]:
  "wm_focused (wm_focus_internal z s) = z" "wm_dragging (wm_focus_internal z s) = wm_dragging s"
  "wm_screen_w (wm_focus_internal z s) = wm_screen_w s" "wm_screen_h (wm_focus_internal z s) = wm_screen_h s"
  "wm_reserved_bottom (wm_focus_internal z s) = wm_reserved_bottom s" "wm_heap (wm_focus_internal z s) = wm_heap s"
  "gfx_w (wm_focus_internal z s) = gfx_w s" "gfx_h (wm_focus_internal z s) = gfx_h s"
  by (simp_all add: wm_focus_internal_def Let_def)

text \<open>Focusing raises the window to the end of the list, which is drawn last.\<close>

definition raise_win :: "u32 \<Rightarrow> u32 list \<Rightarrow> u32 list" where
  "raise_win z zs = (if z = 0 then zs else remove1 z zs @ [z])"

lemma set_raise [simp]: "z \<in> set zs \<or> z = 0 \<Longrightarrow> distinct zs \<Longrightarrow> set (raise_win z zs) = set zs"
  by (auto simp: raise_win_def)

lemma zlist_focused [simp]: "zlist (s\<lparr>wm_focused := f\<rparr>) zs = zlist s zs" "zlist (s\<lparr>wm_dragging := f\<rparr>) zs = zlist s zs"
  "zlist (s\<lparr>wm_heap := h\<rparr>) zs = zlist s zs" "zlist (s\<lparr>wm_last_buttons := b\<rparr>) zs = zlist s zs"
  "zlist (s\<lparr>wm_next_id := n\<rparr>) zs = zlist s zs" "zlist (s\<lparr>wm_reserved_bottom := u\<rparr>) zs = zlist s zs"
  "zlist (wm_refresh_screen s) zs = zlist s zs"
  by (simp_all add: zlist_def wm_refresh_screen_def)

lemma zlist_content:
  "(\<And>w. w_prev (f w) = w_prev w \<and> w_next (f w) = w_next w) \<Longrightarrow> zlist (upd_win a f s) zs = zlist s zs"
  unfolding zlist_def by (simp, intro conj_cong refl dseg_cong) auto

lemma focus_list:
  assumes "zlist s zs" "z \<in> set zs \<or> z = 0"
  shows "zlist (wm_focus_internal z s) (raise_win z zs)" "content (wins (wm_focus_internal z s) a) = content (wins s a)"
proof -
  show "zlist (wm_focus_internal z s) (raise_win z zs)"
  proof (cases "z = 0 \<or> z = wm_tail s")
    case True
    have "raise_win z zs = zs"
    proof (cases "z = 0")
      case False
      with True assms obtain xs where "zs = xs @ [z]" "distinct zs"
        using zlist_tail [OF assms(1)] by (cases zs rule: rev_cases) (auto simp: zlist_def)
      with False show ?thesis by (simp add: raise_win_def remove1_append)
    qed (simp add: raise_win_def)
    with True assms show ?thesis by (simp add: wm_focus_internal_def)
  next
    case False
    then obtain xs ys where zs: "zs = xs @ z # ys" using assms(2) by (meson split_list)
    have dz: "distinct zs" "z \<notin> set xs" using assms(1) zs by (auto simp: zlist_def)
    have "zlist (wm_list_detach z s) (xs @ ys)" using detach_list assms(1) zs by blast
    from attach_list [OF this] have "zlist (wm_list_attach_tail z (wm_list_detach z s)) ((xs @ ys) @ [z])"
      using False dz zs by auto
    moreover have "remove1 z zs = xs @ ys" using zs dz(2) by (simp add: remove1_append)
    ultimately show ?thesis using False by (simp add: wm_focus_internal_def raise_win_def)
  qed
  show "content (wins (wm_focus_internal z s) a) = content (wins s a)"
    by (simp add: wm_focus_internal_def)
qed

text \<open>The search from the tail finds the topmost window under the point.\<close>

definition topmost :: "wm \<Rightarrow> u32 list \<Rightarrow> u32 \<Rightarrow> u32 \<Rightarrow> u32" where
  "topmost s zs x y = (let hits = filter (\<lambda>z. wm_point_in_window (wins s z) x y) zs in if hits = [] then 0 else last hits)"

lemma find_topmost_list:
  assumes "zlist s zs" shows "wm_find_topmost s x y = Some (topmost s zs x y)"
proof -
  have "dseg (wins s) 0 c zs n l \<Longrightarrow> 0 \<notin> set zs \<Longrightarrow> find_topmost_from s l x y = Some (topmost s zs x y)" for c n l
  proof (induction zs arbitrary: n l rule: rev_induct)
    case Nil
    then show ?case by (subst find_topmost_from.simps) (simp add: topmost_def)
  next
    case (snoc z zs)
    from snoc.prems have p: "dseg (wins s) 0 c zs z (w_prev (wins s z))" "l = z" "z \<noteq> 0" by (auto simp: dseg_snoc)
    from snoc.IH [OF p(1)] snoc.prems have "find_topmost_from s (w_prev (wins s z)) x y = Some (topmost s zs x y)" by simp
    then show ?case using p by (subst find_topmost_from.simps) (simp add: topmost_def)
  qed
  then show ?thesis using assms by (auto simp: wm_find_topmost_def zlist_def)
qed

section \<open>Windows inside the work area\<close>

text \<open>The rectangle of a window, its coordinates read as signed, and no smaller than the minimum the screen allows.\<close>

definition window_fits :: "u32 \<Rightarrow> u32 \<Rightarrow> wm_window \<Rightarrow> bool" where
  "window_fits sw wh w \<longleftrightarrow>
     0 \<le> sint (w_x w) \<and> sint (w_x w) + int (unat (w_width w)) \<le> int (unat sw) \<and>
     0 \<le> sint (w_y w) \<and> sint (w_y w) + int (unat (w_height w)) \<le> int (unat wh) \<and>
     min 120 (unat sw) \<le> unat (w_width w) \<and> min 80 (unat wh) \<le> unat (w_height w)"

lemma clamp_u32_range: "lo \<le> hi \<Longrightarrow> lo \<le> wm_clamp_u32 v lo hi \<and> wm_clamp_u32 v lo hi \<le> hi"
  by (auto simp: wm_clamp_u32_def not_less)

lemma clamp_i32_range: "sint lo \<le> sint hi \<Longrightarrow> sint lo \<le> sint (wm_clamp_i32 v lo hi) \<and> sint (wm_clamp_i32 v lo hi) \<le> sint hi"
  by (auto simp: wm_clamp_i32_def word_sless_alt)

text \<open>One axis: a size clamped between the minimum and the extent, and then a position.\<close>

lemma axis_fits:
  fixes ext least k v x :: u32
  assumes "0 < unat ext" "unat ext < 2 ^ 31" "k = (if ext \<noteq> 0 \<and> ext < least then ext else least)"
  defines "sz \<equiv> wm_clamp_u32 v k (if ext \<noteq> 0 then ext else v)"
  defines "pos \<equiv> wm_clamp_i32 x 0 (if ext - sz <s 0 then 0 else ext - sz)"
  shows "min (unat least) (unat ext) \<le> unat sz" "0 \<le> sint pos" "sint pos + int (unat sz) \<le> int (unat ext)"
proof -
  have e0: "ext \<noteq> 0" using assms(1) by auto
  then have k: "k = (if ext < least then ext else least)" by (simp add: assms(3))
  then have "k \<le> ext" by (auto simp: not_less)
  then have sz: "k \<le> sz" "sz \<le> ext" using clamp_u32_range [of k ext v] e0 by (simp_all add: sz_def)
  show "min (unat least) (unat ext) \<le> unat sz" using sz(1) k by (auto simp: word_le_nat_alt word_less_nat_alt split: if_splits)
  have d: "unat (ext - sz) = unat ext - unat sz" "unat sz \<le> unat ext" using sz(2) by (simp_all add: unat_minus_le word_le_nat_alt)
  have "unat ext < 2147483648" using assms(2) by simp
  then have "unat (ext - sz) < 2147483648" using d by linarith
  then have "sint (ext - sz) = int (unat (ext - sz))" by (rule sint_small)
  then have s: "sint (ext - sz) = int (unat ext) - int (unat sz)" using d by (simp add: of_nat_diff)
  have "0 \<le> sint (ext - sz)" unfolding s using d(2) by (simp only: of_nat_le_iff diff_ge_0_iff_ge)
  then have nn: "\<not> ext - sz <s 0" by (simp add: word_sless_alt)
  have "sint (0 :: u32) \<le> sint (ext - sz)" using \<open>0 \<le> sint (ext - sz)\<close> by simp
  from clamp_i32_range [OF this, of x] nn show "0 \<le> sint pos" "sint pos + int (unat sz) \<le> int (unat ext)"
    by (simp_all add: pos_def s)
qed

lemma bounded_fits:
  assumes "0 < unat sw" "unat sw < 2 ^ 31" "0 < unat wh" "unat wh < 2 ^ 31"
  shows "window_fits sw wh (bounded_window sw wh w)"
proof -
  define kw where "kw = (if sw \<noteq> 0 \<and> sw < 120 then sw else 120)"
  define kh where "kh = (if wh \<noteq> 0 \<and> wh < 80 then wh else 80)"
  define ww where "ww = wm_clamp_u32 (w_width w) kw (if sw \<noteq> 0 then sw else w_width w)"
  define hh where "hh = wm_clamp_u32 (w_height w) kh (if wh \<noteq> 0 then wh else w_height w)"
  have nz: "sw \<noteq> 0" "wh \<noteq> 0" using assms by auto
  have eqs: "w_width (bounded_window sw wh w) = ww" "w_height (bounded_window sw wh w) = hh"
    "w_x (bounded_window sw wh w) = wm_clamp_i32 (w_x w) 0 (if sw - ww <s 0 then 0 else sw - ww)"
    "w_y (bounded_window sw wh w) = wm_clamp_i32 (w_y w) 0 (if wh - hh <s 0 then 0 else wh - hh)"
    by (simp_all only: bounded_window_def Let_def nz not_False_eq_True if_True simp_thms kw_def [symmetric] kh_def [symmetric])
      (simp_all add: ww_def hh_def kw_def kh_def nz)
  have n: "unat (120 :: u32) = 120" "unat (80 :: u32) = 80" by simp_all
  note ax = axis_fits(1) [OF assms(1,2) kw_def, of "w_width w", folded ww_def, unfolded n]
    axis_fits(2,3) [OF assms(1,2) kw_def, of "w_x w" "w_width w", folded ww_def]
    axis_fits(1) [OF assms(3,4) kh_def, of "w_height w", folded hh_def, unfolded n]
    axis_fits(2,3) [OF assms(3,4) kh_def, of "w_y w" "w_height w", folded hh_def]
  show ?thesis unfolding window_fits_def eqs by (intro conjI ax)
qed

lemma bounded_links [simp]: "w_prev (bounded_window sw wh w) = w_prev w" "w_next (bounded_window sw wh w) = w_next w"
  by (simp_all add: bounded_window_def Let_def)

lemma fits_content: "content w = content w' \<Longrightarrow> window_fits sw wh w = window_fits sw wh w'"
proof -
  have "window_fits sw wh w = window_fits sw wh (content w)" for w by (simp add: window_fits_def content_def)
  then show "content w = content w' \<Longrightarrow> window_fits sw wh w = window_fits sw wh w'" by metis
qed

section \<open>The invariant\<close>

definition wm_ok :: "wm \<Rightarrow> u32 list \<Rightarrow> bool" where
  "wm_ok s zs \<longleftrightarrow> zlist s zs \<and> heap_inv (wm_heap s) \<and> set zs \<subseteq> heap_live (wm_heap s) \<and>
     wm_focused s \<in> insert 0 (set zs) \<and> wm_dragging s \<in> insert 0 (set zs) \<and>
     wm_screen_w s = gfx_w s \<and> wm_screen_h s = gfx_h s \<and>
     0 < unat (gfx_w s) \<and> unat (gfx_w s) < 2 ^ 31 \<and> 0 < unat (gfx_h s) \<and> unat (gfx_h s) < 2 ^ 31 \<and>
     (\<forall>z \<in> set zs. window_fits (gfx_w s) (wm_work_h s) (wins s z))"

lemma work_h_range:
  "0 < unat (wm_screen_h s) \<Longrightarrow> unat (wm_screen_h s) < 2 ^ 31 \<Longrightarrow> 0 < unat (wm_work_h s) \<and> unat (wm_work_h s) < 2 ^ 31"
  by (auto simp: wm_work_h_def word_less_nat_alt unat_minus_le word_le_nat_alt)

lemma work_h_cong [simp]:
  "wm_work_h (upd_win a f s) = wm_work_h s" "wm_work_h (wm_list_attach_tail z s) = wm_work_h s"
  "wm_work_h (wm_list_detach z s) = wm_work_h s" "wm_work_h (wm_focus_internal z s) = wm_work_h s"
  "wm_work_h (s\<lparr>wm_focused := f'\<rparr>) = wm_work_h s" "wm_work_h (s\<lparr>wm_dragging := f'\<rparr>) = wm_work_h s"
  "wm_work_h (s\<lparr>wm_heap := h\<rparr>) = wm_work_h s" "wm_work_h (s\<lparr>wm_last_buttons := b\<rparr>) = wm_work_h s"
  "wm_work_h (s\<lparr>wm_next_id := n\<rparr>) = wm_work_h s"
  by (simp_all add: wm_work_h_def)

lemma ok_refresh: "wm_ok s zs \<Longrightarrow> wm_refresh_screen s = s"
  by (simp add: wm_ok_def wm_refresh_screen_def)

text \<open>Changing what is neither linked nor measured.\<close>

lemma ok_upd:
  assumes "wm_ok s zs"
    and "\<And>w. w_prev (f w) = w_prev w \<and> w_next (f w) = w_next w \<and> w_x (f w) = w_x w \<and> w_y (f w) = w_y w \<and>
      w_width (f w) = w_width w \<and> w_height (f w) = w_height w"
  shows "wm_ok (upd_win a f s) zs"
proof -
  have "window_fits sw wh (f w) = window_fits sw wh w" for sw wh w using assms(2) [of w] by (simp add: window_fits_def)
  moreover have "zlist (upd_win a f s) zs = zlist s zs" using assms(2) by (intro zlist_content) auto
  ultimately show ?thesis using assms(1) by (auto simp: wm_ok_def)
qed

text \<open>Moving or resizing a window and then applying the bounds.\<close>

lemma ok_bounds:
  assumes "wm_ok s zs" "a \<in> insert 0 (set zs)" "\<And>w. w_prev (f w) = w_prev w \<and> w_next (f w) = w_next w"
  shows "wm_ok (wm_apply_bounds a (upd_win a f s)) zs \<or> a = 0"
proof (cases "a = 0")
  case False
  let ?s = "upd_win a (bounded_window (wm_screen_w s) (wm_work_h s)) (upd_win a f s)"
  have e: "wm_apply_bounds a (upd_win a f s) = ?s" using False by (simp add: wm_apply_bounds_def)
  have "zlist ?s zs = zlist s zs"
    using assms(3) by (subst zlist_content, simp, intro zlist_content) auto
  moreover have "window_fits (gfx_w s) (wm_work_h s) (bounded_window (gfx_w s) (wm_work_h s) w)" for w
    using assms(1) work_h_range [of s] by (intro bounded_fits) (auto simp: wm_ok_def)
  ultimately have "wm_ok ?s zs" using assms(1) by (auto simp: wm_ok_def)
  then show ?thesis by (simp add: e)
qed simp

lemma ok_focus:
  assumes "wm_ok s zs" "z \<in> insert 0 (set zs)"
  shows "wm_ok (wm_focus_internal z s) (raise_win z zs)"
proof -
  have l: "zlist s zs" "z \<in> set zs \<or> z = 0" "distinct zs" using assms by (auto simp: wm_ok_def zlist_def)
  have "window_fits sw wh (wins (wm_focus_internal z s) a) = window_fits sw wh (wins s a)" for sw wh a
    by (rule fits_content) (rule focus_list(2) [OF l(1,2)])
  then show ?thesis using assms focus_list(1) [OF l(1,2)] l by (auto simp: wm_ok_def)
qed

lemma ok_fresh_upd: "wm_ok s zs \<Longrightarrow> a \<notin> set zs \<Longrightarrow> wm_ok (upd_win a f s) zs"
  by (auto simp: wm_ok_def zlist_def)

lemma ok_attach:
  assumes "wm_ok s zs" "z \<noteq> 0" "z \<notin> set zs" "z \<in> heap_live (wm_heap s)" "window_fits (gfx_w s) (wm_work_h s) (wins s z)"
  shows "wm_ok (wm_list_attach_tail z s) (zs @ [z])"
proof -
  have l: "zlist s zs" using assms(1) by (simp add: wm_ok_def)
  have "window_fits sw wh (wins (wm_list_attach_tail z s) a) = window_fits sw wh (wins s a)" for sw wh a
    by (rule fits_content) simp
  then show ?thesis using assms attach_list [OF l assms(2,3)] by (auto simp: wm_ok_def)
qed

lemma ok_create:
  assumes ok: "wm_ok s zs"
  shows "\<exists>z s'. wm_create_window x y width height title s = Some (z, s') \<and>
    (if z = 0 then s' = s else z \<notin> set zs \<and> wm_focused s' = z \<and> wm_ok s' (zs @ [z]))"
proof -
  obtain z h where k: "kmalloc sizeof_wm_window (wm_heap s) = Some (z, h)"
    using kmalloc_returns [of "wm_heap s" sizeof_wm_window] ok unfolding wm_ok_def by blast
  show ?thesis
  proof (cases "z = 0")
    case True
    obtain bs where "heap_blocks (wm_heap s) bs" using ok by (auto simp: wm_ok_def heap_inv_def)
    from kmalloc_none_live [OF this] k True have "h = wm_heap s" by blast
    with True k show ?thesis by (simp add: wm_create_window_def Let_def)
  next
    case False
    then have al: "heap_alloc sizeof_wm_window (wm_heap s) = Some (z, h)" using k by (simp add: heap_alloc_def)
    have law: "heap_inv h" "z \<notin> heap_live (wm_heap s)" "heap_live h = insert z (heap_live (wm_heap s))"
      using heap_alloc_live(1-3) [OF _ al] ok by (auto simp: wm_ok_def)
    then have z: "z \<notin> set zs" using ok by (auto simp: wm_ok_def)
    have ok0: "wm_ok (s\<lparr>wm_heap := h\<rparr>) zs" using ok law by (auto simp: wm_ok_def)
    define s1 where "s1 = upd_win z (\<lambda>_. zero_window) (s\<lparr>wm_heap := h\<rparr>)"
    define s2 where "s2 = upd_win z (\<lambda>w. w\<lparr>w_id := wm_next_id s1\<rparr>) (s1\<lparr>wm_next_id := wm_next_id s1 + 1\<rparr>)"
    define s3 where "s3 = upd_win z (\<lambda>w. w\<lparr>w_x := x, w_y := y, w_width := (if width \<noteq> 0 then width else WM_MIN_WIDTH),
                      w_height := (if height \<noteq> 0 then height else WM_MIN_HEIGHT), w_bg_color := graphics_rgb 40 44 58, w_visible := 1\<rparr>) s2"
    define s4 where "s4 = wm_copy_title z title s3"
    define s5 where "s5 = wm_apply_bounds z s4"
    have id: "wm_ok (t\<lparr>wm_next_id := n\<rparr>) zs" if "wm_ok t zs" for t n using that by (auto simp: wm_ok_def)
    have "wm_ok s1 zs" unfolding s1_def by (rule ok_fresh_upd [OF ok0 z])
    then have "wm_ok s2 zs" unfolding s2_def by (intro ok_fresh_upd id z)
    then have "wm_ok s3 zs" unfolding s3_def by (intro ok_fresh_upd z)
    then have ok4: "wm_ok s4 zs" unfolding s4_def wm_copy_title_def using z by (auto intro!: ok_fresh_upd)
    then have ok5: "wm_ok s5 zs" using z False by (simp add: s5_def wm_apply_bounds_def ok_fresh_upd)
    have "window_fits (gfx_w s5) (wm_work_h s5) (wins s5 z)"
    proof -
      have "0 < unat (gfx_w s4)" "unat (gfx_w s4) < 2 ^ 31" "wm_screen_w s4 = gfx_w s4"
        "0 < unat (wm_work_h s4) \<and> unat (wm_work_h s4) < 2 ^ 31"
        using ok4 work_h_range [of s4] by (auto simp: wm_ok_def)
      then show ?thesis using False by (simp add: s5_def wm_apply_bounds_def bounded_fits)
    qed
    moreover have "z \<in> heap_live (wm_heap s5)"
      using law(3) False by (simp add: s5_def s4_def s3_def s2_def s1_def wm_apply_bounds_def wm_copy_title_def)
    ultimately have ok6: "wm_ok (wm_list_attach_tail z s5) (zs @ [z])" using ok_attach [OF ok5 False z] by blast
    have "raise_win z (zs @ [z]) = zs @ [z]" using z by (simp add: raise_win_def remove1_append)
    with ok_focus [OF ok6, of z] have "wm_ok (wm_focus_internal z (wm_list_attach_tail z s5)) (zs @ [z])" by simp
    moreover have "wm_create_window x y width height title s = Some (z, wm_focus_internal z (wm_list_attach_tail z s5))"
      by (simp only: wm_create_window_def k option.case prod.case Let_def if_not_P [OF False]
          s1_def [symmetric] s2_def [symmetric] s3_def [symmetric] s4_def [symmetric] ok_refresh [OF ok4] s5_def [symmetric])
    ultimately show ?thesis using z False by auto
  qed
qed

lemma ok_destroy:
  assumes ok: "wm_ok s zs" and z: "z \<in> insert 0 (set zs)"
  shows "wm_ok (wm_destroy_window z s) (remove1 z zs)"
proof (cases "z = 0")
  case True
  then show ?thesis using ok by (auto simp: wm_destroy_window_def wm_ok_def zlist_def remove1_idem)
next
  case False
  then obtain xs ys where zs: "zs = xs @ z # ys" using z by (metis insertE split_list)
  have d: "distinct zs" "z \<notin> set xs" "z \<notin> set ys" using ok zs by (auto simp: wm_ok_def zlist_def)
  then have r: "remove1 z zs = xs @ ys" using zs by (simp add: remove1_append)
  define s1 where "s1 = (let s = (if wm_dragging s = z then s\<lparr>wm_dragging := 0\<rparr> else s) in if wm_focused s = z then s\<lparr>wm_focused := 0\<rparr> else s)"
  have l: "zlist s1 zs" using ok by (simp add: s1_def Let_def wm_ok_def)
  have same: "wins s1 = wins s" "wm_heap s1 = wm_heap s" "gfx_w s1 = gfx_w s" "gfx_h s1 = gfx_h s" "wm_screen_w s1 = wm_screen_w s"
    "wm_screen_h s1 = wm_screen_h s" "wm_work_h s1 = wm_work_h s" by (simp_all add: s1_def Let_def)
  have gone: "wm_focused s1 \<in> insert 0 (set (xs @ ys))" "wm_dragging s1 \<in> insert 0 (set (xs @ ys))"
    using ok zs by (auto simp: s1_def Let_def wm_ok_def)
  have "window_fits sw wh (wins (wm_list_detach z s1) a) = window_fits sw wh (wins s a)" for sw wh a
    unfolding same(1) [symmetric] by (rule fits_content) simp
  moreover have "heap_inv (kfree z (wm_heap s))" "heap_live (kfree z (wm_heap s)) = heap_live (wm_heap s) - {z}"
    using ok zs kfree_live(1,2) [of "wm_heap s" z] by (auto simp: wm_ok_def)
  moreover have "wm_destroy_window z s = (wm_list_detach z s1)\<lparr>wm_heap := kfree z (wm_heap s)\<rparr>"
    using False by (simp add: wm_destroy_window_def s1_def Let_def)
  ultimately show ?thesis
    using ok l gone detach_list [of s1 xs z ys] zs d unfolding r by (auto simp: wm_ok_def same)
qed

lemma bounds_fields [simp]:
  "wm_head (wm_apply_bounds z s) = wm_head s" "wm_tail (wm_apply_bounds z s) = wm_tail s" "wm_focused (wm_apply_bounds z s) = wm_focused s"
  "wm_dragging (wm_apply_bounds z s) = wm_dragging s" "wm_screen_w (wm_apply_bounds z s) = wm_screen_w s"
  "wm_screen_h (wm_apply_bounds z s) = wm_screen_h s" "wm_heap (wm_apply_bounds z s) = wm_heap s"
  "gfx_w (wm_apply_bounds z s) = gfx_w s" "gfx_h (wm_apply_bounds z s) = gfx_h s" "wm_work_h (wm_apply_bounds z s) = wm_work_h s"
  "wm_last_buttons (wm_apply_bounds z s) = wm_last_buttons s"
  by (simp_all add: wm_apply_bounds_def)

text \<open>The loop over the list bounds every window.\<close>

lemma bounds_from_list:
  "dseg (wins s) p c zs 0 l \<Longrightarrow> 0 \<notin> set zs \<Longrightarrow> distinct zs \<Longrightarrow>
   \<exists>s'. bounds_from c s = Some s' \<and> wm_head s' = wm_head s \<and> wm_tail s' = wm_tail s \<and> wm_focused s' = wm_focused s \<and>
     wm_dragging s' = wm_dragging s \<and> wm_screen_w s' = wm_screen_w s \<and> wm_screen_h s' = wm_screen_h s \<and> wm_heap s' = wm_heap s \<and>
     gfx_w s' = gfx_w s \<and> gfx_h s' = gfx_h s \<and> wm_work_h s' = wm_work_h s \<and>
     wins s' = (\<lambda>a. if a \<in> set zs then bounded_window (wm_screen_w s) (wm_work_h s) (wins s a) else wins s a)"
proof (induction zs arbitrary: s p c)
  case Nil
  then show ?case by (subst bounds_from.simps) simp
next
  case (Cons z zs)
  let ?s = "wm_apply_bounds z s"
  have z: "c = z" "z \<noteq> 0" "z \<notin> set zs" and seg: "dseg (wins s) z (w_next (wins s z)) zs 0 l" using Cons.prems by auto
  have w: "wins ?s = (wins s)(z := bounded_window (wm_screen_w s) (wm_work_h s) (wins s z))"
    using z(2) by (simp add: wm_apply_bounds_def)
  have "dseg (wins ?s) z (w_next (wins ?s z)) zs 0 l" using seg z(3) by (simp add: w)
  from Cons.IH [OF this] Cons.prems obtain s' where s': "bounds_from (w_next (wins ?s z)) ?s = Some s'"
    "wm_head s' = wm_head s" "wm_tail s' = wm_tail s" "wm_focused s' = wm_focused s" "wm_dragging s' = wm_dragging s"
    "wm_screen_w s' = wm_screen_w s" "wm_screen_h s' = wm_screen_h s" "wm_heap s' = wm_heap s" "gfx_w s' = gfx_w s" "gfx_h s' = gfx_h s"
    "wm_work_h s' = wm_work_h s"
    "wins s' = (\<lambda>a. if a \<in> set zs then bounded_window (wm_screen_w ?s) (wm_work_h ?s) (wins ?s a) else wins ?s a)" by auto
  have "bounds_from c s = Some s'" using z s'(1) by (subst bounds_from.simps) (simp add: Let_def)
  moreover have "wins s' = (\<lambda>a. if a \<in> set (z # zs) then bounded_window (wm_screen_w s) (wm_work_h s) (wins s a) else wins s a)"
    using z(3) by (auto simp: s'(12) w)
  ultimately show ?case using s'(2-11) by blast
qed

lemma ok_reserve:
  assumes ok: "wm_ok s zs" shows "\<exists>s'. wm_set_reserved_bottom height s = Some s' \<and> wm_ok s' zs"
proof -
  let ?s = "wm_refresh_screen (s\<lparr>wm_reserved_bottom := height\<rparr>)"
  have l: "zlist ?s zs" and sc: "wm_screen_w ?s = gfx_w s" "wm_screen_h ?s = gfx_h s" "gfx_w ?s = gfx_w s" "gfx_h ?s = gfx_h s"
    and same: "wm_heap ?s = wm_heap s" "wm_focused ?s = wm_focused s" "wm_dragging ?s = wm_dragging s"
    using ok by (auto simp: wm_ok_def) (simp_all add: wm_refresh_screen_def)
  from l have seg: "dseg (wins ?s) 0 (wm_head ?s) zs 0 (wm_tail ?s)" "0 \<notin> set zs" "distinct zs" by (auto simp: zlist_def)
  from bounds_from_list [OF this] obtain s' where s': "bounds_from (wm_head ?s) ?s = Some s'"
    "wm_head s' = wm_head ?s" "wm_tail s' = wm_tail ?s" "wm_focused s' = wm_focused ?s" "wm_dragging s' = wm_dragging ?s"
    "wm_screen_w s' = wm_screen_w ?s" "wm_screen_h s' = wm_screen_h ?s" "wm_heap s' = wm_heap ?s" "gfx_w s' = gfx_w ?s" "gfx_h s' = gfx_h ?s"
    "wm_work_h s' = wm_work_h ?s"
    "wins s' = (\<lambda>a. if a \<in> set zs then bounded_window (wm_screen_w ?s) (wm_work_h ?s) (wins ?s a) else wins ?s a)" by blast
  have "dseg (wins s') 0 (wm_head s') zs 0 (wm_tail s')"
    using seg(1) unfolding s'(2,3) by (subst dseg_cong) (auto simp: s'(12))
  then have "zlist s' zs" using seg by (simp add: zlist_def)
  moreover have "window_fits (gfx_w s') (wm_work_h s') (wins s' z)" if "z \<in> set zs" for z
  proof -
    have "0 < unat (gfx_w s)" "unat (gfx_w s) < 2 ^ 31" "0 < unat (gfx_h s)" "unat (gfx_h s) < 2 ^ 31" using ok by (auto simp: wm_ok_def)
    then show ?thesis using that work_h_range [of ?s] by (simp add: s' sc bounded_fits)
  qed
  ultimately have "wm_ok s' zs" using ok by (auto simp: wm_ok_def s' sc same)
  then show ?thesis using s'(1) by (auto simp: wm_set_reserved_bottom_def Let_def)
qed

section \<open>The calls of a client\<close>

datatype wm_call =
    Create u32 u32 u32 u32 "bytes option" | Destroy u32 | Show u32 | Hide u32 | SetTitle u32 "bytes option" | SetPosition u32 u32 u32
  | SetSize u32 u32 u32 | SetBackground u32 u32 | SetOps u32 "wm_window_ops option" u32 | Focus u32 | Reserve u32 | ToggleMax u32

fun wm_do :: "wm_call \<Rightarrow> wm \<Rightarrow> wm option" where
  "wm_do (Create x y w h t) s = map_option snd (wm_create_window x y w h t s)"
| "wm_do (Destroy z) s = Some (wm_destroy_window z s)"
| "wm_do (Show z) s = Some (wm_show_window z s)"
| "wm_do (Hide z) s = Some (wm_hide_window z s)"
| "wm_do (SetTitle z t) s = Some (wm_set_title z t s)"
| "wm_do (SetPosition z x y) s = Some (wm_set_position z x y s)"
| "wm_do (SetSize z w h) s = Some (wm_set_size z w h s)"
| "wm_do (SetBackground z c) s = Some (wm_set_background z c s)"
| "wm_do (SetOps z ops u) s = Some (wm_set_ops z ops u s)"
| "wm_do (Focus z) s = Some (wm_focus_window z s)"
| "wm_do (Reserve h) s = wm_set_reserved_bottom h s"
| "wm_do (ToggleMax z) s = Some (wm_maximize_toggle z s)"

text \<open>The window a call is about, 0 when there is none.\<close>

fun call_win :: "wm_call \<Rightarrow> u32" where
  "call_win (Create x y w h t) = 0" | "call_win (Destroy z) = z" | "call_win (Show z) = z" | "call_win (Hide z) = z"
| "call_win (SetTitle z t) = z" | "call_win (SetPosition z x y) = z" | "call_win (SetSize z w h) = z" | "call_win (SetBackground z c) = z"
| "call_win (SetOps z ops u) = z" | "call_win (Focus z) = z" | "call_win (Reserve h) = 0" | "call_win (ToggleMax z) = z"

text \<open>The abstract effect of a call on the drawing order.\<close>

fun z_effect :: "wm_call \<Rightarrow> u32 list \<Rightarrow> u32 list \<Rightarrow> bool" where
  "z_effect (Create x y w h t) zs zs' \<longleftrightarrow> zs' = zs \<or> (\<exists>z. z \<notin> set zs \<and> zs' = zs @ [z])"
| "z_effect (Destroy z) zs zs' \<longleftrightarrow> zs' = remove1 z zs"
| "z_effect (Focus z) zs zs' \<longleftrightarrow> zs' = raise_win z zs"
| "z_effect c zs zs' \<longleftrightarrow> zs' = zs"

lemma ok_hide:
  assumes "wm_ok s zs" shows "wm_ok (wm_hide_window z s) zs"
proof -
  have "wm_ok (upd_win z (\<lambda>w. w\<lparr>w_visible := 0\<rparr>) s) zs" by (rule ok_upd [OF assms]) simp
  then have "wm_ok ((upd_win z (\<lambda>w. w\<lparr>w_visible := 0\<rparr>) s)\<lparr>wm_focused := f, wm_dragging := d\<rparr>) zs"
    if "f \<in> insert 0 (set zs)" "d \<in> insert 0 (set zs)" for f d using that by (auto simp: wm_ok_def)
  from this [of "wm_focused s"  "wm_dragging s"] this [of 0 "wm_dragging s"] this [of "wm_focused s" 0] this [of 0 0] assms
  show ?thesis by (auto simp: wm_hide_window_def Let_def wm_ok_def)
qed

lemma ok_move:
  assumes "wm_ok s zs" "z \<in> insert 0 (set zs)"
  shows "wm_ok (wm_set_position z x y s) zs" "wm_ok (wm_set_size z w h s) zs" "wm_ok (wm_maximize_toggle z s) zs"
proof -
  have r: "wm_refresh_screen s = s" "\<And>f. wm_refresh_screen (upd_win z f s) = upd_win z f s"
    using ok_refresh [OF assms(1)] assms(1) by (auto simp: wm_ok_def wm_refresh_screen_def upd_win_def)
  show "wm_ok (wm_set_position z x y s) zs"
    using ok_bounds [OF assms, of "\<lambda>w. w\<lparr>w_x := x, w_y := y\<rparr>"] assms(1) by (auto simp: wm_set_position_def r)
  show "wm_ok (wm_set_size z w h s) zs"
    using ok_bounds [OF assms, of "\<lambda>v. v\<lparr>w_width := w, w_height := h\<rparr>"] assms(1) by (auto simp: wm_set_size_def r)
  show "wm_ok (wm_maximize_toggle z s) zs"
  proof (cases "z = 0")
    case False
    show ?thesis
    proof (cases "w_maximized (wins s z) = 0")
      case True
      then show ?thesis using False ok_bounds [OF assms, of "\<lambda>w. w\<lparr>w_saved_x := w_x w, w_saved_y := w_y w, w_saved_w := w_width w, w_saved_h := w_height w,
                        w_x := 0, w_y := 0, w_width := (if wm_screen_w s \<noteq> 0 then wm_screen_w s else w_width w),
                        w_height := (if wm_work_h s \<noteq> 0 then wm_work_h s else w_height w), w_maximized := 1\<rparr>"]
        by (simp add: wm_maximize_toggle_def r Let_def)
    next
      case 2: False
      then show ?thesis using False ok_bounds [OF assms, of "\<lambda>w. w\<lparr>w_x := w_saved_x w, w_y := w_saved_y w,
                        w_width := (if w_saved_w w \<noteq> 0 then w_saved_w w else w_width w),
                        w_height := (if w_saved_h w \<noteq> 0 then w_saved_h w else w_height w), w_maximized := 0\<rparr>"]
        by (simp add: wm_maximize_toggle_def r Let_def)
    qed
  qed (use assms(1) in \<open>simp add: wm_maximize_toggle_def\<close>)
qed


section \<open>Input\<close>

text \<open>What the window manager needs of the owners' functions: they leave it well formed.\<close>

definition client_ok :: "'a wm_env \<Rightarrow> bool" where
  "client_ok E \<longleftrightarrow>
     (\<forall>f z p b pr u s a zs. wm_ok s zs \<longrightarrow> z \<in> set zs \<longrightarrow> (\<exists>zs'. wm_ok (fst (env_click E f z p b pr u (s, a))) zs')) \<and>
     (\<forall>f z u s a zs. wm_ok s zs \<longrightarrow> z \<in> set zs \<longrightarrow> (\<exists>zs'. wm_ok (fst (env_close E f z u (s, a))) zs'))"

lemma ok_dragging: "wm_ok s zs \<Longrightarrow> d \<in> insert 0 (set zs) \<Longrightarrow> wm_ok (s\<lparr>wm_dragging := d\<rparr>) zs"
  by (simp add: wm_ok_def)

lemma ok_press:
  assumes ok: "wm_ok s zs" and z: "z \<in> set zs" and E: "client_ok E"
  shows "\<exists>zs'. wm_ok (fst (press_on E ev z (s, a))) zs'"
proof -
  let ?s = "wm_focus_internal z s" and ?zs = "raise_win z zs"
  have d: "distinct zs" using ok by (simp add: wm_ok_def zlist_def)
  have f: "wm_ok ?s ?zs" using ok_focus [OF ok] z by simp
  have zz: "z \<in> set ?zs" "z \<in> insert 0 (set ?zs)" using z d by simp_all
  have hide: "wm_ok (upd_win z (\<lambda>w. w\<lparr>w_visible := 0\<rparr>) ?s) ?zs" by (rule ok_upd [OF f]) simp
  have drag: "wm_ok (upd_win z (\<lambda>w. w\<lparr>w_dragging := 1, w_drag_offset_x := ev_x ev - w_x w, w_drag_offset_y := ev_y ev - w_y w\<rparr>)
      (?s\<lparr>wm_dragging := z\<rparr>)) ?zs" by (rule ok_upd [OF ok_dragging [OF f zz(2)]]) simp
  have max: "wm_ok (wm_maximize_toggle z ?s) ?zs" using ok_move(3) [OF f zz(2)] .
  have cl: "\<exists>zs'. wm_ok (fst (env_close E g z u (?s, a))) zs'" "\<exists>zs'. wm_ok (fst (env_click E g z p b pr u (?s, a))) zs'" for g u p b pr
    using E f zz(1) unfolding client_ok_def by blast+
  show ?thesis unfolding press_on_def Let_def fst_conv snd_conv using f hide drag max cl by (auto split: if_split)
qed

definition drag_end :: "wm \<Rightarrow> wm" where
  "drag_end s = (if wm_dragging s \<noteq> 0 then upd_win (wm_dragging s) (\<lambda>w. w\<lparr>w_dragging := 0\<rparr>) s else s)\<lparr>wm_dragging := 0\<rparr>"

lemma released_eq:
  "wm_released E ev (s, a) =
     (let s' = drag_end s; f = wm_focused s'; w = wins s' f in
      if f \<noteq> 0 \<and> op_click (w_ops w) \<noteq> 0 then env_click E (op_click (w_ops w)) f (client_point ev w) MOUSE_BUTTON_LEFT 0 (w_user w) (s', a)
      else (s', a))"
  by (simp only: wm_released_def drag_end_def Let_def fst_conv snd_conv)

lemma ok_released:
  assumes ok: "wm_ok s zs" and E: "client_ok E" shows "\<exists>zs'. wm_ok (fst (wm_released E ev (s, a))) zs'"
proof -
  have s: "wm_ok (drag_end s) zs" unfolding drag_end_def using ok by (intro ok_dragging) (auto intro: ok_upd)
  show ?thesis
  proof (cases "wm_focused (drag_end s) \<noteq> 0 \<and> op_click (w_ops (wins (drag_end s) (wm_focused (drag_end s)))) \<noteq> 0")
    case True
    then have "wm_focused (drag_end s) \<in> set zs" using s by (auto simp: wm_ok_def)
    with E s have "\<exists>zs'. wm_ok (fst (env_click E g (wm_focused (drag_end s)) p b pr u (drag_end s, a))) zs'" for g p b pr u
      unfolding client_ok_def by blast
    with True show ?thesis by (simp add: released_eq Let_def)
  next
    case False
    with s show ?thesis by (auto simp: released_eq Let_def)
  qed
qed

lemma topmost_in: "topmost s zs x y \<in> insert 0 (set zs)"
proof (cases "filter (\<lambda>z. wm_point_in_window (wins s z) x y) zs = []")
  case False
  then have "topmost s zs x y \<in> set (filter (\<lambda>z. wm_point_in_window (wins s z) x y) zs)"
    unfolding topmost_def Let_def by (simp only: if_False) (rule last_in_set)
  then show ?thesis by simp
qed (simp add: topmost_def)

lemma ok_event:
  assumes ok: "wm_ok s zs" and E: "client_ok E"
  shows "\<exists>s' a' zs'. wm_event E ev (s, a) = Some (s', a') \<and> wm_ok s' zs'"
proof -
  define now before where "now \<longleftrightarrow> ev_buttons ev AND MOUSE_BUTTON_LEFT \<noteq> 0" and "before \<longleftrightarrow> wm_last_buttons s AND MOUSE_BUTTON_LEFT \<noteq> 0"
  obtain s1 a1 zs1 where 1: "(if now \<and> \<not> before then wm_pressed E ev (s, a) else Some (s, a)) = Some (s1, a1)" "wm_ok s1 zs1"
  proof (cases "now \<and> \<not> before")
    case True
    have find: "wm_find_topmost s (ev_x ev) (ev_y ev) = Some (topmost s zs (ev_x ev) (ev_y ev))"
      using ok by (intro find_topmost_list) (simp add: wm_ok_def)
    let ?st = "if topmost s zs (ev_x ev) (ev_y ev) \<noteq> 0 then press_on E ev (topmost s zs (ev_x ev) (ev_y ev)) (s, a) else (s, a)"
    have "\<exists>zs'. wm_ok (fst ?st) zs'" using ok_press [OF ok _ E] topmost_in [of s zs "ev_x ev" "ev_y ev"] ok by auto
    moreover have "wm_pressed E ev (s, a) = Some ?st" by (simp add: wm_pressed_def find)
    ultimately show ?thesis using that [of "fst ?st" "snd ?st"] True by auto
  next
    case False
    then have "(if now \<and> \<not> before then wm_pressed E ev (s, a) else Some (s, a)) = Some (s, a)" by (rule if_not_P)
    then show ?thesis using that ok by blast
  qed
  obtain s2 a2 zs2 where 2: "(if \<not> now \<and> before then wm_released E ev (s1, a1) else (s1, a1)) = (s2, a2)" "wm_ok s2 zs2"
  proof (cases "\<not> now \<and> before")
    case True
    obtain zs' where "wm_ok (fst (wm_released E ev (s1, a1))) zs'" using ok_released [OF 1(2) E] by blast
    then show ?thesis using that [of "fst (wm_released E ev (s1, a1))" "snd (wm_released E ev (s1, a1))" zs'] True by simp
  next
    case False
    then have "(if \<not> now \<and> before then wm_released E ev (s1, a1) else (s1, a1)) = (s1, a1)" by (rule if_not_P)
    then show ?thesis using that 1(2) by blast
  qed
  have "wm_ok (wm_drag ev s2) zs2"
  proof (cases "wm_dragging s2 = 0")
    case False
    have "wm_dragging s2 \<in> insert 0 (set zs2)" using 2(2) by (simp add: wm_ok_def)
    from ok_bounds [OF 2(2) this, of "\<lambda>w. w\<lparr>w_x := ev_x ev - w_drag_offset_x w, w_y := ev_y ev - w_drag_offset_y w\<rparr>"] False
    show ?thesis by (simp add: wm_drag_def Let_def)
  qed (use 2(2) in \<open>simp add: wm_drag_def\<close>)
  then have "wm_ok ((wm_drag ev s2)\<lparr>wm_last_buttons := ev_buttons ev\<rparr>) zs2" by (simp add: wm_ok_def)
  moreover have "wm_event E ev (s, a) = Some ((wm_drag ev s2)\<lparr>wm_last_buttons := ev_buttons ev\<rparr>, a2)"
    unfolding wm_event_def Let_def fst_conv now_def [symmetric] before_def [symmetric] 1(1) option.case 2(1) snd_conv by (rule refl)
  ultimately show ?thesis by blast
qed

text \<open>
  C11. Handling the mouse. wm_update returns, with the event buffer drained and the window manager well formed (list
  intact, focus and drag on listed windows or NULL, every window inside the work area), for any events and any
  owners' functions that keep it well formed.
\<close>
theorem wm_update_keeps_invariant:
  assumes "wm_ok s zs" and "mouse_inv ms" and "client_ok E"
  shows "\<exists>ms' s' a' zs'. wm_update E ms (s, a) = Some (ms', s', a') \<and> mouse_inv ms' \<and> mouse_events ms' = [] \<and> wm_ok s' zs'"
  using assms(1,2)
proof (induction "length (mouse_events ms)" arbitrary: ms s a zs)
  case 0
  then have "mouse_read_event ms = None" using mouse_fifo.deq_None by simp
  then show ?case using 0 by (subst wm_update.simps) auto
next
  case (Suc n)
  then obtain ev ms1 where r: "mouse_read_event ms = Some (ev, ms1)" using mouse_fifo.deq_None [OF Suc.prems(2)] by (metis length_0_conv nat.distinct(1) not_None_eq surj_pair)
  have m: "mouse_inv ms1" "mouse_events ms = ev # mouse_events ms1" using mouse_fifo.deq_Some [OF Suc.prems(2) r] by auto
  obtain s1 a1 zs1 where e: "wm_event E ev (s, a) = Some (s1, a1)" "wm_ok s1 zs1" using ok_event [OF Suc.prems(1) assms(3)] by blast
  have "n = length (mouse_events ms1)" using Suc.hyps(2) m by simp
  from Suc.hyps(1) [OF this e(2) m(1)] obtain ms' s' a' zs' where
    "wm_update E ms1 (s1, a1) = Some (ms', s', a') \<and> mouse_inv ms' \<and> mouse_events ms' = [] \<and> wm_ok s' zs'" by blast
  moreover have "wm_update E ms (s, a) = wm_update E ms1 (s1, a1)" by (subst wm_update.simps) (simp add: r e(1))
  ultimately show ?case by auto
qed

text \<open>A press on a window whose owner has registered nothing focuses and raises it.\<close>

lemma press_focuses:
  assumes "wm_ok s zs" "ev_buttons ev AND 1 \<noteq> 0" "wm_last_buttons s AND 1 = 0"
    and t: "z = topmost s zs (ev_x ev) (ev_y ev)" "z \<noteq> 0" and o: "w_ops (wins s z) = no_ops"
  shows "\<exists>s'. wm_pressed E ev (s, a) = Some (s', a) \<and> wm_focused s' = z \<and> wm_ok s' (raise_win z zs)"
proof -
  have l: "zlist s zs" "z \<in> set zs" "distinct zs" using assms(1) topmost_in [of s zs] t by (auto simp: wm_ok_def zlist_def)
  let ?s = "wm_focus_internal z s"
  have ok: "wm_ok ?s (raise_win z zs)" using ok_focus [OF assms(1)] l by simp
  have zz: "z \<in> insert 0 (set (raise_win z zs))" using l by simp
  have "w_ops (wins ?s z) = no_ops"
  proof -
    have "w_ops w = w_ops (content w)" for w by (simp add: content_def)
    then show ?thesis using o focus_list(2) [OF l(1), of z z] l(2) by metis
  qed
  then have n: "op_close (w_ops (wins ?s z)) = 0" "op_click (w_ops (wins ?s z)) = 0" by (simp_all add: no_ops_def)
  have fm: "wm_focused (wm_maximize_toggle z ?s) = z"
    by (simp add: wm_maximize_toggle_def wm_apply_bounds_def wm_refresh_screen_def Let_def)
  have "wm_pressed E ev (s, a) = Some (press_on E ev z (s, a))"
    using find_topmost_list [OF l(1), of "ev_x ev" "ev_y ev"] t by (simp add: wm_pressed_def)
  moreover have "\<exists>s'. press_on E ev z (s, a) = (s', a) \<and> wm_focused s' = z \<and> wm_ok s' (raise_win z zs)"
    unfolding press_on_def Let_def fst_conv snd_conv n
    using ok fm ok_move(3) [OF ok zz] ok_upd [OF ok] ok_upd [OF ok_dragging [OF ok zz]] by (auto split: if_split)
  ultimately show ?thesis by auto
qed

section \<open>Witnesses\<close>

definition wm_boot :: wm where
  "wm_boot = wm_init \<lparr>wins = (\<lambda>_. zero_window), wm_head = 5, wm_tail = 5, wm_focused = 5, wm_dragging = 5, wm_next_id = 5, wm_screen_w = 0,
     wm_screen_h = 0, wm_reserved_bottom = 5, wm_last_buttons = 1, wm_colors = \<lparr>wm_border_color = 0, wm_title_color = 0,
     wm_title_color_inactive = 0, wm_title_text = 0, wm_btn_close = 0, wm_btn_max = 0, wm_btn_glyph = 0\<rparr>,
     wm_heap = heap_boot, gfx_w = 640, gfx_h = 480\<rparr>"

lemma wm_boot_ok: "wm_ok wm_boot []"
  by (simp add: wm_ok_def wm_boot_def wm_init_def wm_refresh_screen_def zlist_def heap_inv_boot Let_def)

lemma create_pointer: "wm_create_window x y w h t s = Some (z, s') \<Longrightarrow> \<exists>k. kmalloc sizeof_wm_window (wm_heap s) = Some (z, k)"
  by (auto simp: wm_create_window_def Let_def split: option.splits if_splits)

lemma boot_window:
  obtains z s where "wm_create_window 10 10 300 200 (Some [0x68]) wm_boot = Some (z, s)" "z \<noteq> 0" "wm_ok s [z]"
proof -
  obtain z s where c: "wm_create_window 10 10 300 200 (Some [0x68]) wm_boot = Some (z, s)"
      "if z = 0 then s = wm_boot else z \<notin> set [] \<and> wm_focused s = z \<and> wm_ok s ([] @ [z])"
    using ok_create [OF wm_boot_ok] by blast
  have "wm_heap wm_boot = heap_boot" by (simp add: wm_boot_def wm_init_def wm_refresh_screen_def Let_def)
  moreover have "kmalloc sizeof_wm_window heap_boot = Some (0x400010, the (map_option snd (kmalloc sizeof_wm_window heap_boot)))"
    by (simp add: kmalloc_def heap_boot_def heap_init_def kmalloc_walk.simps)
  ultimately have "z = 0x400010" using create_pointer [OF c(1)] by auto
  then show ?thesis using c that by simp
qed


lemma wm_update_keeps_invariant_witness:
  "\<exists>s z ms' s' a' zs'. wm_create_window 10 10 300 200 (Some [0x68]) wm_boot = Some (z, s) \<and>
     wm_update \<lparr>env_key = (\<lambda>f z k u st. st), env_click = (\<lambda>f z p b pr u st. st), env_close = (\<lambda>f z u (s, a). (wm_hide_window z s, a))\<rparr>
       (push_event \<lparr>ev_dx = 0, ev_dy = 0, ev_buttons = 1, ev_x = 20, ev_y = 20\<rparr> mouse_boot) (s, ()) = Some (ms', s', a') \<and>
     mouse_events ms' = [] \<and> wm_ok s' zs'"
proof -
  obtain z s where z: "wm_create_window 10 10 300 200 (Some [0x68]) wm_boot = Some (z, s)" "z \<noteq> 0" "wm_ok s [z]"
    by (rule boot_window)
  let ?E = "\<lparr>env_key = (\<lambda>f z k u st. st), env_click = (\<lambda>f z p b pr u st. st), env_close = (\<lambda>f z u (s, a). (wm_hide_window z s, a))\<rparr> :: unit wm_env"
  have "client_ok ?E" using ok_hide by (auto simp: client_ok_def)
  from wm_update_keeps_invariant [OF z(3) mouse_fifo.invar_enq [OF mouse_boot_inv] this, of "\<lparr>ev_dx = 0, ev_dy = 0, ev_buttons = 1, ev_x = 20, ev_y = 20\<rparr>" "()"]
  show ?thesis using z(1) by blast
qed

end
