(* ===== verification/WmDraw.thy ===== *)
theory WmDraw
  imports WmProps GraphicsProps
begin

text \<open>
  Drawing the windows, the rest of \<open>kernel/wm/wm.c\<close>. The owners' drawing functions are a
  parameter that maps the window manager, the screen and the owner's state.
\<close>

type_synonym 'a draw_env = "u32 \<Rightarrow> u32 \<Rightarrow> u32 \<times> u32 \<times> u32 \<times> u32 \<Rightarrow> u32 \<Rightarrow> wm \<times> gfx \<times> 'a \<Rightarrow> wm \<times> gfx \<times> 'a"

definition wm_draw_rect :: "u32 \<Rightarrow> u32 \<Rightarrow> u32 \<Rightarrow> u32 \<Rightarrow> color \<Rightarrow> gfx \<Rightarrow> gfx" where
  "wm_draw_rect x y w h color g =
     (if w = 0 \<or> h = 0 then g
      else
        let g = fold (\<lambda>i g. graphics_set_pixel (x + of_nat i) (y + h - 1) color (graphics_set_pixel (x + of_nat i) y color g)) [0..<unat w] g
        in fold (\<lambda>i g. graphics_set_pixel (x + w - 1) (y + of_nat i) color (graphics_set_pixel x (y + of_nat i) color g)) [0..<unat h] g)"

definition wm_draw_title_button :: "wm_palette \<Rightarrow> u32 \<Rightarrow> u32 \<Rightarrow> color \<Rightarrow> u8 \<Rightarrow> gfx \<Rightarrow> gfx" where
  "wm_draw_title_button pal x y bg glyph g =
     (let g = graphics_fill_rect x y WM_BTN_SIZE WM_BTN_SIZE bg g;
          g = wm_draw_rect x y WM_BTN_SIZE WM_BTN_SIZE (graphics_rgb 20 24 36) g
      in graphics_draw_string (x + 3) (y + 3) (if glyph = 0 then [] else [glyph]) (wm_btn_glyph pal) bg g)"

text \<open>The part of a window the window manager draws itself.\<close>

definition draw_frame :: "wm_palette \<Rightarrow> wm_window \<Rightarrow> bool \<Rightarrow> gfx \<Rightarrow> gfx" where
  "draw_frame pal win focused g =
     (let x = w_x win; y = w_y win; w = w_width win; h = w_height win;
          g = graphics_fill_rect x y w h (w_bg_color win) g;
          tc = (if focused then wm_title_color pal else wm_title_color_inactive pal);
          g = graphics_fill_rect x y w WM_TITLE_HEIGHT tc g;
          g = wm_draw_rect x y w h (wm_border_color pal) g;
          g = graphics_fill_rect x (y + WM_TITLE_HEIGHT) w 1 (wm_border_color pal) g;
          g = (if w_title win ! 0 \<noteq> 0
               then graphics_draw_string (x + 8) (y + 7) (takeWhile (\<lambda>c. c \<noteq> 0) (w_title win)) (wm_title_text pal) tc g else g);
          (cx, mx, by) = wm_button_rects win;
          g = wm_draw_title_button pal mx by (wm_btn_max pal) (if w_maximized win \<noteq> 0 then 0x72 else 0x2B) g
      in wm_draw_title_button pal cx by (wm_btn_close pal) 0x78 g)"

definition wm_draw_window :: "'a draw_env \<Rightarrow> u32 \<Rightarrow> bool \<Rightarrow> wm \<times> gfx \<times> 'a \<Rightarrow> wm \<times> gfx \<times> 'a" where
  "wm_draw_window D win focused st =
     (case st of (s, g, a) \<Rightarrow>
        let w = wins s win in
        if win = 0 \<or> w_visible w = 0 then (s, g, a)
        else
          let g = draw_frame (wm_colors s) w focused g
          in if op_draw (w_ops w) \<noteq> 0
             then D (op_draw (w_ops w)) win (the (wm_get_client_rect win s)) (w_user w) (s, g, a)
             else (s, g, a))"

partial_function (option) render_from :: "'a draw_env \<Rightarrow> u32 \<Rightarrow> wm \<times> gfx \<times> 'a \<Rightarrow> (wm \<times> gfx \<times> 'a) option" where
  "render_from D win st =
     (if win = 0 then Some st
      else let st = wm_draw_window D win (win = wm_focused (fst st)) st in render_from D (w_next (wins (fst st) win)) st)"

definition wm_render :: "'a draw_env \<Rightarrow> wm \<times> gfx \<times> 'a \<Rightarrow> (wm \<times> gfx \<times> 'a) option" where
  "wm_render D st =
     (case st of (s, g, a) \<Rightarrow>
        if graphics_get_width g = 0 \<or> graphics_get_height g = 0 then Some st else render_from D (wm_head s) st)"

text \<open>When drawing leaves the window manager alone, the windows are drawn from the bottom of the list to its top.\<close>

lemma render_in_order:
  assumes "zlist s zs" "\<And>f z r u g a. fst (D f z r u (s, g, a)) = s" "graphics_width g \<noteq> 0" "graphics_height g \<noteq> 0"
  shows "wm_render D (s, g, a) = Some (fold (\<lambda>z. wm_draw_window D z (z = wm_focused s)) zs (s, g, a))"
proof -
  have keep: "fst (wm_draw_window D z b (s, g, a)) = s" for z b g a
    using assms(2) by (simp add: wm_draw_window_def Let_def)
  have "dseg (wins s) p c zs 0 l \<Longrightarrow> 0 \<notin> set zs \<Longrightarrow>
      render_from D c (s, g, a) = Some (fold (\<lambda>z. wm_draw_window D z (z = wm_focused s)) zs (s, g, a))" for p c l g a
  proof (induction zs arbitrary: p c g a)
    case Nil
    then show ?case by (subst render_from.simps) simp
  next
    case (Cons z zs)
    obtain g1 a1 where d: "wm_draw_window D z (z = wm_focused s) (s, g, a) = (s, g1, a1)"
      using keep by (metis prod.collapse)
    from Cons.IH [of z "w_next (wins s z)" g1 a1] Cons.prems
    show ?case by (subst render_from.simps) (auto simp: d Let_def)
  qed
  then show ?thesis using assms by (auto simp: wm_render_def zlist_def graphics_get_width_def graphics_get_height_def)
qed

text \<open>Drawing a frame keeps the limits of the screen.\<close>

lemma draw_rect_fields [simp]: "gfx_ok (wm_draw_rect x y w h c g) = gfx_ok g" "on_screen (wm_draw_rect x y w h c g) = on_screen g"
proof -
  have "gfx_ok (fold (\<lambda>i g. graphics_set_pixel (p i) (q i) c (graphics_set_pixel (p' i) (q' i) c g)) is g) = gfx_ok g \<and>
    on_screen (fold (\<lambda>i g. graphics_set_pixel (p i) (q i) c (graphics_set_pixel (p' i) (q' i) c g)) is g) = on_screen g"
    for p q p' q' and "is" :: "nat list" and g by (induction "is" arbitrary: g) simp_all
  then show "gfx_ok (wm_draw_rect x y w h c g) = gfx_ok g" "on_screen (wm_draw_rect x y w h c g) = on_screen g"
    by (simp_all add: wm_draw_rect_def Let_def)
qed

end
