(* ===== verification/Exec.thy ===== *)
theory Exec
  imports Tetfs Vmm Process
begin

text \<open>
  The program loader, \<open>kernel/exec/exec.c\<close> with the formats of \<open>kernel/exec/elf.h\<close>: it
  puts together the file system, the heap, the frame allocator, the page tables and the
  process table. The heap buffer of the file is the list of its bytes; reading outside it has
  no result (\<open>None\<close>), like a heap walk that does not end. Frames are written at their physical
  addresses, as in \<open>Vmm\<close>.
\<close>

section \<open>The file format\<close>

abbreviation "ELF_MAGIC \<equiv> (0x464c457f :: u32)"
abbreviation "PT_LOAD \<equiv> (1 :: u32)"
abbreviation "USER_STACK_BASE \<equiv> (0x08000000 :: u32)"
abbreviation "USER_STACK_SIZE \<equiv> (0x1000 :: u32)"
abbreviation "sizeof_ehdr \<equiv> (52 :: nat)"
abbreviation "sizeof_phdr \<equiv> (32 :: nat)"

record elf_header =
  e_ident :: bytes
  e_type :: u16
  e_machine :: u16
  e_version :: u32
  e_entry :: u32
  e_phoff :: u32
  e_shoff :: u32
  e_flags :: u32
  e_ehsize :: u16
  e_phentsize :: u16
  e_phnum :: u16
  e_shentsize :: u16
  e_shnum :: u16
  e_shstrndx :: u16

definition dec_ehdr :: "bytes \<Rightarrow> elf_header" where
  "dec_ehdr b = \<lparr>e_ident = slice 0 16 b, e_type = rd16 b 16, e_machine = rd16 b 18, e_version = rd32 b 20, e_entry = rd32 b 24,
     e_phoff = rd32 b 28, e_shoff = rd32 b 32, e_flags = rd32 b 36, e_ehsize = rd16 b 40, e_phentsize = rd16 b 42, e_phnum = rd16 b 44,
     e_shentsize = rd16 b 46, e_shnum = rd16 b 48, e_shstrndx = rd16 b 50\<rparr>"

record elf_program_header =
  p_type :: u32
  p_offset :: u32
  p_vaddr :: u32
  p_paddr :: u32
  p_filesz :: u32
  p_memsz :: u32
  p_flags :: u32
  p_align :: u32

definition dec_phdr :: "bytes \<Rightarrow> nat \<Rightarrow> elf_program_header" where
  "dec_phdr b k = \<lparr>p_type = rd32 b k, p_offset = rd32 b (k + 4), p_vaddr = rd32 b (k + 8), p_paddr = rd32 b (k + 12),
     p_filesz = rd32 b (k + 16), p_memsz = rd32 b (k + 20), p_flags = rd32 b (k + 24), p_align = rd32 b (k + 28)\<rparr>"

section \<open>Loading\<close>

text \<open>\<open>memcpy\<close> of bytes to the start of a frame that was just zeroed, by words.\<close>

definition copy_to_frame :: "u32 \<Rightarrow> bytes \<Rightarrow> vm \<Rightarrow> vm" where
  "copy_to_frame p bs s = fold (\<lambda>i. wr (ent p (of_nat i)) (rd32 (bs @ [0, 0, 0]) (4 * i))) [0..<(length bs + 3) div 4] s"

text \<open>The bytes of a segment that belong in its page at offset \<open>j\<close>.\<close>

definition page_copy_size :: "u32 \<Rightarrow> u32 \<Rightarrow> u32" where
  "page_copy_size fsize j = (if j < fsize then if fsize - j < 0x1000 then fsize - j else 0x1000 else 0)"

text \<open>The page loop of one segment, \<open>False\<close> when no frame is left; \<open>offset\<close> is where its data starts in the file.\<close>

partial_function (option) load_pages :: "u32 \<Rightarrow> bytes \<Rightarrow> u32 \<Rightarrow> u32 \<Rightarrow> u32 \<Rightarrow> u32 \<Rightarrow> u32 \<Rightarrow> vm \<Rightarrow> (bool \<times> vm) option" where
  "load_pages dir file virt offset fsize msize j s =
     (if msize \<le> j then Some (True, s)
      else case vm_alloc s of (frame, s) \<Rightarrow>
        if frame = 0 then Some (False, s)
        else
          let s = clear_frame frame s; copy_sz = page_copy_size fsize j in
          if 0 < copy_sz \<and> length file < unat offset + unat j + unat copy_sz then None
          else
            let s = (if 0 < copy_sz then copy_to_frame frame (slice (unat offset + unat j) (unat copy_sz) file) s else s);
                s = vmm_map_page_in_dir dir (virt + j) frame (PAGE_PRESENT OR PAGE_USER OR PAGE_WRITE) s
            in load_pages dir file virt offset fsize msize (j + 0x1000) s)"

text \<open>The loop over the program headers; the result is 0 or the error code.\<close>

fun load_segments :: "u32 \<Rightarrow> bytes \<Rightarrow> elf_header \<Rightarrow> nat list \<Rightarrow> vm \<Rightarrow> (int \<times> vm) option" where
  "load_segments dir file eh [] s = Some (0, s)"
| "load_segments dir file eh (i # is) s =
     (let k = unat (e_phoff eh + of_nat i * ucast (e_phentsize eh)) in
      if length file < k + sizeof_phdr then None
      else
        let ph = dec_phdr file k in
        if p_type ph \<noteq> PT_LOAD then load_segments dir file eh is s
        else if of_nat (length file) < p_offset ph + p_filesz ph then Some (-11, s)
        else case load_pages dir file (p_vaddr ph) (p_offset ph) (p_filesz ph) (p_memsz ph) 0 s of
               None \<Rightarrow> None
             | Some (ok, s) \<Rightarrow> if ok then load_segments dir file eh is s else Some (-9, s))"

text \<open>The stack is one page, so its loop runs once.\<close>

definition load_stack :: "u32 \<Rightarrow> vm \<Rightarrow> bool \<times> vm" where
  "load_stack dir s =
     (case vm_alloc s of (frame, s) \<Rightarrow>
        if frame = 0 then (False, s)
        else (True, vmm_map_page_in_dir dir (USER_STACK_BASE - USER_STACK_SIZE) frame (PAGE_PRESENT OR PAGE_USER OR PAGE_WRITE) (clear_frame frame s)))"

text \<open>From the address space to the last mapping: the error code, or the new directory.\<close>

definition load_image :: "bytes \<Rightarrow> elf_header \<Rightarrow> vm \<Rightarrow> ((int + u32) \<times> vm) option" where
  "load_image file eh s =
     (case vmm_create_address_space s of (dir, s) \<Rightarrow>
        if dir = 0 then Some (Inl (-8), s)
        else case load_segments dir file eh [0..<unat (e_phnum eh)] s of
               None \<Rightarrow> None
             | Some (r, s) \<Rightarrow>
                 if r \<noteq> 0 then Some (Inl r, s)
                 else case load_stack dir s of (ok, s) \<Rightarrow> if ok then Some (Inr dir, s) else Some (Inl (-12), s))"

record 'd exec_state =
  ex_disk :: 'd
  ex_vm :: vm
  ex_sched :: sched

definition free_buffer :: "u32 \<Rightarrow> 'd exec_state \<Rightarrow> 'd exec_state" where
  "free_buffer p st = st\<lparr>ex_sched := (ex_sched st)\<lparr>kheap := kfree p (kheap (ex_sched st))\<rparr>\<rparr>"

text \<open>What is done with a buffer that holds the whole file; \<open>name\<close> becomes the name of the process.\<close>

definition exec_file :: "bytes \<Rightarrow> bytes \<Rightarrow> 'd exec_state \<Rightarrow> (int \<times> 'd exec_state) option" where
  "exec_file name file st =
     (let eh = dec_ehdr file in
      if rd32 (e_ident eh) 0 \<noteq> ELF_MAGIC then Some (-6, st)
      else if of_nat (length file) < e_phoff eh + ucast (e_phnum eh) * ucast (e_phentsize eh) then Some (-7, st)
      else case load_image file eh (ex_vm st) of
             None \<Rightarrow> None
           | Some (Inl e, v) \<Rightarrow> Some (e, st\<lparr>ex_vm := v\<rparr>)
           | Some (Inr dir, v) \<Rightarrow>
               let st = st\<lparr>ex_vm := v\<rparr> in
               case process_create_user (e_entry eh) USER_STACK_BASE name (ex_sched st) of
                 None \<Rightarrow> None
               | Some (None, sc) \<Rightarrow> Some (-10, st\<lparr>ex_sched := sc\<rparr>)
               | Some (Some p, sc) \<Rightarrow>
                   Some (sint (p_pid (process_table sc ! p)),
                         st\<lparr>ex_sched := sc\<lparr>process_table := upd p (\<lambda>q. q\<lparr>p_user_page_dir := dir\<rparr>) (process_table sc)\<rparr>\<rparr>))"

text \<open>Every path after the allocation frees the buffer last. A failed \<open>tetfs_read_inode\<close> leaves the node undefined.\<close>

definition exec_elf_from_disk :: "'d dev \<Rightarrow> bytes \<Rightarrow> 'd exec_state \<Rightarrow> (int \<times> 'd exec_state) option" where
  "exec_elf_from_disk D filename st =
     (case tetfs_find D filename TETFS_ROOT_INODE (ex_disk st) of (idx, d) \<Rightarrow>
        let st = st\<lparr>ex_disk := d\<rparr> in
        if idx < 0 then Some (-2, st)
        else case tetfs_read_inode D (of_int idx) (ex_disk st) of
          (None, d) \<Rightarrow> None
        | (Some node, d) \<Rightarrow>
            let st = st\<lparr>ex_disk := d\<rparr> in
            if i_size node < of_nat sizeof_ehdr then Some (-3, st)
            else case kmalloc (i_size node) (kheap (ex_sched st)) of
              None \<Rightarrow> None
            | Some (buf, h) \<Rightarrow>
                let st = st\<lparr>ex_sched := (ex_sched st)\<lparr>kheap := h\<rparr>\<rparr> in
                if buf = 0 then Some (-4, st)
                else case tetfs_read D (of_int idx) 0 (i_size node) (ex_disk st) of ((nread, file), d) \<Rightarrow>
                  let st = st\<lparr>ex_disk := d\<rparr> in
                  if nread \<noteq> sint (i_size node) then Some (-5, free_buffer buf st)
                  else map_option (\<lambda>(r, st). (r, free_buffer buf st)) (exec_file filename file st))"

end
