(* ===== verification/ExecProps.thy ===== *)
theory ExecProps
  imports Exec ProcessProps Vfs
begin

text \<open>
  What the program loader builds. A frame in use that is neither a directory nor a table
  holds data; entering pages into a directory leaves the data frames alone, so a page once
  filled keeps its content. \<open>word_at\<close> is what a program reads under a directory.
\<close>

section \<open>Data frames\<close>

definition is_table :: "vm \<Rightarrow> u32 set \<Rightarrow> u32 \<Rightarrow> bool" where
  "is_table s ds x \<longleftrightarrow> (\<exists>d \<in> ds. \<exists>i. unat i < 1024 \<and> present s d i \<and> tbl s d i = x)"

definition data_frame :: "vm \<Rightarrow> u32 set \<Rightarrow> u32 \<Rightarrow> bool" where
  "data_frame s ds x \<longleftrightarrow> x \<in> frames_live (vm_pmm s) \<and> x \<notin> ds \<and> \<not> is_table s ds x"

definition data_kept :: "u32 set \<Rightarrow> vm \<Rightarrow> vm \<Rightarrow> bool" where
  "data_kept ds s s' \<longleftrightarrow> frames_live (vm_pmm s) \<subseteq> frames_live (vm_pmm s') \<and> page_directory s' = page_directory s \<and>
     (\<forall>x. data_frame s ds x \<longrightarrow> data_frame s' ds x \<and> (\<forall>j. unat j < 1024 \<longrightarrow> rd s' (ent x j) = rd s (ent x j)))"

lemma data_kept_refl [simp]: "data_kept ds s s"
  by (simp add: data_kept_def)

lemma data_kept_trans: "data_kept ds s t \<Longrightarrow> data_kept ds t u \<Longrightarrow> data_kept ds s u"
  unfolding data_kept_def by (metis subset_trans)

lemma data_is_frame: "data_frame s ds x \<Longrightarrow> is_frame x"
  using live_is_frame by (auto simp: data_frame_def)

lemma table_entry_data:
  assumes ok: "vm_ok s ds" and d: "d \<in> ds" "present s d i" "unat i < 1024" "unat k < 1024"
  shows "data_kept ds s (wr (ent (tbl s d i) k) v s) \<and>
    (\<forall>e f j. e \<in> ds \<longrightarrow> f \<in> ds \<longrightarrow> unat j < 1024 \<longrightarrow> shares (wr (ent (tbl s d i) k) v s) e f j = shares s e f j)"
proof -
  let ?t = "tbl s d i" and ?s = "wr (ent (tbl s d i) k) v s"
  note t = vm_okD(5,6) [OF ok d(1,3,2)]
  have other: "rd ?s (ent e j) = rd s (ent e j)" if "is_frame e" "e \<noteq> ?t" "unat j < 1024" for e j
    using that t d(4) by (simp add: ent_inj)
  have same: "present ?s e j \<longleftrightarrow> present s e j" "tbl ?s e j = tbl s e j" if "e \<in> ds" "unat j < 1024" for e j
  proof -
    have "e \<noteq> ?t" using that(1) t(1) by blast
    then have "rd ?s (ent e j) = rd s (ent e j)" by (rule other [OF vm_okD(3) [OF ok that(1)] _ that(2)])
    then show "present ?s e j \<longleftrightarrow> present s e j" "tbl ?s e j = tbl s e j" by (simp_all only: present_def tbl_def)
  qed
  have "is_table ?s ds x \<longleftrightarrow> is_table s ds x" for x unfolding is_table_def using same by metis
  moreover have "x \<noteq> ?t" if "data_frame s ds x" for x
    using that d by (auto simp: data_frame_def is_table_def)
  moreover have "shares ?s e f j = shares s e f j" if "e \<in> ds" "f \<in> ds" "unat j < 1024" for e f j
    unfolding shares_def same [OF that(1,3)] same [OF that(2,3)] ..
  ultimately show ?thesis using other data_is_frame by (auto simp: data_kept_def data_frame_def)
qed

lemma map_in_data:
  assumes ok: "vm_ok s ds" and d: "dir \<in> ds" and w: "page_base w = 0" "w AND 1 \<noteq> 0"
  shows "data_kept ds s (map_in dir w virt phys flags s) \<and>
    (\<forall>e j. e \<in> ds \<longrightarrow> unat j < 1024 \<longrightarrow> e \<noteq> dir \<longrightarrow> shares (map_in dir w virt phys flags s) e dir j = shares s e dir j) \<and>
    unat (pmm_free_frames (vm_pmm s)) \<le> unat (pmm_free_frames (vm_pmm (map_in dir w virt phys flags s))) + 1"
proof (cases "present s dir (dir_idx virt)")
  case True
  then have run: "map_in dir w virt phys flags s
      = wr (ent (tbl s dir (dir_idx virt)) (table_idx virt)) (page_base phys OR (flags AND 0xFFF) OR PAGE_PRESENT) s"
    by (simp add: map_in_def present_def tbl_def)
  show ?thesis unfolding run using table_entry_data [OF ok d True idx_less] d by simp
next
  case False
  show ?thesis
  proof (cases rule: vm_alloc_cases [OF vm_okD(1) [OF ok]])
    case 1
    with False show ?thesis by (simp add: map_in_def present_def)
  next
    case (2 f p)
    define t where "t = clear_frame f (s\<lparr>vm_pmm := p\<rparr>)"
    define s1 where "s1 = wr (ent dir (dir_idx virt)) (f OR w) t"
    have fr: "is_frame f" using 2(5) live_is_frame [of f p] by simp
    have pm: "vm_pmm t = p" by (simp add: t_def)
    have cl: "\<forall>e j. is_frame e \<longrightarrow> unat j < 1024 \<longrightarrow> e \<noteq> f \<longrightarrow> rd t (ent e j) = rd s (ent e j)"
      using fr by (simp add: t_def clear_frame_rd)
    note n = fresh_table [OF ok d idx_less(1) False 2(3,4,5) w pm cl s1_def]
    have run: "map_in dir w virt phys flags s
        = wr (ent (tbl s1 dir (dir_idx virt)) (table_idx virt)) (page_base phys OR (flags AND 0xFFF) OR PAGE_PRESENT) s1"
      using 2(1,2) False unfolding map_in_def s1_def t_def by (simp add: present_def tbl_def)
    have s1: "vm_pmm s1 = p" "page_directory s1 = page_directory s" by (simp_all add: s1_def t_def)
    have "data_frame s1 ds x \<and> (\<forall>j. unat j < 1024 \<longrightarrow> rd s1 (ent x j) = rd s (ent x j))" if x: "data_frame s ds x" for x
    proof -
      have xl: "x \<in> frames_live (vm_pmm s)" "x \<notin> ds" "x \<noteq> f" "x \<in> frames_live p" using x 2(3,5) by (auto simp: data_frame_def)
      have "\<not> is_table s1 ds x"
      proof
        assume "is_table s1 ds x"
        then obtain e j where "e \<in> ds" "unat j < 1024" "present s1 e j" "tbl s1 e j = x" by (auto simp: is_table_def)
        then have "present s e j" "tbl s e j = x" "e \<in> ds" "unat j < 1024" using n(4,5) xl(3) by (auto split: if_splits)
        then show False using x by (auto simp: data_frame_def is_table_def)
      qed
      then show ?thesis using xl s1 n(8) [OF xl(4,2)] cl data_is_frame [OF x] by (simp add: data_frame_def)
    qed
    then have "data_kept ds s s1" using 2(5) s1 by (auto simp: data_kept_def)
    moreover have "data_kept ds s1 (map_in dir w virt phys flags s)"
      "\<forall>e j. e \<in> ds \<longrightarrow> unat j < 1024 \<longrightarrow> e \<noteq> dir \<longrightarrow> shares (map_in dir w virt phys flags s) e dir j = shares s e dir j"
      unfolding run using table_entry_data [OF n(1) d n(2) idx_less] d n(7) by blast+
    moreover have "vm_pmm (map_in dir w virt phys flags s) = p" by (simp add: run s1)
    ultimately show ?thesis using data_kept_trans [of ds s s1] 2(6) by simp
  qed
qed

text \<open>A fresh frame, cleared and filled, is a data frame; the others are not written.\<close>

lemma alloc_data:
  assumes ok: "vm_ok s ds" and f: "f \<notin> frames_live (vm_pmm s)" "pmm_inv p" "frames_live p = insert f (frames_live (vm_pmm s))"
    and t: "vm_pmm t = p" "page_directory t = page_directory s"
      "\<forall>e j. is_frame e \<longrightarrow> unat j < 1024 \<longrightarrow> e \<noteq> f \<longrightarrow> rd t (ent e j) = rd s (ent e j)"
  shows "vm_ok t ds" "data_frame t ds f" "data_kept ds s t" "\<And>e va. e \<in> ds \<Longrightarrow> walk t e va = walk s e va"
    "\<And>e j. e \<in> ds \<Longrightarrow> unat j < 1024 \<Longrightarrow> present t e j = present s e j \<and> tbl t e j = tbl s e j"
proof -
  have fds: "f \<notin> ds" using f(1) vm_okD(2) [OF ok] by blast
  show same: "present t e j = present s e j \<and> tbl t e j = tbl s e j" if "e \<in> ds" "unat j < 1024" for e j
  proof -
    have "e \<noteq> f" using that(1) fds by blast
    then have "rd t (ent e j) = rd s (ent e j)" using t(3) vm_okD(3) [OF ok that(1)] that(2) by blast
    then show ?thesis by (simp only: present_def tbl_def)
  qed
  have ft: "tbl s e j \<noteq> f" if "e \<in> ds" "unat j < 1024" "present s e j" for e j
    using vm_okD(4) [OF ok that] f(1) by auto
  show "vm_ok t ds"
    using ok f(2,3) same unfolding vm_ok_def t(1) by (auto 0 3)
  have tabs: "is_table t ds x \<longleftrightarrow> is_table s ds x" for x unfolding is_table_def using same by metis
  have nf: "\<not> is_table s ds f" using ft by (auto simp: is_table_def)
  show "data_frame t ds f" using fds f(3) nf by (simp add: data_frame_def t(1) tabs)
  show "data_kept ds s t"
    unfolding data_kept_def
  proof (intro conjI allI impI)
    fix x assume x: "data_frame s ds x"
    then show "data_frame t ds x" using f(3) tabs t(1) by (auto simp: data_frame_def)
    have "x \<noteq> f" using x f(1) by (auto simp: data_frame_def)
    then show "rd t (ent x j) = rd s (ent x j)" if "unat j < 1024" for j using that t(3) data_is_frame [OF x] by blast
  qed (use t f in auto)
  show "walk t e va = walk s e va" if e: "e \<in> ds" for e va
    using same [OF e idx_less(1)] ft [OF e idx_less(1)] t(3) vm_okD(6) [OF ok e idx_less(1)] idx_less
    by (auto simp: walk_def Let_def)
qed

section \<open>The content of a page\<close>

lemma unat_page_offset: "unat (va AND 0xFFF :: u32) = unat va mod 4096"
proof -
  have "(0xFFF :: u32) = mask 12" by (simp add: mask_eq_exp_minus_1)
  then have "va AND 0xFFF = take_bit 12 va" by (simp only: take_bit_eq_mask)
  then have "unat (va AND 0xFFF) = take_bit 12 (unat va)" by (simp only: unsigned_take_bit_eq)
  then show ?thesis by (simp only: take_bit_eq_mod) simp
qed

text \<open>A word of a page, at its physical address.\<close>

lemma page_word_address:
  assumes "is_frame f" "unat va mod 4096 = 4 * i"
  shows "page_base f OR (va AND 0xFFF) = ent f (of_nat i)"
proof -
  obtain n where n: "n < n_frames" "f = frame_addr n" using assms(1) by (auto simp: is_frame_def)
  have b: "page_base f = f" using n by simp
  have "f AND (va AND 0xFFF) = page_base f AND (va AND 0xFFF)" by (simp only: b)
  also have "\<dots> = 0" unfolding page_base_def by (simp only: and.assoc and.left_commute [of "NOT 0xFFF"] bit.conj_cancel_left and_zero_eq)
  finally have "f OR (va AND 0xFFF) = f + (va AND 0xFFF)" by (rule disjunctive_add_eq_or [symmetric])
  moreover have "va AND 0xFFF = 4 * of_nat i"
  proof -
    have "i < 1024" using assms(2) mod_less_divisor [of 4096 "unat va"] by linarith
    then have "unat (4 * of_nat i :: u32) = 4 * i" by (simp add: unat_word_ariths unsigned_of_nat take_bit_nat_eq_self)
    then show ?thesis using assms(2) by (simp add: word_unat_eq_iff unat_page_offset)
  qed
  ultimately show ?thesis by (simp add: b ent_def)
qed

lemma rd32_cong:
  assumes "\<And>t. t < 4 \<Longrightarrow> b ! (k + t) = c ! (l + t)"
  shows "rd32 b k = rd32 c l"
  using assms [of 0] assms [of 1] assms [of 2] assms [of 3] by (simp add: rd32_def)

text \<open>The bytes of a segment in memory: its data in the file, then zeros.\<close>

definition seg_byte :: "bytes \<Rightarrow> u32 \<Rightarrow> u32 \<Rightarrow> nat \<Rightarrow> u8" where
  "seg_byte file offset fsize n = (if n < unat fsize then file ! (unat offset + n) else 0)"

definition seg_word :: "bytes \<Rightarrow> u32 \<Rightarrow> u32 \<Rightarrow> nat \<Rightarrow> u32" where
  "seg_word file offset fsize n = rd32 (map (seg_byte file offset fsize) [n..<n + 4]) 0"

lemma copied_page:
  assumes f: "is_frame f" and len: "length bs \<le> 4096"
  shows "unat j < 1024 \<Longrightarrow> rd (copy_to_frame f bs (clear_frame f s)) (ent f j) =
      rd32 (map (\<lambda>n. if n < length bs then bs ! n else 0) [4 * unat j..<4 * unat j + 4]) 0"
    "is_frame e \<Longrightarrow> unat j < 1024 \<Longrightarrow> e \<noteq> f \<Longrightarrow> rd (copy_to_frame f bs (clear_frame f s)) (ent e j) = rd s (ent e j)"
    "vm_pmm (copy_to_frame f bs (clear_frame f s)) = vm_pmm s"
    "page_directory (copy_to_frame f bs (clear_frame f s)) = page_directory s"
proof -
  have sub: "set [0..<(length bs + 3) div 4] \<subseteq> {..<1024 :: nat}" using len by (auto simp del: upt_rec_numeral)
  note tf = table_fill [OF f sub distinct_upt, of _ _ "\<lambda>i. rd32 (bs @ [0, 0, 0]) (4 * i)" "clear_frame f s", folded copy_to_frame_def]
  show "is_frame e \<Longrightarrow> unat j < 1024 \<Longrightarrow> e \<noteq> f \<Longrightarrow> rd (copy_to_frame f bs (clear_frame f s)) (ent e j) = rd s (ent e j)"
    using tf f by (simp add: clear_frame_rd)
  show "vm_pmm (copy_to_frame f bs (clear_frame f s)) = vm_pmm s"
    "page_directory (copy_to_frame f bs (clear_frame f s)) = page_directory s"
    by (simp_all only: copy_to_frame_def fold_wr_fields clear_frame_fields)
  assume j: "unat j < 1024"
  have v: "rd (copy_to_frame f bs (clear_frame f s)) (ent f j) =
      (if unat j < (length bs + 3) div 4 then rd32 (bs @ [0, 0, 0]) (4 * unat j) else 0)"
    using tf [OF f j] f j by (simp add: clear_frame_rd)
  show "rd (copy_to_frame f bs (clear_frame f s)) (ent f j) =
      rd32 (map (\<lambda>n. if n < length bs then bs ! n else 0) [4 * unat j..<4 * unat j + 4]) 0"
  proof (cases "unat j < (length bs + 3) div 4")
    case True
    then have "4 * unat j + 4 \<le> length bs + 3" by linarith
    then have "(bs @ [0, 0, 0]) ! (4 * unat j + t) = (if 4 * unat j + t < length bs then bs ! (4 * unat j + t) else 0)" if "t < 4" for t
      using that by (auto simp: nth_append nth_Cons' )
    then show ?thesis using True unfolding v by (auto intro!: rd32_cong)
  next
    case False
    then have "length bs \<le> 4 * unat j" by linarith
    then have "map (\<lambda>n. if n < length bs then bs ! n else 0) [4 * unat j..<4 * unat j + 4] = replicate 4 0"
      by (intro nth_equalityI) simp_all
    moreover have "rd32 (replicate 4 0) 0 = 0" by (simp add: rd32_def eval_nat_numeral)
    ultimately show ?thesis using False unfolding v by (simp only: if_False)
  qed
qed

section \<open>One page\<close>

text \<open>The page of \<open>virt\<close> is a data frame with the words \<open>w\<close>.\<close>

definition page_holds :: "vm \<Rightarrow> u32 set \<Rightarrow> u32 \<Rightarrow> u32 \<Rightarrow> (nat \<Rightarrow> u32) \<Rightarrow> bool" where
  "page_holds s ds dir virt w \<longleftrightarrow>
     (\<exists>f. data_frame s ds f \<and> (\<forall>va. drop_bit 12 va = drop_bit 12 virt \<longrightarrow> walk s dir va = Some (page_base f OR (va AND 0xFFF))) \<and>
        (\<forall>j. unat j < 1024 \<longrightarrow> rd s (ent f j) = w (unat j)))"

lemma page_holds_kept:
  assumes "page_holds s ds dir virt w" "data_kept ds s s'"
    "\<And>va. drop_bit 12 va = drop_bit 12 virt \<Longrightarrow> walk s' dir va = walk s dir va"
  shows "page_holds s' ds dir virt w"
  using assms unfolding page_holds_def data_kept_def by metis

abbreviation "user_flags \<equiv> PAGE_PRESENT OR PAGE_USER OR PAGE_WRITE"

lemma user_pde: "page_base (PAGE_PRESENT OR PAGE_WRITE OR (user_flags AND PAGE_USER)) = 0"
  "(PAGE_PRESENT OR PAGE_WRITE OR (user_flags AND PAGE_USER)) AND 1 \<noteq> 0"
  by (simp_all add: page_base_def)

lemma load_page_step:
  assumes ok: "vm_ok s ds" and d: "dir \<in> ds" and free: "2 \<le> unat (pmm_free_frames (vm_pmm s))" and len: "length bs \<le> 4096"
  shows "\<exists>f s0 s2. vm_alloc s = (f, s0) \<and> f \<noteq> 0 \<and> s2 = vmm_map_page_in_dir dir virt f user_flags (copy_to_frame f bs (clear_frame f s0)) \<and>
    vm_ok s2 ds \<and> data_kept ds s s2 \<and> unat (pmm_free_frames (vm_pmm s)) \<le> unat (pmm_free_frames (vm_pmm s2)) + 2 \<and>
    page_holds s2 ds dir virt (\<lambda>i. rd32 (map (\<lambda>n. if n < length bs then bs ! n else 0) [4 * i..<4 * i + 4]) 0) \<and>
    (\<forall>e j. e \<in> ds \<longrightarrow> unat j < 1024 \<longrightarrow> e \<noteq> dir \<longrightarrow> shares s2 e dir j = shares s e dir j) \<and>
    (\<forall>e va. e \<in> ds \<longrightarrow> drop_bit 12 va \<noteq> drop_bit 12 virt \<or> e \<noteq> dir \<and> \<not> shares s e dir (dir_idx virt) \<longrightarrow> walk s2 e va = walk s e va)"
proof (cases rule: vm_alloc_cases [OF vm_okD(1) [OF ok]])
  case 1
  then show ?thesis using free by simp
next
  case (2 f p)
  have fr: "is_frame f" using 2(5) live_is_frame [of f p] by simp
  define s1 where "s1 = copy_to_frame f bs (clear_frame f (s\<lparr>vm_pmm := p\<rparr>))"
  note c = copied_page [OF fr len, where s = "s\<lparr>vm_pmm := p\<rparr>", folded s1_def]
  have s1: "vm_pmm s1 = p" "page_directory s1 = page_directory s"
    "\<forall>e j. is_frame e \<longrightarrow> unat j < 1024 \<longrightarrow> e \<noteq> f \<longrightarrow> rd s1 (ent e j) = rd s (ent e j)"
    using c by simp_all
  note a = alloc_data [OF ok 2(3,4,5) s1]
  define s2 where "s2 = vmm_map_page_in_dir dir virt f user_flags s1"
  have s2: "s2 = map_in dir (PAGE_PRESENT OR PAGE_WRITE OR (user_flags AND PAGE_USER)) virt f user_flags s1"
    by (simp only: s2_def map_in_code)
  have sh: "shares s1 e dir j = shares s e dir j" if "e \<in> ds" "unat j < 1024" for e j
    using a(5) [OF that] a(5) [OF d that(2)] by (simp add: shares_def)
  have "unat (pmm_free_frames (vm_pmm s1)) \<noteq> 0" using 2(6) free s1(1) by simp
  then have m: "vm_ok s2 ds" "\<forall>e va. e \<in> ds \<longrightarrow> walk s2 e va =
          (if drop_bit 12 va = drop_bit 12 virt \<and> (e = dir \<or> shares s1 e dir (dir_idx virt))
           then Some (page_base f OR (va AND 0xFFF)) else walk s1 e va)"
    using map_in_correct [OF a(1) d user_pde, of virt f user_flags, folded s2] by simp_all
  note k = map_in_data [OF a(1) d user_pde, of virt f user_flags, folded s2]
  have "data_kept ds s s2" using k a(3) data_kept_trans by blast
  moreover have "page_holds s2 ds dir virt (\<lambda>i. rd32 (map (\<lambda>n. if n < length bs then bs ! n else 0) [4 * i..<4 * i + 4]) 0)"
    unfolding page_holds_def
  proof (intro exI [of _ f] conjI allI impI)
    show "data_frame s2 ds f" using k a(2) by (auto simp: data_kept_def)
    show "walk s2 dir va = Some (page_base f OR (va AND 0xFFF))" if "drop_bit 12 va = drop_bit 12 virt" for va
      using m(2) d that by simp
    show "rd s2 (ent f j) = rd32 (map (\<lambda>n. if n < length bs then bs ! n else 0) [4 * unat j..<4 * unat j + 4]) 0" if j: "unat j < 1024" for j
      using k a(2) j c(1) [OF j] by (auto simp: data_kept_def)
  qed
  moreover have "\<forall>e j. e \<in> ds \<longrightarrow> unat j < 1024 \<longrightarrow> e \<noteq> dir \<longrightarrow> shares s2 e dir j = shares s e dir j" using k sh by simp
  moreover have "\<forall>e va. e \<in> ds \<longrightarrow> drop_bit 12 va \<noteq> drop_bit 12 virt \<or> e \<noteq> dir \<and> \<not> shares s e dir (dir_idx virt) \<longrightarrow> walk s2 e va = walk s e va"
    using m(2) a(4) sh idx_less(1) by auto
  moreover have "unat (pmm_free_frames (vm_pmm s)) \<le> unat (pmm_free_frames (vm_pmm s2)) + 2" using k 2(6) s1(1) by simp
  ultimately show ?thesis using 2(1,2) m(1) s1_def s2_def by blast
qed

section \<open>The pages of a segment\<close>

lemma page_holds_cong: "(\<And>i. i < 1024 \<Longrightarrow> w i = w' i) \<Longrightarrow> page_holds s ds dir virt w = page_holds s ds dir virt w'"
  by (simp add: page_holds_def)

lemma unat_page_copy_size:
  "unat (page_copy_size fsize j) = (if unat j < unat fsize then min (unat fsize - unat j) 4096 else 0)"
  by (auto simp: page_copy_size_def word_less_nat_alt unat_minus_le word_le_nat_alt)

lemma page_bytes:
  assumes "unat offset + unat fsize \<le> length file" "i < 1024"
    "bs = slice (unat offset + unat j) (unat (page_copy_size fsize j)) file"
  shows "rd32 (map (\<lambda>n. if n < length bs then bs ! n else 0) [4 * i..<4 * i + 4]) 0 = seg_word file offset fsize (unat j + 4 * i)"
  unfolding seg_word_def
proof (rule rd32_cong)
  fix t :: nat assume t: "t < 4"
  have len: "length bs = unat (page_copy_size fsize j)" using assms(1,3) by (auto simp: slice_def unat_page_copy_size)
  have "(if 4 * i + t < length bs then bs ! (4 * i + t) else 0) = seg_byte file offset fsize (unat j + 4 * i + t)"
    using assms t unfolding len by (auto simp: seg_byte_def slice_def unat_page_copy_size ac_simps)
  then show "map (\<lambda>n. if n < length bs then bs ! n else 0) [4 * i..<4 * i + 4] ! (0 + t) =
      map (seg_byte file offset fsize) [unat j + 4 * i..<unat j + 4 * i + 4] ! (0 + t)"
    using t by (auto split: if_splits)
qed

abbreviation page_at :: "u32 \<Rightarrow> nat \<Rightarrow> u32" where
  "page_at virt i \<equiv> virt + of_nat (4096 * i)"

lemma page_number:
  assumes "unat virt + 4096 * i < 2 ^ 32"
  shows "unat (drop_bit 12 (page_at virt i)) = unat virt div 4096 + i"
proof -
  have "unat (of_nat (4096 * i) :: u32) = 4096 * i" using assms by (intro unat_of_nat_small) simp
  then have "unat (page_at virt i) = unat virt + 4096 * i" using assms by (subst unat_plus_small) simp_all
  then show ?thesis by (simp only: unat_drop_bit) simp
qed

text \<open>
  With two free frames for each page, one for its table, the loop enters the pages of the
  segment and nothing else.
\<close>

lemma load_pages_run:
  assumes "vm_ok s ds" "dir \<in> ds" "unat offset + unat fsize \<le> length file"
    "n = (unat msize + 4095) div 4096" "unat virt + 4096 * n \<le> 2 ^ 32" "unat msize \<le> 0xFFFFF000"
    "unat j = 4096 * k" "k \<le> n" "2 * (n - k) \<le> unat (pmm_free_frames (vm_pmm s))"
  shows "\<exists>s'. load_pages dir file virt offset fsize msize j s = Some (True, s') \<and> vm_ok s' ds \<and> data_kept ds s s' \<and>
    unat (pmm_free_frames (vm_pmm s)) \<le> unat (pmm_free_frames (vm_pmm s')) + 2 * (n - k) \<and>
    (\<forall>i. k \<le> i \<and> i < n \<longrightarrow> page_holds s' ds dir (page_at virt i) (\<lambda>w. seg_word file offset fsize (4096 * i + 4 * w))) \<and>
    (\<forall>e j. e \<in> ds \<longrightarrow> unat j < 1024 \<longrightarrow> e \<noteq> dir \<longrightarrow> shares s' e dir j = shares s e dir j) \<and>
    (\<forall>e va. e \<in> ds \<longrightarrow>
       (\<forall>i. k \<le> i \<and> i < n \<longrightarrow> drop_bit 12 va \<noteq> drop_bit 12 (page_at virt i)) \<or> e \<noteq> dir \<and> \<not> shares s e dir (dir_idx va) \<longrightarrow>
       walk s' e va = walk s e va)"
  using assms(1,7-9)
proof (induction "n - k" arbitrary: s j k)
  case 0
  then have "msize \<le> j" using assms(4) by (simp add: word_le_nat_alt)
  then have "load_pages dir file virt offset fsize msize j s = Some (True, s)" by (simp add: load_pages.simps)
  then show ?case using 0 by (intro exI [of _ s]) auto
next
  case (Suc m)
  then have k: "k < n" by simp
  then have jm: "unat j < unat msize" using assms(4) Suc.prems(2) by simp
  then have nj: "\<not> msize \<le> j" by (simp add: word_le_nat_alt)
  define bs where "bs = slice (unat offset + unat j) (unat (page_copy_size fsize j)) file"
  have copy: "unat (page_copy_size fsize j) \<le> 4096" by (simp add: unat_page_copy_size)
  then have len: "length bs \<le> 4096" by (simp add: bs_def slice_def)
  have inside: "\<not> (0 < page_copy_size fsize j \<and> length file < unat offset + unat j + unat (page_copy_size fsize j))"
    using assms(3) by (auto simp: word_less_nat_alt unat_page_copy_size split: if_splits)
  have none: "copy_to_frame f bs t = (if 0 < page_copy_size fsize j then copy_to_frame f bs t else t)" for f t
  proof (cases "0 < page_copy_size fsize j")
    case False
    then have "unat (page_copy_size fsize j) = 0" by (simp add: word_less_nat_alt)
    then have "bs = []" by (simp add: bs_def slice_def)
    then show ?thesis by (simp add: copy_to_frame_def)
  qed simp
  have va: "page_at virt k = virt + j" by (simp only: Suc.prems(2) [symmetric]) simp
  have free: "2 \<le> unat (pmm_free_frames (vm_pmm s))" using Suc.prems(4) k by simp
  obtain f s0 s2 where st: "vm_alloc s = (f, s0)" "f \<noteq> 0" "s2 = vmm_map_page_in_dir dir (virt + j) f user_flags (copy_to_frame f bs (clear_frame f s0))"
    "vm_ok s2 ds" "data_kept ds s s2" "unat (pmm_free_frames (vm_pmm s)) \<le> unat (pmm_free_frames (vm_pmm s2)) + 2"
    "page_holds s2 ds dir (virt + j) (\<lambda>i. rd32 (map (\<lambda>n. if n < length bs then bs ! n else 0) [4 * i..<4 * i + 4]) 0)"
    "\<forall>e j. e \<in> ds \<longrightarrow> unat j < 1024 \<longrightarrow> e \<noteq> dir \<longrightarrow> shares s2 e dir j = shares s e dir j"
    "\<forall>e va. e \<in> ds \<longrightarrow> drop_bit 12 va \<noteq> drop_bit 12 (virt + j) \<or> e \<noteq> dir \<and> \<not> shares s e dir (dir_idx (virt + j)) \<longrightarrow> walk s2 e va = walk s e va"
    using load_page_step [OF Suc.prems(1) assms(2) free len, of "virt + j"] by blast
  have holds: "page_holds s2 ds dir (page_at virt k) (\<lambda>w. seg_word file offset fsize (4096 * k + 4 * w))"
    using st(7) page_holds_cong [OF page_bytes [OF assms(3) _ bs_def]] unfolding va Suc.prems(2) by simp
  have run: "load_pages dir file virt offset fsize msize j s = load_pages dir file virt offset fsize msize (j + 0x1000) s2"
    by (subst load_pages.simps) (simp only: nj st(1,2) inside if_False prod.case Let_def bs_def [symmetric] none [symmetric] st(3))
  have j1: "unat (j + 0x1000) = 4096 * (k + 1)" using jm assms(6) Suc.prems(2) by (subst unat_plus_small) simp_all
  have "m = n - (k + 1)" "k + 1 \<le> n" "2 * (n - (k + 1)) \<le> unat (pmm_free_frames (vm_pmm s2))"
    using Suc.hyps(2) Suc.prems(4) st(6) k by simp_all
  from Suc.hyps(1) [OF this(1) st(4) j1 this(2,3)] obtain s' where s':
    "load_pages dir file virt offset fsize msize (j + 0x1000) s2 = Some (True, s')" "vm_ok s' ds" "data_kept ds s2 s'"
    "unat (pmm_free_frames (vm_pmm s2)) \<le> unat (pmm_free_frames (vm_pmm s')) + 2 * (n - (k + 1))"
    "\<forall>i. k + 1 \<le> i \<and> i < n \<longrightarrow> page_holds s' ds dir (page_at virt i) (\<lambda>w. seg_word file offset fsize (4096 * i + 4 * w))"
    "\<forall>e j. e \<in> ds \<longrightarrow> unat j < 1024 \<longrightarrow> e \<noteq> dir \<longrightarrow> shares s' e dir j = shares s2 e dir j"
    "\<forall>e va. e \<in> ds \<longrightarrow>
       (\<forall>i. k + 1 \<le> i \<and> i < n \<longrightarrow> drop_bit 12 va \<noteq> drop_bit 12 (page_at virt i)) \<or> e \<noteq> dir \<and> \<not> shares s2 e dir (dir_idx va) \<longrightarrow>
       walk s' e va = walk s2 e va" by blast
  have apart: "drop_bit 12 (page_at virt k) \<noteq> drop_bit 12 (page_at virt i)" if "k + 1 \<le> i" "i < n" for i
  proof -
    have "unat virt + 4096 * i < 2 ^ 32" "unat virt + 4096 * k < 2 ^ 32" using assms(5) that by simp_all
    from page_number [OF this(1)] page_number [OF this(2)] that show ?thesis by (metis add_left_cancel not_less_eq_eq order_refl Suc_eq_plus1)
  qed
  have "page_holds s' ds dir (page_at virt k) (\<lambda>w. seg_word file offset fsize (4096 * k + 4 * w))"
    by (rule page_holds_kept [OF holds s'(3)]) (use s'(7) assms(2) apart in simp)
  then have all: "\<forall>i. k \<le> i \<and> i < n \<longrightarrow> page_holds s' ds dir (page_at virt i) (\<lambda>w. seg_word file offset fsize (4096 * i + 4 * w))"
    using s'(5) by (metis Suc_eq_plus1 Suc_leI le_neq_implies_less)
  have other: "walk s' e va = walk s e va" if e: "e \<in> ds"
    "(\<forall>i. k \<le> i \<and> i < n \<longrightarrow> drop_bit 12 va \<noteq> drop_bit 12 (page_at virt i)) \<or> e \<noteq> dir \<and> \<not> shares s e dir (dir_idx va)" for e va
  proof -
    have "walk s' e va = walk s2 e va" using s'(7) e st(8) idx_less(1) by auto
    also have "\<dots> = walk s e va"
    proof (cases "drop_bit 12 va = drop_bit 12 (virt + j)")
      case True
      then have "dir_idx va = dir_idx (virt + j)" by (simp add: same_page)
      moreover have "e \<noteq> dir \<and> \<not> shares s e dir (dir_idx va)" using e(2) True k va by auto
      ultimately show ?thesis using st(9) e(1) by simp
    qed (use st(9) e(1) in blast)
    finally show ?thesis .
  qed
  show ?case
    unfolding run using s'(1,2) data_kept_trans [OF st(5) s'(3)] st(6) s'(4) k all st(8) s'(6) other
    by (intro exI [of _ s'] conjI) auto
qed

section \<open>The segments of a file\<close>

definition seg_page_count :: "elf_program_header \<Rightarrow> nat" where
  "seg_page_count ph = (unat (p_memsz ph) + 4095) div 4096"

text \<open>The page numbers a segment occupies.\<close>

definition seg_pages :: "elf_program_header \<Rightarrow> u32 set" where
  "seg_pages ph = (\<lambda>i. drop_bit 12 (page_at (p_vaddr ph) i)) ` {..<seg_page_count ph}"

definition seg_ok :: "bytes \<Rightarrow> elf_program_header \<Rightarrow> bool" where
  "seg_ok file ph \<longleftrightarrow> unat (p_offset ph) + unat (p_filesz ph) \<le> length file \<and> unat (p_memsz ph) \<le> 0xFFFFF000 \<and>
     unat (p_vaddr ph) + 4096 * seg_page_count ph \<le> 2 ^ 32"

definition seg_loaded :: "bytes \<Rightarrow> vm \<Rightarrow> u32 set \<Rightarrow> u32 \<Rightarrow> elf_program_header \<Rightarrow> bool" where
  "seg_loaded file s ds dir ph \<longleftrightarrow> (\<forall>i < seg_page_count ph.
     page_holds s ds dir (page_at (p_vaddr ph) i) (\<lambda>w. seg_word file (p_offset ph) (p_filesz ph) (4096 * i + 4 * w)))"

lemma seg_loaded_kept:
  assumes "seg_loaded file s ds dir ph" "data_kept ds s s'" "\<And>va. drop_bit 12 va \<in> seg_pages ph \<Longrightarrow> walk s' dir va = walk s dir va"
  shows "seg_loaded file s' ds dir ph"
  unfolding seg_loaded_def
proof (intro allI impI)
  fix i assume i: "i < seg_page_count ph"
  then have h: "page_holds s ds dir (page_at (p_vaddr ph) i) (\<lambda>w. seg_word file (p_offset ph) (p_filesz ph) (4096 * i + 4 * w))"
    using assms(1) by (simp add: seg_loaded_def)
  have "drop_bit 12 (page_at (p_vaddr ph) i) \<in> seg_pages ph" using i unfolding seg_pages_def by blast
  then show "page_holds s' ds dir (page_at (p_vaddr ph) i) (\<lambda>w. seg_word file (p_offset ph) (p_filesz ph) (4096 * i + 4 * w))"
    using assms(3) by (intro page_holds_kept [OF h assms(2)]) simp
qed

text \<open>The program headers of a file, and the ones that are loaded, by index.\<close>

definition phdr :: "bytes \<Rightarrow> elf_header \<Rightarrow> nat \<Rightarrow> elf_program_header" where
  "phdr file eh i = dec_phdr file (unat (e_phoff eh + of_nat i * ucast (e_phentsize eh)))"

definition loadable :: "bytes \<Rightarrow> elf_header \<Rightarrow> nat list \<Rightarrow> nat set" where
  "loadable file eh is = {i \<in> set is. p_type (phdr file eh i) = PT_LOAD}"

text \<open>
  Headers and data lie inside the file, the pages inside the address space, and no page
  belongs to two segments.
\<close>

definition segs_ok :: "bytes \<Rightarrow> elf_header \<Rightarrow> nat list \<Rightarrow> bool" where
  "segs_ok file eh is \<longleftrightarrow> distinct is \<and>
     (\<forall>i \<in> set is. unat (e_phoff eh + of_nat i * ucast (e_phentsize eh)) + sizeof_phdr \<le> length file) \<and>
     (\<forall>i \<in> loadable file eh is. seg_ok file (phdr file eh i)) \<and>
     (\<forall>i \<in> loadable file eh is. \<forall>j \<in> loadable file eh is. i \<noteq> j \<longrightarrow> seg_pages (phdr file eh i) \<inter> seg_pages (phdr file eh j) = {})"

definition segs_pages :: "bytes \<Rightarrow> elf_header \<Rightarrow> nat list \<Rightarrow> nat" where
  "segs_pages file eh is = sum_list (map (\<lambda>i. if p_type (phdr file eh i) = PT_LOAD then seg_page_count (phdr file eh i) else 0) is)"

lemma segs_ok_tl: "segs_ok file eh (i # is) \<Longrightarrow> segs_ok file eh is"
  by (auto simp: segs_ok_def loadable_def)

lemma load_segments_run:
  assumes "vm_ok s ds" "dir \<in> ds" "length file < 2 ^ 32" "segs_ok file eh is"
    "2 * segs_pages file eh is \<le> unat (pmm_free_frames (vm_pmm s))"
  shows "\<exists>s'. load_segments dir file eh is s = Some (0, s') \<and> vm_ok s' ds \<and> data_kept ds s s' \<and>
    unat (pmm_free_frames (vm_pmm s)) \<le> unat (pmm_free_frames (vm_pmm s')) + 2 * segs_pages file eh is \<and>
    (\<forall>i \<in> loadable file eh is. seg_loaded file s' ds dir (phdr file eh i)) \<and>
    (\<forall>e j. e \<in> ds \<longrightarrow> unat j < 1024 \<longrightarrow> e \<noteq> dir \<longrightarrow> shares s' e dir j = shares s e dir j) \<and>
    (\<forall>e va. e \<in> ds \<longrightarrow>
       (\<forall>i \<in> loadable file eh is. drop_bit 12 va \<notin> seg_pages (phdr file eh i)) \<or> e \<noteq> dir \<and> \<not> shares s e dir (dir_idx va) \<longrightarrow>
       walk s' e va = walk s e va)"
  using assms(1,4,5)
proof (induction "is" arbitrary: s)
  case Nil
  then show ?case by (simp add: loadable_def)
next
  case (Cons i ks)
  let ?ph = "phdr file eh i"
  have hdr: "\<not> length file < unat (e_phoff eh + of_nat i * ucast (e_phentsize eh)) + sizeof_phdr"
    using Cons.prems(2) by (simp add: segs_ok_def not_less)
  note dec = phdr_def [of "file" eh i, symmetric]
  have tail: "segs_ok file eh ks" using Cons.prems(2) by (rule segs_ok_tl)
  show ?case
  proof (cases "p_type ?ph = PT_LOAD")
    case False
    then have "load_segments dir file eh (i # ks) s = load_segments dir file eh ks s"
      unfolding load_segments.simps Let_def dec using hdr by (simp only: if_False if_True not_True_eq_False not_False_eq_True)
    moreover have "loadable file eh (i # ks) = loadable file eh ks" "segs_pages file eh (i # ks) = segs_pages file eh ks"
      using False by (auto simp: loadable_def segs_pages_def)
    ultimately show ?thesis using Cons.IH [OF Cons.prems(1) tail] Cons.prems(3) by simp
  next
    case True
    have L: "loadable file eh (i # ks) = insert i (loadable file eh ks)" "segs_pages file eh (i # ks) = seg_page_count ?ph + segs_pages file eh ks"
      using True by (auto simp: loadable_def segs_pages_def)
    have sok: "seg_ok file ?ph" using Cons.prems(2) L(1) by (simp add: segs_ok_def)
    then have inside: "\<not> of_nat (length file) < p_offset ?ph + p_filesz ?ph"
      using assms(3) by (simp add: seg_ok_def word_less_nat_alt unat_of_nat_small unat_plus_small)
    have q: "unat (p_offset ?ph) + unat (p_filesz ?ph) \<le> length file" "unat (p_vaddr ?ph) + 4096 * seg_page_count ?ph \<le> 2 ^ 32"
      "unat (p_memsz ?ph) \<le> 0xFFFFF000" using sok by (simp_all only: seg_ok_def)
    have z: "unat (0 :: u32) = 4096 * 0" "0 \<le> seg_page_count ?ph" "2 * (seg_page_count ?ph - 0) \<le> unat (pmm_free_frames (vm_pmm s))"
      using Cons.prems(3) L(2) by simp_all
    note R = load_pages_run [OF Cons.prems(1) assms(2) q(1) seg_page_count_def q(2,3) z]
    obtain s1 where s1: "load_pages dir file (p_vaddr ?ph) (p_offset ?ph) (p_filesz ?ph) (p_memsz ?ph) 0 s = Some (True, s1)" "vm_ok s1 ds"
      "data_kept ds s s1" "unat (pmm_free_frames (vm_pmm s)) \<le> unat (pmm_free_frames (vm_pmm s1)) + 2 * seg_page_count ?ph"
      "seg_loaded file s1 ds dir ?ph"
      "\<forall>e j. e \<in> ds \<longrightarrow> unat j < 1024 \<longrightarrow> e \<noteq> dir \<longrightarrow> shares s1 e dir j = shares s e dir j"
      "\<forall>e va. e \<in> ds \<longrightarrow> drop_bit 12 va \<notin> seg_pages ?ph \<or> e \<noteq> dir \<and> \<not> shares s e dir (dir_idx va) \<longrightarrow> walk s1 e va = walk s e va"
    proof -
      have pages: "(\<forall>i. 0 \<le> i \<and> i < seg_page_count ?ph \<longrightarrow> drop_bit 12 va \<noteq> drop_bit 12 (page_at (p_vaddr ?ph) i)) \<longleftrightarrow> drop_bit 12 va \<notin> seg_pages ?ph" for va
        by (auto simp: seg_pages_def)
      show ?thesis using that R unfolding pages by (auto simp: seg_loaded_def)
    qed
    have "2 * segs_pages file eh ks \<le> unat (pmm_free_frames (vm_pmm s1))" using Cons.prems(3) L(2) s1(4) by simp
    from Cons.IH [OF s1(2) tail this] obtain s' where s': "load_segments dir file eh ks s1 = Some (0, s')" "vm_ok s' ds" "data_kept ds s1 s'"
      "unat (pmm_free_frames (vm_pmm s1)) \<le> unat (pmm_free_frames (vm_pmm s')) + 2 * segs_pages file eh ks"
      "\<forall>i \<in> loadable file eh ks. seg_loaded file s' ds dir (phdr file eh i)"
      "\<forall>e j. e \<in> ds \<longrightarrow> unat j < 1024 \<longrightarrow> e \<noteq> dir \<longrightarrow> shares s' e dir j = shares s1 e dir j"
      "\<forall>e va. e \<in> ds \<longrightarrow>
       (\<forall>i \<in> loadable file eh ks. drop_bit 12 va \<notin> seg_pages (phdr file eh i)) \<or> e \<noteq> dir \<and> \<not> shares s1 e dir (dir_idx va) \<longrightarrow>
       walk s' e va = walk s1 e va" by blast
    have run: "load_segments dir file eh (i # ks) s = Some (0, s')"
      unfolding load_segments.simps Let_def dec using hdr True inside s1(1) s'(1) by simp
    have apart: "seg_pages ?ph \<inter> seg_pages (phdr file eh j) = {}" if "j \<in> loadable file eh ks" for j
    proof -
      have "j \<in> loadable file eh (i # ks)" "i \<in> loadable file eh (i # ks)" using that L(1) by simp_all
      moreover have "i \<noteq> j" using that Cons.prems(2) by (auto simp: segs_ok_def loadable_def)
      ultimately show ?thesis using Cons.prems(2) unfolding segs_ok_def by blast
    qed
    have "seg_loaded file s' ds dir ?ph"
      by (rule seg_loaded_kept [OF s1(5) s'(3)]) (use s'(7) assms(2) apart in blast)
    moreover have "walk s' e va = walk s e va" if "e \<in> ds"
      "(\<forall>i \<in> loadable file eh (i # ks). drop_bit 12 va \<notin> seg_pages (phdr file eh i)) \<or> e \<noteq> dir \<and> \<not> shares s e dir (dir_idx va)" for e va
      using that s1(6,7) s'(7) idx_less(1) [of va] L(1) by (metis insertCI)
    ultimately show ?thesis
      using run s'(2) data_kept_trans [OF s1(3) s'(3)] s1(4) s'(4) L s'(5) s1(6) s'(6)
      by (intro exI [of _ s'] conjI) auto
  qed
qed

section \<open>The whole image\<close>

text \<open>A new address space writes its directory and nothing else.\<close>

lemma create_space_data:
  assumes ok: "vm_ok s ds" and pd: "page_directory s \<in> ds" and run: "vmm_create_address_space s = (nd, s')" "nd \<noteq> 0"
  shows "data_frame s ds x \<Longrightarrow> data_frame s' (insert nd ds) x \<and> (\<forall>j. unat j < 1024 \<longrightarrow> rd s' (ent x j) = rd s (ent x j))"
    "page_directory s' = page_directory s"
proof -
  let ?k = "page_directory s"
  obtain f p where f: "vm_alloc s = (f, s\<lparr>vm_pmm := p\<rparr>)" "f \<noteq> 0" "f \<notin> frames_live (vm_pmm s)" "pmm_inv p"
      "frames_live p = insert f (frames_live (vm_pmm s))"
    using run by (cases rule: vm_alloc_cases [OF vm_okD(1) [OF ok]]) (auto simp: vmm_create_address_space_def)
  define t where "t = clear_frame f (s\<lparr>vm_pmm := p\<rparr>)"
  have s': "nd = f" "s' = vmm_copy_kernel_space f t"
    using run f(1,2) by (auto simp: vmm_create_address_space_def t_def)
  have fr: "is_frame f" using f(5) live_is_frame [of f p] by simp
  have fds: "f \<notin> ds" "f \<noteq> ?k" using f(3) vm_okD(2) [OF ok] pd by blast+
  have k: "is_frame ?k" using vm_okD(3) [OF ok pd] .
  have t: "page_directory t = ?k" "vm_pmm t = p" by (simp_all add: t_def)
  have ents: "rd s' (ent e j) = (if e = f then rd s (ent ?k j) else rd s (ent e j))" if "is_frame e" "unat j < 1024" for e j
    using that copy_kernel_rd [of f t e j] fr fds(2) k t clear_frame_rd [OF fr, of _ _ "s\<lparr>vm_pmm := p\<rparr>", folded t_def]
    unfolding s' by auto
  have pm: "vm_pmm s' = p" and "page_directory s' = ?k"
    using copy_kernel_fields [of f t] fr fds k t unfolding s' by simp_all
  then show "page_directory s' = ?k" by simp
  have tables: "is_table s ds x" if "is_table s' (insert f ds) x" for x
  proof -
    obtain e j where e: "e \<in> insert f ds" "unat j < 1024" "present s' e j" "tbl s' e j = x" using \<open>is_table s' (insert f ds) x\<close> by (auto simp: is_table_def)
    let ?e = "if e = f then ?k else e"
    have "is_frame e" using e(1) fr vm_okD(3) [OF ok] by auto
    then have "rd s' (ent e j) = rd s (ent ?e j)" using ents e(2) by simp
    then have "present s ?e j" "tbl s ?e j = x" using e(3,4) by (simp_all only: present_def tbl_def not_False_eq_True)
    moreover have "?e \<in> ds" using e(1) pd by auto
    ultimately show ?thesis using e(2) unfolding is_table_def by blast
  qed
  show "data_frame s' (insert nd ds) x \<and> (\<forall>j. unat j < 1024 \<longrightarrow> rd s' (ent x j) = rd s (ent x j))" if x: "data_frame s ds x"
  proof -
    have "x \<noteq> f" using x f(3) by (auto simp: data_frame_def)
    then show ?thesis using x tables ents data_is_frame [OF x] f(5) pm s'(1) by (auto simp: data_frame_def)
  qed
qed

abbreviation "stack_page \<equiv> USER_STACK_BASE - USER_STACK_SIZE"

text \<open>
  The state after the image of \<open>file\<close> is built in \<open>dir\<close>: the segments and the empty stack are
  there, every other address translates as in the kernel's directory, the other spaces
  translate as before and the data in them is unchanged.
\<close>

definition image_loaded :: "bytes \<Rightarrow> elf_header \<Rightarrow> u32 set \<Rightarrow> u32 \<Rightarrow> vm \<Rightarrow> vm \<Rightarrow> bool" where
  "image_loaded file eh ds dir s s' \<longleftrightarrow> dir \<notin> ds \<and> vm_ok s' (insert dir ds) \<and> page_directory s' = page_directory s \<and>
     (\<forall>i \<in> loadable file eh [0..<unat (e_phnum eh)]. seg_loaded file s' (insert dir ds) dir (phdr file eh i)) \<and>
     page_holds s' (insert dir ds) dir stack_page (\<lambda>_. 0) \<and>
     (\<forall>va. (\<forall>i \<in> loadable file eh [0..<unat (e_phnum eh)]. drop_bit 12 va \<notin> seg_pages (phdr file eh i)) \<longrightarrow>
        drop_bit 12 va \<noteq> drop_bit 12 stack_page \<longrightarrow> walk s' dir va = walk s (page_directory s) va) \<and>
     (\<forall>e \<in> ds. \<forall>va. walk s' e va = walk s e va) \<and>
     (\<forall>x. data_frame s ds x \<longrightarrow> (\<forall>j. unat j < 1024 \<longrightarrow> rd s' (ent x j) = rd s (ent x j)))"

text \<open>A program that can be loaded: its pages are apart, outside the kernel's tables and not the stack page.\<close>

definition image_ok :: "bytes \<Rightarrow> elf_header \<Rightarrow> vm \<Rightarrow> bool" where
  "image_ok file eh s \<longleftrightarrow> length file < 2 ^ 32 \<and> segs_ok file eh [0..<unat (e_phnum eh)] \<and>
     (\<forall>i \<in> loadable file eh [0..<unat (e_phnum eh)]. drop_bit 12 stack_page \<notin> seg_pages (phdr file eh i) \<and>
        (\<forall>va. drop_bit 12 va \<in> seg_pages (phdr file eh i) \<longrightarrow> \<not> present s (page_directory s) (dir_idx va))) \<and>
     \<not> present s (page_directory s) (dir_idx stack_page) \<and>
     2 * segs_pages file eh [0..<unat (e_phnum eh)] + 3 \<le> unat (pmm_free_frames (vm_pmm s))"

lemma load_image_run:
  assumes ok: "vm_ok s ds" and pd: "page_directory s \<in> ds" and im: "image_ok file eh s"
  shows "\<exists>dir s'. load_image file eh s = Some (Inr dir, s') \<and> dir \<noteq> 0 \<and> image_loaded file eh ds dir s s'"
proof -
  let ?is = "[0..<unat (e_phnum eh)]"
  have len: "length file < 2 ^ 32" and segs: "segs_ok file eh ?is" and fr: "2 * segs_pages file eh ?is + 3 \<le> unat (pmm_free_frames (vm_pmm s))"
    using im by (simp_all add: image_ok_def del: upt_rec_numeral)
  obtain nd s1 where c: "vmm_create_address_space s = (nd, s1)" by force
  note C = create_space_correct [OF ok pd c]
  then have nd: "nd \<noteq> 0" using fr by auto
  let ?D = "insert nd ds"
  have s1: "nd \<notin> ds" "vm_ok s1 ?D" "\<forall>va. walk s1 nd va = walk s (page_directory s) va" "\<forall>e va. e \<in> ds \<longrightarrow> walk s1 e va = walk s e va"
    "unat (pmm_free_frames (vm_pmm s)) = Suc (unat (pmm_free_frames (vm_pmm s1)))"
    and pr: "\<And>e j. e \<in> ?D \<Longrightarrow> unat j < 1024 \<Longrightarrow> present s1 e j \<longleftrightarrow> present s (if e = nd then page_directory s else e) j"
    using C nd by auto
  note D1 = create_space_data [OF ok pd c nd]
  have lone: "\<not> shares s1 e nd (dir_idx va)" if "\<not> present s (page_directory s) (dir_idx va)" for e va
    using pr [OF insertI1 idx_less(1)] that by (simp add: shares_def)
  have "2 * segs_pages file eh ?is \<le> unat (pmm_free_frames (vm_pmm s1))" using fr s1(5) by simp
  from load_segments_run [OF s1(2) insertI1 len segs this] obtain s2 where
    s2: "load_segments nd file eh ?is s1 = Some (0, s2)" "vm_ok s2 ?D" "data_kept ?D s1 s2"
    "unat (pmm_free_frames (vm_pmm s1)) \<le> unat (pmm_free_frames (vm_pmm s2)) + 2 * segs_pages file eh ?is"
    "\<forall>i \<in> loadable file eh ?is. seg_loaded file s2 ?D nd (phdr file eh i)"
    "\<forall>e j. e \<in> ?D \<longrightarrow> unat j < 1024 \<longrightarrow> e \<noteq> nd \<longrightarrow> shares s2 e nd j = shares s1 e nd j"
    "\<forall>e va. e \<in> ?D \<longrightarrow>
       (\<forall>i \<in> loadable file eh ?is. drop_bit 12 va \<notin> seg_pages (phdr file eh i)) \<or> e \<noteq> nd \<and> \<not> shares s1 e nd (dir_idx va) \<longrightarrow>
       walk s2 e va = walk s1 e va" by blast
  have "2 \<le> unat (pmm_free_frames (vm_pmm s2))" using fr s1(5) s2(4) by simp
  from load_page_step [OF s2(2) insertI1 this, of "[]" stack_page] obtain f s0 s' where
    st: "vm_alloc s2 = (f, s0)" "f \<noteq> 0" "s' = vmm_map_page_in_dir nd stack_page f user_flags (copy_to_frame f [] (clear_frame f s0))"
    "vm_ok s' ?D" "data_kept ?D s2 s'"
    "page_holds s' ?D nd stack_page (\<lambda>i. rd32 (map (\<lambda>n. if n < length ([] :: bytes) then [] ! n else 0) [4 * i..<4 * i + 4]) 0)"
    "\<forall>e va. e \<in> ?D \<longrightarrow> drop_bit 12 va \<noteq> drop_bit 12 stack_page \<or> e \<noteq> nd \<and> \<not> shares s2 e nd (dir_idx stack_page) \<longrightarrow> walk s' e va = walk s2 e va"
    by auto
  have "load_stack nd s2 = (True, s')"
    using st(1-3) by (simp add: load_stack_def copy_to_frame_def)
  then have run: "load_image file eh s = Some (Inr nd, s')"
    unfolding load_image_def using c nd s2(1) by simp
  have zero: "page_holds s' ?D nd stack_page (\<lambda>_. 0)"
    using st(6) by (simp add: rd32_def page_holds_def)
  have kept: "data_kept ?D s1 s'" using s2(3) st(5) by (rule data_kept_trans)
  have seg: "seg_loaded file s' ?D nd (phdr file eh i)" if i: "i \<in> loadable file eh ?is" for i
  proof (rule seg_loaded_kept [OF _ st(5)])
    show "seg_loaded file s2 ?D nd (phdr file eh i)" using s2(5) i by blast
    have "drop_bit 12 stack_page \<notin> seg_pages (phdr file eh i)" using im i unfolding image_ok_def by blast
    then show "walk s' nd va = walk s2 nd va" if "drop_bit 12 va \<in> seg_pages (phdr file eh i)" for va
      using st(7) that by (metis insertI1)
  qed
  have own: "walk s' nd va = walk s (page_directory s) va"
    if "\<forall>i \<in> loadable file eh ?is. drop_bit 12 va \<notin> seg_pages (phdr file eh i)" "drop_bit 12 va \<noteq> drop_bit 12 stack_page" for va
    using that st(7) s2(7) s1(3) by simp
  have others: "walk s' e va = walk s e va" if e: "e \<in> ds" for e va
  proof -
    have en: "e \<noteq> nd" "e \<in> ?D" using e s1(1) by auto
    have "\<not> shares s2 e nd (dir_idx stack_page)"
      using s2(6) en idx_less(1) lone im unfolding image_ok_def by blast
    then have "walk s' e va = walk s2 e va" using st(7) en by blast
    also have "\<dots> = walk s1 e va"
    proof (cases "\<forall>i \<in> loadable file eh ?is. drop_bit 12 va \<notin> seg_pages (phdr file eh i)")
      case False
      then have "\<not> shares s1 e nd (dir_idx va)" using lone im unfolding image_ok_def by blast
      then show ?thesis using s2(7) en by blast
    qed (use s2(7) en in blast)
    also have "\<dots> = walk s e va" using s1(4) e by blast
    finally show ?thesis .
  qed
  have "rd s' (ent x j) = rd s (ent x j)" if "data_frame s ds x" "unat j < 1024" for x j
    using D1(1) [OF that(1)] kept that(2) by (simp add: data_kept_def)
  moreover have "page_directory s' = page_directory s" using D1(2) kept by (simp add: data_kept_def)
  ultimately show ?thesis
    using run nd s1(1) st(4) seg zero own others unfolding image_loaded_def
    by (intro exI [of _ nd] exI [of _ s']) blast
qed

section \<open>The process of a program\<close>

text \<open>The invariant of the processes needs of the heap that the stacks stay allocated.\<close>

lemma sched_ok_heap:
  assumes "sched_ok s c xs" "heap_inv h" "heap_live (kheap s) \<inter> stacks \<subseteq> heap_live h"
    "\<And>i. i \<in> set (c # xs) \<Longrightarrow> p_stack (process_table s ! i) \<noteq> 0 \<Longrightarrow> p_stack (process_table s ! i) \<in> stacks"
  shows "sched_ok (s\<lparr>kheap := h\<rparr>) c xs"
  using assms stacks_okD(2) [OF sched_okD(12) [OF assms(1)]]
  by (auto simp: sched_ok_def pids_ok_def stacks_ok_def)

lemma sched_ok_page_dir:
  assumes "sched_ok s c xs" "p < length (process_table s)"
  shows "sched_ok (s\<lparr>process_table := upd p (\<lambda>q. q\<lparr>p_user_page_dir := d\<rparr>) (process_table s)\<rparr>) c xs"
  using assms sched_okD(1,2,9,10) [OF assms(1)]
  by (intro sched_ok_change [OF assms(1)]) (auto simp: upd_nth)

lemma create_with_stack:
  assumes "create_with frame clear name s = Some (Some i, s')" "sched_ok s c xs"
    "\<And>p. p_stack (clear p) = p_stack p"
  shows "heap_alloc PROC_STACK (kheap s) = Some (p_stack (process_table s' ! i), kheap s')"
    "process_table s' ! c = (process_table s ! c)\<lparr>p_next := Some i\<rparr>" "i < length (process_table s')"
proof -
  have "heap_alloc PROC_STACK (kheap s) = Some (p_stack (process_table s' ! i), kheap s') \<and>
    process_table s' ! c = (process_table s ! c)\<lparr>p_next := Some i\<rparr> \<and> i < length (process_table s')"
    using assms(2)
  proof (cases rule: find_unused_cases)
    case 1
    then show ?thesis using assms(1) by (simp add: create_with_def)
  next
    case (2 j)
    have c: "j < length (process_table s)" "j \<noteq> c" "c < length (process_table s)" using 2 sched_okD(3,6) [OF assms(2)] by auto
    obtain stack h where km: "kmalloc PROC_STACK (kheap s) = Some (stack, h)" "stack \<noteq> 0" and
      r: "i = j" "p_stack (process_table s' ! i) = stack" "kheap s' = h"
        "process_table s' ! c = (process_table s ! c)\<lparr>p_next := Some j\<rparr>" "length (process_table s') = length (process_table s)"
      using assms(1) 2(1) c sched_okD(1) [OF assms(2)]
      by (auto simp: create_with_def Let_def upd_nth assms(3) copy_pname_def split: option.splits prod.splits if_splits)
    then show ?thesis using c by (simp add: heap_alloc_def)
  qed
  then show "heap_alloc PROC_STACK (kheap s) = Some (p_stack (process_table s' ! i), kheap s')"
    "process_table s' ! c = (process_table s ! c)\<lparr>p_next := Some i\<rparr>" "i < length (process_table s')" by simp_all
qed

text \<open>
  A process entered for a program: it stands first in the ring behind the current one, ready to
  enter ring 3 at \<open>entry\<close> on the stack below \<open>USER_STACK_BASE\<close> in the address space \<open>dir\<close>; its kernel
  stack is the one new allocation of the heap.
\<close>

definition program_started :: "sched \<Rightarrow> nat \<Rightarrow> nat list \<Rightarrow> u32 \<Rightarrow> u32 \<Rightarrow> nat \<Rightarrow> sched \<Rightarrow> bool" where
  "program_started s c xs entry dir p s' \<longleftrightarrow> p \<notin> set (c # xs) \<and> sched_ok s' c (p # xs) \<and>
     p_pid (process_table s' ! p) = next_pid s \<and> p_state (process_table s' ! p) = PROC_READY \<and>
     p_user_page_dir (process_table s' ! p) = dir \<and>
     frame_at (words s') (p_esp (process_table s' ! p)) 16
       = [0x23, 0, 0, 0, 0, 0, 0, 0, 0, 32, 0, entry, 0x1B, 0x202, USER_STACK_BASE, 0x23] \<and>
     (\<forall>j. j \<noteq> p \<longrightarrow> j \<noteq> c \<longrightarrow> process_table s' ! j = process_table s ! j) \<and>
     p_stack (process_table s' ! p) \<notin> heap_live (kheap s) \<and>
     heap_live (kheap s') = insert (p_stack (process_table s' ! p)) (heap_live (kheap s))"

text \<open>The end of \<open>exec_elf_from_disk\<close>: the process, and the heap without the buffer.\<close>

lemma start_process:
  assumes s: "sched_ok s c xs" "next_pid s + 1 \<noteq> 0" and buf: "heap_alloc sz (kheap s) = Some (buf, h)"
  obtains (none) "process_create_user entry USER_STACK_BASE name (s\<lparr>kheap := h\<rparr>) = Some (None, s\<lparr>kheap := h\<rparr>)"
      "(\<forall>i. 1 \<le> i \<and> i < MAX_PROCS \<longrightarrow> i \<in> set (c # xs)) \<or> heap_alloc PROC_STACK h = None"
      "sched_ok (s\<lparr>kheap := kfree buf h\<rparr>) c xs" "heap_live (kfree buf h) = heap_live (kheap s)"
    | (some) p s' where "process_create_user entry USER_STACK_BASE name (s\<lparr>kheap := h\<rparr>) = Some (Some p, s')"
      "p_pid (process_table s' ! p) = next_pid s"
      "program_started s c xs entry dir p
         (s'\<lparr>process_table := upd p (\<lambda>q. q\<lparr>p_user_page_dir := dir\<rparr>) (process_table s'), kheap := kfree buf (kheap s')\<rparr>)"
proof -
  have inv: "heap_inv (kheap s)" using stacks_okD(1) sched_okD(12) [OF s(1)] by blast
  note B = heap_alloc_live [OF inv buf]
  define s1 where "s1 = s\<lparr>kheap := h\<rparr>"
  have old: "p_stack (process_table s ! i) \<in> heap_live (kheap s)" if "i \<in> set (c # xs)" "p_stack (process_table s ! i) \<noteq> 0" for i
    using that stacks_okD(2) [OF sched_okD(12) [OF s(1)]] by blast
  have s1: "sched_ok s1 c xs" unfolding s1_def
    by (rule sched_ok_heap [OF s(1) B(1), of "heap_live (kheap s)"]) (use B(3) old in auto)
  have np: "next_pid s1 + 1 \<noteq> 0" using s(2) by (simp add: s1_def)
  obtain r s' where r: "process_create_user entry USER_STACK_BASE name s1 = Some (r, s')" and
    cr: "created s1 c xs [0x23, 0, 0, 0, 0, 0, 0, 0, 0, 32, 0, entry, 0x1B, 0x202, USER_STACK_BASE, 0x23] r s'"
    using create_user_created [OF s1 np] by blast
  show thesis
  proof (cases r)
    case None
    have F: "heap_inv (kfree buf h)" "heap_live (kfree buf h) = heap_live (kheap s)"
      using kfree_live [OF B(1), of buf] B(2,3) by auto
    have "sched_ok (s\<lparr>kheap := kfree buf h\<rparr>) c xs"
      by (rule sched_ok_heap [OF s(1) F(1), of "heap_live (kheap s)"]) (use F(2) old in auto)
    then show thesis using r cr None F(2) by (intro none) (auto simp: created_def s1_def)
  next
    case (Some p)
    have len: "length [0x23, 0, 0, 0, 0, 0, 0, 0, 0, 32, 0, entry, 0x1B, 0x202, USER_STACK_BASE, 0x23] = 16" by simp
    have C: "p \<notin> set (c # xs)" "sched_ok s' c (p # xs)" "p_pid (process_table s' ! p) = next_pid s1" "p_state (process_table s' ! p) = PROC_READY"
      "frame_at (words s') (p_esp (process_table s' ! p)) 16 = [0x23, 0, 0, 0, 0, 0, 0, 0, 0, 32, 0, entry, 0x1B, 0x202, USER_STACK_BASE, 0x23]"
      "\<And>j. j \<noteq> p \<Longrightarrow> j \<noteq> c \<Longrightarrow> process_table s' ! j = process_table s1 ! j"
      using cr [unfolded created_def Some option.case len] by blast+
    have "p_stack (clear_fds (q\<lparr>p_user_page_dir := 0\<rparr>)) = p_stack q" for q by (simp add: clear_fds_def)
    note S = create_with_stack [OF r [unfolded process_create_user_def Some] s1 this]
    note L = heap_alloc_live [OF _ S(1)]
    have h: "kheap s1 = h" by (simp add: s1_def)
    let ?st = "p_stack (process_table s' ! p)"
    have F: "heap_inv (kfree buf (kheap s'))" "heap_live (kfree buf (kheap s')) = insert ?st (heap_live (kheap s))" "?st \<noteq> buf" "?st \<notin> heap_live (kheap s)"
      using kfree_live [of "kheap s'" buf] L(1-3) B(1-3) unfolding h by auto
    have stacks: "p_stack (process_table s' ! i) \<in> insert ?st (heap_live (kheap s))"
      if "i \<in> set (c # p # xs)" "p_stack (process_table s' ! i) \<noteq> 0" for i
    proof (cases "i = p")
      case False
      then have "p_stack (process_table s' ! i) = p_stack (process_table s ! i)"
        using C(6) [of i] S(2) by (cases "i = c") (simp_all add: s1_def)
      then show ?thesis using that False old by auto
    qed simp
    let ?s = "s'\<lparr>kheap := kfree buf (kheap s')\<rparr>"
    have "sched_ok ?s c (p # xs)"
      by (rule sched_ok_heap [OF C(2) F(1), of "insert ?st (heap_live (kheap s))"]) (use F(2) stacks in auto)
    from sched_ok_page_dir [OF this, of p dir] S(3)
    moreover have "?s\<lparr>process_table := t\<rparr> = s'\<lparr>process_table := t, kheap := kfree buf (kheap s')\<rparr>" for t by (cases s') simp
    ultimately have "sched_ok (s'\<lparr>process_table := upd p (\<lambda>q. q\<lparr>p_user_page_dir := dir\<rparr>) (process_table s'), kheap := kfree buf (kheap s')\<rparr>) c (p # xs)" by simp
    then have "program_started s c xs entry dir p
        (s'\<lparr>process_table := upd p (\<lambda>q. q\<lparr>p_user_page_dir := dir\<rparr>) (process_table s'), kheap := kfree buf (kheap s')\<rparr>)"
      using C F(2,4) S(3) by (auto simp: program_started_def upd_nth s1_def)
    then show thesis using r C(3) Some by (intro some) (simp_all add: s1_def)
  qed
qed
section \<open>From the disk to a process\<close>

text \<open>A file the loader accepts: a header, the magic number, program headers inside it and an image that fits.\<close>

definition elf_ok :: "bytes \<Rightarrow> vm \<Rightarrow> bool" where
  "elf_ok file v \<longleftrightarrow> sizeof_ehdr \<le> length file \<and> rd32 (e_ident (dec_ehdr file)) 0 = ELF_MAGIC \<and>
     e_phoff (dec_ehdr file) + ucast (e_phnum (dec_ehdr file)) * ucast (e_phentsize (dec_ehdr file)) \<le> of_nat (length file) \<and>
     image_ok file (dec_ehdr file) v"

lemma file_size_small:
  assumes "fs_wf s" "i < TETFS_MAX_INODES" "in_use s i"
  shows "unat (i_size (inode_at s i)) \<le> 524288"
  using fs_wfD(3,5) [OF assms] by simp

text \<open>
  What becomes of the processes: the program is entered under the next pid, or there was no
  slot or no stack (\<open>h\<close> is the heap that holds the file too) and only the error is left.
\<close>

definition exec_result :: "sched \<Rightarrow> nat \<Rightarrow> nat list \<Rightarrow> heap \<Rightarrow> u32 \<Rightarrow> u32 \<Rightarrow> int \<Rightarrow> sched \<Rightarrow> bool" where
  "exec_result s c xs h entry dir r s' \<longleftrightarrow>
     (\<exists>p. r = sint (next_pid s) \<and> program_started s c xs entry dir p s') \<or>
     (r = -10 \<and> ((\<forall>i. 1 \<le> i \<and> i < MAX_PROCS \<longrightarrow> i \<in> set (c # xs)) \<or> heap_alloc PROC_STACK h = None) \<and>
      process_table s' = process_table s \<and> sched_ok s' c xs \<and> heap_live (kheap s') = heap_live (kheap s))"

lemma exec_file_run:
  assumes v: "vm_ok (ex_vm st) ds" "page_directory (ex_vm st) \<in> ds" "elf_ok file (ex_vm st)"
    and s: "sched_ok s c xs" "next_pid s + 1 \<noteq> 0" "heap_alloc sz (kheap s) = Some (buf, h)" "ex_sched st = s\<lparr>kheap := h\<rparr>"
  shows "\<exists>r st' dir. map_option (\<lambda>(r, st). (r, free_buffer buf st)) (exec_file name file st) = Some (r, st') \<and> ex_disk st' = ex_disk st \<and>
    image_loaded file (dec_ehdr file) ds dir (ex_vm st) (ex_vm st') \<and>
    exec_result s c xs h (e_entry (dec_ehdr file)) dir r (ex_sched st')"
proof -
  let ?eh = "dec_ehdr file"
  have ok: "rd32 (e_ident ?eh) 0 = ELF_MAGIC" "\<not> of_nat (length file) < e_phoff ?eh + ucast (e_phnum ?eh) * ucast (e_phentsize ?eh)" "image_ok file ?eh (ex_vm st)"
    using v(3) by (simp_all add: elf_ok_def not_less)
  obtain dir v' where im: "load_image file ?eh (ex_vm st) = Some (Inr dir, v')" "image_loaded file ?eh ds dir (ex_vm st) v'"
    using load_image_run [OF v(1,2) ok(3)] by blast
  have run: "exec_file name file st = (case process_create_user (e_entry ?eh) USER_STACK_BASE name (s\<lparr>kheap := h\<rparr>) of
      None \<Rightarrow> None
    | Some (None, sc) \<Rightarrow> Some (-10, st\<lparr>ex_vm := v', ex_sched := sc\<rparr>)
    | Some (Some p, sc) \<Rightarrow> Some (sint (p_pid (process_table sc ! p)), st\<lparr>ex_vm := v', ex_sched :=
        sc\<lparr>process_table := upd p (\<lambda>q. q\<lparr>p_user_page_dir := dir\<rparr>) (process_table sc)\<rparr>\<rparr>))"
    unfolding exec_file_def Let_def using ok(1,2) im(1) s(4) by (simp split: option.split prod.split)
  show ?thesis
  proof (cases rule: start_process [OF s(1-3), where entry = "e_entry ?eh" and name = name and dir = dir])
    case 1
    then show ?thesis unfolding run exec_result_def using im(2)
      by (intro exI [of _ "-10"] exI [of _ "free_buffer buf (st\<lparr>ex_vm := v', ex_sched := s\<lparr>kheap := h\<rparr>\<rparr>)"] exI [of _ dir])
        (simp add: free_buffer_def)
  next
    case (2 p s')
    then show ?thesis unfolding run exec_result_def using im(2)
      by (intro exI [of _ "sint (next_pid s)"] exI [of _ dir] exI [of _ "free_buffer buf (st\<lparr>ex_vm := v', ex_sched :=
          s'\<lparr>process_table := upd p (\<lambda>q. q\<lparr>p_user_page_dir := dir\<rparr>) (process_table s')\<rparr>\<rparr>)"])
        (simp add: free_buffer_def, blast)
  qed
qed

text \<open>The smallest program: one page at 64 MB whose code is a jump to itself.\<close>

definition elf_min :: bytes where
  "elf_min = [0x7F, 0x45, 0x4C, 0x46, 0, 0, 0, 0, 0, 0, 0, 0, 0, 0, 0, 0, 2, 0, 3, 0, 1, 0, 0, 0, 0, 0, 0, 4, 52, 0, 0, 0,
     0, 0, 0, 0, 0, 0, 0, 0, 52, 0, 32, 0, 1, 0, 0, 0, 0, 0, 0, 0,
     1, 0, 0, 0, 84, 0, 0, 0, 0, 0, 0, 4, 0, 0, 0, 0, 4, 0, 0, 0, 0, 16, 0, 0, 5, 0, 0, 0, 0, 16, 0, 0,
     0xEB, 0xFE, 0x90, 0x90]"

lemma elf_min_headers:
  "dec_ehdr elf_min = \<lparr>e_ident = [0x7F, 0x45, 0x4C, 0x46, 0, 0, 0, 0, 0, 0, 0, 0, 0, 0, 0, 0], e_type = 2, e_machine = 3, e_version = 1,
     e_entry = 0x04000000, e_phoff = 52, e_shoff = 0, e_flags = 0, e_ehsize = 52, e_phentsize = 32, e_phnum = 1,
     e_shentsize = 0, e_shnum = 0, e_shstrndx = 0\<rparr>"
  "dec_phdr elf_min 52 = \<lparr>p_type = 1, p_offset = 84, p_vaddr = 0x04000000, p_paddr = 0, p_filesz = 4, p_memsz = 0x1000, p_flags = 5, p_align = 0x1000\<rparr>"
  by (simp_all add: dec_ehdr_def dec_phdr_def elf_min_def rd16_def rd32_def slice_def)

lemma elf_min_ok: "elf_ok elf_min vm_boot"
  "loadable elf_min (dec_ehdr elf_min) [0..<unat (e_phnum (dec_ehdr elf_min))] = {0}"
  "phdr elf_min (dec_ehdr elf_min) 0 = dec_phdr elf_min 52" "seg_page_count (dec_phdr elf_min 52) = 1"
proof -
  have l: "length elf_min = 88" by (simp add: elf_min_def)
  show ph: "phdr elf_min (dec_ehdr elf_min) 0 = dec_phdr elf_min 52"
    by (simp add: phdr_def elf_min_headers(1))
  show one: "loadable elf_min (dec_ehdr elf_min) [0..<unat (e_phnum (dec_ehdr elf_min))] = {0}"
    using ph by (auto simp: loadable_def elf_min_headers)
  show pg: "seg_page_count (dec_phdr elf_min 52) = 1" by (simp add: seg_page_count_def elf_min_headers)
  have pages: "seg_pages (dec_phdr elf_min 52) = {drop_bit 12 0x04000000}"
    unfolding seg_pages_def pg by (simp add: elf_min_headers lessThan_Suc)
  have absent: "\<not> present vm_boot (page_directory vm_boot) i" if "8 \<le> i" "unat i < 1024" for i
    using vm_boot_ok(2) that by (auto simp: identity_upto_def)
  have code: "\<not> present vm_boot (page_directory vm_boot) (dir_idx va)" if "drop_bit 12 va = drop_bit 12 (0x04000000 :: u32)" for va
    using that unfolding same_page by (intro absent idx_less) (simp add: dir_idx_def)
  have stack: "\<not> present vm_boot (page_directory vm_boot) (dir_idx stack_page)"
    by (intro absent idx_less) (simp add: dir_idx_def)
  have sum: "segs_pages elf_min (dec_ehdr elf_min) [0..<unat (e_phnum (dec_ehdr elf_min))] = 1"
    using ph pg by (simp add: segs_pages_def elf_min_headers)
  have segs: "segs_ok elf_min (dec_ehdr elf_min) [0..<unat (e_phnum (dec_ehdr elf_min))]"
    unfolding segs_ok_def one using ph pg l by (simp add: seg_ok_def elf_min_headers)
  have "image_ok elf_min (dec_ehdr elf_min) vm_boot"
    unfolding image_ok_def one sum ph[symmetric] using segs l stack code vm_boot_ok(3) pages ph by simp
  then show "elf_ok elf_min vm_boot"
    using l by (simp add: elf_ok_def elf_min_headers(1) rd32_def)
qed


end
