(* ===== verification/Syscall.thy ===== *)
theory Syscall
  imports Vfs Process Interrupts Stdio Graphics
begin

text \<open>
  System calls, \<open>kernel/syscall/syscall.c\<close>, and the wrappers user programs call,
  \<open>kernel/user/libc.c\<close>. They put together the console, the file layer, the processes and
  the heap. \<open>k_mem\<close> is the memory behind the pointers a program passes, by address; the
  kernel's own data are the other fields. A call may not return: \<open>None\<close> is a fault or an
  endless loop, \<open>Idle\<close> the loop in which an exited process waits to be rescheduled.
\<close>

section \<open>State\<close>

record 'd kernel =
  k_sched :: sched
  k_vfs :: "'d vfs"
  k_vga :: vga
  k_mem :: "u32 \<Rightarrow> u8"

datatype ('m, 'd) sys_result = Ret u32 "'m \<times> 'd kernel" | Idle "'m \<times> 'd kernel"

type_synonym ('m, 'd) syscall_fn = "registers \<Rightarrow> 'm \<times> 'd kernel \<Rightarrow> ('m, 'd) sys_result option"

abbreviation "SYSCALL_MAX \<equiv> (64 :: u32)"
abbreviation "USER_PTR_MIN \<equiv> (0x00001000 :: u32)"
abbreviation "USER_PTR_MAX \<equiv> (0xBFFFFFFF :: u32)"
abbreviation "SYS_EXIT \<equiv> (0 :: u32)"
abbreviation "SYS_WRITE \<equiv> (1 :: u32)"
abbreviation "SYS_FORK \<equiv> (2 :: u32)"
abbreviation "SYS_EXEC \<equiv> (3 :: u32)"
abbreviation "SYS_GETPID \<equiv> (7 :: u32)"
abbreviation "SYS_OPEN \<equiv> (8 :: u32)"
abbreviation "SYS_READ \<equiv> (9 :: u32)"
abbreviation "SYS_CLOSE \<equiv> (10 :: u32)"
abbreviation "SYS_MALLOC \<equiv> (11 :: u32)"
abbreviation "SYS_FREE \<equiv> (12 :: u32)"

definition validate_user_ptr :: "u32 \<Rightarrow> u32 \<Rightarrow> bool" where
  "validate_user_ptr p len \<longleftrightarrow>
     \<not> (p < USER_PTR_MIN \<or> USER_PTR_MAX < p) \<and>
     (len = 0 \<or> \<not> p + len - 1 < p \<and> \<not> USER_PTR_MAX < p + len - 1)"

text \<open>The string at a pointer with its terminator; no result when there is none.\<close>

partial_function (option) read_string :: "(u32 \<Rightarrow> u8) \<Rightarrow> u32 \<Rightarrow> bytes option" where
  "read_string mem p =
     (if mem p = 0 then Some [0] else Option.bind (read_string mem (p + 1)) (\<lambda>bs. Some (mem p # bs)))"

section \<open>The calls\<close>

definition sys_exit :: "('m, 'd) syscall_fn" where
  "sys_exit regs st =
     (case st of (m, k) \<Rightarrow> map_option (\<lambda>sc. Idle (m, k\<lparr>k_sched := sc\<rparr>)) (process_exit (k_sched k)))"

definition sys_write :: "'m ports \<Rightarrow> ('m, 'd) syscall_fn" where
  "sys_write P regs st =
     (case st of (m, k) \<Rightarrow>
        let buf = r_ebx regs; len = r_ecx regs in
        if \<not> validate_user_ptr buf len then Some (Ret (-1) st)
        else
          let (m, v) = fold (\<lambda>i. vga_putchar P (k_mem k (buf + of_nat i))) [0..<unat len] (m, k_vga k)
          in Some (Ret len (m, k\<lparr>k_vga := v\<rparr>)))"

definition sys_open :: "'d dev \<Rightarrow> ('m, 'd) syscall_fn" where
  "sys_open D regs st =
     (case st of (m, k) \<Rightarrow>
        let path = r_ebx regs in
        if \<not> validate_user_ptr path 1 then Some (Ret (-1) st)
        else case read_string (k_mem k) path of
               None \<Rightarrow> None
             | Some s \<Rightarrow> case vfs_open D (Some s) VFS_O_RDONLY (k_vfs k) of (r, v) \<Rightarrow> Some (Ret (of_int r) (m, k\<lparr>k_vfs := v\<rparr>)))"

definition sys_read :: "'d dev \<Rightarrow> ('m, 'd) syscall_fn" where
  "sys_read D regs st =
     (case st of (m, k) \<Rightarrow>
        let fd = sint (r_ebx regs); buf = r_ecx regs; len = r_edx regs in
        if \<not> validate_user_ptr buf len then Some (Ret (-1) st)
        else case vfs_read D fd (buf \<noteq> 0) len (k_vfs k) of ((r, out), v) \<Rightarrow>
               Some (Ret (of_int r) (m, k\<lparr>k_vfs := v, k_mem := put_bytes buf out (k_mem k)\<rparr>)))"

definition sys_close :: "('m, 'd) syscall_fn" where
  "sys_close regs st =
     (case st of (m, k) \<Rightarrow> case vfs_close (sint (r_ebx regs)) (k_vfs k) of (r, v) \<Rightarrow> Some (Ret (of_int r) (m, k\<lparr>k_vfs := v\<rparr>)))"

definition sys_getpid :: "('m, 'd) syscall_fn" where
  "sys_getpid regs st =
     (case st of (m, k) \<Rightarrow>
        Some (Ret (case process_current (k_sched k) of None \<Rightarrow> 0 | Some p \<Rightarrow> p_pid (process_table (k_sched k) ! p)) st))"

definition sys_fork :: "('m, 'd) syscall_fn" where
  "sys_fork regs st =
     (case st of (m, k) \<Rightarrow>
        map_option (\<lambda>(r, sc). Ret (of_int r) (m, k\<lparr>k_sched := sc\<rparr>)) (process_fork_stub (k_sched k)))"

text \<open>\<open>process_exec_stub\<close> ignores its path.\<close>

definition sys_exec :: "('m, 'd) syscall_fn" where
  "sys_exec regs st =
     (case st of (m, k) \<Rightarrow>
        let path = r_ebx regs in
        if \<not> validate_user_ptr path 1 then Some (Ret (-1) st)
        else Some (Ret (of_int (process_exec_stub [k_mem k path])) st))"

definition sys_malloc :: "('m, 'd) syscall_fn" where
  "sys_malloc regs st =
     (case st of (m, k) \<Rightarrow>
        map_option (\<lambda>(p, h). Ret p (m, k\<lparr>k_sched := (k_sched k)\<lparr>kheap := h\<rparr>\<rparr>)) (kmalloc (r_ebx regs) (kheap (k_sched k))))"

definition sys_free :: "('m, 'd) syscall_fn" where
  "sys_free regs st =
     (case st of (m, k) \<Rightarrow> Some (Ret 0 (m, k\<lparr>k_sched := (k_sched k)\<lparr>kheap := kfree (r_ebx regs) (kheap (k_sched k))\<rparr>\<rparr>)))"

section \<open>Dispatch\<close>

text \<open>The body of \<open>syscall_handler\<close>: the value that goes to \<open>eax\<close>.\<close>

definition syscall_call :: "('m, 'd) syscall_fn option list \<Rightarrow> ('m, 'd) syscall_fn" where
  "syscall_call T regs st =
     (let num = r_eax regs in
      case (if SYSCALL_MAX \<le> num then None else T ! unat num) of
        None \<Rightarrow> Some (Ret (-1) st)
      | Some f \<Rightarrow> f regs st)"

definition syscall_handler :: "('m, 'd) syscall_fn option list \<Rightarrow> ('m, 'd kernel) handler" where
  "syscall_handler T regs st =
     (case syscall_call T regs st of
        Some (Ret r st) \<Rightarrow> Some (regs\<lparr>r_eax := r\<rparr>, st)
      | _ \<Rightarrow> None)"

definition syscall_table :: "'m ports \<Rightarrow> 'd dev \<Rightarrow> ('m, 'd) syscall_fn option list" where
  "syscall_table P D =
     fold (\<lambda>(n, f) t. t[unat n := Some f])
       [(SYS_EXIT, sys_exit), (SYS_WRITE, sys_write P), (SYS_FORK, sys_fork), (SYS_EXEC, sys_exec), (SYS_GETPID, sys_getpid),
        (SYS_OPEN, sys_open D), (SYS_READ, sys_read D), (SYS_CLOSE, sys_close), (SYS_MALLOC, sys_malloc), (SYS_FREE, sys_free)]
       (replicate 64 None)"

text \<open>The message is \<open>"[syscall] table initialized"\<close> and a line feed.\<close>

definition syscall_message :: bytes where
  "syscall_message = [0x5B, 0x73, 0x79, 0x73, 0x63, 0x61, 0x6C, 0x6C, 0x5D, 0x20, 0x74, 0x61, 0x62, 0x6C, 0x65, 0x20,
     0x69, 0x6E, 0x69, 0x74, 0x69, 0x61, 0x6C, 0x69, 0x7A, 0x65, 0x64, 0x0A]"

definition syscall_init :: "'m ports \<Rightarrow> 'd dev \<Rightarrow> ('m, 'd kernel) handlers \<times> 'm \<times> vga \<Rightarrow> (('m, 'd kernel) handlers \<times> 'm \<times> vga) option" where
  "syscall_init P D st =
     (case st of (H, mv) \<Rightarrow>
        let H = isr_register_handler 0x80 (syscall_handler (syscall_table P D)) H
        in map_option (Pair H) (printk P syscall_message [] mv))"

section \<open>The user library\<close>

text \<open>
  \<open>int $0x80\<close>: the processor and the stub save the registers, \<open>regs\<close>, and \<open>isr_handler\<close>
  runs on them; the result is what is restored to \<open>eax\<close>.
\<close>

definition libc_syscall :: "('m, 'd kernel) handlers \<Rightarrow> registers \<Rightarrow> u32 \<Rightarrow> u32 \<Rightarrow> u32 \<Rightarrow> u32 \<Rightarrow> 'm \<times> 'd kernel \<Rightarrow> (u32 \<times> 'm \<times> 'd kernel) option" where
  "libc_syscall H regs eax ebx ecx edx st =
     map_option (\<lambda>(r, st). (r_eax r, st))
       (isr_handler H (regs\<lparr>r_int_no := 0x80, r_eax := eax, r_ebx := ebx, r_ecx := ecx, r_edx := edx\<rparr>) st)"

definition libc_write :: "('m, 'd kernel) handlers \<Rightarrow> registers \<Rightarrow> u32 \<Rightarrow> u32 \<Rightarrow> 'm \<times> 'd kernel \<Rightarrow> (u32 \<times> 'm \<times> 'd kernel) option" where
  "libc_write H regs buf len st = libc_syscall H regs SYS_WRITE buf len 0 st"

text \<open>The argument of \<open>write_char\<close> lives on the stack of the program, at \<open>a\<close>.\<close>

definition libc_write_char :: "('m, 'd kernel) handlers \<Rightarrow> registers \<Rightarrow> u32 \<Rightarrow> u8 \<Rightarrow> 'm \<times> 'd kernel \<Rightarrow> (u32 \<times> 'm \<times> 'd kernel) option" where
  "libc_write_char H regs a c st = (case st of (m, k) \<Rightarrow> libc_write H regs a 1 (m, k\<lparr>k_mem := (k_mem k)(a := c)\<rparr>))"

definition libc_open :: "('m, 'd kernel) handlers \<Rightarrow> registers \<Rightarrow> u32 \<Rightarrow> 'm \<times> 'd kernel \<Rightarrow> (u32 \<times> 'm \<times> 'd kernel) option" where
  "libc_open H regs filename st = libc_syscall H regs SYS_OPEN filename 0 0 st"

definition libc_read :: "('m, 'd kernel) handlers \<Rightarrow> registers \<Rightarrow> u32 \<Rightarrow> u32 \<Rightarrow> u32 \<Rightarrow> 'm \<times> 'd kernel \<Rightarrow> (u32 \<times> 'm \<times> 'd kernel) option" where
  "libc_read H regs fd buf len st = libc_syscall H regs SYS_READ fd buf len st"

definition libc_close :: "('m, 'd kernel) handlers \<Rightarrow> registers \<Rightarrow> u32 \<Rightarrow> 'm \<times> 'd kernel \<Rightarrow> (u32 \<times> 'm \<times> 'd kernel) option" where
  "libc_close H regs fd st = libc_syscall H regs SYS_CLOSE fd 0 0 st"

definition libc_malloc :: "('m, 'd kernel) handlers \<Rightarrow> registers \<Rightarrow> u32 \<Rightarrow> 'm \<times> 'd kernel \<Rightarrow> (u32 \<times> 'm \<times> 'd kernel) option" where
  "libc_malloc H regs sz st = libc_syscall H regs SYS_MALLOC sz 0 0 st"

definition libc_free :: "('m, 'd kernel) handlers \<Rightarrow> registers \<Rightarrow> u32 \<Rightarrow> 'm \<times> 'd kernel \<Rightarrow> (u32 \<times> 'm \<times> 'd kernel) option" where
  "libc_free H regs p st = libc_syscall H regs SYS_FREE p 0 0 st"

definition libc_exit :: "('m, 'd kernel) handlers \<Rightarrow> registers \<Rightarrow> 'm \<times> 'd kernel \<Rightarrow> (u32 \<times> 'm \<times> 'd kernel) option" where
  "libc_exit H regs st = libc_syscall H regs SYS_EXIT 0 0 0 st"

section \<open>Pointers\<close>

text \<open>
  The check of a user pointer is exact: it accepts a range just when the whole range, as
  numbers and without wrapping round, lies between \<open>USER_PTR_MIN\<close> and \<open>USER_PTR_MAX\<close>.
\<close>

theorem validate_user_ptr_exact:
  "validate_user_ptr p len = (0x1000 \<le> unat p \<and> unat p < 0xC0000000 \<and> unat p + unat len \<le> 0xC0000000)"
proof (cases "len = 0")
  case True
  then show ?thesis by (auto simp: validate_user_ptr_def word_less_nat_alt word_le_nat_alt)
next
  case False
  then have l: "1 \<le> unat len" using unat_gt_0 [of len] by linarith
  define q where "q = p + len - 1"
  have q: "unat q = (unat p + unat len - 1) mod 2 ^ 32"
  proof -
    have "q = of_nat (unat p + unat len - 1)" using l by (simp add: q_def of_nat_diff)
    then show ?thesis by (simp add: unat_of_nat)
  qed
  have b: "unat p < 2 ^ 32" "unat len < 2 ^ 32" using u32_lt [of p] u32_lt [of len] by simp_all
  show ?thesis
  proof (cases "unat p + unat len - 1 < 2 ^ 32")
    case True
    then have "unat q = unat p + unat len - 1" by (simp add: q)
    then show ?thesis using l False
      by (auto simp: validate_user_ptr_def q_def [symmetric] word_less_nat_alt word_le_nat_alt)
  next
    case wrap: False
    then have "unat q = unat p + unat len - 1 - 2 ^ 32" using b q by (simp add: mod_if)
    then have "q < p" using b l wrap by (simp add: word_less_nat_alt)
    then show ?thesis using False wrap by (auto simp: validate_user_ptr_def q_def [symmetric])
  qed
qed

lemma read_string_spec:
  "read_string mem p = Some s \<Longrightarrow> terminated s \<and> s = cstr s @ [0] \<and> (\<forall>i < length s. s ! i = mem (p + of_nat i))"
proof (rule read_string.raw_induct [where P = "\<lambda>mem p s. terminated s \<and> s = cstr s @ [0] \<and> (\<forall>i < length s. s ! i = mem (p + of_nat i))"])
  fix rec :: "(u32 \<Rightarrow> u8) \<Rightarrow> u32 \<Rightarrow> bytes option" and mem p s
  assume ih: "\<And>mem p s. rec mem p = Some s \<Longrightarrow> terminated s \<and> s = cstr s @ [0] \<and> (\<forall>i < length s. s ! i = mem (p + of_nat i))"
    and r: "(if mem p = 0 then Some [0] else Option.bind (rec mem (p + 1)) (\<lambda>bs. Some (mem p # bs))) = Some s"
  show "terminated s \<and> s = cstr s @ [0] \<and> (\<forall>i < length s. s ! i = mem (p + of_nat i))"
  proof (cases "mem p = 0")
    case True
    then show ?thesis using r by auto
  next
    case False
    then obtain t where t: "rec mem (p + 1) = Some t" "s = mem p # t" using r by (cases "rec mem (p + 1)") auto
    note T = ih [OF t(1)]
    have "s ! i = mem (p + of_nat i)" if "i < length s" for i
      using T that t(2) by (cases i) (auto simp: ac_simps)
    then show ?thesis using T t(2) False by auto
  qed
qed

lemma read_string_at:
  "(\<forall>i < length s. mem (p + of_nat i) = s ! i) \<Longrightarrow> s = cstr s @ [0] \<Longrightarrow> read_string mem p = Some s"
proof (induction s arbitrary: p)
  case (Cons c s)
  have "mem (p + 1 + of_nat i) = s ! i" if "i < length s" for i
    using spec [OF Cons.prems(1), of "Suc i"] that by (simp add: ac_simps)
  moreover have "mem p = c" using spec [OF Cons.prems(1), of 0] by simp
  ultimately show ?case using Cons.IH [of "p + 1"] Cons.prems(2)
    by (subst read_string.simps) (auto split: if_splits)
qed simp

section \<open>Dispatch of the installed calls\<close>

lemma syscall_table_entries [simp]:
  "length (syscall_table P D) = 64"
  "syscall_table P D ! 0 = Some sys_exit" "syscall_table P D ! Suc 0 = Some (sys_write P)" "syscall_table P D ! 2 = Some sys_fork"
  "syscall_table P D ! 3 = Some sys_exec" "syscall_table P D ! 7 = Some sys_getpid" "syscall_table P D ! 8 = Some (sys_open D)"
  "syscall_table P D ! 9 = Some (sys_read D)" "syscall_table P D ! 10 = Some sys_close" "syscall_table P D ! 11 = Some sys_malloc"
  "syscall_table P D ! 12 = Some sys_free"
  by (simp_all add: syscall_table_def nth_list_update)

lemma syscall_table_others:
  "n < 64 \<Longrightarrow> n \<notin> {0, 1, 2, 3, 7, 8, 9, 10, 11, 12} \<Longrightarrow> syscall_table P D ! n = None"
  by (simp add: syscall_table_def nth_list_update)

text \<open>What a program sees of a call: \<open>int $0x80\<close> with the table of \<open>syscall_init\<close>.\<close>

lemma libc_syscall_call:
  assumes "H ! 0x80 = Some (syscall_handler (syscall_table P D))"
  shows "libc_syscall H regs eax ebx ecx edx st =
    (case syscall_call (syscall_table P D) (regs\<lparr>r_int_no := 0x80, r_eax := eax, r_ebx := ebx, r_ecx := ecx, r_edx := edx\<rparr>) st of
       Some (Ret r st) \<Rightarrow> Some (r, st) | _ \<Rightarrow> None)"
  using assms by (simp add: libc_syscall_def isr_handler_def syscall_handler_def split: option.splits sys_result.splits)

lemma syscall_init_installs:
  "syscall_init P D (H, mv) = Some (H', mv') \<Longrightarrow> length H = 256 \<Longrightarrow>
     H' = H[0x80 := Some (syscall_handler (syscall_table P D))] \<and> H' ! 0x80 = Some (syscall_handler (syscall_table P D))"
  by (auto simp: syscall_init_def isr_register_handler_def)

text \<open>
  C36. Calls that are refused have no effect: a number without an entry in the table, or a
  pointer outside the range of user pointers in \<open>write\<close>, \<open>open\<close>, \<open>read\<close> or \<open>exec\<close>, gives
  -1 in \<open>eax\<close> and changes nothing else, no register and no part of the kernel.
\<close>

theorem refused_calls_change_nothing:
  assumes "r_eax regs \<notin> {SYS_EXIT, SYS_WRITE, SYS_FORK, SYS_EXEC, SYS_GETPID, SYS_OPEN, SYS_READ, SYS_CLOSE, SYS_MALLOC, SYS_FREE} \<or>
    r_eax regs = SYS_WRITE \<and> \<not> validate_user_ptr (r_ebx regs) (r_ecx regs) \<or>
    r_eax regs = SYS_READ \<and> \<not> validate_user_ptr (r_ecx regs) (r_edx regs) \<or>
    r_eax regs \<in> {SYS_OPEN, SYS_EXEC} \<and> \<not> validate_user_ptr (r_ebx regs) 1"
  shows "syscall_handler (syscall_table P D) regs st = Some (regs\<lparr>r_eax := -1\<rparr>, st)"
proof -
  consider (number) "r_eax regs \<notin> {0, 1, 2, 3, 7, 8, 9, 10, 11, 12}" | (ptr) "r_eax regs \<in> {1, 3, 8, 9}" using assms by auto
  then have "syscall_call (syscall_table P D) regs st = Some (Ret (-1) st)"
  proof cases
    case number
    show ?thesis
    proof (cases "r_eax regs < 64")
      case True
      then have "unat (r_eax regs) < 64" by (simp add: word_less_nat_alt)
      moreover have "unat (r_eax regs) \<notin> {0, 1, 2, 3, 7, 8, 9, 10, 11, 12}"
        using number by (simp add: word_unat_eq_iff)
      ultimately have "syscall_table P D ! unat (r_eax regs) = None" by (rule syscall_table_others)
      then show ?thesis by (simp only: syscall_call_def Let_def if_cancel option.case)
    qed (simp add: syscall_call_def not_less Let_def)
  next
    case ptr
    then show ?thesis using assms
      by (cases st) (auto simp: syscall_call_def sys_write_def sys_exec_def sys_open_def sys_read_def)
  qed
  then show ?thesis by (simp add: syscall_handler_def)
qed

definition regs_boot :: registers where
  "regs_boot = \<lparr>r_ds = 0x23, r_edi = 0, r_esi = 0, r_ebp = 0, r_esp = 0, r_ebx = 0, r_edx = 0, r_ecx = 0, r_eax = 0, r_int_no = 0,
     r_err_code = 0, r_eip = 0, r_cs = 0x1B, r_eflags = 0x202, r_useresp = 0, r_ss = 0x23\<rparr>"

definition kernel_boot :: "sim ata_state kernel" where
  "kernel_boot = \<lparr>k_sched = sched_boot, k_vfs = vfs_boot, k_vga = \<lparr>vga_buffer = replicate 4000 0, vga_index = 0, vga_current_color = 15\<rparr>,
     k_mem = (\<lambda>_. 0)(0x2000 := 0x61)\<rparr>"

theorem refused_calls_change_nothing_witness:
  "syscall_handler (syscall_table (log_ports (\<lambda>_. 0)) adev) (regs_boot\<lparr>r_eax := 4\<rparr>) ([], kernel_boot) =
     Some (regs_boot\<lparr>r_eax := 4, r_eax := -1\<rparr>, [], kernel_boot) \<and>
   syscall_handler (syscall_table (log_ports (\<lambda>_. 0)) adev) (regs_boot\<lparr>r_eax := 1, r_ebx := 0xC0000000, r_ecx := 1\<rparr>) ([], kernel_boot) =
     Some (regs_boot\<lparr>r_eax := 1, r_ebx := 0xC0000000, r_ecx := 1, r_eax := -1\<rparr>, [], kernel_boot)"
proof
  define P :: "(u16 \<times> u8) list ports" and D st where "P = log_ports (\<lambda>_. 0)" and "D = adev" and "st = ([] :: (u16 \<times> u8) list, kernel_boot)"
  define r and w where "r = regs_boot\<lparr>r_eax := 4\<rparr>" and "w = regs_boot\<lparr>r_eax := 1, r_ebx := 0xC0000000, r_ecx := 1\<rparr>"
  have "syscall_handler (syscall_table P D) r st = Some (r\<lparr>r_eax := -1\<rparr>, st)"
  proof (rule refused_calls_change_nothing)
    have "r_eax r = 4" by (simp add: r_def)
    then show "r_eax r \<notin> {SYS_EXIT, SYS_WRITE, SYS_FORK, SYS_EXEC, SYS_GETPID, SYS_OPEN, SYS_READ, SYS_CLOSE, SYS_MALLOC, SYS_FREE} \<or>
      r_eax r = SYS_WRITE \<and> \<not> validate_user_ptr (r_ebx r) (r_ecx r) \<or> r_eax r = SYS_READ \<and> \<not> validate_user_ptr (r_ecx r) (r_edx r) \<or>
      r_eax r \<in> {SYS_OPEN, SYS_EXEC} \<and> \<not> validate_user_ptr (r_ebx r) 1" by simp
  qed
  then show "syscall_handler (syscall_table (log_ports (\<lambda>_. 0)) adev) (regs_boot\<lparr>r_eax := 4\<rparr>) ([], kernel_boot) =
     Some (regs_boot\<lparr>r_eax := 4, r_eax := -1\<rparr>, [], kernel_boot)" unfolding P_def D_def st_def r_def .
  have "\<not> validate_user_ptr 0xC0000000 1" by (simp add: validate_user_ptr_def)
  then have "syscall_handler (syscall_table P D) w st = Some (w\<lparr>r_eax := -1\<rparr>, st)"
    by (intro refused_calls_change_nothing disjI2 [OF disjI1]) (simp add: w_def)
  then show "syscall_handler (syscall_table (log_ports (\<lambda>_. 0)) adev) (regs_boot\<lparr>r_eax := 1, r_ebx := 0xC0000000, r_ecx := 1\<rparr>) ([], kernel_boot) =
     Some (regs_boot\<lparr>r_eax := 1, r_ebx := 0xC0000000, r_ecx := 1, r_eax := -1\<rparr>, [], kernel_boot)" unfolding P_def D_def st_def w_def .
qed

text \<open>\<open>write\<close> prints the bytes of the buffer, and \<open>exit\<close> leaves the process DEAD in a call that does not return.\<close>

lemma word_1_less: "\<not> (64 :: u32) \<le> 1"
  by (simp add: word_le_nat_alt)

lemma libc_write_prints:
  assumes "H ! 0x80 = Some (syscall_handler (syscall_table P D))" "validate_user_ptr buf len"
  shows "libc_write H regs buf len (m, k) =
    (let (m', v) = vga_write P (map (\<lambda>i. k_mem k (buf + of_nat i)) [0..<unat len]) (m, k_vga k) in Some (len, m', k\<lparr>k_vga := v\<rparr>))"
  using assms(2) word_1_less
  by (simp add: libc_write_def libc_syscall_call [OF assms(1)] syscall_call_def sys_write_def vga_write_def fold_map comp_def Let_def
    del: upt_rec_numeral split: prod.splits)

lemma libc_exit_never_returns:
  assumes "H ! 0x80 = Some (syscall_handler (syscall_table P D))"
  shows "libc_exit H regs (m, k) = None"
    "current_process (k_sched k) = Some c \<Longrightarrow>
       syscall_call (syscall_table P D) (regs\<lparr>r_eax := SYS_EXIT\<rparr>) (m, k) =
         Some (Idle (m, k\<lparr>k_sched := (k_sched k)\<lparr>process_table := upd c (\<lambda>p. p\<lparr>p_state := PROC_DEAD\<rparr>) (process_table (k_sched k))\<rparr>\<rparr>))"
  by (simp_all add: libc_exit_def libc_syscall_call [OF assms(1)] syscall_call_def sys_exit_def process_exit_def
    split: option.splits sys_result.splits)

section \<open>A file read by a user program\<close>

context reliable_dev
begin

lemma vfs_open_existing:
  assumes "invar (disk (vfs_fs s))" "fs_wf (sec (disk (vfs_fs s)))" "terminated nm" "nm ! 0 \<noteq> 0"
    "looks_up (sec (disk (vfs_fs s))) (cstr nm) i" "0 \<le> alloc_file_slot s" "length (vfs_files s) = 32"
  shows "\<exists>d' f. vfs_open D (Some nm) VFS_O_RDONLY s =
      (alloc_file_slot s, s\<lparr>vfs_fs := (vfs_fs s)\<lparr>disk := d'\<rparr>, vfs_files := (vfs_files s)[nat (alloc_file_slot s) := f]\<rparr>) \<and>
    invar d' \<and> sec d' = sec (disk (vfs_fs s)) \<and> vf_in_use f = 1 \<and> vf_offset f = 0 \<and> ucast (vn_inode (vf_vnode f)) = i"
proof -
  from find_existing [OF assms(1,2,3,5), of False] obtain d where
    d: "find_or_create D nm False s = (int (unat i), s\<lparr>vfs_fs := (vfs_fs s)\<lparr>disk := d\<rparr>\<rparr>)" "invar d" "sec d = sec (disk (vfs_fs s))" by blast
  have "i < TETFS_MAX_INODES" using assms(5) by (simp add: looks_up_in_def)
  then obtain d2 where d2: "tetfs_read_inode D i d = (Some (inode_at (sec d) i), d2)" "invar d2" "sec d2 = sec d"
    by (rule read_inode_ok [OF d(2)])
  have slot: "alloc_file_slot (s\<lparr>vfs_fs := fs\<rparr>) = alloc_file_slot s" for fs by (simp add: alloc_file_slot_def)
  show ?thesis
    using d d2 assms(4,6)
    by (intro exI [of _ d2] exI [of _ "(vfs_files s ! nat (alloc_file_slot s))\<lparr>vf_in_use := 1, vf_flags := VFS_O_RDONLY, vf_offset := 0,
        vf_vnode := \<lparr>vn_inode = of_nat (unat i), vn_size = i_size (inode_at (sec d) i), vn_type = i_type (inode_at (sec d) i), vn_sb = True\<rparr>\<rparr>"])
      (simp add: vfs_open_def on_disk_def slot ucast_twice Let_def)
qed

end



end
