(* ===== verification/Bmp.thy ===== *)
theory Bmp
  imports Vfs GraphicsProps Kheap
begin

text \<open>
  Bitmap files, \<open>kernel/graphics/bmp.c\<close>: reading the headers of a file on the disk, and drawing
  an uncompressed image with 8 or 24 bits per pixel row by row through a heap buffer. The
  state is the disk, the heap and the graphics. The row buffer is the list of the bytes just
  read into it; a pixel behind its end has no result (\<open>None\<close>).
\<close>

section \<open>Headers\<close>

record bmp_file_header =
  bf_signature :: u16
  bf_file_size :: u32
  bf_reserved1 :: u16
  bf_reserved2 :: u16
  bf_data_offset :: u32

abbreviation "sizeof_bmp_file_header \<equiv> (14 :: u32)"

definition dec_bmp_file_header :: "bytes \<Rightarrow> bmp_file_header" where
  "dec_bmp_file_header b = \<lparr>bf_signature = rd16 b 0, bf_file_size = rd32 b 2, bf_reserved1 = rd16 b 6, bf_reserved2 = rd16 b 8,
     bf_data_offset = rd32 b 10\<rparr>"

record bmp_info_header =
  bi_header_size :: u32
  bi_width :: u32
  bi_height :: u32
  bi_planes :: u16
  bi_bpp :: u16
  bi_compression :: u32
  bi_image_size :: u32
  bi_x_ppm :: u32
  bi_y_ppm :: u32
  bi_colors_used :: u32
  bi_colors_important :: u32

abbreviation "sizeof_bmp_info_header \<equiv> (40 :: u32)"

definition dec_bmp_info_header :: "bytes \<Rightarrow> bmp_info_header" where
  "dec_bmp_info_header b = \<lparr>bi_header_size = rd32 b 0, bi_width = rd32 b 4, bi_height = rd32 b 8, bi_planes = rd16 b 12,
     bi_bpp = rd16 b 14, bi_compression = rd32 b 16, bi_image_size = rd32 b 20, bi_x_ppm = rd32 b 24, bi_y_ppm = rd32 b 28,
     bi_colors_used = rd32 b 32, bi_colors_important = rd32 b 36\<rparr>"

record bmp_info =
  bm_width :: u32
  bm_height :: u32
  bm_bpp :: u16
  bm_compression :: u32
  bm_data_offset :: u32
  bm_image_size :: u32

text \<open>The signed height: negative when the rows go from top to bottom.\<close>

definition bmp_rows_count :: "bmp_info_header \<Rightarrow> u32" where
  "bmp_rows_count ih = (if bi_height ih <s 0 then - bi_height ih else bi_height ih)"

definition bmp_info_from_file :: "'d dev \<Rightarrow> bytes option \<Rightarrow> u16 \<Rightarrow> bool \<Rightarrow> 'd \<Rightarrow> (int \<times> bmp_info option) \<times> 'd" where
  "bmp_info_from_file D name parent out d =
     (if \<not> out \<or> name = None \<or> the name ! 0 = 0 then ((-1, None), d)
      else case tetfs_find D (the name) parent d of (idx, d) \<Rightarrow>
        if idx < 0 then ((-2, None), d)
        else case tetfs_read_inode D (of_int idx) d of
          (None, d) \<Rightarrow> ((-3, None), d)
        | (Some node, d) \<Rightarrow>
            if i_type node \<noteq> TETFS_TYPE_FILE then ((-4, None), d)
            else if i_size node < sizeof_bmp_file_header + sizeof_bmp_info_header then ((-5, None), d)
            else case tetfs_read D (of_int idx) 0 sizeof_bmp_file_header d of ((n, bs), d) \<Rightarrow>
              if n \<noteq> sint sizeof_bmp_file_header then ((-6, None), d)
              else let fh = dec_bmp_file_header bs in
              if bf_signature fh \<noteq> 0x4D42 then ((-7, None), d)
              else case tetfs_read D (of_int idx) sizeof_bmp_file_header sizeof_bmp_info_header d of ((n, bs), d) \<Rightarrow>
                if n \<noteq> sint sizeof_bmp_info_header then ((-8, None), d)
                else let ih = dec_bmp_info_header bs in
                if bi_header_size ih < 40 then ((-9, None), d)
                else if bi_width ih \<le>s 0 \<or> bi_height ih = 0 then ((-10, None), d)
                else ((0, Some \<lparr>bm_width = bi_width ih, bm_height = bmp_rows_count ih, bm_bpp = bi_bpp ih,
                   bm_compression = bi_compression ih, bm_data_offset = bf_data_offset fh, bm_image_size = bi_image_size ih\<rparr>), d))"

section \<open>Drawing\<close>

definition rgb_to_color :: "u8 \<Rightarrow> u8 \<Rightarrow> u8 \<Rightarrow> color" where
  "rgb_to_color r g b = graphics_rgb r g b"

definition bmp_palette :: "bytes \<Rightarrow> color list" where
  "bmp_palette p = map (\<lambda>i. rgb_to_color (p ! (4 * i + 2)) (p ! (4 * i + 1)) (p ! (4 * i))) [0..<256]"

text \<open>The colour of pixel \<open>x\<close> in a row buffer.\<close>

definition bmp_row_color :: "bytes \<Rightarrow> u16 \<Rightarrow> color list \<Rightarrow> u32 \<Rightarrow> color option" where
  "bmp_row_color row bpp palette_map x =
     (if bpp = 8
      then if unat x < length row then Some (palette_map ! unat (row ! unat x)) else None
      else let px = unat (x * 3) in
        if px + 2 < length row then Some (rgb_to_color (row ! (px + 2)) (row ! (px + 1)) (row ! px)) else None)"

text \<open>The loop over the pixels of a row, which ends at the right border of the screen.\<close>

fun bmp_draw_row :: "bytes \<Rightarrow> u16 \<Rightarrow> color list \<Rightarrow> u32 \<Rightarrow> u32 \<Rightarrow> nat list \<Rightarrow> gfx \<Rightarrow> gfx option" where
  "bmp_draw_row row bpp palette_map dst_x sy [] g = Some g"
| "bmp_draw_row row bpp palette_map dst_x sy (x # xs) g =
     (if graphics_get_width g \<le> dst_x + of_nat x then Some g
      else case bmp_row_color row bpp palette_map (of_nat x) of
             None \<Rightarrow> None
           | Some color \<Rightarrow> bmp_draw_row row bpp palette_map dst_x sy xs (graphics_set_pixel (dst_x + of_nat x) sy color g))"

text \<open>The loop over the rows; \<open>False\<close> when one cannot be read.\<close>

fun bmp_draw_rows :: "'d dev \<Rightarrow> u16 \<Rightarrow> bmp_file_header \<Rightarrow> bmp_info_header \<Rightarrow> u32 \<Rightarrow> color list \<Rightarrow> u32 \<Rightarrow> u32 \<Rightarrow> nat list
    \<Rightarrow> 'd \<times> gfx \<Rightarrow> (bool \<times> 'd \<times> gfx) option" where
  "bmp_draw_rows D idx fh ih row_size palette_map dst_x dst_y [] (d, g) = Some (True, d, g)"
| "bmp_draw_rows D idx fh ih row_size palette_map dst_x dst_y (y # ys) (d, g) =
     (let src_y = (if bi_height ih <s 0 then of_nat y else bmp_rows_count ih - 1 - of_nat y);
          file_off = bf_data_offset fh + src_y * row_size
      in case tetfs_read D idx file_off row_size d of ((n, row), d) \<Rightarrow>
        if n \<noteq> sint row_size then Some (False, d, g)
        else if graphics_get_height g \<le> dst_y + of_nat y
        then bmp_draw_rows D idx fh ih row_size palette_map dst_x dst_y ys (d, g)
        else case bmp_draw_row row (bi_bpp ih) palette_map dst_x (dst_y + of_nat y) [0..<unat (bi_width ih)] g of
               None \<Rightarrow> None
             | Some g \<Rightarrow> bmp_draw_rows D idx fh ih row_size palette_map dst_x dst_y ys (d, g))"

definition bmp_row_size :: "bmp_info_header \<Rightarrow> u32" where
  "bmp_row_size ih = (bi_width ih * ucast (bi_bpp ih) + 31) div 32 * 4"

text \<open>The palette, needed for 8 bits per pixel only; \<open>None\<close> when it cannot be read.\<close>

definition bmp_read_palette :: "'d dev \<Rightarrow> u16 \<Rightarrow> bmp_info_header \<Rightarrow> 'd \<Rightarrow> color list option \<times> 'd" where
  "bmp_read_palette D idx ih d =
     (if bi_bpp ih = 8
      then case tetfs_read D idx (sizeof_bmp_file_header + bi_header_size ih) 1024 d of ((n, p), d) \<Rightarrow>
             if n \<noteq> 1024 then (None, d) else (Some (bmp_palette p), d)
      else (Some [], d))"

definition bmp_draw_from_file :: "'d dev \<Rightarrow> bytes option \<Rightarrow> u16 \<Rightarrow> u32 \<Rightarrow> u32 \<Rightarrow> 'd \<times> heap \<times> gfx \<Rightarrow> (int \<times> 'd \<times> heap \<times> gfx) option" where
  "bmp_draw_from_file D name parent dst_x dst_y st =
     (case st of (d, h, g) \<Rightarrow>
      if name = None \<or> the name ! 0 = 0 then Some (-1, d, h, g)
      else case tetfs_find D (the name) parent d of (idx, d) \<Rightarrow>
        if idx < 0 then Some (-2, d, h, g)
        else case tetfs_read_inode D (of_int idx) d of
          (None, d) \<Rightarrow> Some (-3, d, h, g)
        | (Some node, d) \<Rightarrow>
            if i_type node \<noteq> TETFS_TYPE_FILE then Some (-4, d, h, g)
            else case tetfs_read D (of_int idx) 0 sizeof_bmp_file_header d of ((n, bf), d) \<Rightarrow>
              if n \<noteq> sint sizeof_bmp_file_header then Some (-5, d, h, g)
              else case tetfs_read D (of_int idx) sizeof_bmp_file_header sizeof_bmp_info_header d of ((n, bi), d) \<Rightarrow>
                if n \<noteq> sint sizeof_bmp_info_header then Some (-6, d, h, g)
                else let fh = dec_bmp_file_header bf; ih = dec_bmp_info_header bi in
                if bf_signature fh \<noteq> 0x4D42 then Some (-7, d, h, g)
                else if bi_header_size ih < 40 then Some (-8, d, h, g)
                else if bi_width ih \<le>s 0 \<or> bi_height ih = 0 then Some (-9, d, h, g)
                else if bi_compression ih \<noteq> 0 then Some (-10, d, h, g)
                else if bi_bpp ih \<noteq> 8 \<and> bi_bpp ih \<noteq> 24 then Some (-11, d, h, g)
                else case kmalloc (bmp_row_size ih) h of
                  None \<Rightarrow> None
                | Some (row, h) \<Rightarrow>
                    if row = 0 then Some (-12, d, h, g)
                    else case bmp_read_palette D (of_int idx) ih d of
                      (None, d) \<Rightarrow> Some (-13, d, kfree row h, g)
                    | (Some palette_map, d) \<Rightarrow>
                        case bmp_draw_rows D (of_int idx) fh ih (bmp_row_size ih) palette_map dst_x dst_y
                               [0..<unat (bmp_rows_count ih)] (d, g) of
                          None \<Rightarrow> None
                        | Some (ok, d, g) \<Rightarrow>
                            if ok then Some (0, d, kfree row h, graphics_present g) else Some (-14, d, kfree row h, g))"

section \<open>The image\<close>

text \<open>What the file says the picture is: \<open>y\<close> counts from the top.\<close>

definition file_fh :: "bytes \<Rightarrow> bmp_file_header" where
  "file_fh f = dec_bmp_file_header (slice 0 14 f)"

definition file_ih :: "bytes \<Rightarrow> bmp_info_header" where
  "file_ih f = dec_bmp_info_header (slice 14 40 f)"

definition row_offset :: "bytes \<Rightarrow> nat \<Rightarrow> nat" where
  "row_offset f y = unat (bf_data_offset (file_fh f)) +
     (if bi_height (file_ih f) <s 0 then y else unat (bmp_rows_count (file_ih f)) - 1 - y) * unat (bmp_row_size (file_ih f))"

definition picture :: "bytes \<Rightarrow> nat \<Rightarrow> nat \<Rightarrow> color" where
  "picture f x y =
     (let start = row_offset f y; colour = \<lambda>k. graphics_rgb (f ! (k + 2)) (f ! (k + 1)) (f ! k) in
      if bi_bpp (file_ih f) = 8 then colour (14 + unat (bi_header_size (file_ih f)) + 4 * unat (f ! (start + x)))
      else colour (start + 3 * x))"

text \<open>A well-formed image: uncompressed, the palette and every row inside the file.\<close>

definition bmp_ok :: "bytes \<Rightarrow> bool" where
  "bmp_ok f \<longleftrightarrow> 54 \<le> length f \<and> bf_signature (file_fh f) = 0x4D42 \<and> 40 \<le> bi_header_size (file_ih f) \<and>
     0 <s bi_width (file_ih f) \<and> bi_height (file_ih f) \<noteq> 0 \<and> bi_compression (file_ih f) = 0 \<and>
     unat (bi_width (file_ih f)) * unat (bi_bpp (file_ih f)) + 31 < 2 ^ 32 \<and>
     unat (bf_data_offset (file_fh f)) + unat (bmp_rows_count (file_ih f)) * unat (bmp_row_size (file_ih f)) \<le> length f \<and>
     (bi_bpp (file_ih f) = 24 \<or> bi_bpp (file_ih f) = 8 \<and> 14 + unat (bi_header_size (file_ih f)) + 1024 \<le> length f)"

section \<open>Rows\<close>

lemma slice_nth: "off + n \<le> length f \<Longrightarrow> k < n \<Longrightarrow> slice off n f ! k = f ! (off + k)"
  by (simp add: slice_def)

text \<open>The pixel loop draws the row from where it starts to the right border.\<close>

lemma draw_row_ok:
  assumes "gfx_ok g" "\<And>x. x < w \<Longrightarrow> bmp_row_color row bpp pal (of_nat x) = Some (col x)" "w \<le> 2 ^ 32"
    "unat dx + a < 2 ^ 32"
  shows "\<exists>g'. bmp_draw_row row bpp pal dx sy [a..<w] g = Some g' \<and> gfx_ok g' \<and> on_screen g' = on_screen g \<and>
    graphics_height g' = graphics_height g \<and>
    (\<forall>px py. graphics_get_pixel px py g' =
       (if py = sy \<and> dx \<le> px \<and> a \<le> unat (px - dx) \<and> unat (px - dx) < w \<and> on_screen g px py then col (unat (px - dx))
        else graphics_get_pixel px py g))"
  using assms(1,4)
proof (induction "w - a" arbitrary: a g)
  case 0
  then show ?case by (auto simp: upt_conv_Nil)
next
  case (Suc k)
  then have aw: "a < w" by simp
  have ua: "unat (dx + of_nat a) = unat dx + a"
    using Suc.prems(2) by (simp add: unat_plus_small unat_of_nat_small)
  show ?case
  proof (cases "graphics_width g \<le> dx + of_nat a")
    case True
    have "\<not> (dx \<le> px \<and> a \<le> unat (px - dx) \<and> on_screen g px py)" for px py
    proof
      assume *: "dx \<le> px \<and> a \<le> unat (px - dx) \<and> on_screen g px py"
      then have "unat (px - dx) = unat px - unat dx" "unat dx \<le> unat px" by (simp_all add: unat_minus_le word_le_nat_alt)
      then have "unat (dx + of_nat a) \<le> unat px" using * unfolding ua by linarith
      then show False using True * by (simp add: on_screen_def word_le_nat_alt word_less_nat_alt)
    qed
    then show ?thesis using True Suc.prems(1) aw
      by (auto simp: upt_conv_Cons graphics_get_width_def)
  next
    case False
    define g1 where "g1 = graphics_set_pixel (dx + of_nat a) sy (col a) g"
    have g1: "gfx_ok g1" "on_screen g1 = on_screen g" "graphics_height g1 = graphics_height g"
      using Suc.prems(1) by (simp_all add: g1_def)
    have W: "unat (graphics_width g) \<le> 1280" using Suc.prems(1) by (simp add: gfx_ok_def)
    have k: "k = w - Suc a" using Suc.hyps(2) by simp
    have "unat dx + Suc a < 2 ^ 32" using False ua W by (simp add: word_le_nat_alt)
    from Suc.hyps(1) [OF k g1(1) this] obtain g' where
      g': "bmp_draw_row row bpp pal dx sy [Suc a..<w] g1 = Some g'" "gfx_ok g'" "on_screen g' = on_screen g1"
      "graphics_height g' = graphics_height g1"
      "\<forall>px py. graphics_get_pixel px py g' =
         (if py = sy \<and> dx \<le> px \<and> Suc a \<le> unat (px - dx) \<and> unat (px - dx) < w \<and> on_screen g1 px py then col (unat (px - dx))
          else graphics_get_pixel px py g1)" by blast
    have here: "px = dx + of_nat a \<longleftrightarrow> dx \<le> px \<and> unat (px - dx) = a" for px
    proof
      assume p: "px = dx + of_nat a"
      then have "dx \<le> px" using ua by (simp add: word_le_nat_alt)
      then have "unat (px - dx) = unat px - unat dx" by (rule unat_minus_le)
      then show "dx \<le> px \<and> unat (px - dx) = a" using p ua \<open>dx \<le> px\<close> by simp
    next
      assume "dx \<le> px \<and> unat (px - dx) = a"
      then show "px = dx + of_nat a" by auto
    qed
    have shown: "graphics_get_pixel px py g1 =
        (if py = sy \<and> (dx \<le> px \<and> unat (px - dx) = a) \<and> on_screen g px py then col a else graphics_get_pixel px py g)" for px py
      unfolding here [symmetric] g1_def get_set_pixel [OF Suc.prems(1)] by auto
    have "graphics_get_pixel px py g' =
        (if py = sy \<and> dx \<le> px \<and> a \<le> unat (px - dx) \<and> unat (px - dx) < w \<and> on_screen g px py then col (unat (px - dx))
         else graphics_get_pixel px py g)" for px py
      unfolding g'(5) [rule_format] g1(2) shown using aw by (auto simp: not_less_eq_eq)
    moreover have "bmp_draw_row row bpp pal dx sy [a..<w] g = Some g'"
      using False aw assms(2) [OF aw] g'(1) by (simp add: upt_conv_Cons graphics_get_width_def g1_def)
    ultimately show ?thesis using g'(2-4) g1 by auto
  qed
qed

text \<open>The sizes of a well-formed image as numbers.\<close>

lemma bmp_okD:
  assumes "bmp_ok f"
  shows "unat (bmp_row_size (file_ih f)) = (unat (bi_width (file_ih f)) * unat (bi_bpp (file_ih f)) + 31) div 32 * 4"
    "bi_bpp (file_ih f) = 24 \<or> bi_bpp (file_ih f) = 8"
    "unat (bi_width (file_ih f)) * unat (bi_bpp (file_ih f)) \<le> 8 * unat (bmp_row_size (file_ih f))"
    "y < unat (bmp_rows_count (file_ih f)) \<Longrightarrow> row_offset f y + unat (bmp_row_size (file_ih f)) \<le> length f"
    "0 < unat (bmp_rows_count (file_ih f))"
proof -
  let ?w = "bi_width (file_ih f)" and ?b = "bi_bpp (file_ih f)" and ?H = "unat (bmp_rows_count (file_ih f))"
  let ?n = "unat ?w * unat ?b"
  have n: "?n + 31 < 2 ^ 32" using assms by (simp add: bmp_ok_def)
  then have "unat (?w * ucast ?b + 31) = ?n + 31" by (simp add: unat_word_ariths)
  then have q: "unat ((?w * ucast ?b + 31) div 32) = (?n + 31) div 32" by (simp only: unat_div_distrib) simp
  have "(?n + 31) div 32 * 4 < 2 ^ 32" using n by simp
  then show rs: "unat (bmp_row_size (file_ih f)) = (?n + 31) div 32 * 4"
    unfolding bmp_row_size_def unat_word_ariths(2) q by simp
  then show "?n \<le> 8 * unat (bmp_row_size (file_ih f))" by simp
  show "?b = 24 \<or> ?b = 8" using assms by (auto simp: bmp_ok_def)
  have "bmp_rows_count (file_ih f) \<noteq> 0" using assms by (auto simp: bmp_ok_def bmp_rows_count_def)
  then show "0 < ?H" by (simp add: unat_gt_0)
  have total: "unat (bf_data_offset (file_fh f)) + ?H * unat (bmp_row_size (file_ih f)) \<le> length f" using assms by (simp add: bmp_ok_def)
  show "row_offset f y + unat (bmp_row_size (file_ih f)) \<le> length f" if "y < ?H"
  proof -
    let ?r = "if bi_height (file_ih f) <s 0 then y else ?H - 1 - y"
    have "Suc ?r \<le> ?H" using that by auto
    then have "Suc ?r * unat (bmp_row_size (file_ih f)) \<le> ?H * unat (bmp_row_size (file_ih f))" by (rule mult_le_mono1)
    then show ?thesis using total by (simp add: row_offset_def)
  qed
qed

lemma bmp_row_color_ok:
  assumes "bmp_ok f" "x < unat (bi_width (file_ih f))" "y < unat (bmp_rows_count (file_ih f))"
    "bi_bpp (file_ih f) = 8 \<Longrightarrow> pal = bmp_palette (slice (14 + unat (bi_header_size (file_ih f))) 1024 f)"
  shows "bmp_row_color (slice (row_offset f y) (unat (bmp_row_size (file_ih f))) f) (bi_bpp (file_ih f)) pal (of_nat x) = Some (picture f x y)"
proof -
  note B = bmp_okD [OF assms(1)]
  let ?rs = "unat (bmp_row_size (file_ih f))" and ?w = "unat (bi_width (file_ih f))"
  have x: "unat (of_nat x :: u32) = x" using assms(2) u32_lt [of "bi_width (file_ih f)"] by (intro unat_of_nat_small) simp
  note fit = B(4) [OF assms(3)]
  from B(2) show ?thesis
  proof
    assume b: "bi_bpp (file_ih f) = 24"
    have n: "unat (24 :: u16) = 24" by simp
    have w: "?w * 3 \<le> ?rs" using B(3) unfolding b n by linarith
    then have "3 * x + 2 < ?rs" using assms(2) by linarith
    moreover have "?w * 24 + 31 < 2 ^ 32" using assms(1) b n unfolding bmp_ok_def by auto
    then have "x * 3 < 2 ^ 32" using assms(2) by linarith
    then have "unat (of_nat x * 3 :: u32) = 3 * x" using x by (simp add: unat_word_ariths)
    ultimately show ?thesis
      using b fit by (simp add: bmp_row_color_def slice_nth rgb_to_color_def picture_def Let_def add.assoc)
  next
    assume b: "bi_bpp (file_ih f) = 8"
    have n: "unat (8 :: u16) = 8" by simp
    have "?w \<le> ?rs" using B(3) unfolding b n by linarith
    then have xr: "x < ?rs" using assms(2) by linarith
    have p: "14 + unat (bi_header_size (file_ih f)) + 1024 \<le> length f" using assms(1) b by (simp add: bmp_ok_def)
    define v where "v = unat (f ! (row_offset f y + x))"
    have v: "v < 256" unfolding v_def by (rule u8_lt)
    then have "pal ! v = graphics_rgb (slice (14 + unat (bi_header_size (file_ih f))) 1024 f ! (4 * v + 2))
        (slice (14 + unat (bi_header_size (file_ih f))) 1024 f ! (4 * v + 1)) (slice (14 + unat (bi_header_size (file_ih f))) 1024 f ! (4 * v))"
      using assms(4) [OF b] by (simp add: bmp_palette_def rgb_to_color_def del: upt_rec_numeral)
    then have "pal ! v = picture f x y"
      using v p b by (simp add: slice_nth picture_def v_def Let_def add.assoc)
    then show ?thesis
      using b xr fit x by (simp add: bmp_row_color_def slice_nth v_def)
  qed
qed

section \<open>The whole picture\<close>

context reliable_dev
begin

text \<open>A read of a part of a file.\<close>

lemma read_part:
  assumes "invar d" "fs_wf (sec d)" "idx < TETFS_MAX_INODES" "i_type (inode_at (sec d) idx) = TETFS_TYPE_FILE"
    "f = contents (sec d) (inode_at (sec d) idx)" "unat off + unat len \<le> length f"
  obtains d' where "tetfs_read D idx off len d = ((sint len, slice (unat off) (unat len) f), d')" "invar d'" "sec d' = sec d"
proof -
  have use: "in_use (sec d) idx" using assms(4) by simp
  have len: "length f \<le> 524288"
    using length_contents [OF assms(2,3) use] fs_wfD(3,5) [OF assms(2,3) use] assms(5) by simp
  have "unat off + unat len < 4294967296" using assms(6) len by simp
  moreover have "sint len = int (unat len)" using assms(6) len by (intro sint_small) simp
  moreover have "length (slice (unat off) (unat len) f) = unat len" using assms(6) by simp
  ultimately show ?thesis using tetfs_read_ok [OF assms(1-4), of off len] assms(5) that by (auto simp: Let_def)
qed

text \<open>The common beginning of the two operations: the look-up and the headers.\<close>

lemma headers_read:
  assumes "invar d" "fs_wf (sec d)" "terminated nm" "looks_up_in (sec d) parent (cstr nm) i"
    "i_type (inode_at (sec d) i) = TETFS_TYPE_FILE" "f = contents (sec d) (inode_at (sec d) i)" "54 \<le> length f"
  obtains d1 d2 d3 d4 where "tetfs_find D nm parent d = (int (unat i), d1)" "tetfs_read_inode D i d1 = (Some (inode_at (sec d) i), d2)"
    "tetfs_read D i 0 14 d2 = ((14, slice 0 14 f), d3)" "tetfs_read D i 14 40 d3 = ((40, slice 14 40 f), d4)" "invar d4" "sec d4 = sec d"
proof -
  have i: "i < TETFS_MAX_INODES" using assms(4) by (simp add: looks_up_in_def)
  obtain d1 where d1: "tetfs_find D nm parent d = (int (unat i), d1)" "invar d1" "sec d1 = sec d"
    using looks_up_find [OF assms(1-4)] by blast
  obtain d2 where d2: "tetfs_read_inode D i d1 = (Some (inode_at (sec d) i), d2)" "invar d2" "sec d2 = sec d"
    using read_inode_ok [OF d1(2) i] d1(3) by metis
  obtain d3 where d3: "tetfs_read D i 0 14 d2 = ((14, slice 0 14 f), d3)" "invar d3" "sec d3 = sec d"
    using read_part [OF d2(2) _ i, of f 0 14] d2(3) assms(2,5,6,7) by auto
  obtain d4 where d4: "tetfs_read D i 14 40 d3 = ((40, slice 14 40 f), d4)" "invar d4" "sec d4 = sec d"
    using read_part [OF d3(2) _ i, of f 14 40] d3(3) assms(2,5,6,7) by auto
  show ?thesis using that d1(1) d2(1) d3(1) d4 by blast
qed

lemma bmp_info_ok:
  assumes "invar d" "fs_wf (sec d)" "terminated nm" "nm ! 0 \<noteq> 0" "looks_up_in (sec d) parent (cstr nm) i"
    "i_type (inode_at (sec d) i) = TETFS_TYPE_FILE" "f = contents (sec d) (inode_at (sec d) i)" "bmp_ok f"
  shows "\<exists>d'. bmp_info_from_file D (Some nm) parent True d = ((0, Some \<lparr>bm_width = bi_width (file_ih f),
       bm_height = bmp_rows_count (file_ih f), bm_bpp = bi_bpp (file_ih f), bm_compression = 0,
       bm_data_offset = bf_data_offset (file_fh f), bm_image_size = bi_image_size (file_ih f)\<rparr>), d') \<and> invar d' \<and> sec d' = sec d"
proof -
  have i: "i < TETFS_MAX_INODES" using assms(5) by (simp add: looks_up_in_def)
  have len: "54 \<le> length f" using assms(8) by (simp add: bmp_ok_def)
  obtain d1 d2 d3 d4 where d: "tetfs_find D nm parent d = (int (unat i), d1)" "tetfs_read_inode D i d1 = (Some (inode_at (sec d) i), d2)"
    "tetfs_read D i 0 14 d2 = ((14, slice 0 14 f), d3)" "tetfs_read D i 14 40 d3 = ((40, slice 14 40 f), d4)" "invar d4" "sec d4 = sec d"
    by (rule headers_read [OF assms(1-3,5-7) len])
  have "in_use (sec d) i" using assms(6) by simp
  then have "\<not> i_size (inode_at (sec d) i) < 54"
    using length_contents [OF assms(2) i] len assms(7) by (simp add: word_less_nat_alt)
  moreover have "bf_signature (file_fh f) = 0x4D42" "\<not> bi_header_size (file_ih f) < 40"
    "\<not> (bi_width (file_ih f) \<le>s 0 \<or> bi_height (file_ih f) = 0)" "bi_compression (file_ih f) = 0"
    using assms(8) by (auto simp: bmp_ok_def signed.not_le)
  ultimately show ?thesis using assms(4,6) d
    by (simp add: bmp_info_from_file_def Let_def file_fh_def [symmetric] file_ih_def [symmetric])
qed

lemma draw_rows_ok:
  assumes wf: "fs_wf S" and idx: "idx < TETFS_MAX_INODES" "i_type (inode_at S idx) = TETFS_TYPE_FILE"
    and f: "f = contents S (inode_at S idx)" "bmp_ok f" "fh = file_fh f" "ih = file_ih f"
    and pal: "bi_bpp ih = 8 \<Longrightarrow> pal = bmp_palette (slice (14 + unat (bi_header_size ih)) 1024 f)"
    and "gfx_ok g" "invar d" "sec d = S"
  shows "\<exists>d' g'. bmp_draw_rows D idx fh ih (bmp_row_size ih) pal dx dy [b..<unat (bmp_rows_count ih)] (d, g) = Some (True, d', g') \<and>
    invar d' \<and> sec d' = S \<and> gfx_ok g' \<and> on_screen g' = on_screen g \<and>
    (\<forall>px py. graphics_get_pixel px py g' =
       (if dx \<le> px \<and> unat (px - dx) < unat (bi_width ih) \<and> b \<le> unat (py - dy) \<and> unat (py - dy) < unat (bmp_rows_count ih) \<and>
           on_screen g px py
        then picture f (unat (px - dx)) (unat (py - dy)) else graphics_get_pixel px py g))"
  using assms(9-11)
proof (induction "unat (bmp_rows_count ih) - b" arbitrary: b g d)
  case 0
  then show ?case by (auto simp: upt_conv_Nil)
next
  case (Suc k)
  let ?H = "unat (bmp_rows_count ih)" and ?rs = "bmp_row_size ih"
  have bH: "b < ?H" and k: "k = ?H - Suc b" using Suc.hyps(2) by simp_all
  note B = bmp_okD [OF f(2), folded f(4)]
  have use: "in_use S idx" using idx(2) by simp
  have flen: "length f \<le> 524288" using length_contents [OF wf idx(1) use] fs_wfD(3,5) [OF wf idx(1) use] f(1) by simp
  define src where "src = (if bi_height ih <s 0 then of_nat b else bmp_rows_count ih - 1 - of_nat b)"
  have ub: "unat (of_nat b :: u32) = b" using bH u32_lt [of "bmp_rows_count ih"] by (intro unat_of_nat_small) simp
  have "unat (bmp_rows_count ih - 1) = ?H - 1" using bH by (intro unat_minus_one) auto
  then have "unat (bmp_rows_count ih - 1 - of_nat b) = ?H - 1 - b"
    using ub bH by (subst unat_minus_le) (simp_all add: word_le_nat_alt)
  then have usrc: "unat src = (if bi_height ih <s 0 then b else ?H - 1 - b)" using ub by (simp add: src_def)
  have fit: "row_offset f b + unat ?rs \<le> length f" using B(4) [OF bH] .
  have off: "unat (bf_data_offset fh + src * ?rs) = row_offset f b"
  proof -
    have le: "unat (bf_data_offset fh) + unat src * unat ?rs = row_offset f b"
      by (simp add: row_offset_def usrc f(3,4))
    then have "unat (src * ?rs) = unat src * unat ?rs"
      using fit flen by (subst unat_mult_lem [symmetric]) simp
    then show ?thesis using le fit flen by (subst unat_plus_small) simp_all
  qed
  obtain d1 where d1: "tetfs_read D idx (bf_data_offset fh + src * ?rs) ?rs d = ((sint ?rs, slice (row_offset f b) (unat ?rs) f), d1)"
      "invar d1" "sec d1 = S"
    using read_part [of d idx f "bf_data_offset fh + src * ?rs" ?rs] Suc.prems wf idx f(1) fit unfolding off by blast
  have cols: "[b..<?H] = b # [Suc b..<?H]" using bH by (simp add: upt_conv_Cons)
  have there: "py = dy + of_nat b \<longleftrightarrow> unat (py - dy) = b" for py
    using ub by auto
  show ?case
  proof (cases "graphics_get_height g \<le> dy + of_nat b")
    case True
    from Suc.hyps(1) [OF k Suc.prems(1) d1(2,3)] obtain d' g' where
      g': "bmp_draw_rows D idx fh ih ?rs pal dx dy [Suc b..<?H] (d1, g) = Some (True, d', g')" "invar d'" "sec d' = S" "gfx_ok g'"
        "on_screen g' = on_screen g"
      "\<forall>px py. graphics_get_pixel px py g' =
         (if dx \<le> px \<and> unat (px - dx) < unat (bi_width ih) \<and> Suc b \<le> unat (py - dy) \<and> unat (py - dy) < ?H \<and> on_screen g px py
          then picture f (unat (px - dx)) (unat (py - dy)) else graphics_get_pixel px py g)" by blast
    have "\<not> on_screen g px py" if "unat (py - dy) = b" for px py
      using that True by (auto simp: there [symmetric] on_screen_def graphics_get_height_def)
    then have "Suc b \<le> unat (py - dy) \<and> unat (py - dy) < ?H \<and> on_screen g px py \<longleftrightarrow> b \<le> unat (py - dy) \<and> unat (py - dy) < ?H \<and> on_screen g px py"
      for px py by (metis Suc_leD le_neq_implies_less Suc_leI)
    then show ?thesis using g' d1(1) True unfolding cols src_def by (intro exI [of _ d'] exI [of _ g']) simp
  next
    case False
    have "\<And>x. x < unat (bi_width ih) \<Longrightarrow> bmp_row_color (slice (row_offset f b) (unat ?rs) f) (bi_bpp ih) pal (of_nat x) = Some (picture f x b)"
      using bmp_row_color_ok [OF f(2) _ bH [unfolded f(4)], folded f(4)] pal by blast
    from draw_row_ok [OF Suc.prems(1) this, of "unat (bi_width ih)" dx 0 "dy + of_nat b"] u32_lt [of "bi_width ih"] u32_lt [of dx] obtain g1 where
      g1: "bmp_draw_row (slice (row_offset f b) (unat ?rs) f) (bi_bpp ih) pal dx (dy + of_nat b) [0..<unat (bi_width ih)] g = Some g1"
        "gfx_ok g1" "on_screen g1 = on_screen g"
      "\<forall>px py. graphics_get_pixel px py g1 =
         (if py = dy + of_nat b \<and> dx \<le> px \<and> unat (px - dx) < unat (bi_width ih) \<and> on_screen g px py then picture f (unat (px - dx)) b
          else graphics_get_pixel px py g)" by auto
    from Suc.hyps(1) [OF k g1(2) d1(2,3)] obtain d' g' where
      g': "bmp_draw_rows D idx fh ih ?rs pal dx dy [Suc b..<?H] (d1, g1) = Some (True, d', g')" "invar d'" "sec d' = S" "gfx_ok g'"
        "on_screen g' = on_screen g1"
      "\<forall>px py. graphics_get_pixel px py g' =
         (if dx \<le> px \<and> unat (px - dx) < unat (bi_width ih) \<and> Suc b \<le> unat (py - dy) \<and> unat (py - dy) < ?H \<and> on_screen g1 px py
          then picture f (unat (px - dx)) (unat (py - dy)) else graphics_get_pixel px py g1)" by blast
    have "graphics_get_pixel px py g' =
         (if dx \<le> px \<and> unat (px - dx) < unat (bi_width ih) \<and> b \<le> unat (py - dy) \<and> unat (py - dy) < ?H \<and> on_screen g px py
          then picture f (unat (px - dx)) (unat (py - dy)) else graphics_get_pixel px py g)" for px py
      unfolding g'(6) [rule_format] g1(3) unfolding g1(4) [rule_format] there using bH by auto
    moreover have "bmp_draw_rows D idx fh ih ?rs pal dx dy [b..<?H] (d, g) = Some (True, d', g')"
      using g'(1) g1(1) d1(1) False unfolding cols src_def by simp
    ultimately show ?thesis using g'(2-5) g1(3) by (intro exI [of _ d'] exI [of _ g']) simp
  qed
qed

end

text \<open>
  C34. A bitmap is drawn exactly: for a well-formed uncompressed image of 8 or 24 bits per pixel, stored from the bottom or
  from the top, bmp_draw_from_file at (dx, dy) gives every cell of the screen that the picture covers the colour the file
  has for it and leaves all other cells alone (columns are clipped at the right border, rows wrap at 2^32), then presents
  the screen; the disk is unchanged and the row buffer given back to the heap. When there is no memory for the buffer the
  result is -12 and nothing changes.
\<close>
theorem bitmap_drawn_exactly:
  assumes "reliable_dev D sec invar" "invar d" "fs_wf (sec d)" "terminated nm" "nm ! 0 \<noteq> 0" "looks_up_in (sec d) parent (cstr nm) i"
    "i_type (inode_at (sec d) i) = TETFS_TYPE_FILE" "f = contents (sec d) (inode_at (sec d) i)" "bmp_ok f" "heap_inv h" "gfx_ok g"
  shows "\<exists>r d' h' g'. bmp_draw_from_file D (Some nm) parent dx dy (d, h, g) = Some (r, d', h', g') \<and> invar d' \<and> sec d' = sec d \<and>
    (if heap_alloc (bmp_row_size (file_ih f)) h = None then r = -12 \<and> h' = h \<and> g' = g
     else r = 0 \<and> heap_inv h' \<and> heap_live h' = heap_live h \<and>
       (\<exists>shown. g' = graphics_present shown \<and> (\<forall>px py. graphics_get_pixel px py shown =
         (if dx \<le> px \<and> unat (px - dx) < unat (bi_width (file_ih f)) \<and> unat (py - dy) < unat (bmp_rows_count (file_ih f)) \<and> on_screen g px py
          then picture f (unat (px - dx)) (unat (py - dy)) else graphics_get_pixel px py g))))"
proof -
  let ?S = "sec d" and ?fh = "file_fh f" and ?ih = "file_ih f"
  have i: "i < TETFS_MAX_INODES" using assms(6) by (simp add: looks_up_in_def)
  have len: "54 \<le> length f" using assms(9) by (simp add: bmp_ok_def)
  obtain d1 d2 d3 d4 where d: "tetfs_find D nm parent d = (int (unat i), d1)" "tetfs_read_inode D i d1 = (Some (inode_at ?S i), d2)"
    "tetfs_read D i 0 14 d2 = ((14, slice 0 14 f), d3)" "tetfs_read D i 14 40 d3 = ((40, slice 14 40 f), d4)" and d4: "invar d4" "sec d4 = ?S"
    by (rule reliable_dev.headers_read [OF assms(1-4,6-8) len])
  have hd: "bf_signature ?fh = 0x4D42" "\<not> bi_header_size ?ih < 40" "\<not> (bi_width ?ih \<le>s 0 \<or> bi_height ?ih = 0)" "bi_compression ?ih = 0"
      "\<not> (bi_bpp ?ih \<noteq> 8 \<and> bi_bpp ?ih \<noteq> 24)"
    using assms(9) by (auto simp: bmp_ok_def signed.not_le)
  obtain row h1 where km: "kmalloc (bmp_row_size ?ih) h = Some (row, h1)" using kmalloc_returns [OF assms(10)] by blast
  show ?thesis
  proof (cases "row = 0")
    case True
    have "h1 = h" using kmalloc_none_live km True assms(10) by (auto simp: heap_inv_def)
    then show ?thesis using assms(5) d d4 hd km True assms(7)
      by (simp add: bmp_draw_from_file_def Let_def file_fh_def [symmetric] file_ih_def [symmetric] heap_alloc_def)
  next
    case False
    then have ha: "heap_alloc (bmp_row_size ?ih) h = Some (row, h1)" using km by (simp add: heap_alloc_def)
    note H = heap_alloc_live [OF assms(10) ha]
    have fr: "heap_inv (kfree row h1)" "heap_live (kfree row h1) = heap_live h"
      using kfree_live [OF H(1), of row] H(2,3) by auto
    obtain pal d5 where d5: "bmp_read_palette D i ?ih d4 = (Some pal, d5)" "invar d5" "sec d5 = ?S"
      "bi_bpp ?ih = 8 \<Longrightarrow> pal = bmp_palette (slice (14 + unat (bi_header_size ?ih)) 1024 f)"
    proof (cases "bi_bpp ?ih = 8")
      case True
      have fit: "14 + unat (bi_header_size ?ih) + 1024 \<le> length f" using assms(9) True by (simp add: bmp_ok_def)
      have "in_use ?S i" using assms(7) by simp
      then have "length f \<le> 524288" using length_contents [OF assms(3) i] fs_wfD(3,5) [OF assms(3) i] assms(8) by simp
      then have "unat (14 + bi_header_size ?ih) = 14 + unat (bi_header_size ?ih)" using fit by (subst unat_plus_small) simp_all
      then obtain d5 where "tetfs_read D i (14 + bi_header_size ?ih) 1024 d4
          = ((1024, slice (14 + unat (bi_header_size ?ih)) 1024 f), d5)" "invar d5" "sec d5 = ?S"
        using reliable_dev.read_part [OF assms(1) d4(1) _ i, of f "14 + bi_header_size ?ih" 1024] d4(2) assms(3,7,8) fit by auto
      then show ?thesis using True by (intro that [of "bmp_palette (slice (14 + unat (bi_header_size ?ih)) 1024 f)" d5])
          (simp_all add: bmp_read_palette_def)
    qed (use d4 in \<open>auto simp: bmp_read_palette_def intro: that\<close>)
    from reliable_dev.draw_rows_ok [OF assms(1,3) i assms(7,8,9) refl refl d5(4) assms(11) d5(2,3), of dx dy 0] obtain d6 g1 where
      g1: "bmp_draw_rows D i ?fh ?ih (bmp_row_size ?ih) pal dx dy [0..<unat (bmp_rows_count ?ih)] (d5, g) = Some (True, d6, g1)"
        "invar d6" "sec d6 = ?S"
      "\<forall>px py. graphics_get_pixel px py g1 =
         (if dx \<le> px \<and> unat (px - dx) < unat (bi_width ?ih) \<and> unat (py - dy) < unat (bmp_rows_count ?ih) \<and> on_screen g px py
          then picture f (unat (px - dx)) (unat (py - dy)) else graphics_get_pixel px py g)" by auto
    have "bmp_draw_from_file D (Some nm) parent dx dy (d, h, g) = Some (0, d6, kfree row h1, graphics_present g1)"
      using assms(5,7) d hd km False d5(1) g1(1)
      by (simp add: bmp_draw_from_file_def Let_def file_fh_def [symmetric] file_ih_def [symmetric])
    then show ?thesis using g1(2-4) fr ha by (intro exI) auto
  qed
qed

text \<open>The bundled picture of \<open>kernel/user/appseed.c\<close>.\<close>

definition demo_bmp_2x2 :: bytes where
  "demo_bmp_2x2 =
    [0x42, 0x4D, 0x46, 0x00, 0x00, 0x00, 0x00, 0x00, 0x00, 0x00, 0x36, 0x00, 0x00, 0x00, 0x28, 0x00,
     0x00, 0x00, 0x02, 0x00, 0x00, 0x00, 0x02, 0x00, 0x00, 0x00, 0x01, 0x00, 0x18, 0x00, 0x00, 0x00,
     0x00, 0x00, 0x10, 0x00, 0x00, 0x00, 0x13, 0x0B, 0x00, 0x00, 0x13, 0x0B, 0x00, 0x00, 0x00, 0x00,
     0x00, 0x00, 0x00, 0x00, 0x00, 0x00, 0xFF, 0x00, 0x00, 0x00, 0xFF, 0x00, 0x00, 0x00, 0x00, 0x00,
     0x00, 0xFF, 0xFF, 0xFF, 0xFF, 0x00]"

lemma demo_bmp_headers:
  "length demo_bmp_2x2 = 70" "bmp_ok demo_bmp_2x2" "bi_width (file_ih demo_bmp_2x2) = 2" "bmp_rows_count (file_ih demo_bmp_2x2) = 2"
  "bmp_row_size (file_ih demo_bmp_2x2) = 8" "picture demo_bmp_2x2 0 1 = 0x0000FF" "picture demo_bmp_2x2 1 0 = 0xFFFFFF"
proof -
  have fh: "file_fh demo_bmp_2x2 = \<lparr>bf_signature = 0x4D42, bf_file_size = 70, bf_reserved1 = 0, bf_reserved2 = 0, bf_data_offset = 54\<rparr>"
    by (simp add: file_fh_def dec_bmp_file_header_def demo_bmp_2x2_def slice_def rd16_def rd32_def)
  have ih: "file_ih demo_bmp_2x2 = \<lparr>bi_header_size = 40, bi_width = 2, bi_height = 2, bi_planes = 1, bi_bpp = 24, bi_compression = 0,
      bi_image_size = 16, bi_x_ppm = 2835, bi_y_ppm = 2835, bi_colors_used = 0, bi_colors_important = 0\<rparr>"
    by (simp add: file_ih_def dec_bmp_info_header_def demo_bmp_2x2_def slice_def rd16_def rd32_def)
  have pos: "\<not> (2 :: u32) <s 0" "(0 :: u32) <s 2" by (simp_all add: word_sless_alt sint_cases)
  show len: "length demo_bmp_2x2 = 70" by (simp add: demo_bmp_2x2_def)
  show w: "bi_width (file_ih demo_bmp_2x2) = 2" by (simp add: ih)
  show rc: "bmp_rows_count (file_ih demo_bmp_2x2) = 2" by (simp add: ih bmp_rows_count_def pos)
  show rs: "bmp_row_size (file_ih demo_bmp_2x2) = 8" by (simp add: ih bmp_row_size_def)
  show "bmp_ok demo_bmp_2x2" unfolding bmp_ok_def rs rc using len pos by (simp add: fh ih)
  have ro: "row_offset demo_bmp_2x2 1 = 54" "row_offset demo_bmp_2x2 0 = 62"
    unfolding row_offset_def rc rs using pos by (simp_all add: fh ih)
  have bpp: "bi_bpp (file_ih demo_bmp_2x2) = 24" by (simp add: ih)
  show "picture demo_bmp_2x2 0 1 = 0x0000FF" "picture demo_bmp_2x2 1 0 = 0xFFFFFF"
    unfolding picture_def ro Let_def bpp by (simp_all add: graphics_rgb_def demo_bmp_2x2_def)
qed

lemma bitmap_drawn_exactly_witness:
  "\<exists>(d :: sim ata_state) d' h' g'. bmp_draw_from_file adev (Some name_a) 0 10 20 (d, heap_boot, gfx_boot) = Some (0, d', h', graphics_present g') \<and>
     graphics_get_pixel 10 21 g' = 0x0000FF \<and> graphics_get_pixel 11 20 g' = 0xFFFFFF \<and> heap_live h' = {}"
proof -
  obtain i d where d: "sim_ok d" "fs_wf (sim_sec d)" "looks_up (sim_sec d) (cstr name_a) i"
    "i_type (inode_at (sim_sec d) i) = TETFS_TYPE_FILE" "contents (sim_sec d) (inode_at (sim_sec d) i) = demo_bmp_2x2"
    by (rule file_on_disk [of demo_bmp_2x2]) (simp_all add: demo_bmp_headers(1))
  have ok: "gfx_ok gfx_boot" by (simp add: gfx_ok_def gfx_boot_def)
  have "heap_alloc 8 heap_boot \<noteq> None"
    by (simp add: heap_alloc_def kmalloc_def heap_boot_def heap_init_def kmalloc_walk.simps)
  with bitmap_drawn_exactly [OF reliable_adev d(1,2) name_a_ok(1,3) d(3,4) d(5) [symmetric] demo_bmp_headers(2) heap_inv_boot ok, of 10 20]
  obtain d' h' g' where
    "bmp_draw_from_file adev (Some name_a) 0 10 20 (d, heap_boot, gfx_boot) = Some (0, d', h', graphics_present g')" "heap_live h' = {}"
    "\<forall>px py. graphics_get_pixel px py g' =
         (if 10 \<le> px \<and> unat (px - 10) < 2 \<and> unat (py - 20) < 2 \<and> on_screen gfx_boot px py
          then picture demo_bmp_2x2 (unat (px - 10)) (unat (py - 20)) else graphics_get_pixel px py gfx_boot)"
    by (auto simp: demo_bmp_headers(3-5) heap_live_boot)
  moreover have "on_screen gfx_boot 10 21" "on_screen gfx_boot 11 20" by (simp_all add: on_screen_def gfx_boot_def)
  ultimately show ?thesis using demo_bmp_headers(6,7) by (intro exI [of _ d] exI [of _ d'] exI [of _ h'] exI [of _ g']) simp
qed

end
