(* ===== verification/Framebuffer.thy ===== *)
theory Framebuffer
  imports Kheap Graphics
begin

text \<open>
  The raw frame buffer of \<open>kernel/graphics/framebuffer.c\<close>: a structure and a byte buffer on the
  kernel heap with 8, 16 or 32 bits per pixel. The state holds the heap, the pointer \<open>gfx_fb\<close>, the
  structures by address and the memory bytes. Copying to the screen is empty in the source.
\<close>

section \<open>The operations\<close>

record framebuffer =
  fb_width :: u32
  fb_height :: u32
  fb_pitch :: u32
  fb_bpp :: u8
  fb_buffer :: u32
  fb_dirty_region :: u32

abbreviation sizeof_framebuffer :: u32 where "sizeof_framebuffer \<equiv> 24"

record fbs =
  fb_heap :: heap
  gfx_fb :: u32
  fb_at :: "u32 \<Rightarrow> framebuffer"
  fb_mem :: "u32 \<Rightarrow> u8"

definition the_fb :: "fbs \<Rightarrow> framebuffer" where
  "the_fb s = fb_at s (gfx_fb s)"

definition gfx_framebuffer_init :: "u16 \<Rightarrow> u16 \<Rightarrow> u8 \<Rightarrow> fbs \<Rightarrow> (int \<times> fbs) option" where
  "gfx_framebuffer_init width height bpp s =
     (let s = (if gfx_fb s \<noteq> 0 then s\<lparr>fb_heap := kfree (gfx_fb s) (kfree (fb_buffer (the_fb s)) (fb_heap s))\<rparr> else s)
      in case kmalloc sizeof_framebuffer (fb_heap s) of
           None \<Rightarrow> None
         | Some (p, h) \<Rightarrow>
             let s = s\<lparr>fb_heap := h, gfx_fb := p\<rparr> in
             if p = 0 then Some (-1, s)
             else
               let pitch = ucast width * (ucast bpp div 8); sz = pitch * ucast height in
               case kmalloc sz h of
                 None \<Rightarrow> None
               | Some (b, h) \<Rightarrow>
                   if b = 0 then Some (-1, s\<lparr>fb_heap := kfree p h, gfx_fb := 0\<rparr>)
                   else Some (0, s\<lparr>fb_heap := h,
                     fb_at := (fb_at s)(p := \<lparr>fb_width = ucast width, fb_height = ucast height, fb_pitch = pitch, fb_bpp = bpp,
                       fb_buffer = b, fb_dirty_region = 0\<rparr>),
                     fb_mem := put_bytes b (replicate (unat sz) 0) (fb_mem s)\<rparr>))"

definition fb_outside :: "u32 \<Rightarrow> u32 \<Rightarrow> fbs \<Rightarrow> bool" where
  "fb_outside x y s \<longleftrightarrow> gfx_fb s = 0 \<or> fb_width (the_fb s) \<le> x \<or> fb_height (the_fb s) \<le> y"

definition fb_offset :: "u32 \<Rightarrow> u32 \<Rightarrow> fbs \<Rightarrow> u32" where
  "fb_offset x y s = y * fb_pitch (the_fb s) + x * (ucast (fb_bpp (the_fb s)) div 8)"

definition gfx_framebuffer_set_pixel :: "u32 \<Rightarrow> u32 \<Rightarrow> u32 \<Rightarrow> fbs \<Rightarrow> fbs" where
  "gfx_framebuffer_set_pixel x y color s =
     (if fb_outside x y s then s
      else let a = fb_buffer (the_fb s) + fb_offset x y s; bpp = fb_bpp (the_fb s) in
        if bpp = 8 then s\<lparr>fb_mem := put_bytes a [ucast color] (fb_mem s)\<rparr>
        else if bpp = 16 then s\<lparr>fb_mem := put_bytes a (le16 (ucast color)) (fb_mem s)\<rparr>
        else if bpp = 32 then s\<lparr>fb_mem := put_bytes a (le32 color) (fb_mem s)\<rparr>
        else s)"

definition gfx_framebuffer_get_pixel :: "u32 \<Rightarrow> u32 \<Rightarrow> fbs \<Rightarrow> u32" where
  "gfx_framebuffer_get_pixel x y s =
     (if fb_outside x y s then 0
      else let a = fb_buffer (the_fb s) + fb_offset x y s; bpp = fb_bpp (the_fb s); bs = map (\<lambda>i. fb_mem s (a + of_nat i)) in
        if bpp = 8 then ucast (fb_mem s a)
        else if bpp = 16 then ucast (rd16 (bs [0..<2]) 0)
        else if bpp = 32 then rd32 (bs [0..<4]) 0
        else 0)"

definition gfx_framebuffer_fill :: "u32 \<Rightarrow> fbs \<Rightarrow> fbs" where
  "gfx_framebuffer_fill color s =
     (if gfx_fb s = 0 then s
      else let f = the_fb s in
        if fb_bpp f = 8
        then s\<lparr>fb_mem := put_bytes (fb_buffer f) (replicate (unat (fb_pitch f * fb_height f)) (ucast color)) (fb_mem s)\<rparr>
        else fold (\<lambda>i. gfx_framebuffer_set_pixel (of_nat i mod fb_width f) (of_nat i div fb_width f) color)
               [0..<unat (fb_width f * fb_height f)] s)"

section \<open>Cells\<close>

text \<open>A buffer that is there, has the layout \<open>gfx_framebuffer_init\<close> gives it and does not wrap.\<close>

definition fb_bytes :: "framebuffer \<Rightarrow> nat" where
  "fb_bytes f = unat (fb_bpp f) div 8"

definition fb_ok :: "fbs \<Rightarrow> bool" where
  "fb_ok s \<longleftrightarrow> gfx_fb s \<noteq> 0 \<and> fb_bpp (the_fb s) \<in> {8, 16, 32} \<and> unat (fb_pitch (the_fb s)) = unat (fb_width (the_fb s)) * fb_bytes (the_fb s) \<and>
     fb_bytes (the_fb s) * (unat (fb_width (the_fb s)) * unat (fb_height (the_fb s))) < 2 ^ 32"

definition fb_cell :: "u32 \<Rightarrow> u32 \<Rightarrow> framebuffer \<Rightarrow> nat" where
  "fb_cell x y f = unat y * unat (fb_width f) + unat x"

lemma fb_bytes_cases: "fb_ok s \<Longrightarrow> fb_bpp (the_fb s) = 8 \<and> fb_bytes (the_fb s) = 1 \<or> fb_bpp (the_fb s) = 16 \<and> fb_bytes (the_fb s) = 2 \<or>
    fb_bpp (the_fb s) = 32 \<and> fb_bytes (the_fb s) = 4"
  by (auto simp: fb_ok_def fb_bytes_def)

lemma cell_inside:
  assumes "\<not> fb_outside x y s"
  shows "fb_cell x y (the_fb s) < unat (fb_width (the_fb s)) * unat (fb_height (the_fb s))"
proof -
  let ?w = "unat (fb_width (the_fb s))" and ?h = "unat (fb_height (the_fb s))"
  have xy: "unat x < ?w" "unat y < ?h" using assms by (simp_all add: fb_outside_def not_le word_less_nat_alt)
  then have "unat y * ?w + unat x < (unat y + 1) * ?w" by simp
  also have "\<dots> \<le> ?h * ?w" using xy by (intro mult_le_mono1) simp
  finally show ?thesis by (simp add: fb_cell_def mult.commute)
qed

lemma cell_eq:
  assumes "\<not> fb_outside x y s" "\<not> fb_outside x' y' s"
  shows "fb_cell x y (the_fb s) = fb_cell x' y' (the_fb s) \<longleftrightarrow> x = x' \<and> y = y'"
proof
  let ?w = "unat (fb_width (the_fb s))"
  assume e: "fb_cell x y (the_fb s) = fb_cell x' y' (the_fb s)"
  have x: "unat x < ?w" "unat x' < ?w" using assms by (simp_all add: fb_outside_def not_le word_less_nat_alt)
  have "(unat y * ?w + unat x) div ?w = unat y" "(unat y' * ?w + unat x') div ?w = unat y'" using x by simp_all
  moreover have "(unat y * ?w + unat x) mod ?w = unat x" "(unat y' * ?w + unat x') mod ?w = unat x'" using x by simp_all
  ultimately have "unat y = unat y'" "unat x = unat x'" using e unfolding fb_cell_def by metis+
  then show "x = x' \<and> y = y'" by (simp only: word_unat_eq_iff)
qed simp

lemma offset_cell:
  assumes "fb_ok s"
  shows "fb_offset x y s = of_nat (fb_bytes (the_fb s) * fb_cell x y (the_fb s))"
proof -
  have n: "ucast (fb_bpp (the_fb s)) div 8 = (of_nat (fb_bytes (the_fb s)) :: u32)"
    using fb_bytes_cases [OF assms] by (elim disjE conjE) simp_all
  have "of_nat (unat (fb_pitch (the_fb s))) = fb_pitch (the_fb s)" by simp
  then have "fb_pitch (the_fb s) = of_nat (unat (fb_width (the_fb s)) * fb_bytes (the_fb s))"
    using assms by (simp only: fb_ok_def)
  then show ?thesis unfolding fb_offset_def n by (simp add: fb_cell_def algebra_simps)
qed

text \<open>Bytes put at one cell of \<open>n\<close> bytes and read at another.\<close>

lemma put_cell:
  assumes "n * c + n \<le> 2 ^ 32" "n * e + n \<le> 2 ^ 32" "i < n" "length bs = n"
  shows "put_bytes (b + of_nat (n * c)) bs m (b + of_nat (n * e) + of_nat i) = (if e = c then bs ! i else m (b + of_nat (n * e) + of_nat i))"
proof -
  let ?d = "b + of_nat (n * e) + of_nat i - (b + of_nat (n * c)) :: u32"
  have "unat ?d = i" if "e = c" using that assms by (simp add: unat_of_nat_small)
  moreover have "n \<le> unat ?d" if ne: "e \<noteq> c"
  proof (cases "c < e")
    case True
    then obtain k where k: "e = c + k" "0 < k" using less_imp_add_positive by blast
    then have d: "?d = of_nat (n * k + i)" by (simp add: algebra_simps)
    have "n * k + i < 2 ^ 32" using assms(2,3) k by (simp add: algebra_simps)
    then have "unat ?d = n * k + i" unfolding d by (simp add: unat_of_nat_small del: of_nat_add of_nat_mult)
    then show ?thesis using k(2) by (cases k) simp_all
  next
    case False
    with ne obtain k where k: "c = e + k" "0 < k" by (metis less_imp_add_positive linorder_neqE_nat)
    have ki: "i < n * k" using assms(3) k(2) by (cases k) simp_all
    then have le: "n * k - i \<le> n * c" "0 < n * k - i" using k by (simp_all add: algebra_simps)
    have "(of_nat (n * k) :: u32) = of_nat (n * k - i + i)" using ki by simp
    then have d: "?d = - of_nat (n * k - i)" using k by (simp add: algebra_simps)
    have m: "n * k - i < 2 ^ 32" using le assms(1,3) by simp
    have "(of_nat (2 ^ 32 - (n * k - i)) :: u32) = of_nat (2 ^ 32) - of_nat (n * k - i)" using m by (intro of_nat_diff) simp
    then have d': "?d = of_nat (2 ^ 32 - (n * k - i))" unfolding d by simp
    have "unat ?d = 2 ^ 32 - (n * k - i)" unfolding d' by (rule unat_of_nat_small) (use le(2) in simp)
    then show ?thesis using le assms(1) by simp
  qed
  ultimately show ?thesis using assms(3,4) by (auto simp: put_bytes_def)
qed

section \<open>Setting and getting\<close>

text \<open>The bytes of a colour, and of a cell.\<close>

definition color_bytes :: "nat \<Rightarrow> u32 \<Rightarrow> bytes" where
  "color_bytes n c = take n (le32 c)"

definition cell_bytes :: "fbs \<Rightarrow> nat \<Rightarrow> bytes" where
  "cell_bytes s k = map (\<lambda>i. fb_mem s (fb_buffer (the_fb s) + of_nat (fb_bytes (the_fb s) * k) + of_nat i)) [0..<fb_bytes (the_fb s)]"

lemma color_bytes_simps: "[ucast c] = color_bytes 1 c" "le16 (ucast c) = color_bytes 2 c" "le32 c = color_bytes 4 c"
  by (auto simp: color_bytes_def le16_def le32_def bit_simps intro!: bit_word_eqI)

lemma set_pixel_cell:
  assumes "fb_ok s"
  shows "gfx_framebuffer_set_pixel x y c s =
    (if fb_outside x y s then s
     else s\<lparr>fb_mem := put_bytes (fb_buffer (the_fb s) + of_nat (fb_bytes (the_fb s) * fb_cell x y (the_fb s)))
       (color_bytes (fb_bytes (the_fb s)) c) (fb_mem s)\<rparr>)"
  using fb_bytes_cases [OF assms] unfolding gfx_framebuffer_set_pixel_def Let_def offset_cell [OF assms] color_bytes_simps
  by (elim disjE conjE) (simp_all del: of_nat_mult)

definition bytes_color :: "bytes \<Rightarrow> u32" where
  "bytes_color bs = rd32 (bs @ replicate 4 0) 0"

lemma bytes_color_simps: "bytes_color [a] = ucast a" "bytes_color [a, b] = ucast (rd16 [a, b] 0)" "bytes_color [a, b, c, d] = rd32 [a, b, c, d] 0"
proof -
  show "bytes_color [a] = ucast a" by (rule bit_word_eqI) (auto simp: bytes_color_def rd32_def bit_simps)
  show "bytes_color [a, b] = ucast (rd16 [a, b] 0)"
    by (rule bit_word_eqI) (auto simp: bytes_color_def rd32_def rd16_def bit_simps dest: bit_imp_le_length)
qed (simp add: bytes_color_def rd32_def)

lemma bytes_color_color: "n \<in> {1, 2, 4} \<Longrightarrow> bytes_color (color_bytes n c) = take_bit (8 * n) c"
proof (elim insertE emptyE)
  assume "n = 4"
  moreover have "bytes_color (le32 c) = c" using rd32_at [of "le32 c @ replicate 4 0" "[]" c "replicate 4 0" 0] by (simp add: bytes_color_def)
  moreover have "take_bit 32 c = c" by (rule bit_word_eqI) (simp add: bit_simps)
  ultimately show ?thesis by (simp add: color_bytes_def le32_def)
next
  assume "n = 1"
  then show ?thesis by (simp add: color_bytes_def le32_def bytes_color_simps, intro bit_word_eqI) (simp add: bit_simps)
next
  assume "n = 2"
  then show ?thesis
    by (simp add: color_bytes_def le32_def bytes_color_simps rd16_def, intro bit_word_eqI) (auto simp: bit_simps)
qed

lemma upto_cells: "[0..<1] = [0 :: nat]" "[0..<2] = [0 :: nat, 1]" "[0..<4] = [0 :: nat, 1, 2, 3]"
  by (simp_all add: upt_rec)

lemma get_pixel_cell:
  assumes "fb_ok s"
  shows "gfx_framebuffer_get_pixel x y s = (if fb_outside x y s then 0 else bytes_color (cell_bytes s (fb_cell x y (the_fb s))))"
  using fb_bytes_cases [OF assms] unfolding gfx_framebuffer_get_pixel_def Let_def offset_cell [OF assms] cell_bytes_def
  by (elim disjE conjE) (simp_all del: of_nat_mult add: bytes_color_simps upto_cells)

lemma fb_pixel_fields [simp]:
  "the_fb (gfx_framebuffer_set_pixel x y c s) = the_fb s" "fb_outside px py (gfx_framebuffer_set_pixel x y c s) = fb_outside px py s"
  "fb_ok (gfx_framebuffer_set_pixel x y c s) = fb_ok s" "fb_heap (gfx_framebuffer_set_pixel x y c s) = fb_heap s"
  by (auto simp: gfx_framebuffer_set_pixel_def Let_def the_fb_def fb_outside_def fb_ok_def)

lemma get_set_fb_pixel:
  assumes "fb_ok s"
  shows "gfx_framebuffer_get_pixel px py (gfx_framebuffer_set_pixel x y c s) =
    (if px = x \<and> py = y \<and> \<not> fb_outside x y s then take_bit (unat (fb_bpp (the_fb s))) c else gfx_framebuffer_get_pixel px py s)"
proof (cases "fb_outside x y s \<or> fb_outside px py s")
  case True
  have ok: "fb_ok (gfx_framebuffer_set_pixel x y c s)" using assms by simp
  show ?thesis
  proof (cases "fb_outside x y s")
    case False
    then show ?thesis using True by (auto simp: get_pixel_cell [OF ok] get_pixel_cell [OF assms])
  qed (simp add: gfx_framebuffer_set_pixel_def)
next
  case False
  let ?n = "fb_bytes (the_fb s)" and ?c = "fb_cell x y (the_fb s)" and ?e = "fb_cell px py (the_fb s)"
  let ?N = "unat (fb_width (the_fb s)) * unat (fb_height (the_fb s))"
  have in_range: "?n * k + ?n \<le> 2 ^ 32" if "k < ?N" for k
  proof -
    have "?n * k + ?n = ?n * (k + 1)" by simp
    also have "\<dots> \<le> ?n * ?N" using that by (intro mult_le_mono2) simp
    finally show ?thesis using assms by (simp add: fb_ok_def)
  qed
  have k: "?c < ?N" "?e < ?N" using False cell_inside by blast+
  have n: "?n \<in> {1, 2, 4}" "8 * ?n = unat (fb_bpp (the_fb s))" using fb_bytes_cases [OF assms] by auto
  have l: "length (color_bytes ?n c) = ?n" using n(1) by (auto simp: color_bytes_def le32_def)
  have "cell_bytes (gfx_framebuffer_set_pixel x y c s) ?e = (if ?e = ?c then color_bytes ?n c else cell_bytes s ?e)"
    using False l put_cell [OF in_range [OF k(1)] in_range [OF k(2)] _ l]
    by (auto simp: cell_bytes_def set_pixel_cell [OF assms] the_fb_def intro!: nth_equalityI simp del: of_nat_mult)
  moreover have "fb_ok (gfx_framebuffer_set_pixel x y c s)" using assms by simp
  ultimately show ?thesis
    using False cell_eq [of px py s x y] by (auto simp: get_pixel_cell assms bytes_color_color [OF n(1)] n(2))
qed

section \<open>Filling and creating\<close>

lemma cell_of_index:
  assumes "fb_ok s" "k < unat (fb_width (the_fb s)) * unat (fb_height (the_fb s))"
  shows "fb_cell (of_nat k mod fb_width (the_fb s)) (of_nat k div fb_width (the_fb s)) (the_fb s) = k"
    "\<not> fb_outside (of_nat k mod fb_width (the_fb s)) (of_nat k div fb_width (the_fb s)) s"
proof -
  let ?w = "fb_width (the_fb s)" and ?h = "fb_height (the_fb s)"
  have "0 < unat ?w" using assms(2) by (cases "unat ?w") auto
  have "0 < fb_bytes (the_fb s)" using fb_bytes_cases [OF assms(1)] by auto
  then have "unat ?w * unat ?h < 2 ^ 32"
    using assms(1) unfolding fb_ok_def by (metis One_nat_def Suc_leI le_less_trans mult_1 mult_le_mono1)
  then have k: "unat (of_nat k :: u32) = k" using assms(2) by (intro unat_of_nat_small) simp
  have u: "unat (of_nat k mod ?w) = k mod unat ?w" "unat (of_nat k div ?w) = k div unat ?w"
    using k by (simp_all add: unat_mod_distrib unat_div_distrib)
  then show "fb_cell (of_nat k mod ?w) (of_nat k div ?w) (the_fb s) = k" by (simp add: fb_cell_def)
  have "k div unat ?w < unat ?h" using assms(2) by (simp add: less_mult_imp_div_less mult.commute)
  then show "\<not> fb_outside (of_nat k mod ?w) (of_nat k div ?w) s"
    using u \<open>0 < unat ?w\<close> assms(1) by (simp add: fb_outside_def not_le word_less_nat_alt fb_ok_def)
qed

lemma fill_loop:
  assumes "fb_ok s" "k \<le> unat (fb_width (the_fb s)) * unat (fb_height (the_fb s))"
  shows "let t = fold (\<lambda>i. gfx_framebuffer_set_pixel (of_nat i mod fb_width (the_fb s)) (of_nat i div fb_width (the_fb s)) c) [0..<k] s in
    fb_ok t \<and> the_fb t = the_fb s \<and> (\<forall>px py. fb_outside px py t = fb_outside px py s) \<and>
    (\<forall>px py. gfx_framebuffer_get_pixel px py t =
      (if \<not> fb_outside px py s \<and> fb_cell px py (the_fb s) < k then take_bit (unat (fb_bpp (the_fb s))) c else gfx_framebuffer_get_pixel px py s))"
  using assms(2) unfolding Let_def
proof (induction k)
  case (Suc k)
  let ?x = "of_nat k mod fb_width (the_fb s)" and ?y = "of_nat k div fb_width (the_fb s)"
  note C = cell_of_index [OF assms(1), of k]
  have "px = ?x \<and> py = ?y \<longleftrightarrow> fb_cell px py (the_fb s) = k" if "\<not> fb_outside px py s" for px py
    using cell_eq [OF that, of ?x ?y] C Suc.prems by auto
  moreover have "\<not> (px = ?x \<and> py = ?y)" if "fb_outside px py s" for px py using that C(2) Suc.prems by auto
  ultimately show ?case using Suc by (auto simp: get_set_fb_pixel C(2) less_Suc_eq)
qed (use assms(1) in simp)

lemma fill_correct:
  assumes "fb_ok s"
  shows "gfx_framebuffer_get_pixel px py (gfx_framebuffer_fill c s) = (if fb_outside px py s then 0 else take_bit (unat (fb_bpp (the_fb s))) c)"
proof (cases "fb_bpp (the_fb s) = 8")
  case True
  let ?f = "the_fb s"
  let ?t = "s\<lparr>fb_mem := put_bytes (fb_buffer ?f) (replicate (unat (fb_pitch ?f * fb_height ?f)) (ucast c)) (fb_mem s)\<rparr>"
  have n: "fb_bytes ?f = 1" using fb_bytes_cases [OF assms] True by auto
  have N: "unat (fb_width ?f) * unat (fb_height ?f) < 2 ^ 32" "unat (fb_pitch ?f) = unat (fb_width ?f)"
    using assms n by (simp_all add: fb_ok_def)
  then have size: "unat (fb_pitch ?f * fb_height ?f) = unat (fb_width ?f) * unat (fb_height ?f)"
    by (simp add: unat_word_ariths)
  have t: "gfx_framebuffer_fill c s = ?t" "the_fb ?t = ?f" "fb_ok ?t" "fb_outside px py ?t = fb_outside px py s"
    using assms True by (simp_all add: gfx_framebuffer_fill_def Let_def fb_ok_def the_fb_def fb_outside_def)
  have "cell_bytes ?t (fb_cell px py ?f) = [ucast c]" if "\<not> fb_outside px py s"
  proof -
    have k: "fb_cell px py ?f < unat (fb_width ?f) * unat (fb_height ?f)" using that by (rule cell_inside)
    then have "unat (of_nat (fb_cell px py ?f) :: u32) = fb_cell px py ?f" using N(1) by (intro unat_of_nat_small) simp
    then show ?thesis using k unfolding cell_bytes_def t(2) n upto_cells by (simp add: put_bytes_def size)
  qed
  moreover have "take_bit 8 c = ucast (ucast c :: u8)" by (rule bit_word_eqI) (auto simp: bit_simps)
  ultimately show ?thesis unfolding t(1) get_pixel_cell [OF t(3)] t(2,4) using True by (simp add: bytes_color_simps)
next
  case False
  let ?N = "unat (fb_width (the_fb s)) * unat (fb_height (the_fb s))"
  have "0 < fb_bytes (the_fb s)" using fb_bytes_cases [OF assms] by auto
  then have "?N < 2 ^ 32"
    using assms unfolding fb_ok_def by (metis One_nat_def Suc_leI le_less_trans mult_1 mult_le_mono1)
  then have "unat (fb_width (the_fb s) * fb_height (the_fb s)) = ?N" by (simp add: unat_word_ariths)
  then show ?thesis
    using fill_loop [OF assms le_refl, of c, unfolded Let_def] False assms cell_inside [of px py s]
    by (auto simp: gfx_framebuffer_fill_def Let_def fb_ok_def get_pixel_cell)
qed

text \<open>A new buffer: the structure and the bytes are two blocks of the heap, every pixel is 0.\<close>

lemma framebuffer_init_ok:
  assumes "heap_inv (fb_heap s)" "gfx_fb s = 0" "bpp \<in> {8, 16, 32}" "unat w * unat (bpp div 8) * unat h < 2 ^ 32"
    and run: "gfx_framebuffer_init w h bpp s = Some (r, s')"
  shows "heap_inv (fb_heap s') \<and>
    (if r = 0 then fb_ok s' \<and> heap_live (fb_heap s') = {gfx_fb s', fb_buffer (the_fb s')} \<union> heap_live (fb_heap s) \<and>
       fb_width (the_fb s') = ucast w \<and> fb_height (the_fb s') = ucast h \<and> fb_bpp (the_fb s') = bpp
     else r = -1 \<and> gfx_fb s' = 0 \<and> heap_live (fb_heap s') = heap_live (fb_heap s))"
proof -
  obtain p h1 where p: "kmalloc sizeof_framebuffer (fb_heap s) = Some (p, h1)" using kmalloc_returns [OF assms(1)] by blast
  show ?thesis
  proof (cases "p = 0")
    case True
    have "h1 = fb_heap s" using kmalloc_none_live p True assms(1) by (auto simp: heap_inv_def)
    then show ?thesis using run p True assms(1,2) by (auto simp: gfx_framebuffer_init_def)
  next
    case False
    then have pa: "heap_alloc sizeof_framebuffer (fb_heap s) = Some (p, h1)" using p by (simp add: heap_alloc_def)
    note P = heap_alloc_live [OF assms(1) pa]
    let ?pitch = "ucast w * (ucast bpp div 8) :: u32"
    obtain b h2 where b: "kmalloc (?pitch * ucast h) h1 = Some (b, h2)" using kmalloc_returns [OF P(1)] by blast
    show ?thesis
    proof (cases "b = 0")
      case True
      have "h2 = h1" using kmalloc_none_live b True P(1) by (auto simp: heap_inv_def)
      then show ?thesis using run p b True False assms(2) kfree_live [OF P(1), of p] P(2,3)
        by (auto simp: gfx_framebuffer_init_def Let_def)
    next
      case bF: False
      then have ba: "heap_alloc (?pitch * ucast h) h1 = Some (b, h2)" using b by (simp add: heap_alloc_def)
      note B = heap_alloc_live [OF P(1) ba]
      define f where "f = \<lparr>fb_width = ucast w, fb_height = ucast h, fb_pitch = ?pitch, fb_bpp = bpp, fb_buffer = b, fb_dirty_region = 0\<rparr>"
      have s': "r = 0" "gfx_fb s' = p" "fb_heap s' = h2" "the_fb s' = f"
        using run p b False bF assms(2) by (auto simp: gfx_framebuffer_init_def Let_def the_fb_def f_def)
      have q: "unat (ucast bpp div 8 :: u32) = unat bpp div 8" "unat (bpp div 8) = unat bpp div 8" "unat bpp div 8 \<le> 4"
        using assms(3) by auto
      then have "unat w * (unat bpp div 8) \<le> 65535 * 4" using u16_lt [of w] by (intro mult_le_mono) simp_all
      then have pitch: "unat ?pitch = unat w * (unat bpp div 8)" by (simp add: unat_word_ariths mod_mult_right_eq)
      have "fb_ok s'"
        unfolding fb_ok_def s'(2,4) fb_bytes_def f_def using False assms(3) assms(4) [unfolded q(2)] pitch by (simp add: ac_simps)
      then show ?thesis unfolding s' using B(1,3) P(3) by (auto simp: f_def)
    qed
  qed
qed

end
