(* ===== verification/FsView.thy ===== *)
theory FsView
  imports Vfs
begin

text \<open>
  The file system as a map: a pair of directory and name leads to a type and a contents. The three
  operations that change it, called the way the shell and the seeding of the disk call them,
  update the map at one key; this is the abstract specification \<open>kernel/fs/tetfs.c\<close> implements.
\<close>

section \<open>The map\<close>

type_synonym file_map = "u16 \<times> bytes \<Rightarrow> (u8 \<times> bytes) option"

definition fs_map :: "sectors \<Rightarrow> file_map" where
  "fs_map s = (\<lambda>(parent, name).
     map_option (\<lambda>i. (i_type (inode_at s (of_nat i)), contents s (inode_at s (of_nat i))))
       (find (\<lambda>i. named s name parent (of_nat i)) [1..<32]))"

text \<open>No directory has two entries of the same name.\<close>

definition names_unique :: "sectors \<Rightarrow> bool" where
  "names_unique s \<longleftrightarrow> (\<forall>i j name parent. 0 < i \<longrightarrow> i < TETFS_MAX_INODES \<longrightarrow> 0 < j \<longrightarrow> j < TETFS_MAX_INODES \<longrightarrow>
     named s name parent i \<longrightarrow> named s name parent j \<longrightarrow> i = j)"

definition entry_at :: "sectors \<Rightarrow> u16 \<Rightarrow> u8 \<times> bytes" where
  "entry_at s i = (i_type (inode_at s i), contents s (inode_at s i))"

lemma small_index: "(\<exists>i \<in> {1..<32}. P (of_nat i :: u16)) \<longleftrightarrow> (\<exists>i. 0 < i \<and> i < TETFS_MAX_INODES \<and> P i)"
proof
  assume "\<exists>i \<in> {1..<32}. P (of_nat i :: u16)"
  then obtain i :: nat where i: "1 \<le> i" "i < 32" "P (of_nat i :: u16)" by auto
  then have "unat (of_nat i :: u16) = i" by (simp add: unat_of_nat_small)
  then show "\<exists>i. 0 < i \<and> i < TETFS_MAX_INODES \<and> P i" using i by (intro exI [of _ "of_nat i"]) (simp add: word_less_nat_alt)
next
  assume "\<exists>i. 0 < i \<and> i < TETFS_MAX_INODES \<and> P i"
  then obtain i :: u16 where "0 < i" "i < TETFS_MAX_INODES" "P i" by blast
  then show "\<exists>i \<in> {1..<32}. P (of_nat i :: u16)" by (intro bexI [of _ "unat i"]) (auto simp: word_less_nat_alt)
qed

lemma fs_map_Some:
  assumes "names_unique s"
  shows "fs_map s (parent, name) = Some v \<longleftrightarrow> (\<exists>i. 0 < i \<and> i < TETFS_MAX_INODES \<and> named s name parent i \<and> v = entry_at s i)"
    (is "?L \<longleftrightarrow> ?R")
proof
  assume ?L
  then obtain i where i: "find (\<lambda>i. named s name parent (of_nat i)) [1..<32] = Some i" "v = entry_at s (of_nat i)"
    by (auto simp: fs_map_def entry_at_def simp del: upt_rec_numeral)
  then obtain k where "k < length [1..<32 :: nat]" "named s name parent (of_nat i)" "i = [1..<32] ! k"
    unfolding find_Some_iff by blast
  then have "i \<in> set [1..<32]" by (metis nth_mem)
  then have "i \<in> {1..<32}" by (simp only: set_upt)
  then have "\<exists>i \<in> {1..<32}. named s name parent (of_nat i) \<and> v = entry_at s (of_nat i)" using \<open>named s name parent (of_nat i)\<close> i(2) by blast
  then show ?R using small_index [of "\<lambda>i. named s name parent i \<and> v = entry_at s i"] by blast
next
  assume ?R
  then obtain i where i: "0 < i" "i < TETFS_MAX_INODES" "named s name parent i" "v = entry_at s i" by blast
  then have "\<exists>i \<in> {1..<32}. named s name parent (of_nat i)" using small_index [of "named s name parent"] by blast
  then have "find (\<lambda>i. named s name parent (of_nat i)) [1..<32] \<noteq> None" by (simp only: find_None_iff set_upt) blast
  then obtain k where k: "find (\<lambda>i. named s name parent (of_nat i)) [1..<32] = Some k" by blast
  then obtain q where "q < length [1..<32 :: nat]" "named s name parent (of_nat k)" "k = [1..<32] ! q"
    unfolding find_Some_iff by blast
  then have kn: "named s name parent (of_nat k)" "k \<in> set [1..<32]" by (metis nth_mem)+
  then have kr: "1 \<le> k" "k < 32" by (simp_all only: set_upt) auto
  then have u: "unat (of_nat k :: u16) = k" by (simp add: unat_of_nat_small)
  have "0 < (of_nat k :: u16)" "(of_nat k :: u16) < TETFS_MAX_INODES" using kr u by (simp_all add: word_less_nat_alt)
  then have "of_nat k = i" using assms kn(1) i(1-3) unfolding names_unique_def by blast
  then show ?L using k i(4) by (simp add: fs_map_def entry_at_def del: upt_rec_numeral)
qed

text \<open>A change of one entry, here the only one that carries its name.\<close>

lemma fs_map_change:
  assumes U: "names_unique s" and i: "0 < i" "i < TETFS_MAX_INODES" and O: "others_kept i s s'"
    and new: "\<And>nm p. named s' nm p i \<longleftrightarrow> p = parent \<and> nm = name \<and> keep" and old: "\<And>nm p. named s nm p i \<Longrightarrow> p = parent \<and> nm = name"
    and free: "\<And>j. 0 < j \<Longrightarrow> j < TETFS_MAX_INODES \<Longrightarrow> j \<noteq> i \<Longrightarrow> \<not> named s name parent j"
  shows "names_unique s'" "fs_map s' = (fs_map s)((parent, name) := if keep then Some (entry_at s' i) else None)"
proof -
  have other: "named s' nm p j \<longleftrightarrow> named s nm p j" "named s nm p j \<Longrightarrow> entry_at s' j = entry_at s j"
    if "j < TETFS_MAX_INODES" "j \<noteq> i" for j nm p
    using O that by (auto simp: others_kept_def named_def entry_at_def)
  show U': "names_unique s'"
    unfolding names_unique_def
  proof (intro allI impI)
    fix j k nm p
    assume j: "0 < j" "j < TETFS_MAX_INODES" "named s' nm p j" and k: "0 < k" "k < TETFS_MAX_INODES" "named s' nm p k"
    show "j = k"
    proof (cases "j = i \<or> k = i")
      case True
      then have "p = parent" "nm = name" using new j(3) k(3) by auto
      then show ?thesis using True free other(1) j k by metis
    next
      case False
      then show ?thesis using U other(1) j k unfolding names_unique_def by blast
    qed
  qed
  have "fs_map s' (p, nm) = ((fs_map s)((parent, name) := if keep then Some (entry_at s' i) else None)) (p, nm)" for p nm
  proof (cases "p = parent \<and> nm = name")
    case True
    have at: "fs_map s' (p, nm) = Some v \<longleftrightarrow> keep \<and> v = entry_at s' i" for v
      unfolding fs_map_Some [OF U'] using True i new free other(1) by metis
    then have "fs_map s' (p, nm) = (if keep then Some (entry_at s' i) else None)" by (cases keep) (simp, metis option.exhaust)
    then show ?thesis using True by simp
  next
    case False
    have "fs_map s' (p, nm) = Some v \<longleftrightarrow> fs_map s (p, nm) = Some v" for v
      unfolding fs_map_Some [OF U'] fs_map_Some [OF U] using False i new old other by metis
    then show ?thesis using False by (cases "fs_map s (p, nm)"; cases "fs_map s' (p, nm)") auto
  qed
  then show "fs_map s' = (fs_map s)((parent, name) := if keep then Some (entry_at s' i) else None)" by auto
qed

section \<open>Operations by name\<close>

text \<open>Creating, writing and deleting as the callers do it, with the NUL-terminated name.\<close>

datatype file_op = Make u16 bytes u8 | Put u16 bytes bytes | Remove u16 bytes

fun exec_file_op :: "'d dev \<Rightarrow> file_op \<Rightarrow> 'd \<Rightarrow> bool \<times> 'd" where
  "exec_file_op D (Make parent name type) d = (case tetfs_create D name parent type d of (r, d) \<Rightarrow> (0 \<le> r, d))"
| "exec_file_op D (Put parent name data) d =
     (case tetfs_find D name parent d of (idx, d) \<Rightarrow>
        if idx < 0 then (False, d) else case tetfs_write D (of_int idx) data (of_nat (length data)) d of (r, d) \<Rightarrow> (r = 0, d))"
| "exec_file_op D (Remove parent name) d =
     (case tetfs_find D name parent d of (idx, d) \<Rightarrow>
        if idx < 0 then (False, d) else case tetfs_delete D (of_int idx) d of (r, d) \<Rightarrow> (r = 0, d))"

fun exec_file_ops :: "'d dev \<Rightarrow> file_op list \<Rightarrow> 'd \<Rightarrow> bool list \<times> 'd" where
  "exec_file_ops D [] d = ([], d)"
| "exec_file_ops D (f # fs) d =
     (case exec_file_op D f d of (ok, d) \<Rightarrow> case exec_file_ops D fs d of (oks, d) \<Rightarrow> (ok # oks, d))"

fun file_op_valid :: "file_op \<Rightarrow> bool" where
  "file_op_valid (Make parent name type) \<longleftrightarrow> terminated name \<and> length (cstr name) \<le> 50 \<and> type \<noteq> TETFS_TYPE_FREE"
| "file_op_valid (Put parent name data) \<longleftrightarrow> terminated name \<and> length data \<le> 8192"
| "file_op_valid (Remove parent name) \<longleftrightarrow> terminated name"

text \<open>The specification: when an operation applies, and its effect.\<close>

fun map_op_enabled :: "file_op \<Rightarrow> file_map \<Rightarrow> bool" where
  "map_op_enabled (Make parent name type) m \<longleftrightarrow> m (parent, cstr name) = None"
| "map_op_enabled (Put parent name data) m \<longleftrightarrow> (\<exists>bs. m (parent, cstr name) = Some (TETFS_TYPE_FILE, bs))"
| "map_op_enabled (Remove parent name) m \<longleftrightarrow> m (parent, cstr name) \<noteq> None"

fun map_op :: "file_op \<Rightarrow> file_map \<Rightarrow> file_map" where
  "map_op (Make parent name type) m = m((parent, cstr name) \<mapsto> (type, []))"
| "map_op (Put parent name data) m = m((parent, cstr name) \<mapsto> (TETFS_TYPE_FILE, data))"
| "map_op (Remove parent name) m = m((parent, cstr name) := None)"

definition map_ops :: "(file_op \<times> bool) list \<Rightarrow> file_map \<Rightarrow> file_map" where
  "map_ops fs m = fold (\<lambda>(f, ok) m. if ok then map_op f m else m) fs m"

lemma map_ops_simps [simp]: "map_ops [] m = m" "map_ops ((f, ok) # fs) m = map_ops fs (if ok then map_op f m else m)"
  by (simp_all add: map_ops_def)

text \<open>The two resources an operation can lack: an inode, and a run of blocks.\<close>

fun disk_full_for :: "file_op \<Rightarrow> sectors \<Rightarrow> bool" where
  "disk_full_for (Make parent name type) s \<longleftrightarrow> (\<forall>i < TETFS_MAX_INODES. i \<noteq> 0 \<longrightarrow> in_use s i)"
| "disk_full_for (Put parent name data) s \<longleftrightarrow>
     (\<exists>i < TETFS_MAX_INODES. \<forall>k. \<not> free_run (free_blocks_of (inode_at s i) (bitmap_at s)) k ((length data + 511) div 512))"
| "disk_full_for (Remove parent name) s \<longleftrightarrow> False"

lemma named_fun: "named s name parent i \<Longrightarrow> named s name' parent' i \<Longrightarrow> parent' = parent \<and> name' = name"
  by (simp add: named_def)

lemma cstr_take: "length (cstr name) \<le> 50 \<Longrightarrow> take 50 (cstr name) = cstr name"
  by simp

definition fs_inv :: "('d \<Rightarrow> sectors) \<Rightarrow> ('d \<Rightarrow> bool) \<Rightarrow> 'd \<Rightarrow> bool" where
  "fs_inv sec invar d \<longleftrightarrow> invar d \<and> fs_wf (sec d) \<and> names_unique (sec d)"

context reliable_dev
begin

lemma find_entry:
  assumes "fs_inv sec invar d" "terminated name" "tetfs_find D name parent d = (r, d')"
  shows "invar d' \<and> sec d' = sec d \<and>
    (if r < 0 then fs_map (sec d) (parent, cstr name) = None
     else \<exists>i. r = int (unat i) \<and> 0 < i \<and> i < TETFS_MAX_INODES \<and> named (sec d) (cstr name) parent i \<and>
       fs_map (sec d) (parent, cstr name) = Some (entry_at (sec d) i))"
proof -
  have wf: "invar d" "fs_wf (sec d)" "names_unique (sec d)" using assms(1) by (simp_all add: fs_inv_def)
  note F = tetfs_find_named [OF wf(1,2) assms(2,3)]
  note M = fs_map_Some [OF wf(3), of parent "cstr name"]
  have "fs_map (sec d) (parent, cstr name) = None" if "r < 0"
  proof -
    have "r = -1" using F that by (auto split: if_splits)
    then have "\<not> (\<exists>i. 0 < i \<and> i < TETFS_MAX_INODES \<and> named (sec d) (cstr name) parent i)" using F by (auto simp: word_gt_0)
    then show ?thesis using M by (metis option.exhaust)
  qed
  then show ?thesis using F M by (auto split: if_splits)
qed

lemma step_make:
  assumes inv: "fs_inv sec invar d" and v: "terminated name" "length (cstr name) \<le> 50" "type \<noteq> TETFS_TYPE_FREE"
    and run: "tetfs_create D name parent type d = (r, d')"
  shows "fs_inv sec invar d' \<and>
    (if 0 \<le> r then fs_map (sec d) (parent, cstr name) = None \<and> fs_map (sec d') = (fs_map (sec d))((parent, cstr name) \<mapsto> (type, [])) \<and>
       (\<exists>i. r = int (unat i) \<and> 0 < i \<and> i < TETFS_MAX_INODES \<and> named (sec d') (cstr name) parent i)
     else sec d' = sec d \<and> (fs_map (sec d) (parent, cstr name) \<noteq> None \<or> (\<forall>i < TETFS_MAX_INODES. i \<noteq> 0 \<longrightarrow> in_use (sec d) i)))"
proof -
  have wf: "invar d" "fs_wf (sec d)" "names_unique (sec d)" using inv by (simp_all add: fs_inv_def)
  note C = tetfs_create_ok [OF wf(1,2) v(1,3) run]
  note M = fs_map_Some [OF wf(3), of parent "cstr name"]
  show ?thesis
  proof (cases "r = -1")
    case True
    then have d': "invar d'" "fs_wf (sec d')" "sec d' = sec d"
      "(\<exists>i < TETFS_MAX_INODES. i \<noteq> 0 \<and> named (sec d) (cstr name) parent i) \<or> (\<forall>i < TETFS_MAX_INODES. i \<noteq> 0 \<longrightarrow> in_use (sec d) i)"
      using C wf(2) by simp_all
    moreover have "fs_map (sec d) (parent, cstr name) \<noteq> None" if "\<exists>i < TETFS_MAX_INODES. i \<noteq> 0 \<and> named (sec d) (cstr name) parent i"
      using that M by (metis option.distinct(1) word_gt_0)
    ultimately show ?thesis using True wf by (auto simp: fs_inv_def)
  next
    case False
    then obtain i where i: "r = int (unat i)" "0 < i" "i < TETFS_MAX_INODES" "\<not> in_use (sec d) i"
       "\<forall>j < TETFS_MAX_INODES. j \<noteq> 0 \<longrightarrow> \<not> named (sec d) (cstr name) parent j"
       "inode_at (sec d') i = new_inode name parent type" "others_kept i (sec d) (sec d')"
      using C by auto
    have new: "named (sec d') nm p i \<longleftrightarrow> p = parent \<and> nm = cstr name \<and> True" for nm p
      using i(6) v new_inode_cstr(1) [of name parent type] by (auto simp: named_def)
    have old: "named (sec d) nm p i \<Longrightarrow> p = parent \<and> nm = cstr name" for nm p using i(4) by (simp add: named_def)
    have free: "0 < j \<Longrightarrow> j < TETFS_MAX_INODES \<Longrightarrow> j \<noteq> i \<Longrightarrow> \<not> named (sec d) (cstr name) parent j" for j
      using i(5) by (auto simp: word_gt_0)
    note ch = fs_map_change [OF wf(3) i(2,3,7) new old free]
    have "entry_at (sec d') i = (type, [])" using i(6) by (simp add: entry_at_def contents_def)
    moreover have "fs_map (sec d) (parent, cstr name) = None" using M i(5) by (metis option.exhaust word_gt_0)
    moreover have "named (sec d') (cstr name) parent i" using new by blast
    ultimately show ?thesis using C False ch i(1-3) by (auto simp: fs_inv_def)
  qed
qed

lemma step_put:
  assumes inv: "fs_inv sec invar d" and i: "0 < i" "i < TETFS_MAX_INODES" "named (sec d) name parent i" and len: "length data \<le> 8192"
    and run: "tetfs_write D i data (of_nat (length data)) d = (r, d')"
  shows "fs_inv sec invar d' \<and>
    (if r = 0 then i_type (inode_at (sec d) i) = TETFS_TYPE_FILE \<and> fs_map (sec d') = (fs_map (sec d))((parent, name) \<mapsto> (TETFS_TYPE_FILE, data))
     else sec d' = sec d \<and> (i_type (inode_at (sec d) i) \<noteq> TETFS_TYPE_FILE \<or>
       (\<forall>k. \<not> free_run (free_blocks_of (inode_at (sec d) i) (bitmap_at (sec d))) k ((length data + 511) div 512))))"
proof -
  have wf: "invar d" "fs_wf (sec d)" "names_unique (sec d)" using inv by (simp_all add: fs_inv_def)
  have l: "unat (of_nat (length data) :: u32) = length data" using len by (intro unat_of_nat_small) simp
  show ?thesis
  proof (cases "i_type (inode_at (sec d) i) = TETFS_TYPE_FILE")
    case False
    obtain d1 where "tetfs_read_inode D i d = (Some (inode_at (sec d) i), d1)" "invar d1" "sec d1 = sec d"
      by (rule read_inode_ok [OF wf(1) i(2)])
    then have "r = -1" "invar d'" "sec d' = sec d" using run False by (auto simp: tetfs_write_def)
    then show ?thesis using False wf by (simp add: fs_inv_def)
  next
    case True
    note W = tetfs_write_ok [OF wf(1,2) i(2) True _ _ run, unfolded l, OF len le_refl]
    show ?thesis
    proof (cases "r = 0")
      case rF: False
      then show ?thesis using W wf(2,3) by (simp add: fs_inv_def)
    next
      case r0: True
      then obtain st c where n: "inode_at (sec d') i = (inode_at (sec d) i)\<lparr>i_start_block := st, i_block_count := c, i_size := of_nat (length data)\<rparr>"
        and W': "invar d'" "fs_wf (sec d')" "others_kept i (sec d) (sec d')" "contents (sec d') (inode_at (sec d') i) = data"
        using W by auto
      have same: "named (sec d') nm p i \<longleftrightarrow> named (sec d) nm p i" for nm p using n by (simp add: named_def)
      then have new: "named (sec d') nm p i \<longleftrightarrow> p = parent \<and> nm = name \<and> True" for nm p
        using i(3) named_fun [OF i(3)] by metis
      have old: "named (sec d) nm p i \<Longrightarrow> p = parent \<and> nm = name" for nm p using named_fun [OF i(3)] by blast
      have free: "0 < j \<Longrightarrow> j < TETFS_MAX_INODES \<Longrightarrow> j \<noteq> i \<Longrightarrow> \<not> named (sec d) name parent j" for j
        using wf(3) i unfolding names_unique_def by blast
      note ch = fs_map_change [OF wf(3) i(1,2) W'(3) new old free]
      have "entry_at (sec d') i = (TETFS_TYPE_FILE, data)" using n True W'(4) by (simp add: entry_at_def)
      then show ?thesis using r0 True W' ch by (simp add: fs_inv_def)
    qed
  qed
qed

lemma step_remove:
  assumes inv: "fs_inv sec invar d" and i: "0 < i" "i < TETFS_MAX_INODES" "named (sec d) name parent i" and run: "tetfs_delete D i d = (r, d')"
  shows "fs_inv sec invar d' \<and> r = 0 \<and> fs_map (sec d') = (fs_map (sec d))((parent, name) := None)"
proof -
  have wf: "invar d" "fs_wf (sec d)" "names_unique (sec d)" using inv by (simp_all add: fs_inv_def)
  have "in_use (sec d) i" "i \<noteq> 0" using i by (auto simp: named_def)
  then have X: "invar d'" "fs_wf (sec d')" "r = 0" "\<not> in_use (sec d') i" "others_kept i (sec d) (sec d')"
    using tetfs_delete_ok [OF wf(1,2) run] i(2) by auto
  have new: "named (sec d') nm p i \<longleftrightarrow> p = parent \<and> nm = name \<and> False" for nm p using X(4) by (simp add: named_def)
  have old: "named (sec d) nm p i \<Longrightarrow> p = parent \<and> nm = name" for nm p using named_fun [OF i(3)] by blast
  have free: "0 < j \<Longrightarrow> j < TETFS_MAX_INODES \<Longrightarrow> j \<noteq> i \<Longrightarrow> \<not> named (sec d) name parent j" for j
    using wf(3) i unfolding names_unique_def by blast
  show ?thesis using fs_map_change [OF wf(3) i(1,2) X(5) new old free] X by (simp add: fs_inv_def)
qed

text \<open>One operation against the specification.\<close>

lemma file_op_step:
  assumes inv: "fs_inv sec invar d" and v: "file_op_valid f" and run: "exec_file_op D f d = (ok, d')"
  shows "fs_inv sec invar d' \<and>
    (if ok then map_op_enabled f (fs_map (sec d)) \<and> fs_map (sec d') = map_op f (fs_map (sec d))
     else sec d' = sec d \<and> (map_op_enabled f (fs_map (sec d)) \<longrightarrow> disk_full_for f (sec d)))"
proof (cases f)
  case (Make parent name type)
  obtain r where r: "tetfs_create D name parent type d = (r, d')" "ok \<longleftrightarrow> 0 \<le> r" using run Make by (auto split: prod.splits)
  show ?thesis using step_make [OF inv _ _ _ r(1)] v r(2) Make by auto
next
  case (Put parent name data)
  then have t: "terminated name" "length data \<le> 8192" using v by simp_all
  obtain k d1 where k: "tetfs_find D name parent d = (k, d1)" by force
  note F = find_entry [OF inv t(1) k]
  then have d1: "fs_inv sec invar d1" using inv by (simp add: fs_inv_def)
  show ?thesis
  proof (cases "k < 0")
    case True
    then show ?thesis using run Put k F d1 by auto
  next
    case False
    then obtain i where i: "k = int (unat i)" "0 < i" "i < TETFS_MAX_INODES" "named (sec d) (cstr name) parent i"
      "fs_map (sec d) (parent, cstr name) = Some (entry_at (sec d) i)" using F by auto
    obtain r where r: "tetfs_write D i data (of_nat (length data)) d1 = (r, d')" "ok \<longleftrightarrow> r = 0"
      using run Put k False i(1) by (auto split: prod.splits)
    have n: "named (sec d1) (cstr name) parent i" using i(4) F by simp
    show ?thesis using step_put [OF d1 i(2,3) n t(2) r(1)] F r(2) Put i(3,5) by (auto simp: entry_at_def split: if_splits)
  qed
next
  case (Remove parent name)
  then have t: "terminated name" using v by simp
  obtain k d1 where k: "tetfs_find D name parent d = (k, d1)" by force
  note F = find_entry [OF inv t k]
  then have d1: "fs_inv sec invar d1" using inv by (simp add: fs_inv_def)
  show ?thesis
  proof (cases "k < 0")
    case True
    then show ?thesis using run Remove k F d1 by auto
  next
    case False
    then obtain i where i: "k = int (unat i)" "0 < i" "i < TETFS_MAX_INODES" "named (sec d) (cstr name) parent i"
      "fs_map (sec d) (parent, cstr name) = Some (entry_at (sec d) i)" using F by auto
    obtain r where r: "tetfs_delete D i d1 = (r, d')" "ok \<longleftrightarrow> r = 0"
      using run Remove k False i(1) by (auto split: prod.splits)
    have n: "named (sec d1) (cstr name) parent i" using i(4) F by simp
    show ?thesis using step_remove [OF d1 i(2,3) n r(1)] F r(2) Remove i(5) by auto
  qed
qed

text \<open>Runs of operations.\<close>

lemma file_ops_run:
  assumes "fs_inv sec invar d" "\<forall>f \<in> set fs. file_op_valid f" "exec_file_ops D fs d = (oks, d')"
  shows "fs_inv sec invar d' \<and> length oks = length fs \<and> fs_map (sec d') = map_ops (zip fs oks) (fs_map (sec d))"
  using assms
proof (induction fs arbitrary: d oks)
  case (Cons f fs)
  obtain ok d1 where f: "exec_file_op D f d = (ok, d1)" by force
  obtain oks1 where r: "exec_file_ops D fs d1 = (oks1, d')" "oks = ok # oks1" using Cons.prems(3) f by (auto split: prod.splits)
  have S: "fs_inv sec invar d1" "fs_map (sec d1) = (if ok then map_op f (fs_map (sec d)) else fs_map (sec d))"
    using file_op_step [OF Cons.prems(1) _ f] Cons.prems(2) by auto
  show ?case using Cons.IH [OF S(1) _ r(1)] Cons.prems(2) r(2) S(2) by simp
qed simp

lemma read_entry:
  assumes "fs_inv sec invar d" "terminated name" "fs_map (sec d) (parent, cstr name) = Some (TETFS_TYPE_FILE, bs)"
    "unat off + unat len < 4294967296"
  shows "\<exists>i d1 d2. tetfs_find D name parent d = (int (unat i), d1) \<and>
    tetfs_read D i off len d1 = ((int (length (slice (unat off) (unat len) bs)), slice (unat off) (unat len) bs), d2) \<and> sec d2 = sec d"
proof -
  obtain k d1 where k: "tetfs_find D name parent d = (k, d1)" by force
  note F = find_entry [OF assms(1,2) k]
  then obtain i where i: "k = int (unat i)" "i < TETFS_MAX_INODES" "entry_at (sec d) i = (TETFS_TYPE_FILE, bs)"
    using assms(3) by (auto split: if_splits)
  have "i_type (inode_at (sec d1) i) = TETFS_TYPE_FILE" "contents (sec d1) (inode_at (sec d1) i) = bs" "invar d1" "fs_wf (sec d1)" "sec d1 = sec d"
    using i(3) F assms(1) by (auto simp: entry_at_def fs_inv_def)
  with tetfs_read_ok [OF this(3,4) i(2) this(1) assms(4)] k i(1) show ?thesis by (auto simp: Let_def)
qed

end

text \<open>
  C10. tetFS is a map from (directory, name) to a type and a contents. Any sequence of creations, writes and deletions by
  name, of valid names up to 50 characters and contents up to the 8 KB limit, keeps the disk well formed with unique names and updates
  that map exactly by the operations that report success; a single operation reports success only when the map allows it (creation of a
  new name, writing of a file that is there, deletion of what is there), and refuses an allowed one only when the disk is
  out of inodes or of a large enough run of blocks. What is read back at any offset afterwards is the contents in the map.
\<close>
theorem tetfs_refines_map:
  assumes "reliable_dev D sec invar" "fs_inv sec invar d" "\<forall>f \<in> set fs. file_op_valid f" "exec_file_ops D fs d = (oks, d')"
  shows "fs_inv sec invar d' \<and> fs_map (sec d') = map_ops (zip fs oks) (fs_map (sec d)) \<and>
    (\<forall>f ok d''. file_op_valid f \<and> exec_file_op D f d' = (ok, d'') \<longrightarrow>
       (if ok then map_op_enabled f (fs_map (sec d')) \<and> fs_map (sec d'') = map_op f (fs_map (sec d'))
        else sec d'' = sec d' \<and> (map_op_enabled f (fs_map (sec d')) \<longrightarrow> disk_full_for f (sec d')))) \<and>
    (\<forall>name parent bs off len. terminated name \<and> fs_map (sec d') (parent, cstr name) = Some (TETFS_TYPE_FILE, bs) \<and>
         unat off + unat len < 4294967296 \<longrightarrow>
       (\<exists>i d1 d2. tetfs_find D name parent d' = (int (unat i), d1) \<and>
          tetfs_read D i off len d1 = ((int (length (slice (unat off) (unat len) bs)), slice (unat off) (unat len) bs), d2)))"
proof -
  have R: "fs_inv sec invar d'" "fs_map (sec d') = map_ops (zip fs oks) (fs_map (sec d))"
    using reliable_dev.file_ops_run [OF assms] by simp_all
  have step: "if ok then map_op_enabled f (fs_map (sec d')) \<and> fs_map (sec d'') = map_op f (fs_map (sec d'))
      else sec d'' = sec d' \<and> (map_op_enabled f (fs_map (sec d')) \<longrightarrow> disk_full_for f (sec d'))"
    if "file_op_valid f" "exec_file_op D f d' = (ok, d'')" for f ok d''
    using reliable_dev.file_op_step [OF assms(1) R(1) that] by (auto split: if_splits)
  have read: "\<exists>i d1 d2. tetfs_find D name parent d' = (int (unat i), d1) \<and>
      tetfs_read D i off len d1 = ((int (length (slice (unat off) (unat len) bs)), slice (unat off) (unat len) bs), d2)"
    if "terminated name" "fs_map (sec d') (parent, cstr name) = Some (TETFS_TYPE_FILE, bs)" "unat off + unat len < 4294967296"
    for name parent bs off len
    using reliable_dev.read_entry [OF assms(1) R(1) that] by blast
  show ?thesis using R step read by blast
qed

text \<open>A fresh disk is the map of nothing.\<close>

lemma fs_inv_boot: "fs_inv sim_sec sim_ok fs_boot" "fs_map (sim_sec fs_boot) = (\<lambda>_. None)"
proof -
  have none: "\<not> named (sim_sec fs_boot) name parent i" if "0 < i" "i < TETFS_MAX_INODES" for name parent i
    using fs_boot_ok(2) that by (auto simp: fresh_fs_def named_def)
  then have U: "names_unique (sim_sec fs_boot)" by (auto simp: names_unique_def)
  then show "fs_inv sim_sec sim_ok fs_boot" using fs_boot_ok(1) fs_boot_wf by (simp add: fs_inv_def)
  have "fs_map (sim_sec fs_boot) (parent, name) = None" for parent name
    using fs_map_Some [OF U, of parent name] none by (metis option.exhaust)
  then show "fs_map (sim_sec fs_boot) = (\<lambda>_. None)" by (auto simp: fun_eq_iff)
qed

theorem tetfs_refines_map_witness:
  "\<exists>oks d'. exec_file_ops adev [Make 0 name_a TETFS_TYPE_FILE, Remove 0 name_a, Remove 0 name_a] fs_boot = (oks, d') \<and>
     fs_map (sim_sec d') = map_ops (zip [Make 0 name_a TETFS_TYPE_FILE, Remove 0 name_a, Remove 0 name_a] oks) (\<lambda>_. None)"
proof -
  let ?fs = "[Make 0 name_a TETFS_TYPE_FILE, Remove 0 name_a, Remove 0 name_a]"
  obtain oks d' where run: "exec_file_ops adev ?fs fs_boot = (oks, d')" by force
  have v: "\<forall>f \<in> set ?fs. file_op_valid f" using name_a_ok by simp
  show ?thesis using tetfs_refines_map [OF reliable_adev fs_inv_boot(1) v run] fs_inv_boot(2) run by auto
qed

end
