(* ===== verification/Appseed.thy ===== *)
theory Appseed
  imports Bmp Exec FsView
begin

text \<open>
  The bundled files, \<open>kernel/user/appseed.c\<close>: a program, whose image the linker puts between two
  symbols (the parameter \<open>blob\<close>), and the picture \<open>demo_bmp_2x2\<close> are written to the root directory.
\<close>

section \<open>The operations\<close>

definition name_hello_elf :: bytes where
  "name_hello_elf = [0x68, 0x65, 0x6C, 0x6C, 0x6F, 0x2E, 0x65, 0x6C, 0x66, 0]"

definition name_demo_bmp :: bytes where
  "name_demo_bmp = [0x64, 0x65, 0x6D, 0x6F, 0x2E, 0x62, 0x6D, 0x70, 0]"

definition install_blob_file :: "'d dev \<Rightarrow> bytes \<Rightarrow> bytes \<Rightarrow> u32 \<Rightarrow> 'd \<Rightarrow> int \<times> 'd" where
  "install_blob_file D name data len d =
     (case tetfs_find D name TETFS_ROOT_INODE d of (idx, d) \<Rightarrow>
      case (if idx < 0 then tetfs_create D name TETFS_ROOT_INODE TETFS_TYPE_FILE d else (idx, d)) of (idx, d) \<Rightarrow>
        if idx < 0 then (-1, d)
        else case tetfs_write D (of_int idx) data len d of (r, d) \<Rightarrow> if r \<noteq> 0 then (-1, d) else (0, d))"

definition appseed_install :: "'d dev \<Rightarrow> bytes \<Rightarrow> 'd tetfs \<Rightarrow> int \<times> 'd tetfs" where
  "appseed_install D blob fs =
     (if \<not> tetfs_is_mounted fs then (-1, fs)
      else let len = of_nat (length blob) in
        if len < of_nat sizeof_ehdr then (-1, fs)
        else if rd32 blob 0 \<noteq> ELF_MAGIC then (-1, fs)
        else case install_blob_file D name_hello_elf blob len (disk fs) of (r, d) \<Rightarrow>
          let fs = fs\<lparr>disk := d\<rparr> in
          if r \<noteq> 0 then (-1, fs)
          else case install_blob_file D name_demo_bmp demo_bmp_2x2 (of_nat (length demo_bmp_2x2)) (disk fs) of (r, d) \<Rightarrow>
            let fs = fs\<lparr>disk := d\<rparr> in
            if r \<noteq> 0 then (-1, fs)
            else case tetfs_find D name_hello_elf TETFS_ROOT_INODE (disk fs) of (idx, d) \<Rightarrow>
              let fs = fs\<lparr>disk := d\<rparr> in
              if idx < 0 then (-1, fs)
              else case tetfs_read D (of_int idx) 0 4 (disk fs) of ((n, bs), d) \<Rightarrow>
                let fs = fs\<lparr>disk := d\<rparr> in
                if n \<noteq> 4 then (-1, fs) else if rd32 bs 0 \<noteq> ELF_MAGIC then (-1, fs) else (0, fs))"

section \<open>What is installed\<close>

lemma bundled_names:
  "terminated name_hello_elf" "length (cstr name_hello_elf) \<le> 50" "terminated name_demo_bmp" "length (cstr name_demo_bmp) \<le> 50"
  "cstr name_hello_elf \<noteq> cstr name_demo_bmp" "length demo_bmp_2x2 \<le> 8192"
  by (simp_all add: name_hello_elf_def name_demo_bmp_def demo_bmp_2x2_def)

context reliable_dev
begin

lemma install_blob_ok:
  assumes inv: "fs_inv sec invar d" and v: "terminated name" "length (cstr name) \<le> 50" "length data \<le> 8192"
    and run: "install_blob_file D name data (of_nat (length data)) d = (r, d')"
  shows "fs_inv sec invar d' \<and> (r = 0 \<longrightarrow> fs_map (sec d') = (fs_map (sec d))((TETFS_ROOT_INODE, cstr name) \<mapsto> (TETFS_TYPE_FILE, data))) \<and> (r = 0 \<or> r = -1)"
proof -
  obtain k d1 where k: "tetfs_find D name TETFS_ROOT_INODE d = (k, d1)" by force
  note F = find_entry [OF inv v(1) k]
  then have d1: "fs_inv sec invar d1" "sec d1 = sec d" using inv by (simp_all add: fs_inv_def)
  obtain q d2 where q: "(if k < 0 then tetfs_create D name TETFS_ROOT_INODE TETFS_TYPE_FILE d1 else (k, d1)) = (q, d2)" by force
  have Q: "fs_inv sec invar d2 \<and> (0 \<le> q \<longrightarrow> (\<exists>i. q = int (unat i) \<and> 0 < i \<and> i < TETFS_MAX_INODES \<and> named (sec d2) (cstr name) 0 i) \<and>
      (\<forall>x. (fs_map (sec d2))((0, cstr name) \<mapsto> x) = (fs_map (sec d))((0, cstr name) \<mapsto> x)))"
  proof (cases "k < 0")
    case True
    then have "tetfs_create D name TETFS_ROOT_INODE TETFS_TYPE_FILE d1 = (q, d2)" using q by simp
    from step_make [OF d1(1) v(1,2) _ this] show ?thesis using d1(2) by (auto split: if_splits)
  next
    case False
    then show ?thesis using q F d1 by auto
  qed
  show ?thesis
  proof (cases "q < 0")
    case True
    then show ?thesis using run k q Q by (auto simp: install_blob_file_def)
  next
    case False
    then obtain i where i: "q = int (unat i)" "0 < i" "i < TETFS_MAX_INODES" "named (sec d2) (cstr name) 0 i" using Q by auto
    obtain w d3 where w: "tetfs_write D i data (of_nat (length data)) d2 = (w, d3)" by force
    have "d' = d3" "r = (if w = 0 then 0 else -1)" using run k q False w i(1) by (auto simp: install_blob_file_def split: if_splits)
    then show ?thesis using step_put [OF _ i(2-4) v(3) w] Q False by auto
  qed
qed

end

text \<open>
  Seeding the disk installs both bundled files: when appseed_install reports success, the root directory maps hello.elf to
  the whole linked program image, which starts with the ELF magic, and demo.bmp to the bundled picture, and every other
  entry of the disk is as it was; in every case the disk stays well formed with unique names. Without a mounted file system nothing
  is touched.
\<close>
theorem appseed_installs:
  assumes "reliable_dev D sec invar" "fs_inv sec invar (disk fs)" "length blob \<le> 8192" "appseed_install D blob fs = (r, fs')"
  shows "fs_inv sec invar (disk fs') \<and> fs_mounted fs' = fs_mounted fs \<and> (r = 0 \<or> r = -1) \<and> (\<not> fs_mounted fs \<longrightarrow> fs' = fs) \<and>
    (r = 0 \<longrightarrow> rd32 blob 0 = ELF_MAGIC \<and> sizeof_ehdr \<le> length blob \<and>
       fs_map (sec (disk fs')) = (fs_map (sec (disk fs)))
         ((TETFS_ROOT_INODE, cstr name_hello_elf) \<mapsto> (TETFS_TYPE_FILE, blob), (TETFS_ROOT_INODE, cstr name_demo_bmp) \<mapsto> (TETFS_TYPE_FILE, demo_bmp_2x2)))"
proof -
  let ?len = "of_nat (length blob) :: u32"
  have len: "\<not> ?len < of_nat sizeof_ehdr \<longleftrightarrow> sizeof_ehdr \<le> length blob"
    using assms(3) by (simp add: word_less_nat_alt unat_of_nat_small not_less)
  show ?thesis
  proof (cases "\<not> fs_mounted fs \<or> ?len < of_nat sizeof_ehdr \<or> rd32 blob 0 \<noteq> ELF_MAGIC")
    case True
    then have "appseed_install D blob fs = (-1, fs)"
      by (elim disjE) (simp_all add: appseed_install_def tetfs_is_mounted_def Let_def)
    then show ?thesis using assms(2,4) by simp
  next
    case False
    obtain r1 d1 where one: "install_blob_file D name_hello_elf blob ?len (disk fs) = (r1, d1)" by force
    note A = reliable_dev.install_blob_ok [OF assms(1,2) bundled_names(1,2) assms(3) one]
    show ?thesis
    proof (cases "r1 = 0")
      case r1: False
      then have "appseed_install D blob fs = (-1, fs\<lparr>disk := d1\<rparr>)"
        using False one by (simp add: appseed_install_def tetfs_is_mounted_def Let_def)
      then show ?thesis using A False assms(4) by auto
    next
      case r1: True
      obtain r2 d2 where two: "install_blob_file D name_demo_bmp demo_bmp_2x2 (of_nat (length demo_bmp_2x2)) d1 = (r2, d2)" by force
      have d1: "fs_inv sec invar d1" using A by blast
      note B = reliable_dev.install_blob_ok [OF assms(1) d1 bundled_names(3,4,6) two]
      show ?thesis
      proof (cases "r2 = 0")
        case r2: False
        then have "appseed_install D blob fs = (-1, fs\<lparr>disk := d2\<rparr>)"
          using False one two r1 by (simp add: appseed_install_def tetfs_is_mounted_def Let_def)
        then show ?thesis using B False assms(4) by auto
      next
        case r2: True
        obtain k d3 where k: "tetfs_find D name_hello_elf TETFS_ROOT_INODE d2 = (k, d3)" by force
        have d2: "fs_inv sec invar d2" using B by blast
        note F = reliable_dev.find_entry [OF assms(1) d2 bundled_names(1) k]
        have m: "fs_map (sec d2) = (fs_map (sec (disk fs)))
            ((TETFS_ROOT_INODE, cstr name_hello_elf) \<mapsto> (TETFS_TYPE_FILE, blob), (TETFS_ROOT_INODE, cstr name_demo_bmp) \<mapsto> (TETFS_TYPE_FILE, demo_bmp_2x2))"
          using A B r1 r2 by simp
        then have "fs_map (sec d2) (TETFS_ROOT_INODE, cstr name_hello_elf) = Some (TETFS_TYPE_FILE, blob)" using bundled_names(5) by simp
        then obtain i where i: "k = int (unat i)" "i < TETFS_MAX_INODES" "entry_at (sec d2) i = (TETFS_TYPE_FILE, blob)"
          using F by (auto split: if_splits)
        have d3: "invar d3" "sec d3 = sec d2" "fs_wf (sec d3)" using F d2 by (simp_all add: fs_inv_def)
        have ty: "i_type (inode_at (sec d3) i) = TETFS_TYPE_FILE" using i(3) d3(2) by (simp add: entry_at_def)
        obtain n bs d4 where rd: "tetfs_read D i 0 4 d3 = ((n, bs), d4)" by (metis surj_pair)
        have d4: "invar d4" "sec d4 = sec d2"
          using reliable_dev.tetfs_read_ok [OF assms(1) d3(1,3) i(2) ty, of 0 4] rd d3(2) by (auto simp: Let_def)
        have "fs' = fs\<lparr>disk := d4\<rparr> \<and> (r = 0 \<or> r = -1)"
          using assms(4) False one two r1 r2 k i(1) rd
          by (simp add: appseed_install_def tetfs_is_mounted_def Let_def split: prod.splits if_splits)
        moreover have "fs_inv sec invar d4" using d4 d2 by (simp add: fs_inv_def)
        ultimately show ?thesis using m d4(2) False len by auto
      qed
    qed
  qed
qed

text \<open>A program image of one header.\<close>

definition elf_small :: bytes where
  "elf_small = [0x7F, 0x45, 0x4C, 0x46] @ replicate 48 0"

theorem appseed_installs_witness:
  "\<exists>r fs'. appseed_install adev elf_small \<lparr>fs_mounted = True, fd_table = [], disk = fs_boot\<rparr> = (r, fs') \<and> fs_inv sim_sec sim_ok (disk fs') \<and>
     (r = -1 \<or> fs_map (sim_sec (disk fs')) (0, cstr name_demo_bmp) = Some (TETFS_TYPE_FILE, demo_bmp_2x2))"
proof -
  let ?fs = "\<lparr>fs_mounted = True, fd_table = [], disk = fs_boot\<rparr>"
  obtain r fs' where run: "appseed_install adev elf_small ?fs = (r, fs')" by force
  have "fs_inv sim_sec sim_ok (disk ?fs)" using fs_inv_boot(1) by simp
  from appseed_installs [OF reliable_adev this _ run] run show ?thesis by (auto simp: elf_small_def)
qed

end
