(* ===== verification/Shell.thy ===== *)
theory Shell
  imports Stdio Keyboard CString "HOL-Library.Monad_Syntax"
begin

text \<open>
  The line editor of the shell, \<open>kernel/shell/shell.c\<close>: the input line with its cursor and view, the
  history, the prompt and the editing keys. Strings that live in a buffer are byte lists with a NUL;
  literals are written with \<open>ascii\<close>, without it. The commands are in ShellCmd.
\<close>

section \<open>Strings and colours\<close>

definition ascii :: "string \<Rightarrow> bytes" where
  "ascii s = map of_char s"

definition ascii_line :: "string \<Rightarrow> bytes" where
  "ascii_line s = ascii s @ [0x0A]"

text \<open>The characters of a C string; \<open>None\<close> when no NUL ends it.\<close>

definition c_string :: "bytes \<Rightarrow> bytes option" where
  "c_string p = (if terminated p then Some (cstr p) else None)"

text \<open>\<open>strcmp(p, "s") == 0\<close>.\<close>

definition streq :: "bytes \<Rightarrow> string \<Rightarrow> bool" where
  "streq p s \<longleftrightarrow> strcmp p (ascii s @ [0]) = Some 0"

abbreviation "VGA_COLOR_LIGHT_GREY \<equiv> (7 :: u8)"
abbreviation "VGA_COLOR_LIGHT_GREEN \<equiv> (10 :: u8)"
abbreviation "VGA_COLOR_LIGHT_CYAN \<equiv> (11 :: u8)"
abbreviation "VGA_COLOR_LIGHT_RED \<equiv> (12 :: u8)"
abbreviation "VGA_COLOR_LIGHT_MAGENTA \<equiv> (13 :: u8)"
abbreviation "VGA_COLOR_YELLOW \<equiv> (14 :: u8)"

abbreviation "KEY_UP \<equiv> (0x100 :: u16)"
abbreviation "KEY_DOWN \<equiv> (0x101 :: u16)"
abbreviation "KEY_LEFT \<equiv> (0x102 :: u16)"
abbreviation "KEY_RIGHT \<equiv> (0x103 :: u16)"
abbreviation "KEY_HOME \<equiv> (0x104 :: u16)"
abbreviation "KEY_END \<equiv> (0x105 :: u16)"
abbreviation "KEY_DELETE \<equiv> (0x109 :: u16)"
abbreviation "KEY_F1 \<equiv> (0x120 :: u16)"
abbreviation "KEY_F2 \<equiv> (0x121 :: u16)"
abbreviation "KEY_F3 \<equiv> (0x122 :: u16)"

section \<open>State\<close>

abbreviation "COMMAND_BUFFER_SIZE \<equiv> (256 :: u32)"
abbreviation "SHELL_HISTORY_SIZE \<equiv> (32 :: u32)"

record shell =
  command_buffer :: bytes
  command_len :: u32
  command_cursor :: u32
  command_view :: u32
  prompt_row :: u32
  command_history :: "bytes list"
  history_count :: u32
  history_index :: int
  history_saved_current :: bytes
  history_saved_valid :: u8
  cwd_inode :: u16
  cwd_path :: bytes

text \<open>The static variables as the loader leaves them.\<close>

definition shell_boot :: shell where
  "shell_boot = \<lparr>command_buffer = replicate 256 0, command_len = 0, command_cursor = 0, command_view = 0, prompt_row = 1,
     command_history = replicate 32 (replicate 256 0), history_count = 0, history_index = -1,
     history_saved_current = replicate 256 0, history_saved_valid = 0,
     cwd_inode = 0, cwd_path = 0x2F # replicate 127 0\<rparr>"

section \<open>The prompt and the input line\<close>

definition shell_write_prompt_prefix :: "'m ports \<Rightarrow> shell \<Rightarrow> 'm \<times> vga \<Rightarrow> ('m \<times> vga) option" where
  "shell_write_prompt_prefix P sh c = do {
     path \<leftarrow> c_string (cwd_path sh);
     let c = vga_write_color P (ascii ''teto'') VGA_COLOR_LIGHT_CYAN VGA_COLOR_BLACK c;
     let c = vga_write_color P (ascii ''@'') VGA_COLOR_WHITE VGA_COLOR_BLACK c;
     let c = vga_write_color P (ascii ''tetOS'') VGA_COLOR_LIGHT_GREEN VGA_COLOR_BLACK c;
     let c = vga_write_color P (ascii '':'') VGA_COLOR_WHITE VGA_COLOR_BLACK c;
     let c = vga_write_color P path VGA_COLOR_YELLOW VGA_COLOR_BLACK c;
     Some (vga_write P (ascii '' $ '') c)
   }"

definition shell_prompt_cols :: "shell \<Rightarrow> u32 option" where
  "shell_prompt_cols sh = map_option (\<lambda>n. 14 + of_nat n) (strlen (cwd_path sh))"

text \<open>The three adjustments that keep the cursor inside the visible columns.\<close>

definition scroll_view :: "u32 \<Rightarrow> u32 \<Rightarrow> u32 \<Rightarrow> u32" where
  "scroll_view visible_cols cursor view =
     (let view = (if cursor < view then cursor else view);
          view = (if view + visible_cols < cursor then cursor - visible_cols else view)
      in if cursor = view + visible_cols then cursor - visible_cols + 1 else view)"

text \<open>The column \<open>i\<close> of the input line.\<close>

definition input_char :: "shell \<Rightarrow> nat \<Rightarrow> u8" where
  "input_char sh i =
     (let idx = command_view sh + of_nat i in if idx < command_len sh then command_buffer sh ! unat idx else 0x20)"

definition visible_columns :: "u32 \<Rightarrow> u32" where
  "visible_columns prompt_cols = (if prompt_cols < VGA_WIDTH then VGA_WIDTH - prompt_cols else 1)"

definition shell_render_input_line :: "'m ports \<Rightarrow> shell \<times> 'm \<times> vga \<Rightarrow> (shell \<times> 'm \<times> vga) option" where
  "shell_render_input_line P st = (case st of (sh, c) \<Rightarrow> do {
     prompt_cols \<leftarrow> shell_prompt_cols sh;
     let visible_cols = visible_columns prompt_cols;
     let sh = sh\<lparr>command_view := scroll_view visible_cols (command_cursor sh) (command_view sh)\<rparr>;
     let c = vga_set_cursor P 0 (prompt_row sh) c;
     c \<leftarrow> shell_write_prompt_prefix P sh c;
     let c = fold (\<lambda>i. vga_putchar P (input_char sh i)) [0..<unat visible_cols] c;
     Some (sh, vga_set_cursor P (prompt_cols + (command_cursor sh - command_view sh)) (prompt_row sh) c)
   })"

definition shell_set_input :: "'m ports \<Rightarrow> bytes \<Rightarrow> shell \<times> 'm \<times> vga \<Rightarrow> (shell \<times> 'm \<times> vga) option" where
  "shell_set_input P line st = (case st of (sh, c) \<Rightarrow>
     let text = copy_chars 255 line; i = of_nat (length text) in
     shell_render_input_line P
       (sh\<lparr>command_buffer := blit (command_buffer sh) 0 (text @ [0]), command_len := i, command_cursor := i, command_view := 0\<rparr>, c))"

text \<open>The prompt is never put on the line of the history banner.\<close>

definition shell_print_prompt :: "'m ports \<Rightarrow> shell \<times> 'm \<times> vga \<Rightarrow> (shell \<times> 'm \<times> vga) option" where
  "shell_print_prompt P st = (case st of (sh, c) \<Rightarrow>
     let c = (if snd (vga_get_cursor (snd c)) = 0 then vga_set_cursor P 0 1 c else c);
         c = (if fst (vga_get_cursor (snd c)) \<noteq> 0 then apsnd vga_newline c else c);
         c = (if snd (vga_get_cursor (snd c)) = 0 then apsnd vga_newline c else c);
         sh = sh\<lparr>prompt_row := snd (vga_get_cursor (snd c)), command_view := 0\<rparr>
     in map_option (Pair sh) (shell_write_prompt_prefix P sh c))"

section \<open>The history\<close>

text \<open>The banner is built left to right in 80 columns: the last three commands, separated by bars.\<close>

definition banner_entry :: "shell \<Rightarrow> nat \<Rightarrow> nat \<Rightarrow> bytes \<Rightarrow> bytes" where
  "banner_entry sh start i line =
     (if length line < 80
      then let line = (if i \<noteq> start \<and> length line + 3 < 80 then line @ ascii '' | '' else line)
           in line @ copy_chars (80 - length line) (command_history sh ! i)
      else line)"

definition banner_line :: "shell \<Rightarrow> bytes" where
  "banner_line sh =
     (let line = ascii ''HIST: '';
          count = unat (history_count sh);
          start = (if 3 < history_count sh then count - 3 else 0);
          line = (if history_count sh = 0 then line @ ascii ''(empty)'' else fold (banner_entry sh start) [start..<count] line)
      in line @ replicate (80 - length line) 0x20)"

definition shell_update_history_banner :: "'m ports \<Rightarrow> shell \<Rightarrow> 'm \<times> vga \<Rightarrow> 'm \<times> vga" where
  "shell_update_history_banner P sh c =
     (case vga_get_cursor (snd c) of (cx, cy) \<Rightarrow>
        let c = vga_set_cursor P 0 0 c;
            c = vga_write_color P (banner_line sh) VGA_COLOR_BLACK VGA_COLOR_LIGHT_GREY c
        in vga_set_cursor P cx cy c)"

text \<open>The loop that moves every entry to the place of the one before it.\<close>

fun history_shift :: "nat list \<Rightarrow> bytes list \<Rightarrow> bytes list option" where
  "history_shift [] h = Some h"
| "history_shift (i # is) h = do { e \<leftarrow> strcpy (h ! (i - 1)) (h ! i); history_shift is (h[i - 1 := e]) }"

definition history_add :: "bytes \<Rightarrow> shell \<Rightarrow> shell option" where
  "history_add cmd sh =
     (if history_count sh < SHELL_HISTORY_SIZE
      then do { e \<leftarrow> strcpy (command_history sh ! unat (history_count sh)) cmd;
                Some (sh\<lparr>command_history := (command_history sh)[unat (history_count sh) := e], history_count := history_count sh + 1\<rparr>) }
      else do { h \<leftarrow> history_shift [1..<32] (command_history sh);
                e \<leftarrow> strcpy (h ! 31) cmd;
                Some (sh\<lparr>command_history := h[31 := e]\<rparr>) })"

definition shell_history_push :: "'m ports \<Rightarrow> bytes \<Rightarrow> shell \<times> 'm \<times> vga \<Rightarrow> (shell \<times> 'm \<times> vga) option" where
  "shell_history_push P cmd st = (case st of (sh, c) \<Rightarrow>
     if cmd ! 0 = 0 then Some (sh, c)
     else do {
       same \<leftarrow> (if 0 < history_count sh
         then map_option (\<lambda>r. r = 0) (strcmp (command_history sh ! unat (history_count sh - 1)) cmd) else Some False);
       if same then Some (sh, c)
       else do { sh \<leftarrow> history_add cmd sh; Some (sh, shell_update_history_banner P sh c) }
     })"

definition shell_history_up :: "'m ports \<Rightarrow> shell \<times> 'm \<times> vga \<Rightarrow> (shell \<times> 'm \<times> vga) option" where
  "shell_history_up P st = (case st of (sh, c) \<Rightarrow>
     if history_count sh = 0 then Some (sh, c)
     else do {
       sh \<leftarrow> (if history_saved_valid sh = 0
         then do { b \<leftarrow> strcpy (history_saved_current sh) (command_buffer sh);
                   Some (sh\<lparr>history_saved_current := b, history_saved_valid := 1\<rparr>) }
         else Some sh);
       let i = history_index sh;
       let sh = sh\<lparr>history_index := (if i < 0 then uint (history_count sh) - 1 else if 0 < i then i - 1 else i)\<rparr>;
       shell_set_input P (command_history sh ! nat (history_index sh)) (sh, c)
     })"

definition shell_history_down :: "'m ports \<Rightarrow> shell \<times> 'm \<times> vga \<Rightarrow> (shell \<times> 'm \<times> vga) option" where
  "shell_history_down P st = (case st of (sh, c) \<Rightarrow>
     if history_index sh < 0 then Some (sh, c)
     else if history_index sh < uint (history_count sh) - 1
     then let sh = sh\<lparr>history_index := history_index sh + 1\<rparr>
          in shell_set_input P (command_history sh ! nat (history_index sh)) (sh, c)
     else do {
       let sh = sh\<lparr>history_index := -1\<rparr>;
       (sh, c) \<leftarrow> (if history_saved_valid sh \<noteq> 0 then shell_set_input P (history_saved_current sh) (sh, c) else Some (sh, c));
       Some (sh\<lparr>history_saved_valid := 0\<rparr>, c)
     })"

section \<open>Help\<close>

definition write_lines :: "'m ports \<Rightarrow> string list \<Rightarrow> 'm \<times> vga \<Rightarrow> 'm \<times> vga" where
  "write_lines P ls c = fold (\<lambda>l. vga_write P (ascii_line l)) ls c"

definition help_all :: "string list" where
  "help_all =
    [''Help topics:'',
     ''  help core  - System info, display, basic shell'',
     ''  help fs    - Filesystem create/read/write/delete'',
     ''  help proc  - Process, user-mode, and ELF execution'',
     ''  help bmp   - Bitmap inspection and rendering'',
     ''  help keys  - Input editor, history, and shortcuts'']"

definition help_core :: "string list" where
  "help_core =
    [''Core commands:'',
     ''  help [topic]        Show help topic (core/fs/proc/bmp/keys)'',
     ''  clear               Clear screen and redraw prompt'',
     ''  echo <text>         Print text exactly as typed'',
     ''  uptime              Show running time (hh:mm:ss)'',
     ''  mem                 Show PMM and kernel heap usage'',
     ''  disk                Show ATA model, sectors, and size'',
     ''  about               Show project info'',
     ''  teto                Show teto ascii art'']"

definition help_fs :: "string list" where
  "help_fs =
    [''Filesystem commands:'',
     ''  format              Create fresh tetFS layout on disk'',
     ''  seed                Install bundled files (hello.elf, demo.bmp)'',
     ''  ls                  List files in current directory'',
     ''  cd <dir>            Change directory'',
     ''  pwd                 Print current path'',
     ''  touch <file>        Create empty file'',
     ''  mkdir <dir>         Create directory'',
     ''  cat <file>          Print file content'',
     ''  write <f> <text>    Overwrite file with text'',
     ''  rm <name>           Delete file or directory'']"

definition help_proc :: "string list" where
  "help_proc =
    [''Process/exec commands:'',
     ''  ps                  List process table'',
     ''  spawn               Start kernel demo process'',
     ''  kill <pid>          Kill process by PID'',
     ''  utest               Spawn ring3 syscall demo'',
     ''  run <file.elf>      Execute ELF from tetFS'']"

definition help_bmp :: "string list" where
  "help_bmp =
    [''Bitmap commands:'',
     ''  bmpinfo <file.bmp>  Show width/height/bpp/compression'',
     ''  bmpview <file.bmp>  Render BMP to graphics buffer'',
     ''  Supported: uncompressed 8-bit and 24-bit BMP'']"

definition help_keys :: "string list" where
  "help_keys =
    [''Keyboard shortcuts:'',
     ''  Up/Down              Browse command history'',
     ''  Left/Right/Home/End  Move cursor inside current input'',
     ''  Backspace/Delete     Delete before/at cursor'',
     ''  Ctrl+L or F2         Clear screen'',
     ''  F1                   Open this keys help'',
     ''  F3                   Load last command into input'',
     ''  Long input lines auto-scroll horizontally'',
     ''  Top line shows recent history summary'']"

definition shell_help_topic :: "'m ports \<Rightarrow> bytes \<Rightarrow> 'm \<times> vga \<Rightarrow> 'm \<times> vga" where
  "shell_help_topic P topic c =
     (if topic ! 0 = 0 \<or> streq topic ''all'' then write_lines P help_all c
      else if streq topic ''core'' then write_lines P help_core c
      else if streq topic ''fs'' then write_lines P help_fs c
      else if streq topic ''proc'' then write_lines P help_proc c
      else if streq topic ''bmp'' then write_lines P help_bmp c
      else if streq topic ''keys'' then write_lines P help_keys c
      else vga_write P (ascii_line ''Unknown help topic. Use: help core|fs|proc|bmp|keys'') c)"

section \<open>The editing keys\<close>

text \<open>The loops that close and open a gap in the buffer.\<close>

definition close_gap :: "nat \<Rightarrow> nat \<Rightarrow> bytes \<Rightarrow> bytes" where
  "close_gap a n b = fold (\<lambda>i b. b[i := b ! (i + 1)]) [a..<n] b"

definition open_gap :: "nat \<Rightarrow> nat \<Rightarrow> bytes \<Rightarrow> bytes" where
  "open_gap a n b = fold (\<lambda>i b. b[i := b ! (i - 1)]) (rev [a + 1..<n + 2]) b"

definition insert_char :: "u8 \<Rightarrow> shell \<Rightarrow> shell" where
  "insert_char ch sh =
     (let b = open_gap (unat (command_cursor sh)) (unat (command_len sh)) (command_buffer sh);
          b = b[unat (command_cursor sh) := ch];
          n = command_len sh + 1
      in sh\<lparr>command_buffer := b[unat n := 0], command_len := n, command_cursor := command_cursor sh + 1\<rparr>)"

definition erase_before :: "shell \<Rightarrow> shell" where
  "erase_before sh =
     sh\<lparr>command_buffer := close_gap (unat (command_cursor sh - 1)) (unat (command_len sh)) (command_buffer sh),
        command_len := command_len sh - 1, command_cursor := command_cursor sh - 1\<rparr>"

definition erase_at :: "shell \<Rightarrow> shell" where
  "erase_at sh =
     sh\<lparr>command_buffer := close_gap (unat (command_cursor sh)) (unat (command_len sh)) (command_buffer sh),
        command_len := command_len sh - 1\<rparr>"

definition shell_clear_screen :: "'m ports \<Rightarrow> shell \<times> 'm \<times> vga \<Rightarrow> (shell \<times> 'm \<times> vga) option" where
  "shell_clear_screen P st = (case st of (sh, c) \<Rightarrow> do {
     st \<leftarrow> shell_print_prompt P (sh, shell_update_history_banner P sh (vga_clear P c));
     shell_render_input_line P st
   })"

text \<open>What \<open>shell_run\<close> does with a key other than Enter; \<open>ctrl\<close> is the value of \<open>keyboard_ctrl_down\<close>.\<close>

definition shell_edit_key :: "'m ports \<Rightarrow> bool \<Rightarrow> u16 \<Rightarrow> shell \<times> 'm \<times> vga \<Rightarrow> (shell \<times> 'm \<times> vga) option" where
  "shell_edit_key P ctrl key st = (case st of (sh, c) \<Rightarrow>
     if key = KEY_BACKSPACE then
       if 0 < command_cursor sh then shell_render_input_line P (erase_before sh, c) else Some (sh, c)
     else if key = KEY_DELETE then
       if command_cursor sh < command_len sh then shell_render_input_line P (erase_at sh, c) else Some (sh, c)
     else if key = KEY_LEFT then
       if 0 < command_cursor sh
       then shell_render_input_line P (sh\<lparr>command_cursor := command_cursor sh - 1\<rparr>, c) else Some (sh, c)
     else if key = KEY_RIGHT then
       if command_cursor sh < command_len sh
       then shell_render_input_line P (sh\<lparr>command_cursor := command_cursor sh + 1\<rparr>, c) else Some (sh, c)
     else if key = KEY_HOME then shell_render_input_line P (sh\<lparr>command_cursor := 0\<rparr>, c)
     else if key = KEY_END then shell_render_input_line P (sh\<lparr>command_cursor := command_len sh\<rparr>, c)
     else if key = KEY_UP then shell_history_up P (sh, c)
     else if key = KEY_DOWN then shell_history_down P (sh, c)
     else if key = KEY_F1 then do {
       let c = shell_help_topic P (ascii ''keys'' @ [0]) (vga_write P [0x0A] c);
       st \<leftarrow> shell_print_prompt P (sh, c);
       shell_render_input_line P st
     }
     else if key = KEY_F2 then shell_clear_screen P (sh, c)
     else if key = KEY_F3 then
       if 0 < history_count sh
       then shell_set_input P (command_history sh ! unat (history_count sh - 1)) (sh, c) else Some (sh, c)
     else if key < 0x100 then
       let ch = ucast key in
       if ctrl \<and> (ch = 0x6C \<or> ch = 0x4C) then shell_clear_screen P (sh, c)
       else if 0x20 \<le>s ch \<and> ch \<le>s 0x7E \<and> command_len sh < COMMAND_BUFFER_SIZE - 1 then do {
         (sh, c) \<leftarrow> shell_render_input_line P (insert_char ch sh, c);
         Some (sh\<lparr>history_index := -1, history_saved_valid := 0\<rparr>, c)
       }
       else Some (sh, c)
     else Some (sh, c))"

text \<open>A run of keys, each with the state of Ctrl when it is read.\<close>

fun shell_edit_keys :: "'m ports \<Rightarrow> (bool \<times> u16) list \<Rightarrow> shell \<times> 'm \<times> vga \<Rightarrow> (shell \<times> 'm \<times> vga) option" where
  "shell_edit_keys P [] st = Some st"
| "shell_edit_keys P ((ctrl, key) # ks) st = do { st \<leftarrow> shell_edit_key P ctrl key st; shell_edit_keys P ks st }"

section \<open>Numbers\<close>

text \<open>\<open>parse_u32\<close>: the inner option is the result of the function, the outer one the end of the object.\<close>

fun parse_digits :: "u32 \<Rightarrow> bytes \<Rightarrow> u32 option option" where
  "parse_digits v [] = None"
| "parse_digits v (d # s) =
     (if d = 0 then Some (Some v)
      else if d <s 0x30 \<or> 0x39 <s d then Some None
      else parse_digits (v * 10 + (scast d - 0x30)) s)"

definition parse_u32 :: "bytes \<Rightarrow> u32 option option" where
  "parse_u32 s = (if s ! 0 = 0 then Some None else parse_digits 0 s)"

section \<open>Start\<close>

definition shell_init :: "'m ports \<Rightarrow> shell \<times> 'm \<times> vga \<Rightarrow> shell \<times> 'm \<times> vga" where
  "shell_init P st = (case st of (sh, c) \<Rightarrow>
     let sh = sh\<lparr>command_len := 0, command_cursor := 0, command_view := 0, prompt_row := 1, history_count := 0,
                 history_index := -1, history_saved_valid := 0, command_buffer := replicate 256 0\<rparr>
     in (sh, shell_update_history_banner P sh c))"

end
