(* ===== verification/ShellProps.thy ===== *)
theory ShellProps
  imports Shell
begin

text \<open>
  The line editor of the shell against an editor that holds the text before and after the cursor as
  two lists, and what the input line shows.
\<close>

section \<open>The buffers\<close>

lemma cstr_split: "terminated b \<Longrightarrow> b = cstr b @ 0 # drop (Suc (length (cstr b))) b"
  by (induction b) auto

lemma terminated_split: "terminated b \<Longrightarrow> take (length (cstr b)) b = cstr b \<and> b ! length (cstr b) = 0"
  by (induction b) auto

lemma close_gap_eq:
  "a \<le> n \<Longrightarrow> n < length b \<Longrightarrow> close_gap a n b = take a b @ take (n - a) (drop (a + 1) b) @ drop n b"
proof (induction n)
  case (Suc n)
  show ?case
  proof (cases "a = Suc n")
    case True
    then show ?thesis by (simp add: close_gap_def)
  next
    case False
    then have a: "a \<le> n" using Suc.prems by simp
    let ?l = "take a b @ take (n - a) (drop (a + 1) b)"
    have l: "length ?l = n" using a Suc.prems by simp
    have "close_gap a (Suc n) b = (?l @ drop n b)[n := (?l @ drop n b) ! (n + 1)]"
      using Suc.IH a Suc.prems unfolding close_gap_def by simp
    also have "(?l @ drop n b) ! (n + 1) = b ! Suc n"
      using Suc.prems l nth_append_length_plus [of ?l "drop n b" 1] by simp
    also have "(?l @ drop n b)[n := b ! Suc n] = ?l @ b ! Suc n # drop (Suc n) b"
      using Suc.prems l by (simp add: list_update_append Cons_nth_drop_Suc [symmetric])
    also have "\<dots> = take a b @ take (Suc n - a) (drop (a + 1) b) @ drop (Suc n) b"
      using a Suc.prems by (simp add: Suc_diff_le take_Suc_conv_app_nth)
    finally show ?thesis .
  qed
qed (simp add: close_gap_def)

lemma open_gap_eq:
  "k \<le> n + 1 \<Longrightarrow> n + 1 < length b \<Longrightarrow> a = n + 1 - k \<Longrightarrow>
     open_gap a n b = take (a + 1) b @ take k (drop a b) @ drop (n + 2) b"
proof (induction k arbitrary: a)
  case (Suc k)
  let ?b = "take (a + 2) b @ take k (drop (a + 1) b) @ drop (n + 2) b"
  have a: "a + 1 = n + 1 - k" "a \<le> n" using Suc.prems by auto
  have "rev [a + 1..<n + 2] = rev [a + 2..<n + 2] @ [a + 1]" using a by (simp add: upt_conv_Cons)
  then have "open_gap a n b = (open_gap (a + 1) n b)[a + 1 := open_gap (a + 1) n b ! a]"
    by (simp add: open_gap_def)
  also have "\<dots> = ?b[a + 1 := ?b ! a]" using Suc.IH [of "a + 1"] Suc.prems a by simp
  also have "\<dots> = take (a + 1) b @ b ! a # take k (drop (a + 1) b) @ drop (n + 2) b"
    using a Suc.prems by (simp add: nth_append list_update_append take_Suc_conv_app_nth)
  also have "\<dots> = take (a + 1) b @ take (Suc k) (drop a b) @ drop (n + 2) b"
    using a Suc.prems by (simp add: Cons_nth_drop_Suc [symmetric])
  finally show ?case .
qed (simp add: open_gap_def)

text \<open>On a line: erasing and inserting one character.\<close>

lemma close_gap_line:
  "length (xs @ x # ys @ 0 # zs) = m \<Longrightarrow> close_gap (length xs) (Suc (length xs + length ys)) (xs @ x # ys @ 0 # zs) = xs @ ys @ 0 # 0 # zs"
  by (subst close_gap_eq) auto

lemma open_gap_line:
  assumes "a = length xs" "n = length xs + length ys" "z # zs = ws"
  shows "(open_gap a n (xs @ ys @ 0 # ws))[a := ch, n + 1 := 0] = xs @ ch # ys @ 0 # zs"
proof -
  have "open_gap a n (xs @ ys @ 0 # ws) = xs @ hd (ys @ [0]) # ys @ 0 # zs"
    by (subst open_gap_eq [where k = "length ys + 1"]) (use assms in \<open>auto simp: take_Suc_conv_app_nth hd_append hd_conv_nth nth_append Suc_le_eq\<close>)
  then show ?thesis using assms by (simp add: list_update_append)
qed

section \<open>The state of the shell\<close>

definition shell_inv :: "shell \<Rightarrow> bool" where
  "shell_inv sh \<longleftrightarrow>
     length (command_buffer sh) = 256 \<and> terminated (command_buffer sh) \<and>
     length (cstr (command_buffer sh)) = unat (command_len sh) \<and> command_cursor sh \<le> command_len sh \<and>
     length (command_history sh) = 32 \<and> (\<forall>e \<in> set (command_history sh). length e = 256 \<and> terminated e) \<and>
     unat (history_count sh) \<le> 32 \<and> - 1 \<le> history_index sh \<and> (0 \<le> history_index sh \<longrightarrow> nat (history_index sh) < unat (history_count sh)) \<and>
     length (history_saved_current sh) = 256 \<and> terminated (history_saved_current sh) \<and>
     (history_saved_valid sh \<noteq> 0 \<longleftrightarrow> 0 \<le> history_index sh) \<and>
     length (cwd_path sh) = 128 \<and> terminated (cwd_path sh)"

text \<open>What the user works with: the text around the cursor, the history, where in it the line came from, and
  the line put aside while browsing.\<close>

record editor =
  ed_left :: bytes
  ed_right :: bytes
  ed_history :: "bytes list"
  ed_pos :: "nat option"
  ed_saved :: bytes

definition editor_of :: "shell \<Rightarrow> editor" where
  "editor_of sh = \<lparr>ed_left = take (unat (command_cursor sh)) (cstr (command_buffer sh)),
     ed_right = drop (unat (command_cursor sh)) (cstr (command_buffer sh)),
     ed_history = map cstr (take (unat (history_count sh)) (command_history sh)),
     ed_pos = (if history_index sh < 0 then None else Some (nat (history_index sh))),
     ed_saved = (if history_index sh < 0 then [] else cstr (history_saved_current sh))\<rparr>"

definition ed_line :: "editor \<Rightarrow> bytes" where
  "ed_line e = ed_left e @ ed_right e"

definition ed_load :: "bytes \<Rightarrow> editor \<Rightarrow> editor" where
  "ed_load t e = e\<lparr>ed_left := t, ed_right := []\<rparr>"

definition ed_up :: "editor \<Rightarrow> editor" where
  "ed_up e =
     (if ed_history e = [] then e
      else let p = (case ed_pos e of None \<Rightarrow> length (ed_history e) - 1 | Some i \<Rightarrow> i - 1);
               saved = (case ed_pos e of None \<Rightarrow> ed_line e | Some i \<Rightarrow> ed_saved e)
           in ed_load (ed_history e ! p) e\<lparr>ed_pos := Some p, ed_saved := saved\<rparr>)"

definition ed_down :: "editor \<Rightarrow> editor" where
  "ed_down e =
     (case ed_pos e of
        None \<Rightarrow> e
      | Some i \<Rightarrow>
          if i + 1 < length (ed_history e) then ed_load (ed_history e ! (i + 1)) e\<lparr>ed_pos := Some (i + 1)\<rparr>
          else ed_load (ed_saved e) e\<lparr>ed_pos := None, ed_saved := []\<rparr>)"

definition ed_insert :: "u8 \<Rightarrow> editor \<Rightarrow> editor" where
  "ed_insert ch e =
     (if length (ed_line e) < 255 then e\<lparr>ed_left := ed_left e @ [ch], ed_pos := None, ed_saved := []\<rparr> else e)"

definition editor_key :: "bool \<times> u16 \<Rightarrow> editor \<Rightarrow> editor" where
  "editor_key = (\<lambda>(ctrl, key) e.
     if key = KEY_BACKSPACE then e\<lparr>ed_left := butlast (ed_left e)\<rparr>
     else if key = KEY_DELETE then e\<lparr>ed_right := tl (ed_right e)\<rparr>
     else if key = KEY_LEFT \<and> ed_left e \<noteq> []
     then e\<lparr>ed_left := butlast (ed_left e), ed_right := last (ed_left e) # ed_right e\<rparr>
     else if key = KEY_RIGHT \<and> ed_right e \<noteq> []
     then e\<lparr>ed_left := ed_left e @ [hd (ed_right e)], ed_right := tl (ed_right e)\<rparr>
     else if key = KEY_HOME then e\<lparr>ed_left := [], ed_right := ed_line e\<rparr>
     else if key = KEY_END then e\<lparr>ed_left := ed_line e, ed_right := []\<rparr>
     else if key = KEY_UP then ed_up e
     else if key = KEY_DOWN then ed_down e
     else if key = KEY_F3 \<and> ed_history e \<noteq> [] then ed_load (last (ed_history e)) e
     else if 0x20 \<le> key \<and> key \<le> 0x7E \<and> \<not> (ctrl \<and> (key = 0x6C \<or> key = 0x4C)) then ed_insert (ucast key) e
     else e)"

lemma shell_bounds:
  assumes "shell_inv sh"
  shows "unat (command_len sh) \<le> 255" "unat (command_cursor sh) \<le> unat (command_len sh)"
  using assms length_cstr_less [of "command_buffer sh"] by (auto simp: shell_inv_def word_le_nat_alt)

lemma prefix_defined: "terminated (cwd_path sh) \<Longrightarrow> \<exists>c'. shell_write_prompt_prefix P sh c = Some c'"
  by (simp add: shell_write_prompt_prefix_def c_string_def)

lemma cwd_terminated: "shell_inv sh \<Longrightarrow> terminated (cwd_path sh)"
  by (simp add: shell_inv_def)

text \<open>Drawing the line changes the view only.\<close>

lemma render_state:
  assumes "terminated (cwd_path sh)"
  shows "\<exists>v c'. shell_render_input_line P (sh, c) = Some (sh\<lparr>command_view := v\<rparr>, c')"
proof -
  from assms obtain n where "shell_prompt_cols sh = Some n"
    by (auto simp: shell_prompt_cols_def strlen_eq)
  moreover have "terminated (cwd_path (sh\<lparr>command_view := v\<rparr>))" for v using assms by simp
  ultimately show ?thesis using prefix_defined
    by (fastforce simp: shell_render_input_line_def Let_def split: Option.bind_split)
qed

lemma view_irrelevant [simp]:
  "shell_inv (sh\<lparr>command_view := v\<rparr>) = shell_inv sh" "editor_of (sh\<lparr>command_view := v\<rparr>) = editor_of sh"
  "shell_inv (sh\<lparr>prompt_row := r\<rparr>) = shell_inv sh" "editor_of (sh\<lparr>prompt_row := r\<rparr>) = editor_of sh"
  by (simp_all add: shell_inv_def editor_of_def)

text \<open>\<open>shell_becomes\<close>: the step has a result, keeps the invariant and leaves the editor \<open>e\<close>.\<close>

definition shell_becomes :: "editor \<Rightarrow> (shell \<times> 'm \<times> vga) option \<Rightarrow> bool" where
  "shell_becomes e r \<longleftrightarrow> (\<exists>sh c. r = Some (sh, c) \<and> shell_inv sh \<and> editor_of sh = e)"

lemma becomes_Some [simp]: "shell_becomes e (Some (sh, c)) \<longleftrightarrow> shell_inv sh \<and> editor_of sh = e"
  by (simp add: shell_becomes_def)

lemma render_becomes: "shell_inv sh \<Longrightarrow> shell_becomes (editor_of sh) (shell_render_input_line P (sh, c))"
  using render_state [OF cwd_terminated] by (fastforce simp: shell_becomes_def)

lemma prompt_state:
  assumes "shell_inv sh" shows "\<exists>r c'. shell_print_prompt P (sh, c) = Some (sh\<lparr>prompt_row := r, command_view := 0\<rparr>, c')"
proof -
  have "\<exists>r v. shell_print_prompt P (sh, c) = map_option (Pair (sh\<lparr>prompt_row := r, command_view := 0\<rparr>))
      (shell_write_prompt_prefix P (sh\<lparr>prompt_row := r, command_view := 0\<rparr>) v)"
    unfolding shell_print_prompt_def Let_def split by (intro exI) (rule refl)
  then obtain r v where p: "shell_print_prompt P (sh, c) = map_option (Pair (sh\<lparr>prompt_row := r, command_view := 0\<rparr>))
      (shell_write_prompt_prefix P (sh\<lparr>prompt_row := r, command_view := 0\<rparr>) v)" by blast
  have "terminated (cwd_path (sh\<lparr>prompt_row := r, command_view := 0\<rparr>))" using assms by (simp add: shell_inv_def)
  from prefix_defined [OF this, of P v] p show ?thesis by auto
qed

lemma prompt_render_becomes:
  "shell_inv sh \<Longrightarrow> shell_becomes (editor_of sh) (Option.bind (shell_print_prompt P (sh, c)) (shell_render_input_line P))"
proof -
  assume i: "shell_inv sh"
  then obtain r c' where p: "shell_print_prompt P (sh, c) = Some (sh\<lparr>prompt_row := r, command_view := 0\<rparr>, c')"
    using prompt_state by blast
  from render_becomes [of "sh\<lparr>prompt_row := r, command_view := 0\<rparr>" P c'] i show ?thesis by (simp add: p)
qed

section \<open>Every key\<close>

lemma inv_buffer:
  assumes "shell_inv sh"
  obtains zs where "command_buffer sh = ed_left (editor_of sh) @ ed_right (editor_of sh) @ 0 # zs"
    "length (ed_left (editor_of sh)) = unat (command_cursor sh)"
    "length (ed_right (editor_of sh)) = unat (command_len sh) - unat (command_cursor sh)"
    "length zs = 255 - unat (command_len sh)" "0 \<notin> set (ed_left (editor_of sh))" "0 \<notin> set (ed_right (editor_of sh))"
proof -
  define b zs where "b = command_buffer sh" and "zs = drop (Suc (length (cstr (command_buffer sh)))) (command_buffer sh)"
  have i: "terminated b" "length b = 256" "length (cstr b) = unat (command_len sh)" using assms by (simp_all add: shell_inv_def b_def)
  have lr: "cstr b = ed_left (editor_of sh) @ ed_right (editor_of sh)" by (simp add: editor_of_def b_def)
  have split: "b = cstr b @ 0 # zs" using cstr_split [OF i(1)] by (simp add: b_def zs_def)
  show ?thesis
  proof
    show "command_buffer sh = ed_left (editor_of sh) @ ed_right (editor_of sh) @ 0 # zs"
      using split lr by (simp add: b_def)
    show "length (ed_left (editor_of sh)) = unat (command_cursor sh)"
      "length (ed_right (editor_of sh)) = unat (command_len sh) - unat (command_cursor sh)"
      using i(3) shell_bounds [OF assms] by (simp_all add: editor_of_def b_def)
    show "length zs = 255 - unat (command_len sh)" using i by (simp add: zs_def b_def)
    have "0 \<notin> set (cstr b)" by simp
    then show "0 \<notin> set (ed_left (editor_of sh))" "0 \<notin> set (ed_right (editor_of sh))" unfolding lr by simp_all
  qed
qed

lemma edit_becomes:
  assumes "shell_inv sh" "b = l @ r @ 0 # zs" "0 \<notin> set l" "0 \<notin> set r" "length b = 256"
    and "unat n = length l + length r" "unat k = length l"
  shows "shell_inv (sh\<lparr>command_buffer := b, command_len := n, command_cursor := k\<rparr>)"
    "editor_of (sh\<lparr>command_buffer := b, command_len := n, command_cursor := k\<rparr>) = (editor_of sh)\<lparr>ed_left := l, ed_right := r\<rparr>"
proof -
  have "cstr b = l @ r" using assms(2-4) cstr_append_nul [of "l @ r" zs] by simp
  then show "shell_inv (sh\<lparr>command_buffer := b, command_len := n, command_cursor := k\<rparr>)"
    "editor_of (sh\<lparr>command_buffer := b, command_len := n, command_cursor := k\<rparr>) = (editor_of sh)\<lparr>ed_left := l, ed_right := r\<rparr>"
    using assms by (simp_all add: shell_inv_def editor_of_def word_le_nat_alt)
qed

lemma cursor_becomes:
  assumes "shell_inv sh" "ed_line (editor_of sh) = l @ r" "unat k = length l"
  shows "shell_inv (sh\<lparr>command_cursor := k\<rparr>)" "editor_of (sh\<lparr>command_cursor := k\<rparr>) = (editor_of sh)\<lparr>ed_left := l, ed_right := r\<rparr>"
proof -
  have "cstr (command_buffer sh) = l @ r" using assms(2) by (simp add: ed_line_def editor_of_def)
  then show "shell_inv (sh\<lparr>command_cursor := k\<rparr>)" "editor_of (sh\<lparr>command_cursor := k\<rparr>) = (editor_of sh)\<lparr>ed_left := l, ed_right := r\<rparr>"
    using assms by (simp_all add: shell_inv_def editor_of_def word_le_nat_alt)
qed

lemma editor_frame [simp]: "e\<lparr>ed_left := ed_left e, ed_right := x\<rparr> = e\<lparr>ed_right := x\<rparr>" "e\<lparr>ed_left := x, ed_right := ed_right e\<rparr> = e\<lparr>ed_left := x\<rparr>"
  by simp_all

lemma erase_before_becomes:
  assumes "shell_inv sh" "0 < command_cursor sh"
  shows "shell_inv (erase_before sh)" "editor_of (erase_before sh) = (editor_of sh)\<lparr>ed_left := butlast (ed_left (editor_of sh))\<rparr>"
proof -
  let ?e = "editor_of sh"
  obtain zs where b: "command_buffer sh = ed_left ?e @ ed_right ?e @ 0 # zs" "length (ed_left ?e) = unat (command_cursor sh)"
    "length (ed_right ?e) = unat (command_len sh) - unat (command_cursor sh)"
    "length zs = 255 - unat (command_len sh)" "0 \<notin> set (ed_left ?e)" "0 \<notin> set (ed_right ?e)" using inv_buffer [OF assms(1)] .
  from b(2) assms(2) have "ed_left ?e \<noteq> []" by (auto simp: word_less_nat_alt)
  then obtain xs x where l: "ed_left ?e = xs @ [x]" by (metis rev_exhaust)
  note bd = shell_bounds [OF assms(1)]
  have c: "unat (command_cursor sh - 1) = length xs" "unat (command_len sh - 1) = length xs + length (ed_right ?e)"
    "unat (command_len sh) = Suc (length xs + length (ed_right ?e))"
    using b(2,3) l bd by (simp_all add: unat_minus_le word_le_nat_alt)
  have g: "close_gap (unat (command_cursor sh - 1)) (unat (command_len sh)) (command_buffer sh) = xs @ ed_right ?e @ 0 # 0 # zs"
    using close_gap_line [OF refl, where xs = xs and x = x and ys = "ed_right ?e" and zs = zs] by (simp add: b(1) l c)
  have "length (xs @ ed_right ?e @ 0 # 0 # zs) = 256" using b(4) c bd by simp
  from edit_becomes [OF assms(1) refl _ b(6) this c(2,1)] b(5) l
  show "shell_inv (erase_before sh)" "editor_of (erase_before sh) = ?e\<lparr>ed_left := butlast (ed_left ?e)\<rparr>"
    by (simp_all add: erase_before_def g)
qed

lemma erase_at_becomes:
  assumes "shell_inv sh" "command_cursor sh < command_len sh"
  shows "shell_inv (erase_at sh)" "editor_of (erase_at sh) = (editor_of sh)\<lparr>ed_right := tl (ed_right (editor_of sh))\<rparr>"
proof -
  let ?e = "editor_of sh"
  obtain zs where b: "command_buffer sh = ed_left ?e @ ed_right ?e @ 0 # zs" "length (ed_left ?e) = unat (command_cursor sh)"
    "length (ed_right ?e) = unat (command_len sh) - unat (command_cursor sh)"
    "length zs = 255 - unat (command_len sh)" "0 \<notin> set (ed_left ?e)" "0 \<notin> set (ed_right ?e)" using inv_buffer [OF assms(1)] .
  from b(3) assms(2) obtain y ys where r: "ed_right ?e = y # ys" by (cases "ed_right ?e") (auto simp: word_less_nat_alt)
  note bd = shell_bounds [OF assms(1)]
  have c: "unat (command_len sh - 1) = length (ed_left ?e) + length ys"
    "unat (command_len sh) = Suc (length (ed_left ?e) + length ys)"
    using b(2,3) r bd by (simp_all add: unat_minus_le word_le_nat_alt)
  have g: "close_gap (unat (command_cursor sh)) (unat (command_len sh)) (command_buffer sh) = ed_left ?e @ ys @ 0 # 0 # zs"
    using close_gap_line [OF refl, where xs = "ed_left ?e" and x = y and ys = ys and zs = zs] by (simp add: b(1) r c flip: b(2))
  have "length (ed_left ?e @ ys @ 0 # 0 # zs) = 256" using b(4) c bd by simp
  from edit_becomes [OF assms(1) refl b(5) _ this c(1) b(2) [symmetric]] b(6) r
  show "shell_inv (erase_at sh)" "editor_of (erase_at sh) = ?e\<lparr>ed_right := tl (ed_right ?e)\<rparr>"
    by (simp_all add: erase_at_def g)
qed

lemma insert_becomes:
  assumes "shell_inv sh" "command_len sh < 255" "ch \<noteq> 0"
  shows "shell_inv (insert_char ch sh)" "editor_of (insert_char ch sh) = (editor_of sh)\<lparr>ed_left := ed_left (editor_of sh) @ [ch]\<rparr>"
proof -
  let ?e = "editor_of sh"
  obtain zs where b: "command_buffer sh = ed_left ?e @ ed_right ?e @ 0 # zs" "length (ed_left ?e) = unat (command_cursor sh)"
    "length (ed_right ?e) = unat (command_len sh) - unat (command_cursor sh)"
    "length zs = 255 - unat (command_len sh)" "0 \<notin> set (ed_left ?e)" "0 \<notin> set (ed_right ?e)" using inv_buffer [OF assms(1)] .
  have n: "unat (command_len sh) < 255" using assms(2) by (simp add: word_less_nat_alt)
  then obtain z zs' where z: "zs = z # zs'" using b(4) by (cases zs) auto
  note bd = shell_bounds [OF assms(1)]
  have c: "unat (command_len sh) = length (ed_left ?e) + length (ed_right ?e)" using b(2,3) bd by simp
  have c1: "unat (command_len sh + 1) = length (ed_left ?e @ [ch]) + length (ed_right ?e)"
    "unat (command_cursor sh + 1) = length (ed_left ?e @ [ch])"
    using n bd c b(2) by (simp_all add: unat_plus_small)
  have g: "(open_gap (unat (command_cursor sh)) (unat (command_len sh)) (command_buffer sh))
      [unat (command_cursor sh) := ch, unat (command_len sh + 1) := 0] = (ed_left ?e @ [ch]) @ ed_right ?e @ 0 # zs'"
    using open_gap_line [OF b(2) [symmetric] c z [symmetric], of ch] b(1) c1(1) c by simp
  have "length ((ed_left ?e @ [ch]) @ ed_right ?e @ 0 # zs') = 256" using b(4) c n z by simp
  from edit_becomes [OF assms(1) refl _ b(6) this c1] b(5) assms(3)
  show "shell_inv (insert_char ch sh)" "editor_of (insert_char ch sh) = ?e\<lparr>ed_left := ed_left ?e @ [ch]\<rparr>"
    by (simp_all add: insert_char_def Let_def g)
qed

lemma set_input_state:
  assumes "terminated (cwd_path sh)"
  shows "\<exists>v c'. shell_set_input P line (sh, c) =
    Some (sh\<lparr>command_buffer := blit (command_buffer sh) 0 (copy_chars 255 line @ [0]), command_len := of_nat (length (copy_chars 255 line)),
      command_cursor := of_nat (length (copy_chars 255 line)), command_view := v\<rparr>, c')"
proof -
  let ?n = "of_nat (length (copy_chars 255 line))"
  let ?s = "sh\<lparr>command_buffer := blit (command_buffer sh) 0 (copy_chars 255 line @ [0]), command_len := ?n, command_cursor := ?n, command_view := 0\<rparr>"
  have "terminated (cwd_path ?s)" using assms by simp
  from render_state [OF this, of P c] show ?thesis by (simp add: shell_set_input_def Let_def)
qed

lemma loaded:
  assumes "shell_inv sh" "length line = 256" "terminated line"
  shows "shell_inv (sh\<lparr>command_buffer := blit (command_buffer sh) 0 (copy_chars 255 line @ [0]),
      command_len := of_nat (length (copy_chars 255 line)), command_cursor := of_nat (length (copy_chars 255 line))\<rparr>)"
    "editor_of (sh\<lparr>command_buffer := blit (command_buffer sh) 0 (copy_chars 255 line @ [0]),
      command_len := of_nat (length (copy_chars 255 line)), command_cursor := of_nat (length (copy_chars 255 line))\<rparr>)
      = ed_load (cstr line) (editor_of sh)"
proof -
  let ?b = "command_buffer sh"
  have l: "length (cstr line) < 256" using length_cstr_less [OF assms(3)] assms(2) by simp
  then have t: "copy_chars 255 line = cstr line" by (simp add: copy_chars_eq)
  have b: "blit ?b 0 (cstr line @ [0]) = cstr line @ [] @ 0 # drop (Suc (length (cstr line))) ?b" by (simp add: blit_def)
  have n: "unat (of_nat (length (cstr line)) :: u32) = length (cstr line)" using l by (simp add: unat_of_nat_small)
  have len: "length (blit ?b 0 (cstr line @ [0])) = 256" using assms(1) l by (simp add: shell_inv_def)
  note e = edit_becomes [OF assms(1) b cstr_no_nul, of "of_nat (length (cstr line))" "of_nat (length (cstr line))", OF _ len, unfolded n]
  show "shell_inv (sh\<lparr>command_buffer := blit (command_buffer sh) 0 (copy_chars 255 line @ [0]),
      command_len := of_nat (length (copy_chars 255 line)), command_cursor := of_nat (length (copy_chars 255 line))\<rparr>)"
    "editor_of (sh\<lparr>command_buffer := blit (command_buffer sh) 0 (copy_chars 255 line @ [0]),
      command_len := of_nat (length (copy_chars 255 line)), command_cursor := of_nat (length (copy_chars 255 line))\<rparr>)
      = ed_load (cstr line) (editor_of sh)"
    unfolding t using e by (simp_all add: ed_load_def)
qed

lemma set_input_becomes:
  assumes "shell_inv sh" "length line = 256" "terminated line"
  shows "shell_becomes (ed_load (cstr line) (editor_of sh)) (shell_set_input P line (sh, c))"
  using set_input_state [OF cwd_terminated [OF assms(1)], of P line c] loaded [OF assms] by auto

lemma history_entry:
  assumes "shell_inv sh" "i < unat (history_count sh)"
  shows "length (command_history sh ! i) = 256" "terminated (command_history sh ! i)"
    "cstr (command_history sh ! i) = ed_history (editor_of sh) ! i" "length (ed_history (editor_of sh)) = unat (history_count sh)"
  using assms by (auto simp: shell_inv_def editor_of_def)

lemma history_empty: "shell_inv sh \<Longrightarrow> ed_history (editor_of sh) = [] \<longleftrightarrow> history_count sh = 0"
  by (auto simp: shell_inv_def editor_of_def unat_eq_0)

lemma ed_load_pos [simp]: "(ed_load t e)\<lparr>ed_pos := p\<rparr> = ed_load t (e\<lparr>ed_pos := p\<rparr>)" "(ed_load t e)\<lparr>ed_saved := x\<rparr> = ed_load t (e\<lparr>ed_saved := x\<rparr>)"
  by (simp_all add: ed_load_def)

lemma history_up_becomes:
  assumes "shell_inv sh" shows "shell_becomes (ed_up (editor_of sh)) (shell_history_up P (sh, c))"
proof (cases "history_count sh = 0")
  case True
  then show ?thesis using assms history_empty [OF assms] by (simp add: shell_history_up_def ed_up_def)
next
  case False
  then have n: "0 < unat (history_count sh)" by (simp add: word_less_nat_alt [of 0, simplified] unat_gt_0)
  have ne: "ed_history (editor_of sh) \<noteq> []" using False history_empty [OF assms] by simp
  note len = history_entry(4) [OF assms n]
  show ?thesis
  proof (cases "history_index sh < 0")
    case True
    define b where "b = cstr (command_buffer sh) @ 0 # drop (Suc (length (cstr (command_buffer sh)))) (history_saved_current sh)"
    have lb: "length (cstr (command_buffer sh)) < 256" using assms shell_bounds(1) [OF assms] by (simp add: shell_inv_def)
    then have b: "strcpy (history_saved_current sh) (command_buffer sh) = Some b" "cstr b = cstr (command_buffer sh)" "length b = 256" "terminated b"
      using assms by (auto simp: strcpy_eq b_def shell_inv_def)
    define s1 where "s1 = sh\<lparr>history_saved_current := b, history_saved_valid := 1, history_index := uint (history_count sh) - 1\<rparr>"
    have n': "0 < uint (history_count sh)" "nat (uint (history_count sh)) = unat (history_count sh)"
      "nat (uint (history_count sh) - 1) < unat (history_count sh)"
      using n by (simp_all only: uint_nat of_nat_0_less_iff nat_int)
    have i1: "shell_inv s1" using assms b n' by (simp add: s1_def shell_inv_def)
    have e1: "editor_of s1 = (editor_of sh)\<lparr>ed_pos := Some (unat (history_count sh) - 1), ed_saved := ed_line (editor_of sh)\<rparr>"
      using n' b True by (simp add: s1_def editor_of_def ed_line_def nat_diff_distrib)
    have v: "history_saved_valid sh = 0" using assms True by (auto simp: shell_inv_def)
    have p: "nat (history_index s1) = unat (history_count sh) - 1" using n' by (simp add: s1_def nat_diff_distrib)
    have "unat (history_count sh) - 1 < unat (history_count sh)" using n by simp
    note h = history_entry [OF assms this]
    have "shell_history_up P (sh, c) = shell_set_input P (command_history s1 ! nat (history_index s1)) (s1, c)"
      using False True v b by (simp add: shell_history_up_def s1_def)
    moreover have "command_history s1 = command_history sh" by (simp add: s1_def)
    moreover have "ed_pos (editor_of sh) = None" using True by (simp add: editor_of_def)
    then have "ed_up (editor_of sh) = ed_load (cstr (command_history sh ! (unat (history_count sh) - 1))) (editor_of s1)"
      using ne unfolding ed_up_def Let_def e1 h(3) len by simp
    ultimately show ?thesis using set_input_becomes [OF i1 h(1,2), of P c] by (simp only: p)
  next
    case ix: False
    define s1 where "s1 = sh\<lparr>history_index := (if 0 < history_index sh then history_index sh - 1 else history_index sh)\<rparr>"
    have i1: "shell_inv s1" using assms ix by (auto simp: s1_def shell_inv_def)
    have e1: "editor_of s1 = (editor_of sh)\<lparr>ed_pos := Some (nat (history_index sh) - 1)\<rparr>"
      using ix by (simp add: s1_def editor_of_def nat_diff_distrib)
    have v: "history_saved_valid sh \<noteq> 0" using assms ix by (auto simp: shell_inv_def)
    have p: "nat (history_index s1) = nat (history_index sh) - 1" using ix by (auto simp: s1_def)
    have "nat (history_index sh) - 1 < unat (history_count sh)" using assms ix n by (auto simp: shell_inv_def)
    note h = history_entry [OF assms this]
    have "shell_history_up P (sh, c) = shell_set_input P (command_history s1 ! nat (history_index s1)) (s1, c)"
      using False ix v by (simp add: shell_history_up_def s1_def Let_def)
    moreover have "command_history s1 = command_history sh" by (simp add: s1_def)
    moreover have "ed_pos (editor_of sh) = Some (nat (history_index sh))" using ix by (simp add: editor_of_def)
    then have "ed_up (editor_of sh) = ed_load (cstr (command_history sh ! (nat (history_index sh) - 1))) (editor_of s1)"
      using ne unfolding ed_up_def Let_def e1 h(3) by simp
    ultimately show ?thesis using set_input_becomes [OF i1 h(1,2), of P c] by (simp only: p)
  qed
qed

lemma history_down_becomes:
  assumes "shell_inv sh" shows "shell_becomes (ed_down (editor_of sh)) (shell_history_down P (sh, c))"
proof (cases "history_index sh < 0")
  case True
  then have "ed_pos (editor_of sh) = None" by (simp add: editor_of_def)
  then show ?thesis using assms True by (simp add: shell_history_down_def ed_down_def)
next
  case False
  let ?i = "nat (history_index sh)"
  have pos: "ed_pos (editor_of sh) = Some ?i" using False by (simp add: editor_of_def)
  have n: "?i < unat (history_count sh)" using assms False by (simp add: shell_inv_def nat_less_iff)
  have u: "uint (history_count sh) = int (unat (history_count sh))" by (rule uint_nat)
  have next_iff: "history_index sh < uint (history_count sh) - 1 \<longleftrightarrow> ?i + 1 < unat (history_count sh)" unfolding u using False by linarith
  show ?thesis
  proof (cases "?i + 1 < unat (history_count sh)")
    case True
    define s1 where "s1 = sh\<lparr>history_index := history_index sh + 1\<rparr>"
    note h = history_entry [OF assms True]
    have i1: "shell_inv s1" using assms False next_iff True by (auto simp: s1_def shell_inv_def)
    have p: "nat (history_index s1) = ?i + 1" "command_history s1 = command_history sh" using False by (simp_all add: s1_def nat_add_distrib)
    have "editor_of s1 = (editor_of sh)\<lparr>ed_pos := Some (?i + 1)\<rparr>" using False by (simp add: s1_def editor_of_def nat_add_distrib)
    then have "ed_down (editor_of sh) = ed_load (cstr (command_history sh ! (?i + 1))) (editor_of s1)"
      using True pos unfolding ed_down_def h(3,4) by simp
    moreover have "shell_history_down P (sh, c) = shell_set_input P (command_history s1 ! nat (history_index s1)) (s1, c)"
      using False True next_iff by (simp add: shell_history_down_def s1_def)
    ultimately show ?thesis using set_input_becomes [OF i1 h(1,2), of P c] by (simp only: p)
  next
    case last: False
    let ?line = "history_saved_current sh"
    have l: "length ?line = 256" "terminated ?line" "history_saved_valid sh \<noteq> 0" using assms False by (auto simp: shell_inv_def)
    define s1 where "s1 = sh\<lparr>history_index := -1, history_saved_valid := 0\<rparr>"
    have i1: "shell_inv s1" using assms by (auto simp: s1_def shell_inv_def)
    have e1: "editor_of s1 = (editor_of sh)\<lparr>ed_pos := None, ed_saved := []\<rparr>" by (simp add: s1_def editor_of_def)
    have "terminated (cwd_path (sh\<lparr>history_index := -1\<rparr>))" using assms by (simp add: shell_inv_def)
    from set_input_state [OF this, of P ?line c] obtain v c' where
      "shell_set_input P ?line (sh\<lparr>history_index := -1\<rparr>, c) = Some (sh\<lparr>history_index := -1,
         command_buffer := blit (command_buffer sh) 0 (copy_chars 255 ?line @ [0]), command_len := of_nat (length (copy_chars 255 ?line)),
         command_cursor := of_nat (length (copy_chars 255 ?line)), command_view := v\<rparr>, c')" by auto
    then have "shell_history_down P (sh, c) = Some (s1\<lparr>command_buffer := blit (command_buffer s1) 0 (copy_chars 255 ?line @ [0]),
         command_len := of_nat (length (copy_chars 255 ?line)), command_cursor := of_nat (length (copy_chars 255 ?line)), command_view := v\<rparr>, c')"
      using False last next_iff l(3) by (simp add: shell_history_down_def s1_def)
    moreover have "ed_down (editor_of sh) = ed_load (cstr ?line) (editor_of s1)"
      using last pos history_entry(4) [OF assms n] False by (simp add: ed_down_def e1) (simp add: editor_of_def)
    ultimately show ?thesis using loaded [OF i1 l(1,2)] by simp
  qed
qed

section \<open>The editor\<close>

lemma left_facts:
  assumes "shell_inv sh"
  shows "ed_left (editor_of sh) = [] \<longleftrightarrow> command_cursor sh = 0" "ed_right (editor_of sh) = [] \<longleftrightarrow> \<not> command_cursor sh < command_len sh"
    "length (ed_line (editor_of sh)) = unat (command_len sh)" "length (ed_left (editor_of sh)) = unat (command_cursor sh)"
proof -
  obtain zs where b: "length (ed_left (editor_of sh)) = unat (command_cursor sh)"
    "length (ed_right (editor_of sh)) = unat (command_len sh) - unat (command_cursor sh)" using inv_buffer [OF assms] .
  note bd = shell_bounds [OF assms]
  show "ed_left (editor_of sh) = [] \<longleftrightarrow> command_cursor sh = 0" using b(1) by (metis length_0_conv unat_eq_0)
  show "ed_right (editor_of sh) = [] \<longleftrightarrow> \<not> command_cursor sh < command_len sh" using b(2) bd
    by (metis length_0_conv diff_is_0_eq le_antisym not_le order_refl word_less_nat_alt)
  show "length (ed_line (editor_of sh)) = unat (command_len sh)" "length (ed_left (editor_of sh)) = unat (command_cursor sh)"
    using b bd by (simp_all add: ed_line_def)
qed

lemma cursor_moves:
  assumes "shell_inv sh" "ed_line (editor_of sh) = l @ r" "unat k = length l"
  shows "shell_becomes ((editor_of sh)\<lparr>ed_left := l, ed_right := r\<rparr>) (shell_render_input_line P (sh\<lparr>command_cursor := k\<rparr>, c))"
  using render_becomes [OF cursor_becomes(1) [OF assms]] cursor_becomes(2) [OF assms] by simp

lemma erase_keys:
  assumes "shell_inv sh"
  shows "shell_becomes (editor_key (ctrl, KEY_BACKSPACE) (editor_of sh)) (shell_edit_key P ctrl KEY_BACKSPACE (sh, c))"
    "shell_becomes (editor_key (ctrl, KEY_DELETE) (editor_of sh)) (shell_edit_key P ctrl KEY_DELETE (sh, c))"
proof -
  show "shell_becomes (editor_key (ctrl, KEY_BACKSPACE) (editor_of sh)) (shell_edit_key P ctrl KEY_BACKSPACE (sh, c))"
  proof (cases "0 < command_cursor sh")
    case True
    then show ?thesis using render_becomes [OF erase_before_becomes(1) [OF assms True]] erase_before_becomes(2) [OF assms True]
      by (simp add: shell_edit_key_def editor_key_def)
  next
    case False
    then have "ed_left (editor_of sh) = []" using left_facts(1) [OF assms] word_neq_0_conv by blast
    then show ?thesis using assms False by (simp add: shell_edit_key_def editor_key_def)
  qed
  show "shell_becomes (editor_key (ctrl, KEY_DELETE) (editor_of sh)) (shell_edit_key P ctrl KEY_DELETE (sh, c))"
  proof (cases "command_cursor sh < command_len sh")
    case True
    then show ?thesis using render_becomes [OF erase_at_becomes(1) [OF assms True]] erase_at_becomes(2) [OF assms True]
      by (simp add: shell_edit_key_def editor_key_def)
  next
    case False
    then have "ed_right (editor_of sh) = []" using left_facts(2) [OF assms] by simp
    then show ?thesis using assms False by (simp add: shell_edit_key_def editor_key_def)
  qed
qed

lemma arrow_keys:
  assumes i: "shell_inv sh"
  shows "shell_becomes (editor_key (ctrl, KEY_LEFT) (editor_of sh)) (shell_edit_key P ctrl KEY_LEFT (sh, c))"
    "shell_becomes (editor_key (ctrl, KEY_RIGHT) (editor_of sh)) (shell_edit_key P ctrl KEY_RIGHT (sh, c))"
proof -
  let ?e = "editor_of sh"
  note f = left_facts [OF i] and bd = shell_bounds [OF i]
  show "shell_becomes (editor_key (ctrl, KEY_LEFT) ?e) (shell_edit_key P ctrl KEY_LEFT (sh, c))"
  proof (cases "ed_left ?e = []")
    case True
    then show ?thesis using i f by (simp add: shell_edit_key_def editor_key_def)
  next
    case False
    then have "command_cursor sh \<noteq> 0" using f(1) by simp
    then have c: "unat (command_cursor sh - 1) = length (butlast (ed_left ?e))" "0 < command_cursor sh"
      using f(4) by (simp_all add: unat_minus_one word_neq_0_conv)
    have "ed_line ?e = butlast (ed_left ?e) @ last (ed_left ?e) # ed_right ?e" using False by (simp add: ed_line_def)
    from cursor_moves [OF i this c(1), of P "c"] c(2) False show ?thesis by (simp add: shell_edit_key_def editor_key_def)
  qed
  show "shell_becomes (editor_key (ctrl, KEY_RIGHT) ?e) (shell_edit_key P ctrl KEY_RIGHT (sh, c))"
  proof (cases "ed_right ?e = []")
    case True
    then show ?thesis using i f by (simp add: shell_edit_key_def editor_key_def)
  next
    case False
    then have lt: "command_cursor sh < command_len sh" using f(2) by simp
    then have c: "unat (command_cursor sh + 1) = length (ed_left ?e @ [hd (ed_right ?e)])"
      using f(4) bd by (simp add: unat_plus_small)
    have "ed_line ?e = (ed_left ?e @ [hd (ed_right ?e)]) @ tl (ed_right ?e)" using False by (simp add: ed_line_def)
    from cursor_moves [OF i this c, of P "c"] lt False show ?thesis by (simp add: shell_edit_key_def editor_key_def)
  qed
qed

lemma jump_keys:
  assumes i: "shell_inv sh"
  shows "shell_becomes (editor_key (ctrl, KEY_HOME) (editor_of sh)) (shell_edit_key P ctrl KEY_HOME (sh, c))"
    "shell_becomes (editor_key (ctrl, KEY_END) (editor_of sh)) (shell_edit_key P ctrl KEY_END (sh, c))"
  using cursor_moves [OF i, of "[]" "ed_line (editor_of sh)" 0 P c] cursor_moves [OF i, of "ed_line (editor_of sh)" "[]" "command_len sh" P c]
    left_facts(3) [OF i]
  by (simp_all add: shell_edit_key_def editor_key_def)

lemma history_keys:
  assumes i: "shell_inv sh"
  shows "shell_becomes (editor_key (ctrl, KEY_UP) (editor_of sh)) (shell_edit_key P ctrl KEY_UP (sh, c))"
    "shell_becomes (editor_key (ctrl, KEY_DOWN) (editor_of sh)) (shell_edit_key P ctrl KEY_DOWN (sh, c))"
    "shell_becomes (editor_key (ctrl, KEY_F3) (editor_of sh)) (shell_edit_key P ctrl KEY_F3 (sh, c))"
proof -
  show "shell_becomes (editor_key (ctrl, KEY_UP) (editor_of sh)) (shell_edit_key P ctrl KEY_UP (sh, c))"
    "shell_becomes (editor_key (ctrl, KEY_DOWN) (editor_of sh)) (shell_edit_key P ctrl KEY_DOWN (sh, c))"
    using history_up_becomes [OF i] history_down_becomes [OF i] by (simp_all add: shell_edit_key_def editor_key_def)
  show "shell_becomes (editor_key (ctrl, KEY_F3) (editor_of sh)) (shell_edit_key P ctrl KEY_F3 (sh, c))"
  proof (cases "history_count sh = 0")
    case True
    then show ?thesis using i history_empty [OF i] by (simp add: shell_edit_key_def editor_key_def)
  next
    case False
    then have n: "0 < history_count sh" "unat (history_count sh - 1) = unat (history_count sh) - 1" "0 < unat (history_count sh)"
      by (simp_all add: unat_minus_one word_neq_0_conv unat_gt_0)
    then have "unat (history_count sh) - 1 < unat (history_count sh)" by simp
    note h = history_entry [OF i this]
    have "last (ed_history (editor_of sh)) = cstr (command_history sh ! (unat (history_count sh) - 1))"
      using h(3,4) False history_empty [OF i] by (simp add: last_conv_nth)
    then show ?thesis using set_input_becomes [OF i h(1,2), of P c] n False history_empty [OF i]
      by (simp add: shell_edit_key_def editor_key_def)
  qed
qed

lemma clear_screen_becomes: "shell_inv sh \<Longrightarrow> shell_becomes (editor_of sh) (shell_clear_screen P (sh, c))"
  using prompt_render_becomes by (simp add: shell_clear_screen_def)

lemma sint8_cases: "sint w = (if 128 \<le> uint w then uint w - 256 else uint w)" for w :: u8
proof -
  have "sint w = (uint w + 128) mod 256 - 128" by (simp add: sint_uint signed_take_bit_eq_take_bit_shift take_bit_eq_mod)
  moreover have "0 \<le> uint w" "uint w < 256" using uint_bounded [of w] by simp_all
  moreover have "(x + 128) mod 256 = (if 128 \<le> x then x - 128 else x + 128)" if "0 \<le> x" "x < 256" for x :: int
    using that minus_mod_self2 [of "x + 128" 256] mod_pos_pos_trivial [of "x - 128" 256] by simp
  ultimately show ?thesis by simp
qed

text \<open>A printable character: what the signed comparisons of the code say.\<close>

lemma printable_key:
  assumes "key < (0x100 :: u16)"
  shows "0x20 \<le>s (ucast key :: u8) \<and> (ucast key :: u8) \<le>s 0x7E \<longleftrightarrow> 0x20 \<le> key \<and> key \<le> 0x7E"
    and "ucast key = (d :: u8) \<longleftrightarrow> key = ucast d"
proof -
  have k: "unat key < 256" using assms by (simp add: word_less_nat_alt)
  have n: "unat (ucast key :: u8) = unat key" using k by (simp add: unsigned_ucast_eq take_bit_nat_eq_self)
  then have u: "uint (ucast key :: u8) = uint key" by (metis uint_nat)
  have k': "uint key < 256" "0 \<le> uint key" using assms by (simp_all add: word_less_def)
  show "0x20 \<le>s (ucast key :: u8) \<and> (ucast key :: u8) \<le>s 0x7E \<longleftrightarrow> 0x20 \<le> key \<and> key \<le> 0x7E"
    using k' by (auto simp: word_sle_eq sint8_cases u word_le_def)
  have d: "unat (ucast d :: u16) = unat d" using u8_lt [of d] by (simp add: unsigned_ucast_eq take_bit_nat_eq_self)
  from n show "ucast key = d \<longleftrightarrow> key = ucast d" by (metis d word_unat_eq_iff)
qed

lemma typed_becomes:
  assumes i: "shell_inv sh" and k: "0x20 \<le> key" "key \<le> 0x7E" "\<not> (ctrl \<and> (key = 0x6C \<or> key = 0x4C))"
  shows "shell_becomes (ed_insert (ucast key) (editor_of sh)) (shell_edit_key P ctrl key (sh, c))"
proof -
  have key: "key < 0x100" using k(2) by (rule order_le_less_trans) simp
  have no: "key \<noteq> KEY_BACKSPACE" "key \<noteq> KEY_DELETE" "key \<noteq> KEY_LEFT" "key \<noteq> KEY_RIGHT" "key \<noteq> KEY_HOME" "key \<noteq> KEY_END"
    "key \<noteq> KEY_UP" "key \<noteq> KEY_DOWN" "key \<noteq> KEY_F1" "key \<noteq> KEY_F2" "key \<noteq> KEY_F3" using k(1,2) by auto
  have l: "(ucast key = (0x6C :: u8)) = (key = 0x6C)" "(ucast key = (0x4C :: u8)) = (key = 0x4C)" "ucast key \<noteq> (0 :: u8)"
    using printable_key(2) [OF key, where d = "0x6C"] printable_key(2) [OF key, where d = "0x4C"] printable_key(2) [OF key, where d = "0"] k(1) by auto
  let ?ch = "ucast key :: u8"
  have step: "shell_edit_key P ctrl key (sh, c) =
     (if command_len sh < COMMAND_BUFFER_SIZE - 1 then do {
         (sh, c) \<leftarrow> shell_render_input_line P (insert_char ?ch sh, c);
         Some (sh\<lparr>history_index := -1, history_saved_valid := 0\<rparr>, c)
       } else Some (sh, c))"
    using no key k l(1,2) printable_key(1) [OF key] by (auto simp: shell_edit_key_def Let_def)
  show ?thesis
  proof (cases "command_len sh < 255")
    case True
    note ins = insert_becomes [OF i True l(3)]
    obtain v c' where r: "shell_render_input_line P (insert_char ?ch sh, c) = Some ((insert_char ?ch sh)\<lparr>command_view := v\<rparr>, c')"
      using render_state [OF cwd_terminated [OF ins(1)]] by blast
    let ?s = "insert_char ?ch sh"
    have "shell_inv (?s\<lparr>command_view := v, history_index := -1, history_saved_valid := 0\<rparr>)"
      "editor_of (?s\<lparr>command_view := v, history_index := -1, history_saved_valid := 0\<rparr>) = (editor_of ?s)\<lparr>ed_pos := None, ed_saved := []\<rparr>"
      using ins(1) by (simp_all add: shell_inv_def editor_of_def)
    moreover have "length (ed_line (editor_of sh)) < 255" using True left_facts(3) [OF i] by (simp add: word_less_nat_alt)
    ultimately show ?thesis using True ins(2) by (simp add: step r ed_insert_def)
  next
    case False
    then have "\<not> length (ed_line (editor_of sh)) < 255" using left_facts(3) [OF i] by (simp add: word_less_nat_alt)
    then show ?thesis using False i by (simp add: step ed_insert_def)
  qed
qed

lemma edit_key_becomes:
  assumes i: "shell_inv sh"
  shows "shell_becomes (editor_key (ctrl, key) (editor_of sh)) (shell_edit_key P ctrl key (sh, c))"
proof -
  consider (edit) "key \<in> {KEY_BACKSPACE, KEY_DELETE, KEY_LEFT, KEY_RIGHT, KEY_HOME, KEY_END, KEY_UP, KEY_DOWN, KEY_F3}"
    | (screen) "key \<in> {KEY_F1, KEY_F2}"
    | (typed) "0x20 \<le> key" "key \<le> 0x7E" "\<not> (ctrl \<and> (key = 0x6C \<or> key = 0x4C))"
    | (ctrl_l) "ctrl" "key = 0x6C \<or> key = 0x4C"
    | (other) "key \<notin> {KEY_BACKSPACE, KEY_DELETE, KEY_LEFT, KEY_RIGHT, KEY_HOME, KEY_END, KEY_UP, KEY_DOWN, KEY_F3, KEY_F1, KEY_F2}"
        "\<not> (0x20 \<le> key \<and> key \<le> 0x7E)" by blast
  then show ?thesis
  proof cases
    case edit
    then show ?thesis 
      by (elim insertE emptyE; simp only: erase_keys [OF i] arrow_keys [OF i] jump_keys [OF i] history_keys [OF i])
  next
    case screen
    have e: "editor_key (ctrl, key) (editor_of sh) = editor_of sh" using screen by (auto simp: editor_key_def)
    show ?thesis using screen unfolding e
      by (elim insertE emptyE) (simp_all add: shell_edit_key_def prompt_render_becomes [OF i] clear_screen_becomes [OF i])
  next
    case typed
    then have "key \<noteq> KEY_BACKSPACE" "key \<noteq> KEY_DELETE" "key \<noteq> KEY_LEFT" "key \<noteq> KEY_RIGHT" "key \<noteq> KEY_HOME" "key \<noteq> KEY_END"
      "key \<noteq> KEY_UP" "key \<noteq> KEY_DOWN" "key \<noteq> KEY_F3" by auto
    then have "editor_key (ctrl, key) (editor_of sh) = ed_insert (ucast key) (editor_of sh)" using typed by (simp add: editor_key_def)
    then show ?thesis using typed_becomes [OF i typed] by simp
  next
    case ctrl_l
    have "editor_key (ctrl, key) (editor_of sh) = editor_of sh" using ctrl_l by (auto simp: editor_key_def)
    moreover have "shell_edit_key P ctrl key (sh, c) = shell_clear_screen P (sh, c)" using ctrl_l by (auto simp: shell_edit_key_def)
    ultimately show ?thesis using clear_screen_becomes [OF i] by simp
  next
    case other
    then have e: "editor_key (ctrl, key) (editor_of sh) = editor_of sh" by (auto simp: editor_key_def)
    have "shell_edit_key P ctrl key (sh, c) = Some (sh, c)"
    proof (cases "key < 0x100")
      case True
      then have "ucast key \<noteq> (0x6C :: u8)" "ucast key \<noteq> (0x4C :: u8)" using other(2) printable_key(2) [OF True] by auto
      moreover have "\<not> (0x20 \<le>s (ucast key :: u8) \<and> (ucast key :: u8) \<le>s 0x7E)" using other(2) printable_key(1) [OF True] by blast
      ultimately show ?thesis using True other(1) by (auto simp: shell_edit_key_def Let_def)
    next
      case False
      then show ?thesis using other by (simp add: shell_edit_key_def)
    qed
    then show ?thesis using i e by simp
  qed
qed

lemma edit_keys_become:
  "shell_inv sh \<Longrightarrow> shell_becomes (fold editor_key ks (editor_of sh)) (shell_edit_keys P ks (sh, c))"
proof (induction ks arbitrary: sh c)
  case (Cons k ks)
  obtain ctrl key where k: "k = (ctrl, key)" by (cases k)
  obtain sh' c' where s: "shell_edit_key P ctrl key (sh, c) = Some (sh', c')" "shell_inv sh'" "editor_of sh' = editor_key k (editor_of sh)"
    using edit_key_becomes [OF Cons.prems, of ctrl key P c] unfolding shell_becomes_def k by blast
  from Cons.IH [OF s(2)] show ?case by (simp add: k s(1) s(3) [unfolded k])
qed simp

text \<open>
  C18. The line editor is correct: from any state that satisfies the invariant, after any sequence of keys with or without
  Ctrl the program has a result, its state again satisfies the invariant, and the text before the cursor, the text after it,
  the history, the position in it and the line put aside are what the keys do to an editor that holds two lists of characters.
\<close>
theorem line_editor_correct:
  assumes "shell_inv sh"
  shows "\<exists>sh' c'. shell_edit_keys P ks (sh, c) = Some (sh', c') \<and> shell_inv sh' \<and>
    editor_of sh' = fold editor_key ks (editor_of sh) \<and> cstr (command_buffer sh') = ed_line (fold editor_key ks (editor_of sh))"
proof -
  have "ed_line (editor_of sh') = cstr (command_buffer sh')" for sh' by (simp add: ed_line_def editor_of_def)
  then show ?thesis using edit_keys_become [OF assms, of ks P c] unfolding shell_becomes_def by metis
qed

lemma cstr_replicate [simp]: "cstr (replicate n 0) = []"
  by (cases n) simp_all

lemma shell_boot_inv: "shell_inv shell_boot"
  by (simp add: shell_inv_def shell_boot_def)

lemma shell_boot_editor: "editor_of shell_boot = \<lparr>ed_left = [], ed_right = [], ed_history = [], ed_pos = None, ed_saved = []\<rparr>"
  by (simp add: editor_of_def shell_boot_def)

text \<open>Typing \<open>lx\<close>, going back one character and typing \<open>s\<close>, then deleting the last one, leaves \<open>ls\<close>.\<close>

lemma line_editor_correct_witness:
  "\<exists>sh' c'. shell_edit_keys (log_ports (\<lambda>_. 0x20))
       [(False, 0x6C), (False, 0x78), (False, KEY_LEFT), (False, 0x73), (False, KEY_DELETE), (False, KEY_UP)] (shell_boot, [], \<lparr>vga_buffer = replicate 4000 0, vga_index = 0, vga_current_color = 15\<rparr>)
     = Some (sh', c') \<and> cstr (command_buffer sh') = ascii ''ls''"
proof -
  let ?ks = "[(False, 0x6C), (False, 0x78), (False, KEY_LEFT), (False, 0x73), (False, KEY_DELETE), (False, KEY_UP)]"
  have "ed_line (fold editor_key ?ks (editor_of shell_boot)) = ascii ''ls''"
    by (simp add: shell_boot_editor editor_key_def ed_insert_def ed_line_def ed_up_def ascii_def)
  then show ?thesis using line_editor_correct [OF shell_boot_inv, of "log_ports (\<lambda>_. 0x20)" ?ks] by metis
qed

section \<open>What the input line shows\<close>

abbreviation plain :: "bytes \<Rightarrow> bool" where
  "plain s \<equiv> \<forall>c \<in> set s. c \<notin> {0x0A, 0x0D, 0x08}"

text \<open>Text that stays inside the screen replaces the cells from the cursor on.\<close>

lemma write_cells:
  assumes "plain s" "length (vga_buffer v) = 4000" "unat (vga_index v) = k" "k + length s < 4000"
  shows "\<exists>m' w. vga_write P s (m, v) = (m', v\<lparr>vga_buffer := blit (vga_buffer v) k (map (\<lambda>c. vga_entry c (vga_current_color v)) s), vga_index := w\<rparr>) \<and>
    unat w = k + length s"
  using assms
proof (induction s arbitrary: m v k)
  case Nil
  then show ?case by (intro exI [of _ m] exI [of _ "vga_index v"]) (simp add: vga_write_def blit_def)
next
  case (Cons c s)
  let ?e = "vga_entry c (vga_current_color v)"
  define v1 where "v1 = v\<lparr>vga_buffer := (vga_buffer v)[k := ?e], vga_index := vga_index v + 1\<rparr>"
  have w: "unat (vga_index v + 1) = k + 1" using Cons.prems by (simp add: unat_plus_small)
  then have "\<not> VGA_WIDTH * VGA_HEIGHT \<le> vga_index v1" using Cons.prems(4) by (simp add: v1_def word_le_nat_alt)
  then obtain m1 where "vga_putchar P c (m, v) = (m1, v1)"
    using Cons.prems(1,3) by (auto simp: vga_putchar_def Let_def v1_def vga_update_cursor_def)
  moreover obtain m' w' where "vga_write P s (m1, v1) = (m', v1\<lparr>vga_buffer := blit (vga_buffer v1) (k + 1) (map (\<lambda>c. vga_entry c (vga_current_color v)) s), vga_index := w'\<rparr>)"
      "unat w' = k + 1 + length s"
    using Cons.IH [of v1 "k + 1" m1] Cons.prems w by (auto simp: v1_def)
  moreover have "blit ((vga_buffer v)[k := ?e]) (k + 1) xs = blit (vga_buffer v) k (?e # xs)" for xs
    using Cons.prems(2,4) by (simp add: blit_def take_Suc_conv_app_nth)
  ultimately show ?case by (auto simp: vga_write_def v1_def)
qed

lemma blit_blit: "k + length xs + length ys \<le> length b \<Longrightarrow> j = k + length xs \<Longrightarrow> blit (blit b k xs) j ys = blit b k (xs @ ys)"
  by (auto simp: blit_def min_def ac_simps) (simp flip: length_0_conv)

lemma write_color_cells:
  assumes "plain s" "length (vga_buffer v) = 4000" "unat (vga_index v) = k" "k + length s < 4000"
  shows "\<exists>m' w. vga_write_color P s fg bg (m, v) = (m', v\<lparr>vga_buffer := blit (vga_buffer v) k (map (\<lambda>c. vga_entry c (vga_color_byte fg bg)) s), vga_index := w\<rparr>) \<and>
    unat w = k + length s"
proof -
  have "length (vga_buffer (vga_set_color fg bg v)) = 4000" "unat (vga_index (vga_set_color fg bg v)) = k"
    "vga_current_color (vga_set_color fg bg v) = vga_color_byte fg bg" "vga_buffer (vga_set_color fg bg v) = vga_buffer v" using assms(2,3) by (simp_all add: vga_set_color_def)
  from write_cells [OF assms(1) this(1,2) assms(4), unfolded this(3,4), of P m] obtain m' w where
    "vga_write P s (m, vga_set_color fg bg v) = (m', (vga_set_color fg bg v)\<lparr>vga_buffer := blit (vga_buffer v) k (map (\<lambda>c. vga_entry c (vga_color_byte fg bg)) s), vga_index := w\<rparr>)"
    "unat w = k + length s" by blast
  then show ?thesis by (cases v) (simp add: vga_write_color_def vga_set_color_def)
qed

text \<open>The cells of the prompt, and the part of the line in the window.\<close>

definition prompt_cells :: "u8 \<Rightarrow> bytes \<Rightarrow> u16 list" where
  "prompt_cells color path =
     (let cells = \<lambda>fg s. map (\<lambda>c. vga_entry c (vga_color_byte fg VGA_COLOR_BLACK)) s in
      cells VGA_COLOR_LIGHT_CYAN (ascii ''teto'') @ cells VGA_COLOR_WHITE (ascii ''@'') @ cells VGA_COLOR_LIGHT_GREEN (ascii ''tetOS'') @
      cells VGA_COLOR_WHITE (ascii '':'') @ cells VGA_COLOR_YELLOW path @ map (\<lambda>c. vga_entry c color) (ascii '' $ ''))"

definition line_window :: "nat \<Rightarrow> nat \<Rightarrow> bytes \<Rightarrow> bytes" where
  "line_window view vis line = take vis (drop view line @ replicate vis 0x20)"

lemma ascii_parts:
  "ascii ''teto'' = [0x74, 0x65, 0x74, 0x6F]" "ascii ''@'' = [0x40]" "ascii ''tetOS'' = [0x74, 0x65, 0x74, 0x4F, 0x53]"
  "ascii '':'' = [0x3A]" "ascii '' $ '' = [0x20, 0x24, 0x20]"
  by (simp_all add: ascii_def)

lemma length_prompt_cells: "length (prompt_cells color path) = 14 + length path"
  by (simp add: prompt_cells_def ascii_parts)

text \<open>\<open>drawn v k cells c\<close>: \<open>c\<close> is the console \<open>v\<close> after \<open>cells\<close> have been written from cell \<open>k\<close> on.\<close>

definition drawn :: "vga \<Rightarrow> nat \<Rightarrow> u16 list \<Rightarrow> 'm \<times> vga \<Rightarrow> bool" where
  "drawn v k cells c \<longleftrightarrow> (\<exists>w. snd c = v\<lparr>vga_buffer := blit (vga_buffer v) k cells, vga_index := w\<rparr> \<and> unat w = k + length cells)"

lemma drawn_color:
  assumes "drawn v k cells c" "plain s" "length (vga_buffer v) = 4000" "k + length cells + length s < 4000"
  shows "drawn v k (cells @ map (\<lambda>c. vga_entry c (vga_color_byte fg bg)) s) (vga_write_color P s fg bg c)"
proof -
  obtain w where w: "snd c = v\<lparr>vga_buffer := blit (vga_buffer v) k cells, vga_index := w\<rparr>" "unat w = k + length cells"
    using assms(1) by (auto simp: drawn_def)
  have c: "c = (fst c, v\<lparr>vga_buffer := blit (vga_buffer v) k cells, vga_index := w\<rparr>)" using w(1) by (metis prod.collapse)
  have "length (vga_buffer (snd c)) = 4000" "unat (vga_index (snd c)) = k + length cells" using w assms(3,4) by simp_all
  from write_color_cells [OF assms(2) this assms(4), of P fg bg "fst c"]
  show ?thesis using assms(3,4) unfolding drawn_def w(1) by (subst c) (auto simp: blit_blit)
qed

lemma drawn_write:
  assumes "drawn v k cells c" "plain s" "length (vga_buffer v) = 4000" "k + length cells + length s < 4000"
  shows "drawn v k (cells @ map (\<lambda>c. vga_entry c (vga_current_color v)) s) (vga_write P s c)"
proof -
  obtain w where w: "snd c = v\<lparr>vga_buffer := blit (vga_buffer v) k cells, vga_index := w\<rparr>" "unat w = k + length cells"
    using assms(1) by (auto simp: drawn_def)
  have c: "c = (fst c, v\<lparr>vga_buffer := blit (vga_buffer v) k cells, vga_index := w\<rparr>)" using w(1) by (metis prod.collapse)
  have "length (vga_buffer (snd c)) = 4000" "unat (vga_index (snd c)) = k + length cells" using w assms(3,4) by simp_all
  from write_cells [OF assms(2) this assms(4), of P "fst c"]
  show ?thesis using assms(3,4) unfolding drawn_def w(1) by (subst c) (auto simp: blit_blit)
qed

lemma drawn_start: "unat (vga_index (snd c)) = k \<Longrightarrow> drawn (snd c) k [] c"
  by (auto simp: drawn_def blit_def intro!: exI [of _ "vga_index (snd c)"])

lemma prefix_cells:
  assumes "shell_write_prompt_prefix P sh c = Some c'" "plain (cstr (cwd_path sh))"
    and "length (vga_buffer (snd c)) = 4000" "unat (vga_index (snd c)) = k" "k + 14 + length (cstr (cwd_path sh)) < 4000"
  shows "drawn (snd c) k (prompt_cells (vga_current_color (snd c)) (cstr (cwd_path sh))) c'"
proof -
  have c': "c' = vga_write P (ascii '' $ '') (vga_write_color P (cstr (cwd_path sh)) VGA_COLOR_YELLOW VGA_COLOR_BLACK
     (vga_write_color P (ascii '':'') VGA_COLOR_WHITE VGA_COLOR_BLACK (vga_write_color P (ascii ''tetOS'') VGA_COLOR_LIGHT_GREEN VGA_COLOR_BLACK
     (vga_write_color P (ascii ''@'') VGA_COLOR_WHITE VGA_COLOR_BLACK (vga_write_color P (ascii ''teto'') VGA_COLOR_LIGHT_CYAN VGA_COLOR_BLACK c)))))"
    using assms(1) by (auto simp: shell_write_prompt_prefix_def c_string_def split: if_splits)
  note d1 = drawn_color [OF drawn_start [OF assms(4)] _ assms(3), where s = "ascii ''teto''" and P = P and fg = VGA_COLOR_LIGHT_CYAN and bg = VGA_COLOR_BLACK]
  note d2 = drawn_color [OF d1 _ assms(3), where s = "ascii ''@''" and P = P and fg = VGA_COLOR_WHITE and bg = VGA_COLOR_BLACK]
  note d3 = drawn_color [OF d2 _ assms(3), where s = "ascii ''tetOS''" and P = P and fg = VGA_COLOR_LIGHT_GREEN and bg = VGA_COLOR_BLACK]
  note d4 = drawn_color [OF d3 _ assms(3), where s = "ascii '':''" and P = P and fg = VGA_COLOR_WHITE and bg = VGA_COLOR_BLACK]
  note d5 = drawn_color [OF d4 assms(2) assms(3), where P = P and fg = VGA_COLOR_YELLOW and bg = VGA_COLOR_BLACK]
  show ?thesis using drawn_write [OF d5 _ assms(3), where s = "ascii '' $ ''" and P = P] assms(5)
    by (simp add: c' prompt_cells_def ascii_parts)
qed

lemma scroll_view_range:
  assumes "unat cursor \<le> 255" "1 \<le> unat vis" "unat vis \<le> 80"
  shows "unat (scroll_view vis cursor view) \<le> unat cursor \<and> unat cursor < unat (scroll_view vis cursor view) + unat vis"
proof -
  define v1 where "v1 = (if cursor < view then cursor else view)"
  have v1: "unat v1 \<le> unat cursor" by (simp add: v1_def word_less_nat_alt)
  have s1: "unat (v1 + vis) = unat v1 + unat vis" using v1 assms by (simp add: unat_plus_small)
  define v2 where "v2 = (if v1 + vis < cursor then cursor - vis else v1)"
  have v2: "unat v2 \<le> unat cursor \<and> unat cursor \<le> unat v2 + unat vis"
  proof (cases "v1 + vis < cursor")
    case True
    then have "vis \<le> cursor" using s1 by (simp add: word_less_nat_alt word_le_nat_alt)
    then show ?thesis using True by (simp add: v2_def unat_minus_le)
  next
    case False
    then show ?thesis using v1 s1 by (simp add: v2_def word_less_nat_alt)
  qed
  then have s2: "unat (v2 + vis) = unat v2 + unat vis" using assms by (simp add: unat_plus_small)
  have r: "scroll_view vis cursor view = (if cursor = v2 + vis then cursor - vis + 1 else v2)"
    by (simp add: scroll_view_def v1_def v2_def Let_def)
  show ?thesis
  proof (cases "cursor = v2 + vis")
    case True
    then have "unat cursor = unat v2 + unat vis" using s2 by simp
    moreover have "unat (v2 + 1) = unat v2 + 1" using v2 assms by (simp add: unat_plus_small)
    ultimately show ?thesis using True assms r by simp
  next
    case False
    then have "unat cursor \<noteq> unat v2 + unat vis" using s2 word_unat_eq_iff by metis
    then show ?thesis using False v2 r by simp
  qed
qed

lemma window_chars:
  assumes "shell_inv sh" "unat (command_view sh) \<le> 255" "n \<le> 80"
  shows "map (input_char sh) [0..<n] = line_window (unat (command_view sh)) n (cstr (command_buffer sh))"
proof (rule nth_equalityI)
  let ?line = "cstr (command_buffer sh)"
  show "length (map (input_char sh) [0..<n]) = length (line_window (unat (command_view sh)) n ?line)" by (simp add: line_window_def)
  fix i assume "i < length (map (input_char sh) [0..<n])"
  then have i: "i < n" by simp
  have idx: "unat (command_view sh + of_nat i) = unat (command_view sh) + i"
    using i assms(2,3) by (simp add: unat_plus_small unat_of_nat_small)
  have l: "length ?line = unat (command_len sh)" "terminated (command_buffer sh)" using assms(1) by (simp_all add: shell_inv_def)
  have "j < length ?line \<Longrightarrow> command_buffer sh ! j = ?line ! j" for j using terminated_split [OF l(2)] by (metis nth_take)
  then show "map (input_char sh) [0..<n] ! i = line_window (unat (command_view sh)) n ?line ! i"
    using i idx l(1) by (auto simp: input_char_def line_window_def nth_append word_less_nat_alt)
qed

lemma set_cursor_index: "unat x < 80 \<Longrightarrow> unat y < 50 \<Longrightarrow> unat (vga_index (snd (vga_set_cursor P x y c))) = unat y * 80 + unat x"
  and set_cursor_rest: "vga_buffer (snd (vga_set_cursor P x y c)) = vga_buffer (snd c)"
    "vga_current_color (snd (vga_set_cursor P x y c)) = vga_current_color (snd c)"
proof -
  show "vga_buffer (snd (vga_set_cursor P x y c)) = vga_buffer (snd c)"
    "vga_current_color (snd (vga_set_cursor P x y c)) = vga_current_color (snd c)"
    by (simp_all add: vga_set_cursor_def Let_def split: prod.split)
  assume xy: "unat x < 80" "unat y < 50"
  then have "\<not> VGA_WIDTH \<le> x" "\<not> VGA_HEIGHT \<le> y" by (simp_all add: word_le_nat_alt)
  moreover have "unat (y * VGA_WIDTH) = unat y * 80" using xy by (simp add: unat_word_ariths)
  then have "unat (y * VGA_WIDTH + x) = unat y * 80 + unat x" using xy by (simp add: unat_plus_small)
  ultimately show "unat (vga_index (snd (vga_set_cursor P x y c))) = unat y * 80 + unat x"
    by (simp add: vga_set_cursor_def Let_def split: prod.split)
qed

text \<open>
  C19. The user sees the line that is edited: with a path of at most 65 printable characters and a prompt above the last row,
  drawing the input line puts the prompt and then the window of the line, padded with blanks, on the row of the prompt, changes
  no other cell, and leaves the cursor on the cell of the character the editor cursor is at, which is inside the window.
\<close>
theorem input_line_shown:
  assumes "shell_inv sh" "plain (cstr (command_buffer sh))" "plain (cstr (cwd_path sh))" "length (cstr (cwd_path sh)) \<le> 65"
    and "unat (prompt_row sh) < 49" "length (vga_buffer v) = 4000"
  shows "\<exists>view m' v'. shell_render_input_line P (sh, m, v) = Some (sh\<lparr>command_view := view\<rparr>, m', v') \<and>
    (let n = 14 + length (cstr (cwd_path sh)); row = 80 * unat (prompt_row sh); offset = unat (command_cursor sh) - unat view in
      vga_buffer v' = blit (vga_buffer v) row (prompt_cells (vga_current_color v) (cstr (cwd_path sh)) @
        map (\<lambda>c. vga_entry c (vga_current_color v)) (line_window (unat view) (80 - n) (cstr (command_buffer sh)))) \<and>
      unat (vga_index v') = row + n + offset \<and> view \<le> command_cursor sh \<and> n + offset < 80)"
proof -
  define n cols where "n = 14 + length (cstr (cwd_path sh))" and "cols = (of_nat n :: u32)"
  have n80: "n < 80" using assms(4) by (simp add: n_def)
  then have n: "n < 80" "unat cols = n" unfolding cols_def by (simp_all add: unat_of_nat_small)
  have cols: "shell_prompt_cols sh = Some cols"
    using assms(1) by (simp add: shell_prompt_cols_def strlen_eq shell_inv_def cols_def n_def)
  have "cols \<le> VGA_WIDTH" "cols < VGA_WIDTH" using n by (simp_all add: word_less_nat_alt word_le_nat_alt)
  then have vis: "unat (visible_columns cols) = 80 - n" using n by (simp add: visible_columns_def unat_minus_le)
  define view where "view = scroll_view (visible_columns cols) (command_cursor sh) (command_view sh)"
  let ?sh = "sh\<lparr>command_view := view\<rparr>"
  note bd = shell_bounds [OF assms(1)]
  have view: "unat view \<le> unat (command_cursor sh)" "unat (command_cursor sh) < unat view + (80 - n)"
    using scroll_view_range [of "command_cursor sh" "visible_columns cols" "command_view sh"] vis bd n(1) by (auto simp: view_def)
  have off: "unat (command_cursor sh - view) = unat (command_cursor sh) - unat view" using view(1) by (simp add: unat_minus_le word_le_nat_alt)
  have x: "unat (cols + (command_cursor sh - view)) = n + (unat (command_cursor sh) - unat view)"
    using n view off by (simp add: unat_plus_small)
  let ?k = "80 * unat (prompt_row sh)"
  let ?c0 = "vga_set_cursor P 0 (prompt_row sh) (m, v)"
  have c0: "length (vga_buffer (snd ?c0)) = 4000" "unat (vga_index (snd ?c0)) = ?k"
    using assms(5,6) set_cursor_index [of 0 "prompt_row sh" P "(m, v)"] by (simp_all add: set_cursor_rest)
  obtain c1 where c1: "shell_write_prompt_prefix P ?sh ?c0 = Some c1"
    using prefix_defined [of ?sh P ?c0] assms(1) by (auto simp: shell_inv_def)
  let ?win = "line_window (unat view) (80 - n) (cstr (command_buffer sh))"
  let ?c2 = "vga_write P ?win c1"
  have room: "?k + n + (80 - n) < 4000" using assms(5) n(1) by linarith
  have d1: "drawn (snd ?c0) ?k (prompt_cells (vga_current_color v) (cstr (cwd_path sh))) c1"
    using prefix_cells [OF c1, of ?k] assms(3) c0 room by (simp add: set_cursor_rest n_def)
  have win: "plain ?win" using assms(2) by (auto simp: line_window_def dest!: in_set_takeD in_set_dropD)
  have d2: "drawn (snd ?c0) ?k (prompt_cells (vga_current_color v) (cstr (cwd_path sh)) @ map (\<lambda>c. vga_entry c (vga_current_color v)) ?win) ?c2"
    using drawn_write [OF d1 win c0(1), of P] room by (simp add: length_prompt_cells n_def set_cursor_rest line_window_def)
  let ?c3 = "vga_set_cursor P (cols + (command_cursor sh - view)) (prompt_row sh) ?c2"
  have chars: "fold (\<lambda>i. vga_putchar P (input_char ?sh i)) [0..<80 - n] c1 = ?c2"
  proof -
    have "?c2 = vga_write P (map (input_char ?sh) [0..<80 - n]) c1"
      using window_chars [of ?sh "80 - n"] assms(1) view(1) bd by simp
    then show ?thesis by (simp add: vga_write_def fold_map comp_def)
  qed
  have "shell_render_input_line P (sh, m, v) = Some (?sh, ?c3)"
    using c1 chars by (simp add: shell_render_input_line_def cols view_def [symmetric] vis Let_def)
  moreover have "vga_buffer (snd ?c3) = blit (vga_buffer v) ?k (prompt_cells (vga_current_color v) (cstr (cwd_path sh)) @
        map (\<lambda>c. vga_entry c (vga_current_color v)) ?win)"
    using d2 by (auto simp: drawn_def set_cursor_rest)
  moreover have "unat (vga_index (snd ?c3)) = ?k + n + (unat (command_cursor sh) - unat view)"
    using x n view assms(5) by (subst set_cursor_index) simp_all
  moreover have "view \<le> command_cursor sh" "n + (unat (command_cursor sh) - unat view) < 80" using view by (simp_all add: word_le_nat_alt)
  ultimately show ?thesis unfolding n_def [symmetric] Let_def
    by (intro exI [of _ view] exI [of _ "fst ?c3"] exI [of _ "snd ?c3"] conjI) (simp_all only: prod.collapse)
qed

lemma input_line_shown_witness:
  "\<exists>view m' v'. shell_render_input_line (log_ports (\<lambda>_. 0x20)) (shell_boot, [], \<lparr>vga_buffer = replicate 4000 0, vga_index = 0, vga_current_color = 15\<rparr>)
      = Some (shell_boot\<lparr>command_view := view\<rparr>, m', v') \<and>
    vga_buffer v' = blit (replicate 4000 0) 80 (prompt_cells 15 [0x2F] @ replicate 65 (vga_entry 0x20 15)) \<and> unat (vga_index v') = 95"
proof -
  have b: "cstr (command_buffer shell_boot) = []" "cstr (cwd_path shell_boot) = [0x2F]" "prompt_row shell_boot = 1" "command_cursor shell_boot = 0"
    by (simp_all add: shell_boot_def)
  have h: "plain (cstr (command_buffer shell_boot))" "plain (cstr (cwd_path shell_boot))" "length (cstr (cwd_path shell_boot)) \<le> 65"
    "unat (prompt_row shell_boot) < 49" by (simp_all add: b)
  have l: "length (vga_buffer \<lparr>vga_buffer = replicate 4000 0, vga_index = 0, vga_current_color = 15\<rparr>) = 4000" by simp
  from input_line_shown [OF shell_boot_inv h l, of "log_ports (\<lambda>_. 0x20)" "[]"] show ?thesis
    unfolding b Let_def by (elim exE) (rule exI, simp add: line_window_def)
qed

end
