(* ===== verification/ShellCmd.thy ===== *)
theory ShellCmd
  imports Shell Appseed
begin

text \<open>
  The commands of the shell, \<open>shell_execute_command\<close> and the loop \<open>shell_run\<close> of
  \<open>kernel/shell/shell.c\<close>, over the components they call. A command gets the buffer from its first
  character on; \<open>drop 5 cmd\<close> is the pointer \<open>cmd + 5\<close>. \<open>None\<close> is a serial line that never
  becomes ready, a string that has no end, or a variable the code reads without having set it.
\<close>

section \<open>The system\<close>

record ('m, 'd) system =
  sy_shell :: shell
  sy_port :: 'm
  sy_vga :: vga
  sy_ticks :: u32 \<comment> \<open>the value of \<open>timer_ticks\<close>\<close>
  sy_fs :: "'d tetfs"
  sy_vm :: vm
  sy_sched :: sched
  sy_gfx :: gfx
  sy_drive :: ata_drive
  sy_kbd :: kbd

text \<open>What the build provides: the addresses of the two demo processes and the bundled program.\<close>

record shell_env =
  env_demo_proc_entry :: u32
  env_user_demo_entry :: u32
  env_hello_elf :: bytes

definition con :: "('m, 'd) system \<Rightarrow> 'm \<times> vga" where
  "con s = (sy_port s, sy_vga s)"

definition set_con :: "'m \<times> vga \<Rightarrow> ('m, 'd) system \<Rightarrow> ('m, 'd) system" where
  "set_con c s = s\<lparr>sy_port := fst c, sy_vga := snd c\<rparr>"

text \<open>\<open>vga_write\<close> and \<open>vga_write_color\<close> of a literal, of a C string, and \<open>kprintf\<close>.\<close>

definition say :: "'m ports \<Rightarrow> bytes \<Rightarrow> ('m, 'd) system \<Rightarrow> ('m, 'd) system" where
  "say P t s = set_con (vga_write P t (con s)) s"

definition say_color :: "'m ports \<Rightarrow> bytes \<Rightarrow> u8 \<Rightarrow> ('m, 'd) system \<Rightarrow> ('m, 'd) system" where
  "say_color P t fg s = set_con (vga_write_color P t fg VGA_COLOR_BLACK (con s)) s"

definition say_str :: "'m ports \<Rightarrow> bytes \<Rightarrow> ('m, 'd) system \<Rightarrow> ('m, 'd) system option" where
  "say_str P p s = map_option (\<lambda>t. say P t s) (c_string p)"

definition print :: "'m ports \<Rightarrow> bytes \<Rightarrow> va_arg list \<Rightarrow> ('m, 'd) system \<Rightarrow> ('m, 'd) system option" where
  "print P fmt args s = map_option (\<lambda>c. set_con c s) (kprintf P fmt args (con s))"

text \<open>\<open>strncmp(cmd, "w", n) == 0\<close>, and with \<open>(cmd[n] == 0 || cmd[n] == ' ')\<close>.\<close>

definition starts :: "bytes \<Rightarrow> string \<Rightarrow> bool" where
  "starts cmd w \<longleftrightarrow> strncmp cmd (ascii w @ [0]) (length w) = Some 0"

definition command_word :: "bytes \<Rightarrow> string \<Rightarrow> bool" where
  "command_word cmd w \<longleftrightarrow> starts cmd w \<and> (cmd ! length w = 0 \<or> cmd ! length w = 0x20)"

definition no_filesystem :: bytes where
  "no_filesystem = ascii_line ''No filesystem mounted. Run \\'format\\' first.''"

section \<open>Information\<close>

definition cmd_uptime :: "'m ports \<Rightarrow> ('m, 'd) system \<Rightarrow> ('m, 'd) system option" where
  "cmd_uptime P s =
     (let seconds = sy_ticks s div 100; minutes = seconds div 60; hours = minutes div 60
      in print P (ascii_line ''Uptime: %u hours, %u minutes, %u seconds'') [Word hours, Word (minutes mod 60), Word (seconds mod 60)] s)"

definition cmd_mem :: "'m ports \<Rightarrow> ('m, 'd) system \<Rightarrow> ('m, 'd) system option" where
  "cmd_mem P s = do {
     let free_f = pmm_free_frames (vm_pmm (sy_vm s));
     let total_f = pmm_total_frames (vm_pmm (sy_vm s));
     let used_f = total_f - free_f;
     heap_used \<leftarrow> heap_used_bytes (kheap (sy_sched s));
     s \<leftarrow> print P (ascii_line ''Physical Memory:'') [] s;
     s \<leftarrow> print P (ascii_line ''  Total: %u MB (%u frames)'') [Word (total_f div 256), Word total_f] s;
     s \<leftarrow> print P (ascii_line ''  Used:  %u MB (%u frames)'') [Word (used_f div 256), Word used_f] s;
     s \<leftarrow> print P (ascii_line ''  Free:  %u MB (%u frames)'') [Word (free_f div 256), Word free_f] s;
     s \<leftarrow> print P (ascii_line ''Kernel Heap (4 MB at 0x400000):'') [] s;
     s \<leftarrow> print P (ascii_line ''  Used:  %u bytes'') [Word heap_used] s;
     print P (ascii_line ''  Free:  %u bytes'') [Word (4 * 1024 * 1024 - heap_used)] s
   }"

definition cmd_disk :: "'m ports \<Rightarrow> ('m, 'd) system \<Rightarrow> ('m, 'd) system option" where
  "cmd_disk P s =
     (if ata_present (sy_drive s) = 0 then Some (say P (ascii_line ''No disk detected.'') s)
      else do {
        model \<leftarrow> c_string (ata_model (sy_drive s));
        s \<leftarrow> print P (ascii_line ''Model:   %s'') [Str model] s;
        s \<leftarrow> print P (ascii_line ''Sectors: %u'') [Word (ata_sectors (sy_drive s))] s;
        print P (ascii_line ''Size:    %u MB'') [Word (ata_sectors (sy_drive s) div 2048)] s
      })"

section \<open>Processes\<close>

definition state_name :: "u8 \<Rightarrow> bytes" where
  "state_name st =
     (if st = PROC_READY then ascii ''READY  '' else if st = PROC_RUNNING then ascii ''RUNNING''
      else if st = PROC_DEAD then ascii ''DEAD   '' else ascii ''???????'')"

fun ps_loop :: "'m ports \<Rightarrow> nat list \<Rightarrow> ('m, 'd) system \<Rightarrow> ('m, 'd) system option" where
  "ps_loop P [] s = Some s"
| "ps_loop P (i # is) s = do {
     let p = process_table (sy_sched s) ! i;
     name \<leftarrow> c_string (p_name p);
     s \<leftarrow> print P (ascii_line ''%u    %s  %s'') [Word (p_pid p), Str (state_name (p_state p)), Str name] s;
     ps_loop P is s
   }"

definition cmd_ps :: "'m ports \<Rightarrow> ('m, 'd) system \<Rightarrow> ('m, 'd) system option" where
  "cmd_ps P s = do {
     (n, list) \<leftarrow> process_list (sy_sched s) (int MAX_PROCS);
     let s = say P (ascii_line ''PID  STATE    NAME'') s;
     let s = say P (ascii_line ''---  -------  ----'') s;
     ps_loop P list s
   }"

definition cmd_spawn :: "'m ports \<Rightarrow> shell_env \<Rightarrow> ('m, 'd) system \<Rightarrow> ('m, 'd) system option" where
  "cmd_spawn P E s = do {
     (r, sc) \<leftarrow> process_create (env_demo_proc_entry E) (ascii ''demo'' @ [0]) (sy_sched s);
     let s = s\<lparr>sy_sched := sc\<rparr>;
     case r of
       Some i \<Rightarrow> do {
         name \<leftarrow> c_string (p_name (process_table sc ! i));
         s \<leftarrow> print P (ascii_line ''Spawned PID %u: %s'') [Word (p_pid (process_table sc ! i)), Str name] s;
         Some (say P (ascii_line ''Watch the top-right corner...'') s)
       }
     | None \<Rightarrow> Some (say P (ascii_line ''Failed: no free process slots'') s)
   }"

definition cmd_kill :: "'m ports \<Rightarrow> bytes \<Rightarrow> ('m, 'd) system \<Rightarrow> ('m, 'd) system option" where
  "cmd_kill P arg s = do {
     parsed \<leftarrow> parse_u32 arg;
     case parsed of
       None \<Rightarrow> Some (say P (ascii_line ''Usage: kill <pid>'') s)
     | Some pid \<Rightarrow> do {
         (r, sc) \<leftarrow> process_kill pid (sy_sched s);
         let s = s\<lparr>sy_sched := sc\<rparr>;
         if r = 0 then print P (ascii_line ''Killed PID %u'') [Word pid] s
         else if r = -2 then Some (say P (ascii_line ''Cannot kill current process.'') s)
         else Some (say P (ascii_line ''PID not found.'') s)
       }
   }"

definition cmd_utest :: "'m ports \<Rightarrow> shell_env \<Rightarrow> ('m, 'd) system \<Rightarrow> ('m, 'd) system option" where
  "cmd_utest P E s = do {
     (r, sc) \<leftarrow> process_create (env_user_demo_entry E) (ascii ''userdemo'' @ [0]) (sy_sched s);
     let s = s\<lparr>sy_sched := sc\<rparr>;
     case r of
       Some i \<Rightarrow> do {
         name \<leftarrow> c_string (p_name (process_table sc ! i));
         print P (ascii_line ''Spawned PID %u: %s'') [Word (p_pid (process_table sc ! i)), Str name] s
       }
     | None \<Rightarrow> Some (say P (ascii_line ''Failed: no free process slots'') s)
   }"

text \<open>The demo process: the cell in the top right corner, then its end; the delay loops have no effect.\<close>

definition demo_proc_entry :: "vga \<times> sched \<Rightarrow> (vga \<times> sched) option" where
  "demo_proc_entry st =
     (case st of (v, sc) \<Rightarrow>
        let put = (\<lambda>x v. v\<lparr>vga_buffer := (vga_buffer v)[79 := x]\<rparr>);
            spin = [0x2D, 0x5C, 0x7C, 0x2F];
            v = fold (\<lambda>i. put (push_bit 8 0x0A OR spin ! (i mod 4))) [0..<400] v;
            v = put (push_bit 8 0x07 OR 0x20) v
        in map_option (Pair v) (process_exit sc))"

text \<open>The file is looked up in the root directory whatever the current one is.\<close>

definition cmd_run :: "'m ports \<Rightarrow> 'd dev \<Rightarrow> bytes \<Rightarrow> ('m, 'd) system \<Rightarrow> ('m, 'd) system option" where
  "cmd_run P D arg s =
     (if \<not> tetfs_is_mounted (sy_fs s) then Some (say P no_filesystem s)
      else do {
        (pid, st) \<leftarrow> exec_elf_from_disk D arg \<lparr>ex_disk = disk (sy_fs s), ex_vm = sy_vm s, ex_sched = sy_sched s\<rparr>;
        let s = s\<lparr>sy_fs := (sy_fs s)\<lparr>disk := ex_disk st\<rparr>, sy_vm := ex_vm st, sy_sched := ex_sched st\<rparr>;
        if 0 \<le> pid
        then do { name \<leftarrow> c_string arg; print P (ascii_line ''ELF started PID %u: %s'') [Word (of_int pid), Str name] s }
        else print P (ascii_line ''Failed to run ELF (%d).'') [Word (of_int pid)] s
      })"

section \<open>Pictures\<close>

definition set_disk :: "'d \<Rightarrow> ('m, 'd) system \<Rightarrow> ('m, 'd) system" where
  "set_disk d s = s\<lparr>sy_fs := (sy_fs s)\<lparr>disk := d\<rparr>\<rparr>"

definition shell_print_bmp_error :: "'m ports \<Rightarrow> string \<Rightarrow> int \<Rightarrow> ('m, 'd) system \<Rightarrow> ('m, 'd) system option" where
  "shell_print_bmp_error P prefix code s =
     (if code = -5 then print P (ascii_line ''%s: file too small or empty.'') [Str (ascii prefix)] s
      else if code = -7 then print P (ascii_line ''%s: not a BMP file.'') [Str (ascii prefix)] s
      else if code = -10 \<or> code = -11
      then print P (ascii_line ''%s: unsupported BMP format (need uncompressed 8-bit or 24-bit).'') [Str (ascii prefix)] s
      else print P (ascii_line ''%s failed (%d).'') [Str (ascii prefix), Word (of_int code)] s)"

definition print_bmp_info :: "'m ports \<Rightarrow> bytes \<Rightarrow> bmp_info \<Rightarrow> ('m, 'd) system \<Rightarrow> ('m, 'd) system option" where
  "print_bmp_info P name info s = do {
     s \<leftarrow> print P (ascii_line ''BMP: %s'') [Str name] s;
     s \<leftarrow> print P (ascii_line ''  Size: %ux%u'') [Word (bm_width info), Word (bm_height info)] s;
     s \<leftarrow> print P (ascii_line ''  BPP: %u'') [Word (ucast (bm_bpp info))] s;
     s \<leftarrow> print P (ascii_line ''  Compression: %u'') [Word (bm_compression info)] s;
     s \<leftarrow> print P (ascii_line ''  Data offset: %u'') [Word (bm_data_offset info)] s;
     print P (ascii_line ''  Image size: %u'') [Word (bm_image_size info)] s
   }"

definition cmd_bmpinfo :: "'m ports \<Rightarrow> 'd dev \<Rightarrow> bytes \<Rightarrow> ('m, 'd) system \<Rightarrow> ('m, 'd) system option" where
  "cmd_bmpinfo P D cmd s =
     (if \<not> tetfs_is_mounted (sy_fs s) then Some (say P no_filesystem s)
      else if cmd ! 7 = 0 \<or> cmd ! 8 = 0 then Some (say P (ascii_line ''Usage: bmpinfo <file.bmp>'') s)
      else
        let ((r, info), d) = bmp_info_from_file D (Some (drop 8 cmd)) (cwd_inode (sy_shell s)) True (disk (sy_fs s));
            s = set_disk d s
        in if r \<noteq> 0 then shell_print_bmp_error P ''bmpinfo'' r s
           else do { name \<leftarrow> c_string (drop 8 cmd); info \<leftarrow> info; print_bmp_info P name info s })"

text \<open>The place that centres a picture; one that is larger than the screen starts at the border.\<close>

definition centred :: "u32 \<Rightarrow> u32 \<Rightarrow> u32" where
  "centred screen n = (if n < screen then (screen - n) div 2 else 0)"

definition cmd_bmpview :: "'m ports \<Rightarrow> 'd dev \<Rightarrow> bytes \<Rightarrow> ('m, 'd) system \<Rightarrow> ('m, 'd) system option" where
  "cmd_bmpview P D cmd s =
     (if \<not> tetfs_is_mounted (sy_fs s) then Some (say P no_filesystem s)
      else if cmd ! 7 = 0 \<or> cmd ! 8 = 0 then Some (say P (ascii_line ''Usage: bmpview <file.bmp>'') s)
      else
        let ((ir, info), d) = bmp_info_from_file D (Some (drop 8 cmd)) (cwd_inode (sy_shell s)) True (disk (sy_fs s));
            s = set_disk d s
        in if ir \<noteq> 0 then print P (ascii_line ''bmpview failed (%d).'') [Word (of_int ir)] s
           else do {
             info \<leftarrow> info;
             let x = centred (graphics_get_width (sy_gfx s)) (bm_width info);
             let y = centred (graphics_get_height (sy_gfx s)) (bm_height info);
             (vr, d, h, g) \<leftarrow> bmp_draw_from_file D (Some (drop 8 cmd)) (cwd_inode (sy_shell s)) x y
               (disk (sy_fs s), kheap (sy_sched s), sy_gfx s);
             let s = set_disk d (s\<lparr>sy_sched := (sy_sched s)\<lparr>kheap := h\<rparr>, sy_gfx := g\<rparr>);
             if vr \<noteq> 0 then shell_print_bmp_error P ''bmpview'' vr s
             else do { name \<leftarrow> c_string (drop 8 cmd); print P (ascii_line ''BMP rendered: %s'') [Str name] s }
           })"

section \<open>Files\<close>

definition cmd_seed :: "'m ports \<Rightarrow> 'd dev \<Rightarrow> shell_env \<Rightarrow> ('m, 'd) system \<Rightarrow> ('m, 'd) system" where
  "cmd_seed P D E s =
     (case appseed_install D (env_hello_elf E) (sy_fs s) of (r, fs) \<Rightarrow>
        say P (if r = 0 then ascii_line ''Bundled hello.elf installed.'' else ascii_line ''Bundled hello.elf install failed.'')
          (s\<lparr>sy_fs := fs\<rparr>))"

definition cmd_format :: "'m ports \<Rightarrow> 'd dev \<Rightarrow> shell_env \<Rightarrow> ('m, 'd) system \<Rightarrow> ('m, 'd) system" where
  "cmd_format P D E s =
     (let s = say P (ascii ''Formatting tetFS...'') s in
      case tetfs_format D (sy_fs s) of (r, fs) \<Rightarrow>
        let s = s\<lparr>sy_fs := fs\<rparr> in
        if r = 0 then cmd_seed P D E (say P (ascii_line '' done.'') s) else say P (ascii_line '' FAILED.'') s)"

fun ls_loop :: "'m ports \<Rightarrow> 'd dev \<Rightarrow> tetfs_inode list \<Rightarrow> ('m, 'd) system \<Rightarrow> ('m, 'd) system option" where
  "ls_loop P D [] s = Some s"
| "ls_loop P D (node # nodes) s = do {
     name \<leftarrow> c_string (i_name node);
     s \<leftarrow> (if i_type node = TETFS_TYPE_DIR
       then let s = say_color P name VGA_COLOR_LIGHT_CYAN s;
                (idx, d) = tetfs_find D (i_name node) (cwd_inode (sy_shell s)) (disk (sy_fs s));
                (children, d) = (if 0 \<le> idx then tetfs_count_children D (of_int idx) d else (0, d))
            in print P (ascii_line ''  (%d items)'') [Word (of_int children)] (set_disk d s)
       else print P (ascii_line ''  (%u B)'') [Word (i_size node)] (say P name s));
     ls_loop P D nodes s
   }"

definition cmd_ls :: "'m ports \<Rightarrow> 'd dev \<Rightarrow> ('m, 'd) system \<Rightarrow> ('m, 'd) system option" where
  "cmd_ls P D s =
     (if \<not> tetfs_is_mounted (sy_fs s) then Some (say P no_filesystem s)
      else
        let ((n, list), d) = tetfs_list D (cwd_inode (sy_shell s)) (int (unat TETFS_MAX_INODES)) (disk (sy_fs s));
            s = set_disk d s;
            s = (if n = 0 then say P (ascii_line ''(empty)'') s else s)
        in ls_loop P D list s)"

definition cmd_pwd :: "'m ports \<Rightarrow> ('m, 'd) system \<Rightarrow> ('m, 'd) system option" where
  "cmd_pwd P s = map_option (say P [0x0A]) (say_str P (cwd_path (sy_shell s)) s)"

text \<open>
  The path: back to the root, one step up (the loop shortens it to the last slash, which stays), and one step
  down, which stops at 126 characters.
\<close>

definition path_root :: "bytes \<Rightarrow> bytes" where
  "path_root cwd = cwd[0 := 0x2F, 1 := 0]"

fun path_cut :: "bytes \<Rightarrow> nat \<Rightarrow> nat" where
  "path_cut cwd (Suc n) = (if 0 < n \<and> cwd ! n \<noteq> 0x2F then path_cut cwd n else Suc n)"
| "path_cut cwd 0 = 0"

definition path_up :: "bytes \<Rightarrow> bytes option" where
  "path_up cwd = do {
     len \<leftarrow> strlen cwd;
     let (cwd, len) = (if 1 < len \<and> cwd ! (len - 1) = 0x2F then (cwd[len - 1 := 0], len - 1) else (cwd, len));
     let len = path_cut cwd len;
     let cwd = cwd[len := 0];
     Some (if len = 0 then path_root cwd else cwd)
   }"

definition path_down :: "bytes \<Rightarrow> bytes \<Rightarrow> bytes option" where
  "path_down target cwd = do {
     len \<leftarrow> strlen cwd;
     let (cwd, len) = (if 1 < len then (cwd[len := 0x2F], len + 1) else (cwd, len));
     let t = copy_chars (126 - len) target;
     if len + length t < length cwd then Some (blit cwd len (t @ [0])) else None
   }"

definition set_cwd :: "u16 \<Rightarrow> bytes \<Rightarrow> ('m, 'd) system \<Rightarrow> ('m, 'd) system" where
  "set_cwd inode cwd s = s\<lparr>sy_shell := (sy_shell s)\<lparr>cwd_inode := inode, cwd_path := cwd\<rparr>\<rparr>"

text \<open>A failed \<open>tetfs_read_inode\<close> leaves the node undefined.\<close>

definition cd_up :: "'d dev \<Rightarrow> ('m, 'd) system \<Rightarrow> ('m, 'd) system option" where
  "cd_up D s =
     (if cwd_inode (sy_shell s) = TETFS_ROOT_INODE then Some s
      else case tetfs_read_inode D (cwd_inode (sy_shell s)) (disk (sy_fs s)) of
        (None, d) \<Rightarrow> None
      | (Some node, d) \<Rightarrow>
          let parent = (if i_parent node = 0xFFFF then TETFS_ROOT_INODE else i_parent node)
          in map_option (\<lambda>cwd. set_cwd parent cwd (set_disk d s)) (path_up (cwd_path (sy_shell s))))"

definition cd_down :: "'m ports \<Rightarrow> 'd dev \<Rightarrow> bytes \<Rightarrow> ('m, 'd) system \<Rightarrow> ('m, 'd) system option" where
  "cd_down P D target s =
     (case tetfs_find D target (cwd_inode (sy_shell s)) (disk (sy_fs s)) of (idx, d) \<Rightarrow>
        let s = set_disk d s in
        if idx < 0
        then map_option (say P [0x0A]) (say_str P target (say P (ascii ''cd: no such directory: '') s))
        else case tetfs_read_inode D (of_int idx) (disk (sy_fs s)) of
          (None, d) \<Rightarrow> None
        | (Some node, d) \<Rightarrow>
            let s = set_disk d s in
            if i_type node \<noteq> TETFS_TYPE_DIR
            then map_option (say P [0x0A]) (say_str P target (say P (ascii ''cd: not a directory: '') s))
            else map_option (\<lambda>cwd. set_cwd (of_int idx) cwd s) (path_down target (cwd_path (sy_shell s))))"

definition cmd_cd :: "'m ports \<Rightarrow> 'd dev \<Rightarrow> bytes \<Rightarrow> ('m, 'd) system \<Rightarrow> ('m, 'd) system option" where
  "cmd_cd P D cmd s =
     (if \<not> tetfs_is_mounted (sy_fs s) then Some (say P (ascii_line ''No filesystem.'') s)
      else
        let target = (if cmd ! 2 = 0x20 then drop 3 cmd else ascii ''/'' @ [0]) in
        if streq target ''/'' \<or> target ! 0 = 0 then Some (set_cwd TETFS_ROOT_INODE (path_root (cwd_path (sy_shell s))) s)
        else if streq target ''..'' then cd_up D s
        else cd_down P D target s)"

definition cmd_create :: "'m ports \<Rightarrow> 'd dev \<Rightarrow> u8 \<Rightarrow> bytes \<Rightarrow> ('m, 'd) system \<Rightarrow> ('m, 'd) system" where
  "cmd_create P D type name s =
     (if \<not> tetfs_is_mounted (sy_fs s) then say P (ascii_line ''No filesystem.'') s
      else case tetfs_create D name (cwd_inode (sy_shell s)) type (disk (sy_fs s)) of (r, d) \<Rightarrow>
        say P (if 0 \<le> r then ascii_line ''Created.'' else ascii_line ''Failed (exists or full).'') (set_disk d s))"

definition cmd_touch :: "'m ports \<Rightarrow> 'd dev \<Rightarrow> bytes \<Rightarrow> ('m, 'd) system \<Rightarrow> ('m, 'd) system" where
  "cmd_touch P D name s = cmd_create P D TETFS_TYPE_FILE name s"

definition cmd_mkdir :: "'m ports \<Rightarrow> 'd dev \<Rightarrow> bytes \<Rightarrow> ('m, 'd) system \<Rightarrow> ('m, 'd) system" where
  "cmd_mkdir P D name s = cmd_create P D TETFS_TYPE_DIR name s"

text \<open>The part of the file that has been read is printed up to its first NUL.\<close>

partial_function (option) cat_loop :: "'m ports \<Rightarrow> 'd dev \<Rightarrow> u16 \<Rightarrow> u32 \<Rightarrow> u32 \<Rightarrow> ('m, 'd) system \<Rightarrow> ('m, 'd) system option" where
  "cat_loop P D idx len off s =
     (if off < len
      then (case tetfs_read D idx off 512 (disk (sy_fs s)) of ((n, buf), d) \<Rightarrow>
        let s = set_disk d s in
        if n \<le> 0 then Some s
        else cat_loop P D idx len (off + of_int n) (say P (cstr (take (nat n) buf)) s))
      else Some s)"

definition cmd_cat :: "'m ports \<Rightarrow> 'd dev \<Rightarrow> bytes \<Rightarrow> ('m, 'd) system \<Rightarrow> ('m, 'd) system option" where
  "cmd_cat P D name s =
     (if \<not> tetfs_is_mounted (sy_fs s) then Some (say P (ascii_line ''No filesystem.'') s)
      else case tetfs_find D name (cwd_inode (sy_shell s)) (disk (sy_fs s)) of (idx, d) \<Rightarrow>
        let s = set_disk d s in
        if idx < 0 then Some (say P (ascii_line ''File not found.'') s)
        else case tetfs_read_inode D (of_int idx) (disk (sy_fs s)) of
          (None, d) \<Rightarrow> None
        | (Some node, d) \<Rightarrow>
            let s = set_disk d s in
            if i_size node = 0 then Some (say P (ascii_line ''(empty file)'') s)
            else map_option (say P [0x0A]) (cat_loop P D (of_int idx) (i_size node) 0 s))"

text \<open>The file name ends at the first space and is cut at 50 characters; the rest is the content.\<close>

definition word_length :: "bytes \<Rightarrow> nat" where
  "word_length rest = length (takeWhile (\<lambda>c. c \<noteq> 0 \<and> c \<noteq> 0x20) rest)"

definition find_or_touch :: "'d dev \<Rightarrow> bytes \<Rightarrow> u16 \<Rightarrow> 'd \<Rightarrow> int \<times> 'd" where
  "find_or_touch D name parent d =
     (case tetfs_find D name parent d of (idx, d) \<Rightarrow>
        if idx < 0 then tetfs_create D name parent TETFS_TYPE_FILE d else (idx, d))"

definition cmd_write :: "'m ports \<Rightarrow> 'd dev \<Rightarrow> bytes \<Rightarrow> ('m, 'd) system \<Rightarrow> ('m, 'd) system option" where
  "cmd_write P D rest s =
     (if \<not> tetfs_is_mounted (sy_fs s) then Some (say P (ascii_line ''No filesystem.'') s)
      else let i = word_length rest in
        if rest ! i = 0 then Some (say P (ascii_line ''Usage: write <file> <content>'') s)
        else
          let name = take (min i 50) rest @ [0]; content = drop (i + 1) rest in do {
          n \<leftarrow> strlen content;
          let len = of_nat n;
          case find_or_touch D name (cwd_inode (sy_shell s)) (disk (sy_fs s)) of (idx, d) \<Rightarrow>
            if idx < 0 then Some (say P (ascii_line ''Cannot create file.'') (set_disk d s))
            else case tetfs_write D (of_int idx) content len d of (r, d) \<Rightarrow>
              if r = 0 then print P (ascii_line ''Wrote %u bytes to \\'%s\\'.'') [Word len, Str (cstr name)] (set_disk d s)
              else Some (say P (ascii_line ''Write failed.'') (set_disk d s))
        })"

definition cmd_rm :: "'m ports \<Rightarrow> 'd dev \<Rightarrow> bytes \<Rightarrow> ('m, 'd) system \<Rightarrow> ('m, 'd) system" where
  "cmd_rm P D name s =
     (if \<not> tetfs_is_mounted (sy_fs s) then say P (ascii_line ''No filesystem.'') s
      else case tetfs_find D name (cwd_inode (sy_shell s)) (disk (sy_fs s)) of (idx, d) \<Rightarrow>
        if idx < 0 then say P (ascii_line ''Not found.'') (set_disk d s)
        else case tetfs_delete D (of_int idx) d of (r, d) \<Rightarrow>
          say P (if r = 0 then ascii_line ''Deleted.'' else ascii_line ''Delete failed.'') (set_disk d s))"

section \<open>Text\<close>

definition cmd_about :: "'m ports \<Rightarrow> ('m, 'd) system \<Rightarrow> ('m, 'd) system" where
  "cmd_about P s =
     (let s = say_color P ([0x0A] @ ascii_line ''=== tetOS v0.1.0 ==='') VGA_COLOR_LIGHT_CYAN s;
          s = say P (ascii_line ''A simple operating system inspired by Kasane Teto'') s;
          s = say P (ascii_line ''Built with love and dedication'') s
      in say_color P (ascii ''\"my love, can you teach me to be real?\"'' @ [0x0A, 0x0A]) VGA_COLOR_LIGHT_MAGENTA s)"

definition cmd_teto :: "'m ports \<Rightarrow> ('m, 'd) system \<Rightarrow> ('m, 'd) system" where
  "cmd_teto P s =
     (let s = say_color P (ascii_line ''          .-.          '') VGA_COLOR_LIGHT_RED s;
          s = say_color P (ascii ''     .--/      '' @ [0x5C] @ ascii_line ''--.     '') VGA_COLOR_LIGHT_RED s;
          s = say_color P (ascii ''  ( ( ) | ^  ^ | ( ( )   '') VGA_COLOR_LIGHT_RED s;
          s = say P (ascii_line ''   < Kasane Teto says hi!'') s;
          s = say_color P (ascii_line ''  ( ~ ) |   v  | ( ~ )   '') VGA_COLOR_LIGHT_RED s
      in say_color P (ascii ''     (@)'' @ [0x5C] @ ascii_line ''______/(@) '') VGA_COLOR_LIGHT_RED s)"

section \<open>Dispatch\<close>

definition shell_execute_command :: "'m ports \<Rightarrow> 'd dev \<Rightarrow> shell_env \<Rightarrow> bytes \<Rightarrow> ('m, 'd) system \<Rightarrow> ('m, 'd) system option" where
  "shell_execute_command P D E cmd s =
     (if command_word cmd ''help''
      then Some (set_con (shell_help_topic P (if cmd ! 4 = 0x20 then drop 5 cmd else [0]) (con s)) s)
      else if streq cmd ''clear'' then Some (set_con (vga_clear P (con s)) s)
      else if starts cmd ''echo '' then map_option (say P [0x0A]) (say_str P (drop 5 cmd) s)
      else if streq cmd ''uptime'' then cmd_uptime P s
      else if streq cmd ''mem'' then cmd_mem P s
      else if streq cmd ''disk'' then cmd_disk P s
      else if streq cmd ''ps'' then cmd_ps P s
      else if streq cmd ''spawn'' then cmd_spawn P E s
      else if starts cmd ''kill '' then cmd_kill P (drop 5 cmd) s
      else if streq cmd ''utest'' then cmd_utest P E s
      else if starts cmd ''run '' then cmd_run P D (drop 4 cmd) s
      else if command_word cmd ''bmpinfo'' then cmd_bmpinfo P D cmd s
      else if command_word cmd ''bmpview'' then cmd_bmpview P D cmd s
      else if streq cmd ''format'' then Some (cmd_format P D E s)
      else if streq cmd ''seed'' then Some (cmd_seed P D E s)
      else if streq cmd ''ls'' then cmd_ls P D s
      else if streq cmd ''pwd'' then cmd_pwd P s
      else if command_word cmd ''cd'' then cmd_cd P D cmd s
      else if starts cmd ''touch '' then Some (cmd_touch P D (drop 6 cmd) s)
      else if starts cmd ''mkdir '' then Some (cmd_mkdir P D (drop 6 cmd) s)
      else if starts cmd ''cat '' then cmd_cat P D (drop 4 cmd) s
      else if starts cmd ''write '' then cmd_write P D (drop 6 cmd) s
      else if starts cmd ''rm '' then Some (cmd_rm P D (drop 3 cmd) s)
      else if streq cmd ''about'' then Some (cmd_about P s)
      else if streq cmd ''teto'' then Some (cmd_teto P s)
      else if cmd ! 0 = 0 then Some s
      else do {
        s \<leftarrow> say_str P cmd (say P (ascii ''Unknown command: '') s);
        Some (say P ([0x0A] @ ascii_line ''Type \\'help\\' for available commands.'') s)
      })"

section \<open>The loop\<close>

text \<open>A step that works on the shell and the console only.\<close>

definition on_shell :: "(shell \<times> 'm \<times> vga \<Rightarrow> (shell \<times> 'm \<times> vga) option) \<Rightarrow> ('m, 'd) system \<Rightarrow> ('m, 'd) system option" where
  "on_shell f s = map_option (\<lambda>(sh, c). set_con c (s\<lparr>sy_shell := sh\<rparr>)) (f (sy_shell s, con s))"

definition end_command :: "'m ports \<Rightarrow> shell \<times> 'm \<times> vga \<Rightarrow> (shell \<times> 'm \<times> vga) option" where
  "end_command P st = (case st of (sh, c) \<Rightarrow>
     let sh = sh\<lparr>command_len := 0, command_cursor := 0, command_view := 0, history_index := -1, history_saved_valid := 0,
                 command_buffer := replicate 256 0\<rparr>
     in shell_print_prompt P (sh, shell_update_history_banner P sh c))"

definition shell_enter :: "'m ports \<Rightarrow> 'd dev \<Rightarrow> shell_env \<Rightarrow> ('m, 'd) system \<Rightarrow> ('m, 'd) system option" where
  "shell_enter P D E s = do {
     let s = say P [0x0A] s;
     let sh = sy_shell s;
     let b = (command_buffer sh)[unat (command_len sh) := 0];
     s \<leftarrow> on_shell (shell_history_push P b) (s\<lparr>sy_shell := sh\<lparr>command_buffer := b\<rparr>\<rparr>);
     s \<leftarrow> shell_execute_command P D E b s;
     on_shell (end_command P) s
   }"

definition shell_key :: "'m ports \<Rightarrow> 'd dev \<Rightarrow> shell_env \<Rightarrow> u16 \<Rightarrow> ('m, 'd) system \<Rightarrow> ('m, 'd) system option" where
  "shell_key P D E key s =
     (if key = KEY_ENTER then shell_enter P D E s
      else on_shell (shell_edit_key P (keyboard_ctrl_down (sy_kbd s)) key) s)"

text \<open>One turn of the loop; \<open>keyboard_getkey\<close> waits when no key is there.\<close>

definition shell_turn :: "'m ports \<Rightarrow> 'd dev \<Rightarrow> shell_env \<Rightarrow> ('m, 'd) system \<Rightarrow> ('m, 'd) system option" where
  "shell_turn P D E s = do { (key, k) \<leftarrow> keyboard_getkey (sy_kbd s); shell_key P D E key (s\<lparr>sy_kbd := k\<rparr>) }"

definition shell_start :: "'m ports \<Rightarrow> ('m, 'd) system \<Rightarrow> ('m, 'd) system option" where
  "shell_start P s = do {
     let s = say P [0x0A] s;
     let s = say_color P (ascii_line ''Welcome to tetOS Shell!'') VGA_COLOR_YELLOW s;
     let s = say P (ascii_line ''Type \\'help\\' for available commands.'' @ [0x0A]) s;
     let s = set_con (shell_update_history_banner P (sy_shell s) (con s)) s;
     on_shell (shell_print_prompt P) s
   }"

fun shell_turns :: "nat \<Rightarrow> 'm ports \<Rightarrow> 'd dev \<Rightarrow> shell_env \<Rightarrow> ('m, 'd) system \<Rightarrow> ('m, 'd) system option" where
  "shell_turns 0 P D E s = Some s"
| "shell_turns (Suc n) P D E s = do { s \<leftarrow> shell_turn P D E s; shell_turns n P D E s }"

definition shell_run :: "nat \<Rightarrow> 'm ports \<Rightarrow> 'd dev \<Rightarrow> shell_env \<Rightarrow> ('m, 'd) system \<Rightarrow> ('m, 'd) system option" where
  "shell_run n P D E s = do { s \<leftarrow> shell_start P s; shell_turns n P D E s }"

end
