(* ===== verification/ShellCmdProps.thy ===== *)
theory ShellCmdProps
  imports ShellCmd ShellProps
begin

text \<open>
  The shell as a whole: every key, Enter with any command included, keeps the invariant of the line editor,
  and what is written to a file is what \<open>cat\<close> prints.
\<close>

section \<open>The fields a command leaves alone\<close>

lemma con_simps [simp]:
  "sy_shell (set_con c s) = sy_shell s" "sy_fs (set_con c s) = sy_fs s" "con (set_con c s) = c" "sy_sched (set_con c s) = sy_sched s"
  "sy_kbd (set_con c s) = sy_kbd s" "sy_shell (set_disk d s) = sy_shell s" "con (set_disk d s) = con s"
  "disk (sy_fs (set_disk d s)) = d" "tetfs_is_mounted (sy_fs (set_disk d s)) = tetfs_is_mounted (sy_fs s)"
  "con (s\<lparr>sy_shell := sh\<rparr>) = con s" "con (s\<lparr>sy_fs := fs\<rparr>) = con s" "con (s\<lparr>sy_sched := sc\<rparr>) = con s"
  by (simp_all add: set_con_def set_disk_def con_def tetfs_is_mounted_def)

lemma say_simps [simp]:
  "sy_shell (say P t s) = sy_shell s" "sy_fs (say P t s) = sy_fs s" "sy_shell (say_color P t fg s) = sy_shell s"
  "sy_fs (say_color P t fg s) = sy_fs s" "con (say P t s) = vga_write P t (con s)"
  by (simp_all add: say_def say_color_def)

lemma print_shell: "print P fmt args s = Some s' \<Longrightarrow> sy_shell s' = sy_shell s"
  by (auto simp: print_def)

lemma say_str_shell: "say_str P p s = Some s' \<Longrightarrow> sy_shell s' = sy_shell s"
  by (auto simp: say_str_def)

lemmas output_shell = print_shell say_str_shell

lemma ps_loop_shell: "ps_loop P is s = Some s' \<Longrightarrow> sy_shell s' = sy_shell s"
  by (induction "is" arbitrary: s) (auto simp: bind_eq_Some_conv Let_def dest: print_shell)

lemma bmp_error_shell: "shell_print_bmp_error P prefix code s = Some s' \<Longrightarrow> sy_shell s' = sy_shell s"
  by (auto simp: shell_print_bmp_error_def dest: print_shell split: if_splits)

lemma bmp_info_shell: "print_bmp_info P name info s = Some s' \<Longrightarrow> sy_shell s' = sy_shell s"
  by (auto simp: print_bmp_info_def bind_eq_Some_conv dest!: print_shell)

lemma ls_loop_shell: "ls_loop P D nodes s = Some s' \<Longrightarrow> sy_shell s' = sy_shell s"
  by (induction nodes arbitrary: s)
    (auto simp: bind_eq_Some_conv Let_def dest!: print_shell split: if_splits prod.splits)

lemma cat_loop_shell: "cat_loop P D idx len off s = Some s' \<Longrightarrow> sy_shell s' = sy_shell s"
proof (rule cat_loop.raw_induct [where Pa = "\<lambda>t s'. sy_shell s' = sy_shell (snd t)", unfolded snd_conv])
  fix rec :: "'a ports \<Rightarrow> 'b dev \<Rightarrow> u16 \<Rightarrow> u32 \<Rightarrow> u32 \<Rightarrow> ('a, 'b) system \<Rightarrow> ('a, 'b) system option" and P D idx len off s s'
  assume ih: "\<And>P D idx len off s s'. rec P D idx len off s = Some s' \<Longrightarrow> sy_shell s' = sy_shell s"
    and r: "(if off < len then case tetfs_read D idx off 512 (disk (sy_fs s)) of ((n, buf), d) \<Rightarrow>
        let s = set_disk d s in if n \<le> 0 then Some s else rec P D idx len (off + of_int n) (say P (cstr (take (nat n) buf)) s)
      else Some s) = Some s'"
  show "sy_shell s' = sy_shell s" using r by (auto simp: case_prod_beta Let_def dest!: ih split: if_split_asm)
qed

lemma info_shell:
  "cmd_uptime P s = Some s' \<Longrightarrow> sy_shell s' = sy_shell s" "cmd_mem P s = Some s' \<Longrightarrow> sy_shell s' = sy_shell s"
  "cmd_disk P s = Some s' \<Longrightarrow> sy_shell s' = sy_shell s" "cmd_pwd P s = Some s' \<Longrightarrow> sy_shell s' = sy_shell s"
  by (auto simp: cmd_uptime_def cmd_mem_def cmd_disk_def cmd_pwd_def bind_eq_Some_conv Let_def dest!: output_shell split: if_splits)

lemma process_shell:
  "cmd_ps P s = Some s' \<Longrightarrow> sy_shell s' = sy_shell s" "cmd_spawn P E s = Some s' \<Longrightarrow> sy_shell s' = sy_shell s"
  "cmd_kill P arg s = Some s' \<Longrightarrow> sy_shell s' = sy_shell s" "cmd_utest P E s = Some s' \<Longrightarrow> sy_shell s' = sy_shell s"
  "cmd_run P D arg s = Some s' \<Longrightarrow> sy_shell s' = sy_shell s"
  by (auto simp: cmd_ps_def cmd_spawn_def cmd_kill_def cmd_utest_def cmd_run_def bind_eq_Some_conv Let_def
      dest!: print_shell ps_loop_shell split: if_splits option.splits prod.splits)

lemma picture_shell:
  "cmd_bmpinfo P D cmd s = Some s' \<Longrightarrow> sy_shell s' = sy_shell s" "cmd_bmpview P D cmd s = Some s' \<Longrightarrow> sy_shell s' = sy_shell s"
  by (auto simp: cmd_bmpinfo_def cmd_bmpview_def bind_eq_Some_conv Let_def
      dest!: print_shell bmp_error_shell bmp_info_shell split: if_splits option.splits prod.splits)

lemma file_shell:
  "sy_shell (cmd_seed P D E s) = sy_shell s" "sy_shell (cmd_format P D E s) = sy_shell s" "cmd_ls P D s = Some s' \<Longrightarrow> sy_shell s' = sy_shell s"
  "sy_shell (cmd_create P D t name s) = sy_shell s" "sy_shell (cmd_rm P D name s) = sy_shell s"
  "cmd_cat P D name s = Some s' \<Longrightarrow> sy_shell s' = sy_shell s" "cmd_write P D rest s = Some s' \<Longrightarrow> sy_shell s' = sy_shell s"
proof -
  show seed: "sy_shell (cmd_seed P D E s) = sy_shell s" for s by (simp add: cmd_seed_def split: prod.split)
  show "sy_shell (cmd_format P D E s) = sy_shell s" by (simp add: cmd_format_def seed Let_def split: prod.split)
qed (auto simp: cmd_ls_def cmd_create_def cmd_rm_def cmd_cat_def cmd_write_def bind_eq_Some_conv Let_def case_prod_beta
    dest!: print_shell ls_loop_shell cat_loop_shell split: if_split_asm option.split_asm)

section \<open>The path\<close>

definition path_ok :: "bytes \<Rightarrow> bool" where
  "path_ok p \<longleftrightarrow> length p = 128 \<and> terminated p"

lemma path_root_ok: "length p = 128 \<Longrightarrow> path_ok (path_root p)"
  by (simp add: path_ok_def path_root_def set_update_memI)

lemma path_cut_le: "path_cut p n \<le> n"
  by (induction n rule: path_cut.induct) (auto simp: le_Suc_eq)

lemma path_up_ok:
  assumes "path_ok p" shows "\<exists>q. path_up p = Some q \<and> path_ok q"
proof -
  let ?n = "length (cstr p)"
  have n: "strlen p = Some ?n" "?n < 128" using assms length_cstr_less [of p] by (simp_all add: path_ok_def strlen_eq)
  define p1 k m where "p1 = (if 1 < ?n \<and> p ! (?n - 1) = 0x2F then p[?n - 1 := 0] else p)"
    and "k = (if 1 < ?n \<and> p ! (?n - 1) = 0x2F then ?n - 1 else ?n)" and "m = path_cut p1 k"
  have "k \<le> ?n" by (simp add: k_def)
  then have "m < 128" using path_cut_le [of p1 k] n(2) unfolding m_def by simp
  moreover have "length p1 = 128" using assms by (simp add: p1_def path_ok_def)
  moreover have "path_up p = Some (if m = 0 then path_root (p1[m := 0]) else p1[m := 0])"
    using n(1) by (simp add: path_up_def p1_def m_def k_def)
  ultimately show ?thesis using path_root_ok [of "p1[m := 0]"] by (auto simp: path_ok_def set_update_memI)
qed

lemma path_upD: "path_up p = Some q \<Longrightarrow> path_ok p \<Longrightarrow> path_ok q"
  using path_up_ok by force

lemma path_down_ok: "length p = 128 \<Longrightarrow> path_down target p = Some q \<Longrightarrow> path_ok q"
  by (auto simp: path_down_def path_ok_def bind_eq_Some_conv Let_def blit_def split: if_split_asm)

text \<open>
  A path of 126 characters gets a slash and nothing else; from the path of 127 characters that this leaves, the
  next \<open>cd\<close> writes its NUL behind the array.
\<close>

lemma path_overflow:
  assumes "length p = 128" "terminated p" "length (cstr p) = 127"
  shows "path_down target p = None"
  using assms by (simp add: path_down_def strlen_eq)

section \<open>Every key\<close>

text \<open>What a command leaves of the shell: only the current directory changes.\<close>

definition keeps_editor :: "shell \<Rightarrow> shell \<Rightarrow> bool" where
  "keeps_editor sh sh' \<longleftrightarrow> (\<exists>i p. sh' = sh\<lparr>cwd_inode := i, cwd_path := p\<rparr> \<and> (path_ok (cwd_path sh) \<longrightarrow> path_ok p))"

lemma keeps_refl: "keeps_editor sh sh"
  unfolding keeps_editor_def by (intro exI [of _ "cwd_inode sh"] exI [of _ "cwd_path sh"]) simp

lemma keeps_cwd: "(path_ok (cwd_path sh) \<Longrightarrow> path_ok p) \<Longrightarrow> keeps_editor sh (sh\<lparr>cwd_inode := i, cwd_path := p\<rparr>)"
  by (auto simp: keeps_editor_def)

lemma set_cwd_shell [simp]: "sy_shell (set_cwd i p s) = (sy_shell s)\<lparr>cwd_inode := i, cwd_path := p\<rparr>"
  by (simp add: set_cwd_def)

lemma path_length: "path_ok p \<Longrightarrow> length p = 128"
  by (simp add: path_ok_def)

lemma cd_keeps:
  assumes "cmd_cd P D cmd s = Some s'" shows "keeps_editor (sy_shell s) (sy_shell s')"
proof -
  have up: "keeps_editor (sy_shell s) (sy_shell s')" if "cd_up D s = Some s'"
    using that by (auto simp: cd_up_def Let_def keeps_refl split: if_split_asm prod.split_asm option.split_asm
        intro!: keeps_cwd intro: path_upD)
  have down: "keeps_editor (sy_shell s) (sy_shell s')" if "cd_down P D target s = Some s'" for target
    using that by (auto simp: cd_down_def Let_def keeps_refl dest!: say_str_shell split: if_split_asm prod.split_asm option.split_asm
        intro!: keeps_cwd path_down_ok dest!: path_length)
  show ?thesis using assms up down
    by (auto simp: cmd_cd_def Let_def keeps_refl split: if_split_asm intro!: keeps_cwd path_root_ok dest!: path_length)
qed

lemma command_keeps:
  assumes "shell_execute_command P D E cmd s = Some s'" shows "keeps_editor (sy_shell s) (sy_shell s')"
proof (cases "cmd_cd P D cmd s = Some s'")
  case True
  then show ?thesis using cd_keeps by blast
next
  case False
  then have "sy_shell s' = sy_shell s"
    using assms unfolding shell_execute_command_def cmd_touch_def cmd_mkdir_def cmd_about_def cmd_teto_def Let_def
    by (auto split: if_split_asm simp: bind_eq_Some_conv file_shell
        dest!: info_shell process_shell picture_shell file_shell(3,6,7) say_str_shell)
  then show ?thesis by (simp add: keeps_refl)
qed

lemma keeps_inv: "keeps_editor sh sh' \<Longrightarrow> shell_inv sh \<Longrightarrow> shell_inv sh'"
  by (auto simp: keeps_editor_def shell_inv_def path_ok_def)

section \<open>Enter\<close>

definition slot_ok :: "bytes \<Rightarrow> bool" where
  "slot_ok e \<longleftrightarrow> length e = 256 \<and> terminated e"

lemma strcpy_slot: "slot_ok d \<Longrightarrow> slot_ok e \<Longrightarrow> \<exists>r. strcpy d e = Some r \<and> slot_ok r \<and> cstr r = cstr e"
  using length_cstr_less [of e] by (simp add: strcpy_eq slot_ok_def)

lemma history_shift_eq:
  "1 \<le> a \<Longrightarrow> a \<le> n \<Longrightarrow> n \<le> length h \<Longrightarrow> \<forall>e \<in> set h. slot_ok e \<Longrightarrow>
   \<exists>h'. history_shift [a..<n] h = Some h' \<and> length h' = length h \<and> (\<forall>e \<in> set h'. slot_ok e) \<and>
     map cstr h' = take (a - 1) (map cstr h) @ take (n - a) (drop a (map cstr h)) @ drop (n - 1) (map cstr h)"
proof (induction "n - a" arbitrary: a h)
  case 0
  then show ?case by (simp flip: map_append)
next
  case (Suc k)
  then have a: "a < n" "[a..<n] = a # [Suc a..<n]" "a - 1 < length h" "a < length h" by (auto simp: upt_conv_Cons)
  then obtain e where e: "strcpy (h ! (a - 1)) (h ! a) = Some e" "slot_ok e" "cstr e = cstr (h ! a)"
    using strcpy_slot [of "h ! (a - 1)" "h ! a"] Suc.prems(4) by auto
  let ?h = "h[a - 1 := e]"
  have slots: "\<forall>e \<in> set ?h. slot_ok e" using Suc.prems(4) e(2) set_update_subset_insert [of h "a - 1" e] by auto
  then obtain h' where h': "history_shift [Suc a..<n] ?h = Some h'" "length h' = length h" "\<forall>e \<in> set h'. slot_ok e"
      "map cstr h' = take a (map cstr ?h) @ take (n - Suc a) (drop (Suc a) (map cstr ?h)) @ drop (n - 1) (map cstr ?h)"
  proof -
    have "k = n - Suc a" using Suc.hyps(2) by simp
    from Suc.hyps(1) [OF this, of ?h] show ?thesis using that slots Suc.prems a(1) by auto
  qed
  define C where "C = map cstr h"
  have C: "map cstr ?h = C[a - 1 := C ! a]" "a < length C" using a e(3) by (simp_all add: C_def map_update)
  have "take a (C[a - 1 := C ! a]) = take (a - 1) C @ [C ! a]"
    using C(2) Suc.prems(1) by (cases a) (simp_all add: take_Suc_conv_app_nth)
  moreover have "take (n - a) (drop a C) = C ! a # take (n - Suc a) (drop (Suc a) C)"
    using C(2) a(1) by (simp add: Cons_nth_drop_Suc [symmetric] take_Cons' )
  moreover have "drop (Suc a) (C[a - 1 := C ! a]) = drop (Suc a) C" "drop (n - 1) (C[a - 1 := C ! a]) = drop (n - 1) C"
    using Suc.prems(1) a(1) by simp_all
  ultimately show ?case using h'(1-3) h'(4) [unfolded C(1)] e(1) a(2) by (simp add: C_def [symmetric])
qed

text \<open>The history is the list of the last 32 commands, without repetitions of the one before.\<close>

definition ed_push :: "bytes \<Rightarrow> bytes list \<Rightarrow> bytes list" where
  "ed_push line h =
     (if line = [] \<or> h \<noteq> [] \<and> last h = line then h
      else if length h < 32 then h @ [line] else tl h @ [line])"

lemma history_add_eq:
  assumes "shell_inv sh" "slot_ok cmd"
  shows "\<exists>h n. history_add cmd sh = Some (sh\<lparr>command_history := h, history_count := n\<rparr>) \<and> length h = 32 \<and> (\<forall>e \<in> set h. slot_ok e) \<and>
    unat (history_count sh) \<le> unat n \<and> unat n \<le> 32 \<and>
    map cstr (take (unat n) h) = (let H = map cstr (take (unat (history_count sh)) (command_history sh)) in
      if length H < 32 then H @ [cstr cmd] else tl H @ [cstr cmd])"
proof -
  let ?H = "command_history sh" and ?n = "unat (history_count sh)"
  have i: "length ?H = 32" "\<forall>e \<in> set ?H. slot_ok e" "?n \<le> 32" using assms(1) by (auto simp: shell_inv_def slot_ok_def)
  show ?thesis
  proof (cases "?n < 32")
    case True
    then obtain e where e: "strcpy (?H ! ?n) cmd = Some e" "slot_ok e" "cstr e = cstr cmd"
      using strcpy_slot [of "?H ! ?n" cmd] i assms(2) by auto
    have n1: "unat (history_count sh + 1) = Suc ?n" using True by (simp add: unat_plus_small)
    have "history_add cmd sh = Some (sh\<lparr>command_history := ?H[?n := e], history_count := history_count sh + 1\<rparr>)"
      using True e(1) by (simp add: history_add_def word_less_nat_alt)
    moreover have "\<forall>x \<in> set (?H[?n := e]). slot_ok x" using i(2) e(2) set_update_subset_insert [of ?H ?n e] by auto
    moreover have "map cstr (take (Suc ?n) (?H[?n := e])) = map cstr (take ?n ?H) @ [cstr cmd]"
      using True i(1) e(3) by (simp add: take_Suc_conv_app_nth)
    ultimately show ?thesis using i True n1 by (intro exI [of _ "?H[?n := e]"] exI [of _ "history_count sh + 1"]) simp
  next
    case False
    then have n: "?n = 32" using i(3) by simp
    obtain h' where h': "history_shift [1..<32] ?H = Some h'" "length h' = 32" "\<forall>e \<in> set h'. slot_ok e"
        "map cstr h' = take 31 (drop 1 (map cstr ?H)) @ drop 31 (map cstr ?H)"
      using history_shift_eq [of 1 32 ?H] i by auto
    obtain e where e: "strcpy (h' ! 31) cmd = Some e" "slot_ok e" "cstr e = cstr cmd"
      using strcpy_slot [of "h' ! 31" cmd] h' assms(2) by auto
    have "history_add cmd sh = Some (sh\<lparr>command_history := h'[31 := e]\<rparr>)"
      using False h'(1) e(1) by (simp add: history_add_def word_less_nat_alt del: upt_rec_numeral)
    moreover have "\<forall>x \<in> set (h'[31 := e]). slot_ok x" using h'(3) e(2) set_update_subset_insert [of h' 31 e] by auto
    moreover have x: "drop 31 (map cstr ?H) = [map cstr ?H ! 31]" using i(1) Cons_nth_drop_Suc [of 31 "map cstr ?H"] by simp
    have "map cstr (take 32 (h'[31 := e])) = tl (map cstr ?H) @ [cstr cmd]"
      using h'(2,4) i(1) e(3) by (simp add: x map_update list_update_append drop_Suc map_tl)
    ultimately show ?thesis using i h'(2) n by (intro exI [of _ "h'[31 := e]"] exI [of _ "history_count sh"]) simp
  qed
qed

lemma history_push_becomes:
  assumes i: "shell_inv sh" and c: "slot_ok cmd"
  shows "shell_becomes ((editor_of sh)\<lparr>ed_history := ed_push (cstr cmd) (ed_history (editor_of sh))\<rparr>) (shell_history_push P cmd (sh, co))"
proof -
  let ?H = "map cstr (take (unat (history_count sh)) (command_history sh))"
  have H: "ed_history (editor_of sh) = ?H" by (simp add: editor_of_def)
  have e0: "cmd ! 0 = 0 \<longleftrightarrow> cstr cmd = []" using c by (cases cmd) (auto simp: slot_ok_def)
  have n: "unat (history_count sh) \<le> 32" "length (command_history sh) = 32" "\<forall>e \<in> set (command_history sh). slot_ok e"
    using i by (auto simp: shell_inv_def slot_ok_def)
  have same: "0 < history_count sh \<Longrightarrow> \<exists>r. strcmp (command_history sh ! unat (history_count sh - 1)) cmd = Some r \<and> (r = 0 \<longleftrightarrow> last ?H = cstr cmd) \<and> ?H \<noteq> []"
  proof -
    assume p: "0 < history_count sh"
    then have m: "unat (history_count sh - 1) = unat (history_count sh) - 1" "0 < unat (history_count sh)"
      by (simp_all add: unat_minus_one word_neq_0_conv unat_gt_0)
    let ?e = "command_history sh ! (unat (history_count sh) - 1)"
    have "slot_ok ?e" using n m(2) by simp
    then have "terminated ?e" "terminated cmd" using c by (simp_all add: slot_ok_def)
    then obtain r where r: "strcmp ?e cmd = Some r" using strcmp_defined by blast
    have ne: "?H \<noteq> []" using n m(2) by auto
    have "last ?H = ?H ! (unat (history_count sh) - 1)" using n last_conv_nth [OF ne] by (simp add: min_def)
    then have "last ?H = cstr ?e" using n m(2) by simp
    moreover note ne
    ultimately show ?thesis using strcmp_zero [OF r] r m(1) by auto
  qed
  have zero: "\<not> 0 < history_count sh \<Longrightarrow> ?H = []" using word_neq_0_conv by fastforce
  obtain h k where add: "history_add cmd sh = Some (sh\<lparr>command_history := h, history_count := k\<rparr>)" "length h = 32" "\<forall>e \<in> set h. slot_ok e"
    "unat (history_count sh) \<le> unat k" "unat k \<le> 32" "map cstr (take (unat k) h) = (if length ?H < 32 then ?H @ [cstr cmd] else tl ?H @ [cstr cmd])"
    using history_add_eq [OF i c] by (auto simp: Let_def)
  let ?s = "sh\<lparr>command_history := h, history_count := k\<rparr>"
  have inv: "shell_inv ?s" using i add(2-5) by (auto simp: shell_inv_def slot_ok_def)
  have ed: "editor_of ?s = (editor_of sh)\<lparr>ed_history := (if length ?H < 32 then ?H @ [cstr cmd] else tl ?H @ [cstr cmd])\<rparr>"
    using add(6) by (simp add: editor_of_def)
  show ?thesis
  proof (cases "cmd ! 0 = 0 \<or> ?H \<noteq> [] \<and> last ?H = cstr cmd")
    case True
    then have "shell_history_push P cmd (sh, co) = Some (sh, co)" using same zero by (auto simp: shell_history_push_def)
    moreover have "ed_push (cstr cmd) ?H = ?H" using True e0 by (auto simp: ed_push_def)
    ultimately show ?thesis using i H by simp
  next
    case False
    then have "shell_history_push P cmd (sh, co) = Some (?s, shell_update_history_banner P ?s co)"
      using same add(1) by (auto simp: shell_history_push_def)
    moreover have "ed_push (cstr cmd) ?H = (if length ?H < 32 then ?H @ [cstr cmd] else tl ?H @ [cstr cmd])"
      using False e0 by (auto simp: ed_push_def)
    ultimately show ?thesis using inv ed unfolding H by simp
  qed
qed

lemma keeps_editor_of: "keeps_editor sh sh' \<Longrightarrow> editor_of sh' = editor_of sh"
  by (auto simp: keeps_editor_def editor_of_def)

lemma end_command_becomes:
  assumes "shell_inv sh"
  shows "shell_becomes (editor_of sh \<lparr>ed_left := [], ed_right := [], ed_pos := None, ed_saved := []\<rparr>) (end_command P (sh, c))"
proof -
  define s0 where "s0 = sh\<lparr>command_len := 0, command_cursor := 0, command_view := 0, history_index := -1, history_saved_valid := 0, command_buffer := replicate 256 0\<rparr>"
  have i: "shell_inv s0" using assms by (auto simp: s0_def shell_inv_def)
  have e: "editor_of s0 = editor_of sh \<lparr>ed_left := [], ed_right := [], ed_pos := None, ed_saved := []\<rparr>" by (simp add: s0_def editor_of_def)
  have "end_command P (sh, c) = shell_print_prompt P (s0, shell_update_history_banner P s0 c)" by (simp add: end_command_def Let_def s0_def)
  then obtain r c' where "end_command P (sh, c) = Some (s0\<lparr>prompt_row := r, command_view := 0\<rparr>, c')"
    using prompt_state [OF i, of P "shell_update_history_banner P s0 c"] by auto
  then show ?thesis using i e by simp
qed

text \<open>One key of the whole shell on the editor.\<close>

definition session_key :: "bool \<Rightarrow> u16 \<Rightarrow> editor \<Rightarrow> editor" where
  "session_key ctrl key e =
     (if key = KEY_ENTER
      then \<lparr>ed_left = [], ed_right = [], ed_history = ed_push (ed_line e) (ed_history e), ed_pos = None, ed_saved = []\<rparr>
      else editor_key (ctrl, key) e)"

lemma on_shell_becomes:
  assumes "shell_becomes e (f (sy_shell s, con s))" "on_shell f s = Some s'"
  shows "shell_inv (sy_shell s')" "editor_of (sy_shell s') = e"
  using assms by (auto simp: shell_becomes_def on_shell_def)

lemma enter_session:
  assumes i: "shell_inv (sy_shell s)" and e: "shell_enter P D E s = Some s'"
  shows "shell_inv (sy_shell s') \<and> editor_of (sy_shell s') = session_key ctrl KEY_ENTER (editor_of (sy_shell s))"
proof -
  let ?sh = "sy_shell s" and ?b = "command_buffer (sy_shell s)" and ?e = "editor_of (sy_shell s)"
  have b: "slot_ok ?b" "cstr ?b = ed_line ?e" "length (cstr ?b) = unat (command_len ?sh)"
    using i by (simp_all add: shell_inv_def slot_ok_def ed_line_def editor_of_def)
  have "?b[unat (command_len ?sh) := 0] = ?b" using b terminated_split [of ?b] by (metis list_update_id slot_ok_def)
  then obtain s1 s2 where 1: "on_shell (shell_history_push P ?b) ((say P [0x0A] s)\<lparr>sy_shell := ?sh\<rparr>) = Some s1"
    and 2: "shell_execute_command P D E ?b s1 = Some s2" and 3: "on_shell (end_command P) s2 = Some s'"
    using e by (auto simp: shell_enter_def bind_eq_Some_conv Let_def)
  note h = on_shell_becomes [OF _ 1, simplified, OF history_push_becomes [OF i b(1)]]
  have k: "shell_inv (sy_shell s2)" "editor_of (sy_shell s2) = editor_of (sy_shell s1)"
    using keeps_inv [OF command_keeps [OF 2] h(1)] keeps_editor_of [OF command_keeps [OF 2]] by simp_all
  from on_shell_becomes [OF end_command_becomes [OF k(1)] 3] show ?thesis
    by (simp add: k(2) h(2) session_key_def b(2))
qed


text \<open>A machine with a freshly formatted disk on which the shell has just started.\<close>

definition system_boot :: "((u16 \<times> u8) list, sim ata_state) system" where
  "system_boot = \<lparr>sy_shell = shell_boot, sy_port = [], sy_vga = \<lparr>vga_buffer = replicate 4000 0, vga_index = 0, vga_current_color = 15\<rparr>,
     sy_ticks = 0, sy_fs = \<lparr>fs_mounted = True, fd_table = [], disk = fs_boot\<rparr>, sy_vm = vm_boot, sy_sched = sched_boot,
     sy_gfx = gfx_boot, sy_drive = \<lparr>ata_model = [0], ata_sectors = 0, ata_present = 0\<rparr>, sy_kbd = kbd_boot\<rparr>"

definition env_boot :: shell_env where
  "env_boot = \<lparr>env_demo_proc_entry = 0, env_user_demo_entry = 0, env_hello_elf = []\<rparr>"

lemma system_boot_ok: "sy_shell system_boot = shell_boot" "sy_fs system_boot = \<lparr>fs_mounted = True, fd_table = [], disk = fs_boot\<rparr>"
  "sy_kbd system_boot = kbd_boot"
  by (simp_all add: system_boot_def)

lemma dispatch_empty: "shell_execute_command P D E (0 # rest) s = Some s"
  by (simp add: shell_execute_command_def command_word_def starts_def streq_def ascii_def)


end
