(* ===== verification/ShellFiles.thy ===== *)
theory ShellFiles
  imports ShellCmdProps
begin

text \<open>The file commands of the shell on a reliable disk: what \<open>write\<close> stores is what \<open>cat\<close> prints.\<close>

section \<open>Printing ends\<close>

text \<open>A serial line that is ready at every poll, and a format string whose arguments are there.\<close>

definition serial_ready :: "'m ports \<Rightarrow> bool" where
  "serial_ready P \<longleftrightarrow> (\<forall>m. fst (inb P (SERIAL_PORT + 5) m) AND 0x20 \<noteq> 0)"

fun format_ok :: "bytes \<Rightarrow> va_arg list \<Rightarrow> bool" where
  "format_ok (c # d # fmt) args =
     (if c = 0x25
      then (if d \<in> {0x64, 0x69, 0x75, 0x78, 0x63} then (case args of Word w # args \<Rightarrow> format_ok fmt args | _ \<Rightarrow> False)
            else if d = 0x73 then (case args of Str t # args \<Rightarrow> format_ok fmt args | _ \<Rightarrow> False)
            else format_ok fmt args)
      else format_ok (d # fmt) args)"
| "format_ok _ args = True"

lemma serial_putchar_ready: "serial_ready P \<Longrightarrow> \<exists>m'. serial_putchar P c m = Some m'"
  unfolding serial_ready_def serial_putchar_def by (subst serial_wait.simps) (auto split: prod.split simp: split_beta)

lemma put_both_ready: "serial_ready P \<Longrightarrow> \<exists>s'. put_both P c s = Some s'"
  using serial_putchar_ready [of P c] by (fastforce simp: put_both_def split: prod.split)

lemma put_all_ready: "serial_ready P \<Longrightarrow> \<exists>s'. put_all P cs s = Some s'"
proof (induction cs arbitrary: s)
  case (Cons c cs)
  then show ?case using put_both_ready [OF Cons.prems, of c s] by auto
qed simp

lemma serial_puts_ready: "serial_ready P \<Longrightarrow> \<exists>m'. serial_puts P cs m = Some m'"
proof (induction cs arbitrary: m)
  case (Cons c cs)
  then show ?case using serial_putchar_ready [OF Cons.prems, of c m] by auto
qed simp

lemma puts_both_ready: "serial_ready P \<Longrightarrow> \<exists>s'. puts_both P cs s = Some s'"
  using serial_puts_ready [of P cs] by (fastforce simp: puts_both_def split: prod.split)

lemma kprintf_int_ready: "serial_ready P \<Longrightarrow> \<exists>s'. kprintf_int P w s = Some s'"
  using put_both_ready [of P "0x2D" s] put_all_ready [of P]
  by (auto simp: kprintf_int_def kprintf_uint_text split: option.split)

lemma conversion_ready:
  assumes r: "serial_ready P" and ok: "format_ok (0x25 # d # fmt) args"
  shows "\<exists>args' s'. print_conversion P d args s = Some (args', s') \<and> format_ok fmt args'"
proof (cases "d \<in> {0x64, 0x69, 0x75, 0x78, 0x63}")
  case True
  then obtain w rest where args: "args = Word w # rest" "format_ok fmt rest"
    using ok by (auto split: list.splits va_arg.splits)
  obtain s1 s2 s3 s4 where "put_all P (uint_text 10 w) s = Some s1" "put_all P (uint_text 16 w) s = Some s2"
    "kprintf_int P w s = Some s3" "put_both P (ucast w) s = Some s4"
    using put_all_ready [OF r, of _ s] kprintf_int_ready [OF r, of w s] put_both_ready [OF r, of "ucast w" s] by metis
  then show ?thesis using True args by (auto simp: kprintf_uint_text)
next
  case False
  show ?thesis
  proof (cases "d = 0x73")
    case True
    then obtain t rest where args: "args = Str t # rest" "format_ok fmt rest"
      using ok by (auto split: list.splits va_arg.splits)
    then show ?thesis using True puts_both_ready [OF r, of t s] by auto
  next
    case s: False
    have "format_ok fmt args" using ok False s by simp
    moreover obtain s1 where "put_both P 0x25 s = Some s1" using put_both_ready [OF r] by blast
    moreover obtain m v where v: "vga_putchar P d (vga_putchar P 0x25 s) = (m, v)" by force
    moreover obtain m' where "serial_puts P [0x25, d] m = Some m'" using serial_puts_ready [OF r] by blast
    ultimately show ?thesis using False s by auto
  qed
qed

lemma vprintk_ready: "serial_ready P \<Longrightarrow> format_ok fmt args \<Longrightarrow> \<exists>s'. vprintk P fmt args s = Some s'"
proof (induction "length fmt" arbitrary: fmt args s rule: less_induct)
  case less
  consider "fmt = []" | c where "fmt = [c]" | c d f where "fmt = c # d # f" by (cases fmt; cases "tl fmt") auto
  then show ?case
  proof cases
    case 2
    then show ?thesis using put_both_ready [OF less.prems(1), of c s] by simp
  next
    case 3
    show ?thesis
    proof (cases "c = 0x25")
      case True
      then obtain args' s' where "print_conversion P d args s = Some (args', s')" "format_ok f args'"
        using conversion_ready [OF less.prems(1), of d f args s] less.prems(2) 3 by auto
      then show ?thesis using True 3 less.hyps [of f args' s'] less.prems(1) by simp
    next
      case False
      then have "format_ok (d # f) args" using less.prems(2) 3 by simp
      then show ?thesis using False 3 put_both_ready [OF less.prems(1), of c s] less.hyps [of "d # f" args] less.prems(1) by auto
    qed
  qed simp
qed

lemma print_ready: "serial_ready P \<Longrightarrow> format_ok fmt args \<Longrightarrow> \<exists>c. print P fmt args s = Some (set_con c s)"
  using vprintk_ready [of P fmt args "con s"] by (auto simp: print_def kprintf_def)

section \<open>The loops\<close>

lemma data_sector_take:
  assumes "unat len \<le> 8192" "i * 512 < unat len"
  shows "data_sector (take (unat len) buf) len i = data_sector buf len i"
proof -
  have off: "unat (of_nat i * TETFS_BLOCK_SIZE) = i * 512" using assms by (simp add: unat_word_ariths unat_of_nat_small)
  define chunk where "chunk = (if TETFS_BLOCK_SIZE < len - of_nat i * TETFS_BLOCK_SIZE then TETFS_BLOCK_SIZE else len - of_nat i * TETFS_BLOCK_SIZE)"
  have "unat (len - of_nat i * TETFS_BLOCK_SIZE) = unat len - i * 512" using off assms(2) by (simp add: unat_minus_le word_le_nat_alt)
  then have "i * 512 + unat chunk \<le> unat len" using assms(2) by (auto simp: chunk_def word_less_nat_alt)
  then show ?thesis by (simp add: data_sector_def Let_def off slice_take flip: chunk_def)
qed

lemma write_blocks_cong:
  "\<forall>i \<in> set is. data_sector b len i = data_sector b' len i \<Longrightarrow> write_blocks D start b len is d = write_blocks D start b' len is d"
  by (induction "is" arbitrary: d) (auto simp: Let_def split: prod.split)

text \<open>Only the first \<open>len\<close> bytes of the buffer are written.\<close>

lemma tetfs_write_take: "unat len \<le> 8192 \<Longrightarrow> tetfs_write D idx (take (unat len) buf) len d = tetfs_write D idx buf len d"
proof -
  assume len: "unat len \<le> 8192"
  have "i * 512 < unat len" if "i < unat (blocks_for len)" "len \<noteq> 0" for i
  proof -
    have "unat (len + TETFS_BLOCK_SIZE - 1) = unat len + 511"
    proof -
      have "unat (len + 511) = unat len + 511" using len by (simp add: unat_plus_small)
      then show ?thesis by (simp add: add.commute)
    qed
    then have "unat (blocks_for len) = (unat len + 511) div 512"
      using len by (simp add: blocks_for_def unat_div unsigned_ucast_eq take_bit_nat_eq_self div_le_mono)
    then show ?thesis using that by linarith
  qed
  then have "write_blocks D start (take (unat len) buf) len [0..<unat (blocks_for len)] d = write_blocks D start buf len [0..<unat (blocks_for len)] d"
    if "len \<noteq> 0" for start d using that data_sector_take [OF len] by (intro write_blocks_cong) auto
  then show ?thesis by (auto simp: tetfs_write_def Let_def split: prod.split option.split)
qed

context reliable_dev
begin

lemma find_or_touch_ok:
  assumes inv: "fs_inv sec invar d" and v: "terminated name" "length (cstr name) \<le> 50" and run: "find_or_touch D name parent d = (q, d')"
  shows "fs_inv sec invar d' \<and> (0 \<le> q \<longrightarrow> (\<exists>i. q = int (unat i) \<and> 0 < i \<and> i < TETFS_MAX_INODES \<and> named (sec d') (cstr name) parent i) \<and>
      (\<forall>x. (fs_map (sec d'))((parent, cstr name) \<mapsto> x) = (fs_map (sec d))((parent, cstr name) \<mapsto> x)))"
proof -
  obtain k d1 where k: "tetfs_find D name parent d = (k, d1)" by force
  note F = find_entry [OF inv v(1) k]
  then have d1: "fs_inv sec invar d1" "sec d1 = sec d" using inv by (simp_all add: fs_inv_def)
  show ?thesis
  proof (cases "k < 0")
    case True
    then have "tetfs_create D name parent TETFS_TYPE_FILE d1 = (q, d')" using run k by (simp add: find_or_touch_def)
    from step_make [OF d1(1) v(1,2) _ this] show ?thesis using d1(2) by (auto split: if_splits)
  next
    case False
    then show ?thesis using run k F d1 by (auto simp: find_or_touch_def)
  qed
qed

text \<open>\<open>cat\<close> prints a text file to its end and leaves the disk as it is.\<close>

lemma cat_loop_prints:
  assumes f: "fs_wf (sec d0)" "idx < TETFS_MAX_INODES" "i_type (inode_at (sec d0) idx) = TETFS_TYPE_FILE"
    "contents (sec d0) (inode_at (sec d0) idx) = text" "0 \<notin> set text" "length text = unat len" "unat len \<le> 8192"
  shows "invar (disk (sy_fs s)) \<Longrightarrow> sec (disk (sy_fs s)) = sec d0 \<Longrightarrow> unat off \<le> unat len \<Longrightarrow>
    \<exists>s'. cat_loop P D idx len off s = Some s' \<and> con s' = vga_write P (drop (unat off) text) (con s)"
proof (induction "unat len - unat off" arbitrary: off s rule: less_induct)
  case less
  show ?case
  proof (cases "off < len")
    case False
    then have "unat off = unat len" using less.prems(3) by (simp add: word_less_nat_alt)
    then show ?thesis using False f(6) by (subst cat_loop.simps) (simp add: vga_write_def)
  next
    case True
    then have lt: "unat off < unat len" by (simp add: word_less_nat_alt)
    let ?out = "slice (unat off) 512 text" and ?n = "min 512 (unat len - unat off)"
    have len: "length ?out = ?n" using f(6) by (simp add: slice_def min.commute)
    have nowrap: "unat off + unat (512 :: u32) < 4294967296" using lt f(7) by simp
    have wf: "fs_wf (sec (disk (sy_fs s)))" "i_type (inode_at (sec (disk (sy_fs s))) idx) = TETFS_TYPE_FILE"
      "contents (sec (disk (sy_fs s))) (inode_at (sec (disk (sy_fs s))) idx) = text" using f less.prems(2) by simp_all
    obtain d1 where rd: "tetfs_read D idx off 512 (disk (sy_fs s)) = ((int ?n, ?out), d1)" "invar d1" "sec d1 = sec d0"
      using tetfs_read_ok [OF less.prems(1) wf(1) f(2) wf(2) nowrap] wf(3) less.prems(2) len by (auto simp: Let_def)
    have off: "unat (off + of_int (int ?n)) = unat off + ?n" using lt f(7) by (simp add: unat_plus_small unat_of_nat_small)
    define n where "n = ?n"
    have pos: "0 < n" using lt by (simp add: n_def)
    let ?s = "say P ?out (set_disk d1 s)"
    have whole: "cstr (take ?n ?out) = ?out"
    proof -
      have "0 \<notin> set ?out" using f(5) by (auto simp: slice_def dest: in_set_takeD in_set_dropD)
      then have "cstr ?out = ?out" by (auto simp: cstr_def takeWhile_eq_all_conv)
      then show ?thesis using len by simp
    qed
    have "cat_loop P D idx len off s = cat_loop P D idx len (off + of_int (int ?n)) ?s"
      using True pos rd(1) whole unfolding n_def [symmetric] by (subst cat_loop.simps) (simp add: Let_def del: of_int_of_nat_eq)
    moreover obtain s' where "cat_loop P D idx len (off + of_int (int ?n)) ?s = Some s'"
      "con s' = vga_write P (drop (unat off + ?n) text) (con ?s)"
    proof -
      have m: "unat len - (unat off + ?n) < unat len - unat off" "unat off + ?n \<le> unat len" using lt by (auto simp: min_def)
      show ?thesis using that less.hyps [of "off + of_int (int ?n)" ?s] m off rd by (auto simp only: say_simps con_simps)
    qed
    moreover have "?out @ drop (unat off + ?n) text = drop (unat off) text"
    proof -
      have "take ?n (drop (unat off) text) = ?out" using f(6) by (simp add: slice_def min_def)
      then show ?thesis by (metis append_take_drop_id drop_drop add.commute)
    qed
    then have "vga_write P (drop (unat off + ?n) text) (con ?s) = vga_write P (drop (unat off) text) (con s)"
      by (metis con_simps(7) fold_append comp_apply say_simps(5) vga_write_def)
    ultimately show ?thesis by simp
  qed
qed

lemma cmd_cat_prints:
  assumes m: "tetfs_is_mounted (sy_fs s)" and inv: "fs_inv sec invar (disk (sy_fs s))" and v: "terminated name"
    and e: "fs_map (sec (disk (sy_fs s))) (cwd_inode (sy_shell s), cstr name) = Some (TETFS_TYPE_FILE, text)"
    and t: "0 \<notin> set text" "text \<noteq> []" "length text \<le> 8192"
  shows "\<exists>s'. cmd_cat P D name s = Some s' \<and> con s' = vga_write P (text @ [0x0A]) (con s)"
proof -
  let ?d = "disk (sy_fs s)"
  obtain k d1 where k: "tetfs_find D name (cwd_inode (sy_shell s)) ?d = (k, d1)" by force
  note F = find_entry [OF inv v k]
  then obtain i where i: "k = int (unat i)" "i < TETFS_MAX_INODES" "entry_at (sec ?d) i = (TETFS_TYPE_FILE, text)" "invar d1" "sec d1 = sec ?d"
    using e by (auto split: if_splits)
  have wf: "fs_wf (sec ?d)" using inv by (simp add: fs_inv_def)
  obtain d2 where d2: "tetfs_read_inode D i d1 = (Some (inode_at (sec ?d) i), d2)" "invar d2" "sec d2 = sec ?d"
    using read_inode_ok [OF i(4,2)] i(5) by metis
  have c: "i_type (inode_at (sec ?d) i) = TETFS_TYPE_FILE" "contents (sec ?d) (inode_at (sec ?d) i) = text" using i(3) by (simp_all add: entry_at_def)
  then have len: "length text = unat (i_size (inode_at (sec ?d) i))" using length_contents [OF wf i(2)] by simp
  then have n0: "i_size (inode_at (sec ?d) i) \<noteq> 0" using t(2) by auto
  let ?s = "set_disk d2 (set_disk d1 s)"
  obtain s' where s': "cat_loop P D i (i_size (inode_at (sec ?d) i)) 0 ?s = Some s'" "con s' = vga_write P text (con s)"
    using cat_loop_prints [OF wf i(2) c t(1) len, of ?s 0 P] t(3) len d2(2,3) by auto
  have "cmd_cat P D name s = map_option (say P [0x0A]) (cat_loop P D i (i_size (inode_at (sec ?d) i)) 0 ?s)"
    using m k i(1) d2(1) n0 by (simp add: cmd_cat_def Let_def)
  then show ?thesis using s' by (simp add: vga_write_def)
qed

lemma cmd_write_stores:
  assumes m: "tetfs_is_mounted (sy_fs s)" and inv: "fs_inv sec invar (disk (sy_fs s))" and r: "serial_ready P"
    and v: "0 \<notin> set name" "0x20 \<notin> set name" "length name \<le> 50" and t: "0 \<notin> set text" "length text \<le> 8192"
    and rest: "rest = name @ 0x20 # text @ [0]"
  shows "\<exists>d c. cmd_write P D rest s = Some (set_con c (set_disk d s)) \<and> fs_inv sec invar d \<and>
    (fs_map (sec d) = (fs_map (sec (disk (sy_fs s))))((cwd_inode (sy_shell s), name) \<mapsto> (TETFS_TYPE_FILE, text)) \<or>
     c \<in> {vga_write P (ascii_line ''Write failed.'') (con s), vga_write P (ascii_line ''Cannot create file.'') (con s)})"
proof -
  let ?d = "disk (sy_fs s)" and ?p = "cwd_inode (sy_shell s)" and ?len = "of_nat (length text) :: u32"
  have "takeWhile (\<lambda>c. c \<noteq> 0 \<and> c \<noteq> 0x20) rest = name" unfolding rest using v(1,2) by (subst takeWhile_append2) auto
  then have w: "word_length rest = length name" "rest ! length name = 0x20" "take (min (length name) 50) rest = name"
    "drop (length name + 1) rest = text @ [0]" using v(3) by (simp_all add: word_length_def rest)
  have n: "terminated (name @ [0])" "cstr (name @ [0]) = name" "length (cstr (name @ [0])) \<le> 50"
    using v(1,3) cstr_append_nul [of name "[]"] by simp_all
  have tl: "strlen (text @ [0]) = Some (length text)" using t(1) cstr_append_nul [of "text" "[]"] by (simp add: strlen_eq)
  obtain q d1 where q: "find_or_touch D (name @ [0]) ?p ?d = (q, d1)" by force
  note Q = find_or_touch_ok [OF inv n(1,3) q, unfolded n(2)]
  have start: "cmd_write P D rest s =
     (if q < 0 then Some (say P (ascii_line ''Cannot create file.'') (set_disk d1 s))
      else case tetfs_write D (of_int q) (text @ [0]) ?len d1 of (r, d) \<Rightarrow>
        if r = 0 then print P (ascii_line ''Wrote %u bytes to \\'%s\\'.'') [Word ?len, Str (cstr (name @ [0]))] (set_disk d s)
        else Some (say P (ascii_line ''Write failed.'') (set_disk d s)))"
    using m tl q w by (simp add: cmd_write_def Let_def)
  show ?thesis
  proof (cases "q < 0")
    case True
    then show ?thesis using Q start
      by (intro exI [of _ d1] exI [of _ "vga_write P (ascii_line ''Cannot create file.'') (con s)"]) (simp add: say_def)
  next
    case False
    then obtain i where i: "q = int (unat i)" "0 < i" "i < TETFS_MAX_INODES" "named (sec d1) name ?p i" using Q by auto
    obtain x d2 where x: "tetfs_write D i (text @ [0]) ?len d1 = (x, d2)" by force
    have "unat ?len = length text" using t(2) by (simp add: unat_of_nat_small)
    then have "tetfs_write D i text ?len d1 = (x, d2)" using tetfs_write_take [of ?len D i "text @ [0]" d1] t(2) x by simp
    note W = step_put [OF _ i(2-4) t(2) this]
    show ?thesis
    proof (cases "x = 0")
      case True
      have "format_ok (ascii_line ''Wrote %u bytes to \\'%s\\'.'') [Word ?len, Str (cstr (name @ [0]))]"
        by (simp add: ascii_line_def ascii_def)
      from print_ready [OF r this, of "set_disk d2 s"] True W Q False start x i(1) show ?thesis by auto
    next
      case xF: False
      then show ?thesis using W Q False start x i(1)
        by (intro exI [of _ d2] exI [of _ "vga_write P (ascii_line ''Write failed.'') (con s)"]) (simp add: say_def)
    qed
  qed
qed

end

text \<open>The two command lines reach their commands.\<close>

lemma dispatch_write: "shell_execute_command P D E (ascii ''write '' @ rest) s = cmd_write P D rest s"
  by (simp add: shell_execute_command_def command_word_def starts_def streq_def ascii_def)

lemma dispatch_cat: "shell_execute_command P D E (ascii ''cat '' @ rest) s = cmd_cat P D rest s"
  by (simp add: shell_execute_command_def command_word_def starts_def streq_def ascii_def)

text \<open>
  C28. Files through the shell: on a reliable mounted disk with a serial line that is ready, the command line write, a name of at
  most 50 characters without blanks, and a text has a result; either it shows one of its two error messages, or the current directory
  maps the name to exactly the text, no other entry has changed, and the command line cat with that name, run next, prints the
  text and a newline on the console, however many blocks it takes. The disk stays well formed with unique names.
\<close>
theorem shell_write_then_cat:
  assumes "reliable_dev D sec invar" "fs_inv sec invar (disk (sy_fs s))" "tetfs_is_mounted (sy_fs s)" "serial_ready P"
    and "0 \<notin> set name" "0x20 \<notin> set name" "length name \<le> 50" "0 \<notin> set text" "text \<noteq> []" "length text \<le> 8192"
  shows "\<exists>s1. shell_execute_command P D E (ascii ''write '' @ name @ 0x20 # text @ [0]) s = Some s1 \<and>
    fs_inv sec invar (disk (sy_fs s1)) \<and>
    (con s1 \<in> {vga_write P (ascii_line ''Write failed.'') (con s), vga_write P (ascii_line ''Cannot create file.'') (con s)} \<or>
     fs_map (sec (disk (sy_fs s1))) = (fs_map (sec (disk (sy_fs s))))((cwd_inode (sy_shell s), name) \<mapsto> (TETFS_TYPE_FILE, text)) \<and>
     (\<exists>s2. shell_execute_command P D E (ascii ''cat '' @ name @ [0]) s1 = Some s2 \<and> con s2 = vga_write P (text @ [0x0A]) (con s1)))"
proof -
  obtain d c where w: "cmd_write P D (name @ 0x20 # text @ [0]) s = Some (set_con c (set_disk d s))" "fs_inv sec invar d"
    "fs_map (sec d) = (fs_map (sec (disk (sy_fs s))))((cwd_inode (sy_shell s), name) \<mapsto> (TETFS_TYPE_FILE, text)) \<or>
     c \<in> {vga_write P (ascii_line ''Write failed.'') (con s), vga_write P (ascii_line ''Cannot create file.'') (con s)}"
    using reliable_dev.cmd_write_stores [OF assms(1,3,2,4-8,10) refl] by blast
  let ?s1 = "set_con c (set_disk d s)"
  have n: "terminated (name @ [0])" "cstr (name @ [0]) = name" using assms(5) cstr_append_nul [of name "[]"] by simp_all
  have "\<exists>s2. cmd_cat P D (name @ [0]) ?s1 = Some s2 \<and> con s2 = vga_write P (text @ [0x0A]) (con ?s1)"
    if "fs_map (sec d) (cwd_inode (sy_shell s), name) = Some (TETFS_TYPE_FILE, text)"
    using reliable_dev.cmd_cat_prints [OF assms(1) _ _ n(1) _ assms(8-10), of ?s1] assms(3) w(2) that n(2) by simp
  then show ?thesis using w by (auto simp: dispatch_write dispatch_cat)
qed

lemma shell_write_then_cat_witness:
  "\<exists>s1. shell_execute_command (log_ports (\<lambda>_. 0x20)) adev env_boot (ascii ''write a hello world'' @ [0]) system_boot = Some s1 \<and>
    (con s1 \<in> {vga_write (log_ports (\<lambda>_. 0x20)) (ascii_line ''Write failed.'') (con system_boot),
        vga_write (log_ports (\<lambda>_. 0x20)) (ascii_line ''Cannot create file.'') (con system_boot)} \<or>
     fs_map (sim_sec (disk (sy_fs s1))) (0, [0x61]) = Some (TETFS_TYPE_FILE, ascii ''hello world'') \<and>
     (\<exists>s2. shell_execute_command (log_ports (\<lambda>_. 0x20)) adev env_boot (ascii ''cat a'' @ [0]) s1 = Some s2 \<and>
        con s2 = vga_write (log_ports (\<lambda>_. 0x20)) (ascii_line ''hello world'') (con s1)))"
proof -
  let ?P = "log_ports (\<lambda>_. 0x20) :: (u16 \<times> u8) list ports" and ?t = "ascii ''hello world''"
  have h: "fs_inv sim_sec sim_ok (disk (sy_fs system_boot))" "tetfs_is_mounted (sy_fs system_boot)" "serial_ready ?P"
    "0 \<notin> set [0x61 :: u8]" "0x20 \<notin> set [0x61 :: u8]" "length [0x61 :: u8] \<le> 50" "0 \<notin> set ?t" "?t \<noteq> []" "length ?t \<le> 8192"
    using fs_inv_boot(1) by (simp_all add: system_boot_ok tetfs_is_mounted_def serial_ready_def ascii_def)
  have lines: "ascii ''write '' @ [0x61] @ 0x20 # ?t @ [0] = ascii ''write a hello world'' @ [0]"
    "ascii ''cat '' @ [0x61] @ [0] = ascii ''cat a'' @ [0]" "?t @ [0x0A] = ascii_line ''hello world''"
    by (simp_all add: ascii_def ascii_line_def)
  have "cwd_inode (sy_shell system_boot) = 0" by (simp add: system_boot_ok shell_boot_def)
  with shell_write_then_cat [OF reliable_adev h, of env_boot, unfolded lines] show ?thesis by fastforce
qed

end
