(* ===== verification/Desktop.thy ===== *)
theory Desktop
  imports Shell WmDraw Timer Process Ata
begin

text \<open>
  The desktop's state and its terminal and editor, \<open>kernel/desktop/desktop.c\<close>: the scroll-back of the
  terminal, its input line and its commands, and the editor's text. Drawing is in DesktopDraw; windows,
  start menu and the main turn are in DesktopApps.
\<close>

section \<open>State\<close>

abbreviation "TB_HEIGHT \<equiv> (32 :: u32)"
abbreviation "TERM_COLS \<equiv> (64 :: u32)"
abbreviation "TERM_ROWS \<equiv> (20 :: u32)"
abbreviation "TERM_HISTORY \<equiv> (128 :: u32)"
abbreviation "EDIT_COLS \<equiv> (60 :: u32)"
abbreviation "EDIT_ROWS \<equiv> (18 :: u32)"
abbreviation "EDIT_BUF \<equiv> (1080 :: u32)"

record theme =
  th_bg_top :: color
  th_bg_bottom :: color
  th_tb_bg :: color
  th_tb_top :: color
  th_tb_text :: color
  th_tb_btn :: color
  th_tb_btn_active :: color
  th_tb_btn_border :: color
  th_cursor :: color
  th_start_bg :: color
  th_start_hover :: color
  th_start_border :: color
  th_term_bg :: color
  th_term_fg :: color
  th_term_cursor :: color

record term_line =
  tl_text :: bytes
  tl_color :: color

text \<open>
  The static variables, then what the desktop reads of the other components: the ports, the tick counter,
  the frame allocator, the processes and the drive. \<open>d_interrupts\<close> is the interrupt flag.
\<close>

record 'm desk =
  th :: theme
  app_wins :: "u32 list"
  desktop_last_buttons :: u8
  start_open :: u8
  term_lines :: "term_line list"
  term_line_count :: u32
  term_input :: bytes
  term_input_len :: u32
  term_scroll :: u32
  editor_buf :: bytes
  editor_len :: u32
  editor_cursor :: u32
  d_port :: 'm
  d_interrupts :: bool
  d_ticks :: u32
  d_pmm :: pmm
  d_sched :: sched
  d_drive :: ata_drive

text \<open>The static variables as the loader leaves them.\<close>

definition desk_boot :: "'m \<Rightarrow> pmm \<Rightarrow> sched \<Rightarrow> ata_drive \<Rightarrow> 'm desk" where
  "desk_boot m p sc dr =
     \<lparr>th = \<lparr>th_bg_top = 0, th_bg_bottom = 0, th_tb_bg = 0, th_tb_top = 0, th_tb_text = 0, th_tb_btn = 0, th_tb_btn_active = 0,
        th_tb_btn_border = 0, th_cursor = 0, th_start_bg = 0, th_start_hover = 0, th_start_border = 0, th_term_bg = 0,
        th_term_fg = 0, th_term_cursor = 0\<rparr>,
      app_wins = replicate 4 0, desktop_last_buttons = 0, start_open = 0,
      term_lines = replicate 128 \<lparr>tl_text = replicate 65 0, tl_color = 0\<rparr>, term_line_count = 0,
      term_input = replicate 65 0, term_input_len = 0, term_scroll = 0,
      editor_buf = replicate 1081 0, editor_len = 0, editor_cursor = 0,
      d_port = m, d_interrupts = True, d_ticks = 0, d_pmm = p, d_sched = sc, d_drive = dr\<rparr>"

text \<open>
  How an operation ends: it returns, it leaves the processor halted with interrupts off, or it has no
  result (a loop that never ends, a string without an end).
\<close>

datatype 's outcome = Running 's | Halted 's | Stuck

definition returns :: "'s option \<Rightarrow> 's outcome" where
  "returns r = (case r of None \<Rightarrow> Stuck | Some s \<Rightarrow> Running s)"

text \<open>A literal as the pointer argument of a function.\<close>

definition lit :: "string \<Rightarrow> bytes" where
  "lit s = ascii s @ [0]"

section \<open>Power\<close>

definition power_shutdown :: "'m ports \<Rightarrow> 'm desk \<Rightarrow> 'm desk outcome" where
  "power_shutdown P d =
     (let d = d\<lparr>d_port := outw P 0x604 0x2000 (d_port d)\<rparr>;
          d = d\<lparr>d_port := outw P 0xB004 0x2000 (d_port d)\<rparr>;
          d = d\<lparr>d_port := outw P 0x4004 0x3400 (d_port d)\<rparr>
      in Halted (d\<lparr>d_interrupts := False\<rparr>))"

partial_function (option) controller_wait :: "'m ports \<Rightarrow> u8 \<Rightarrow> 'm \<Rightarrow> 'm option" where
  "controller_wait P good m =
     (if good AND 0x02 \<noteq> 0 then (case inb P 0x64 m of (good, m) \<Rightarrow> controller_wait P good m) else Some m)"

definition power_reboot :: "'m ports \<Rightarrow> 'm desk \<Rightarrow> 'm desk outcome" where
  "power_reboot P d =
     (case controller_wait P 0x02 (d_port d) of None \<Rightarrow> Stuck
      | Some m \<Rightarrow> Halted (d\<lparr>d_port := outb P 0x64 0xFE m, d_interrupts := False\<rparr>))"

definition power_sleep :: "'m desk \<Rightarrow> 'm desk" where
  "power_sleep d = d\<lparr>d_interrupts := True\<rparr>"

section \<open>Numbers\<close>

text \<open>The digits in \<open>tmp\<close>, lowest first; at most \<open>n\<close> more.\<close>

fun tmp_digits :: "nat \<Rightarrow> u32 \<Rightarrow> bytes \<Rightarrow> bytes" where
  "tmp_digits 0 v tmp = tmp"
| "tmp_digits (Suc n) v tmp = (if v \<noteq> 0 then tmp_digits n (v div 10) (tmp @ [0x30 + ucast (v mod 10)]) else tmp)"

text \<open>The characters \<open>u32_to_str\<close> leaves in \<open>out\<close> before the terminator.\<close>

definition u32_to_str :: "u32 \<Rightarrow> bytes" where
  "u32_to_str v = (if v = 0 then [0x30] else rev (tmp_digits 11 v []))"

section \<open>Terminal: output\<close>

definition term_shift :: "term_line list \<Rightarrow> term_line list" where
  "term_shift ls = fold (\<lambda>i ls. ls[i - 1 := ls ! i]) [1..<unat TERM_HISTORY] ls"

definition term_push :: "bytes \<Rightarrow> color \<Rightarrow> 'm desk \<Rightarrow> 'm desk" where
  "term_push str c d =
     (let d = (if term_line_count d = TERM_HISTORY
               then d\<lparr>term_lines := term_shift (term_lines d), term_line_count := term_line_count d - 1\<rparr> else d);
          i = unat (term_line_count d);
          line = term_lines d ! i;
          line = line\<lparr>tl_color := c\<rparr>;
          line = line\<lparr>tl_text := blit (tl_text line) 0 (copy_chars (unat TERM_COLS) str @ [0])\<rparr>
      in d\<lparr>term_lines := (term_lines d)[i := line], term_line_count := term_line_count d + 1\<rparr>)"

definition term_println :: "bytes \<Rightarrow> color \<Rightarrow> 'm desk \<Rightarrow> 'm desk" where
  "term_println str c d = term_push str c d"

text \<open>A line in the colour of the theme.\<close>

definition term_fg_line :: "bytes \<Rightarrow> 'm desk \<Rightarrow> 'm desk" where
  "term_fg_line str d = term_println str (th_term_fg (th d)) d"

section \<open>Terminal: commands\<close>

definition help_lines :: "string list" where
  "help_lines = [
     ''  help       show this message'',
     ''  about      tetOS version and credits'',
     ''  clear      clear the terminal'',
     ''  uptime     running time'',
     ''  mem        memory usage'',
     ''  disk       ATA drive info'',
     ''  ps         list processes'',
     ''  echo ...   repeat text'',
     ''  shutdown   power off'',
     ''  reboot     restart'']"

definition term_cmd_help :: "'m desk \<Rightarrow> 'm desk" where
  "term_cmd_help d =
     fold (\<lambda>l. term_fg_line (lit l)) help_lines
       (term_println (lit ''tetOS in-desktop shell'') (graphics_rgb 200 230 255) d)"

definition term_cmd_about :: "'m desk \<Rightarrow> 'm desk" where
  "term_cmd_about d =
     (let d = term_println (lit ''tetOS v0.1.0 - \"my love, can you teach me to be real?\"'') (graphics_rgb 255 180 220) d;
          d = term_fg_line (lit ''1280x720x32 VESA framebuffer desktop'') d
      in term_fg_line (lit ''Built with NASM + GCC + a lot of love.'') d)"

definition term_cmd_uptime :: "'m desk \<Rightarrow> 'm desk" where
  "term_cmd_uptime d =
     (let secs = d_ticks d div 100
      in term_fg_line (ascii ''uptime: '' @ u32_to_str (secs div 3600) @ ascii ''h '' @ u32_to_str ((secs div 60) mod 60)
           @ ascii ''m '' @ u32_to_str (secs mod 60) @ ascii ''s'' @ [0]) d)"

text \<open>A label and a number on a line.\<close>

definition term_count :: "string \<Rightarrow> u32 \<Rightarrow> 'm desk \<Rightarrow> 'm desk" where
  "term_count p v d = term_fg_line (ascii p @ u32_to_str v @ [0]) d"

definition term_cmd_mem :: "heap \<Rightarrow> 'm desk \<Rightarrow> 'm desk option" where
  "term_cmd_mem h d = do {
     let total = pmm_total_frames (d_pmm d);
     let freef = pmm_free_frames (d_pmm d);
     let used = total - freef;
     heap \<leftarrow> heap_used_bytes h;
     let d = term_count ''total frames: '' total d;
     let d = term_count ''used  frames: '' used d;
     let d = term_count ''free  frames: '' freef d;
     Some (term_count ''heap used (B): '' heap d)
   }"

definition term_cmd_disk :: "'m desk \<Rightarrow> 'm desk" where
  "term_cmd_disk d =
     (if ata_present (d_drive d) = 0 then term_fg_line (lit ''no ATA disk detected'') d
      else let d = term_fg_line (ata_model (d_drive d)) d in term_count ''sectors: '' (ata_sectors (d_drive d)) d)"

definition ps_state :: "u8 \<Rightarrow> bytes" where
  "ps_state st =
     (if st = PROC_READY then ascii ''ready  '' else if st = PROC_RUNNING then ascii ''running''
      else if st = PROC_BLOCKED then ascii ''blocked'' else if st = PROC_ZOMBIE then ascii ''zombie '' else ascii ''unknown'')"

text \<open>The name to show; the loop that copies it stops when the line holds 63 characters.\<close>

definition shown_name :: "process \<Rightarrow> bytes" where
  "shown_name p = (if p_name p ! 0 \<noteq> 0 then p_name p else lit ''?'')"

definition ps_line :: "process \<Rightarrow> bytes" where
  "ps_line p =
     (let n = u32_to_str (p_pid p);
          n = n @ replicate (5 - length n) 0x20;
          buf = n @ ps_state (p_state p) @ [0x20, 0x20]
      in buf @ copy_chars (63 - length buf) (shown_name p) @ [0])"

definition term_cmd_ps :: "'m desk \<Rightarrow> 'm desk option" where
  "term_cmd_ps d = do {
     (count, list) \<leftarrow> process_list (d_sched d) (int MAX_PROCS);
     let d = term_println (lit ''PID  STATE     NAME'') (graphics_rgb 200 230 255) d;
     let d = fold (\<lambda>i. term_fg_line (ps_line (process_table (d_sched d) ! i))) list d;
     Some (if count = 0 then term_fg_line (lit ''(no processes)'') d else d)
   }"

definition unknown_line :: "bytes \<Rightarrow> bytes" where
  "unknown_line cmd = (let p = ascii ''unknown command: '' in p @ copy_chars (unat TERM_COLS - length p) cmd @ [0])"

definition term_execute :: "'m ports \<Rightarrow> heap \<Rightarrow> bytes \<Rightarrow> 'm desk \<Rightarrow> 'm desk outcome" where
  "term_execute P h cmd d =
     (let d = term_println (ascii ''$ '' @ copy_chars (unat TERM_COLS) cmd @ [0]) (graphics_rgb 140 255 180) d in
      if cmd ! 0 = 0 then Running d
      else if streq cmd ''help'' then Running (term_cmd_help d)
      else if streq cmd ''about'' then Running (term_cmd_about d)
      else if streq cmd ''clear'' then Running (d\<lparr>term_line_count := 0, term_scroll := 0\<rparr>)
      else if streq cmd ''uptime'' then Running (term_cmd_uptime d)
      else if streq cmd ''mem'' then returns (term_cmd_mem h d)
      else if streq cmd ''disk'' then Running (term_cmd_disk d)
      else if streq cmd ''ps'' then returns (term_cmd_ps d)
      else if streq cmd ''shutdown'' then power_shutdown P d
      else if streq cmd ''reboot'' then power_reboot P d
      else if streq cmd ''sleep'' then Running (power_sleep d)
      else if strncmp cmd (lit ''echo '') 5 = Some 0 then Running (term_fg_line (drop 5 cmd) d)
      else if streq cmd ''echo'' then Running (term_fg_line (lit '''') d)
      else Running (term_println (unknown_line cmd) (graphics_rgb 255 140 140) d))"

section \<open>Keys\<close>

definition term_on_key :: "'m ports \<Rightarrow> heap \<Rightarrow> u16 \<Rightarrow> 'm desk \<Rightarrow> 'm desk outcome" where
  "term_on_key P h key d =
     (let n = unat (term_input_len d) in
      if key = KEY_ENTER then
        let d = d\<lparr>term_input := (term_input d)[n := 0]\<rparr>;
            cmd = take (n + 1) (term_input d);
            d = d\<lparr>term_input_len := 0, term_input := (term_input d)[0 := 0]\<rparr>
        in term_execute P h cmd d
      else if key = KEY_BACKSPACE then
        if term_input_len d \<noteq> 0
        then Running (d\<lparr>term_input_len := term_input_len d - 1, term_input := (term_input d)[n - 1 := 0]\<rparr>)
        else Running d
      else if key < 0x80 \<and> 32 \<le> key then
        if term_input_len d < TERM_COLS - 1
        then Running (d\<lparr>term_input := (term_input d)[n := ucast key, n + 1 := 0], term_input_len := term_input_len d + 1\<rparr>)
        else Running d
      else Running d)"

text \<open>One more character of the editor's text.\<close>

definition editor_put :: "u8 \<Rightarrow> 'm desk \<Rightarrow> 'm desk" where
  "editor_put c d =
     (let n = unat (editor_len d) in
      if editor_len d < EDIT_BUF
      then d\<lparr>editor_buf := (editor_buf d)[n := c, n + 1 := 0], editor_len := editor_len d + 1, editor_cursor := editor_len d + 1\<rparr>
      else d)"

definition editor_on_key :: "u16 \<Rightarrow> 'm desk \<Rightarrow> 'm desk" where
  "editor_on_key key d =
     (if key = KEY_BACKSPACE then
        if editor_len d \<noteq> 0
        then let n = editor_len d - 1 in d\<lparr>editor_len := n, editor_buf := (editor_buf d)[unat n := 0], editor_cursor := n\<rparr>
        else d
      else if key = KEY_ENTER then editor_put 0x0A d
      else if key < 0x80 \<and> 32 \<le> key then editor_put (ucast key) d
      else d)"

end
