(* ===== verification/DesktopProps.thy ===== *)
theory DesktopProps
  imports Desktop ProcessProps
begin

text \<open>
  The terminal and the editor of the desktop: the numbers they print, the scroll-back as a bounded list,
  the input line, and the invariant every key keeps.
\<close>

section \<open>Numbers\<close>

lemma digit_char_decimal: "digit_char (v mod 10) = 0x30 + ucast (v mod 10)"
proof -
  have "v mod 10 < (10 :: u32)" by (simp add: word_less_nat_alt unat_mod)
  then show ?thesis by (simp add: digit_char_def)
qed

lemma tmp_digits_loop: "unat v < 10 ^ n \<Longrightarrow> tmp_digits n v tmp = uint_loop 10 v tmp"
proof (induction n arbitrary: v tmp)
  case 0
  then have "v = 0" by (simp add: unat_eq_zero)
  then show ?case by (subst uint_loop.simps) simp
next
  case (Suc n)
  show ?case
  proof (cases "v = 0")
    case True
    then show ?thesis by (subst uint_loop.simps) simp
  next
    case False
    from Suc.prems have "unat (v div 10) < 10 ^ n"
      by (simp add: unat_div less_mult_imp_div_less mult.commute)
    then have "tmp_digits n (v div 10) (tmp @ [0x30 + ucast (v mod 10)]) = uint_loop 10 (v div 10) (tmp @ [digit_char (v mod 10)])"
      unfolding digit_char_decimal by (rule Suc.IH)
    moreover have "0 < v" using False by (simp add: word_neq_0_conv)
    ultimately show ?thesis using False by (subst uint_loop.simps) simp
  qed
qed

text \<open>
  C27. The desktop's own number formatter produces, for every 32-bit value, the same characters as the
  converter behind \<open>%u\<close>.
\<close>

theorem u32_to_str_correct: "u32_to_str v = uint_text 10 v"
proof -
  have "unat v < 10 ^ 11" using u32_lt [of v] by simp
  then show ?thesis by (simp add: u32_to_str_def uint_text_def tmp_digits_loop)
qed

section \<open>The scroll-back\<close>

lemma term_shift_eq:
  assumes "length ls = 128"
  shows "term_shift ls = tl ls @ [last ls]"
proof -
  have "fold (\<lambda>i ls. ls[i - 1 := ls ! i]) [1..<Suc n] ls = take n (tl ls) @ drop n ls" if "n < length ls" for n
    using that
  proof (induction n)
    case (Suc n)
    have "tl ls ! n = ls ! Suc n" using Suc.prems by (simp add: nth_tl)
    then have "take (Suc n) (tl ls) = take n (tl ls) @ [ls ! Suc n]"
      using Suc.prems by (simp add: take_Suc_conv_app_nth)
    moreover have "drop n ls = ls ! n # drop (Suc n) ls" using Suc.prems by (simp add: Cons_nth_drop_Suc)
    moreover have "(take n (tl ls) @ drop n ls) ! Suc n = ls ! Suc n"
      using Suc.prems by (simp add: nth_append)
    ultimately show ?case using Suc by (simp add: list_update_append)
  qed simp
  from this [of 127] assms have "term_shift ls = take 127 (tl ls) @ drop 127 ls"
    by (simp add: term_shift_def del: upt_Suc)
  moreover have "drop 127 ls = ls ! 127 # drop 128 ls" using Cons_nth_drop_Suc [of 127 ls] assms by simp
  moreover have "last ls = ls ! 127" using assms by (subst last_conv_nth) auto
  ultimately show ?thesis using assms by simp
qed

text \<open>Every line has the room of 64 characters, and the lines in use end.\<close>

definition term_ok :: "'m desk \<Rightarrow> bool" where
  "term_ok d \<longleftrightarrow> length (term_lines d) = 128 \<and> (\<forall>l \<in> set (term_lines d). length (tl_text l) = 65) \<and>
     term_line_count d \<le> TERM_HISTORY \<and> (\<forall>l \<in> set (take (unat (term_line_count d)) (term_lines d)). terminated (tl_text l))"

text \<open>What the terminal remembers: the lines with their colours, oldest first.\<close>

definition term_view :: "'m desk \<Rightarrow> (bytes \<times> color) list" where
  "term_view d = map (\<lambda>l. (cstr (tl_text l), tl_color l)) (take (unat (term_line_count d)) (term_lines d))"

text \<open>The last \<open>n\<close> elements.\<close>

definition recent :: "nat \<Rightarrow> 'a list \<Rightarrow> 'a list" where
  "recent n xs = drop (length xs - n) xs"

lemma recent_append: "recent n (recent n xs @ ys) = recent n (xs @ ys)"
proof -
  have "length (recent n xs @ ys) - n = length xs + length ys - n - (length xs - n)" if "n < length xs"
    using that by (simp add: recent_def)
  then show ?thesis by (cases "n < length xs") (auto simp: recent_def drop_append add.commute)
qed

text \<open>A line of the buffer after a text has been copied into it.\<close>

lemma filled_line:
  assumes "length b = 65"
  shows "length (blit b 0 (copy_chars 64 s @ [0])) = 65" "cstr (blit b 0 (copy_chars 64 s @ [0])) = take 64 (cstr s)"
    "terminated (blit b 0 (copy_chars 64 s @ [0]))"
proof -
  have len: "length (copy_chars 64 s) \<le> 64" by (simp add: copy_chars_eq)
  show "length (blit b 0 (copy_chars 64 s @ [0])) = 65" using len assms by simp
  have nul: "0 \<notin> set (copy_chars 64 s)" by (auto simp: copy_chars_eq dest: in_set_takeD)
  show "cstr (blit b 0 (copy_chars 64 s @ [0])) = take 64 (cstr s)"
    using nul by (simp add: blit_def copy_chars_eq)
  show "terminated (blit b 0 (copy_chars 64 s @ [0]))" by (simp add: blit_def)
qed

lemma term_push_eq:
  assumes "term_ok d"
  shows "\<exists>ls n. term_push s c d = d\<lparr>term_lines := ls, term_line_count := n\<rparr>"
    "term_ok (term_push s c d)" "term_view (term_push s c d) = recent 128 (term_view d @ [(take 64 (cstr s), c)])"
proof -
  define ls where "ls = term_lines d"
  define n where "n = unat (term_line_count d)"
  have ok: "length ls = 128" "\<And>l. l \<in> set ls \<Longrightarrow> length (tl_text l) = 65" "n \<le> 128"
      "\<And>l. l \<in> set (take n ls) \<Longrightarrow> terminated (tl_text l)"
    using assms by (auto simp: term_ok_def ls_def n_def word_le_nat_alt)
  have full: "term_line_count d = 128 \<longleftrightarrow> n = 128" by (simp add: n_def word_unat_eq_iff)
  define L :: "term_line \<Rightarrow> term_line" where "L l = l\<lparr>tl_color := c, tl_text := blit (tl_text l) 0 (copy_chars 64 s @ [0])\<rparr>" for l
  have L: "length (tl_text (L l)) = 65" "cstr (tl_text (L l)) = take 64 (cstr s)" "tl_color (L l) = c" "terminated (tl_text (L l))"
    if "l \<in> set ls" for l
    using filled_line [OF ok(2) [OF that], of s] by (simp_all add: L_def)
  have "(\<exists>ls n. term_push s c d = d\<lparr>term_lines := ls, term_line_count := n\<rparr>) \<and> term_ok (term_push s c d) \<and>
      term_view (term_push s c d) = recent 128 (term_view d @ [(take 64 (cstr s), c)])"
  proof (cases "n = 128")
    case True
    have ne: "ls \<noteq> []" using ok(1) by auto
    have i: "length (tl ls) = 127" using ok(1) by simp
    have "term_push s c d = d\<lparr>term_lines := tl ls @ [L (last ls)], term_line_count := 128\<rparr>"
      using True full i by (simp add: term_push_def Let_def term_shift_eq [OF ok(1), unfolded ls_def] L_def ls_def nth_append list_update_append)
    moreover have "set (tl ls) \<subseteq> set ls" using ne by (cases ls) auto
    moreover have "take n ls = ls" using True ok(1) by simp
    ultimately show ?thesis using L [OF last_in_set [OF ne]] ok i ne True
      by (auto simp: term_ok_def term_view_def recent_def ls_def [symmetric] n_def [symmetric] map_tl drop_Suc)
  next
    case False
    then have n: "n < 128" using ok(3) by simp
    then have count: "unat (term_line_count d + 1) = n + 1" "term_line_count d + 1 \<le> 128"
      by (simp_all add: n_def unat_plus_small word_le_nat_alt)
    have "term_push s c d = d\<lparr>term_lines := ls[n := L (ls ! n)], term_line_count := term_line_count d + 1\<rparr>"
      using False full by (simp add: term_push_def Let_def L_def ls_def n_def)
    moreover have "take (n + 1) (ls[n := L (ls ! n)]) = take n ls @ [L (ls ! n)]"
      using n ok(1) by (simp add: take_Suc_conv_app_nth)
    moreover have "ls ! n \<in> set ls" using n ok(1) by simp
    moreover have "set (ls[n := L (ls ! n)]) \<subseteq> insert (L (ls ! n)) (set ls)" by (rule set_update_subset_insert)
    ultimately show ?thesis using L [of "ls ! n"] ok n count
      by (auto simp: term_ok_def term_view_def recent_def ls_def [symmetric] n_def [symmetric])
  qed
  then show "\<exists>ls n. term_push s c d = d\<lparr>term_lines := ls, term_line_count := n\<rparr>"
    "term_ok (term_push s c d)" "term_view (term_push s c d) = recent 128 (term_view d @ [(take 64 (cstr s), c)])" by blast+
qed

lemma term_boot_ok: "term_ok (desk_boot m p sc dr)" "term_view (desk_boot m p sc dr) = []"
  by (simp_all add: term_ok_def term_view_def desk_boot_def)

text \<open>
  C26. The terminal's scroll-back refines a bounded list: whatever lines are printed in whatever order, it
  holds exactly the most recent 128 of them with their colours, oldest first, each cut to 64 characters.
\<close>

theorem terminal_keeps_recent:
  assumes "term_ok d"
  shows "term_view (fold (\<lambda>(s, c). term_push s c) ls d) = recent 128 (term_view d @ map (\<lambda>(s, c). (take 64 (cstr s), c)) ls)"
  using assms
proof (induction ls arbitrary: d)
  case Nil
  have "length (term_view d) \<le> 128" using Nil by (simp add: term_view_def term_ok_def)
  then show ?case by (simp add: recent_def)
next
  case (Cons l ls)
  obtain s c where l: "l = (s, c)" by fastforce
  show ?case
    using Cons.IH [OF term_push_eq(2) [OF Cons.prems, of s c]] term_push_eq(3) [OF Cons.prems, of s c]
    by (simp add: l recent_append)
qed

theorem terminal_keeps_recent_witness:
  "term_view (fold (\<lambda>(s, c). term_push s c) (replicate 200 (lit ''a'', 1) @ [(lit ''b'', 2)])
     (desk_boot ([] :: (u16 \<times> u8) list) pmm_boot sched_boot \<lparr>ata_model = [], ata_sectors = 0, ata_present = 0\<rparr>)) =
     replicate 127 (ascii ''a'', 1) @ [(ascii ''b'', 2)]"
  using terminal_keeps_recent [OF term_boot_ok(1), of "replicate 200 (lit ''a'', 1) @ [(lit ''b'', 2)]"
      "[] :: (u16 \<times> u8) list" pmm_boot sched_boot "\<lparr>ata_model = [], ata_sectors = 0, ata_present = 0\<rparr>"]
  by (simp add: term_boot_ok(2) recent_def lit_def ascii_def)

section \<open>Text buffers\<close>

text \<open>The first \<open>n\<close> bytes of the buffer are a text that ends there.\<close>

definition holds :: "bytes \<Rightarrow> nat \<Rightarrow> bool" where
  "holds b n \<longleftrightarrow> n < length b \<and> b ! n = 0 \<and> 0 \<notin> set (take n b)"

lemma holds_cstr: "holds b n \<Longrightarrow> cstr b = take n b"
  by (metis holds_def id_take_nth_drop cstr_append_nul)

lemma holds_start: "b \<noteq> [] \<Longrightarrow> holds (b[0 := 0]) 0"
  by (simp add: holds_def)

lemma holds_put:
  assumes "holds b n" "n + 1 < length b" "c \<noteq> 0"
  shows "holds (b[n := c, n + 1 := 0]) (n + 1)" "take (n + 1) (b[n := c, n + 1 := 0]) = take n b @ [c]"
proof -
  show t: "take (n + 1) (b[n := c, n + 1 := 0]) = take n b @ [c]" using assms(2) by (simp add: take_Suc_conv_app_nth)
  show "holds (b[n := c, n + 1 := 0]) (n + 1)" using assms unfolding holds_def t by (simp add: holds_def)
qed

lemma holds_rub:
  assumes "holds b n" "0 < n"
  shows "holds (b[n - 1 := 0]) (n - 1)" "take (n - 1) (b[n - 1 := 0]) = butlast (take n b)"
proof -
  show t: "take (n - 1) (b[n - 1 := 0]) = butlast (take n b)" using assms by (simp add: holds_def butlast_take)
  show "holds (b[n - 1 := 0]) (n - 1)"
    using assms unfolding holds_def t by (auto simp: holds_def dest: in_set_butlastD)
qed

definition desk_ok :: "'m desk \<Rightarrow> bool" where
  "desk_ok d \<longleftrightarrow> term_ok d \<and> length (term_input d) = 65 \<and> term_input_len d < TERM_COLS \<and> holds (term_input d) (unat (term_input_len d)) \<and>
     length (editor_buf d) = 1081 \<and> holds (editor_buf d) (unat (editor_len d)) \<and> editor_cursor d = editor_len d \<and> length (app_wins d) = 4"

definition term_text :: "'m desk \<Rightarrow> bytes" where
  "term_text d = take (unat (term_input_len d)) (term_input d)"

definition editor_text :: "'m desk \<Rightarrow> bytes" where
  "editor_text d = take (unat (editor_len d)) (editor_buf d)"

text \<open>What a key other than Enter does to a line of at most \<open>m\<close> characters.\<close>

definition type_key :: "nat \<Rightarrow> u16 \<Rightarrow> bytes \<Rightarrow> bytes" where
  "type_key m k t =
     (if k = KEY_BACKSPACE then butlast t
      else if 32 \<le> k \<and> k < 0x80 \<and> length t < m then t @ [ucast k] else t)"

lemma term_ok_cong: "term_lines d' = term_lines d \<Longrightarrow> term_line_count d' = term_line_count d \<Longrightarrow> term_ok d' = term_ok d"
  by (simp add: term_ok_def)

lemma small_key: "32 \<le> k \<Longrightarrow> k < 0x80 \<Longrightarrow> (ucast (k :: u16) :: u8) \<noteq> 0"
  by (simp add: word_unat_eq_iff word_le_nat_alt word_less_nat_alt unsigned_ucast_eq take_bit_nat_eq_self)

lemma term_key_typed:
  assumes "desk_ok d" "k \<noteq> KEY_ENTER"
  shows "\<exists>b n. term_on_key P h k d = Running (d\<lparr>term_input := b, term_input_len := n\<rparr>) \<and>
    desk_ok (d\<lparr>term_input := b, term_input_len := n\<rparr>) \<and>
    take (unat n) b = type_key 63 k (term_text d)"
proof -
  define n where "n = unat (term_input_len d)"
  have ok: "term_ok d" "length (term_input d) = 65" "n < 64" "holds (term_input d) n" "length (editor_buf d) = 1081"
      "holds (editor_buf d) (unat (editor_len d))" "editor_cursor d = editor_len d" "length (app_wins d) = 4"
    using assms(1) by (auto simp: desk_ok_def n_def word_less_nat_alt)
  have dok: "desk_ok (d\<lparr>term_input := b, term_input_len := m\<rparr>)" if "length b = 65" "unat m < 64" "holds b (unat m)" for b m
    using that ok term_ok_cong [of "d\<lparr>term_input := b, term_input_len := m\<rparr>" d]
    by (simp add: desk_ok_def word_less_nat_alt)
  have len: "length (term_text d) = n" using ok(2,3) by (simp add: term_text_def n_def)
  consider (rub) "k = KEY_BACKSPACE" "0 < n" | (put) "k \<noteq> KEY_BACKSPACE" "32 \<le> k" "k < 0x80" "n < 63"
    | (same) "k = KEY_BACKSPACE" "n = 0" | (other) "k \<noteq> KEY_BACKSPACE" "\<not> (32 \<le> k \<and> k < 0x80 \<and> n < 63)"
    by (cases "n = 0"; cases "k = KEY_BACKSPACE"; simp; blast)
  then show ?thesis
  proof cases
    case rub
    have m: "unat (term_input_len d - 1) = n - 1" using rub(2) by (simp add: n_def unat_minus_one word_unat_eq_iff)
    have "term_input_len d \<noteq> 0" using rub(2) by (auto simp: n_def)
    then have "term_on_key P h k d = Running (d\<lparr>term_input := (term_input d)[n - 1 := 0], term_input_len := term_input_len d - 1\<rparr>)"
      using rub(1) by (simp add: term_on_key_def Let_def n_def)
    then show ?thesis
      using holds_rub [OF ok(4) rub(2)] dok [of "(term_input d)[n - 1 := 0]" "term_input_len d - 1"] m ok(2,3) rub(1)
      by (intro exI [of _ "(term_input d)[n - 1 := 0]"] exI [of _ "term_input_len d - 1"]) (simp add: type_key_def term_text_def n_def)
  next
    case put
    have m: "unat (term_input_len d + 1) = n + 1" using put(4) by (simp add: n_def unat_plus_small)
    have "term_input_len d < 63" using put(4) by (simp add: n_def word_less_nat_alt)
    then have "term_on_key P h k d =
        Running (d\<lparr>term_input := (term_input d)[n := ucast k, n + 1 := 0], term_input_len := term_input_len d + 1\<rparr>)"
      using put assms(2) by (simp add: term_on_key_def Let_def n_def)
    then show ?thesis
      using holds_put [OF ok(4) _ small_key [OF put(2,3)]] dok [of "(term_input d)[n := ucast k, n + 1 := 0]" "term_input_len d + 1"]
        m ok(2) put len
      by (intro exI [of _ "(term_input d)[n := ucast k, n + 1 := 0]"] exI [of _ "term_input_len d + 1"])
        (simp add: type_key_def term_text_def n_def)
  next
    case same
    then have "term_input_len d = 0" by (simp add: n_def unat_eq_zero)
    then have "term_on_key P h k d = Running (d\<lparr>term_input := term_input d, term_input_len := term_input_len d\<rparr>)"
      using same by (simp add: term_on_key_def)
    then show ?thesis using assms(1) same
      by (intro exI [of _ "term_input d"] exI [of _ "term_input_len d"]) (simp add: type_key_def term_text_def n_def)
  next
    case other
    have "n < 63 \<longleftrightarrow> term_input_len d < 63" by (simp add: n_def word_less_nat_alt)
    then have "term_on_key P h k d = Running (d\<lparr>term_input := term_input d, term_input_len := term_input_len d\<rparr>)"
      using other assms(2) by (auto simp: term_on_key_def Let_def)
    then show ?thesis using assms(1) other len
      by (intro exI [of _ "term_input d"] exI [of _ "term_input_len d"]) (auto simp: type_key_def term_text_def)
  qed
qed

text \<open>Several keys; the desktop stops at the first one that does not return.\<close>

fun term_keys :: "'m ports \<Rightarrow> heap \<Rightarrow> u16 list \<Rightarrow> 'm desk \<Rightarrow> 'm desk outcome" where
  "term_keys P h [] d = Running d"
| "term_keys P h (k # ks) d = (case term_on_key P h k d of Running d \<Rightarrow> term_keys P h ks d | r \<Rightarrow> r)"

lemma term_keys_typed:
  "desk_ok d \<Longrightarrow> KEY_ENTER \<notin> set ks \<Longrightarrow>
   \<exists>b n. term_keys P h (ks @ js) d = term_keys P h js (d\<lparr>term_input := b, term_input_len := n\<rparr>) \<and>
     desk_ok (d\<lparr>term_input := b, term_input_len := n\<rparr>) \<and> take (unat n) b = fold (type_key 63) ks (term_text d)"
proof (induction ks arbitrary: d)
  case Nil
  then show ?case by (intro exI [of _ "term_input d"] exI [of _ "term_input_len d"]) (simp add: term_text_def)
next
  case (Cons k ks)
  have "k \<noteq> KEY_ENTER" using Cons.prems(2) by auto
  from term_key_typed [OF Cons.prems(1) this, of P h] obtain b n where
    1: "term_on_key P h k d = Running (d\<lparr>term_input := b, term_input_len := n\<rparr>)" "desk_ok (d\<lparr>term_input := b, term_input_len := n\<rparr>)"
      "take (unat n) b = type_key 63 k (term_text d)" by blast
  from Cons.IH [OF 1(2)] Cons.prems(2) show ?case by (auto simp: 1(1) 1(3) term_text_def)
qed

section \<open>Commands\<close>

lemma term_enter:
  assumes "desk_ok d"
  shows "term_on_key P h KEY_ENTER d =
    term_execute P h (term_text d @ [0]) (d\<lparr>term_input_len := 0, term_input := (term_input d)[0 := 0]\<rparr>)"
    "desk_ok (d\<lparr>term_input_len := 0, term_input := (term_input d)[0 := 0]\<rparr>)"
proof -
  define n where "n = unat (term_input_len d)"
  have b: "holds (term_input d) n" "length (term_input d) = 65" using assms by (simp_all add: desk_ok_def n_def)
  then have "(term_input d)[n := 0] = term_input d" "take (n + 1) (term_input d) = take n (term_input d) @ [0]"
    by (auto simp: holds_def take_Suc_conv_app_nth list_update_same_conv)
  then show "term_on_key P h KEY_ENTER d =
    term_execute P h (term_text d @ [0]) (d\<lparr>term_input_len := 0, term_input := (term_input d)[0 := 0]\<rparr>)"
    by (simp add: term_on_key_def Let_def n_def [symmetric] term_text_def)
  have "term_input d \<noteq> []" using b(2) by auto
  with holds_start [OF this] assms show "desk_ok (d\<lparr>term_input_len := 0, term_input := (term_input d)[0 := 0]\<rparr>)"
    using term_ok_cong [of "d\<lparr>term_input_len := 0, term_input := (term_input d)[0 := 0]\<rparr>" d]
    by (simp add: desk_ok_def)
qed

text \<open>
  C25. Typing into the terminal: any sequence of keys without Enter edits a line of at most 63 characters
  (printable characters append, Backspace removes the last, everything else is ignored), and the Enter
  that follows executes exactly that line as a command, with the input line empty again.
\<close>

theorem terminal_runs_line:
  assumes "desk_ok d" "KEY_ENTER \<notin> set ks"
  shows "\<exists>b. term_keys P h (ks @ [KEY_ENTER]) d =
      term_execute P h (fold (type_key 63) ks (term_text d) @ [0]) (d\<lparr>term_input_len := 0, term_input := b\<rparr>) \<and>
    desk_ok (d\<lparr>term_input_len := 0, term_input := b\<rparr>)"
proof -
  from term_keys_typed [OF assms, of P h "[KEY_ENTER]"] obtain b n where
    k: "term_keys P h (ks @ [KEY_ENTER]) d = term_keys P h [KEY_ENTER] (d\<lparr>term_input := b, term_input_len := n\<rparr>)"
      "desk_ok (d\<lparr>term_input := b, term_input_len := n\<rparr>)" "take (unat n) b = fold (type_key 63) ks (term_text d)" by blast
  have one: "term_keys P h [KEY_ENTER] e = term_on_key P h KEY_ENTER e" for e
    by (cases "term_on_key P h KEY_ENTER e") simp_all
  let ?e = "d\<lparr>term_input_len := 0, term_input := b[0 := 0]\<rparr>"
  have "term_keys P h (ks @ [KEY_ENTER]) d = term_execute P h (fold (type_key 63) ks (term_text d) @ [0]) ?e"
    unfolding k(1) one term_enter(1) [OF k(2)] using k(3) by (simp add: term_text_def)
  moreover have "desk_ok ?e" using term_enter(2) [OF k(2)] by simp
  ultimately show ?thesis by blast
qed

lemma desk_boot_ok: "desk_ok (desk_boot m p sc dr)" "term_text (desk_boot m p sc dr) = []"
  using term_boot_ok(1) [of m p sc dr] by (simp_all add: desk_ok_def desk_boot_def holds_def term_text_def)

lemma th_push [simp]: "th (term_push s c d) = th d"
  by (simp add: term_push_def Let_def)

lemma echo_command: "term_execute P h (ascii ''echo '' @ t @ [0]) d =
    Running (term_fg_line (t @ [0]) (term_println (ascii ''$ '' @ copy_chars 64 (ascii ''echo '' @ t @ [0]) @ [0]) (graphics_rgb 140 255 180) d))"
proof -
  have "strncmp (ascii ''echo '' @ t @ [0]) (lit ''echo '') 5 = Some 0" by (simp add: lit_def ascii_def eval_nat_numeral)
  moreover have "\<not> streq (ascii ''echo '' @ t @ [0]) w" if "w \<in> set [''help'', ''about'', ''clear'', ''uptime'', ''mem'', ''disk'', ''ps'', ''shutdown'',
      ''reboot'', ''sleep'']" for w using that by (auto simp: streq_def ascii_def)
  moreover have "(ascii ''echo '' @ t @ [0]) ! 0 \<noteq> 0" "drop 5 (ascii ''echo '' @ t @ [0]) = t @ [0]" by (simp_all add: ascii_def)
  ultimately show ?thesis by (simp add: term_execute_def)
qed

theorem terminal_runs_line_witness:
  "\<exists>d. term_keys (log_ports (\<lambda>_. 0)) heap_boot (map of_char ''ecx'' @ [KEY_BACKSPACE] @ map of_char ''ho hi'' @ [KEY_ENTER])
      (desk_boot [] pmm_boot sched_boot \<lparr>ata_model = [], ata_sectors = 0, ata_present = 0\<rparr>) = Running d \<and>
    term_view d = [(ascii ''$ echo hi'', graphics_rgb 140 255 180), (ascii ''hi'', 0)]"
proof -
  let ?d = "desk_boot ([] :: (u16 \<times> u8) list) pmm_boot sched_boot \<lparr>ata_model = [], ata_sectors = 0, ata_present = 0\<rparr>"
  have l: "fold (type_key 63) (map of_char ''ecx'' @ [KEY_BACKSPACE] @ map of_char ''ho hi'') [] = ascii ''echo hi''"
    by (simp add: type_key_def ascii_def)
  from terminal_runs_line [OF desk_boot_ok(1), of "map of_char ''ecx'' @ [KEY_BACKSPACE] @ map of_char ''ho hi''"
      "log_ports (\<lambda>_. 0)" heap_boot "[]" pmm_boot sched_boot "\<lparr>ata_model = [], ata_sectors = 0, ata_present = 0\<rparr>"]
  obtain b where k: "term_keys (log_ports (\<lambda>_. 0)) heap_boot (map of_char ''ecx'' @ [KEY_BACKSPACE] @ map of_char ''ho hi'' @ [KEY_ENTER]) ?d =
      term_execute (log_ports (\<lambda>_. 0)) heap_boot (ascii ''echo hi'' @ [0]) (?d\<lparr>term_input_len := 0, term_input := b\<rparr>)"
      "desk_ok (?d\<lparr>term_input_len := 0, term_input := b\<rparr>)"
    unfolding desk_boot_ok(2) l by auto
  let ?e = "?d\<lparr>term_input_len := 0, term_input := b\<rparr>"
  have x: "term_execute (log_ports (\<lambda>_. 0)) heap_boot (ascii ''echo hi'' @ [0]) ?e =
      Running (fold (\<lambda>(s, c). term_push s c) [(ascii ''$ echo hi'' @ [0], graphics_rgb 140 255 180), (ascii ''hi'' @ [0], 0)] ?e)"
  proof -
    have e: "ascii ''echo hi'' @ [0] = ascii ''echo '' @ ascii ''hi'' @ [0]" by (simp add: ascii_def)
    have f: "th_term_fg (th (desk_boot m p sc dr)) = 0" for m :: "(u16 \<times> u8) list" and p sc dr by (simp add: desk_boot_def)
    have g: "copy_chars 64 (ascii ''echo '' @ ascii ''hi'' @ [0]) = ascii ''echo hi''" by (simp add: copy_chars_eq ascii_def)
    show ?thesis unfolding e echo_command g by (simp add: term_fg_line_def term_println_def f) (simp add: ascii_def)
  qed
  have t: "term_ok ?e" "term_view ?e = []" using k(2) by (simp_all add: desk_ok_def term_view_def desk_boot_def)
  show ?thesis
    unfolding k(1) x using term_push_eq [OF t(1), of "ascii ''$ echo hi'' @ [0]" "graphics_rgb 140 255 180"] t(2)
      term_push_eq(3) [OF term_push_eq(2) [OF t(1), of "ascii ''$ echo hi'' @ [0]" "graphics_rgb 140 255 180"], of "ascii ''hi'' @ [0]" 0]
    by (simp add: recent_def ascii_def)
qed

text \<open>Printing changes the scroll-back only.\<close>

definition printed :: "'m desk \<Rightarrow> 'm desk \<Rightarrow> bool" where
  "printed d d' \<longleftrightarrow> (term_ok d \<longrightarrow> term_ok d' \<and> (\<exists>ls n. d' = d\<lparr>term_lines := ls, term_line_count := n\<rparr>))"

lemma printed_refl [simp, intro]: "printed d d"
  by (auto simp: printed_def intro!: exI [of _ "term_lines d"] exI [of _ "term_line_count d"])

lemma printed_trans [trans]: "printed d e \<Longrightarrow> printed e f \<Longrightarrow> printed d f"
  by (fastforce simp: printed_def)

lemma printed_push [intro]: "printed d e \<Longrightarrow> printed d (term_push s c e)"
  by (rule printed_trans) (use term_push_eq(1,2) [of e s c] in \<open>auto simp: printed_def\<close>)

lemma printed_line [intro]: "printed d e \<Longrightarrow> printed d (term_println s c e)" "printed d e \<Longrightarrow> printed d (term_fg_line s e)"
    "printed d e \<Longrightarrow> printed d (term_count p v e)"
  by (simp_all add: term_println_def term_fg_line_def term_count_def printed_push)

lemma printed_fold: "(\<And>x e. printed d e \<Longrightarrow> printed d (f x e)) \<Longrightarrow> printed d e \<Longrightarrow> printed d (fold f xs e)"
  by (induction xs arbitrary: e) auto

lemma printed_ok:
  assumes "printed d d'" "desk_ok d"
  shows "desk_ok d'" "d_interrupts d' = d_interrupts d" "d_sched d' = d_sched d" "d_port d' = d_port d" "app_wins d' = app_wins d"
    "term_text d' = term_text d" "editor_text d' = editor_text d" "start_open d' = start_open d"
    "desktop_last_buttons d' = desktop_last_buttons d" "th d' = th d"
proof -
  have "term_ok d" using assms(2) by (simp add: desk_ok_def)
  with assms(1) obtain ls n where "term_ok d'" "d' = d\<lparr>term_lines := ls, term_line_count := n\<rparr>" by (auto simp: printed_def)
  then show "desk_ok d'" "d_interrupts d' = d_interrupts d" "d_sched d' = d_sched d" "d_port d' = d_port d" "app_wins d' = app_wins d"
    "term_text d' = term_text d" "editor_text d' = editor_text d" "start_open d' = start_open d"
    "desktop_last_buttons d' = desktop_last_buttons d" "th d' = th d"
    using assms(2) by (auto simp: desk_ok_def term_text_def editor_text_def)
qed

text \<open>The commands that only print.\<close>

lemma commands_print:
  "printed d (term_cmd_help d)" "printed d (term_cmd_about d)" "printed d (term_cmd_uptime d)" "printed d (term_cmd_disk d)"
  "term_cmd_mem h d = Some d1 \<Longrightarrow> printed d d1" "term_cmd_ps d = Some d1 \<Longrightarrow> printed d d1"
proof -
  show "printed d (term_cmd_help d)" unfolding term_cmd_help_def by (intro printed_fold printed_line printed_refl)
  show "printed d (term_cmd_about d)" unfolding term_cmd_about_def Let_def by (intro printed_line printed_refl)
  show "printed d (term_cmd_uptime d)" unfolding term_cmd_uptime_def Let_def by (intro printed_line printed_refl)
  show "printed d (term_cmd_disk d)" unfolding term_cmd_disk_def Let_def by (auto intro!: printed_line)
  show "term_cmd_mem h d = Some d1 \<Longrightarrow> printed d d1"
    unfolding term_cmd_mem_def Let_def by (auto split: Option.bind_split_asm intro!: printed_line)
  show "term_cmd_ps d = Some d1 \<Longrightarrow> printed d d1"
    unfolding term_cmd_ps_def Let_def
    by (auto split: Option.bind_split_asm prod.split_asm if_splits intro!: printed_line printed_fold)
qed

lemma commands_return:
  "heap_inv h \<Longrightarrow> term_cmd_mem h d \<noteq> None" "sched_wf (d_sched d) \<Longrightarrow> term_cmd_ps d \<noteq> None"
proof -
  show "term_cmd_mem h d \<noteq> None" if "heap_inv h"
    using used_bytes_correct [OF that] by (auto simp: term_cmd_mem_def Let_def)
  show "term_cmd_ps d \<noteq> None" if "sched_wf (d_sched d)"
  proof -
    from that obtain c xs where ok: "sched_ok (d_sched d) c xs" by (auto simp: sched_wf_def)
    have "process_list (d_sched d) (int MAX_PROCS) \<noteq> None"
    proof (cases "run_queue (d_sched d)")
      case (Some q)
      then show ?thesis using process_list_complete [OF ok, of q "int MAX_PROCS"] by auto
    qed (simp add: process_list_def)
    then show ?thesis by (auto simp: term_cmd_ps_def Let_def split: prod.split)
  qed
qed

lemma streq_text: "0 \<notin> set t \<Longrightarrow> 0 \<notin> set (ascii w) \<Longrightarrow> streq (t @ [0]) w \<longleftrightarrow> t = ascii w"
proof -
  assume t: "0 \<notin> set t" "0 \<notin> set (ascii w)"
  obtain r where r: "strcmp (t @ [0]) (ascii w @ [0]) = Some r" using strcmp_defined [of "t @ [0]" "ascii w @ [0]"] by auto
  from strcmp_zero [OF r] t show ?thesis by (simp add: streq_def r)
qed

text \<open>How a step of the desktop may end: running in a good state, or halted by one of the two power commands.\<close>

definition good_end :: "'m ports \<Rightarrow> bytes \<Rightarrow> 'm desk \<Rightarrow> 'm desk outcome \<Rightarrow> bool" where
  "good_end P cmd d r =
     (case r of
        Running e \<Rightarrow> desk_ok e \<and> d_sched e = d_sched d \<and> d_port e = d_port d \<and> app_wins e = app_wins d \<and> editor_text e = editor_text d
      | Halted e \<Rightarrow> \<not> d_interrupts e \<and> (cmd = ascii ''shutdown'' \<or> cmd = ascii ''reboot'')
      | Stuck \<Rightarrow> cmd = ascii ''reboot'' \<and> controller_wait P 0x02 (d_port d) = None)"

lemma printed_end: "desk_ok d \<Longrightarrow> printed d e \<Longrightarrow> good_end P cmd d (Running e)"
  using printed_ok [of d e] by (simp add: good_end_def)

lemma execute_good_end:
  assumes "desk_ok d" "heap_inv h" "sched_wf (d_sched d)" "0 \<notin> set cmd"
  shows "good_end P cmd d (term_execute P h (cmd @ [0]) d)"
proof -
  define e where "e = term_println (ascii ''$ '' @ copy_chars (unat TERM_COLS) (cmd @ [0]) @ [0]) (graphics_rgb 140 255 180) d"
  have p: "printed d e" unfolding e_def by (intro printed_line printed_refl)
  have s: "d_sched e = d_sched d" "d_port e = d_port d" "desk_ok e" using printed_ok [OF p assms(1)] by simp_all
  have run: "good_end P cmd d (Running f)" if "printed e f" for f
    by (rule printed_end [OF assms(1)]) (rule printed_trans [OF p that])
  obtain m where m: "term_cmd_mem h e = Some m" "printed e m" using commands_return(1) [OF assms(2), of e] commands_print(5) by blast
  obtain q where q: "term_cmd_ps e = Some q" "printed e q"
    using commands_return(2) [of e] commands_print(6) assms(3) s(1) by (metis not_Some_eq)
  have clear: "good_end P cmd d (Running (e\<lparr>term_line_count := 0, term_scroll := 0\<rparr>))"
    using s(3) printed_ok [OF p assms(1)] by (simp add: good_end_def desk_ok_def term_ok_def editor_text_def)
  have sleep: "good_end P cmd d (Running (power_sleep e))"
    using s(3) printed_ok [OF p assms(1)] by (simp add: good_end_def power_sleep_def desk_ok_def term_ok_def editor_text_def)
  have off: "good_end P (ascii ''shutdown'') d (power_shutdown P e)" by (simp add: good_end_def power_shutdown_def Let_def)
  have boot: "good_end P (ascii ''reboot'') d (power_reboot P e)"
    using s(2) by (simp add: good_end_def power_reboot_def split: option.split)
  have w: "streq (cmd @ [0]) ''shutdown'' \<longleftrightarrow> cmd = ascii ''shutdown''" "streq (cmd @ [0]) ''reboot'' \<longleftrightarrow> cmd = ascii ''reboot''"
    using streq_text [OF assms(4)] by (simp_all add: ascii_def)
  have lines: "printed e (term_fg_line x e)" "printed e (term_println x c e)" for x c by (intro printed_line printed_refl)+
  show ?thesis
    unfolding term_execute_def e_def [symmetric] Let_def w
    using run [OF printed_refl] run [OF commands_print(1)] run [OF commands_print(2)] run [OF commands_print(3)] run [OF commands_print(4)]
      run [OF m(2)] run [OF q(2)] clear sleep off boot run [OF lines(1)] run [OF lines(2)]
    by (auto simp: m(1) q(1) returns_def)
qed

lemma type_key_nul: "0 \<notin> set t \<Longrightarrow> 0 \<notin> set (type_key m k t)"
  using small_key [of k] by (auto simp: type_key_def dest: in_set_butlastD)

lemma desk_texts:
  assumes "desk_ok d"
  shows "0 \<notin> set (term_text d)" "0 \<notin> set (editor_text d)" "length (editor_text d) \<le> 1080"
  using assms by (auto simp: desk_ok_def holds_def term_text_def editor_text_def)

text \<open>A key never damages the desktop.\<close>

lemma term_key_good:
  assumes "desk_ok d" "heap_inv h" "sched_wf (d_sched d)"
  shows "good_end P (if k = KEY_ENTER then term_text d else []) d (term_on_key P h k d)"
proof (cases "k = KEY_ENTER")
  case True
  let ?d = "d\<lparr>term_input_len := 0, term_input := (term_input d)[0 := 0]\<rparr>"
  have "good_end P (term_text d) ?d (term_execute P h (term_text d @ [0]) ?d)"
    using assms term_enter(2) [OF assms(1)] desk_texts(1) [OF assms(1)] by (intro execute_good_end) simp_all
  then show ?thesis unfolding True term_enter(1) [OF assms(1)]
    by (cases "term_execute P h (term_text d @ [0]) ?d") (simp_all add: good_end_def editor_text_def)
next
  case False
  from term_key_typed [OF assms(1) this, of P h] False show ?thesis by (auto simp: good_end_def editor_text_def)
qed

lemma desk_boot_sched: "sched_wf (d_sched (desk_boot m p sched_boot dr))"
  using sched_boot_ok(1) by (auto simp: desk_boot_def)

section \<open>The editor\<close>

definition edit_key :: "u16 \<Rightarrow> bytes \<Rightarrow> bytes" where
  "edit_key k t = (if k = KEY_ENTER then if length t < 1080 then t @ [0x0A] else t else type_key 1080 k t)"

definition editor_becomes :: "'m desk \<Rightarrow> bytes \<Rightarrow> 'm desk \<Rightarrow> bool" where
  "editor_becomes d t d' \<longleftrightarrow> desk_ok d' \<and> editor_text d' = t \<and>
     (\<exists>b n. d' = d\<lparr>editor_buf := b, editor_len := n, editor_cursor := n\<rparr>)"

lemma editor_becomesI:
  assumes "desk_ok d" "length b = 1081" "holds b (unat n)" "take (unat n) b = t"
    "d' = d\<lparr>editor_buf := b, editor_len := n, editor_cursor := n\<rparr>"
  shows "editor_becomes d t d'"
  using assms term_ok_cong [of d' d] by (auto simp: editor_becomes_def desk_ok_def editor_text_def)

lemma editor_same: "desk_ok d \<Longrightarrow> t = editor_text d \<Longrightarrow> editor_becomes d t d"
  by (rule editor_becomesI [where b = "editor_buf d" and n = "editor_len d"]) (auto simp: desk_ok_def editor_text_def)

lemma editor_put_becomes:
  assumes "desk_ok d" "c \<noteq> 0"
  shows "editor_becomes d (if length (editor_text d) < 1080 then editor_text d @ [c] else editor_text d) (editor_put c d)"
proof -
  define n where "n = unat (editor_len d)"
  have ok: "length (editor_buf d) = 1081" "holds (editor_buf d) n" using assms(1) by (simp_all add: desk_ok_def n_def)
  then have len: "length (editor_text d) = n" by (simp add: editor_text_def n_def holds_def)
  have less: "editor_len d < 1080 \<longleftrightarrow> n < 1080" by (simp add: n_def word_less_nat_alt)
  show ?thesis
  proof (cases "n < 1080")
    case True
    then have m: "unat (editor_len d + 1) = n + 1" by (simp add: n_def unat_plus_small)
    show ?thesis using True len less ok holds_put [OF ok(2), of c] assms m
      by (intro editor_becomesI [where b = "(editor_buf d)[n := c, n + 1 := 0]" and n = "editor_len d + 1"])
        (simp_all add: editor_put_def Let_def n_def editor_text_def)
  next
    case False
    then show ?thesis using assms(1) less len editor_same [OF assms(1) refl] by (simp add: editor_put_def Let_def)
  qed
qed

lemma editor_key_becomes:
  assumes "desk_ok d"
  shows "editor_becomes d (edit_key k (editor_text d)) (editor_on_key k d)"
proof -
  define n where "n = unat (editor_len d)"
  have ok: "length (editor_buf d) = 1081" "holds (editor_buf d) n" using assms(1) by (simp_all add: desk_ok_def n_def)
  consider (rub) "k = KEY_BACKSPACE" "editor_len d \<noteq> 0" | (empty) "k = KEY_BACKSPACE" "editor_len d = 0" | (enter) "k = KEY_ENTER"
    | (put) "k \<noteq> KEY_ENTER" "k \<noteq> KEY_BACKSPACE" "32 \<le> k" "k < 0x80" | (other) "k \<noteq> KEY_ENTER" "k \<noteq> KEY_BACKSPACE" "\<not> (k < 0x80 \<and> 32 \<le> k)"
    by blast
  then show ?thesis
  proof cases
    case rub
    then have "0 < n" by (simp add: n_def word_unat_eq_iff)
    moreover have "unat (editor_len d - 1) = n - 1" using rub(2) by (simp add: n_def unat_minus_one)
    ultimately show ?thesis using rub ok holds_rub [OF ok(2)] assms
      by (intro editor_becomesI [where b = "(editor_buf d)[n - 1 := 0]" and n = "editor_len d - 1"])
        (simp_all add: edit_key_def type_key_def editor_on_key_def Let_def editor_text_def n_def)
  next
    case empty
    then have "editor_text d = []" by (simp add: editor_text_def)
    then show ?thesis using editor_same [OF assms, of "[]"] empty by (simp add: edit_key_def type_key_def editor_on_key_def)
  next
    case enter
    then show ?thesis using editor_put_becomes [OF assms, of "0x0A"] by (simp add: editor_on_key_def edit_key_def)
  next
    case put
    then show ?thesis using editor_put_becomes [OF assms small_key [OF put(3,4)]]
      by (simp add: editor_on_key_def edit_key_def type_key_def if_distrib if_distribR cong: if_cong)
  next
    case other
    then show ?thesis using editor_same [OF assms refl] by (auto simp: editor_on_key_def edit_key_def type_key_def)
  qed
qed

end
