(* ===== verification/DesktopApps.thy ===== *)
theory DesktopApps
  imports Desktop
begin

text \<open>
  The desktop's windows and its main turn, \<open>kernel/desktop/desktop.c\<close>: where the buttons are, the four
  applications as clients of the window manager, the start menu, \<open>desktop_init\<close> and
  \<open>desktop_update\<close>. The state is a pair of the window manager and the desktop; the size of the screen is
  the one the window manager reads. A function pointer is a number that stands for the function; the code
  compares it with NULL and calls it, nothing else.
\<close>

section \<open>Where things are\<close>

type_synonym rect = "u32 \<times> u32 \<times> u32 \<times> u32"

abbreviation "TB_BTN_H \<equiv> (22 :: u32)"
abbreviation "TB_BTN_PAD_Y \<equiv> (5 :: u32)"
abbreviation "TB_BTN_GAP \<equiv> (4 :: u32)"
abbreviation "APP_COUNT \<equiv> (4 :: nat)"
abbreviation "START_W \<equiv> (180 :: u32)"
abbreviation "START_ITEM_H \<equiv> (26 :: u32)"

definition hit :: "u32 \<Rightarrow> u32 \<Rightarrow> rect \<Rightarrow> bool" where
  "hit px py r = (case r of (x, y, w, h) \<Rightarrow> x \<le>s px \<and> y \<le>s py \<and> px <s x + w \<and> py <s y + h)"

definition taskbar_y :: "u32 \<Rightarrow> u32" where
  "taskbar_y screen_h = (if TB_HEIGHT < screen_h then screen_h - TB_HEIGHT else 0)"

text \<open>The label and the width of a button; its position in the list is its application.\<close>

definition tb_apps :: "(string \<times> u32) list" where
  "tb_apps = [(''Terminal'', 96), (''Editor'', 76), (''Task Mgr'', 88), (''Neofetch'', 86)]"

definition start_btn_rect :: "u32 \<Rightarrow> rect" where
  "start_btn_rect screen_h = (TB_BTN_GAP, taskbar_y screen_h + TB_BTN_PAD_Y, 72, TB_BTN_H)"

definition app_btn_rect :: "u32 \<Rightarrow> nat \<Rightarrow> rect" where
  "app_btn_rect screen_h idx =
     (case start_btn_rect screen_h of (sx, sy, sw, sh) \<Rightarrow>
        (fold (\<lambda>i cur. cur + (snd (tb_apps ! i) + TB_BTN_GAP)) [0..<idx] (sx + sw + TB_BTN_GAP * 2), sy, snd (tb_apps ! idx), sh))"

definition clock_rect :: "u32 \<Rightarrow> u32 \<Rightarrow> rect" where
  "clock_rect screen_w screen_h = (screen_w - 104 - TB_BTN_GAP, taskbar_y screen_h + TB_BTN_PAD_Y, 104, TB_BTN_H)"

definition start_menu_rect :: "u32 \<Rightarrow> rect" where
  "start_menu_rect screen_h =
     (case start_btn_rect screen_h of (sx, sy, sw, sh) \<Rightarrow>
        let items = 4; h = 10 + items * START_ITEM_H; y = sy - h
        in (sx, if y <s 0 then 0 else y, START_W, h))"

definition start_item_rect :: "u32 \<Rightarrow> nat \<Rightarrow> rect" where
  "start_item_rect screen_h idx =
     (case start_menu_rect screen_h of (mx, my, mw, mh) \<Rightarrow>
        (mx + 5, my + 5 + of_nat idx * START_ITEM_H, mw - 10, START_ITEM_H - 2))"

section \<open>The applications as clients of the window manager\<close>

abbreviation "term_on_draw_ptr \<equiv> (1 :: u32)"
abbreviation "term_on_key_ptr \<equiv> (2 :: u32)"
abbreviation "term_on_close_ptr \<equiv> (3 :: u32)"
abbreviation "editor_on_draw_ptr \<equiv> (4 :: u32)"
abbreviation "editor_on_key_ptr \<equiv> (5 :: u32)"
abbreviation "editor_on_close_ptr \<equiv> (6 :: u32)"
abbreviation "taskmgr_on_draw_ptr \<equiv> (7 :: u32)"
abbreviation "taskmgr_on_close_ptr \<equiv> (8 :: u32)"
abbreviation "neofetch_on_draw_ptr \<equiv> (9 :: u32)"
abbreviation "neofetch_on_close_ptr \<equiv> (10 :: u32)"

definition term_on_close :: "u32 \<Rightarrow> wm \<Rightarrow> wm" where
  "term_on_close win s = wm_hide_window win s"

definition editor_on_close :: "u32 \<Rightarrow> wm \<Rightarrow> wm" where
  "editor_on_close win s = wm_hide_window win s"

definition taskmgr_on_close :: "u32 \<Rightarrow> wm \<Rightarrow> wm" where
  "taskmgr_on_close win s = wm_hide_window win s"

definition neofetch_on_close :: "u32 \<Rightarrow> wm \<Rightarrow> wm" where
  "neofetch_on_close win s = wm_hide_window win s"

text \<open>What a call through a pointer does; a halted desktop does nothing more.\<close>

definition desk_calls :: "'m ports \<Rightarrow> 'm desk outcome wm_env" where
  "desk_calls P =
     \<lparr>env_key = (\<lambda>f win key user (s, r).
        case r of
          Running d \<Rightarrow>
            if f = term_on_key_ptr then (s, term_on_key P (wm_heap s) key d)
            else if f = editor_on_key_ptr then (s, Running (editor_on_key key d)) else (s, Stuck)
        | r \<Rightarrow> (s, r)),
      env_click = (\<lambda>f win pt button down user (s, r). (s, Stuck)),
      env_close = (\<lambda>f win user (s, r).
        if f = term_on_close_ptr then (term_on_close win s, r)
        else if f = editor_on_close_ptr then (editor_on_close win s, r)
        else if f = taskmgr_on_close_ptr then (taskmgr_on_close win s, r)
        else if f = neofetch_on_close_ptr then (neofetch_on_close win s, r) else (s, Stuck))\<rparr>"

text \<open>Size, functions and background of the window of an application.\<close>

definition app_window :: "int \<Rightarrow> theme \<Rightarrow> (u32 \<times> u32 \<times> wm_window_ops \<times> color) option" where
  "app_window app t =
     (if app = 0 then Some (640, 360,
        no_ops\<lparr>op_draw := term_on_draw_ptr, op_key := term_on_key_ptr, op_close := term_on_close_ptr\<rparr>, th_term_bg t)
      else if app = 1 then Some (560, 360,
        no_ops\<lparr>op_draw := editor_on_draw_ptr, op_key := editor_on_key_ptr, op_close := editor_on_close_ptr\<rparr>, graphics_rgb 28 30 40)
      else if app = 2 then Some (520, 320, no_ops\<lparr>op_draw := taskmgr_on_draw_ptr, op_close := taskmgr_on_close_ptr\<rparr>, graphics_rgb 18 22 32)
      else if app = 3 then Some (620, 260, no_ops\<lparr>op_draw := neofetch_on_draw_ptr, op_close := neofetch_on_close_ptr\<rparr>, graphics_rgb 22 22 34)
      else None)"

definition desktop_create_app :: "int \<Rightarrow> wm \<times> 'm desk \<Rightarrow> (wm \<times> 'm desk) option" where
  "desktop_create_app app st =
     (case st of (s, d) \<Rightarrow>
        case app_window app (th d) of None \<Rightarrow> Some (s, d)
        | Some (w, h, ops, bg) \<Rightarrow>
            let sw = gfx_w s; sh = gfx_h s;
                x = (if w < sw then (sw - w) div 2 else 0);
                y = (if h + TB_HEIGHT + 40 < sh then (sh - h - TB_HEIGHT - 40) div 2 else 0);
                x = x + (of_int app - 1) * 30;
                y = y + (of_int app - 1) * 20
            in case wm_create_window x y w h (Some (ascii (fst (tb_apps ! nat app)))) s of None \<Rightarrow> None
               | Some (win, s) \<Rightarrow>
                   if win = 0 then Some (s, d)
                   else Some (wm_set_ops win (Some ops) 0 (wm_set_background win bg s), d\<lparr>app_wins := (app_wins d)[nat app := win]\<rparr>))"

definition desktop_open_app :: "int \<Rightarrow> wm \<times> 'm desk \<Rightarrow> (wm \<times> 'm desk) option" where
  "desktop_open_app app st =
     (if app < 0 \<or> int APP_COUNT \<le> app then Some st
      else
        map_option (\<lambda>(s, d).
          let win = app_wins d ! nat app in
          if win = 0 then (s, d)
          else if wm_is_visible win s \<noteq> 0 then (wm_focus_window win s, d)
          else (wm_focus_window win (wm_show_window win s), d))
        (if app_wins (snd st) ! nat app = 0 then desktop_create_app app st else Some st))"

definition desktop_close_app :: "int \<Rightarrow> wm \<times> 'm desk \<Rightarrow> wm \<times> 'm desk" where
  "desktop_close_app app st =
     (if app < 0 \<or> int APP_COUNT \<le> app then st
      else case st of (s, d) \<Rightarrow> if app_wins d ! nat app \<noteq> 0 then (wm_hide_window (app_wins d ! nat app) s, d) else (s, d))"

definition desktop_toggle_app :: "int \<Rightarrow> wm \<times> 'm desk \<Rightarrow> (wm \<times> 'm desk) option" where
  "desktop_toggle_app app st =
     (if app < 0 \<or> int APP_COUNT \<le> app then Some st
      else if app_wins (snd st) ! nat app \<noteq> 0 \<and> wm_is_visible (app_wins (snd st) ! nat app) (fst st) \<noteq> 0
      then Some (desktop_close_app app st)
      else desktop_open_app app st)"

section \<open>Start\<close>

definition tetos_theme :: theme where
  "tetos_theme =
     \<lparr>th_bg_top = graphics_rgb 38 98 180, th_bg_bottom = graphics_rgb 10 26 68, th_tb_bg = graphics_rgb 18 22 36,
      th_tb_top = graphics_rgb 80 140 220, th_tb_text = graphics_rgb 244 247 255, th_tb_btn = graphics_rgb 36 48 70,
      th_tb_btn_active = graphics_rgb 80 130 210, th_tb_btn_border = graphics_rgb 100 140 200, th_cursor = graphics_rgb 255 255 255,
      th_start_bg = graphics_rgb 26 30 44, th_start_hover = graphics_rgb 70 110 190, th_start_border = graphics_rgb 110 150 220,
      th_term_bg = graphics_rgb 12 14 22, th_term_fg = graphics_rgb 210 220 230, th_term_cursor = graphics_rgb 140 255 180\<rparr>"

definition desktop_init :: "wm \<times> 'm desk \<Rightarrow> (wm \<times> 'm desk) option" where
  "desktop_init st =
     (case st of (s, d) \<Rightarrow>
        let d = d\<lparr>th := tetos_theme, app_wins := fold (\<lambda>i ws. ws[i := 0]) [0..<APP_COUNT] (app_wins d)\<rparr>;
            d = d\<lparr>term_line_count := 0, term_input_len := 0, term_input := (term_input d)[0 := 0]\<rparr>;
            d = d\<lparr>editor_len := 0, editor_cursor := 0, editor_buf := (editor_buf d)[0 := 0]\<rparr>;
            d = term_push (lit ''tetOS terminal ready. Type \\'help\\'.'') (graphics_rgb 200 230 255) d
        in case wm_set_reserved_bottom TB_HEIGHT s of None \<Rightarrow> None
           | Some s \<Rightarrow>
               map_option (\<lambda>(s, d). (wm_focus_window (app_wins d ! 0) s, d\<lparr>desktop_last_buttons := 0, start_open := 0\<rparr>))
                 (desktop_create_app 0 (s, d)))"

section \<open>A turn\<close>

definition handle_start_menu_click :: "'m ports \<Rightarrow> u32 \<Rightarrow> u32 \<Rightarrow> u32 \<Rightarrow> 'm desk \<Rightarrow> 'm desk outcome" where
  "handle_start_menu_click P screen_h mx my d =
     (case find (\<lambda>i. hit mx my (start_item_rect screen_h i)) [0..<4] of
        None \<Rightarrow> Running (d\<lparr>start_open := 0\<rparr>)
      | Some i \<Rightarrow>
          let d = d\<lparr>start_open := 0\<rparr> in
          if i = 0 then power_shutdown P d else if i = 1 then power_reboot P d
          else if i = 2 then Running (power_sleep d) else Running d)"

text \<open>The keys that wait go to the window with the focus.\<close>

partial_function (option) desktop_keys ::
  "'m ports \<Rightarrow> kbd \<Rightarrow> wm \<times> 'm desk outcome \<Rightarrow> (kbd \<times> wm \<times> 'm desk outcome) option" where
  "desktop_keys P kb st =
     (case snd st of
        Running d \<Rightarrow>
          if keyboard_has_input kb
          then (case keyboard_getkey kb of None \<Rightarrow> None | Some (k, kb) \<Rightarrow> desktop_keys P kb (wm_deliver_key (desk_calls P) k st))
          else Some (kb, st)
      | _ \<Rightarrow> Some (kb, st))"

text \<open>The button went down at the pointer: the start menu, the start button, or the first button of an application that is hit.\<close>

definition desktop_pressed :: "'m ports \<Rightarrow> u32 \<Rightarrow> u32 \<Rightarrow> wm \<times> 'm desk \<Rightarrow> (wm \<times> 'm desk outcome) option" where
  "desktop_pressed P mx my st =
     (case st of (s, d) \<Rightarrow>
        if start_open d \<noteq> 0 then Some (s, handle_start_menu_click P (gfx_h s) mx my d)
        else if hit mx my (start_btn_rect (gfx_h s)) then Some (s, Running (d\<lparr>start_open := 1\<rparr>))
        else case find (\<lambda>i. hit mx my (app_btn_rect (gfx_h s) i)) [0..<APP_COUNT] of
               None \<Rightarrow> Some (s, Running d)
             | Some i \<Rightarrow> map_option (\<lambda>(s, d). (s, Running d)) (desktop_toggle_app (int i) (s, d)))"

text \<open>The end of a turn: the window manager reads the events of the mouse.\<close>

definition desktop_windows :: "'m ports \<Rightarrow> u8 \<Rightarrow> mouse \<Rightarrow> wm \<times> 'm desk outcome \<Rightarrow> (mouse \<times> wm \<times> 'm desk outcome) option" where
  "desktop_windows P buttons ms st =
     (case st of (s, Running d) \<Rightarrow> wm_update (desk_calls P) ms (s, Running (d\<lparr>desktop_last_buttons := buttons\<rparr>))
      | _ \<Rightarrow> Some (ms, st))"

definition desktop_update ::
  "'m ports \<Rightarrow> mouse \<times> kbd \<times> wm \<times> 'm desk \<Rightarrow> (mouse \<times> kbd \<times> wm \<times> 'm desk outcome) option" where
  "desktop_update P st =
     (case st of (ms, kb, s, d) \<Rightarrow>
        let (mx, my) = mouse_get_position ms;
            buttons = mouse_get_buttons ms;
            pressed = (buttons AND MOUSE_BUTTON_LEFT \<noteq> 0 \<and> desktop_last_buttons d AND MOUSE_BUTTON_LEFT = 0)
        in case desktop_keys P kb (s, Running d) of None \<Rightarrow> None
           | Some (kb, s, r) \<Rightarrow>
               case (case r of Running d \<Rightarrow> if pressed then desktop_pressed P mx my (s, d) else Some (s, r) | _ \<Rightarrow> Some (s, r)) of
                 None \<Rightarrow> None
               | Some st \<Rightarrow> map_option (\<lambda>(ms, st). (ms, kb, st)) (desktop_windows P buttons ms st))"

end
