(* ===== verification/DesktopDraw.thy ===== *)
theory DesktopDraw
  imports DesktopApps GraphicsProps "HOL-Library.Signed_Division"
begin

text \<open>
  What the desktop draws, \<open>kernel/desktop/desktop.c\<close>: background, taskbar, start menu and pointer, the
  contents of the four windows, and \<open>desktop_render\<close>, which puts them over each other and presents the
  picture. \<open>None\<close> is a string without an end or a process list that has none.
\<close>

section \<open>Background\<close>

text \<open>One channel of the gradient at \<open>t\<close> of 255; \<open>int32_t\<close> values, none of them out of range.\<close>

definition channel_mix :: "u32 \<Rightarrow> u32 \<Rightarrow> int \<Rightarrow> int" where
  "channel_mix from to t =
     (let r = uint from + (uint to - uint from) * t sdiv 255; r = (if r < 0 then 0 else r) in if 255 < r then 255 else r)"

definition gradient :: "theme \<Rightarrow> u32 \<Rightarrow> u32 \<Rightarrow> color" where
  "gradient t h y =
     (let k = sint ((y * 255) div (if h \<noteq> 0 then h else 1));
          r = channel_mix (drop_bit 16 (th_bg_top t) AND 0xFF) (drop_bit 16 (th_bg_bottom t) AND 0xFF) k;
          g = channel_mix (drop_bit 8 (th_bg_top t) AND 0xFF) (drop_bit 8 (th_bg_bottom t) AND 0xFF) k;
          b = channel_mix (th_bg_top t AND 0xFF) (th_bg_bottom t AND 0xFF) k
      in graphics_rgb (of_int r) (of_int g) (of_int b))"

definition draw_background :: "theme \<Rightarrow> gfx \<Rightarrow> gfx" where
  "draw_background t g =
     (let w = graphics_get_width g; h = graphics_get_height g in
      if w = 0 \<or> h = 0 then g
      else
        let g = fold (\<lambda>y. graphics_fill_rect 0 (of_nat y) w 1 (gradient t h (of_nat y))) [0..<unat h] g;
            g = graphics_draw_string 18 18 (ascii ''tetOS Desktop - 1280x720'') (graphics_rgb 220 230 255) (graphics_rgb 30 70 140) g
        in graphics_draw_string 18 34 (ascii ''\"my love, can you teach me to be real?\"'') (graphics_rgb 170 200 240) (graphics_rgb 28 64 130) g)"

section \<open>Taskbar\<close>

text \<open>The label is centred when it leaves room at both sides.\<close>

definition label_x :: "u32 \<Rightarrow> u32 \<Rightarrow> bytes \<Rightarrow> bool \<Rightarrow> u32" where
  "label_x x w label centered =
     (let text_w = of_nat (length label) * 8 in if centered \<and> text_w + 16 < w then x + (w - text_w) div 2 else x + 8)"

definition draw_button :: "rect \<Rightarrow> color \<Rightarrow> color \<Rightarrow> bytes option \<Rightarrow> color \<Rightarrow> bool \<Rightarrow> gfx \<Rightarrow> gfx" where
  "draw_button r bg border label fg centered g =
     (case r of (x, y, w, h) \<Rightarrow>
        if w \<le>s 0 \<or> h \<le>s 0 then g
        else
          let g = graphics_fill_rect x y w h bg g;
              g = graphics_fill_rect x y w 1 border g;
              g = graphics_fill_rect x (y + h - 1) w 1 border g;
              g = graphics_fill_rect x y 1 h border g;
              g = graphics_fill_rect (x + w - 1) y 1 h border g
          in case label of None \<Rightarrow> g
             | Some t \<Rightarrow> graphics_draw_string (label_x x w t centered) (y + of_int (sint (h - 8) sdiv 2)) t fg bg g)"

definition two_digits :: "u32 \<Rightarrow> bytes" where
  "two_digits v = [0x30 + ucast ((v div 10) mod 10), 0x30 + ucast (v mod 10)]"

definition format_clock :: "u32 \<Rightarrow> bytes" where
  "format_clock ticks =
     (let secs = ticks div 100; h = (secs div 3600) mod 24; m = (secs div 60) mod 60; s = secs mod 60
      in two_digits h @ [0x3A] @ two_digits m @ [0x3A] @ two_digits s)"

definition draw_taskbar :: "wm \<Rightarrow> 'm desk \<Rightarrow> gfx \<Rightarrow> gfx" where
  "draw_taskbar s d g =
     (let w = graphics_get_width g; h = graphics_get_height g; t = th d in
      if w = 0 \<or> h = 0 then g
      else
        let y = taskbar_y h;
            g = graphics_fill_rect 0 y w TB_HEIGHT (th_tb_bg t) g;
            g = graphics_fill_rect 0 y w 2 (th_tb_top t) g;
            sbg = (if start_open d \<noteq> 0 then th_tb_btn_active t else th_tb_btn t);
            g = draw_button (start_btn_rect h) sbg (th_tb_btn_border t) (Some (ascii ''tetOS'')) (th_tb_text t) True g;
            g = fold (\<lambda>i g.
                  let open = app_wins d ! i \<noteq> 0 \<and> wm_is_visible (app_wins d ! i) s \<noteq> 0;
                      bg = (if open then th_tb_btn_active t else th_tb_btn t)
                  in draw_button (app_btn_rect h i) bg (th_tb_btn_border t) (Some (ascii (fst (tb_apps ! i)))) (th_tb_text t) True g)
                [0..<APP_COUNT] g
        in draw_button (clock_rect w h) (th_tb_btn t) (th_tb_btn_border t) (Some (format_clock (d_ticks d))) (th_tb_text t) True g)"

section \<open>Start menu and pointer\<close>

definition menu_labels :: "string list" where
  "menu_labels = [''Shutdown'', ''Restart'', ''Sleep'', ''Close menu'']"

definition draw_start_menu :: "mouse \<Rightarrow> 'm desk \<Rightarrow> gfx \<Rightarrow> gfx" where
  "draw_start_menu ms d g =
     (if start_open d = 0 then g
      else
        let sh = graphics_get_height g; t = th d; (mx, my, mw, mh) = start_menu_rect sh;
            g = graphics_fill_rect mx my mw mh (th_start_bg t) g;
            g = graphics_fill_rect mx my mw 1 (th_start_border t) g;
            g = graphics_fill_rect mx (my + mh - 1) mw 1 (th_start_border t) g;
            g = graphics_fill_rect mx my 1 mh (th_start_border t) g;
            g = graphics_fill_rect (mx + mw - 1) my 1 mh (th_start_border t) g;
            (px, py) = mouse_get_position ms
        in fold (\<lambda>i g.
             let (ix, iy, iw, ih) = start_item_rect sh i;
                 bg = (if hit px py (ix, iy, iw, ih) then th_start_hover t else th_start_bg t);
                 g = graphics_fill_rect ix iy iw ih bg g
             in graphics_draw_string (ix + 10) (iy + 9) (ascii (menu_labels ! i)) (th_tb_text t) bg g) [0..<4] g)"

definition draw_cursor :: "mouse \<Rightarrow> theme \<Rightarrow> gfx \<Rightarrow> gfx" where
  "draw_cursor ms t g =
     (let (x, y) = mouse_get_position ms;
          g = fold (\<lambda>i g. graphics_set_pixel x (y + of_nat i) (th_cursor t) (graphics_set_pixel (x + of_nat i) y (th_cursor t) g)) [0..<12] g
      in fold (\<lambda>i. graphics_set_pixel (x + of_nat i) (y + of_nat i) (th_cursor t)) [0..<6] g)"

section \<open>The windows\<close>

definition draw_str :: "u32 \<Rightarrow> u32 \<Rightarrow> bytes \<Rightarrow> color \<Rightarrow> color \<Rightarrow> gfx \<Rightarrow> gfx option" where
  "draw_str x y p fg bg g = map_option (\<lambda>t. graphics_draw_string x y t fg bg g) (c_string p)"

fun term_rows :: "'m desk \<Rightarrow> u32 \<Rightarrow> u32 \<Rightarrow> u32 \<Rightarrow> nat list \<Rightarrow> gfx \<Rightarrow> gfx option" where
  "term_rows d first cx cy [] g = Some g"
| "term_rows d first cx cy (i # is) g = do {
     let line = term_lines d ! unat (first + of_nat i);
     g \<leftarrow> draw_str (cx + 8) (cy + 6 + of_nat i * 12) (tl_text line) (tl_color line) (th_term_bg (th d)) g;
     term_rows d first cx cy is g
   }"

definition term_on_draw :: "rect \<Rightarrow> 'm desk \<Rightarrow> gfx \<Rightarrow> gfx option" where
  "term_on_draw r d g =
     (case r of (cx, cy, cw, ch) \<Rightarrow>
        let bg = th_term_bg (th d); g = graphics_fill_rect cx cy cw ch bg g; rows_visible = ch div 12 in
        if rows_visible = 0 then Some g
        else do {
          let rows_visible = (if TERM_ROWS < rows_visible then TERM_ROWS else rows_visible);
          let used = term_line_count d;
          let first = (if rows_visible < used + 1 then used + 1 - rows_visible else 0);
          g \<leftarrow> term_rows d first cx cy (takeWhile (\<lambda>i. first + of_nat i < used) [0..<unat (rows_visible - 1)]) g;
          let input_row = (if rows_visible \<le> used then rows_visible - 1 else used);
          let iy = cy + 6 + input_row * 12;
          let g = graphics_draw_string (cx + 8) iy (ascii ''$ '') (graphics_rgb 140 255 180) bg g;
          g \<leftarrow> draw_str (cx + 8 + 16) iy (term_input d) (th_term_fg (th d)) bg g;
          Some (if (d_ticks d div 50) AND 1 \<noteq> 0
                then graphics_fill_rect (cx + 8 + 16 + term_input_len d * 8) iy 8 10 (th_term_cursor (th d)) g else g)
        })"

text \<open>The characters of the editor; column and row of the one after the last.\<close>

fun editor_chars :: "u32 \<Rightarrow> u32 \<Rightarrow> bytes \<Rightarrow> u32 \<Rightarrow> u32 \<Rightarrow> gfx \<Rightarrow> u32 \<times> u32 \<times> gfx" where
  "editor_chars cx y0 [] col row g = (col, row, g)"
| "editor_chars cx y0 (c # cs) col row g =
     (if c = 0x0A then editor_chars cx y0 cs 0 (row + 1) g
      else if EDIT_ROWS \<le> row then (col, row, g)
      else
        let g = (if col < EDIT_COLS
                 then graphics_draw_string (cx + 8 + col * 8) (y0 + row * 12) (if c = 0 then [] else [c])
                        (graphics_rgb 220 230 240) (graphics_rgb 28 30 40) g
                 else g);
            col = col + 1
        in if EDIT_COLS \<le> col then editor_chars cx y0 cs 0 (row + 1) g else editor_chars cx y0 cs col row g)"

definition editor_on_draw :: "rect \<Rightarrow> 'm desk \<Rightarrow> gfx \<Rightarrow> gfx" where
  "editor_on_draw r d g =
     (case r of (cx, cy, cw, ch) \<Rightarrow>
        let g = graphics_fill_rect cx cy cw ch (graphics_rgb 28 30 40) g;
            g = graphics_draw_string (cx + 8) (cy + 6) (ascii ''tetPad - type to edit, Backspace to delete'')
                  (graphics_rgb 180 200 230) (graphics_rgb 28 30 40) g;
            g = graphics_fill_rect (cx + 4) (cy + 22) (cw - 8) 1 (graphics_rgb 60 70 90) g;
            y0 = cy + 30;
            (col, row, g) = editor_chars cx y0 (take (unat (editor_len d)) (editor_buf d)) 0 0 g
        in if (d_ticks d div 50) AND 1 \<noteq> 0 \<and> row < EDIT_ROWS
           then graphics_fill_rect (cx + 8 + col * 8) (y0 + row * 12) 8 10 (graphics_rgb 255 230 100) g else g)"

definition task_state :: "u8 \<Rightarrow> bytes" where
  "task_state st =
     (if st = PROC_READY then ascii ''ready'' else if st = PROC_RUNNING then ascii ''running''
      else if st = PROC_BLOCKED then ascii ''blocked'' else if st = PROC_ZOMBIE then ascii ''zombie'' else ascii ''?'')"

fun task_rows :: "sched \<Rightarrow> u32 \<Rightarrow> u32 \<Rightarrow> nat \<Rightarrow> nat list \<Rightarrow> gfx \<Rightarrow> gfx option" where
  "task_rows sc cx cy i [] g = Some g"
| "task_rows sc cx cy i (p # ps) g = do {
     let proc = process_table sc ! p;
     let ry = cy + 46 + of_nat i * 12;
     let bg = graphics_rgb 18 22 32;
     let g = graphics_draw_string (cx + 8) ry (u32_to_str (p_pid proc)) (graphics_rgb 230 230 230) bg g;
     let g = graphics_draw_string (cx + 64) ry (task_state (p_state proc)) (graphics_rgb 200 255 200) bg g;
     g \<leftarrow> draw_str (cx + 160) ry (shown_name proc) (graphics_rgb 230 230 230) bg g;
     task_rows sc cx cy (Suc i) ps g
   }"

definition memory_line :: "pmm \<Rightarrow> bytes" where
  "memory_line p =
     ascii ''memory: used='' @ u32_to_str ((pmm_total_frames p - pmm_free_frames p) * 4) @ ascii '' KB  free='' @
     u32_to_str (pmm_free_frames p * 4) @ ascii '' KB''"

definition taskmgr_on_draw :: "rect \<Rightarrow> 'm desk \<Rightarrow> gfx \<Rightarrow> gfx option" where
  "taskmgr_on_draw r d g =
     (case r of (cx, cy, cw, ch) \<Rightarrow> do {
        let bg = graphics_rgb 18 22 32;
        let head = graphics_rgb 160 200 230;
        let g = graphics_fill_rect cx cy cw ch bg g;
        let g = graphics_draw_string (cx + 8) (cy + 6) (ascii ''Task Manager - kernel processes'') (graphics_rgb 180 220 255) bg g;
        let g = graphics_fill_rect (cx + 4) (cy + 22) (cw - 8) 1 (graphics_rgb 40 60 90) g;
        let g = graphics_draw_string (cx + 8) (cy + 30) (ascii ''PID'') head bg g;
        let g = graphics_draw_string (cx + 64) (cy + 30) (ascii ''STATE'') head bg g;
        let g = graphics_draw_string (cx + 160) (cy + 30) (ascii ''NAME'') head bg g;
        (n, list) \<leftarrow> process_list (d_sched d) (int MAX_PROCS);
        g \<leftarrow> task_rows (d_sched d) cx cy 0 list g;
        Some (graphics_draw_string (cx + 8) (cy + ch - 16) (memory_line (d_pmm d)) (graphics_rgb 200 220 255) bg g)
      })"

definition neofetch_teto_art :: "bytes list" where
  "neofetch_teto_art = [
     ascii ''       .-.'',
     ascii ''   .--/   '' @ [0x5C] @ ascii ''--.'',
     ascii '' ( ( ) | ^ ^ | ( ) )'',
     ascii '' ( ~ ) |  v  | ( ~ )'',
     ascii ''    (@)'' @ [0x5C] @ ascii ''___/(@)'',
     ascii ''        | |'',
     ascii ''       / | '' @ [0x5C]]"

text \<open>A label, filled up to ten characters.\<close>

definition column :: "string \<Rightarrow> bytes" where
  "column p = ascii p @ replicate (10 - length p) 0x20"

text \<open>A line in the colour of values, then its label over its beginning.\<close>

definition info_line :: "u32 \<Rightarrow> u32 \<Rightarrow> bytes \<Rightarrow> bytes \<Rightarrow> gfx \<Rightarrow> gfx" where
  "info_line x y line label g =
     graphics_draw_string x y label (graphics_rgb 160 255 200) (graphics_rgb 22 22 34)
       (graphics_draw_string x y line (graphics_rgb 230 230 230) (graphics_rgb 22 22 34) g)"

definition resolution_line :: "gfx \<Rightarrow> bytes" where
  "resolution_line g =
     column ''Resolution:'' @ u32_to_str (graphics_get_width g) @ [0x78] @ u32_to_str (graphics_get_height g) @ ascii ''x32''"

definition uptime_line :: "u32 \<Rightarrow> bytes" where
  "uptime_line ticks = (let secs = ticks div 100 in column ''Uptime:'' @ u32_to_str (secs div 60) @ ascii ''m '' @ u32_to_str (secs mod 60) @ ascii ''s'')"

definition usage_line :: "pmm \<Rightarrow> bytes" where
  "usage_line p =
     column ''Memory:'' @ u32_to_str ((pmm_total_frames p - pmm_free_frames p) * 4) @ ascii '' / '' @
     u32_to_str (pmm_total_frames p * 4) @ ascii '' KB''"

definition neofetch_on_draw :: "rect \<Rightarrow> 'm desk \<Rightarrow> gfx \<Rightarrow> gfx" where
  "neofetch_on_draw r d g =
     (case r of (cx, cy, cw, ch) \<Rightarrow>
        let bg = graphics_rgb 22 22 34; pink = graphics_rgb 255 150 200; title = graphics_rgb 255 220 230;
            g = graphics_fill_rect cx cy cw ch bg g;
            g = fold (\<lambda>i. graphics_draw_string (cx + 12) (cy + 16 + of_nat i * 12) (neofetch_teto_art ! i) pink bg)
                  [0..<length neofetch_teto_art] g;
            x = cx + 220; y = cy + 16;
            g = graphics_draw_string x y (ascii ''teto@tetOS'') title bg g;
            y = y + 14;
            g = graphics_draw_string x y (ascii ''----------'') title bg g;
            y = y + 14;
            g = info_line x y (ascii ''OS:       tetOS 0.1.0'') (ascii ''OS:       '') g;
            y = y + 14;
            g = info_line x y (ascii ''Kernel:   C + NASM, i386 PM'') (ascii ''Kernel:   '') g;
            y = y + 14;
            g = info_line x y (resolution_line g) (ascii ''Resolution:'') g;
            y = y + 14;
            g = info_line x y (uptime_line (d_ticks d)) (ascii ''Uptime:'') g;
            y = y + 14;
            g = info_line x y (usage_line (d_pmm d)) (ascii ''Memory:'') g;
            y = y + 14;
            g = info_line x y (ascii ''Shell:    tetOS terminal'') (ascii ''Shell:    '') g;
            y = y + 14
        in info_line x y (ascii ''WM:       tetOS native'') (ascii ''WM:       '') g)"

text \<open>What a window's drawing function does when the window manager calls it.\<close>

definition desk_draws :: "'m desk outcome draw_env" where
  "desk_draws f win r user st =
     (case st of (s, g, Running d) \<Rightarrow>
        (case (if f = term_on_draw_ptr then term_on_draw r d g
               else if f = editor_on_draw_ptr then Some (editor_on_draw r d g)
               else if f = taskmgr_on_draw_ptr then taskmgr_on_draw r d g
               else if f = neofetch_on_draw_ptr then Some (neofetch_on_draw r d g) else None) of
           None \<Rightarrow> (s, g, Stuck)
         | Some g \<Rightarrow> (s, g, Running d))
      | _ \<Rightarrow> st)"

section \<open>The picture\<close>

definition desktop_render :: "mouse \<Rightarrow> wm \<times> gfx \<times> 'm desk \<Rightarrow> (wm \<times> gfx \<times> 'm desk) option" where
  "desktop_render ms st =
     (case st of (s, g, d) \<Rightarrow>
        if graphics_get_width g = 0 \<or> graphics_get_height g = 0 then Some (s, g, d)
        else
          case wm_render desk_draws (s, draw_background (th d) g, Running d) of
            Some (s, g, Running d) \<Rightarrow>
              let g = draw_taskbar s d g;
                  g = draw_start_menu ms d g;
                  g = draw_cursor ms (th d) g
              in Some (s, graphics_present g, d)
          | _ \<Rightarrow> None)"

end
