(* ===== verification/DesktopTurn.thy ===== *)
theory DesktopTurn
  imports DesktopApps DesktopProps
begin

text \<open>
  The desktop's turn: the applications are well-behaved clients of the window manager, the keys that wait
  reach the window with the focus in order, toggling an application flips its visibility, and the invariant
  of window manager and desktop together survives every turn.
\<close>

section \<open>What the window manager leaves alone\<close>

text \<open>The functions and the visibility of a window.\<close>

lemma content_parts: "content w = content w' \<Longrightarrow> w_ops w = w_ops w' \<and> w_visible w = w_visible w'"
  by (drule arg_cong [where f = "\<lambda>w. (w_ops w, w_visible w)"]) (simp add: content_def)

lemma attach_detach_parts [simp]:
  "w_ops (wins (wm_list_attach_tail z s) a) = w_ops (wins s a)" "w_ops (wins (wm_list_detach z s) a) = w_ops (wins s a)"
  "w_visible (wins (wm_list_attach_tail z s) a) = w_visible (wins s a)" "w_visible (wins (wm_list_detach z s) a) = w_visible (wins s a)"
  using content_parts [OF attach_content, of z s a] content_parts [OF detach_content, of z s a] by auto

lemma focus_parts [simp]:
  "w_ops (wins (wm_focus_internal z s) a) = w_ops (wins s a)" "w_visible (wins (wm_focus_internal z s) a) = w_visible (wins s a)"
  by (simp_all add: wm_focus_internal_def)

lemma bounded_parts [simp]: "w_ops (bounded_window sw wh w) = w_ops w" "w_visible (bounded_window sw wh w) = w_visible w"
  by (simp_all add: bounded_window_def Let_def)

lemma wm_parts [simp]:
  "w_ops (wins (wm_apply_bounds z s) a) = w_ops (wins s a)" "w_visible (wins (wm_apply_bounds z s) a) = w_visible (wins s a)"
  "w_ops (wins (wm_hide_window z s) a) = w_ops (wins s a)" "wins (wm_refresh_screen s) = wins s"
  "w_ops (wins (wm_maximize_toggle z s) a) = w_ops (wins s a)" "w_ops (wins (wm_drag ev s) a) = w_ops (wins s a)"
  "w_ops (wins (drag_end s) a) = w_ops (wins s a)" "w_ops (wins (wm_show_window z s) a) = w_ops (wins s a)"
  by (simp_all add: wm_apply_bounds_def wm_hide_window_def wm_refresh_screen_def wm_maximize_toggle_def wm_drag_def drag_end_def
      wm_show_window_def Let_def)

section \<open>The applications as clients\<close>

text \<open>The functions the desktop registers: no click, and a key, drawing and closing function of its own.\<close>

definition good_ops :: "wm_window_ops \<Rightarrow> bool" where
  "good_ops ops \<longleftrightarrow> op_click ops = 0 \<and> op_key ops \<in> {0, term_on_key_ptr, editor_on_key_ptr} \<and>
     op_close ops \<in> {term_on_close_ptr, editor_on_close_ptr, taskmgr_on_close_ptr, neofetch_on_close_ptr} \<and>
     op_draw ops \<in> {term_on_draw_ptr, editor_on_draw_ptr, taskmgr_on_draw_ptr, neofetch_on_draw_ptr}"

text \<open>The windows \<open>Z\<close> are open, with the functions \<open>F\<close>.\<close>

definition wins_are :: "u32 set \<Rightarrow> (u32 \<Rightarrow> wm_window_ops) \<Rightarrow> wm \<Rightarrow> bool" where
  "wins_are Z F s \<longleftrightarrow> (\<exists>zs. wm_ok s zs \<and> set zs = Z) \<and> (\<forall>z \<in> Z. w_ops (wins s z) = F z)"

lemma wins_areI: "wm_ok s zs \<Longrightarrow> set zs = Z \<Longrightarrow> (\<And>z. z \<in> Z \<Longrightarrow> w_ops (wins s z) = F z) \<Longrightarrow> wins_are Z F s"
  by (auto simp: wins_are_def)

lemma are_focus: "wins_are Z F s \<Longrightarrow> z \<in> Z \<Longrightarrow> wins_are Z F (wm_focus_internal z s)"
proof -
  assume a: "wins_are Z F s" "z \<in> Z"
  then obtain zs where zs: "wm_ok s zs" "set zs = Z" by (auto simp: wins_are_def)
  then have "distinct zs" by (simp add: wm_ok_def zlist_def)
  with ok_focus [OF zs(1), of z] zs a show ?thesis by (intro wins_areI [where zs = "raise_win z zs"]) (auto simp: wins_are_def)
qed

lemma are_hide: "wins_are Z F s \<Longrightarrow> wins_are Z F (wm_hide_window z s)"
  by (auto simp: wins_are_def dest: ok_hide)

lemma close_hides:
  assumes "good_ops ops"
  shows "env_close (desk_calls P) (op_close ops) z u (s, r) = (wm_hide_window z s, r)"
  using assms by (auto simp: good_ops_def desk_calls_def term_on_close_def editor_on_close_def taskmgr_on_close_def neofetch_on_close_def)

lemma press_keeps:
  assumes "wins_are Z F s" "z \<in> Z" "good_ops (F z)"
  shows "\<exists>s'. press_on (desk_calls P) ev z (s, r) = (s', r) \<and> wins_are Z F s'"
proof -
  let ?s = "wm_focus_internal z s"
  have f: "wins_are Z F ?s" by (rule are_focus [OF assms(1,2)])
  then obtain zs where zs: "wm_ok ?s zs" "set zs = Z" and ops: "\<And>a. a \<in> Z \<Longrightarrow> w_ops (wins ?s a) = F a" by (auto simp: wins_are_def)
  have z: "z \<in> insert 0 (set zs)" using assms(2) zs(2) by simp
  have "op_click (F z) = 0" "op_close (F z) \<noteq> 0" using assms(3) by (auto simp: good_ops_def)
  then have o: "op_click (w_ops (wins ?s z)) = 0" "op_close (w_ops (wins ?s z)) \<noteq> 0" "good_ops (w_ops (wins ?s z))"
    using ops [OF assms(2)] assms(3) by simp_all
  have max: "wins_are Z F (wm_maximize_toggle z ?s)" using ok_move(3) [OF zs(1) z] zs(2) ops by (intro wins_areI) simp_all
  have "wm_ok (upd_win z (\<lambda>w. w\<lparr>w_dragging := 1, w_drag_offset_x := ev_x ev - w_x w, w_drag_offset_y := ev_y ev - w_y w\<rparr>)
      (?s\<lparr>wm_dragging := z\<rparr>)) zs" by (rule ok_upd [OF ok_dragging [OF zs(1) z]]) simp
  then have drag: "wins_are Z F (upd_win z (\<lambda>w. w\<lparr>w_dragging := 1, w_drag_offset_x := ev_x ev - w_x w, w_drag_offset_y := ev_y ev - w_y w\<rparr>)
      (?s\<lparr>wm_dragging := z\<rparr>))"
    using zs(2) ops by (intro wins_areI) auto
  show ?thesis
    unfolding press_on_def Let_def fst_conv snd_conv close_hides [OF o(3)]
    using f are_hide [OF f] max drag o(1,2) by (auto split: if_split)
qed

lemma event_keeps:
  assumes "wins_are Z F s" "\<And>z. z \<in> Z \<Longrightarrow> good_ops (F z)"
  shows "\<exists>s'. wm_event (desk_calls P) ev (s, r) = Some (s', r) \<and> wins_are Z F s'"
proof -
  define now before where "now \<longleftrightarrow> ev_buttons ev AND MOUSE_BUTTON_LEFT \<noteq> 0" and "before \<longleftrightarrow> wm_last_buttons s AND MOUSE_BUTTON_LEFT \<noteq> 0"
  obtain s1 where 1: "(if now \<and> \<not> before then wm_pressed (desk_calls P) ev (s, r) else Some (s, r)) = Some (s1, r)" "wins_are Z F s1"
  proof (cases "now \<and> \<not> before")
    case True
    obtain zs where zs: "wm_ok s zs" "set zs = Z" using assms(1) by (auto simp: wins_are_def)
    then have find: "wm_find_topmost s (ev_x ev) (ev_y ev) = Some (topmost s zs (ev_x ev) (ev_y ev))"
      by (intro find_topmost_list) (simp add: wm_ok_def)
    let ?t = "topmost s zs (ev_x ev) (ev_y ev)"
    have "\<exists>s1. wm_pressed (desk_calls P) ev (s, r) = Some (s1, r) \<and> wins_are Z F s1"
    proof (cases "?t = 0")
      case False
      then have "?t \<in> Z" using topmost_in [of s zs "ev_x ev" "ev_y ev"] zs(2) by simp
      from press_keeps [OF assms(1) this assms(2) [OF this], of P ev r] False show ?thesis by (auto simp: wm_pressed_def find)
    qed (use assms(1) in \<open>simp add: wm_pressed_def find\<close>)
    then show ?thesis using that True by auto
  next
    case False
    then have "(if now \<and> \<not> before then wm_pressed (desk_calls P) ev (s, r) else Some (s, r)) = Some (s, r)" by (rule if_not_P)
    then show ?thesis using that assms(1) by blast
  qed
  have rel: "wm_released (desk_calls P) ev (s1, r) = (drag_end s1, r)" "wins_are Z F (drag_end s1)"
  proof -
    obtain zs where zs: "wm_ok s1 zs" "set zs = Z" "\<And>z. z \<in> Z \<Longrightarrow> w_ops (wins s1 z) = F z" using 1(2) by (auto simp: wins_are_def)
    have e: "wm_ok (drag_end s1) zs" unfolding drag_end_def using zs(1) by (intro ok_dragging) (auto intro: ok_upd)
    then show "wins_are Z F (drag_end s1)" using zs by (intro wins_areI) auto
    have "wm_focused (drag_end s1) \<in> insert 0 Z" using e zs(2) by (simp add: wm_ok_def)
    then have "wm_focused (drag_end s1) = 0 \<or> op_click (w_ops (wins s1 (wm_focused (drag_end s1)))) = 0"
      using zs(3) assms(2) by (auto simp: good_ops_def)
    then show "wm_released (desk_calls P) ev (s1, r) = (drag_end s1, r)" by (auto simp: released_eq Let_def)
  qed
  define s2 where "s2 = (if \<not> now \<and> before then drag_end s1 else s1)"
  have 2: "(if \<not> now \<and> before then wm_released (desk_calls P) ev (s1, r) else (s1, r)) = (s2, r)" "wins_are Z F s2"
    using rel 1(2) by (simp_all add: s2_def)
  obtain zs where zs: "wm_ok s2 zs" "set zs = Z" "\<And>z. z \<in> Z \<Longrightarrow> w_ops (wins s2 z) = F z" using 2(2) by (auto simp: wins_are_def)
  have "wm_ok (wm_drag ev s2) zs"
  proof (cases "wm_dragging s2 = 0")
    case False
    have "wm_dragging s2 \<in> insert 0 (set zs)" using zs(1) by (simp add: wm_ok_def)
    from ok_bounds [OF zs(1) this, of "\<lambda>w. w\<lparr>w_x := ev_x ev - w_drag_offset_x w, w_y := ev_y ev - w_drag_offset_y w\<rparr>"] False
    show ?thesis by (simp add: wm_drag_def Let_def)
  qed (use zs(1) in \<open>simp add: wm_drag_def\<close>)
  then have "wins_are Z F ((wm_drag ev s2)\<lparr>wm_last_buttons := ev_buttons ev\<rparr>)" using zs(2,3) by (intro wins_areI) (auto simp: wm_ok_def)
  moreover have "wm_event (desk_calls P) ev (s, r) = Some ((wm_drag ev s2)\<lparr>wm_last_buttons := ev_buttons ev\<rparr>, r)"
    unfolding wm_event_def Let_def fst_conv now_def [symmetric] before_def [symmetric] 1(1) option.case 2(1) snd_conv by (rule refl)
  ultimately show ?thesis by blast
qed

lemma update_keeps:
  assumes "wins_are Z F s" "\<And>z. z \<in> Z \<Longrightarrow> good_ops (F z)" "mouse_inv ms"
  shows "\<exists>ms' s'. wm_update (desk_calls P) ms (s, r) = Some (ms', s', r) \<and> mouse_inv ms' \<and> mouse_events ms' = [] \<and> wins_are Z F s'"
  using assms(1,3)
proof (induction "length (mouse_events ms)" arbitrary: ms s)
  case 0
  then have "mouse_read_event ms = None" using mouse_fifo.deq_None by simp
  then show ?case using 0 by (subst wm_update.simps) auto
next
  case (Suc n)
  then obtain ev ms1 where r: "mouse_read_event ms = Some (ev, ms1)"
    using mouse_fifo.deq_None [OF Suc.prems(2)] by (metis length_0_conv nat.distinct(1) not_None_eq surj_pair)
  have m: "mouse_inv ms1" "mouse_events ms = ev # mouse_events ms1" using mouse_fifo.deq_Some [OF Suc.prems(2) r] by auto
  obtain s1 where e: "wm_event (desk_calls P) ev (s, r) = Some (s1, r)" "wins_are Z F s1"
    using event_keeps [OF Suc.prems(1) assms(2)] by blast
  have "n = length (mouse_events ms1)" using Suc.hyps(2) m by simp
  from Suc.hyps(1) [OF this e(2) m(1)] show ?case by (subst wm_update.simps) (simp add: r e(1))
qed

section \<open>Keys\<close>

text \<open>The key function of the window with the focus, 0 when there is none or it is hidden.\<close>

definition focus_key :: "wm \<Rightarrow> u32" where
  "focus_key s =
     (let f = wm_focused s in if f \<noteq> 0 \<and> w_visible (wins s f) \<noteq> 0 then op_key (w_ops (wins s f)) else 0)"

text \<open>What a sequence of keys means to the application with the focus.\<close>

definition app_keys :: "'m ports \<Rightarrow> wm \<Rightarrow> u16 list \<Rightarrow> 'm desk \<Rightarrow> 'm desk outcome" where
  "app_keys P s ks d =
     (if focus_key s = term_on_key_ptr then term_keys P (wm_heap s) ks d
      else if focus_key s = editor_on_key_ptr then Running (fold editor_on_key ks d) else Running d)"

lemma deliver_key:
  assumes "focus_key s \<in> {0, term_on_key_ptr, editor_on_key_ptr}"
  shows "wm_deliver_key (desk_calls P) k (s, Running d) = (s, app_keys P s [k] d)"
  using assms by (auto simp: wm_deliver_key_def focus_key_def app_keys_def desk_calls_def Let_def split: if_splits outcome.split)

lemma app_keys_Cons: "app_keys P s (k # ks) d = (case app_keys P s [k] d of Running d \<Rightarrow> app_keys P s ks d | r \<Rightarrow> r)"
  by (auto simp: app_keys_def split: outcome.split)

lemma keys_delivered:
  assumes "focus_key s \<in> {0, term_on_key_ptr, editor_on_key_ptr}" "kbd_inv kb"
  shows "\<exists>kb'. desktop_keys P kb (s, Running d) = Some (kb', s, app_keys P s (kbd_keys kb) d) \<and> kbd_inv kb' \<and>
    (\<forall>e. app_keys P s (kbd_keys kb) d = Running e \<longrightarrow> kbd_keys kb' = [])"
  using assms(2)
proof (induction "kbd_keys kb" arbitrary: kb d)
  case Nil
  then have "keyboard_getkey kb = None" using key_fifo.deq_None [of kb] by simp
  then have "\<not> keyboard_has_input kb" by (auto simp: keyboard_getkey_def split: if_splits)
  moreover have "app_keys P s [] d = Running d" by (simp add: app_keys_def)
  ultimately show ?case using Nil by (subst desktop_keys.simps) auto
next
  case (Cons k ks)
  have "keyboard_getkey kb \<noteq> None" using key_fifo.deq_None [OF Cons(3)] Cons(2) [symmetric] by simp
  then obtain k' kb1 where "keyboard_getkey kb = Some (k', kb1)" by force
  then have get: "keyboard_getkey kb = Some (k, kb1)" "kbd_inv kb1" "kbd_keys kb1 = ks"
    using key_fifo.deq_Some [OF Cons(3)] Cons(2) [symmetric] by auto
  have has: "keyboard_has_input kb" using get(1) by (auto simp: keyboard_getkey_def split: if_splits)
  note step = deliver_key [OF assms(1), of P k d]
  show ?case
  proof (cases "app_keys P s [k] d")
    case (Running e)
    obtain kb' where "desktop_keys P kb1 (s, Running e) = Some (kb', s, app_keys P s ks e)" "kbd_inv kb'"
        "\<forall>f. app_keys P s ks e = Running f \<longrightarrow> kbd_keys kb' = []"
      using Cons(1) [OF get(3) [symmetric] get(2), of e] get(3) by auto
    then show ?thesis using Running Cons(2) [symmetric]
      by (intro exI [of _ kb'], subst desktop_keys.simps) (simp add: has get step app_keys_Cons [of P s k ks d])
  next
    case (Halted e)
    have "desktop_keys P kb1 (s, Halted e) = Some (kb1, s, Halted e)" by (subst desktop_keys.simps) simp
    then show ?thesis using Halted Cons(2) [symmetric] get(2)
      by (intro exI [of _ kb1], subst desktop_keys.simps) (simp add: has get step app_keys_Cons [of P s k ks d])
  next
    case Stuck
    have "desktop_keys P kb1 (s, Stuck) = Some (kb1, s, Stuck)" by (subst desktop_keys.simps) simp
    then show ?thesis using Stuck Cons(2) [symmetric] get(2)
      by (intro exI [of _ kb1], subst desktop_keys.simps) (simp add: has get step app_keys_Cons [of P s k ks d])
  qed
qed

section \<open>The invariant\<close>

text \<open>
  Window manager and desktop together: both are well formed, the windows of the applications are different
  open windows (or NULL), and every open window has functions the desktop registered.
\<close>

definition desk_inv :: "wm \<Rightarrow> 'm desk \<Rightarrow> u32 list \<Rightarrow> bool" where
  "desk_inv s d zs \<longleftrightarrow> wm_ok s zs \<and> desk_ok d \<and> sched_wf (d_sched d) \<and>
     set (app_wins d) \<subseteq> insert 0 (set zs) \<and> distinct (filter (\<lambda>z. z \<noteq> 0) (app_wins d)) \<and> (\<forall>z \<in> set zs. good_ops (w_ops (wins s z)))"

lemma desk_inv_focus:
  assumes "desk_inv s d zs"
  shows "focus_key s \<in> {0, term_on_key_ptr, editor_on_key_ptr}"
proof -
  have "wm_focused s \<in> insert 0 (set zs)" using assms by (simp add: desk_inv_def wm_ok_def)
  with assms show ?thesis by (auto simp: desk_inv_def focus_key_def Let_def good_ops_def)
qed

text \<open>
  C22. The keys that wait reach the right application in the right order: between two turns, the desktop hands
  every key of the keyboard driver's queue, oldest first, to the window that has the focus and is visible,
  and to no other; the queue is empty afterwards unless a key halted the machine.
\<close>

theorem keys_reach_focus:
  assumes "desk_inv s d zs" "kbd_inv kb"
  shows "\<exists>kb'. desktop_keys P kb (s, Running d) = Some (kb', s, app_keys P s (kbd_keys kb) d) \<and> kbd_inv kb' \<and>
    (kbd_keys kb' = [] \<or> (\<forall>e. app_keys P s (kbd_keys kb) d \<noteq> Running e))"
  using keys_delivered [OF desk_inv_focus [OF assms(1)] assms(2), of P d] by (metis outcome.exhaust)

section \<open>Opening and closing applications\<close>

lemma nth_distinct_wins:
  assumes "distinct (filter (\<lambda>z. z \<noteq> 0) ws)" "i < length ws" "j < length ws" "ws ! i = ws ! j" "ws ! i \<noteq> (0 :: u32)"
  shows "i = j"
  using assms
proof (induction ws arbitrary: i j)
  case (Cons w ws)
  then show ?case by (cases i; cases j) (auto split: if_splits dest: nth_mem)
qed simp

lemma distinct_wins_update:
  assumes "distinct (filter (\<lambda>z. z \<noteq> 0) ws)" "z \<notin> set ws"
  shows "distinct (filter (\<lambda>z. z \<noteq> 0) (ws[i := (z :: u32)]))"
  using assms
proof (induction ws arbitrary: i)
  case (Cons w ws)
  then show ?case by (cases i) (auto split: if_splits dest!: subsetD [OF set_update_subset_insert])
qed simp

lemma app_window_good:
  assumes "app_window i t = Some (w, h, ops, bg)"
  shows "good_ops ops"
  using assms by (auto simp: app_window_def good_ops_def no_ops_def split: if_splits)

lemma app_window_some: "0 \<le> i \<Longrightarrow> i < 4 \<Longrightarrow> \<exists>w h ops bg. app_window i t = Some (w, h, ops, bg)"
  by (simp add: app_window_def)

text \<open>What a creation leaves of the other windows.\<close>

lemma create_parts:
  assumes "wm_create_window x y w h t s = Some (z, s')" "z \<noteq> 0"
  shows "a \<noteq> z \<Longrightarrow> w_ops (wins s' a) = w_ops (wins s a) \<and> w_visible (wins s' a) = w_visible (wins s a)" "w_visible (wins s' z) = 1"
  using assms by (auto simp: wm_create_window_def wm_copy_title_def Let_def split: option.splits if_splits)

lemma create_app:
  assumes inv: "desk_inv s d zs" and i: "0 \<le> i" "i < 4" "app_wins d ! nat i = 0"
  obtains "desktop_create_app i (s, d) = Some (s, d)" "\<exists>k. kmalloc sizeof_wm_window (wm_heap s) = Some (0, k)"
  | z s' where "desktop_create_app i (s, d) = Some (s', d\<lparr>app_wins := (app_wins d)[nat i := z]\<rparr>)" "z \<noteq> 0" "z \<notin> set zs"
    "desk_inv s' (d\<lparr>app_wins := (app_wins d)[nat i := z]\<rparr>) (zs @ [z])" "wm_focused s' = z" "w_visible (wins s' z) = 1"
    "\<And>a. a \<noteq> z \<Longrightarrow> w_visible (wins s' a) = w_visible (wins s a)"
    "\<And>w h ops bg. app_window i (th d) = Some (w, h, ops, bg) \<Longrightarrow> w_ops (wins s' z) = ops"
    "\<exists>k. kmalloc sizeof_wm_window (wm_heap s) = Some (z, k)"
proof -
  obtain w h ops bg where app: "app_window i (th d) = Some (w, h, ops, bg)" using app_window_some [OF i(1,2)] by blast
  define x where "x = (if w < gfx_w s then (gfx_w s - w) div 2 else 0) + (of_int i - 1) * 30"
  define y where "y = (if h + TB_HEIGHT + 40 < gfx_h s then (gfx_h s - h - TB_HEIGHT - 40) div 2 else 0) + (of_int i - 1) * 20"
  obtain z s1 where c: "wm_create_window x y w h (Some (ascii (fst (tb_apps ! nat i)))) s = Some (z, s1)"
      "if z = 0 then s1 = s else z \<notin> set zs \<and> wm_focused s1 = z \<and> wm_ok s1 (zs @ [z])"
    using ok_create [of s zs] inv unfolding desk_inv_def by blast
  have call: "desktop_create_app i (s, d) = (if z = 0 then Some (s1, d)
      else Some (wm_set_ops z (Some ops) 0 (wm_set_background z bg s1), d\<lparr>app_wins := (app_wins d)[nat i := z]\<rparr>))"
    using c(1) by (simp add: desktop_create_app_def app x_def y_def Let_def)
  show thesis
  proof (cases "z = 0")
    case True
    then show ?thesis using that(1) call c(2) create_pointer [OF c(1)] by simp
  next
    case False
    note ptr = create_pointer [OF c(1)]
    from False have c2: "z \<notin> set zs" "wm_focused s1 = z" "wm_ok s1 (zs @ [z])" using c(2) by auto
    let ?s = "wm_set_ops z (Some ops) 0 (wm_set_background z bg s1)"
    let ?d = "d\<lparr>app_wins := (app_wins d)[nat i := z]\<rparr>"
    have ok: "wm_ok ?s (zs @ [z])"
      using False c2(3) by (auto simp: wm_set_ops_def wm_set_background_def intro!: ok_upd)
    have f: "wm_focused ?s = z" "w_visible (wins ?s z) = 1" "\<And>a. w_visible (wins ?s a) = w_visible (wins s1 a)"
        "\<And>a. w_ops (wins ?s a) = (if a = z then ops else w_ops (wins s1 a))"
      using False c2(2) create_parts(2) [OF c(1) False] by (auto simp: wm_set_ops_def wm_set_background_def)
    have "set (app_wins ?d) \<subseteq> insert 0 (set (zs @ [z]))"
      using inv subsetD [OF set_update_subset_insert, of _ "app_wins d" "nat i" z] by (auto simp: desk_inv_def)
    moreover have "distinct (filter (\<lambda>z. z \<noteq> 0) (app_wins ?d))"
      using inv c2(1) False by (simp add: desk_inv_def) (rule distinct_wins_update, auto)
    moreover have "desk_ok ?d" using inv term_ok_cong [of ?d d] by (simp add: desk_inv_def desk_ok_def)
    ultimately have "desk_inv ?s ?d (zs @ [z])"
      using ok inv f(4) c2(1) create_parts(1) [OF c(1) False] app_window_good [OF app] by (auto simp: desk_inv_def)
    then show ?thesis
      using that(2) [of ?s z] call False c2(1) f create_parts(1) [OF c(1) False] app ptr by simp
  qed
qed

text \<open>An application is shown when its window is open and visible.\<close>

definition shown :: "wm \<Rightarrow> 'm desk \<Rightarrow> nat \<Rightarrow> bool" where
  "shown s d i \<longleftrightarrow> app_wins d ! i \<noteq> 0 \<and> wm_is_visible (app_wins d ! i) s \<noteq> 0"

lemma shown_same:
  assumes "desk_inv s d zs" "\<And>a. a \<noteq> app_wins d ! i \<Longrightarrow> w_visible (wins s' a) = w_visible (wins s a)" "j < 4" "j \<noteq> i" "i < 4"
  shows "shown s' d j = shown s d j"
proof (cases "app_wins d ! j = 0")
  case False
  have "distinct (filter (\<lambda>z. z \<noteq> 0) (app_wins d))" "length (app_wins d) = 4" using assms(1) by (simp_all add: desk_inv_def desk_ok_def)
  then have "app_wins d ! j \<noteq> app_wins d ! i" using nth_distinct_wins [of "app_wins d" j i] assms(3-5) False by auto
  then show ?thesis using assms(2) by (simp add: shown_def wm_is_visible_def)
qed (simp add: shown_def)

lemma desk_inv_show_focus:
  assumes "desk_inv s d zs" "z \<in> set zs"
  shows "desk_inv (wm_focus_window z s) d (raise_win z zs)" "desk_inv (wm_show_window z s) d zs" "desk_inv (wm_hide_window z s) d zs"
proof -
  have "distinct zs" using assms(1) by (simp add: desk_inv_def wm_ok_def zlist_def)
  then have "set (raise_win z zs) = set zs" using assms(2) by simp
  then show "desk_inv (wm_focus_window z s) d (raise_win z zs)"
    using assms ok_focus [of s zs z] by (simp add: desk_inv_def wm_focus_window_def)
  have "wm_ok (wm_show_window z s) zs" using assms(1) by (auto simp: desk_inv_def wm_show_window_def intro!: ok_upd)
  then show "desk_inv (wm_show_window z s) d zs" using assms(1) by (simp add: desk_inv_def)
  show "desk_inv (wm_hide_window z s) d zs" using assms(1) ok_hide [of s zs z] by (simp add: desk_inv_def)
qed

lemma raise_last: "z \<noteq> 0 \<Longrightarrow> last (raise_win z zs) = z"
  by (simp add: raise_win_def)

lemma app_member:
  assumes "desk_inv s d zs" "j < 4" "app_wins d ! j \<noteq> 0"
  shows "app_wins d ! j \<in> set zs"
proof -
  have "app_wins d ! j \<in> set (app_wins d)" using assms by (simp add: desk_inv_def desk_ok_def)
  with assms(1,3) show ?thesis unfolding desk_inv_def by blast
qed

lemma toggle_open:
  assumes inv: "desk_inv s d zs" and i: "0 \<le> i" "i < 4" and z: "z = app_wins d ! nat i" "z \<noteq> 0"
  shows "\<exists>s' zs'. desktop_toggle_app i (s, d) = Some (s', d) \<and> desk_inv s' d zs' \<and>
    (\<forall>a. a \<noteq> z \<longrightarrow> w_visible (wins s' a) = w_visible (wins s a)) \<and>
    (if shown s d (nat i) then \<not> shown s' d (nat i) else shown s' d (nat i) \<and> wm_focused s' = z \<and> last zs' = z)"
proof (cases "shown s d (nat i)")
  case True
  have "z \<in> set zs" using app_member [OF inv, of "nat i"] i z by simp
  note inv' = desk_inv_show_focus(3) [OF inv this]
  have "desktop_toggle_app i (s, d) = Some (wm_hide_window z s, d)"
    using True z i by (simp add: desktop_toggle_app_def desktop_close_app_def shown_def)
  moreover have "w_visible (wins (wm_hide_window z s) a) = (if a = z then 0 else w_visible (wins s a))" for a
    using z(2) by (simp add: wm_hide_window_def Let_def)
  ultimately show ?thesis using inv' True z(1) by (auto simp: shown_def wm_is_visible_def)
next
  case False
  have m: "z \<in> set zs" using app_member [OF inv, of "nat i"] i z by simp
  have "desk_inv (wm_focus_window z (wm_show_window z s)) d (raise_win z zs)"
    by (rule desk_inv_show_focus(1) [OF desk_inv_show_focus(2) [OF inv m] m])
  then show ?thesis using False z i raise_last [OF z(2)]
    by (intro exI [of _ "wm_focus_window z (wm_show_window z s)"] exI [of _ "raise_win z zs"])
      (auto simp: desktop_toggle_app_def desktop_open_app_def shown_def wm_is_visible_def wm_show_window_def wm_focus_window_def Let_def)
qed

lemma toggle_new:
  assumes inv: "desk_inv s d zs" and i: "0 \<le> i" "i < 4" and z: "app_wins d ! nat i = 0"
  shows "desktop_toggle_app i (s, d) = Some (s, d) \<or>
    (\<exists>s' z zs'. desktop_toggle_app i (s, d) = Some (s', d\<lparr>app_wins := (app_wins d)[nat i := z]\<rparr>) \<and>
      desk_inv s' (d\<lparr>app_wins := (app_wins d)[nat i := z]\<rparr>) zs' \<and> z \<noteq> 0 \<and> z \<notin> set zs \<and> wm_focused s' = z \<and> last zs' = z \<and>
      w_visible (wins s' z) = 1 \<and> (\<forall>a. a \<noteq> z \<longrightarrow> w_visible (wins s' a) = w_visible (wins s a)))"
proof (rule create_app [OF inv i z])
  assume "desktop_create_app i (s, d) = Some (s, d)"
  then show ?thesis using z i by (simp add: desktop_toggle_app_def desktop_open_app_def Let_def)
next
  fix z' s'
  let ?d = "d\<lparr>app_wins := (app_wins d)[nat i := z']\<rparr>"
  assume c: "desktop_create_app i (s, d) = Some (s', ?d)" "z' \<noteq> 0" "z' \<notin> set zs" "desk_inv s' ?d (zs @ [z'])"
    "wm_focused s' = z'" "w_visible (wins s' z') = 1" "\<And>a. a \<noteq> z' \<Longrightarrow> w_visible (wins s' a) = w_visible (wins s a)"
  have "app_wins ?d ! nat i = z'" using inv i by (simp add: desk_inv_def desk_ok_def)
  then have "desktop_toggle_app i (s, d) = Some (wm_focus_window z' s', ?d)"
    using z i c(1,2,6) by (simp add: desktop_toggle_app_def desktop_open_app_def Let_def wm_is_visible_def)
  moreover have "desk_inv (wm_focus_window z' s') ?d (raise_win z' (zs @ [z']))" by (rule desk_inv_show_focus(1) [OF c(4)]) simp
  ultimately show ?thesis using c raise_last [OF c(2)] by (auto simp: wm_focus_window_def)
qed


section \<open>A turn\<close>

text \<open>
  How a turn that started in \<open>d\<close> may end: running with the invariant, halted with interrupts off, or hung in
  the loop that waits for the keyboard controller before a reboot.
\<close>

definition safe_end :: "'m ports \<Rightarrow> 'm desk \<Rightarrow> wm \<Rightarrow> u32 list \<Rightarrow> 'm desk outcome \<Rightarrow> bool" where
  "safe_end P d s zs r =
     (case r of
        Running e \<Rightarrow> desk_inv s e zs \<and> d_port e = d_port d \<and> d_sched e = d_sched d
      | Halted e \<Rightarrow> \<not> d_interrupts e
      | Stuck \<Rightarrow> controller_wait P 0x02 (d_port d) = None)"

lemma desk_ok_flags [simp]:
  "desk_ok (d\<lparr>start_open := b\<rparr>) = desk_ok d" "desk_ok (d\<lparr>desktop_last_buttons := b\<rparr>) = desk_ok d"
  "desk_ok (d\<lparr>d_interrupts := f\<rparr>) = desk_ok d"
  by (simp_all add: desk_ok_def term_ok_def)

lemma desk_inv_flags [simp]:
  "desk_inv s (d\<lparr>start_open := b\<rparr>) zs = desk_inv s d zs" "desk_inv s (d\<lparr>desktop_last_buttons := b\<rparr>) zs = desk_inv s d zs"
  "desk_inv s (d\<lparr>d_interrupts := f\<rparr>) zs = desk_inv s d zs"
  by (simp_all add: desk_inv_def)

lemma desk_inv_cong: "desk_inv s d zs \<Longrightarrow> desk_ok e \<Longrightarrow> d_sched e = d_sched d \<Longrightarrow> app_wins e = app_wins d \<Longrightarrow> desk_inv s e zs"
  by (simp add: desk_inv_def)

lemma term_keys_safe: "desk_inv s d zs \<Longrightarrow> safe_end P d s zs (term_keys P (wm_heap s) ks d)"
proof (induction ks arbitrary: d)
  case Nil
  then show ?case by (simp add: safe_end_def)
next
  case (Cons k ks)
  have "desk_ok d" "heap_inv (wm_heap s)" "sched_wf (d_sched d)" using Cons.prems by (simp_all add: desk_inv_def wm_ok_def)
  from term_key_good [OF this, of P k] have g: "good_end P (if k = KEY_ENTER then term_text d else []) d (term_on_key P (wm_heap s) k d)" .
  show ?case
  proof (cases "term_on_key P (wm_heap s) k d")
    case (Running e)
    with g have "desk_inv s e zs" "d_port e = d_port d" "d_sched e = d_sched d" using desk_inv_cong [OF Cons.prems, of e] by (auto simp: good_end_def)
    with Cons.IH [of e] Running show ?thesis by (auto simp: safe_end_def split: outcome.split)
  qed (use g in \<open>auto simp: good_end_def safe_end_def\<close>)
qed

lemma editor_keys_safe: "desk_inv s d zs \<Longrightarrow> safe_end P d s zs (Running (fold editor_on_key ks d))"
proof (induction ks arbitrary: d)
  case Nil
  then show ?case by (simp add: safe_end_def)
next
  case (Cons k ks)
  have "desk_ok d" using Cons.prems by (simp add: desk_inv_def)
  from editor_key_becomes [OF this, of k] obtain b n where
    e: "desk_ok (editor_on_key k d)" "editor_on_key k d = d\<lparr>editor_buf := b, editor_len := n, editor_cursor := n\<rparr>"
    by (auto simp: editor_becomes_def)
  then have "desk_inv s (editor_on_key k d) zs" "d_port (editor_on_key k d) = d_port d" "d_sched (editor_on_key k d) = d_sched d"
    using desk_inv_cong [OF Cons.prems e(1)] by simp_all
  with Cons.IH [of "editor_on_key k d"] show ?case by (simp add: safe_end_def)
qed

lemma app_keys_safe: "desk_inv s d zs \<Longrightarrow> safe_end P d s zs (app_keys P s ks d)"
  using term_keys_safe [of s d zs P ks] editor_keys_safe [of s d zs P ks] by (simp add: app_keys_def) (simp add: safe_end_def)

lemma menu_safe: "desk_inv s d zs \<Longrightarrow> safe_end P d s zs (handle_start_menu_click P h mx my d)"
  by (auto simp: handle_start_menu_click_def safe_end_def power_shutdown_def power_reboot_def power_sleep_def Let_def split: option.split)

lemma pressed_safe:
  assumes inv: "desk_inv s d zs"
  shows "\<exists>s' r zs'. desktop_pressed P mx my (s, d) = Some (s', r) \<and> safe_end P d s' zs' r"
proof -
  have toggle: "\<exists>s' r zs'. map_option (\<lambda>(s, d). (s, Running d)) (desktop_toggle_app (int i) (s, d)) = Some (s', r) \<and> safe_end P d s' zs' r"
    if "i < 4" for i
  proof (cases "app_wins d ! i = 0")
    case True
    then show ?thesis using toggle_new [OF inv, of "int i"] that inv by (fastforce simp: safe_end_def)
  next
    case False
    then show ?thesis using toggle_open [OF inv, of "int i" "app_wins d ! i"] that by (fastforce simp: safe_end_def)
  qed
  let ?f = "find (\<lambda>i. hit mx my (app_btn_rect (gfx_h s) i)) [0..<APP_COUNT]"
  have run: "safe_end P d s zs (Running d)" "safe_end P d s zs (Running (d\<lparr>start_open := 1\<rparr>))" using inv by (simp_all add: safe_end_def)
  consider (menu) "start_open d \<noteq> 0" | (start) "start_open d = 0" "hit mx my (start_btn_rect (gfx_h s))"
    | (none) "start_open d = 0" "\<not> hit mx my (start_btn_rect (gfx_h s))" "?f = None"
    | (app) i where "start_open d = 0" "\<not> hit mx my (start_btn_rect (gfx_h s))" "?f = Some i" by fastforce
  then show ?thesis
  proof cases
    case menu
    then show ?thesis using menu_safe [OF inv] unfolding desktop_pressed_def by fastforce
  next
    case app
    then have "i < 4" by (auto simp: find_Some_iff)
    then show ?thesis using app toggle by (simp add: desktop_pressed_def)
  qed (use run in \<open>auto simp: desktop_pressed_def\<close>)
qed

text \<open>
  A turn of the desktop is safe. From any state in which window manager, desktop, keyboard queue and mouse
  queue are well formed, \<open>desktop_update\<close> has a result, whatever keys and mouse events wait: either the
  desktop runs on with the whole invariant again, both queues empty and the buttons remembered, or a power
  command halted the machine with interrupts off; it hangs only where a reboot waits for a keyboard
  controller that never becomes ready.
\<close>

lemma desktop_turn:
  assumes "desk_inv s d zs" "mouse_inv ms" "kbd_inv kb"
  shows "\<exists>ms' kb' s' r. desktop_update P (ms, kb, s, d) = Some (ms', kb', s', r) \<and> mouse_inv ms' \<and> kbd_inv kb' \<and>
    (case r of
       Running e \<Rightarrow> (\<exists>zs'. desk_inv s' e zs') \<and> d_sched e = d_sched d \<and> kbd_keys kb' = [] \<and> mouse_events ms' = [] \<and> desktop_last_buttons e = mouse_buttons ms
     | Halted e \<Rightarrow> \<not> d_interrupts e
     | Stuck \<Rightarrow> controller_wait P 0x02 (d_port d) = None)"
proof -
  define pressed where "pressed \<longleftrightarrow> mouse_buttons ms AND MOUSE_BUTTON_LEFT \<noteq> 0 \<and> desktop_last_buttons d AND MOUSE_BUTTON_LEFT = 0"
  let ?go = "\<lambda>r. case r of Running d \<Rightarrow> if pressed then desktop_pressed P (mouse_x ms) (mouse_y ms) (s, d) else Some (s, r) | _ \<Rightarrow> Some (s, r)"
  obtain kb' where k: "desktop_keys P kb (s, Running d) = Some (kb', s, app_keys P s (kbd_keys kb) d)" "kbd_inv kb'"
      "\<And>e. app_keys P s (kbd_keys kb) d = Running e \<Longrightarrow> kbd_keys kb' = []"
    using keys_delivered [OF desk_inv_focus [OF assms(1)] assms(3), of P d] by blast
  note keys_safe = app_keys_safe [OF assms(1), of P "kbd_keys kb"]
  have turn: "desktop_update P (ms, kb, s, d) = (case ?go (app_keys P s (kbd_keys kb) d) of None \<Rightarrow> None
      | Some st \<Rightarrow> map_option (\<lambda>(ms, st). (ms, kb', st)) (desktop_windows P (mouse_buttons ms) ms st))"
    unfolding pressed_def by (simp add: desktop_update_def mouse_get_position_def mouse_get_buttons_def Let_def k(1))
  obtain s1 r1 zs1 where 1: "?go (app_keys P s (kbd_keys kb) d) = Some (s1, r1)" "safe_end P d s1 zs1 r1"
    "\<And>e. r1 = Running e \<Longrightarrow> kbd_keys kb' = []"
  proof (cases "app_keys P s (kbd_keys kb) d")
    case (Running e)
    then have e: "desk_inv s e zs" "d_port e = d_port d" "d_sched e = d_sched d" using keys_safe by (simp_all add: safe_end_def)
    obtain s' r zs' where p: "desktop_pressed P (mouse_x ms) (mouse_y ms) (s, e) = Some (s', r)" "safe_end P e s' zs' r"
      using pressed_safe [OF e(1)] by blast
    have "safe_end P d s' zs' r" using p(2) e(2,3) by (cases r) (simp_all add: safe_end_def)
    then show ?thesis using that [of s' r zs'] that [of s "Running e" zs] p(1) Running keys_safe k(3) by (cases pressed) auto
  qed (use that [of s _ zs] keys_safe in auto)
  show ?thesis
  proof (cases r1)
    case (Running e)
    let ?e = "e\<lparr>desktop_last_buttons := mouse_buttons ms\<rparr>"
    from Running 1(2) have e: "desk_inv s1 e zs1" "d_sched e = d_sched d" by (simp_all add: safe_end_def)
    have "wins_are (set zs1) (\<lambda>z. w_ops (wins s1 z)) s1" "\<And>z. z \<in> set zs1 \<Longrightarrow> good_ops (w_ops (wins s1 z))"
      using e(1) by (auto simp: wins_are_def desk_inv_def)
    from update_keeps [OF this assms(2), of P "Running ?e"] obtain ms' s' where
      u: "wm_update (desk_calls P) ms (s1, Running ?e) = Some (ms', s', Running ?e)" "mouse_inv ms'" "mouse_events ms' = []"
        "wins_are (set zs1) (\<lambda>z. w_ops (wins s1 z)) s'" by blast
    then obtain zs2 where z2: "wm_ok s' zs2" "set zs2 = set zs1" "\<And>z. z \<in> set zs1 \<Longrightarrow> w_ops (wins s' z) = w_ops (wins s1 z)"
      by (auto simp: wins_are_def)
    then have "desk_inv s' ?e zs2" using e(1) by (auto simp: desk_inv_def)
    then show ?thesis using turn 1(1,3) Running u(1-3) k(2) e(2) by (auto simp: desktop_windows_def)
  qed (use turn 1 k(2) assms(2) in \<open>auto simp: desktop_windows_def safe_end_def\<close>)
qed

section \<open>After the start\<close>

lemma clear_wins: "length ws = 4 \<Longrightarrow> fold (\<lambda>i ws. ws[i := 0]) [0..<4] ws = replicate 4 (0 :: u32)"
  by (auto simp: numeral_eq_Suc length_Suc_conv)

lemma reserve_empty:
  assumes "wm_ok s []"
  shows "wm_set_reserved_bottom h s = Some (s\<lparr>wm_reserved_bottom := h\<rparr>)" "wm_ok (s\<lparr>wm_reserved_bottom := h\<rparr>) []"
proof -
  have h: "wm_head s = 0" using assms by (simp add: wm_ok_def zlist_def)
  have "wm_refresh_screen (s\<lparr>wm_reserved_bottom := h\<rparr>) = s\<lparr>wm_reserved_bottom := h\<rparr>"
    using assms by (simp add: wm_ok_def wm_refresh_screen_def)
  then show "wm_set_reserved_bottom h s = Some (s\<lparr>wm_reserved_bottom := h\<rparr>)"
    using h by (simp add: wm_set_reserved_bottom_def bounds_from.simps)
  show "wm_ok (s\<lparr>wm_reserved_bottom := h\<rparr>) []" using assms by (simp add: wm_ok_def)
qed

text \<open>\<open>desktop_init\<close> establishes the invariant; with room for a window, the terminal has the focus.\<close>

lemma desktop_init_ready:
  assumes "wm_ok s []" "desk_ok d" "sched_wf (d_sched d)"
  obtains s' d' zs where "desktop_init (s, d) = Some (s', d')" "desk_inv s' d' zs" "term_text d' = []" "start_open d' = 0"
    "desktop_last_buttons d' = 0" "d_port d' = d_port d" "d_sched d' = d_sched d"
    "(\<exists>z k. kmalloc sizeof_wm_window (wm_heap s) = Some (z, k) \<and> z \<noteq> 0) \<Longrightarrow> shown s' d' 0 \<and> focus_key s' = term_on_key_ptr"
proof -
  define d1 where "d1 = d\<lparr>th := tetos_theme, app_wins := replicate 4 0, term_line_count := 0, term_input_len := 0,
    term_input := (term_input d)[0 := 0], editor_len := 0, editor_cursor := 0, editor_buf := (editor_buf d)[0 := 0]\<rparr>"
  define d2 where "d2 = term_push (lit ''tetOS terminal ready. Type \\'help\\'.'') (graphics_rgb 200 230 255) d1"
  let ?s = "s\<lparr>wm_reserved_bottom := TB_HEIGHT\<rparr>"
  have ne: "term_input d \<noteq> []" "editor_buf d \<noteq> []" using assms(2) by (auto simp: desk_ok_def)
  have d1: "desk_ok d1"
    using assms(2) holds_start [OF ne(1)] holds_start [OF ne(2)] by (simp add: desk_ok_def d1_def term_ok_def)
  have "printed d1 d2" unfolding d2_def by (rule printed_push) (rule printed_refl)
  from printed_ok [OF this d1]
  have d2: "desk_ok d2" "d_sched d2 = d_sched d" "app_wins d2 = replicate 4 0" "term_text d2 = []" "d_port d2 = d_port d"
    by (simp_all add: d1_def term_text_def)
  have inv: "desk_inv ?s d2 []"
    using reserve_empty(2) [OF assms(1)] d2 assms(3) by (simp add: desk_inv_def)
  have init: "desktop_init (s, d) = map_option (\<lambda>(s, d). (wm_focus_window (app_wins d ! 0) s, d\<lparr>desktop_last_buttons := 0, start_open := 0\<rparr>))
      (desktop_create_app 0 (?s, d2))"
  proof -
    have "length (app_wins d) = 4" using assms(2) by (simp add: desk_ok_def)
    from clear_wins [OF this] show ?thesis
      by (simp add: desktop_init_def reserve_empty(1) [OF assms(1)] d2_def d1_def Let_def)
  qed
  show thesis
  proof (rule create_app [OF inv, of 0])
    assume c: "desktop_create_app 0 (?s, d2) = Some (?s, d2)" "\<exists>k. kmalloc sizeof_wm_window (wm_heap ?s) = Some (0, k)"
    let ?d = "d2\<lparr>desktop_last_buttons := 0, start_open := 0\<rparr>"
    have "desktop_init (s, d) = Some (wm_focus_window 0 ?s, ?d)" using init c(1) d2(3) by simp
    moreover have "desk_inv (wm_focus_window 0 ?s) ?d []"
      using inv ok_focus [of ?s "[]" 0] by (simp add: desk_inv_def wm_focus_window_def raise_win_def)
    ultimately show thesis using that [of "wm_focus_window 0 ?s" ?d "[]"] d2(2,4,5) c(2) by (auto simp: term_text_def)
  next
    fix z s'
    let ?d = "d2\<lparr>app_wins := (app_wins d2)[nat 0 := z]\<rparr>"
    let ?e = "?d\<lparr>desktop_last_buttons := 0, start_open := 0\<rparr>"
    assume c: "desktop_create_app 0 (?s, d2) = Some (s', ?d)" "z \<noteq> 0" "desk_inv s' ?d ([] @ [z])" "wm_focused s' = z" "w_visible (wins s' z) = 1"
      "\<And>w h ops bg. app_window 0 (th d2) = Some (w, h, ops, bg) \<Longrightarrow> w_ops (wins s' z) = ops"
    have at: "app_wins ?e ! 0 = z" using d2(3) by (simp add: numeral_eq_Suc)
    have "desktop_init (s, d) = Some (wm_focus_window z s', ?e)" using init c(1) at by simp
    moreover have "desk_inv (wm_focus_window z s') ?e (raise_win z ([] @ [z]))"
      using desk_inv_show_focus(1) [OF c(3), of z] by simp
    moreover have "shown (wm_focus_window z s') ?e 0" "focus_key (wm_focus_window z s') = term_on_key_ptr"
      using at c(2,5) c(6) by (auto simp: shown_def focus_key_def wm_is_visible_def wm_focus_window_def app_window_def)
    ultimately show thesis using that [of "wm_focus_window z s'" ?e] d2(2,4,5) by (simp add: term_text_def)
  qed (use d2(3) in simp_all)
qed

text \<open>The state after a start with room for a window, on a machine that logs the writes to its ports.\<close>

definition desk_demo :: "(u16 \<times> u8) list desk" where
  "desk_demo = desk_boot [] pmm_boot sched_boot \<lparr>ata_model = [], ata_sectors = 0, ata_present = 0\<rparr>"

lemma desk_demo_ok: "desk_ok desk_demo" "sched_wf (d_sched desk_demo)"
  unfolding desk_demo_def by (rule desk_boot_ok(1), rule desk_boot_sched)

lemma boot_desktop:
  obtains s d zs where "desktop_init (wm_boot, desk_demo) =
      Some (s, d)" "desk_inv s d zs" "term_text d = []" "start_open d = 0" "shown s d 0" "focus_key s = term_on_key_ptr" "d_sched d = sched_boot"
proof -
  have sc: "d_sched desk_demo = sched_boot" by (simp add: desk_demo_def desk_boot_def)
  have "wm_heap wm_boot = heap_boot" by (simp add: wm_boot_def wm_init_def wm_refresh_screen_def Let_def)
  moreover have "kmalloc sizeof_wm_window heap_boot = Some (0x400010, the (map_option snd (kmalloc sizeof_wm_window heap_boot)))"
    by (simp add: kmalloc_def heap_boot_def heap_init_def kmalloc_walk.simps)
  ultimately have "\<exists>z k. kmalloc sizeof_wm_window (wm_heap wm_boot) = Some (z, k) \<and> z \<noteq> 0" by auto
  then show thesis
    using desktop_init_ready [OF wm_boot_ok desk_demo_ok] that sc by metis
qed

theorem keys_reach_focus_witness:
  "\<exists>s d kb' e. desktop_init (wm_boot, desk_demo) = Some (s, d) \<and>
     desktop_keys (log_ports (\<lambda>_. 0)) (push_key 0x69 (push_key 0x68 kbd_boot)) (s, Running d) = Some (kb', s, Running e) \<and>
     kbd_keys kb' = [] \<and> term_text e = ascii ''hi''"
proof (rule boot_desktop)
  fix s d zs
  assume s: "desktop_init (wm_boot, desk_demo) = Some (s, d)"
    "desk_inv s d zs" "term_text d = []" "focus_key s = term_on_key_ptr"
  let ?P = "log_ports (\<lambda>_. 0)" and ?kb = "push_key 0x69 (push_key 0x68 kbd_boot)"
  have kb: "kbd_inv ?kb" "kbd_keys ?kb = [0x68, 0x69]"
    using kbd_inv_boot kbd_keys_boot key_fifo.invar_enq key_fifo.contents_enq by (simp_all add: key_fifo.invar_enq)
  obtain kb' where k: "desktop_keys ?P ?kb (s, Running d) = Some (kb', s, app_keys ?P s [0x68, 0x69] d)"
      "kbd_keys kb' = [] \<or> (\<forall>e. app_keys ?P s [0x68, 0x69] d \<noteq> Running e)"
    using keys_reach_focus [OF s(2) kb(1), of ?P] unfolding kb(2) by blast
  have ok: "desk_ok d" using s(2) by (simp add: desk_inv_def)
  from term_keys_typed [OF ok, of "[0x68, 0x69]" ?P "wm_heap s" "[]"] obtain b n where
    "term_keys ?P (wm_heap s) [0x68, 0x69] d = Running (d\<lparr>term_input := b, term_input_len := n\<rparr>)"
    "take (unat n) b = fold (type_key 63) [0x68, 0x69] []" by (auto simp: s(3))
  then have "app_keys ?P s [0x68, 0x69] d = Running (d\<lparr>term_input := b, term_input_len := n\<rparr>)"
    "term_text (d\<lparr>term_input := b, term_input_len := n\<rparr>) = ascii ''hi''"
    by (simp_all add: app_keys_def s(4) term_text_def type_key_def ascii_def)
  with k s(1) show ?thesis by auto
qed


end
