(* ===== verification/DesktopPicture.thy ===== *)
theory DesktopPicture
  imports DesktopDraw DesktopTurn
begin

text \<open>
  The picture the desktop shows: every window can be drawn, drawing changes nothing but pixels, and the
  layers lie over each other as they should (background and windows, taskbar, start menu, pointer).
\<close>

section \<open>Sizes\<close>

text \<open>Drawing keeps the size of the screen.\<close>

definition same_size :: "gfx \<Rightarrow> gfx \<Rightarrow> bool" where
  "same_size g g' \<longleftrightarrow> graphics_width g' = graphics_width g \<and> graphics_height g' = graphics_height g"

named_theorems sizes \<open>drawing operations keep the size of the screen\<close>

lemma same_size_refl [simp, sizes]: "same_size g g"
  by (simp add: same_size_def)

lemma same_size_trans: "same_size g h \<Longrightarrow> same_size h k \<Longrightarrow> same_size g k"
  by (simp add: same_size_def)

lemma same_size_screen: "same_size g g' \<Longrightarrow> gfx_ok g' = gfx_ok g \<and> on_screen g' = on_screen g"
  by (auto simp: same_size_def gfx_ok_def on_screen_def fun_eq_iff)

lemma size_fold [sizes]: "(\<And>x h. same_size g h \<Longrightarrow> same_size g (f x h)) \<Longrightarrow> same_size g h \<Longrightarrow> same_size g (fold f xs h)"
  by (induction xs arbitrary: h) auto

lemma size_pixel [sizes]: "same_size g h \<Longrightarrow> same_size g (graphics_set_pixel x y c h)"
  by (simp add: same_size_def)

lemma size_fill [sizes]: "same_size g h \<Longrightarrow> same_size g (graphics_fill_rect x y w b c h)"
  unfolding graphics_fill_rect_def by (intro size_fold size_pixel)

lemma size_char [sizes]: "same_size g h \<Longrightarrow> same_size g (graphics_draw_char x y c fg bg h)"
  unfolding graphics_draw_char_def by (intro size_fold size_pixel)

lemma size_string [sizes]: "same_size g h \<Longrightarrow> same_size g (graphics_draw_string x y t fg bg h)"
proof -
  have "same_size g h \<Longrightarrow> same_size g (draw_chars i x y t fg bg h)" for i
    by (induction t arbitrary: i h) (auto intro: size_char)
  then show "same_size g h \<Longrightarrow> same_size g (graphics_draw_string x y t fg bg h)" by (simp add: graphics_draw_string_def)
qed

lemma size_rect [sizes]: "same_size g h \<Longrightarrow> same_size g (wm_draw_rect x y w b c h)"
  unfolding wm_draw_rect_def Let_def by (auto intro!: size_fold size_pixel)

lemma size_frame [sizes]: "same_size g h \<Longrightarrow> same_size g (draw_frame pal w f h)"
  unfolding draw_frame_def wm_draw_title_button_def Let_def case_prod_beta
  by (auto intro!: size_rect size_fill size_string)

lemma size_button [sizes]: "same_size g h \<Longrightarrow> same_size g (draw_button r bg b t fg c h)"
  unfolding draw_button_def Let_def case_prod_beta by (auto intro!: size_fill size_string split: option.split)

lemma size_taskbar [sizes]: "same_size g h \<Longrightarrow> same_size g (draw_taskbar s d h)"
  unfolding draw_taskbar_def Let_def by (auto intro!: size_fill size_button size_fold)

lemma size_background: "same_size g (draw_background t g)"
  unfolding draw_background_def Let_def by (auto intro!: size_fill size_string size_fold)

lemma size_menu [sizes]: "same_size g h \<Longrightarrow> same_size g (draw_start_menu ms d h)"
  unfolding draw_start_menu_def Let_def case_prod_beta by (auto intro!: size_fill size_string size_fold)

lemma size_cursor [sizes]: "same_size g h \<Longrightarrow> same_size g (draw_cursor ms t h)"
  unfolding draw_cursor_def Let_def case_prod_beta by (auto intro!: size_pixel size_fold)

section \<open>The windows can be drawn\<close>

lemma draw_str_some: "terminated p \<Longrightarrow> same_size g h \<Longrightarrow> \<exists>k. draw_str x y p fg bg h = Some k \<and> same_size g k"
  by (simp add: draw_str_def c_string_def size_string)

lemma term_rows_some:
  "(\<And>i. i \<in> set is \<Longrightarrow> terminated (tl_text (term_lines d ! unat (first + of_nat i)))) \<Longrightarrow> same_size g h \<Longrightarrow>
   \<exists>k. term_rows d first cx cy is h = Some k \<and> same_size g k"
proof (induction "is" arbitrary: h)
  case (Cons i "is")
  obtain k where k: "draw_str (cx + 8) (cy + 6 + of_nat i * 12) (tl_text (term_lines d ! unat (first + of_nat i)))
      (tl_color (term_lines d ! unat (first + of_nat i))) (th_term_bg (th d)) h = Some k" "same_size g k"
    using draw_str_some [of "tl_text (term_lines d ! unat (first + of_nat i))" g h] Cons.prems by (meson list.set_intros(1))
  from Cons.IH [OF _ k(2)] Cons.prems(1) show ?case by (simp add: k(1) Let_def)
qed simp

lemma term_draw_some:
  assumes "desk_ok d" "same_size g h"
  shows "\<exists>k. term_on_draw r d h = Some k \<and> same_size g k"
proof -
  have ok: "length (term_lines d) = 128" "\<And>l. l \<in> set (take (unat (term_line_count d)) (term_lines d)) \<Longrightarrow> terminated (tl_text l)"
      "unat (term_line_count d) \<le> 128"
    using assms(1) by (auto simp: desk_ok_def term_ok_def word_le_nat_alt)
  have input: "terminated (term_input d)" using assms(1) by (auto simp: desk_ok_def holds_def in_set_conv_nth)
  have line: "terminated (tl_text (term_lines d ! unat n))" if "n < term_line_count d" for n
    using that ok by (intro ok(2)) (auto simp: in_set_conv_nth word_less_nat_alt intro!: exI [of _ "unat n"])
  have rows: "\<exists>k. term_rows d first cx cy (takeWhile (\<lambda>i. first + of_nat i < term_line_count d) [0..<m]) (graphics_fill_rect x y w b c h) =
      Some k \<and> same_size g k" for first cx cy m x y w b c
    by (intro term_rows_some size_fill assms(2) line) (auto dest: set_takeWhileD)
  obtain cx cy cw ch where r: "r = (cx, cy, cw, ch)" by (metis prod_cases4)
  show ?thesis
  proof (cases "ch div 12 = 0")
    case True
    then show ?thesis using assms(2) by (simp add: term_on_draw_def r size_fill)
  next
    case False
    let ?v = "if TERM_ROWS < ch div 12 then TERM_ROWS else ch div 12"
    let ?f = "if ?v < term_line_count d + 1 then term_line_count d + 1 - ?v else 0"
    obtain k where k: "term_rows d ?f cx cy (takeWhile (\<lambda>i. ?f + of_nat i < term_line_count d) [0..<unat (?v - 1)])
        (graphics_fill_rect cx cy cw ch (th_term_bg (th d)) h) = Some k" "same_size g k" using rows by blast
    let ?y = "cy + 6 + (if ?v \<le> term_line_count d then ?v - 1 else term_line_count d) * 12"
    obtain k' where k': "draw_str (cx + 8 + 16) ?y (term_input d) (th_term_fg (th d)) (th_term_bg (th d))
        (graphics_draw_string (cx + 8) ?y (ascii ''$ '') (graphics_rgb 140 255 180) (th_term_bg (th d)) k) = Some k'" "same_size g k'"
      using draw_str_some [OF input size_string [OF k(2)]] by blast
    have "term_on_draw r d h = Some (if (d_ticks d div 50) AND 1 \<noteq> 0
        then graphics_fill_rect (cx + 8 + 16 + term_input_len d * 8) ?y 8 10 (th_term_cursor (th d)) k' else k')"
      by (simp only: term_on_draw_def r prod.case Let_def False if_False k(1) k'(1) Option.bind.simps)
    then show ?thesis using k'(2) by (auto intro: size_fill)
  qed
qed

text \<open>Every process has a name that ends.\<close>

definition names_ok :: "'m desk \<Rightarrow> bool" where
  "names_ok d \<longleftrightarrow> (\<forall>p \<in> set (process_table (d_sched d)). terminated (p_name p))"

lemma task_rows_some:
  "(\<And>p. p \<in> set ps \<Longrightarrow> terminated (p_name (process_table sc ! p))) \<Longrightarrow> same_size g h \<Longrightarrow>
   \<exists>k. task_rows sc cx cy i ps h = Some k \<and> same_size g k"
proof (induction ps arbitrary: i h)
  case (Cons p ps)
  let ?p = "process_table sc ! p"
  have nm: "terminated (shown_name ?p)" using Cons.prems(1) [of p] by (simp add: shown_name_def lit_def)
  obtain k where k: "draw_str (cx + 160) (cy + 46 + of_nat i * 12) (shown_name ?p) (graphics_rgb 230 230 230) (graphics_rgb 18 22 32)
      (graphics_draw_string (cx + 64) (cy + 46 + of_nat i * 12) (task_state (p_state ?p)) (graphics_rgb 200 255 200) (graphics_rgb 18 22 32)
        (graphics_draw_string (cx + 8) (cy + 46 + of_nat i * 12) (u32_to_str (p_pid ?p)) (graphics_rgb 230 230 230) (graphics_rgb 18 22 32) h)) =
      Some k" "same_size g k"
    using draw_str_some [OF nm size_string [OF size_string [OF Cons.prems(2)]]] by blast
  from Cons.IH [OF _ k(2), of "Suc i"] Cons.prems(1) k(1) show ?case by (simp add: Let_def)
qed simp

lemma taskmgr_draw_some:
  assumes "sched_wf (d_sched d)" "names_ok d" "same_size g h"
  shows "\<exists>k. taskmgr_on_draw r d h = Some k \<and> same_size g k"
proof -
  obtain cx cy cw ch where r: "r = (cx, cy, cw, ch)" by (metis prod_cases4)
  obtain c xs where ok: "sched_ok (d_sched d) c xs" using assms(1) by (auto simp: sched_wf_def)
  then obtain q where "run_queue (d_sched d) = Some q" by (auto simp: sched_ok_def)
  from process_list_complete [OF ok this, of "int MAX_PROCS"] obtain n ps where
    l: "process_list (d_sched d) (int MAX_PROCS) = Some (n, ps)" "set ps \<subseteq> {i. i < MAX_PROCS}"
    by (metis (no_types, lifting) Collect_mono mem_Collect_eq set_take_subset subset_trans subsetI)
  have len: "length (process_table (d_sched d)) = MAX_PROCS" using ok by (simp add: sched_ok_def)
  have nm: "terminated (p_name (process_table (d_sched d) ! p))" if "p \<in> set ps" for p
    using that l(2) len assms(2) by (auto simp: names_ok_def)
  have rows: "same_size g h \<Longrightarrow> \<exists>k. task_rows (d_sched d) cx cy 0 ps h = Some k \<and> same_size g k" for h
    using task_rows_some [of ps "d_sched d" g h cx cy 0] nm by blast
  let ?h = "graphics_draw_string (cx + 160) (cy + 30) (ascii ''NAME'') (graphics_rgb 160 200 230) (graphics_rgb 18 22 32)
     (graphics_draw_string (cx + 64) (cy + 30) (ascii ''STATE'') (graphics_rgb 160 200 230) (graphics_rgb 18 22 32)
     (graphics_draw_string (cx + 8) (cy + 30) (ascii ''PID'') (graphics_rgb 160 200 230) (graphics_rgb 18 22 32)
     (graphics_fill_rect (cx + 4) (cy + 22) (cw - 8) 1 (graphics_rgb 40 60 90)
     (graphics_draw_string (cx + 8) (cy + 6) (ascii ''Task Manager - kernel processes'') (graphics_rgb 180 220 255) (graphics_rgb 18 22 32)
     (graphics_fill_rect cx cy cw ch (graphics_rgb 18 22 32) h)))))"
  have "same_size g ?h" by (intro size_string size_fill assms(3))
  from rows [OF this] obtain k where k: "task_rows (d_sched d) cx cy 0 ps ?h = Some k" "same_size g k" by blast
  have "taskmgr_on_draw r d h =
      Some (graphics_draw_string (cx + 8) (cy + ch - 16) (memory_line (d_pmm d)) (graphics_rgb 200 220 255) (graphics_rgb 18 22 32) k)"
    by (simp only: taskmgr_on_draw_def r prod.case Let_def l(1) k(1) Option.bind.simps)
  then show ?thesis using k(2) by (auto intro: size_string)
qed

lemma editor_chars_size: "same_size g h \<Longrightarrow> same_size g (snd (snd (editor_chars cx y0 cs col row h)))"
proof (induction cs arbitrary: col row h)
  case (Cons c cs)
  let ?k = "if col < EDIT_COLS then graphics_draw_string (cx + 8 + col * 8) (y0 + row * 12) (if c = 0 then [] else [c])
      (graphics_rgb 220 230 240) (graphics_rgb 28 30 40) h else h"
  have "same_size g ?k" using Cons.prems by (simp add: size_string)
  from Cons.IH [OF this] Cons.IH [OF Cons.prems] Cons.prems show ?case by (simp add: Let_def)
qed simp

lemma editor_draw_size: "same_size g h \<Longrightarrow> same_size g (editor_on_draw r d h)"
proof -
  assume h: "same_size g h"
  obtain cx cy cw ch where r: "r = (cx, cy, cw, ch)" by (metis prod_cases4)
  show ?thesis
    unfolding editor_on_draw_def r Let_def case_prod_beta
    by (simp only: fst_conv snd_conv split: if_split) (intro conjI impI size_fill size_string editor_chars_size h)
qed

lemma neofetch_draw_size: "same_size g h \<Longrightarrow> same_size g (neofetch_on_draw r d h)"
proof -
  have info: "same_size g k \<Longrightarrow> same_size g (info_line x y l t k)" for x y l t k unfolding info_line_def by (intro size_string)
  show "same_size g h \<Longrightarrow> same_size g (neofetch_on_draw r d h)"
    unfolding neofetch_on_draw_def Let_def case_prod_beta by (intro info size_string size_fold size_fill)
qed

text \<open>So a window with good functions is drawn, and nothing but pixels changes.\<close>

lemma window_drawn:
  assumes "desk_ok d" "sched_wf (d_sched d)" "names_ok d" "good_ops (w_ops (wins s z))" "same_size g h"
  shows "\<exists>k. wm_draw_window desk_draws z f (s, h, Running d) = (s, k, Running d) \<and> same_size g k"
proof -
  let ?h = "draw_frame (wm_colors s) (wins s z) f h"
  have h: "same_size g ?h" by (rule size_frame [OF assms(5)])
  have "\<exists>k. desk_draws (op_draw (w_ops (wins s z))) z r u (s, ?h, Running d) = (s, k, Running d) \<and> same_size g k" for r u
    using assms(4) term_draw_some [OF assms(1) h, of r] taskmgr_draw_some [OF assms(2,3) h, of r]
      editor_draw_size [OF h, of r d] neofetch_draw_size [OF h, of r d]
    by (auto simp: good_ops_def desk_draws_def)
  then show ?thesis using h assms(5) by (auto simp: wm_draw_window_def Let_def)
qed

lemma windows_drawn:
  assumes "desk_inv s d zs" "names_ok d" "graphics_width g \<noteq> 0" "graphics_height g \<noteq> 0"
  shows "\<exists>k. wm_render desk_draws (s, g, Running d) = Some (s, k, Running d) \<and> same_size g k"
proof -
  have z: "zlist s zs" using assms(1) by (simp add: desk_inv_def wm_ok_def)
  have keep: "fst (desk_draws f z r u (s, g, a)) = s" for f z r u g and a :: "'a desk outcome"
    by (auto simp: desk_draws_def split: outcome.split option.split)
  have "\<exists>k. fold (\<lambda>z. wm_draw_window desk_draws z (z = wm_focused s)) xs (s, h, Running d) = (s, k, Running d) \<and> same_size g k"
    if "set xs \<subseteq> set zs" "same_size g h" for xs h
    using that
  proof (induction xs arbitrary: h)
    case (Cons x xs)
    have "good_ops (w_ops (wins s x))" "desk_ok d" "sched_wf (d_sched d)" using Cons.prems(1) assms(1) by (auto simp: desk_inv_def)
    with window_drawn [of d s x g h "x = wm_focused s"] assms(2) Cons.prems(2) obtain k where
      "wm_draw_window desk_draws x (x = wm_focused s) (s, h, Running d) = (s, k, Running d)" "same_size g k" by blast
    with Cons.IH [of k] Cons.prems(1) show ?case by simp
  qed simp
  from this [of zs g] show ?thesis
    using render_in_order [of s zs desk_draws g "Running d"] z keep assms(3,4) by auto
qed

section \<open>Layers\<close>

text \<open>Two pictures of the same size that show the same at a point.\<close>

definition same_at :: "u32 \<Rightarrow> u32 \<Rightarrow> gfx \<Rightarrow> gfx \<Rightarrow> bool" where
  "same_at px py g g' \<longleftrightarrow> gfx_ok g \<and> same_size g g' \<and> graphics_get_pixel px py g' = graphics_get_pixel px py g"

lemma same_at_refl: "gfx_ok g \<Longrightarrow> same_at px py g g"
  by (simp add: same_at_def)

lemma same_at_trans [trans]: "same_at px py g h \<Longrightarrow> same_at px py h k \<Longrightarrow> same_at px py g k"
  by (auto simp: same_at_def same_size_def)

lemma get_string:
  assumes "gfx_ok g" "length t \<le> 100"
  shows "graphics_get_pixel px py (graphics_draw_string x y t fg bg g) =
    (if unat (px - x) < 8 * length t \<and> unat (py - y) < 8 \<and> on_screen g px py
     then if glyph_bit (t ! (unat (px - x) div 8)) (unat (px - x) mod 8) (unat (py - y)) then fg else bg
     else graphics_get_pixel px py g)"
  using get_draw_chars [OF assms(1), of 0 t px py x y fg bg] assms(2) by (simp add: graphics_draw_string_def)

lemma same_size_square: "same_size g g' \<Longrightarrow> same_size g h \<Longrightarrow> same_size g' h' \<Longrightarrow> same_size h h'"
  by (simp add: same_size_def)

lemma same_fill:
  assumes "same_at px py g g'"
  shows "same_at px py (graphics_fill_rect x y w h c g) (graphics_fill_rect x y w h c g')"
proof -
  have g: "gfx_ok g" "same_size g g'" "gfx_ok g'" "on_screen g' = on_screen g" using assms same_size_screen [of g g'] by (simp_all add: same_at_def)
  have "same_size (graphics_fill_rect x y w h c g) (graphics_fill_rect x y w h c g')"
    by (rule same_size_square [OF g(2) size_fill [OF same_size_refl] size_fill [OF same_size_refl]])
  then show ?thesis using assms g by (simp add: same_at_def get_fill_rect)
qed

lemma same_string:
  assumes "length t \<le> 100" "same_at px py g g'"
  shows "same_at px py (graphics_draw_string x y t fg bg g) (graphics_draw_string x y t fg bg g')"
proof -
  have g: "gfx_ok g" "same_size g g'" "gfx_ok g'" "on_screen g' = on_screen g" using assms same_size_screen [of g g'] by (simp_all add: same_at_def)
  have "same_size (graphics_draw_string x y t fg bg g) (graphics_draw_string x y t fg bg g')"
    by (rule same_size_square [OF g(2) size_string [OF same_size_refl] size_string [OF same_size_refl]])
  moreover have "gfx_ok (graphics_draw_string x y t fg bg g)"
    using same_size_screen [OF size_string [OF same_size_refl]] g(1) by blast
  ultimately show ?thesis using assms g by (simp add: same_at_def get_string)
qed

lemma same_button:
  "length t \<le> 100 \<Longrightarrow> same_at px py g g' \<Longrightarrow> same_at px py (draw_button r bg b (Some t) fg c g) (draw_button r bg b (Some t) fg c g')"
  unfolding draw_button_def Let_def case_prod_beta by (auto intro!: same_fill same_string)

lemma same_fold:
  "(\<And>x g g'. x \<in> set xs \<Longrightarrow> same_at px py g g' \<Longrightarrow> same_at px py (f x g) (f x g')) \<Longrightarrow> same_at px py g g' \<Longrightarrow>
   same_at px py (fold f xs g) (fold f xs g')"
  by (induction xs arbitrary: g g') auto

text \<open>A rectangle hides what was under it.\<close>

lemma cover_fill:
  assumes "gfx_ok g" "same_size g g'" "on_screen g px py" "px - x < w" "py - y < h"
  shows "same_at px py (graphics_fill_rect x y w h c g) (graphics_fill_rect x y w h c g')"
proof -
  have g: "gfx_ok g'" "on_screen g' px py" using same_size_screen [OF assms(2)] assms(1,3) by simp_all
  have "same_size (graphics_fill_rect x y w h c g) (graphics_fill_rect x y w h c g')"
    by (rule same_size_square [OF assms(2) size_fill [OF same_size_refl] size_fill [OF same_size_refl]])
  then show ?thesis using assms g by (simp add: same_at_def get_fill_rect)
qed

text \<open>
  A point is outside a frame of \<open>m\<close> columns and \<open>n\<close> rows at \<open>(fx, fy)\<close>; what is drawn inside the frame
  leaves the point alone.
\<close>

definition outside :: "u32 \<Rightarrow> u32 \<Rightarrow> nat \<Rightarrow> nat \<Rightarrow> u32 \<Rightarrow> u32 \<Rightarrow> bool" where
  "outside fx fy m n px py \<longleftrightarrow> \<not> (unat (px - fx) < m \<and> unat (py - fy) < n)"

lemma part_outside:
  assumes "outside fx fy m n px py" "a + w \<le> m" "b + h \<le> n" "m < 2 ^ 32" "n < 2 ^ 32"
  shows "\<not> (unat (px - (fx + of_nat a)) < w \<and> unat (py - (fy + of_nat b)) < h)"
proof -
  have e: "px - (fx + of_nat a) = (px - fx) - of_nat a" "py - (fy + of_nat b) = (py - fy) - of_nat b" by (simp_all add: diff_diff_eq)
  have "unat ((px - fx) - of_nat a) < w \<longleftrightarrow> a \<le> unat (px - fx) \<and> unat (px - fx) < a + w"
    "unat ((py - fy) - of_nat b) < h \<longleftrightarrow> b \<le> unat (py - fy) \<and> unat (py - fy) < b + h"
    using assms by (auto intro!: unat_shifted(1))
  then show ?thesis unfolding e using assms(1-3) by (auto simp: outside_def)
qed

lemma skip_fill:
  assumes "gfx_ok g" "outside fx fy m n px py" "a + unat w \<le> m" "b + unat h \<le> n" "m < 2 ^ 32" "n < 2 ^ 32"
    "x = fx + of_nat a" "y = fy + of_nat b"
  shows "same_at px py g (graphics_fill_rect x y w h c g)"
proof -
  have "\<not> (px - x < w \<and> py - y < h)" using part_outside [OF assms(2-6)] by (simp add: assms(7,8) word_less_nat_alt)
  then show ?thesis using assms(1) size_fill [OF same_size_refl, of g x y w h c] by (auto simp: same_at_def get_fill_rect)
qed

lemma skip_string:
  assumes "gfx_ok g" "outside fx fy m n px py" "a + 8 * length t \<le> m" "b + 8 \<le> n" "m < 2 ^ 32" "n < 2 ^ 32" "length t \<le> 100"
    "x = fx + of_nat a" "y = fy + of_nat b"
  shows "same_at px py g (graphics_draw_string x y t fg bg g)"
proof -
  have "\<not> (unat (px - x) < 8 * length t \<and> unat (py - y) < 8)" using part_outside [OF assms(2-6)] by (simp add: assms(8,9))
  then show ?thesis using assms(1,7) size_string [OF same_size_refl, of g x y t fg bg] by (auto simp: same_at_def get_string)
qed

lemma same_at_ok: "same_at px py g h \<Longrightarrow> gfx_ok h"
  using same_size_screen by (auto simp: same_at_def)

lemma frame_fill:
  assumes "same_at px py g k" "outside fx fy m n px py" "a + unat w \<le> m" "b + unat h \<le> n" "m < 2 ^ 32" "n < 2 ^ 32"
    "x = fx + of_nat a" "y = fy + of_nat b"
  shows "same_at px py g (graphics_fill_rect x y w h c k)"
  by (rule same_at_trans [OF assms(1) skip_fill [OF same_at_ok [OF assms(1)] assms(2-8)]])

lemma frame_string:
  assumes "same_at px py g k" "outside fx fy m n px py" "a + 8 * length t \<le> m" "b + 8 \<le> n" "m < 2 ^ 32" "n < 2 ^ 32" "length t \<le> 100"
    "x = fx + of_nat a" "y = fy + of_nat b"
  shows "same_at px py g (graphics_draw_string x y t fg bg k)"
  by (rule same_at_trans [OF assms(1) skip_string [OF same_at_ok [OF assms(1)] assms(2-9)]])

lemma skip_fold:
  "(\<And>x h. x \<in> set xs \<Longrightarrow> same_at px py g h \<Longrightarrow> same_at px py g (f x h)) \<Longrightarrow> same_at px py g h \<Longrightarrow> same_at px py g (fold f xs h)"
  by (induction xs arbitrary: h) auto

text \<open>The same for a point that is outside the rows only.\<close>

lemma rows_fill:
  assumes "same_at px py g h" "\<not> unat (py - fy) < n" "b + unat k \<le> n" "n < 2 ^ 32" "y = fy + of_nat b"
  shows "same_at px py g (graphics_fill_rect x y w k c h)"
  by (rule frame_fill [where fx = x and m = "unat w" and a = 0, OF assms(1)])
    (use assms u32_lt [of w] in \<open>auto simp: outside_def\<close>)

lemma rows_string:
  assumes "same_at px py g h" "\<not> unat (py - fy) < n" "b + 8 \<le> n" "n < 2 ^ 32" "y = fy + of_nat b" "length t \<le> 100"
  shows "same_at px py g (graphics_draw_string x y t fg bg h)"
  by (rule frame_string [where fx = x and m = "8 * length t" and a = 0, OF assms(1)]) (use assms in \<open>auto simp: outside_def\<close>)

section \<open>Taskbar\<close>

lemma rows_button:
  assumes "same_at px py g h" "\<not> unat (py - ty) < 32" "length t \<le> 100"
  shows "same_at px py g (draw_button (x, ty + 5, w, 22) bg b (Some t) fg c h)"
proof -
  have s: "of_int (sint ((22 :: u32) - 8) sdiv 2) = (7 :: u32)" by (simp add: signed_divide_int_def)
  note fill = rows_fill [OF _ assms(2)]
  note body = fill [where b = 5 and y = "ty + 5" and k = 22]
  note line = fill [where b = 5 and y = "ty + 5" and k = 1] fill [where b = 26 and y = "ty + 5 + 22 - 1" and k = 1]
  note label = rows_string [OF _ assms(2), where b = 12 and y = "ty + 5 + 7"]
  show ?thesis
    unfolding draw_button_def Let_def prod.case option.case s
    by (simp only: split: if_split, intro conjI impI label line body assms(1,3)) simp_all
qed

lemma app_btn_rows: "\<exists>x w. app_btn_rect h i = (x, taskbar_y h + 5, w, 22)"
  by (simp add: app_btn_rect_def start_btn_rect_def)

lemma clock_length: "length (format_clock ticks) = 8"
  by (simp add: format_clock_def two_digits_def Let_def)

lemma label_length: "i < 4 \<Longrightarrow> length (ascii (fst (tb_apps ! i))) \<le> 100"
  by (auto simp: tb_apps_def ascii_def numeral_eq_Suc less_Suc_eq)

lemma above_rows: "gfx_ok g \<Longrightarrow> py < taskbar_y (graphics_height g) \<Longrightarrow> \<not> unat (py - taskbar_y (graphics_height g)) < 32"
  by (auto simp: gfx_ok_def taskbar_y_def word_less_nat_alt unat_sub_if' word_le_nat_alt split: if_splits)

lemma bar_rows:
  assumes "gfx_ok g" "on_screen g px py" "taskbar_y (graphics_height g) \<le> py"
  shows "py - taskbar_y (graphics_height g) < TB_HEIGHT"
proof -
  have "unat py < unat (graphics_height g)" "unat (taskbar_y (graphics_height g)) \<le> unat py"
    using assms(2,3) by (simp_all add: on_screen_def word_less_nat_alt word_le_nat_alt)
  moreover have "unat (graphics_height g) \<le> unat (taskbar_y (graphics_height g)) + 32"
    by (auto simp: taskbar_y_def word_less_nat_alt unat_minus_le word_le_nat_alt)
  ultimately show ?thesis by (simp add: word_less_nat_alt unat_minus_le word_le_nat_alt)
qed

text \<open>Above the bar nothing is drawn; inside it, what was there before does not matter.\<close>

lemma taskbar_above:
  assumes "gfx_ok g" "py < taskbar_y (graphics_height g)"
  shows "same_at px py g (draw_taskbar s d g)"
proof -
  let ?h = "graphics_height g"
  have out: "\<not> unat (py - taskbar_y ?h) < 32" by (rule above_rows [OF assms])
  have btn: "same_at px py g (draw_button (app_btn_rect ?h i) bg b (Some (ascii (fst (tb_apps ! i)))) fg c k)"
    if "same_at px py g k" "i \<in> set [0..<4]" for i bg b fg c k
    using app_btn_rows [of ?h i] rows_button [OF that(1) out label_length] that(2) by auto
  have start: "same_at px py g k \<Longrightarrow> same_at px py g (draw_button (start_btn_rect ?h) bg b (Some (ascii ''tetOS'')) fg c k)" for bg b fg c k
    unfolding start_btn_rect_def by (rule rows_button [OF _ out]) (simp_all add: ascii_def)
  have clock: "same_at px py g k \<Longrightarrow> same_at px py g (draw_button (clock_rect w ?h) bg b (Some (format_clock t)) fg c k)" for w bg b t fg c k
    unfolding clock_rect_def by (rule rows_button [OF _ out]) (simp_all add: clock_length)
  note bar = rows_fill [OF _ out, where b = 0 and y = "taskbar_y ?h"]
  show ?thesis
    unfolding draw_taskbar_def Let_def graphics_get_height_def graphics_get_width_def
    by (simp only: split: if_split, intro conjI impI same_at_refl assms(1) clock skip_fold btn start bar) simp_all
qed

lemma taskbar_covers:
  assumes "gfx_ok g" "same_size g g'" "on_screen g px py" "taskbar_y (graphics_height g) \<le> py"
  shows "same_at px py (draw_taskbar s d g) (draw_taskbar s d g')"
proof -
  have dim: "graphics_height g' = graphics_height g" "graphics_width g' = graphics_width g" using assms(2) by (simp_all add: same_size_def)
  have nz: "graphics_width g \<noteq> 0" "graphics_height g \<noteq> 0" using assms(3) by (auto simp: on_screen_def)
  have bar: "same_at px py (graphics_fill_rect 0 (taskbar_y (graphics_height g)) (graphics_width g) TB_HEIGHT c g)
      (graphics_fill_rect 0 (taskbar_y (graphics_height g)) (graphics_width g) TB_HEIGHT c g')" for c
    using cover_fill [OF assms(1,2,3) _ bar_rows [OF assms(1,3,4)], of 0 "graphics_width g"] assms(3) by (simp add: on_screen_def)
  have t: "length (ascii ''tetOS'') \<le> 100" "length (format_clock (d_ticks d)) \<le> 100" by (simp_all add: ascii_def clock_length)
  show ?thesis
    unfolding draw_taskbar_def Let_def graphics_get_height_def graphics_get_width_def dim
    using nz by (simp only: simp_thms if_False) (intro same_button t same_fold same_fill bar label_length, simp)
qed

section \<open>Start menu\<close>

definition in_start_menu :: "u32 \<Rightarrow> u32 \<Rightarrow> u32 \<Rightarrow> bool" where
  "in_start_menu screen_h px py = (case start_menu_rect screen_h of (mx, my, mw, mh) \<Rightarrow> px - mx < mw \<and> py - my < mh)"

lemma menu_rect: obtains my where "start_menu_rect h = (4, my, 180, 114)"
  by (simp add: start_menu_rect_def start_btn_rect_def Let_def)

lemma menu_label_length: "i < 4 \<Longrightarrow> length (ascii (menu_labels ! i)) \<le> 10"
  by (auto simp: menu_labels_def ascii_def numeral_eq_Suc less_Suc_eq)

lemma item_rect:
  assumes "start_menu_rect h = (4, my, 180, 114)"
  shows "start_item_rect h i = (4 + of_nat 5, my + of_nat (5 + i * 26), 170, 24)"
  by (simp add: start_item_rect_def assms)

lemma menu_outside:
  assumes "gfx_ok g" "start_open d = 0 \<or> \<not> in_start_menu (graphics_height g) px py"
  shows "same_at px py g (draw_start_menu ms d g)"
proof (cases "start_open d = 0")
  case False
  obtain my where r: "start_menu_rect (graphics_height g) = (4, my, 180, 114)" by (rule menu_rect)
  have out: "outside 4 my 180 114 px py" using False assms(2) by (simp add: in_start_menu_def r outside_def word_less_nat_alt)
  note fill = frame_fill [OF _ out]
  have item: "same_at px py g k \<Longrightarrow> i \<in> set [0..<4] \<Longrightarrow>
      same_at px py g (graphics_draw_string (4 + of_nat 5 + 10) (my + of_nat (5 + i * 26) + 9) (ascii (menu_labels ! i)) fg bg
        (graphics_fill_rect (4 + of_nat 5) (my + of_nat (5 + i * 26)) 170 24 c k))" for i k fg bg c
    using menu_label_length [of i]
    by (intro frame_string [OF _ out, where a = 15 and b = "14 + i * 26"] fill [where a = 5 and b = "5 + i * 26"]) simp_all
  note body = fill [where a = 0 and b = 0 and w = 180 and h = 114]
  note lines = fill [where a = 0 and b = 0 and w = 180 and h = 1] fill [where a = 0 and b = 113 and w = 180 and h = 1]
    fill [where a = 0 and b = 0 and w = 1 and h = 114] fill [where a = 179 and b = 0 and w = 1 and h = 114]
  have lined: "same_at px py g
     (graphics_fill_rect (4 + 180 - 1) my 1 114 b (graphics_fill_rect 4 my 1 114 b
       (graphics_fill_rect 4 (my + 114 - 1) 180 1 b (graphics_fill_rect 4 my 180 1 b (graphics_fill_rect 4 my 180 114 c g)))))" for b c
    by (intro lines body same_at_refl assms(1)) simp_all
  show ?thesis
    unfolding draw_start_menu_def Let_def graphics_get_height_def r prod.case item_rect [OF r] mouse_get_position_def
    using False by (simp only: if_False) (intro skip_fold item lined)
qed (simp add: draw_start_menu_def same_at_refl assms(1))

lemma menu_covers:
  assumes "gfx_ok g" "same_size g g'" "on_screen g px py" "start_open d \<noteq> 0" "in_start_menu (graphics_height g) px py"
  shows "same_at px py (draw_start_menu ms d g) (draw_start_menu ms d g')"
proof -
  obtain my where r: "start_menu_rect (graphics_height g) = (4, my, 180, 114)" by (rule menu_rect)
  have dim: "graphics_height g' = graphics_height g" using assms(2) by (simp add: same_size_def)
  have body: "same_at px py (graphics_fill_rect 4 my 180 114 c g) (graphics_fill_rect 4 my 180 114 c g')" for c
    by (rule cover_fill [OF assms(1-3)]) (use assms(5) in \<open>simp_all add: in_start_menu_def r\<close>)
  have item: "same_at px py k k' \<Longrightarrow> i \<in> set [0..<4] \<Longrightarrow>
      same_at px py (graphics_draw_string x y (ascii (menu_labels ! i)) fg bg k) (graphics_draw_string x y (ascii (menu_labels ! i)) fg bg k')"
    for i k k' x y fg bg using menu_label_length [of i] by (intro same_string) simp_all
  show ?thesis
    unfolding draw_start_menu_def Let_def graphics_get_height_def dim r prod.case item_rect [OF r] mouse_get_position_def
    using assms(4) by (simp only: if_False) (intro same_fold item same_fill body)
qed

section \<open>Pointer\<close>

text \<open>The cells of the pointer: twelve to the right, twelve down, six along the diagonal.\<close>

definition pointer_cell :: "mouse \<Rightarrow> u32 \<Rightarrow> u32 \<Rightarrow> bool" where
  "pointer_cell ms px py \<longleftrightarrow>
     (let dx = unat (px - mouse_x ms); dy = unat (py - mouse_y ms) in dy = 0 \<and> dx < 12 \<or> dx = 0 \<and> dy < 12 \<or> dx = dy \<and> dx < 6)"

lemma get_cursor:
  assumes "gfx_ok g"
  shows "graphics_get_pixel px py (draw_cursor ms t g) =
    (if pointer_cell ms px py \<and> on_screen g px py then th_cursor t else graphics_get_pixel px py g)"
proof -
  let ?x = "mouse_x ms" and ?y = "mouse_y ms" and ?c = "th_cursor t"
  define dx dy where "dx = unat (px - ?x)" and "dy = unat (py - ?y)"
  have eqs: "px = ?x \<longleftrightarrow> dx = 0" "py = ?y \<longleftrightarrow> dy = 0" "n < 2 ^ 32 \<Longrightarrow> px = ?x + of_nat n \<longleftrightarrow> dx = n"
      "n < 2 ^ 32 \<Longrightarrow> py = ?y + of_nat n \<longleftrightarrow> dy = n" for n
    using offset_eq [of 0 px ?x] offset_eq [of 0 py ?y] offset_eq [of n px ?x] offset_eq [of n py ?y] by (simp_all add: dx_def dy_def)
  have arms: "gfx_ok h \<and> on_screen h = on_screen g \<and> graphics_get_pixel px py h =
      (if (dy = 0 \<and> dx < n \<or> dx = 0 \<and> dy < n) \<and> on_screen g px py then ?c else graphics_get_pixel px py g)"
    if "h = fold (\<lambda>i g. graphics_set_pixel ?x (?y + of_nat i) ?c (graphics_set_pixel (?x + of_nat i) ?y ?c g)) [0..<n] g" "n \<le> 12" for n h
    using that
  proof (induction n arbitrary: h)
    case (Suc n)
    then show ?case using Suc.IH [OF refl] eqs(1,2) eqs(3,4) [of n] assms by (auto simp: get_set_pixel less_Suc_eq)
  qed (use assms in simp)
  have diag: "gfx_ok h \<and> on_screen h = on_screen k \<and> graphics_get_pixel px py h =
      (if (dx = dy \<and> dx < n) \<and> on_screen k px py then ?c else graphics_get_pixel px py k)"
    if "h = fold (\<lambda>i. graphics_set_pixel (?x + of_nat i) (?y + of_nat i) ?c) [0..<n] k" "gfx_ok k" "n \<le> 6" for n h k
    using that
  proof (induction n arbitrary: h)
    case (Suc n)
    then show ?case using Suc.IH [OF refl] eqs(3,4) [of n] by (auto simp: get_set_pixel less_Suc_eq)
  qed simp
  define h where "h = fold (\<lambda>i g. graphics_set_pixel ?x (?y + of_nat i) ?c (graphics_set_pixel (?x + of_nat i) ?y ?c g)) [0..<12] g"
  note a = arms [OF h_def]
  have "draw_cursor ms t g = fold (\<lambda>i. graphics_set_pixel (?x + of_nat i) (?y + of_nat i) ?c) [0..<6] h"
    by (simp add: draw_cursor_def mouse_get_position_def h_def del: upt_rec_numeral)
  from diag [OF this] a show ?thesis by (auto simp: pointer_cell_def Let_def dx_def [symmetric] dy_def [symmetric])
qed

section \<open>The picture\<close>

text \<open>\<open>desktop_render\<close> has a result in every state of the desktop, and the screen keeps its size.\<close>

lemma render_returns:
  assumes "desk_inv s d zs" "names_ok d"
  shows "\<exists>g'. desktop_render ms (s, g, d) = Some (s, g', d) \<and> same_size g g'"
proof (cases "graphics_width g = 0 \<or> graphics_height g = 0")
  case True
  then show ?thesis by (auto simp: desktop_render_def graphics_get_width_def graphics_get_height_def)
next
  case False
  have bg: "same_size g (draw_background (th d) g)" by (rule size_background)
  with False obtain gw where w: "wm_render desk_draws (s, draw_background (th d) g, Running d) = Some (s, gw, Running d)"
      "same_size (draw_background (th d) g) gw"
    using windows_drawn [OF assms, of "draw_background (th d) g"] by (auto simp: same_size_def)
  let ?g = "draw_cursor ms (th d) (draw_start_menu ms d (draw_taskbar s d gw))"
  have "same_size g ?g" by (intro size_cursor size_menu size_taskbar same_size_trans [OF bg w(2)])
  then have "same_size g (graphics_present ?g)" by (auto simp: same_size_def graphics_present_def Let_def)
  then show ?thesis using False w(1) by (simp add: desktop_render_def graphics_get_width_def graphics_get_height_def Let_def)
qed

lemma present_pixel: "graphics_get_pixel px py (graphics_present g) = graphics_get_pixel px py g"
  by (simp add: graphics_present_def graphics_get_pixel_def)

text \<open>
  C24. The picture of the desktop. \<open>desktop_render\<close> always has a result and changes nothing but pixels, and each
  pixel of the screen is decided by the first of these that covers it: the pointer; the start menu, when it is
  open; the taskbar; and otherwise the windows, drawn in their order over the background. Menu and taskbar are
  opaque: what they show does not depend on anything below (it is what they draw on the screen as it was before).
\<close>

theorem desktop_layers:
  assumes "desk_inv s d zs" "names_ok d" "gfx_ok g" "on_screen g px py"
  shows "\<exists>gw g'. wm_render desk_draws (s, draw_background (th d) g, Running d) = Some (s, gw, Running d) \<and>
    desktop_render ms (s, g, d) = Some (s, g', d) \<and>
    graphics_get_pixel px py g' =
      (if pointer_cell ms px py then th_cursor (th d)
       else if start_open d \<noteq> 0 \<and> in_start_menu (graphics_height g) px py then graphics_get_pixel px py (draw_start_menu ms d g)
       else if taskbar_y (graphics_height g) \<le> py then graphics_get_pixel px py (draw_taskbar s d g)
       else graphics_get_pixel px py gw)"
proof -
  have nz: "graphics_width g \<noteq> 0" "graphics_height g \<noteq> 0" using assms(4) by (auto simp: on_screen_def)
  have bg: "same_size g (draw_background (th d) g)" by (rule size_background)
  then obtain gw where w: "wm_render desk_draws (s, draw_background (th d) g, Running d) = Some (s, gw, Running d)"
      "same_size (draw_background (th d) g) gw"
    using windows_drawn [OF assms(1,2), of "draw_background (th d) g"] nz by (auto simp: same_size_def)
  define gt where "gt = draw_taskbar s d gw"
  define gm where "gm = draw_start_menu ms d gt"
  have sizes: "same_size g gw" "same_size g gt" "same_size g gm"
    unfolding gm_def gt_def by (intro size_menu size_taskbar same_size_trans [OF bg w(2)])+
  then have ok: "gfx_ok gw" "gfx_ok gt" "gfx_ok gm" "on_screen gt px py" "on_screen gm px py"
    using same_size_screen [OF sizes(1)] same_size_screen [OF sizes(2)] same_size_screen [OF sizes(3)] assms(3,4) by simp_all
  have heights: "graphics_height gt = graphics_height g" "graphics_height gw = graphics_height g"
    using sizes(1,2) by (simp_all add: same_size_def)
  have r: "desktop_render ms (s, g, d) = Some (s, graphics_present (draw_cursor ms (th d) gm), d)"
    using nz w(1) by (simp add: desktop_render_def graphics_get_width_def graphics_get_height_def gm_def gt_def Let_def)
  have menu: "graphics_get_pixel px py gm =
      (if start_open d \<noteq> 0 \<and> in_start_menu (graphics_height g) px py then graphics_get_pixel px py (draw_start_menu ms d g)
       else graphics_get_pixel px py gt)"
    using menu_covers [OF assms(3) sizes(2) assms(4), of d ms] menu_outside [OF ok(2), of d px py ms] heights(1) by (auto simp: gm_def same_at_def)
  have bar: "graphics_get_pixel px py gt =
      (if taskbar_y (graphics_height g) \<le> py then graphics_get_pixel px py (draw_taskbar s d g) else graphics_get_pixel px py gw)"
    using taskbar_covers [OF assms(3) sizes(1) assms(4), of s d] taskbar_above [OF ok(1), where py = py and px = px and s = s and d = d] heights(2)
    by (auto simp: gt_def same_at_def not_le)
  show ?thesis
    using w(1) r get_cursor [OF ok(3), of px py ms "th d"] ok(5) menu bar by (simp add: present_pixel)
qed

lemma sched_boot_names: "p \<in> set (process_table sched_boot) \<Longrightarrow> terminated (p_name p)"
  by (auto simp: sched_boot_def process_init_def Let_def upd_def copy_pname_def clear_fds_def empty_slot_def blit_def
      dest!: subsetD [OF set_update_subset_insert])

theorem desktop_layers_witness:
  "\<exists>s d g'. desktop_init (wm_boot, desk_demo) = Some (s, d) \<and> desktop_render mouse_boot (s, gfx_boot, d) = Some (s, g', d) \<and>
     graphics_get_pixel (mouse_x mouse_boot) (mouse_y mouse_boot) g' = th_cursor (th d)"
proof (rule boot_desktop)
  fix s d zs
  assume s: "desktop_init (wm_boot, desk_demo) = Some (s, d)" "desk_inv s d zs" "d_sched d = sched_boot"
  have names: "names_ok d" using sched_boot_names by (simp add: names_ok_def s(3))
  have g: "gfx_ok gfx_boot" "on_screen gfx_boot (mouse_x mouse_boot) (mouse_y mouse_boot)"
    by (simp_all add: gfx_ok_def gfx_boot_def on_screen_def mouse_boot_def)
  have "pointer_cell mouse_boot (mouse_x mouse_boot) (mouse_y mouse_boot)" by (simp add: pointer_cell_def)
  with desktop_layers [OF s(2) names g, of mouse_boot] s(1) show ?thesis by auto
qed

end
