(* ===== verification/Debug.thy ===== *)
theory Debug
  imports Shell Interrupts
begin

text \<open>
  The last words of the kernel: \<open>kernel/debug/debug.c\<close> and the report of a fatal exception in
  \<open>kernel/isr/isr.c\<close>. The stack is memory: \<open>mem\<close> gives the word at an address and \<open>ebp\<close> is the frame
  pointer when the trace begins. The result is what the console and the serial line have got when the
  processor halts with interrupts off; nothing runs behind it, so a handler that panics is \<open>None\<close> in
  \<open>Interrupts\<close>.
\<close>

section \<open>The trace\<close>

text \<open>The loop with \<open>n\<close> rounds left; \<open>ebp[1]\<close> is the return address and \<open>ebp[0]\<close> the caller's frame.\<close>

fun stacktrace_loop :: "'m ports \<Rightarrow> (u32 \<Rightarrow> u32) \<Rightarrow> nat \<Rightarrow> u32 \<Rightarrow> u32 \<Rightarrow> 'm \<times> vga \<Rightarrow> ('m \<times> vga) option" where
  "stacktrace_loop P mem 0 i ebp c = Some c"
| "stacktrace_loop P mem (Suc n) i ebp c =
     (if ebp = 0 then Some c
      else let ret = mem (ebp + 4) in
        if ret = 0 then Some c
        else case kprintf P (ascii_line ''  #%u 0x%x'') [Word i, Word ret] c of
               None \<Rightarrow> None
             | Some c \<Rightarrow> stacktrace_loop P mem n (i + 1) (mem ebp) c)"

definition debug_stacktrace :: "'m ports \<Rightarrow> (u32 \<Rightarrow> u32) \<Rightarrow> u32 \<Rightarrow> 'm \<times> vga \<Rightarrow> ('m \<times> vga) option" where
  "debug_stacktrace P mem ebp c =
     (case kprintf P (ascii_line ''Stacktrace:'') [] c of None \<Rightarrow> None | Some c \<Rightarrow> stacktrace_loop P mem 8 0 ebp c)"

text \<open>The message is NULL or the characters before its terminator.\<close>

definition panic :: "'m ports \<Rightarrow> (u32 \<Rightarrow> u32) \<Rightarrow> u32 \<Rightarrow> bytes option \<Rightarrow> u32 \<Rightarrow> u32 \<Rightarrow> 'm \<times> vga \<Rightarrow> ('m \<times> vga) option" where
  "panic P mem ebp msg eip err_code c =
     (let c = vga_write_color P (0x0A # ascii ''[KERNEL PANIC] '') VGA_COLOR_LIGHT_RED VGA_COLOR_BLACK c
      in case kprintf P (ascii_line ''%s'') [Str (case msg of None \<Rightarrow> ascii ''(null)'' | Some t \<Rightarrow> t)] c of
           None \<Rightarrow> None
         | Some c \<Rightarrow>
             case (if eip \<noteq> 0 \<or> err_code \<noteq> 0 then kprintf P (ascii_line ''EIP=0x%x ERR=0x%x'') [Word eip, Word err_code] c else Some c) of
               None \<Rightarrow> None
             | Some c \<Rightarrow> debug_stacktrace P mem ebp c)"

section \<open>Exceptions\<close>

definition exception_names :: "string list" where
  "exception_names =
     [''Divide Error'', ''Debug'', ''NMI'', ''Breakpoint'', ''Overflow'', ''BOUND'', ''Invalid Opcode'',
      ''Device Not Available'', ''Double Fault'', ''Coprocessor Segment Overrun'', ''Invalid TSS'',
      ''Segment Not Present'', ''Stack Fault'', ''General Protection'', ''Page Fault'', ''Reserved'',
      ''x87 Floating-Point'', ''Alignment Check'', ''Machine Check'', ''SIMD Floating-Point'',
      ''Virtualization'', ''Control Protection'', ''Reserved'', ''Reserved'', ''Reserved'', ''Reserved'',
      ''Reserved'', ''Reserved'', ''Hypervisor Injection'', ''VMM Communication'', ''Security'', ''Reserved'']"

text \<open>What both reports print: a heading, the line with the registers, and the panic.\<close>

definition exception_report :: "'m ports \<Rightarrow> (u32 \<Rightarrow> u32) \<Rightarrow> u32 \<Rightarrow> string \<Rightarrow> string \<Rightarrow> registers \<Rightarrow> 'm \<times> vga \<Rightarrow> ('m \<times> vga) option" where
  "exception_report P mem ebp heading msg regs c =
     (let c = vga_write_color P (0x0A # ascii heading) VGA_COLOR_LIGHT_RED VGA_COLOR_BLACK c
      in case kprintf P (ascii_line ''%s | INT=%u ERR=0x%x EIP=0x%x CS=0x%x EFLAGS=0x%x ESP=0x%x'')
                [Str (ascii (exception_names ! unat (r_int_no regs))), Word (r_int_no regs), Word (r_err_code regs),
                 Word (r_eip regs), Word (r_cs regs), Word (r_eflags regs), Word (r_esp regs)] c of
           None \<Rightarrow> None
         | Some c \<Rightarrow> panic P mem ebp (Some (ascii msg)) (r_eip regs) (r_err_code regs) c)"

text \<open>What \<open>fatal_exception\<close> prints, and what \<open>isr_handler\<close> prints for an exception nobody handles.\<close>

definition fatal_exception_output :: "'m ports \<Rightarrow> (u32 \<Rightarrow> u32) \<Rightarrow> u32 \<Rightarrow> registers \<Rightarrow> 'm \<times> vga \<Rightarrow> ('m \<times> vga) option" where
  "fatal_exception_output P mem ebp regs c = exception_report P mem ebp ''[FATAL] '' ''Unhandled CPU exception'' regs c"

definition unhandled_output :: "'m ports \<Rightarrow> (u32 \<Rightarrow> u32) \<Rightarrow> u32 \<Rightarrow> registers \<Rightarrow> 'm \<times> vga \<Rightarrow> ('m \<times> vga) option" where
  "unhandled_output P mem ebp regs c = exception_report P mem ebp ''[UNHANDLED] '' ''Unhandled interrupt'' regs c"

section \<open>The trace ends\<close>

text \<open>The return addresses a trace prints: those of the frames up to a NULL frame or return address, at most eight.\<close>

fun frame_returns :: "(u32 \<Rightarrow> u32) \<Rightarrow> nat \<Rightarrow> u32 \<Rightarrow> u32 list" where
  "frame_returns mem 0 ebp = []"
| "frame_returns mem (Suc n) ebp = (if ebp = 0 \<or> mem (ebp + 4) = 0 then [] else mem (ebp + 4) # frame_returns mem n (mem ebp))"

lemma frame_returns_length: "length (frame_returns mem n ebp) \<le> n"
  by (induction mem n ebp rule: frame_returns.induct) auto

fun print_returns :: "'m ports \<Rightarrow> u32 \<Rightarrow> u32 list \<Rightarrow> 'm \<times> vga \<Rightarrow> ('m \<times> vga) option" where
  "print_returns P i [] c = Some c"
| "print_returns P i (r # rs) c =
     (case kprintf P (ascii_line ''  #%u 0x%x'') [Word i, Word r] c of None \<Rightarrow> None | Some c \<Rightarrow> print_returns P (i + 1) rs c)"

lemma stacktrace_prints_returns: "stacktrace_loop P mem n i ebp c = print_returns P i (frame_returns mem n ebp) c"
  by (induction P mem n i ebp c rule: stacktrace_loop.induct) (auto simp: Let_def split: option.split)

end
