(* ===== verification/Kernel.thy ===== *)
theory Kernel
  imports DesktopDraw Syscall Ps2 Timer Gdt Vmm Appseed
begin

text \<open>
  The kernel as a whole, \<open>kernel/kernel.c\<close>: the state of all components side by side, the boot sequence of
  \<open>kernel_main\<close> in its order, the hardware interrupts and the loop of the desktop. What the components share
  is one thing in the code and kept equal here: the kernel heap (\<open>kheap\<close> of the processes, \<open>wm_heap\<close> of the
  window manager) and the size of the screen (\<open>graphics_width\<close> and \<open>gfx_w\<close>). An interrupt is taken where the
  loop waits for one, at \<open>hlt\<close>.
\<close>

section \<open>State\<close>

record ('m, 'd) kstate =
  ks_vga :: vga
  ks_gdtp :: gdt_ptr
  ks_gdt :: "gdt_entry list"
  ks_tss :: tss_entry
  ks_idtp :: idt_ptr
  ks_idt :: "idt_entry list"
  ks_vm :: vm
  ks_gfx :: gfx
  ks_sched :: sched
  ks_kbd :: kbd
  ks_mouse :: mouse
  ks_wm :: wm
  ks_drive :: ata_drive
  ks_vfs :: "'d vfs"
  ks_mem :: "u32 \<Rightarrow> u8" \<comment> \<open>the memory behind the pointers of user programs\<close>
  ks_desk :: "'m desk" \<comment> \<open>with the interrupt flag\<close>

type_synonym ('m, 'd) ktime = "('m, 'd) kstate timer \<times> ('m, 'd) kstate"

record ('m, 'd) tetos =
  os_port :: 'm
  os_handlers :: "('m, ('m, 'd) ktime) handlers"
  os_timer :: "('m, 'd) kstate timer"
  os_k :: "('m, 'd) kstate"

text \<open>
  What the build and the boot loader provide: the addresses of the tables, of the stack and of the assembly stubs,
  the end of the kernel image, the video mode and the bundled program.
\<close>

record build_env =
  be_gdt :: u32
  be_tss :: u32
  be_stack :: u32
  be_idt :: u32
  be_isr :: "nat \<Rightarrow> u32"
  be_irq :: "nat \<Rightarrow> u32"
  be_kernel_end :: u32
  be_vbe :: vbe_mode_info
  be_hello_elf :: bytes

section \<open>The components' handlers in the one table\<close>

text \<open>A handler of a component works on its part of the state; the rest stays.\<close>

definition lift_handler :: "('k \<Rightarrow> 'p) \<Rightarrow> ('p \<Rightarrow> 'k \<Rightarrow> 'k) \<Rightarrow> ('m, 'p) handler \<Rightarrow> ('m, 'k) handler" where
  "lift_handler get put h regs st =
     (case st of (m, k) \<Rightarrow> map_option (\<lambda>(regs, m, p). (regs, m, put p k)) (h regs (m, get k)))"

text \<open>The entries a component has registered (in an empty table) put into the kernel's table.\<close>

definition add_handlers :: "('k \<Rightarrow> 'p) \<Rightarrow> ('p \<Rightarrow> 'k \<Rightarrow> 'k) \<Rightarrow> ('m, 'p) handlers \<Rightarrow> ('m, 'k) handlers \<Rightarrow> ('m, 'k) handlers" where
  "add_handlers get put new H =
     map2 (\<lambda>n old. case n of None \<Rightarrow> old | Some h \<Rightarrow> Some (lift_handler get put h)) new H"

abbreviation no_handlers :: "('m, 'k) handlers" where
  "no_handlers \<equiv> replicate 256 None"

definition input_part :: "('m, 'd) ktime \<Rightarrow> kbd \<times> mouse \<times> unit" where
  "input_part tk = (ks_kbd (snd tk), ks_mouse (snd tk), ())"

definition put_input :: "kbd \<times> mouse \<times> unit \<Rightarrow> ('m, 'd) ktime \<Rightarrow> ('m, 'd) ktime" where
  "put_input p tk = (fst tk, (snd tk)\<lparr>ks_kbd := fst p, ks_mouse := fst (snd p)\<rparr>)"

text \<open>The heap of the processes is the heap of the windows.\<close>

definition set_sched :: "sched \<Rightarrow> ('m, 'd) kstate \<Rightarrow> ('m, 'd) kstate" where
  "set_sched s k = k\<lparr>ks_sched := s, ks_wm := (ks_wm k)\<lparr>wm_heap := kheap s\<rparr>\<rparr>"

definition call_part :: "('m, 'd) ktime \<Rightarrow> 'd kernel" where
  "call_part tk = (let k = snd tk in \<lparr>k_sched = ks_sched k, k_vfs = ks_vfs k, k_vga = ks_vga k, k_mem = ks_mem k\<rparr>)"

definition put_call :: "'d kernel \<Rightarrow> ('m, 'd) ktime \<Rightarrow> ('m, 'd) ktime" where
  "put_call p tk = (fst tk, (set_sched (k_sched p) (snd tk))\<lparr>ks_vfs := k_vfs p, ks_vga := k_vga p, ks_mem := k_mem p\<rparr>)"

text \<open>
  \<open>schedule\<close> as the hook of the timer. The frame it saves is on the stack, 36 bytes below the value of ESP that
  \<open>pusha\<close> has stored in it (eight registers and \<open>ds\<close>).
\<close>

definition schedule_hook :: "registers \<Rightarrow> ('m, 'd) kstate \<Rightarrow> ('m, 'd) kstate option" where
  "schedule_hook regs k = map_option (\<lambda>s. set_sched s k) (schedule (r_esp regs - 36) (ks_sched k))"

abbreviation "VGA_COLOR_DARK_GREY \<equiv> (8 :: u8)"

section \<open>Boot\<close>

definition upd_k :: "(('m, 'd) kstate \<Rightarrow> ('m, 'd) kstate) \<Rightarrow> ('m, 'd) tetos \<Rightarrow> ('m, 'd) tetos" where
  "upd_k f s = s\<lparr>os_k := f (os_k s)\<rparr>"

definition set_console :: "'m \<times> vga \<Rightarrow> ('m, 'd) tetos \<Rightarrow> ('m, 'd) tetos" where
  "set_console c s = s\<lparr>os_port := fst c, os_k := (os_k s)\<lparr>ks_vga := snd c\<rparr>\<rparr>"

definition on_console :: "('m \<times> vga \<Rightarrow> 'm \<times> vga) \<Rightarrow> ('m, 'd) tetos \<Rightarrow> ('m, 'd) tetos" where
  "on_console f s = set_console (f (os_port s, ks_vga (os_k s))) s"

text \<open>\<open>serial_puts("[SERIAL] ...\r\n")\<close>, the console, and a character with the marker's attribute stored in video memory.\<close>

definition put_serial :: "'m ports \<Rightarrow> string \<Rightarrow> ('m, 'd) tetos \<Rightarrow> ('m, 'd) tetos option" where
  "put_serial P t s = map_option (\<lambda>m. s\<lparr>os_port := m\<rparr>) (serial_puts P (ascii (''[SERIAL] '' @ t) @ [0x0D, 0x0A]) (os_port s))"

definition put_text :: "'m ports \<Rightarrow> bytes \<Rightarrow> ('m, 'd) tetos \<Rightarrow> ('m, 'd) tetos" where
  "put_text P t s = on_console (vga_write P t) s"

definition put_color :: "'m ports \<Rightarrow> bytes \<Rightarrow> u8 \<Rightarrow> ('m, 'd) tetos \<Rightarrow> ('m, 'd) tetos" where
  "put_color P t fg s = on_console (vga_write_color P t fg VGA_COLOR_BLACK) s"

definition put_ok :: "'m ports \<Rightarrow> string \<Rightarrow> ('m, 'd) tetos \<Rightarrow> ('m, 'd) tetos" where
  "put_ok P t s = put_text P (ascii_line t) (put_color P (ascii ''[OK]'') VGA_COLOR_LIGHT_GREEN s)"

definition put_none :: "'m ports \<Rightarrow> string \<Rightarrow> ('m, 'd) tetos \<Rightarrow> ('m, 'd) tetos" where
  "put_none P t s = put_text P (ascii_line t) (put_color P (ascii ''[--]'') VGA_COLOR_DARK_GREY s)"

definition mark :: "nat \<Rightarrow> char \<Rightarrow> ('m, 'd) tetos \<Rightarrow> ('m, 'd) tetos" where
  "mark i c s = on_console (\<lambda>(m, v). (m, v\<lparr>vga_buffer := (vga_buffer v)[i := of_char c OR push_bit 8 0x0F]\<rparr>)) s"

text \<open>The first part of \<open>kernel_main\<close>: the serial line, the markers, the console, the segments and the greeting.\<close>

definition greeting :: "'m ports \<Rightarrow> ('m, 'd) tetos \<Rightarrow> ('m, 'd) tetos" where
  "greeting P s =
     (let s = put_text P [0x0A] s;
          s = put_color P (ascii_line ''          === tetOS v0.1.0 ==='') VGA_COLOR_LIGHT_CYAN s;
          s = put_color P (ascii_line ''     Hello from tetOS C Kernel!'' @ [0x0A]) VGA_COLOR_YELLOW s;
          s = put_color P (ascii_line ''          .-.          '') VGA_COLOR_LIGHT_RED s;
          s = put_color P (ascii ''     .--/      '' @ [0x5C] @ ascii_line ''--.     '') VGA_COLOR_LIGHT_RED s;
          s = put_color P (ascii ''  ( ( ) | ^  ^ | ( ( )   '') VGA_COLOR_LIGHT_RED s;
          s = put_text P (ascii_line ''   < Kasane Teto says hi!'') s;
          s = put_color P (ascii_line ''  ( ~ ) |   v  | ( ~ )   '') VGA_COLOR_LIGHT_RED s;
          s = put_color P (ascii ''     (@)'' @ [0x5C] @ ascii_line ''______/(@) '') VGA_COLOR_LIGHT_RED s;
          s = put_text P [0x0A] s
      in put_ok P '' Protected Mode initialized'' s)"

definition boot_console :: "'m ports \<Rightarrow> build_env \<Rightarrow> ('m, 'd) tetos \<Rightarrow> ('m, 'd) tetos option" where
  "boot_console P B s = do {
     let s = s\<lparr>os_port := serial_init P (os_port s)\<rparr>;
     s \<leftarrow> put_serial P ''kernel_main entered'' s;
     let s = fold (\<lambda>(i, c). mark i c) [(0, CHR ''K''), (1, CHR ''E''), (2, CHR ''R''), (3, CHR ''N''), (4, CHR ''E''), (5, CHR ''L''), (6, CHR ''1'')] s;
     let s = on_console (vga_init P) s;
     s \<leftarrow> put_serial P ''vga_init done'' s;
     let s = upd_k (\<lambda>k. case gdt_init (be_gdt B) (be_tss B) (be_stack B) (ks_gdt k) of (gp, gdt, tss) \<Rightarrow>
                       k\<lparr>ks_gdtp := gp, ks_gdt := gdt, ks_tss := tss\<rparr>) s;
     s \<leftarrow> put_serial P ''gdt_init done'' s;
     let s = mark 7 CHR ''2'' s;
     let s = put_ok P '' GDT and TSS initialized'' s;
     Some (greeting P s)
   }"

text \<open>Then descriptors, exception handlers and the system call.\<close>

definition boot_interrupts :: "'m ports \<Rightarrow> 'd dev \<Rightarrow> build_env \<Rightarrow> ('m, 'd) tetos \<Rightarrow> ('m, 'd) tetos option" where
  "boot_interrupts P D B s = do {
     let s = upd_k (\<lambda>k. case idt_init (be_idt B) (ks_idt k) of (ip, idt) \<Rightarrow> k\<lparr>ks_idtp := ip, ks_idt := idt\<rparr>) s;
     s \<leftarrow> put_serial P ''idt_init done'' s;
     let s = mark 8 CHR ''3'' s;
     let s = put_ok P '' IDT initialized'' s;
     let s = (case isr_init P (be_isr B) (be_irq B) (os_port s, ks_idt (os_k s), os_handlers s) of (m, idt, H) \<Rightarrow>
                s\<lparr>os_port := m, os_handlers := H, os_k := (os_k s)\<lparr>ks_idt := idt\<rparr>\<rparr>);
     s \<leftarrow> put_serial P ''isr_init done'' s;
     let s = mark 9 CHR ''4'' s;
     let s = put_ok P '' ISR initialized'' s;
     (new, c) \<leftarrow> syscall_init P D (no_handlers, os_port s, ks_vga (os_k s));
     let s = (set_console c s)\<lparr>os_handlers := add_handlers call_part put_call new (os_handlers s)\<rparr>;
     s \<leftarrow> put_serial P ''syscall_init done'' s;
     Some (put_ok P '' Syscall initialized (int 0x80)'' s)
   }"

text \<open>
  Then frames, paging, the screen and the heap. \<open>vmm_get_kernel_pd\<close> returns the directory from now on,
  and the size of the screen is what the window manager will be told.
\<close>

definition boot_memory :: "'m ports \<Rightarrow> build_env \<Rightarrow> ('m, 'd) tetos \<Rightarrow> ('m, 'd) tetos option" where
  "boot_memory P B s = do {
     let s = upd_k (\<lambda>k. k\<lparr>ks_vm := (ks_vm k)\<lparr>vm_pmm := pmm_init (be_kernel_end B) (vm_pmm (ks_vm k))\<rparr>\<rparr>) s;
     s \<leftarrow> put_serial P ''pmm_init done'' s;
     let s = mark 10 CHR ''5'' s;
     let s = put_ok P '' PMM initialized (120 MB free)'' s;
     let s = upd_k (\<lambda>k. let vm = vmm_init (ks_vm k) in k\<lparr>ks_vm := vm, ks_sched := (ks_sched k)\<lparr>kernel_pd := page_directory vm\<rparr>\<rparr>) s;
     s \<leftarrow> put_serial P ''vmm_init done (paging on)'' s;
     let s = mark 11 CHR ''6'' s;
     let s = put_ok P '' VMM initialized (32 MB identity mapped, paging on)'' s;
     let s = upd_k (\<lambda>k. case graphics_init (be_vbe B) (ks_gfx k, ks_vm k) of (g, vm) \<Rightarrow>
                k\<lparr>ks_vm := vm, ks_gfx := g, ks_wm := (ks_wm k)\<lparr>gfx_w := graphics_get_width g, gfx_h := graphics_get_height g\<rparr>\<rparr>) s;
     s \<leftarrow> put_serial P ''graphics_init done'' s;
     let g = ks_gfx (os_k s);
     c \<leftarrow> kprintf P (ascii ''[SERIAL] gfx mode %ux%u bpp=%u pitch=%u fb=0x%x'' @ [0x0D, 0x0A])
           [Word (graphics_get_width g), Word (graphics_get_height g), Word (ucast (graphics_get_bpp g)), Word (graphics_get_pitch g),
            Word (graphics_framebuffer g)] (os_port s, ks_vga (os_k s));
     let s = set_console c s;
     let s = put_ok P '' Graphics initialized (VESA 1024x768x32)'' s;
     let s = upd_k (\<lambda>k. set_sched ((ks_sched k)\<lparr>kheap := heap_init (kheap (ks_sched k))\<rparr>) k) s;
     s \<leftarrow> put_serial P ''heap_init done'' s;
     Some (put_ok P '' Heap initialized (4 MB at 0x400000)'' s)
   }"

text \<open>Then timer, keyboard, mouse and window manager.\<close>

definition boot_devices :: "'m ports \<Rightarrow> ('m, 'd) tetos \<Rightarrow> ('m, 'd) tetos option" where
  "boot_devices P s = do {
     (m, H, t) \<leftarrow> timer_init P 100 (os_port s, os_handlers s, os_timer s);
     let s = s\<lparr>os_port := m, os_handlers := H, os_timer := t\<rparr>;
     s \<leftarrow> put_serial P ''timer_init done'' s;
     let s = put_ok P '' Timer initialized'' s;
     (m, new) \<leftarrow> keyboard_init P (os_port s, no_handlers);
     let s = s\<lparr>os_port := m, os_handlers := add_handlers input_part put_input new (os_handlers s)\<rparr>;
     s \<leftarrow> put_serial P ''keyboard_init done'' s;
     let s = put_ok P '' Keyboard initialized'' s;
     let g = ks_gfx (os_k s);
     (m, new, ms) \<leftarrow> mouse_init P (graphics_get_width g) (graphics_get_height g) (os_port s, no_handlers, ks_mouse (os_k s));
     let s = s\<lparr>os_port := m, os_handlers := add_handlers input_part put_input new (os_handlers s), os_k := (os_k s)\<lparr>ks_mouse := ms\<rparr>\<rparr>;
     s \<leftarrow> put_serial P ''mouse_init done'' s;
     let s = put_ok P '' Mouse initialized'' s;
     let s = upd_k (\<lambda>k. k\<lparr>ks_wm := wm_init (ks_wm k)\<rparr>) s;
     s \<leftarrow> put_serial P ''wm_init done'' s;
     Some (put_ok P '' Window manager initialized'' s)
   }"

text \<open>Then the disk, the processes and the file system.\<close>

definition boot_files :: "'m ports \<Rightarrow> 'd dev \<Rightarrow> build_env \<Rightarrow> ('m, 'd) tetos \<Rightarrow> ('m, 'd) tetos option" where
  "boot_files P D B s = do {
     let (found, st) = ata_init P \<lparr>machine = os_port s, drive = ks_drive (os_k s)\<rparr>;
     let s = s\<lparr>os_port := machine st, os_k := (os_k s)\<lparr>ks_drive := drive st\<rparr>\<rparr>;
     s \<leftarrow> put_serial P (if found then ''ata_init ok'' else ''ata_init failed'') s;
     let s = (if found then put_ok P '' ATA disk detected'' s else put_none P '' No ATA disk'' s);
     let s = upd_k (\<lambda>k. set_sched (process_init (ks_sched k)) k) s;
     s \<leftarrow> put_serial P ''process_init done'' s;
     let s = s\<lparr>os_timer := timer_set_scheduler (Some schedule_hook) (os_timer s)\<rparr>;
     s \<leftarrow> put_serial P ''timer_set_scheduler done'' s;
     let s = put_ok P '' Process manager initialized'' s;
     let s = upd_k (\<lambda>k. k\<lparr>ks_vfs := fs_init D (ks_vfs k)\<rparr>) s;
     s \<leftarrow> put_serial P ''fs_init done'' s;
     if tetfs_is_mounted (vfs_fs (ks_vfs (os_k s)))
     then do {
       let s = upd_k (\<lambda>k. k\<lparr>ks_vfs := (ks_vfs k)\<lparr>vfs_fs := snd (appseed_install D (be_hello_elf B) (vfs_fs (ks_vfs k)))\<rparr>\<rparr>) s;
       s \<leftarrow> put_serial P ''appseed_install done'' s;
       Some (put_ok P '' tetFS mounted'' s)
     }
     else do {
       s \<leftarrow> put_serial P ''tetFS not mounted'' s;
       Some (put_none P '' tetFS not formatted (run \\'format\\')'' s)
     }
   }"

text \<open>
  The desktop and the window manager work on their own variables and on the shared ones; the shared ones are
  handed over before and taken back after a call. The desktop only reads ticks, frames, processes and drive.
\<close>

definition desk_now :: "('m, 'd) tetos \<Rightarrow> 'm desk" where
  "desk_now s = (ks_desk (os_k s))\<lparr>d_port := os_port s, d_ticks := timer_ticks (os_timer s), d_pmm := vm_pmm (ks_vm (os_k s)),
     d_sched := ks_sched (os_k s), d_drive := ks_drive (os_k s)\<rparr>"

definition desk_back :: "wm \<Rightarrow> 'm desk \<Rightarrow> ('m, 'd) tetos \<Rightarrow> ('m, 'd) tetos" where
  "desk_back w d s = s\<lparr>os_port := d_port d, os_k := (os_k s)\<lparr>ks_sched := (ks_sched (os_k s))\<lparr>kheap := wm_heap w\<rparr>, ks_wm := w, ks_desk := d\<rparr>\<rparr>"

text \<open>At the end the last messages, interrupts on, and the desktop.\<close>

definition boot_end :: "'m ports \<Rightarrow> ('m, 'd) tetos \<Rightarrow> ('m, 'd) tetos option" where
  "boot_end P s = do {
     let s = put_ok P '' VGA text mode active (80x50)'' s;
     let s = put_text P [0x0A] s;
     let s = on_console (\<lambda>(m, v). (m, vga_set_color VGA_COLOR_LIGHT_MAGENTA VGA_COLOR_BLACK v)) s;
     let s = put_text P (ascii_line ''  \"my love, can you teach me to be real?\"'') s;
     let s = on_console (\<lambda>(m, v). (m, vga_set_color VGA_COLOR_DARK_GREY VGA_COLOR_BLACK v)) s;
     let s = put_text P (ascii_line ''    - Machine Love (feat. Kasane Teto)'' @ [0x0A]) s;
     let s = on_console (\<lambda>(m, v). (m, vga_set_color VGA_COLOR_WHITE VGA_COLOR_BLACK v)) s;
     s \<leftarrow> put_serial P ''enabling interrupts (sti)'' s;
     let s = upd_k (\<lambda>k. k\<lparr>ks_desk := (ks_desk k)\<lparr>d_interrupts := True\<rparr>\<rparr>) s;
     (w, d) \<leftarrow> desktop_init (ks_wm (os_k s), desk_now s);
     put_serial P ''desktop_init done'' (desk_back w d s)
   }"

text \<open>\<open>kernel_main\<close> up to its loop.\<close>

definition kernel_main_init :: "'m ports \<Rightarrow> 'd dev \<Rightarrow> build_env \<Rightarrow> ('m, 'd) tetos \<Rightarrow> ('m, 'd) tetos option" where
  "kernel_main_init P D B s = do {
     s \<leftarrow> boot_console P B s;
     s \<leftarrow> boot_interrupts P D B s;
     s \<leftarrow> boot_memory P B s;
     s \<leftarrow> boot_devices P s;
     s \<leftarrow> boot_files P D B s;
     boot_end P s
   }"

section \<open>Running\<close>

text \<open>The body of the loop before \<open>hlt\<close>.\<close>

definition kernel_turn :: "'m ports \<Rightarrow> ('m, 'd) tetos \<Rightarrow> ('m, 'd) tetos outcome" where
  "kernel_turn P s =
     (case desktop_update P (ks_mouse (os_k s), ks_kbd (os_k s), ks_wm (os_k s), desk_now s) of
        None \<Rightarrow> Stuck
      | Some (ms, kb, w, r) \<Rightarrow>
          let s = upd_k (\<lambda>k. k\<lparr>ks_kbd := kb, ks_mouse := ms\<rparr>) s in
          case r of
            Stuck \<Rightarrow> Stuck
          | Halted d \<Rightarrow> Halted (desk_back w d s)
          | Running d \<Rightarrow>
              case desktop_render ms (w, ks_gfx (os_k s), d) of
                None \<Rightarrow> Stuck
              | Some (w, g, d) \<Rightarrow> Running (upd_k (\<lambda>k. k\<lparr>ks_gfx := g\<rparr>) (desk_back w d s)))"

text \<open>An interrupt of the hardware line \<open>n\<close>: the stub stores the number 32 + n and calls \<open>irq_handler\<close>.\<close>

definition kernel_irq :: "'m ports \<Rightarrow> nat \<Rightarrow> registers \<Rightarrow> ('m, 'd) tetos \<Rightarrow> ('m, 'd) tetos outcome" where
  "kernel_irq P n regs s =
     (case irq_handler P (os_handlers s) (regs\<lparr>r_int_no := of_nat (32 + n)\<rparr>) (os_port s, os_timer s, os_k s) of
        None \<Rightarrow> Stuck
      | Some (_, m, t, k) \<Rightarrow> Running (s\<lparr>os_port := m, os_timer := t, os_k := k\<rparr>))"

text \<open>What happens next: a turn of the loop, or an interrupt of one of the sixteen lines while they are enabled.\<close>

inductive kernel_step :: "'m ports \<Rightarrow> ('m, 'd) tetos outcome \<Rightarrow> ('m, 'd) tetos outcome \<Rightarrow> bool" for P where
  turn: "kernel_step P (Running s) (kernel_turn P s)"
| irq: "n < 16 \<Longrightarrow> d_interrupts (ks_desk (os_k s)) \<Longrightarrow> kernel_step P (Running s) (kernel_irq P n regs s)"

end
