(* ===== verification/KernelProps.thy ===== *)
theory KernelProps
  imports Kernel DesktopPicture ShellFiles
begin

text \<open>
  The kernel as a whole never gets stuck: the boot sequence establishes an invariant over all components, and
  every turn of the loop and every hardware interrupt keeps it.
\<close>

section \<open>The scheduler with one process\<close>

text \<open>The desktop runs in process 0 and creates no other; a tick then never asks for a switch.\<close>

definition solo :: "sched \<Rightarrow> bool" where
  "solo s \<longleftrightarrow> sched_ok s 0 [] \<and> p_state (process_table s ! 0) = PROC_RUNNING \<and> p_stack (process_table s ! 0) = 0 \<and>
     sched_switch_esp s = 0 \<and> (\<forall>p \<in> set (process_table s). terminated (p_name p))"

lemma solo_parts:
  assumes "solo s"
  shows "current_process s = Some 0" "length (process_table s) = MAX_PROCS" "p_next (process_table s ! 0) = Some 0" "sched_wf s"
  using assms sched_wfI [of s 0 "[]"] by (auto simp: solo_def sched_ok_def ring_def)

lemma names_upd:
  "\<forall>p \<in> set tab. terminated (p_name p) \<Longrightarrow> (\<And>p. p_name (f p) = p_name p) \<Longrightarrow> i < length tab \<Longrightarrow> \<forall>p \<in> set (upd i f tab). terminated (p_name p)"
  unfolding upd_def by (auto dest!: subsetD [OF set_update_subset_insert])

lemma solo_tick:
  assumes "solo s"
  shows "\<exists>s'. schedule regs s = Some s' \<and> solo s' \<and> kheap s' = kheap s"
proof -
  note parts = solo_parts [OF assms]
  have ok: "sched_ok s 0 []" and run: "p_state (process_table s ! 0) = PROC_RUNNING" using assms by (auto simp: solo_def)
  show ?thesis
  proof (cases "quantum_count s + 1 < SCHED_QUANTUM")
    case True
    have "sched_ok (s\<lparr>quantum_count := quantum_count s + 1\<rparr>) 0 []"
      using ok by (simp add: sched_ok_def pids_ok_def stacks_ok_def)
    then show ?thesis using True parts(1) run assms by (auto simp: schedule_def solo_def)
  next
    case False
    let ?f = "\<lambda>p. p\<lparr>p_esp := regs\<rparr>" and ?g = "\<lambda>p. p\<lparr>p_state := PROC_READY\<rparr>" and ?h = "\<lambda>p. p\<lparr>p_state := PROC_RUNNING\<rparr>"
    let ?tab = "upd 0 ?h (upd 0 ?g (upd 0 ?f (process_table s)))"
    have l: "0 < length (process_table s)" using parts(2) by simp
    have "schedule regs s = Some (s\<lparr>quantum_count := 0, process_table := ?tab\<rparr>)"
      using parts(1,3) run False l by (simp add: schedule_def set_state_def upd_nth find_candidate.simps Let_def)
    moreover have "\<forall>p \<in> set ?tab. terminated (p_name p)"
      using assms l by (intro names_upd) (simp_all add: solo_def)
    moreover obtain s' where "schedule regs s = Some s'" "sched_ok s' 0 []" "p_state (process_table s' ! 0) = PROC_RUNNING"
      using schedule_running_ok [OF ok run False, of regs] by (auto simp: first_ready_def)
    ultimately show ?thesis using assms l by (auto simp: solo_def upd_nth)
  qed
qed

text \<open>Another heap does not matter to a table without stacks.\<close>

lemma solo_heap: "solo s \<Longrightarrow> heap_inv h \<Longrightarrow> solo (s\<lparr>kheap := h\<rparr>)"
  by (auto simp: solo_def sched_ok_def pids_ok_def stacks_ok_def)

section \<open>The invariant\<close>

text \<open>The table of the handlers: fatal exceptions, timer, keyboard, mouse and system call, and nothing else.\<close>

definition handlers_are :: "'m ports \<Rightarrow> 'd dev \<Rightarrow> u32 \<Rightarrow> u32 \<Rightarrow> ('m, ('m, 'd) ktime) handlers \<Rightarrow> bool" where
  "handlers_are P D w h H \<longleftrightarrow> length H = 256 \<and>
     (\<forall>v < 256. H ! v =
        (if v = 6 \<or> v = 13 \<or> v = 14 then Some fatal_exception
         else if v = 32 then Some timer_irq
         else if v = 33 then Some (lift_handler input_part put_input (keyboard_irq P))
         else if v = 44 then Some (lift_handler input_part put_input (mouse_handler P w h))
         else if v = 128 then Some (lift_handler call_part put_call (syscall_handler (syscall_table P D)))
         else None))"

text \<open>Every component is well formed and what they share agrees.\<close>

definition kernel_inv :: "'m ports \<Rightarrow> 'd dev \<Rightarrow> ('m, 'd) tetos \<Rightarrow> bool" where
  "kernel_inv P D s \<longleftrightarrow>
     (let k = os_k s in
      (\<exists>zs. desk_inv (ks_wm k) (desk_now s) zs) \<and> solo (ks_sched k) \<and> kheap (ks_sched k) = wm_heap (ks_wm k) \<and>
      kbd_inv (ks_kbd k) \<and> mouse_inv (ks_mouse k) \<and>
      gfx_w (ks_wm k) = graphics_width (ks_gfx k) \<and> gfx_h (ks_wm k) = graphics_height (ks_gfx k) \<and>
      handlers_are P D (graphics_width (ks_gfx k)) (graphics_height (ks_gfx k)) (os_handlers s) \<and>
      sched_hook (os_timer s) = Some schedule_hook \<and> sched_hook_enabled (os_timer s) = 1)"

lemma desk_ok_shared [simp]:
  "desk_ok (d\<lparr>d_port := m\<rparr>) = desk_ok d" "desk_ok (d\<lparr>d_ticks := t\<rparr>) = desk_ok d" "desk_ok (d\<lparr>d_pmm := p\<rparr>) = desk_ok d"
  "desk_ok (d\<lparr>d_sched := sc\<rparr>) = desk_ok d" "desk_ok (d\<lparr>d_drive := dr\<rparr>) = desk_ok d"
  by (simp_all add: desk_ok_def term_ok_def)

text \<open>Of the shared variables only the processes matter to the desktop's invariant, and only that they are well formed.\<close>

lemma desk_inv_shared:
  assumes "desk_inv w d zs" "sched_wf sc"
  shows "desk_inv w (d\<lparr>d_port := m, d_ticks := t, d_pmm := p, d_sched := sc, d_drive := dr\<rparr>) zs"
  using assms by (simp add: desk_inv_def)

lemma desk_inv_now:
  assumes "desk_inv (ks_wm (os_k s)) (desk_now s) zs" "ks_wm (os_k s') = ks_wm (os_k s)" "ks_desk (os_k s') = ks_desk (os_k s)" "solo (ks_sched (os_k s'))"
  shows "desk_inv (ks_wm (os_k s')) (desk_now s') zs"
  using assms(1) desk_inv_shared [OF _ solo_parts(4) [OF assms(4)], of "ks_wm (os_k s)" "desk_now s" zs "ks_drive (os_k s')"
      "vm_pmm (ks_vm (os_k s'))" "timer_ticks (os_timer s')" "os_port s'"]
  by (simp add: desk_now_def assms(2,3))

section \<open>The size of the screen\<close>

text \<open>What the window manager takes for the size of the screen is never changed by it or by the desktop.\<close>

definition dims_of :: "wm \<Rightarrow> u32 \<times> u32" where
  "dims_of s = (gfx_w s, gfx_h s)"

lemma screen_ops [simp]:
  "dims_of (upd_win z f s) = dims_of s" "dims_of (wm_focus_internal z s) = dims_of s" "dims_of (wm_focus_window z s) = dims_of s"
  "dims_of (wm_apply_bounds z s) = dims_of s" "dims_of (wm_refresh_screen s) = dims_of s"
  "dims_of (wm_hide_window z s) = dims_of s" "dims_of (wm_show_window z s) = dims_of s"
  "dims_of (wm_set_ops z ops u s) = dims_of s" "dims_of (wm_set_background z bg s) = dims_of s"
  "dims_of (wm_maximize_toggle z s) = dims_of s" "dims_of (wm_drag ev s) = dims_of s"
  "dims_of (s\<lparr>wm_dragging := z\<rparr>) = dims_of s" "dims_of (s\<lparr>wm_last_buttons := b\<rparr>) = dims_of s"
  "dims_of (s\<lparr>wm_heap := h\<rparr>) = dims_of s"
  by (simp_all add: dims_of_def wm_focus_window_def wm_hide_window_def wm_show_window_def wm_set_ops_def wm_set_background_def
      wm_maximize_toggle_def wm_drag_def wm_refresh_screen_def Let_def)

lemma screen_close: "dims_of (fst (env_close (desk_calls P) f z u st)) = dims_of (fst st)"
  by (cases st) (simp add: desk_calls_def term_on_close_def editor_on_close_def taskmgr_on_close_def neofetch_on_close_def)

lemma screen_click: "dims_of (fst (env_click (desk_calls P) f z pt b d u st)) = dims_of (fst st)"
  by (cases st) (simp add: desk_calls_def)

lemma screen_event: "wm_event (desk_calls P) ev st = Some st' \<Longrightarrow> dims_of (fst st') = dims_of (fst st)"
proof -
  have press: "dims_of (fst (press_on (desk_calls P) ev z st)) = dims_of (fst st)" for z st
    by (simp add: press_on_def Let_def screen_close screen_click)
  have rel: "dims_of (fst (wm_released (desk_calls P) ev st)) = dims_of (fst st)" for st
    by (simp add: wm_released_def Let_def screen_click)
  have pressed: "wm_pressed (desk_calls P) ev st = Some st' \<Longrightarrow> dims_of (fst st') = dims_of (fst st)" for st st'
    by (auto simp: wm_pressed_def press split: option.splits if_splits)
  show "wm_event (desk_calls P) ev st = Some st' \<Longrightarrow> dims_of (fst st') = dims_of (fst st)"
    by (auto simp: wm_event_def Let_def rel dest: pressed split: option.splits if_splits)
qed

lemma screen_update:
  assumes "wm_update (desk_calls P) ms st = Some (ms', st')"
  shows "dims_of (fst st') = dims_of (fst st)"
proof -
  have "desk_calls P = desk_calls P \<longrightarrow> dims_of (fst (snd (ms', st'))) = dims_of (fst st)"
  proof (rule wm_update.raw_induct [where P = "\<lambda>E ms st r. E = desk_calls P \<longrightarrow> dims_of (fst (snd r)) = dims_of (fst st)"])
    fix rec :: "'a desk outcome wm_env \<Rightarrow> mouse \<Rightarrow> wm \<times> 'a desk outcome \<Rightarrow> (mouse \<times> wm \<times> 'a desk outcome) option" and E ms st r
    assume ih: "\<And>E ms st r. rec E ms st = Some r \<Longrightarrow> E = desk_calls P \<longrightarrow> dims_of (fst (snd r)) = dims_of (fst st)"
      and run: "(case mouse_read_event ms of None \<Rightarrow> Some (ms, st)
        | Some (ev, ms) \<Rightarrow> (case wm_event E ev st of None \<Rightarrow> None | Some st \<Rightarrow> rec E ms st)) = Some r"
    show "E = desk_calls P \<longrightarrow> dims_of (fst (snd r)) = dims_of (fst st)"
    proof
      assume "E = desk_calls P"
      with run show "dims_of (fst (snd r)) = dims_of (fst st)"
        by (auto split: option.splits prod.splits dest!: ih screen_event)
    qed
  qed (rule assms)
  then show ?thesis by simp
qed

lemma screen_create_app: "desktop_create_app i (s, d) = Some (s', d') \<Longrightarrow> dims_of s' = dims_of s"
proof -
  have "wm_create_window x y w h t s = Some (z, s') \<Longrightarrow> dims_of s' = dims_of s" for x y w h t z s s'
    by (auto simp: wm_create_window_def wm_copy_title_def wm_refresh_screen_def dims_of_def Let_def split: option.splits if_splits)
  then show "desktop_create_app i (s, d) = Some (s', d') \<Longrightarrow> dims_of s' = dims_of s"
    by (auto simp: desktop_create_app_def Let_def split: option.splits prod.splits if_splits)
qed

lemma screen_toggle: "desktop_toggle_app i (s, d) = Some (s', d') \<Longrightarrow> dims_of s' = dims_of s"
  by (auto simp: desktop_toggle_app_def desktop_close_app_def desktop_open_app_def Let_def split: if_splits dest: screen_create_app)

lemma screen_pressed: "desktop_pressed P mx my (s, d) = Some (s', r) \<Longrightarrow> dims_of s' = dims_of s"
  by (auto simp: desktop_pressed_def split: if_splits option.splits dest: screen_toggle)

lemma screen_turn:
  assumes "desk_inv s d zs" "kbd_inv kb" "desktop_update P (ms, kb, s, d) = Some (ms', kb', s', r)"
  shows "dims_of s' = dims_of s"
proof -
  obtain kb1 where k: "desktop_keys P kb (s, Running d) = Some (kb1, s, app_keys P s (kbd_keys kb) d)"
    using keys_delivered [OF desk_inv_focus [OF assms(1)] assms(2)] by blast
  have windows: "desktop_windows P b ms (s1, r1) = Some (ms', s', r) \<Longrightarrow> dims_of s' = dims_of s1" for b s1 r1
    using screen_update [of P ms "(s1, r1')" ms' "(s', r)" for r1'] by (cases r1) (auto simp: desktop_windows_def)
  show ?thesis
    using assms(3)
    by (auto simp: desktop_update_def mouse_get_position_def Let_def k split: option.splits if_splits outcome.splits
        dest!: windows screen_pressed)
qed

section \<open>The steps keep it\<close>

lemma kbd_inv_flags [simp]:
  "kbd_inv (s\<lparr>ctrl_down := b\<rparr>) = kbd_inv s" "kbd_inv (s\<lparr>alt_down := b\<rparr>) = kbd_inv s"
  "kbd_inv (s\<lparr>caps_lock := b\<rparr>) = kbd_inv s" "kbd_inv (s\<lparr>ext_prefix := b\<rparr>) = kbd_inv s"
  by (simp_all add: kbd_inv_def)

lemma kbd_inv_callback: "kbd_inv s \<Longrightarrow> kbd_inv (keyboard_callback sc s)"
  by (simp add: keyboard_callback_def Let_def key_fifo.invar_enq)

lemma kernel_turn_safe:
  assumes "kernel_inv P D s"
  shows "case kernel_turn P s of
      Running e \<Rightarrow> kernel_inv P D e
    | Halted e \<Rightarrow> \<not> d_interrupts (ks_desk (os_k e))
    | Stuck \<Rightarrow> controller_wait P 0x02 (os_port s) = None"
proof -
  let ?k = "os_k s"
  obtain zs where inv: "desk_inv (ks_wm ?k) (desk_now s) zs" using assms by (auto simp: kernel_inv_def Let_def)
  have parts: "mouse_inv (ks_mouse ?k)" "kbd_inv (ks_kbd ?k)" "solo (ks_sched ?k)" using assms by (auto simp: kernel_inv_def Let_def)
  have now: "d_sched (desk_now s) = ks_sched ?k" "d_port (desk_now s) = os_port s" by (simp_all add: desk_now_def)
  obtain ms kb w r where u: "desktop_update P (ks_mouse ?k, ks_kbd ?k, ks_wm ?k, desk_now s) = Some (ms, kb, w, r)" "mouse_inv ms" "kbd_inv kb"
    "case r of Running e \<Rightarrow> (\<exists>zs'. desk_inv w e zs') \<and> d_sched e = d_sched (desk_now s) \<and> kbd_keys kb = [] \<and> mouse_events ms = [] \<and>
         desktop_last_buttons e = mouse_buttons (ks_mouse ?k)
       | Halted e \<Rightarrow> \<not> d_interrupts e | Stuck \<Rightarrow> controller_wait P 0x02 (d_port (desk_now s)) = None"
    using desktop_turn [OF inv parts(1,2), of P] by (elim exE conjE) (rule that)
  show ?thesis
  proof (cases r)
    case (Running e)
    with u(4) obtain zs' where e: "desk_inv w e zs'" "d_sched e = ks_sched ?k" by (auto simp: now)
    have "names_ok e" using parts(3) e(2) by (auto simp: names_ok_def solo_def)
    from render_returns [OF e(1) this] obtain g where
      g: "desktop_render ms (w, ks_gfx ?k, e) = Some (w, g, e)" "same_size (ks_gfx ?k) g" by blast
    let ?e = "upd_k (\<lambda>k. k\<lparr>ks_gfx := g\<rparr>) (desk_back w e (upd_k (\<lambda>k. k\<lparr>ks_kbd := kb, ks_mouse := ms\<rparr>) s))"
    have run: "kernel_turn P s = Running ?e" using u(1) g(1) Running by (simp add: kernel_turn_def Let_def upd_k_def)
    have heap: "heap_inv (wm_heap w)" using e(1) by (simp add: desk_inv_def wm_ok_def)
    have solo: "solo ((ks_sched ?k)\<lparr>kheap := wm_heap w\<rparr>)" by (rule solo_heap [OF parts(3) heap])
    have "desk_inv w (desk_now ?e) zs'"
      using desk_inv_shared [OF e(1) solo_parts(4) [OF solo], of "ks_drive ?k" "vm_pmm (ks_vm ?k)" "timer_ticks (os_timer s)" "d_port e"]
      by (simp add: desk_now_def desk_back_def upd_k_def)
    moreover have "dims_of w = dims_of (ks_wm ?k)" using screen_turn [OF inv parts(2)] u(1) by simp
    ultimately have "kernel_inv P D ?e"
      using assms solo u(2,3) g(2) by (auto simp: kernel_inv_def Let_def dims_of_def same_size_def desk_back_def upd_k_def)
    then show ?thesis by (simp add: run)
  qed (use u in \<open>simp_all add: kernel_turn_def desk_back_def upd_k_def now Let_def\<close>)
qed

lemma mouse_handler_inv:
  assumes "mouse_inv ms"
  shows "\<exists>m' ms'. mouse_handler P w h regs (m, kb, ms, k) = Some (regs, m', kb, ms', k) \<and> mouse_inv ms'"
  using assms mouse_inv_irq [OF assms] by (cases "inb P 0x64 m"; cases "inb P 0x60 (snd (inb P 0x64 m))") (simp add: mouse_handler_def)

text \<open>The three lines the kernel handles, and the others.\<close>

lemma irq_handler_line:
  assumes "n < 16"
  shows "irq_handler P H (regs\<lparr>r_int_no := of_nat (32 + n)\<rparr>) (m, k) =
    (let m = outb P 0x20 0x20 (if 8 \<le> n then outb P 0xA0 0x20 m else m); regs = regs\<lparr>r_int_no := of_nat (32 + n)\<rparr>
     in case H ! (32 + n) of Some h \<Rightarrow> h regs (m, k) | None \<Rightarrow> Some (regs, m, k))"
proof -
  have u: "unat (of_nat (32 + n) :: u32) = 32 + n" using assms by (intro unat_of_nat_small) simp
  then have "(of_nat (32 + n) :: u32) < 256" "40 \<le> (of_nat (32 + n) :: u32) \<longleftrightarrow> 8 \<le> n"
    using assms by (simp_all only: word_less_nat_alt word_le_nat_alt) auto
  with u show ?thesis by (simp add: irq_handler_def Let_def del: of_nat_add)
qed

lemma kernel_irq_safe:
  assumes "kernel_inv P D s" "n < 16"
  shows "\<exists>s'. kernel_irq P n regs s = Running s' \<and> kernel_inv P D s'"
proof -
  let ?k = "os_k s" and ?r = "regs\<lparr>r_int_no := of_nat (32 + n)\<rparr>"
  let ?m = "outb P 0x20 0x20 (if 8 \<le> n then outb P 0xA0 0x20 (os_port s) else os_port s)"
  have h: "handlers_are P D (graphics_width (ks_gfx ?k)) (graphics_height (ks_gfx ?k)) (os_handlers s)"
    using assms(1) by (simp add: kernel_inv_def Let_def)
  obtain zs where inv: "desk_inv (ks_wm ?k) (desk_now s) zs" using assms(1) by (auto simp: kernel_inv_def Let_def)
  note step = irq_handler_line [OF assms(2), of P "os_handlers s" regs "os_port s" "(os_timer s, ?k)"]
  have at: "os_handlers s ! (32 + n) =
      (if n = 0 then Some timer_irq
       else if n = 1 then Some (lift_handler input_part put_input (keyboard_irq P))
       else if n = 12 then Some (lift_handler input_part put_input (mouse_handler P (graphics_width (ks_gfx ?k)) (graphics_height (ks_gfx ?k))))
       else None)"
    using h assms(2) by (simp add: handlers_are_def)
  consider "n = 0" | "n = 1" | "n = 12" | "n \<notin> {0, 1, 12}" by blast
  then show ?thesis
  proof cases
    case 1
    obtain sc where sc: "schedule (r_esp regs - 36) (ks_sched ?k) = Some sc" "solo sc" "kheap sc = kheap (ks_sched ?k)"
      using solo_tick [of "ks_sched ?k" "r_esp regs - 36"] assms(1) by (auto simp: kernel_inv_def Let_def)
    let ?s = "s\<lparr>os_port := ?m, os_timer := (os_timer s)\<lparr>tick_count := tick_count (os_timer s) + 1\<rparr>, os_k := set_sched sc ?k\<rparr>"
    have wm: "ks_wm (set_sched sc ?k) = ks_wm ?k" using assms(1) sc(3) by (simp add: set_sched_def kernel_inv_def Let_def)
    have "kernel_irq P n regs s = Running ?s"
      using step at 1 sc(1) assms(1)
      by (simp add: kernel_irq_def timer_irq_def timer_callback_def schedule_hook_def kernel_inv_def Let_def)
    moreover have "desk_inv (ks_wm (os_k ?s)) (desk_now ?s) zs"
      by (rule desk_inv_now [OF inv]) (use wm sc(2) in \<open>simp_all add: set_sched_def\<close>)
    ultimately show ?thesis using assms(1) sc(2,3) wm
      by (intro exI [of _ ?s]) (auto simp: kernel_inv_def Let_def set_sched_def)
  next
    case 2
    let ?s = "s\<lparr>os_port := snd (inb P 0x60 ?m), os_k := ?k\<lparr>ks_kbd := keyboard_callback (fst (inb P 0x60 ?m)) (ks_kbd ?k)\<rparr>\<rparr>"
    have "kernel_irq P n regs s = Running ?s"
      using step at 2 by (simp add: kernel_irq_def lift_handler_def keyboard_irq_def input_part_def put_input_def Let_def split: prod.split)
    moreover have "desk_inv (ks_wm (os_k ?s)) (desk_now ?s) zs"
      by (rule desk_inv_now [OF inv]) (use assms(1) in \<open>simp_all add: kernel_inv_def Let_def\<close>)
    ultimately show ?thesis using assms(1) by (intro exI [of _ ?s]) (auto simp: kernel_inv_def Let_def kbd_inv_callback)
  next
    case 3
    have mi: "mouse_inv (ks_mouse ?k)" and ip: "input_part (os_timer s, ?k) = (ks_kbd ?k, ks_mouse ?k, ())"
      using assms(1) by (simp_all add: kernel_inv_def input_part_def Let_def)
    obtain m' ms where ms: "mouse_inv ms" "mouse_handler P (graphics_width (ks_gfx ?k)) (graphics_height (ks_gfx ?k)) ?r (?m, input_part (os_timer s, ?k)) =
        Some (?r, m', ks_kbd ?k, ms, ())"
      using mouse_handler_inv [OF mi, of P "graphics_width (ks_gfx ?k)" "graphics_height (ks_gfx ?k)" ?r ?m "ks_kbd ?k" "()"]
      unfolding ip by blast
    let ?s = "s\<lparr>os_port := m', os_k := ?k\<lparr>ks_kbd := ks_kbd ?k, ks_mouse := ms\<rparr>\<rparr>"
    have "kernel_irq P n regs s = Running ?s"
      using step at 3 ms(2) by (simp add: kernel_irq_def lift_handler_def put_input_def Let_def)
    moreover have "desk_inv (ks_wm (os_k ?s)) (desk_now ?s) zs"
      by (rule desk_inv_now [OF inv]) (use assms(1) in \<open>simp_all add: kernel_inv_def Let_def\<close>)
    ultimately show ?thesis using assms(1) ms(1) by (intro exI [of _ ?s]) (auto simp: kernel_inv_def Let_def)
  next
    case 4
    let ?s = "s\<lparr>os_port := ?m\<rparr>"
    have "kernel_irq P n regs s = Running ?s" using step at 4 by (simp add: kernel_irq_def Let_def)
    moreover have "desk_inv (ks_wm (os_k ?s)) (desk_now ?s) zs"
      by (rule desk_inv_now [OF inv]) (use assms(1) in \<open>simp_all add: kernel_inv_def Let_def\<close>)
    ultimately show ?thesis using assms(1) by (intro exI [of _ ?s]) (auto simp: kernel_inv_def Let_def)
  qed
qed

section \<open>Boot\<close>

text \<open>
  What the loader leaves: an empty table of handlers and zero variables. Nothing is said about video memory, the
  heap, the frame bitmap, the descriptor tables or the disk.
\<close>

definition loaded :: "('m, 'd) tetos \<Rightarrow> bool" where
  "loaded s \<longleftrightarrow>
     (let k = os_k s in
      os_handlers s = no_handlers \<and> process_table (ks_sched k) = replicate 16 empty_slot \<and> next_pid (ks_sched k) = 0 \<and>
      sched_switch_esp (ks_sched k) = 0 \<and> ks_kbd k = kbd_boot \<and> ks_mouse k = mouse_boot \<and>
      (\<exists>m p sc dr. ks_desk k = desk_boot m p sc dr))"

text \<open>The boot loader has set a mode of at most 1280 by 720 pixels of 24 or 32 bits.\<close>

definition mode_accepted :: "vbe_mode_info \<Rightarrow> bool" where
  "mode_accepted b \<longleftrightarrow> (case vesa_get_boot_mode b of None \<Rightarrow> False
     | Some info \<Rightarrow> vm_width info \<le> GRAPHICS_MAX_WIDTH \<and> vm_height info \<le> GRAPHICS_MAX_HEIGHT)"

text \<open>The serial line gets ready and the keyboard controller runs out of old bytes.\<close>

definition devices_ready :: "'m ports \<Rightarrow> bool" where
  "devices_ready P \<longleftrightarrow> serial_ready P \<and> (\<forall>m. ps2_flush_output P m \<noteq> None)"

text \<open>Two states that agree on everything the invariant speaks of; messages change nothing of that.\<close>

definition same :: "('m, 'd) tetos \<Rightarrow> ('m, 'd) tetos \<Rightarrow> bool" where
  "same s s' \<longleftrightarrow> os_handlers s' = os_handlers s \<and> os_timer s' = os_timer s \<and>
     ks_sched (os_k s') = ks_sched (os_k s) \<and> ks_kbd (os_k s') = ks_kbd (os_k s) \<and> ks_mouse (os_k s') = ks_mouse (os_k s) \<and>
     ks_wm (os_k s') = ks_wm (os_k s) \<and> ks_gfx (os_k s') = ks_gfx (os_k s) \<and> ks_desk (os_k s') = ks_desk (os_k s)"

lemma same_refl: "same s s"
  by (simp add: same_def)

lemma same_trans: "same s t \<Longrightarrow> same t u \<Longrightarrow> same s u"
  by (simp add: same_def)

lemma same_console: "same s (set_console c s)"
  by (simp add: same_def set_console_def)

lemma same_on: "same s (on_console f s)"
  by (simp add: on_console_def same_console)

lemma same_text: "same s (put_text P t s)" "same s (put_color P t c s)" "same s (mark i ch s)"
  by (simp_all add: put_text_def put_color_def mark_def same_on)

lemma same_ok: "same s (put_ok P u s)" "same s (put_none P u s)"
  by (simp_all add: put_ok_def put_none_def same_trans [OF same_text(2) same_text(1)])

lemma same_greeting: "same s (greeting P s)"
  unfolding greeting_def Let_def by (intro same_trans [OF _ same_text(1)] same_trans [OF _ same_text(2)] same_trans [OF _ same_ok(1)] same_refl)

lemma same_marks: "same s (fold (\<lambda>(i, c). mark i c) ms s)"
proof (induction ms arbitrary: s)
  case (Cons m ms)
  then show ?case by (cases m) (auto intro: same_trans [OF same_text(3) Cons.IH])
qed (simp add: same_refl)

lemmas same_fields [simp] =
  same_console [unfolded same_def] same_on [unfolded same_def] same_text [unfolded same_def] same_ok [unfolded same_def]
  same_greeting [unfolded same_def] same_marks [unfolded same_def]

text \<open>A computation that has a result with the property.\<close>

definition yields :: "'a option \<Rightarrow> ('a \<Rightarrow> bool) \<Rightarrow> bool" where
  "yields r Q \<longleftrightarrow> (\<exists>x. r = Some x \<and> Q x)"

lemma yields_simps [simp]: "yields (Some x) Q = Q x" "yields None Q = False"
  by (simp_all add: yields_def)

lemma yields_bind: "yields r (\<lambda>x. yields (f x) Q) \<Longrightarrow> yields (Option.bind r f) Q"
  by (auto simp: yields_def)

text \<open>The rules that walk through a sequence of steps; a step that only prints leaves a state that agrees.\<close>

lemma yields_let: "(\<And>x. x = e \<Longrightarrow> yields (f x) Q) \<Longrightarrow> yields (let x = e in f x) Q"
  by simp

lemma yields_print: "same s e \<Longrightarrow> (\<And>x. same s x \<Longrightarrow> yields (f x) Q) \<Longrightarrow> yields (let x = e in f x) Q"
  by simp

lemmas yields_prints = yields_print [OF same_on] yields_print [OF same_text(1)] yields_print [OF same_text(2)] yields_print [OF same_text(3)]
  yields_print [OF same_ok(1)] yields_print [OF same_ok(2)] yields_print [OF same_marks] yields_print [OF same_console]

lemma yields_pair: "yields (f a b) Q \<Longrightarrow> yields (case (a, b) of (x, y) \<Rightarrow> f x y) Q"
  by simp

lemma yields_mono: "yields r Q \<Longrightarrow> (\<And>x. Q x \<Longrightarrow> R x) \<Longrightarrow> yields r R"
  by (auto simp: yields_def)

lemma yields_serial:
  assumes "devices_ready P" "\<And>s'. same s s' \<Longrightarrow> yields (f s') R"
  shows "yields (Option.bind (put_serial P t s) f) R"
proof -
  obtain m where "serial_puts P (ascii (''[SERIAL] '' @ t) @ [0x0D, 0x0A]) (os_port s) = Some m"
    using serial_puts_ready [OF conjunct1 [OF assms(1) [unfolded devices_ready_def]]] by blast
  then have "put_serial P t s = Some (s\<lparr>os_port := m\<rparr>)" by (simp add: put_serial_def)
  with assms(2) [of "s\<lparr>os_port := m\<rparr>"] show ?thesis by (simp add: same_def)
qed

lemma boot_console_same:
  assumes "devices_ready P"
  shows "yields (boot_console P B s) (same s)"
  unfolding boot_console_def
  by (rule yields_prints yields_serial [OF assms] yields_let)+ (auto simp: same_def upd_k_def split: prod.splits)

text \<open>The handlers after \<open>isr_init\<close>, and the system call.\<close>

definition exceptions :: "('m, 'k) handlers \<Rightarrow> ('m, 'k) handlers" where
  "exceptions H = isr_register_handler 14 fatal_exception (isr_register_handler 13 fatal_exception (isr_register_handler 6 fatal_exception H))"

lemma isr_init_table: "isr_init P isr irq (m, idt, H) = (m', idt', H') \<Longrightarrow> H' = exceptions H"
  by (auto simp: isr_init_def exceptions_def Let_def)

lemma syscall_init_table:
  assumes "devices_ready P"
  shows "\<exists>c. syscall_init P D (H, mv) = Some (isr_register_handler 0x80 (syscall_handler (syscall_table P D)) H, c)"
proof -
  have "format_ok syscall_message []" by (simp add: syscall_message_def)
  then obtain c where "printk P syscall_message [] mv = Some c"
    using vprintk_ready [of P syscall_message "[]" mv] assms by (auto simp: printk_def devices_ready_def)
  then show ?thesis by (simp add: syscall_init_def)
qed

lemma boot_interrupts_same:
  assumes "devices_ready P"
  shows "yields (boot_interrupts P D B s)
    (same (s\<lparr>os_handlers := add_handlers call_part put_call (isr_register_handler 0x80 (syscall_handler (syscall_table P D)) no_handlers)
              (exceptions (os_handlers s))\<rparr>))"
proof -
  have call: "yields (Option.bind (syscall_init P D (no_handlers, mv)) f) Q"
    if "\<And>c. yields (f (isr_register_handler 0x80 (syscall_handler (syscall_table P D)) no_handlers, c)) Q" for mv f Q
    using syscall_init_table [OF assms, of D no_handlers mv] that by auto
  show ?thesis
    unfolding boot_interrupts_def
    by (rule yields_prints yields_serial [OF assms] call yields_pair yields_let)+
      (auto simp: same_def upd_k_def split: prod.splits dest: isr_init_table)
qed

lemma yields_case: "(\<And>a b. x = (a, b) \<Longrightarrow> yields (f a b) Q) \<Longrightarrow> yields (case x of (a, b) \<Rightarrow> f a b) Q"
  by (cases x) simp

lemma yields_if: "(b \<Longrightarrow> yields r Q) \<Longrightarrow> (\<not> b \<Longrightarrow> yields r' Q) \<Longrightarrow> yields (if b then r else r') Q"
  by simp

text \<open>The size of the screen in an accepted mode.\<close>

lemma graphics_init_size:
  assumes "mode_accepted b" "graphics_init b (g, vm) = (g', vm')"
  shows "graphics_width g' \<noteq> 0 \<and> graphics_width g' \<le> 1280 \<and> graphics_height g' \<noteq> 0 \<and> graphics_height g' \<le> 720"
proof -
  from assms(1) obtain i where i: "vesa_get_boot_mode b = Some i" "vm_width i \<le> 1280" "vm_height i \<le> 720"
    by (auto simp: mode_accepted_def split: option.splits)
  then have nz: "vm_width i \<noteq> 0" "vm_height i \<noteq> 0" and bpp: "ucast (vm_bpp i) = (24 :: u8) \<or> ucast (vm_bpp i) = (32 :: u8)"
      and fb: "vm_framebuffer i \<noteq> 0"
    by (auto simp: vesa_get_boot_mode_def split: if_splits)
  have "ucast (vm_width i) \<noteq> (0 :: u32) \<and> ucast (vm_width i) \<le> (1280 :: u32) \<and> ucast (vm_height i) \<noteq> (0 :: u32) \<and> ucast (vm_height i) \<le> (720 :: u32)"
    using nz i(2,3) by (simp add: word_le_nat_alt word_unat_eq_iff)
  then show ?thesis
    using assms(2) i bpp fb by (auto simp: graphics_init_def graphics_clear_def graphics_present_def Let_def not_less [symmetric])
qed

lemma boot_memory_same:
  assumes "devices_ready P" "mode_accepted (be_vbe B)"
  shows "yields (boot_memory P B s) (\<lambda>s'. \<exists>pd g.
    graphics_width g \<noteq> 0 \<and> graphics_width g \<le> 1280 \<and> graphics_height g \<noteq> 0 \<and> graphics_height g \<le> 720 \<and>
    (let h = heap_init (kheap (ks_sched (os_k s))) in
     same (upd_k (\<lambda>k. k\<lparr>ks_sched := (ks_sched k)\<lparr>kernel_pd := pd, kheap := h\<rparr>, ks_gfx := g,
              ks_wm := (ks_wm k)\<lparr>wm_heap := h, gfx_w := graphics_width g, gfx_h := graphics_height g\<rparr>\<rparr>) s) s'))"
proof -
  let ?fmt = "ascii ''[SERIAL] gfx mode %ux%u bpp=%u pitch=%u fb=0x%x'' @ [0x0D, 0x0A]"
  have print: "yields (Option.bind (kprintf P ?fmt [Word a, Word b, Word c, Word d, Word e] mv) f) Q"
    if "\<And>c. yields (f c) Q" for a b c d e mv f Q
  proof -
    have "format_ok ?fmt [Word a, Word b, Word c, Word d, Word e]" by (simp add: ascii_def of_char_def)
    then obtain c' where "kprintf P ?fmt [Word a, Word b, Word c, Word d, Word e] mv = Some c'"
      using vprintk_ready [of P] assms(1) unfolding kprintf_def devices_ready_def by blast
    then show ?thesis using that by simp
  qed
  show ?thesis
    unfolding boot_memory_def
    by (rule yields_prints yields_serial [OF assms(1)] print yields_let)+
      (auto simp: same_def upd_k_def set_sched_def graphics_get_width_def graphics_get_height_def Let_def
        split: prod.splits dest: graphics_init_size [OF assms(2)])
qed

lemma mouse_init_table:
  assumes "devices_ready P" "mouse_inv ms"
  shows "\<exists>m' ms'. mouse_init P w h (m, H, ms) = Some (m', register_irq_handler 12 (mouse_handler P w h) H, ms') \<and> mouse_inv ms'"
proof -
  obtain m1 where "ps2_flush_output P m = Some m1" using assms(1) by (auto simp: devices_ready_def)
  then show ?thesis using assms(2) by (auto simp: mouse_init_def Let_def split: prod.splits)
qed

lemma boot_devices_same:
  assumes "devices_ready P" "mouse_inv (ks_mouse (os_k s))"
  shows "yields (boot_devices P s) (\<lambda>s'. \<exists>t ms. mouse_inv ms \<and>
    (let g = ks_gfx (os_k s);
         H = register_irq_handler 0 timer_irq (os_handlers s);
         H = add_handlers input_part put_input (register_irq_handler 1 (keyboard_irq P) no_handlers) H;
         H = add_handlers input_part put_input (register_irq_handler 12 (mouse_handler P (graphics_width g) (graphics_height g)) no_handlers) H
     in same (upd_k (\<lambda>k. k\<lparr>ks_mouse := ms, ks_wm := wm_init (ks_wm k)\<rparr>) (s\<lparr>os_timer := t, os_handlers := H\<rparr>)) s'))"
proof -
  have timer: "yields (Option.bind (timer_init P 100 (m, H, t)) f) Q"
    if "\<And>m t. yields (f (m, register_irq_handler 0 timer_irq H, t)) Q" for m H t f Q
    using that by (simp add: timer_init_def Let_def)
  have kbd: "yields (Option.bind (keyboard_init P (m, H)) f) Q"
    if "\<And>m. yields (f (m, register_irq_handler 1 (keyboard_irq P) H)) Q" for m and H :: "('a, kbd \<times> mouse \<times> unit) handlers" and f Q
  proof -
    obtain m1 where "ps2_flush_output P m = Some m1" using assms(1) by (auto simp: devices_ready_def)
    then show ?thesis using that by (simp add: keyboard_init_def Let_def)
  qed
  have mouse: "yields (Option.bind (mouse_init P w h (m, H, ms)) f) Q"
    if "mouse_inv ms" "\<And>m ms. mouse_inv ms \<Longrightarrow> yields (f (m, register_irq_handler 12 (mouse_handler P w h) H, ms)) Q"
    for w h m ms and H :: "('a, kbd \<times> mouse \<times> unit) handlers" and f Q
    using mouse_init_table [OF assms(1) that(1), of w h m H] that(2) by auto
  show ?thesis
    unfolding boot_devices_def
    by (rule yields_prints yields_serial [OF assms(1)] timer kbd yields_pair yields_let)+
      (rule mouse, use assms(2) in \<open>simp add: same_def\<close>,
       (rule yields_prints yields_serial [OF assms(1)] yields_pair yields_let)+,
       auto simp: same_def upd_k_def graphics_get_width_def graphics_get_height_def Let_def)
qed

lemma boot_files_same:
  assumes "devices_ready P"
  shows "yields (boot_files P D B s) (same (upd_k (\<lambda>k. set_sched (process_init (ks_sched k)) k)
      (s\<lparr>os_timer := timer_set_scheduler (Some schedule_hook) (os_timer s)\<rparr>)))"
proof -
  let ?Q = "same (upd_k (\<lambda>k. set_sched (process_init (ks_sched k)) k)
      (s\<lparr>os_timer := timer_set_scheduler (Some schedule_hook) (os_timer s)\<rparr>))"
  have last: "yields (Option.bind (put_serial P t s1) (\<lambda>s. Some (f s))) ?Q"
    if "?Q s1" "\<And>s. same s (f s)" for t f s1
    by (rule yields_serial [OF assms]) (use that in \<open>auto dest: same_trans\<close>)
  have seed: "yields (let s = upd_k (\<lambda>k. k\<lparr>ks_vfs := g k\<rparr>) s1 in Option.bind (put_serial P t s) (\<lambda>s. Some (f s))) ?Q"
    if "?Q s1" "\<And>s. same s (f s)" for t f s1 g
    unfolding Let_def by (rule last) (use that in \<open>simp_all add: same_def upd_k_def\<close>)
  have mounted: "yields (if b then let s = upd_k (\<lambda>k. k\<lparr>ks_vfs := g k\<rparr>) s1 in Option.bind (put_serial P t s) (\<lambda>s. Some (f s))
       else Option.bind (put_serial P t' s1) (\<lambda>s. Some (f' s))) ?Q"
    if "?Q s1" "\<And>s. same s (f s)" "\<And>s. same s (f' s)" for b t t' f f' g s1
    using seed [OF that(1,2)] last [OF that(1,3)] by simp
  show ?thesis
    unfolding boot_files_def
    by (rule yields_prints yields_serial [OF assms] yields_pair yields_case mounted yields_let same_ok)+
      (auto simp: same_def upd_k_def set_sched_def split: if_splits)
qed

text \<open>Before the desktop starts: no window is open, and the handlers and the hook are in place.\<close>

definition ready_for_desktop :: "'m ports \<Rightarrow> 'd dev \<Rightarrow> ('m, 'd) tetos \<Rightarrow> bool" where
  "ready_for_desktop P D s \<longleftrightarrow>
     (let k = os_k s in
      wm_ok (ks_wm k) [] \<and> wm_heap (ks_wm k) = kheap (ks_sched k) \<and>
      (\<exists>z h. kmalloc sizeof_wm_window (kheap (ks_sched k)) = Some (z, h) \<and> z \<noteq> 0) \<and>
      desk_ok (ks_desk k) \<and> solo (ks_sched k) \<and> kbd_inv (ks_kbd k) \<and> mouse_inv (ks_mouse k) \<and>
      dims_of (ks_wm k) = (graphics_width (ks_gfx k), graphics_height (ks_gfx k)) \<and>
      handlers_are P D (graphics_width (ks_gfx k)) (graphics_height (ks_gfx k)) (os_handlers s) \<and>
      sched_hook (os_timer s) = Some schedule_hook \<and> sched_hook_enabled (os_timer s) = 1)"

lemma kernel_inv_same: "same s s' \<Longrightarrow> kernel_inv P D s \<Longrightarrow> kernel_inv P D s'"
  using desk_inv_now [of s _ s'] by (auto simp: same_def kernel_inv_def Let_def)

lemma desktop_init_keeps:
  assumes "wm_ok s []" "desktop_init (s, d) = Some (s', d')"
  shows "dims_of s' = dims_of s \<and> d_interrupts d' = d_interrupts d"
proof -
  have push: "d_interrupts (term_push t c d) = d_interrupts d" for t c and d :: "'a desk"
    by (simp add: term_push_def Let_def)
  have create: "desktop_create_app i (s, d) = Some (s', d') \<Longrightarrow> d_interrupts d' = d_interrupts d" for i s s' and d d' :: "'a desk"
    by (auto simp: desktop_create_app_def Let_def split: option.splits prod.splits if_splits)
  have dims: "dims_of (s\<lparr>wm_reserved_bottom := h\<rparr>) = dims_of s" for h by (simp add: dims_of_def)
  show ?thesis
    using assms(2) by (auto simp: desktop_init_def reserve_empty(1) [OF assms(1)] push dims Let_def dest: create screen_create_app)
qed

lemma yields_last:
  assumes "devices_ready P" "\<And>s'. same s s' \<Longrightarrow> Q s'"
  shows "yields (put_serial P t s) Q"
proof -
  have "yields (Option.bind (put_serial P t s) Some) Q" by (rule yields_serial [OF assms(1)]) (simp add: assms(2))
  then show ?thesis by simp
qed

lemma boot_end_inv:
  assumes "devices_ready P" "ready_for_desktop P D s"
  shows "yields (boot_end P s) (\<lambda>s'. kernel_inv P D s' \<and> d_interrupts (ks_desk (os_k s')) \<and>
    shown (ks_wm (os_k s')) (ks_desk (os_k s')) 0 \<and> focus_key (ks_wm (os_k s')) = term_on_key_ptr)"
proof -
  let ?Q = "\<lambda>s'. kernel_inv P D s' \<and> d_interrupts (ks_desk (os_k s')) \<and>
    shown (ks_wm (os_k s')) (ks_desk (os_k s')) 0 \<and> focus_key (ks_wm (os_k s')) = term_on_key_ptr"
  have start: "yields (Option.bind (desktop_init (ks_wm (os_k s1), desk_now s1)) (\<lambda>(w, d). put_serial P t (desk_back w d s1))) ?Q"
    if s1: "same (upd_k (\<lambda>k. k\<lparr>ks_desk := (ks_desk k)\<lparr>d_interrupts := True\<rparr>\<rparr>) s) s1" for s1 t
  proof -
    have k: "ks_wm (os_k s1) = ks_wm (os_k s)" "ks_desk (os_k s1) = (ks_desk (os_k s))\<lparr>d_interrupts := True\<rparr>" "ks_sched (os_k s1) = ks_sched (os_k s)"
      using s1 by (simp_all add: same_def upd_k_def)
    have wm: "wm_ok (ks_wm (os_k s1)) []" and room: "\<exists>z h. kmalloc sizeof_wm_window (kheap (ks_sched (os_k s1))) = Some (z, h) \<and> z \<noteq> 0"
      and heaps: "wm_heap (ks_wm (os_k s1)) = kheap (ks_sched (os_k s1))" and solo: "solo (ks_sched (os_k s1))" and desk: "desk_ok (desk_now s1)"
      using assms(2) by (auto simp: ready_for_desktop_def k desk_now_def Let_def)
    then have "sched_wf (d_sched (desk_now s1))" by (simp add: desk_now_def solo_parts(4))
    from desktop_init_ready [OF wm desk this] obtain w d zs where
      d: "desktop_init (ks_wm (os_k s1), desk_now s1) = Some (w, d)" "desk_inv w d zs" "d_port d = d_port (desk_now s1)"
        "shown w d 0" "focus_key w = term_on_key_ptr"
      using room unfolding heaps [symmetric] by metis
    note keeps = desktop_init_keeps [OF wm d(1)]
    let ?s = "desk_back w d s1"
    have heap: "heap_inv (wm_heap w)" using d(2) by (simp add: desk_inv_def wm_ok_def)
    have solo': "solo ((ks_sched (os_k s1))\<lparr>kheap := wm_heap w\<rparr>)" by (rule solo_heap [OF solo heap])
    have "desk_inv w (desk_now ?s) zs"
      using desk_inv_shared [OF d(2) solo_parts(4) [OF solo'], of "ks_drive (os_k s1)" "vm_pmm (ks_vm (os_k s1))" "timer_ticks (os_timer s1)" "d_port d"]
      by (simp add: desk_now_def desk_back_def)
    then have "kernel_inv P D ?s"
      using assms(2) s1 solo' keeps k(1)
      by (auto simp: kernel_inv_def ready_for_desktop_def same_def desk_back_def upd_k_def dims_of_def Let_def)
    moreover have "d_interrupts (ks_desk (os_k ?s))" using keeps k(2) by (simp add: desk_back_def desk_now_def)
    moreover have "shown (ks_wm (os_k ?s)) (ks_desk (os_k ?s)) 0" "focus_key (ks_wm (os_k ?s)) = term_on_key_ptr"
      using d(4,5) by (simp_all add: desk_back_def)
    ultimately have "?Q s'" if "same ?s s'" for s' using kernel_inv_same [OF that] that by (simp add: same_def)
    then show ?thesis unfolding d(1) by (simp add: yields_last [OF assms(1)])
  qed
  show ?thesis
    unfolding boot_end_def
    by (rule yields_prints yields_serial [OF assms(1)] start yields_let)+ (auto simp: same_def upd_k_def)
qed

text \<open>The table of handlers the boot sequence builds.\<close>

lemma add_handlers_nth:
  "length new = length H \<Longrightarrow> v < length H \<Longrightarrow>
     add_handlers get put new H ! v = (case new ! v of None \<Rightarrow> H ! v | Some h \<Rightarrow> Some (lift_handler get put h))"
  by (simp add: add_handlers_def)

lemma length_handlers [simp]:
  "length (add_handlers get put new H) = min (length new) (length H)" "length (isr_register_handler n h H) = length H"
  "length (register_irq_handler i h H) = length H" "length (exceptions H) = length H"
  by (simp_all add: add_handlers_def isr_register_handler_def register_irq_handler_def exceptions_def)

lemma register_nth:
  "v < length H \<Longrightarrow> isr_register_handler n h H ! v = (if v = unat n then Some h else H ! v)"
  "i \<le> 15 \<Longrightarrow> v < length H \<Longrightarrow> register_irq_handler i h H ! v = (if v = 32 + unat i then Some h else H ! v)"
  by (simp_all add: isr_register_handler_def register_irq_handler_def nth_list_update not_less [symmetric])

lemma boot_handlers:
  "handlers_are P D w h
     (add_handlers input_part put_input (register_irq_handler 12 (mouse_handler P w h) no_handlers)
       (add_handlers input_part put_input (register_irq_handler 1 (keyboard_irq P) no_handlers)
         (register_irq_handler 0 timer_irq
           (add_handlers call_part put_call (isr_register_handler 0x80 (syscall_handler (syscall_table P D)) no_handlers)
             (exceptions no_handlers)))))"
  unfolding handlers_are_def by (simp add: add_handlers_nth register_nth exceptions_def)

lemma process_init_solo:
  assumes "process_table s = replicate 16 empty_slot" "next_pid s = 0" "sched_switch_esp s = 0" "heap_inv (kheap s)"
  shows "solo (process_init s) \<and> kheap (process_init s) = kheap s"
proof -
  have "sched_ok (process_init s) 0 []" "p_state (process_table (process_init s) ! 0) = PROC_RUNNING"
    using process_init_ok [of s] assms by simp_all
  moreover have "p_stack (process_table (process_init s) ! 0) = 0"
    using assms(1) by (simp add: process_init_def Let_def upd_nth clear_fds_def copy_pname_def)
  moreover have "\<forall>p \<in> set (process_table (process_init s)). terminated (p_name p)"
    using assms(1) by (auto simp: process_init_def Let_def upd_def copy_pname_def clear_fds_def empty_slot_def blit_def
        dest!: subsetD [OF set_update_subset_insert])
  ultimately show ?thesis using assms(3) by (simp add: solo_def process_init_def Let_def)
qed

lemma wm_init_empty:
  assumes "heap_inv (wm_heap w)" "gfx_w w \<noteq> 0" "gfx_w w \<le> 1280" "gfx_h w \<noteq> 0" "gfx_h w \<le> 720"
  shows "wm_ok (wm_init w) [] \<and> dims_of (wm_init w) = dims_of w \<and> wm_heap (wm_init w) = wm_heap w"
proof -
  have "0 < unat (gfx_w w)" "unat (gfx_w w) < 2 ^ 31" "0 < unat (gfx_h w)" "unat (gfx_h w) < 2 ^ 31"
    using assms(2-5) by (auto simp: word_le_nat_alt unat_gt_0)
  then show ?thesis
    using assms(1) by (simp add: wm_ok_def wm_init_def wm_refresh_screen_def zlist_def dims_of_def Let_def)
qed

lemma heap_init_room: "heap_inv (heap_init h)" "\<exists>z k. kmalloc sizeof_wm_window (heap_init h) = Some (z, k) \<and> z \<noteq> 0"
proof -
  show "heap_inv (heap_init h)" unfolding heap_inv_def using heap_init_blocks by blast
  show "\<exists>z k. kmalloc sizeof_wm_window (heap_init h) = Some (z, k) \<and> z \<noteq> 0"
    by (simp add: kmalloc_def heap_init_def kmalloc_walk.simps)
qed

section \<open>The kernel boots and runs\<close>

text \<open>The boot loader falls back to 1024 by 768 pixels, which \<open>graphics_init\<close> refuses: there is no screen then.\<close>

lemma fallback_mode_refused: "vbe_yresolution b = 768 \<Longrightarrow> graphics_init b (g, vm) = (graphics_off g, vm)"
  by (simp add: graphics_init_def vesa_get_boot_mode_def)

lemma boot_inv:
  assumes "loaded s" "mode_accepted (be_vbe B)" "devices_ready P"
  shows "yields (kernel_main_init P D B s) (\<lambda>s'. kernel_inv P D s' \<and> d_interrupts (ks_desk (os_k s')) \<and>
    shown (ks_wm (os_k s')) (ks_desk (os_k s')) 0 \<and> focus_key (ks_wm (os_k s')) = term_on_key_ptr)"
proof -
  let ?k = "os_k s"
  obtain m p sc dr where l: "os_handlers s = no_handlers" "process_table (ks_sched ?k) = replicate 16 empty_slot" "next_pid (ks_sched ?k) = 0"
    "sched_switch_esp (ks_sched ?k) = 0" "ks_kbd ?k = kbd_boot" "ks_mouse ?k = mouse_boot" "ks_desk ?k = desk_boot m p sc dr"
    using assms(1) by (auto simp: loaded_def Let_def)
  obtain s1 where 1: "boot_console P B s = Some s1" "same s s1"
    using boot_console_same [OF assms(3), of B s] by (auto simp: yields_def)
  obtain s2 where 2: "boot_interrupts P D B s1 = Some s2" "same (s1\<lparr>os_handlers := add_handlers call_part put_call
      (isr_register_handler 0x80 (syscall_handler (syscall_table P D)) no_handlers) (exceptions (os_handlers s1))\<rparr>) s2"
    using boot_interrupts_same [OF assms(3), of D B s1] by (auto simp: yields_def)
  define h where "h = heap_init (kheap (ks_sched ?k))"
  obtain s3 pd g where 3: "boot_memory P B s2 = Some s3"
      "graphics_width g \<noteq> 0" "graphics_width g \<le> 1280" "graphics_height g \<noteq> 0" "graphics_height g \<le> 720"
      "same (upd_k (\<lambda>k. k\<lparr>ks_sched := (ks_sched k)\<lparr>kernel_pd := pd, kheap := h\<rparr>, ks_gfx := g,
        ks_wm := (ks_wm k)\<lparr>wm_heap := h, gfx_w := graphics_width g, gfx_h := graphics_height g\<rparr>\<rparr>) s2) s3"
    using boot_memory_same [OF assms(3,2), of s2] 1(2) 2(2) by (auto simp: yields_def same_def Let_def h_def)
  have m3: "mouse_inv (ks_mouse (os_k s3))" using 1(2) 2(2) 3(6) l mouse_boot_inv by (simp add: same_def upd_k_def)
  obtain s4 t ms where 4: "boot_devices P s3 = Some s4" "mouse_inv ms"
      "same (upd_k (\<lambda>k. k\<lparr>ks_mouse := ms, ks_wm := wm_init (ks_wm k)\<rparr>) (s3\<lparr>os_timer := t, os_handlers :=
        add_handlers input_part put_input (register_irq_handler 12 (mouse_handler P (graphics_width g) (graphics_height g)) no_handlers)
          (add_handlers input_part put_input (register_irq_handler 1 (keyboard_irq P) no_handlers)
            (register_irq_handler 0 timer_irq (os_handlers s3)))\<rparr>)) s4"
    using boot_devices_same [OF assms(3) m3] 3(6) by (auto simp: yields_def same_def upd_k_def Let_def)
  obtain s5 where 5: "boot_files P D B s4 = Some s5" "same (upd_k (\<lambda>k. set_sched (process_init (ks_sched k)) k)
      (s4\<lparr>os_timer := timer_set_scheduler (Some schedule_hook) (os_timer s4)\<rparr>)) s5"
    using boot_files_same [OF assms(3), of D B s4] by (auto simp: yields_def)
  let ?w = "(ks_wm ?k)\<lparr>wm_heap := h, gfx_w := graphics_width g, gfx_h := graphics_height g\<rparr>"
  let ?sc = "(ks_sched ?k)\<lparr>kernel_pd := pd, kheap := h\<rparr>"
  note room = heap_init_room [of "kheap (ks_sched ?k)", folded h_def]
  have sched: "solo (process_init ?sc)" "kheap (process_init ?sc) = h"
    using process_init_solo [of ?sc] l room(1) by simp_all
  have wm: "wm_ok (wm_init ?w) []" "dims_of (wm_init ?w) = (graphics_width g, graphics_height g)" "wm_heap (wm_init ?w) = h"
    using wm_init_empty [of ?w] 3(2-5) room(1) by (simp_all add: dims_of_def)
  have k: "ks_wm (os_k s5) = wm_init ?w" "ks_sched (os_k s5) = process_init ?sc" "ks_gfx (os_k s5) = g" "ks_desk (os_k s5) = desk_boot m p sc dr"
      "ks_kbd (os_k s5) = kbd_boot" "ks_mouse (os_k s5) = ms" "sched_hook (os_timer s5) = Some schedule_hook" "sched_hook_enabled (os_timer s5) = 1"
    using 1(2) 2(2) 3(6) 4(3) 5(2) l(5-7) sched(2) wm(3) by (simp_all add: same_def upd_k_def set_sched_def timer_set_scheduler_def)
  have H: "handlers_are P D (graphics_width g) (graphics_height g) (os_handlers s5)"
    using boot_handlers [of P D "graphics_width g" "graphics_height g"] 1(2) 2(2) 3(6) 4(3) 5(2) l(1) by (simp add: same_def upd_k_def)
  have "ready_for_desktop P D s5"
    unfolding ready_for_desktop_def Let_def k
    using sched wm room(2) H 4(2) desk_boot_ok(1) kbd_inv_boot by auto
  from boot_end_inv [OF assms(3) this] show ?thesis by (simp add: kernel_main_init_def 1(1) 2(1) 3(1) 4(1) 5(1))
qed

text \<open>How a run may stand: running with the invariant, halted, or waiting forever for the keyboard controller before a reboot.\<close>

definition kernel_good :: "'m ports \<Rightarrow> 'd dev \<Rightarrow> ('m, 'd) tetos outcome \<Rightarrow> bool" where
  "kernel_good P D r =
     (case r of
        Running s \<Rightarrow> kernel_inv P D s
      | Halted s \<Rightarrow> \<not> d_interrupts (ks_desk (os_k s))
      | Stuck \<Rightarrow> (\<exists>m. controller_wait P 0x02 m = None))"

lemma kernel_step_good: "kernel_step P r r' \<Longrightarrow> kernel_good P D r \<Longrightarrow> kernel_good P D r'"
proof (induction rule: kernel_step.induct)
  case (turn s)
  then have "kernel_inv P D s" by (simp add: kernel_good_def)
  from kernel_turn_safe [OF this] show ?case by (auto simp: kernel_good_def split: outcome.splits)
next
  case (irq n s regs)
  then have "kernel_inv P D s" by (simp add: kernel_good_def)
  from kernel_irq_safe [OF this irq(1), of regs] show ?case by (auto simp: kernel_good_def)
qed

text \<open>
  C21. The kernel boots. Loaded with zeroed variables, in a video mode it accepts, on a machine whose serial line gets
  ready and whose keyboard controller runs dry, whatever is in memory and on the disk, \<open>kernel_main\<close> reaches its
  loop. Then interrupts are on, all components are well formed and agree on the heap and the screen, exactly the
  handlers of exceptions, timer, keyboard, mouse and system call are installed, a tick runs the scheduler, and the
  terminal is on the screen and has the focus.
\<close>

theorem kernel_boots:
  assumes "loaded s\<^sub>0" "mode_accepted (be_vbe B)" "devices_ready P"
  shows "\<exists>s. kernel_main_init P D B s\<^sub>0 = Some s \<and> kernel_inv P D s \<and> d_interrupts (ks_desk (os_k s)) \<and>
    shown (ks_wm (os_k s)) (ks_desk (os_k s)) 0 \<and> focus_key (ks_wm (os_k s)) = term_on_key_ptr"
  using boot_inv [OF assms, of D] by (auto simp: yields_def)


section \<open>Witnesses\<close>

text \<open>A machine that logs the writes to its ports, its serial line always ready and nothing to read elsewhere.\<close>

definition machine_demo :: "(u16 \<times> u8) list ports" where
  "machine_demo = log_ports (\<lambda>p. if p = 0x3FD then 0x20 else 0)"

definition tetos_demo :: "((u16 \<times> u8) list, sim ata_state) tetos" where
  "tetos_demo = \<lparr>os_port = [], os_handlers = no_handlers,
     os_timer = \<lparr>tick_count = 0, sched_hook = None, sched_hook_enabled = 0\<rparr>,
     os_k = \<lparr>ks_vga = \<lparr>vga_buffer = replicate 4000 0, vga_index = 0, vga_current_color = 0\<rparr>,
       ks_gdtp = \<lparr>gp_limit = 0, gp_base = 0\<rparr>, ks_gdt = [], ks_tss = tss_zero, ks_idtp = \<lparr>idtp_limit = 0, idtp_base = 0\<rparr>, ks_idt = [],
       ks_vm = vm_boot, ks_gfx = gfx_boot,
       ks_sched = \<lparr>process_table = replicate 16 empty_slot, run_queue = None, current_process = None, next_pid = 0,
         sched_switch_esp = 0, sched_switch_cr3 = 0, quantum_count = 0, kheap = heap_boot, words = (\<lambda>_. 0), kernel_pd = 0\<rparr>,
       ks_kbd = kbd_boot, ks_mouse = mouse_boot, ks_wm = wm_boot,
       ks_drive = \<lparr>ata_model = [], ata_sectors = 0, ata_present = 0\<rparr>, ks_vfs = vfs_boot, ks_mem = (\<lambda>_. 0), ks_desk = desk_demo\<rparr>\<rparr>"

definition env_demo :: build_env where
  "env_demo = \<lparr>be_gdt = 0x101000, be_tss = 0x102000, be_stack = 0x103000, be_idt = 0x104000, be_isr = (\<lambda>n. 0x105000 + of_nat n),
     be_irq = (\<lambda>n. 0x106000 + of_nat n), be_kernel_end = 0x200000,
     be_vbe = \<lparr>vbe_attributes = 0x81, vbe_bytes_per_scanline = 2400, vbe_xresolution = 800, vbe_yresolution = 600, vbe_bpp = 24,
       vbe_phys_base_ptr = 0xFD000000\<rparr>, be_hello_elf = []\<rparr>"

lemma demo_ready: "loaded tetos_demo" "mode_accepted (be_vbe env_demo)" "devices_ready machine_demo"
proof -
  show "loaded tetos_demo" unfolding loaded_def tetos_demo_def desk_demo_def by auto
  show "mode_accepted (be_vbe env_demo)" by (simp add: mode_accepted_def env_demo_def vesa_get_boot_mode_def)
  have "ps2_flush_output machine_demo m = Some m" for m by (simp add: ps2_flush_output.simps machine_demo_def)
  then show "devices_ready machine_demo" by (simp add: devices_ready_def serial_ready_def machine_demo_def)
qed

theorem kernel_boots_witness:
  "\<exists>s. kernel_main_init machine_demo adev env_demo tetos_demo = Some s \<and> kernel_inv machine_demo adev s \<and>
     d_interrupts (ks_desk (os_k s)) \<and> shown (ks_wm (os_k s)) (ks_desk (os_k s)) 0 \<and> focus_key (ks_wm (os_k s)) = term_on_key_ptr"
  by (rule kernel_boots [OF demo_ready])


end
